(* ===== verification/Prelude.thy ===== *)
theory Prelude
  imports Main "HOL-Library.AList"
begin

section \<open>Shared vocabulary\<close>

text \<open>
  What every component uses of the language the repository is written in: optional values
  and the truthiness of optional strings, trimming, searching and splicing arrays,
  insertion-ordered maps (\<open>Map\<close> objects, as association lists with distinct keys), the
  values a JSON document can hold, and the shape of a bounded retry delay.

  Strings are lists of 8-bit characters, read as the code units 0 to 255. Times are integers
  counting milliseconds since the epoch; reading the clock is an argument \<open>now\<close> of the
  operation that reads it.
\<close>

type_synonym ms = int

named_theorems list_ops \<open>what the array operations do to lengths, elements and indices\<close>
named_theorems json_get \<open>how reading a property of an object goes through an update\<close>

subsection \<open>Optional values\<close>

text \<open>The operator \<open>a ?? b\<close>, with a nullable and with a plain right operand.\<close>

fun nullish :: "'a option \<Rightarrow> 'a option \<Rightarrow> 'a option" where
  "nullish (Some a) b = Some a"
| "nullish None b = b"

fun nullish_or :: "'a option \<Rightarrow> 'a \<Rightarrow> 'a" where
  "nullish_or (Some a) b = a"
| "nullish_or None b = b"

lemma nullish_None [simp]: "nullish a None = a"
  by (cases a) auto

lemma nullish_assoc: "nullish (nullish a b) c = nullish a (nullish b c)"
  by (cases a) auto

lemma nullish_eq_None [simp]: "nullish a b = None \<longleftrightarrow> a = None \<and> b = None"
  by (cases a) auto

text \<open>The right operand matters only when the left one is absent.\<close>

lemma nullish_cong: "a = a' \<Longrightarrow> (a' = None \<Longrightarrow> b = b') \<Longrightarrow> nullish a b = nullish a' b'"
  by (cases a) auto

text \<open>An optional string in a condition: absent and empty are both false.\<close>

fun truthy :: "string option \<Rightarrow> bool" where
  "truthy None = False"
| "truthy (Some s) = (s \<noteq> [])"

lemma truthy_iff: "truthy x \<longleftrightarrow> (\<exists>c cs. x = Some (c # cs))"
  by (cases x) (auto simp: neq_Nil_conv)

subsection \<open>Strings\<close>

text \<open>The white space that \<open>trim\<close> removes, among the code units 0 to 255.\<close>

definition js_space :: "char \<Rightarrow> bool" where
  "js_space c \<longleftrightarrow> of_char c \<in> {9, 10, 11, 12, 13, 32, 160 :: nat}"

definition trim_start :: "string \<Rightarrow> string" where
  "trim_start s = dropWhile js_space s"

definition trim :: "string \<Rightarrow> string" where
  "trim s = rev (trim_start (rev (trim_start s)))"

lemma trim_start_idem: "trim_start (trim_start s) = trim_start s"
  by (simp add: trim_start_def)

lemma trim_Nil [simp]: "trim [] = []"
  by (simp add: trim_def trim_start_def)

lemma ball_dropWhile: "(\<forall>c \<in> set (dropWhile P s). P c) \<longleftrightarrow> (\<forall>c \<in> set s. P c)"
  by (induction s) simp_all

lemma trim_eq_Nil: "trim s = [] \<longleftrightarrow> (\<forall>c \<in> set s. js_space c)"
  using ball_dropWhile [of js_space s] by (simp add: trim_def trim_start_def)

lemma trim_start_fix: "(s = [] \<or> \<not> js_space (hd s)) \<Longrightarrow> trim_start s = s"
  by (cases s) (auto simp: trim_start_def)

lemma hd_trim_start: "trim_start s \<noteq> [] \<Longrightarrow> \<not> js_space (hd (trim_start s))"
  by (simp add: trim_start_def hd_dropWhile)

lemma trim_start_suffix: "\<exists>p. s = p @ trim_start s"
  unfolding trim_start_def by (metis takeWhile_dropWhile_id)

text \<open>A trimmed string starts and ends with a character that is not white space.\<close>

lemma hd_trim: "trim s \<noteq> [] \<Longrightarrow> \<not> js_space (hd (trim s))"
proof -
  assume ne: "trim s \<noteq> []"
  define u where "u = trim_start s"
  obtain p where p: "rev u = p @ trim_start (rev u)"
    using trim_start_suffix by blast
  then have "u = rev (trim_start (rev u)) @ rev p"
    by (metis rev_append rev_rev_ident)
  then have "hd u = hd (trim s)"
    using ne by (metis u_def trim_def hd_append2)
  moreover have "u \<noteq> []"
    using ne by (metis u_def trim_def rev.simps(1) trim_Nil trim_start_idem)
  ultimately show ?thesis
    using hd_trim_start u_def by metis
qed

lemma last_trim: "trim s \<noteq> [] \<Longrightarrow> \<not> js_space (last (trim s))"
  by (metis hd_trim_start last_rev rev_is_Nil_conv trim_def)

lemma trim_idem [simp]: "trim (trim s) = trim s"
proof (cases "trim s = []")
  case False
  have "trim_start (trim s) = trim s"
    using False hd_trim by (intro trim_start_fix) blast
  moreover have "trim_start (rev (trim s)) = rev (trim s)"
    using False last_trim by (intro trim_start_fix) (metis last_rev rev_rev_ident rev_is_Nil_conv)
  ultimately show ?thesis by (simp add: trim_def [of "trim s"])
qed simp

text \<open>\<open>toLowerCase\<close> on the code units 0 to 255.\<close>

definition lower_char :: "char \<Rightarrow> char" where
  "lower_char c =
     (let n = of_char c :: nat in
      if 65 \<le> n \<and> n \<le> 90 \<or> 192 \<le> n \<and> n \<le> 222 \<and> n \<noteq> 215 then char_of (n + 32) else c)"

definition to_lower :: "string \<Rightarrow> string" where
  "to_lower = map lower_char"

lemma lower_char_idem: "lower_char (lower_char c) = lower_char c"
  by (simp add: lower_char_def Let_def)

lemma to_lower_idem [simp]: "to_lower (to_lower s) = to_lower s"
  by (simp add: to_lower_def lower_char_idem)

definition is_digit :: "char \<Rightarrow> bool" where
  "is_digit c \<longleftrightarrow> (let n = of_char c :: nat in 48 \<le> n \<and> n \<le> 57)"

definition starts_with :: "string \<Rightarrow> string \<Rightarrow> bool" where
  "starts_with p s \<longleftrightarrow> take (length p) s = p"

lemma starts_with_iff: "starts_with p s \<longleftrightarrow> (\<exists>t. s = p @ t)"
  unfolding starts_with_def by (metis append_eq_conv_conj)

subsection \<open>Splitting and joining\<close>

fun split_on :: "char \<Rightarrow> string \<Rightarrow> string list" where
  "split_on c [] = [[]]"
| "split_on c (x # xs) =
     (if x = c then [] # split_on c xs
      else case split_on c xs of [] \<Rightarrow> [[x]] | seg # segs \<Rightarrow> (x # seg) # segs)"

fun join_with :: "char \<Rightarrow> string list \<Rightarrow> string" where
  "join_with c [] = []"
| "join_with c [seg] = seg"
| "join_with c (seg # seg' # segs) = seg @ c # join_with c (seg' # segs)"

lemma split_on_not_Nil [simp]: "split_on c s \<noteq> []"
  by (cases s) (auto split: list.split)

lemma join_Cons: "segs \<noteq> [] \<Longrightarrow> join_with c (seg # segs) = seg @ c # join_with c segs"
  by (cases segs) simp_all

lemma join_split [simp]: "join_with c (split_on c s) = s"
proof (induction s)
  case (Cons x s)
  obtain seg segs where "split_on c s = seg # segs"
    by (cases "split_on c s") auto
  then show ?case using Cons by (cases segs) (auto simp: join_Cons)
qed simp

lemma split_no_sep: "seg \<in> set (split_on c s) \<Longrightarrow> c \<notin> set seg"
  by (induction s arbitrary: seg) (auto split: list.splits if_splits)

lemma split_on_append: "split_on c (a @ c # b) = split_on c a @ split_on c b"
  by (induction a) (auto split: list.split)

lemma split_plain: "c \<notin> set s \<Longrightarrow> split_on c s = [s]"
  by (induction s) auto

lemma join_append:
  "xs \<noteq> [] \<Longrightarrow> ys \<noteq> [] \<Longrightarrow> join_with c (xs @ ys) = join_with c xs @ c # join_with c ys"
proof (induction xs)
  case (Cons x xs)
  then show ?case by (cases xs) (simp_all add: join_Cons)
qed simp

lemma split_join:
  "segs \<noteq> [] \<Longrightarrow> \<forall>seg \<in> set segs. c \<notin> set seg \<Longrightarrow> split_on c (join_with c segs) = segs"
proof (induction segs)
  case (Cons seg segs)
  then show ?case
    by (cases segs) (simp_all add: split_plain split_on_append)
qed simp

text \<open>
  The words of a text: what \<open>trim().replace(/\s+/g, ' ')\<close> leaves between its single spaces.
\<close>

definition js_words :: "string \<Rightarrow> string list" where
  "js_words s = filter (\<lambda>w. w \<noteq> [])
     (split_on (CHR '' '') (map (\<lambda>c. if js_space c then CHR '' '' else c) s))"

abbreviation join_words :: "string list \<Rightarrow> string" where
  "join_words \<equiv> join_with (CHR '' '')"

definition plain_word :: "string \<Rightarrow> bool" where
  "plain_word w \<longleftrightarrow> w \<noteq> [] \<and> list_all (\<lambda>c. \<not> js_space c) w"

lemma js_words_join: "list_all plain_word ws \<Longrightarrow> js_words (join_words ws) = ws"
proof (cases "ws = []")
  case False
  assume plain: "list_all plain_word ws"
  have space: "js_space (CHR '' '')" by (simp add: js_space_def)
  have "map (\<lambda>c. if js_space c then CHR '' '' else c) (join_words ws) = join_words ws"
    using plain
  proof (induction ws)
    case (Cons w ws)
    have "map (\<lambda>c. if js_space c then CHR '' '' else c) w = w"
      using Cons.prems by (auto simp: plain_word_def list_all_iff intro: map_idI)
    then show ?case using Cons by (cases ws) (simp_all add: join_Cons)
  qed simp
  moreover have "split_on (CHR '' '') (join_words ws) = ws"
    using False plain space
    by (intro split_join) (auto simp: plain_word_def list_all_iff)
  moreover have "filter (\<lambda>w. w \<noteq> []) ws = ws"
    using plain by (auto simp: plain_word_def list_all_iff intro: filter_True)
  ultimately show ?thesis by (simp add: js_words_def)
qed (simp add: js_words_def)

subsection \<open>Arrays\<close>

text \<open>\<open>findIndex\<close>, with \<open>None\<close> for the result \<open>-1\<close>.\<close>

fun find_index :: "('a \<Rightarrow> bool) \<Rightarrow> 'a list \<Rightarrow> nat option" where
  "find_index P [] = None"
| "find_index P (x # xs) = (if P x then Some 0 else map_option Suc (find_index P xs))"

lemma find_index_None [list_ops]: "find_index P xs = None \<longleftrightarrow> (\<forall>x \<in> set xs. \<not> P x)"
  by (induction xs) auto

lemma find_index_Some:
  "find_index P xs = Some i \<longleftrightarrow> i < length xs \<and> P (xs ! i) \<and> (\<forall>j < i. \<not> P (xs ! j))"
proof (induction xs arbitrary: i)
  case (Cons x xs)
  show ?case
    by (cases i) (auto simp: Cons.IH less_Suc_eq_0_disj)
qed simp

lemma find_index_lt: "find_index P xs = Some i \<Longrightarrow> i < length xs"
  by (simp add: find_index_Some)

lemma find_index_nth: "find_index P xs = Some i \<Longrightarrow> P (xs ! i)"
  by (simp add: find_index_Some)

text \<open>\<open>splice(i, 1)\<close> and \<open>splice(i, 0, x)\<close> at an index that is in range.\<close>

definition remove_at :: "nat \<Rightarrow> 'a list \<Rightarrow> 'a list" where
  "remove_at i xs = take i xs @ drop (Suc i) xs"

definition insert_at :: "nat \<Rightarrow> 'a \<Rightarrow> 'a list \<Rightarrow> 'a list" where
  "insert_at i x xs = take i xs @ x # drop i xs"

lemma length_remove_at [list_ops]:
  "i < length xs \<Longrightarrow> length (remove_at i xs) = length xs - 1"
  by (simp add: remove_at_def)

lemma length_insert_at [list_ops]: "length (insert_at i x xs) = Suc (length xs)"
  by (simp add: insert_at_def)

lemma map_remove_at [list_ops]: "map f (remove_at i xs) = remove_at i (map f xs)"
  by (simp add: remove_at_def take_map drop_map)

lemma map_insert_at [list_ops]: "map f (insert_at i x xs) = insert_at i (f x) (map f xs)"
  by (simp add: insert_at_def take_map drop_map)

lemma set_remove_at_subset: "set (remove_at i xs) \<subseteq> set xs"
  by (auto simp: remove_at_def dest: in_set_takeD in_set_dropD)

lemma set_insert_at [list_ops]: "set (insert_at i x xs) = insert x (set xs)"
  by (simp add: insert_at_def) (metis append_take_drop_id set_append)

lemma split_at_nth:
  "i < length xs \<Longrightarrow> xs = take i xs @ xs ! i # drop (Suc i) xs"
  by (simp add: Cons_nth_drop_Suc)

lemma insert_remove_at: "i < length xs \<Longrightarrow> insert_at i (xs ! i) (remove_at i xs) = xs"
  by (simp add: insert_at_def remove_at_def Cons_nth_drop_Suc min_def)

lemma distinct_remove_at: "distinct xs \<Longrightarrow> distinct (remove_at i xs)"
proof -
  assume d: "distinct xs"
  have "set (drop (Suc i) xs) \<subseteq> set (drop i xs)"
    by (simp add: set_drop_subset_set_drop)
  moreover have "set (take i xs) \<inter> set (drop i xs) = {}"
    using d by (simp add: set_take_disj_set_drop_if_distinct)
  ultimately show ?thesis using d by (auto simp: remove_at_def)
qed

lemma not_in_remove_at:
  "distinct xs \<Longrightarrow> i < length xs \<Longrightarrow> xs ! i \<notin> set (remove_at i xs)"
  by (subst (asm) split_at_nth [of i xs]) (auto simp: remove_at_def)

lemma set_remove_at:
  "distinct xs \<Longrightarrow> i < length xs \<Longrightarrow> set (remove_at i xs) = set xs - {xs ! i}"
proof -
  assume d: "distinct xs" and i: "i < length xs"
  have "set xs = insert (xs ! i) (set (remove_at i xs))"
    by (subst split_at_nth [OF i]) (auto simp: remove_at_def)
  then show ?thesis using not_in_remove_at [OF d i] by auto
qed

lemma distinct_insert_at:
  "distinct (insert_at i x xs) \<longleftrightarrow> distinct xs \<and> x \<notin> set xs"
proof -
  have "distinct (insert_at i x xs) \<longleftrightarrow> distinct (x # (take i xs @ drop i xs))"
    unfolding insert_at_def by (simp only: distinct.simps distinct_append set_append) auto
  then show ?thesis by (simp only: append_take_drop_id distinct.simps) blast
qed

text \<open>\<open>new Set(xs)\<close> spread back into an array: the first occurrence of each element.\<close>

fun uniq_acc :: "'a list \<Rightarrow> 'a list \<Rightarrow> 'a list" where
  "uniq_acc acc [] = acc"
| "uniq_acc acc (x # xs) = uniq_acc (if x \<in> set acc then acc else acc @ [x]) xs"

definition uniq :: "'a list \<Rightarrow> 'a list" where
  "uniq xs = uniq_acc [] xs"

lemma set_uniq_acc: "set (uniq_acc acc xs) = set acc \<union> set xs"
  by (induction acc xs rule: uniq_acc.induct) auto

lemma distinct_uniq_acc: "distinct acc \<Longrightarrow> distinct (uniq_acc acc xs)"
  by (induction acc xs rule: uniq_acc.induct) auto

lemma set_uniq [simp]: "set (uniq xs) = set xs"
  by (simp add: uniq_def set_uniq_acc)

lemma distinct_uniq [simp]: "distinct (uniq xs)"
  by (simp add: uniq_def distinct_uniq_acc)

lemma uniq_eq_Nil [simp]: "uniq xs = [] \<longleftrightarrow> xs = []"
  by (metis set_empty set_uniq)

subsection \<open>Maps in insertion order\<close>

text \<open>
  A \<open>Map\<close> object is an association list with distinct keys: \<open>set\<close> keeps the position of
  a key it already holds and appends a new one, which is \<open>AList.update\<close>; \<open>delete\<close> is
  \<open>AList.delete\<close>; \<open>get\<close> is \<open>map_of\<close>; \<open>values()\<close> lists the second components.
\<close>

type_synonym ('k, 'v) jsmap = "('k \<times> 'v) list"

definition jsmap_ok :: "('k, 'v) jsmap \<Rightarrow> bool" where
  "jsmap_ok m \<longleftrightarrow> distinct (map fst m)"

lemma jsmap_ok_update [simp]: "jsmap_ok m \<Longrightarrow> jsmap_ok (AList.update k v m)"
  by (simp add: jsmap_ok_def distinct_update)

lemma set_alist_update: "set (AList.update k v m) \<subseteq> insert (k, v) (set m)"
  by (induction m) auto

lemma jsmap_ok_delete [simp]: "jsmap_ok m \<Longrightarrow> jsmap_ok (AList.delete k m)"
  by (simp add: jsmap_ok_def distinct_delete)

lemma jsmap_ok_Nil [simp]: "jsmap_ok []"
  by (simp add: jsmap_ok_def)

lemma jsmap_values_iff:
  "jsmap_ok m \<Longrightarrow> (k, v) \<in> set m \<longleftrightarrow> map_of m k = Some v"
  by (simp add: jsmap_ok_def)

subsection \<open>Decimal numerals\<close>

text \<open>\<open>String(n)\<close> of a natural number, and \<open>Number(s)\<close> of a string of digits.\<close>

definition digit_char :: "nat \<Rightarrow> char" where
  "digit_char d = char_of (48 + d)"

definition char_digit :: "char \<Rightarrow> nat" where
  "char_digit c = of_char c - 48"

fun nat_str :: "nat \<Rightarrow> string" where
  "nat_str n = (if n < 10 then [digit_char n] else nat_str (n div 10) @ [digit_char (n mod 10)])"

declare nat_str.simps [simp del]

definition digits_val :: "string \<Rightarrow> nat" where
  "digits_val s = foldl (\<lambda>a c. 10 * a + char_digit c) 0 s"

lemma digit_char_ok: "d < 10 \<Longrightarrow> is_digit (digit_char d) \<and> char_digit (digit_char d) = d"
  by (simp add: is_digit_def digit_char_def char_digit_def Let_def)

lemma nat_str_digits: "nat_str n \<noteq> [] \<and> (\<forall>c \<in> set (nat_str n). is_digit c)"
proof (induction n rule: nat_str.induct)
  case (1 n)
  show ?case
    by (cases "n < 10") (use 1 in \<open>simp_all add: nat_str.simps [of n] digit_char_ok\<close>)
qed

lemma digits_val_nat_str [simp]: "digits_val (nat_str n) = n"
proof (induction n rule: nat_str.induct)
  case (1 n)
  show ?case
    by (cases "n < 10")
      (use 1 in \<open>simp_all add: nat_str.simps [of n] digits_val_def digit_char_ok\<close>)
qed

lemma nat_str_inject [simp]: "nat_str m = nat_str n \<longleftrightarrow> m = n"
  by (metis digits_val_nat_str)

subsection \<open>Objects with operations\<close>

text \<open>
  What the stateful components share. An object is a state and a step function that applies one
  operation to it; its contract is a well-formedness invariant that every admissible operation
  keeps. A client that issues any sequence of admissible operations then stays well-formed; a
  contract with a measure additionally bounds what one operation can add to it.
\<close>

locale object_contract =
  fixes step :: "'op \<Rightarrow> 's \<Rightarrow> 's"
    and admissible :: "'op \<Rightarrow> 's \<Rightarrow> bool"
    and ok :: "'s \<Rightarrow> bool"
  assumes step_ok: "ok s \<Longrightarrow> admissible opr s \<Longrightarrow> ok (step opr s)"
begin

fun admissible_run :: "'op list \<Rightarrow> 's \<Rightarrow> bool" where
  "admissible_run [] s = True"
| "admissible_run (opr # ops) s = (admissible opr s \<and> admissible_run ops (step opr s))"

lemma run_ok: "ok s \<Longrightarrow> admissible_run ops s \<Longrightarrow> ok (fold step ops s)"
  by (induction ops arbitrary: s) (auto simp: step_ok)

lemma run_ok_always:
  assumes "\<And>opr t. admissible opr t"
  shows "ok s \<Longrightarrow> ok (fold step ops s)"
  by (induction ops arbitrary: s) (auto simp: step_ok assms)

end

locale measured_contract = object_contract step admissible ok
  for step :: "'op \<Rightarrow> 's \<Rightarrow> 's" and admissible :: "'op \<Rightarrow> 's \<Rightarrow> bool" and ok :: "'s \<Rightarrow> bool" +
  fixes weight :: "'s \<Rightarrow> nat"
    and cost :: "'op \<Rightarrow> nat"
  assumes step_weight: "ok s \<Longrightarrow> admissible opr s \<Longrightarrow> weight (step opr s) \<le> weight s + cost opr"
begin

lemma run_weight:
  "ok s \<Longrightarrow> admissible_run ops s \<Longrightarrow>
     weight (fold step ops s) \<le> weight s + sum_list (map cost ops)"
proof (induction ops arbitrary: s)
  case (Cons opr ops)
  have "weight (fold step ops (step opr s)) \<le> weight (step opr s) + sum_list (map cost ops)"
    using Cons step_ok by auto
  then show ?case using step_weight [of s opr] Cons.prems by simp
qed simp

end

end
