(* ===== verification/JsValue.thy ===== *)
theory JsValue
  imports Prelude
begin

section \<open>Values of type unknown\<close>

text \<open>
  Payloads, metadata and persisted state reach the code as \<open>unknown\<close>: any value a JSON
  document can hold, or \<open>undefined\<close>. An object is an association list with distinct keys in
  insertion order. Numbers are integers; no modelled operation looks at a fraction.
  Also the readers of \<open>packages/types/src/primitives.ts\<close>.
\<close>

datatype jsv =
    JUndefined
  | JNull
  | JBool bool
  | JNum int
  | JStr string
  | JArr "jsv list"
  | JObj "(string \<times> jsv) list"

type_synonym js_record = "(string \<times> jsv) list"

text \<open>
  Reading a property. A value that is no object has none of the names the code asks for; the
  callers never read a property of \<open>null\<close> or \<open>undefined\<close>.
\<close>

fun get_prop :: "jsv \<Rightarrow> string \<Rightarrow> jsv" where
  "get_prop (JObj kvs) k = (case map_of kvs k of None \<Rightarrow> JUndefined | Some v \<Rightarrow> v)"
| "get_prop _ k = JUndefined"

definition rec_get :: "js_record \<Rightarrow> string \<Rightarrow> jsv" where
  "rec_get r k = get_prop (JObj r) k"

definition rec_set :: "string \<Rightarrow> jsv \<Rightarrow> js_record \<Rightarrow> js_record" where
  "rec_set k v r = AList.update k v r"

definition rec_remove :: "string \<Rightarrow> js_record \<Rightarrow> js_record" where
  "rec_remove k r = AList.delete k r"

lemma rec_get_set [simp]: "rec_get (rec_set k v r) k' = (if k' = k then v else rec_get r k')"
  by (simp add: rec_get_def rec_set_def update_conv')

lemma rec_get_remove [simp]:
  "rec_get (rec_remove k r) k' = (if k' = k then JUndefined else rec_get r k')"
  by (simp add: rec_get_def rec_remove_def delete_conv')

lemma rec_get_Nil [simp]: "rec_get [] k = JUndefined"
  by (simp add: rec_get_def)

lemma get_prop_JObj: "get_prop (JObj r) k = rec_get r k"
  by (simp add: rec_get_def)

lemma jsmap_ok_rec_set [simp]: "jsmap_ok r \<Longrightarrow> jsmap_ok (rec_set k v r)"
  by (simp add: rec_set_def)

subsection \<open>Typed readers\<close>

fun asRecord :: "jsv \<Rightarrow> js_record option" where
  "asRecord (JObj r) = Some r"
| "asRecord _ = None"

fun asString :: "jsv \<Rightarrow> string option" where
  "asString (JStr s) = Some s"
| "asString _ = None"

fun asBoolean :: "jsv \<Rightarrow> bool option" where
  "asBoolean (JBool b) = Some b"
| "asBoolean _ = None"

text \<open>
  A number stored in a JSON document is finite, so a reader that asks
  \<open>typeof v === 'number' && Number.isFinite(v)\<close> asks whether it is a number.
\<close>

fun asNumber :: "jsv \<Rightarrow> int option" where
  "asNumber (JNum n) = Some n"
| "asNumber _ = None"

fun is_object :: "jsv \<Rightarrow> bool" where
  "is_object (JObj r) = True"
| "is_object (JArr xs) = True"
| "is_object _ = False"

lemma asString_Some [simp]: "asString v = Some s \<longleftrightarrow> v = JStr s"
  by (cases v) auto

lemma asRecord_Some [simp]: "asRecord v = Some r \<longleftrightarrow> v = JObj r"
  by (cases v) auto

lemma asNumber_Some [simp]: "asNumber v = Some n \<longleftrightarrow> v = JNum n"
  by (cases v) auto

lemma asBoolean_Some [simp]: "asBoolean v = Some b \<longleftrightarrow> v = JBool b"
  by (cases v) auto

end
