(* ===== verification/TaskVocabulary.thy ===== *)
theory TaskVocabulary
  imports JsValue
begin

section \<open>Task vocabulary\<close>

text \<open>
  The closed vocabularies of \<open>packages/types/src/task-runs.ts\<close> that other components branch on
  (payload kinds, surfaces, launch classes, work-item statuses, reasoning efforts), the
  predicates over them, the initiator's linked user, the flags a payload carries, and the
  clamp of a reasoning effort onto a model's supported levels
  (\<open>packages/types/src/opencode-reasoning.ts\<close>).
\<close>

subsection \<open>Surfaces\<close>

definition TASK_WORKFLOWS :: "string list" where
  "TASK_WORKFLOWS =
     [''standard'', ''pr_review'', ''pr_conflict_resolve'', ''scan'', ''mcp_recommendations'',
      ''setup_onboarding'', ''env_snapshot'', ''eval'']"

definition SOURCE_CONTROL_AUTOMATION_WORKFLOWS :: "string list" where
  "SOURCE_CONTROL_AUTOMATION_WORKFLOWS = [''pr_review'', ''pr_conflict_resolve'']"

definition TASK_SURFACES :: "string list" where
  "TASK_SURFACES =
     [''web'', ''api'', ''slack'', ''teams'', ''telegram'', ''discord'', ''agentmail'',
      ''linear'', ''github'', ''gitlab'', ''gitea'', ''bitbucket'', ''ado'', ''system'']"

definition SOURCE_CONTROL_TASK_SURFACES :: "string list" where
  "SOURCE_CONTROL_TASK_SURFACES = [''github'', ''gitlab'', ''gitea'', ''bitbucket'', ''ado'']"

definition isSourceControlTaskSurface :: "string option \<Rightarrow> bool" where
  "isSourceControlTaskSurface surface =
     (nullish_or surface [] \<in> set SOURCE_CONTROL_TASK_SURFACES)"

subsection \<open>Initiators\<close>

record actor_ref =
  actor_externalId :: string
  actor_displayName :: "string option"

datatype task_initiator =
    InitiatorUser string
  | InitiatorExternal string "string option" "string option"
      \<comment> \<open>external id, display name, matched user id\<close>
  | InitiatorAutomation string "actor_ref option" "string option"
      \<comment> \<open>automation key, actor, acting user id\<close>

fun getTaskInitiatorLinkedUserId :: "task_initiator \<Rightarrow> string option" where
  "getTaskInitiatorLinkedUserId (InitiatorAutomation key actor actingUserId) = actingUserId"
| "getTaskInitiatorLinkedUserId (InitiatorUser userId) = Some userId"
| "getTaskInitiatorLinkedUserId (InitiatorExternal ext name matchedUserId) = matchedUserId"

subsection \<open>Payload kinds\<close>

datatype payload_kind =
    StandardTask
  | Scan
  | McpRecommendations
  | SlackAppMention
  | LinearAgentSession
  | GithubPrReview
  | GithubPrReviewSync
  | GithubPrReviewFollowUp
  | GithubPrConflictResolve
  | SnapshotEnvironment
  | SnapshotResume

fun payload_kind_str :: "payload_kind \<Rightarrow> string" where
  "payload_kind_str StandardTask = ''standard''"
| "payload_kind_str Scan = ''scan''"
| "payload_kind_str McpRecommendations = ''mcp_recommendations''"
| "payload_kind_str SlackAppMention = ''slack_app_mention''"
| "payload_kind_str LinearAgentSession = ''linear_agent_session''"
| "payload_kind_str GithubPrReview = ''github_pr_review''"
| "payload_kind_str GithubPrReviewSync = ''github_pr_review_sync''"
| "payload_kind_str GithubPrReviewFollowUp = ''github_pr_review_follow_up''"
| "payload_kind_str GithubPrConflictResolve = ''github_pr_conflict_resolve''"
| "payload_kind_str SnapshotEnvironment = ''snapshot_environment''"
| "payload_kind_str SnapshotResume = ''snapshot_resume''"

definition all_payload_kinds :: "payload_kind list" where
  "all_payload_kinds =
     [StandardTask, Scan, McpRecommendations, SlackAppMention, LinearAgentSession,
      GithubPrReview, GithubPrReviewSync, GithubPrReviewFollowUp, GithubPrConflictResolve,
      SnapshotEnvironment, SnapshotResume]"

definition taskPayloadKinds :: "string list" where
  "taskPayloadKinds = map payload_kind_str all_payload_kinds"

definition isTaskPayloadKind :: "string \<Rightarrow> bool" where
  "isTaskPayloadKind value \<longleftrightarrow> value \<in> set taskPayloadKinds"

definition isServicesEnabledTaskPayloadKind :: "payload_kind \<Rightarrow> bool" where
  "isServicesEnabledTaskPayloadKind type = True"

definition RESUMABLE_PAYLOAD_KINDS :: "payload_kind list" where
  "RESUMABLE_PAYLOAD_KINDS =
     [StandardTask, Scan, GithubPrReviewFollowUp, SlackAppMention, LinearAgentSession,
      SnapshotResume]"

definition isResumableTaskPayloadKind :: "payload_kind \<Rightarrow> bool" where
  "isResumableTaskPayloadKind type \<longleftrightarrow> type \<in> set RESUMABLE_PAYLOAD_KINDS"

definition shouldUseAppTokenOnly :: "payload_kind \<Rightarrow> bool" where
  "shouldUseAppTokenOnly type \<longleftrightarrow>
     type \<in> set [GithubPrReview, GithubPrReviewSync, GithubPrReviewFollowUp,
       GithubPrConflictResolve]"

definition isPrReviewRun :: "string option \<Rightarrow> bool" where
  "isPrReviewRun payloadKind \<longleftrightarrow>
     payloadKind = Some (payload_kind_str GithubPrReview) \<or>
     payloadKind = Some (payload_kind_str GithubPrReviewSync)"

text \<open>An array is an object without the flag, which the explicit test excludes anyway.\<close>

definition isSessionRequestedReviewRun :: "string option \<Rightarrow> jsv \<Rightarrow> bool" where
  "isSessionRequestedReviewRun payloadKind payload =
     (if \<not> isPrReviewRun payloadKind then False
      else (case payload of
          JObj r \<Rightarrow> rec_get r ''fastParentRequestedReview'' = JBool True
        | _ \<Rightarrow> False))"

definition isPrReviewTaskRun :: "payload_kind \<Rightarrow> bool" where
  "isPrReviewTaskRun type \<longleftrightarrow> type = GithubPrReview \<or> type = GithubPrReviewSync"

lemma all_payload_kinds_UNIV: "set all_payload_kinds = UNIV"
proof -
  have "k \<in> set all_payload_kinds" for k
    by (cases k) (simp_all add: all_payload_kinds_def)
  then show ?thesis by blast
qed

lemma payload_kind_str_inj [simp]: "payload_kind_str a = payload_kind_str b \<longleftrightarrow> a = b"
  by (cases a; cases b) simp_all

lemma isTaskPayloadKind_iff: "isTaskPayloadKind s \<longleftrightarrow> (\<exists>k. s = payload_kind_str k)"
  by (auto simp: isTaskPayloadKind_def taskPayloadKinds_def all_payload_kinds_UNIV)

lemma isPrReviewRun_kind: "isPrReviewRun (Some (payload_kind_str k)) = isPrReviewTaskRun k"
  by (simp add: isPrReviewRun_def isPrReviewTaskRun_def del: payload_kind_str.simps)

subsection \<open>The complete-on-snapshot flag of a payload\<close>

definition COMPLETE_TASK_ON_SNAPSHOT_PAYLOAD_FLAG :: string where
  "COMPLETE_TASK_ON_SNAPSHOT_PAYLOAD_FLAG = ''__completeTaskOnSnapshot''"

fun normalizeTaskPayloadRecord :: "jsv \<Rightarrow> js_record" where
  "normalizeTaskPayloadRecord (JObj r) = r"
| "normalizeTaskPayloadRecord _ = []"

definition shouldCompleteTaskOnSnapshot :: "jsv \<Rightarrow> bool" where
  "shouldCompleteTaskOnSnapshot payload \<longleftrightarrow>
     rec_get (normalizeTaskPayloadRecord payload) COMPLETE_TASK_ON_SNAPSHOT_PAYLOAD_FLAG
       = JBool True"

definition withCompleteTaskOnSnapshot :: "jsv \<Rightarrow> js_record" where
  "withCompleteTaskOnSnapshot payload =
     rec_set COMPLETE_TASK_ON_SNAPSHOT_PAYLOAD_FLAG (JBool True)
       (normalizeTaskPayloadRecord payload)"

definition withoutCompleteTaskOnSnapshot :: "jsv \<Rightarrow> js_record" where
  "withoutCompleteTaskOnSnapshot payload =
     rec_remove COMPLETE_TASK_ON_SNAPSHOT_PAYLOAD_FLAG (normalizeTaskPayloadRecord payload)"

definition getNotifySourceRunOnSettleFromPayload :: "jsv \<Rightarrow> bool" where
  "getNotifySourceRunOnSettleFromPayload payload =
     (case payload of
        JObj r \<Rightarrow> rec_get r ''notifySourceRunOnSettle'' = JBool True
      | _ \<Rightarrow> False)"

text \<open>Marking a payload to complete its task on the next snapshot is a faithful flag: after
  setting it the payload reads as marked, after clearing it as unmarked, clearing undoes setting
  exactly on what readers of the payload can see, and every other property of the payload is
  untouched by both.\<close>

theorem complete_on_snapshot_flag:
  "shouldCompleteTaskOnSnapshot (JObj (withCompleteTaskOnSnapshot p)) \<and>
   \<not> shouldCompleteTaskOnSnapshot (JObj (withoutCompleteTaskOnSnapshot p)) \<and>
   rec_get (withoutCompleteTaskOnSnapshot (JObj (withCompleteTaskOnSnapshot p)))
     = rec_get (withoutCompleteTaskOnSnapshot p) \<and>
   (rec_get (withCompleteTaskOnSnapshot p))
       (COMPLETE_TASK_ON_SNAPSHOT_PAYLOAD_FLAG := JUndefined)
     = rec_get (withoutCompleteTaskOnSnapshot p)"
  by (simp add: shouldCompleteTaskOnSnapshot_def withCompleteTaskOnSnapshot_def
      withoutCompleteTaskOnSnapshot_def fun_eq_iff)

subsection \<open>Task tool invocations\<close>

datatype task_tool_action =
    Simplify
  | Push
  | CreateDraftPr
  | CreatePr
  | ReviewCode
  | ReviewAndFix
  | AddressPrFeedback
  | CaptureVisualProof

fun task_tool_action_str :: "task_tool_action \<Rightarrow> string" where
  "task_tool_action_str Simplify = ''simplify''"
| "task_tool_action_str Push = ''push''"
| "task_tool_action_str CreateDraftPr = ''create-draft-pr''"
| "task_tool_action_str CreatePr = ''create-pr''"
| "task_tool_action_str ReviewCode = ''review-code''"
| "task_tool_action_str ReviewAndFix = ''review-and-fix''"
| "task_tool_action_str AddressPrFeedback = ''address-pr-feedback''"
| "task_tool_action_str CaptureVisualProof = ''capture-visual-proof''"

definition taskToolActionIds :: "task_tool_action list" where
  "taskToolActionIds =
     [Simplify, Push, CreateDraftPr, CreatePr, ReviewCode, ReviewAndFix, AddressPrFeedback,
      CaptureVisualProof]"

definition task_tool_action_of :: "string \<Rightarrow> task_tool_action option" where
  "task_tool_action_of value = find (\<lambda>a. task_tool_action_str a = value) taskToolActionIds"

definition isTaskToolActionId :: "string \<Rightarrow> bool" where
  "isTaskToolActionId value \<longleftrightarrow>
     list_ex (\<lambda>a. task_tool_action_str a = value) taskToolActionIds"

datatype coding_harness = OpencodeServer

fun getSkillCommandDelimiter :: "coding_harness option \<Rightarrow> char" where
  "getSkillCommandDelimiter (Some OpencodeServer) = CHR ''$''"
| "getSkillCommandDelimiter None = CHR ''$''"

definition getTaskToolInvocation :: "task_tool_action \<Rightarrow> coding_harness option \<Rightarrow> string" where
  "getTaskToolInvocation actionId harness =
     getSkillCommandDelimiter harness # task_tool_action_str actionId"

definition getTaskToolActionIdFromInvocation :: "string \<Rightarrow> task_tool_action option" where
  "getTaskToolActionIdFromInvocation text =
     (let trimmedText = trim text
      in if \<not> starts_with ''/'' trimmedText \<and> \<not> starts_with ''$'' trimmedText then None
         else task_tool_action_of (drop 1 trimmedText))"

lemma task_tool_action_str_inj [simp]:
  "task_tool_action_str a = task_tool_action_str b \<longleftrightarrow> a = b"
  by (cases a; cases b) simp_all

lemma task_tool_action_of_Some: "task_tool_action_of s = Some a \<longleftrightarrow> s = task_tool_action_str a"
proof
  show "task_tool_action_of s = Some a \<Longrightarrow> s = task_tool_action_str a"
    by (auto simp: task_tool_action_of_def find_Some_iff)
  show "s = task_tool_action_str a \<Longrightarrow> task_tool_action_of s = Some a"
    by (cases a) (simp_all add: task_tool_action_of_def taskToolActionIds_def)
qed

lemma isTaskToolActionId_iff: "isTaskToolActionId s \<longleftrightarrow> task_tool_action_of s \<noteq> None"
  by (auto simp: isTaskToolActionId_def task_tool_action_of_def find_None_iff list_ex_iff)

text \<open>A message is read as the invocation of a task tool exactly when, trimmed, it is the
  tool's id behind one of the two command delimiters; every printed invocation, for every
  harness, reads back as its own tool.\<close>

theorem tool_invocation_round_trip:
  "(getTaskToolActionIdFromInvocation text = Some a \<longleftrightarrow>
      trim text \<in> {CHR ''$'' # task_tool_action_str a, CHR ''/'' # task_tool_action_str a}) \<and>
   getTaskToolActionIdFromInvocation (getTaskToolInvocation b h) = Some b"
proof
  have split: "starts_with [c] s \<longleftrightarrow> (\<exists>t. s = c # t)" for c s
    by (auto simp: starts_with_iff)
  have char: "getTaskToolActionIdFromInvocation x = Some t \<longleftrightarrow>
      trim x \<in> {CHR ''$'' # task_tool_action_str t, CHR ''/'' # task_tool_action_str t}" for x t
    by (cases "trim x")
      (auto simp: getTaskToolActionIdFromInvocation_def Let_def split task_tool_action_of_Some)
  then show "getTaskToolActionIdFromInvocation text = Some a \<longleftrightarrow>
      trim text \<in> {CHR ''$'' # task_tool_action_str a, CHR ''/'' # task_tool_action_str a}" .
  have "getSkillCommandDelimiter h = CHR ''$''"
    by (cases h rule: getSkillCommandDelimiter.cases) simp_all
  moreover have "trim (CHR ''$'' # task_tool_action_str b) = CHR ''$'' # task_tool_action_str b"
    by (cases b) (simp_all add: trim_def trim_start_def js_space_def)
  ultimately show "getTaskToolActionIdFromInvocation (getTaskToolInvocation b h) = Some b"
    by (simp add: char getTaskToolInvocation_def)
qed

subsection \<open>Launch classes and work-item statuses\<close>

datatype launch_class = Human | Automation | Maintenance

datatype work_item_status = WiOpen | WiLaunching | WiLaunched | WiFailed | WiDismissed

definition WORK_ITEM_ACTIVE_STATUSES :: "work_item_status list" where
  "WORK_ITEM_ACTIVE_STATUSES = [WiOpen, WiLaunching, WiLaunched]"

subsection \<open>Reasoning efforts\<close>

datatype reasoning_effort = Low | Medium | High | Xhigh | Max_effort

definition REASONING_EFFORT_VALUES :: "reasoning_effort list" where
  "REASONING_EFFORT_VALUES = [Low, Medium, High, Xhigh, Max_effort]"

fun effort_rank :: "reasoning_effort \<Rightarrow> nat" where
  "effort_rank Low = 0"
| "effort_rank Medium = 1"
| "effort_rank High = 2"
| "effort_rank Xhigh = 3"
| "effort_rank Max_effort = 4"

lemma effort_rank_inj: "effort_rank a = effort_rank b \<longleftrightarrow> a = b"
  by (cases a; cases b) simp_all

text \<open>The scale is ordered as the source lists it.\<close>

instantiation reasoning_effort :: linorder
begin

definition less_eq_reasoning_effort :: "reasoning_effort \<Rightarrow> reasoning_effort \<Rightarrow> bool" where
  "less_eq_reasoning_effort a b \<longleftrightarrow> effort_rank a \<le> effort_rank b"

definition less_reasoning_effort :: "reasoning_effort \<Rightarrow> reasoning_effort \<Rightarrow> bool" where
  "less_reasoning_effort a b \<longleftrightarrow> effort_rank a < effort_rank b"

instance
  by standard
    (auto simp: less_eq_reasoning_effort_def less_reasoning_effort_def effort_rank_inj)

end

lemmas effort_order = less_eq_reasoning_effort_def less_reasoning_effort_def

text \<open>The two loops of the clamp: down from the configured level, then up from it.\<close>

fun scan_down :: "reasoning_effort list \<Rightarrow> nat \<Rightarrow> reasoning_effort option" where
  "scan_down supported 0 = None"
| "scan_down supported (Suc index) =
     (if REASONING_EFFORT_VALUES ! index \<in> set supported
      then Some (REASONING_EFFORT_VALUES ! index)
      else scan_down supported index)"

function scan_up :: "reasoning_effort list \<Rightarrow> nat \<Rightarrow> reasoning_effort option" where
  "scan_up supported index =
     (if index < length REASONING_EFFORT_VALUES
      then if REASONING_EFFORT_VALUES ! index \<in> set supported
           then Some (REASONING_EFFORT_VALUES ! index)
           else scan_up supported (Suc index)
      else None)"
  by pat_completeness auto
termination
  by (relation "measure (\<lambda>(s, i). length REASONING_EFFORT_VALUES - i)") auto

declare scan_up.simps [simp del]

definition clampReasoningEffortToSupported ::
    "reasoning_effort \<Rightarrow> reasoning_effort list \<Rightarrow> reasoning_effort option" where
  "clampReasoningEffortToSupported effort supported =
     (if effort \<in> set supported then Some effort
      else nullish (scan_down supported (effort_rank effort))
             (scan_up supported (effort_rank effort + 1)))"

lemma values_nth: "REASONING_EFFORT_VALUES ! effort_rank e = e"
  by (cases e) (simp_all add: REASONING_EFFORT_VALUES_def)

lemma rank_lt: "effort_rank e < length REASONING_EFFORT_VALUES"
  by (cases e) (simp_all add: REASONING_EFFORT_VALUES_def)

lemma rank_nth: "i < length REASONING_EFFORT_VALUES \<Longrightarrow> effort_rank (REASONING_EFFORT_VALUES ! i) = i"
  by (auto simp: REASONING_EFFORT_VALUES_def less_Suc_eq numeral_eq_Suc)

lemma scan_down_Some:
  "scan_down s n = Some r \<Longrightarrow> n \<le> length REASONING_EFFORT_VALUES \<Longrightarrow>
   r \<in> set s \<and> effort_rank r < n \<and> (\<forall>f \<in> set s. effort_rank f < n \<longrightarrow> effort_rank f \<le> effort_rank r)"
proof (induction n)
  case (Suc n)
  then show ?case
    by (auto split: if_splits simp: rank_nth less_Suc_eq)
      (metis values_nth)+
qed simp

lemma scan_down_None: "scan_down s n = None \<Longrightarrow> f \<in> set s \<Longrightarrow> \<not> effort_rank f < n"
proof (induction n)
  case (Suc n)
  then show ?case
    by (auto split: if_splits simp: less_Suc_eq) (metis values_nth)
qed simp

lemma scan_up_Some:
  "scan_up s n = Some r \<Longrightarrow>
   r \<in> set s \<and> n \<le> effort_rank r \<and> (\<forall>f \<in> set s. n \<le> effort_rank f \<longrightarrow> effort_rank r \<le> effort_rank f)"
proof (induction s n rule: scan_up.induct)
  case (1 s n)
  show ?case
  proof (cases "REASONING_EFFORT_VALUES ! n \<in> set s")
    case True
    with 1 show ?thesis
      by (auto simp: scan_up.simps [of s n] rank_nth split: if_splits)
  next
    case False
    with 1 have IH: "r \<in> set s \<and> Suc n \<le> effort_rank r \<and>
        (\<forall>f \<in> set s. Suc n \<le> effort_rank f \<longrightarrow> effort_rank r \<le> effort_rank f)"
      by (auto simp: scan_up.simps [of s n] split: if_splits)
    moreover have "effort_rank f \<noteq> n" if "f \<in> set s" for f
      using that False values_nth by metis
    ultimately show ?thesis by (metis Suc_leI Suc_leD le_neq_implies_less)
  qed
qed

lemma scan_up_None: "scan_up s n = None \<Longrightarrow> f \<in> set s \<Longrightarrow> effort_rank f < n"
proof (induction s n rule: scan_up.induct)
  case (1 s n)
  show ?case
  proof (cases "n < length REASONING_EFFORT_VALUES")
    case True
    with 1 have "effort_rank f < Suc n" and "effort_rank f \<noteq> n"
      by (auto simp: scan_up.simps [of s n] values_nth split: if_splits)
    then show ?thesis by simp
  next
    case False
    then show ?thesis using rank_lt [of f] by simp
  qed
qed

text \<open>The effort a model is asked for is the configured one when the model supports it,
  otherwise the highest supported level below it, otherwise the lowest supported level above
  it; nothing is asked for exactly when the model supports no level.\<close>

theorem clamp_nearest_supported:
  "case clampReasoningEffortToSupported e s of
     None \<Rightarrow> s = []
   | Some r \<Rightarrow> r \<in> set s \<and>
       (\<forall>f \<in> set s. (r \<le> e \<and> (f \<le> r \<or> e < f)) \<or> (e < r \<and> r \<le> f))"
proof (cases "e \<in> set s")
  case True
  then show ?thesis by (auto simp: clampReasoningEffortToSupported_def)
next
  case e: False
  show ?thesis
  proof (cases "scan_down s (effort_rank e)")
    case (Some r)
    then show ?thesis
      using e scan_down_Some [OF Some] rank_lt [of e]
      by (auto simp: clampReasoningEffortToSupported_def effort_order less_imp_le)
        (metis effort_rank_inj linorder_neqE_nat)
  next
    case None
    have above: "effort_rank e < effort_rank f" if "f \<in> set s" for f
      using scan_down_None [OF None that] e that by (metis effort_rank_inj linorder_neqE_nat)
    show ?thesis
    proof (cases "scan_up s (effort_rank e + 1)")
      case up: None
      then have "s = []"
        using scan_up_None [OF up] above by (metis Suc_eq_plus1 list.set_intros(1) neq_Nil_conv
            not_less_eq)
      then show ?thesis using e None up by (simp add: clampReasoningEffortToSupported_def)
    next
      case (Some r)
      then show ?thesis
        using e None scan_up_Some [OF Some] above
        by (auto simp: clampReasoningEffortToSupported_def effort_order Suc_le_eq)
    qed
  qed
qed

theorem clamp_nearest_supported_witness:
  "clampReasoningEffortToSupported Xhigh [Low, High, Max_effort] = Some High \<and>
   High \<in> set [Low, High, Max_effort]"
proof -
  have "clampReasoningEffortToSupported Xhigh [Low, High, Max_effort] = Some High"
    by (simp add: clampReasoningEffortToSupported_def REASONING_EFFORT_VALUES_def numeral_eq_Suc)
  with clamp_nearest_supported [where e = Xhigh and s = "[Low, High, Max_effort]"] show ?thesis by simp
qed

end
