(* ===== verification/RunLifecycle.thy ===== *)
theory RunLifecycle
  imports TaskVocabulary
begin

section \<open>Run statuses, task phases and keepalive\<close>

text \<open>
  The status of a task run and the phase its worker reports
  (\<open>packages/types/src/task-runs.ts\<close>), the classification the controller, the worker and the
  web app make of them, the disconnect event, the expiry of a snapshot
  (\<open>packages/types/src/compute-providers/snapshot-retention.ts\<close>) and the keepalive a run gets
  (\<open>packages/types/src/keepalive-policy.ts\<close>).
\<close>

subsection \<open>Run statuses\<close>

datatype run_status =
    Pending
  | Dequeued
  | Processing
  | Preparing
  | Spawning
  | Connecting
  | Running
  | Completed
  | Failed
  | Canceled
  | Idle

definition bootingRunStatuses :: "run_status list" where
  "bootingRunStatuses = [Pending, Dequeued, Processing, Preparing, Spawning, Connecting]"

definition activeRunStatuses :: "run_status list" where
  "activeRunStatuses = bootingRunStatuses @ [Running, Idle]"

definition doneRunStatuses :: "run_status list" where
  "doneRunStatuses = [Completed, Failed, Canceled, Idle]"

definition runningRunStatuses :: "run_status list" where
  "runningRunStatuses = [Running, Idle]"

definition exitedRunStatuses :: "run_status list" where
  "exitedRunStatuses = [Completed, Failed, Canceled]"

fun isBootingRunStatus :: "run_status option \<Rightarrow> bool" where
  "isBootingRunStatus None = False"
| "isBootingRunStatus (Some status) =
     (status \<notin> set runningRunStatuses \<and> status \<notin> set exitedRunStatuses)"

fun isRunningRunStatus :: "run_status option \<Rightarrow> bool" where
  "isRunningRunStatus None = False"
| "isRunningRunStatus (Some status) = (status \<in> set runningRunStatuses)"

fun isExitedRunStatus :: "run_status option \<Rightarrow> bool" where
  "isExitedRunStatus None = False"
| "isExitedRunStatus (Some status) = (status \<in> set exitedRunStatuses)"

lemmas status_lists = bootingRunStatuses_def activeRunStatuses_def doneRunStatuses_def
  runningRunStatuses_def exitedRunStatuses_def

text \<open>Every status a run can have is exactly one of booting, running and exited; the
  predicates agree with the published status lists, the active statuses are exactly those that
  have not exited, and idle is the only status that is both done and active.\<close>

theorem run_status_partition:
  "(isBootingRunStatus (Some s) \<longleftrightarrow> s \<in> set bootingRunStatuses) \<and>
   (isBootingRunStatus (Some s) \<longleftrightarrow>
      \<not> isRunningRunStatus (Some s) \<and> \<not> isExitedRunStatus (Some s)) \<and>
   \<not> (isRunningRunStatus (Some s) \<and> isExitedRunStatus (Some s)) \<and>
   (s \<in> set activeRunStatuses \<longleftrightarrow> \<not> isExitedRunStatus (Some s)) \<and>
   (s \<in> set doneRunStatuses \<and> s \<in> set activeRunStatuses \<longleftrightarrow> s = Idle)"
  by (cases s) (simp_all add: status_lists)

subsection \<open>Task phases\<close>

datatype task_phase =
    PhaseIdle
  | PhaseWaitingForSandboxProvider
  | PhaseWaitingForPrompt
  | PhaseWaitingForUserInput
  | PhaseRunning
  | PhaseStopped
  | PhaseShuttingDown

fun task_phase_str :: "task_phase \<Rightarrow> string" where
  "task_phase_str PhaseIdle = ''idle''"
| "task_phase_str PhaseWaitingForSandboxProvider = ''waiting_for_sandbox_provider''"
| "task_phase_str PhaseWaitingForPrompt = ''waiting_for_prompt''"
| "task_phase_str PhaseWaitingForUserInput = ''waiting_for_user_input''"
| "task_phase_str PhaseRunning = ''running''"
| "task_phase_str PhaseStopped = ''stopped''"
| "task_phase_str PhaseShuttingDown = ''shutting_down''"

definition TASK_PHASES :: "task_phase list" where
  "TASK_PHASES =
     [PhaseIdle, PhaseWaitingForSandboxProvider, PhaseWaitingForPrompt,
      PhaseWaitingForUserInput, PhaseRunning, PhaseStopped, PhaseShuttingDown]"

text \<open>The sets are asked about any stored string, so they are sets of strings.\<close>

definition WORKING_TASK_PHASES :: "string list" where
  "WORKING_TASK_PHASES = [''running'']"

definition ACTIVE_TASK_PHASES :: "string list" where
  "ACTIVE_TASK_PHASES = [''running'', ''waiting_for_user_input'']"

definition isActiveTaskPhase :: "task_phase \<Rightarrow> bool" where
  "isActiveTaskPhase phase \<longleftrightarrow> task_phase_str phase \<in> set ACTIVE_TASK_PHASES"

fun isActivelyRunningTask :: "run_status option \<Rightarrow> string option \<Rightarrow> bool" where
  "isActivelyRunningTask None taskPhase = False"
| "isActivelyRunningTask (Some status) taskPhase =
     (if status \<in> set exitedRunStatuses then False
      else if isBootingRunStatus (Some status) then True
      else if status = Idle then False
      else if status = Running
      then if \<not> truthy taskPhase then True
           else nullish_or taskPhase [] \<in> set WORKING_TASK_PHASES
      else False)"

fun isTaskExecutingTurn :: "run_status option \<Rightarrow> string option \<Rightarrow> bool" where
  "isTaskExecutingTurn None taskPhase = False"
| "isTaskExecutingTurn (Some status) taskPhase =
     (if status \<in> set exitedRunStatuses then False
      else if isBootingRunStatus (Some status) then True
      else if status = Running \<and> \<not> truthy taskPhase then True
      else nullish_or taskPhase [] \<in> set WORKING_TASK_PHASES)"

text \<open>The two answers to "is the task busy" differ in exactly one situation: an idle run on a
  live sandbox whose worker reports the running phase (a follow-up turn), which only the
  turn-level check counts. Neither ever holds of an exited run, and a worker waiting for the
  user's input counts for neither.\<close>

theorem executing_turn_vs_actively_running:
  "(isTaskExecutingTurn status phase \<longleftrightarrow>
      isActivelyRunningTask status phase \<or> (status = Some Idle \<and> phase = Some ''running'')) \<and>
   \<not> (isActivelyRunningTask status phase \<and> (status = Some Idle \<and> phase = Some ''running'')) \<and>
   \<not> (isTaskExecutingTurn status phase \<and> isExitedRunStatus status) \<and>
   \<not> (isTaskExecutingTurn status (Some (task_phase_str PhaseWaitingForUserInput)) \<and>
       \<not> isBootingRunStatus status)"
proof (cases status)
  case (Some s)
  then show ?thesis
    by (cases s; cases phase) (auto simp: status_lists WORKING_TASK_PHASES_def)
qed simp

subsection \<open>Disconnect events\<close>

record task_run_correlation =
  corr_taskId :: string
  corr_runId :: int

record disconnect_reason =
  dr_code :: string
  dr_source :: string
  dr_exhausted :: bool

record terminal_reason =
  tr_status :: run_status
  tr_errorCode :: "string option"
  tr_message :: "string option"

record disconnect_event =
  de_correlation :: task_run_correlation
  de_disconnectReason :: disconnect_reason
  de_terminalReason :: "terminal_reason option"

definition buildTaskRunDisconnectEvent ::
    "string \<Rightarrow> int \<Rightarrow> string \<Rightarrow> string \<Rightarrow> run_status \<Rightarrow> string option \<Rightarrow> string option
     \<Rightarrow> disconnect_event" where
  "buildTaskRunDisconnectEvent taskId runId reasonCode source status errorCode error =
     \<lparr>de_correlation = \<lparr>corr_taskId = taskId, corr_runId = runId\<rparr>,
      de_disconnectReason = \<lparr>dr_code = reasonCode, dr_source = source, dr_exhausted = False\<rparr>,
      de_terminalReason =
        (if isExitedRunStatus (Some status)
         then Some \<lparr>tr_status = status, tr_errorCode = errorCode, tr_message = error\<rparr>
         else None)\<rparr>"

subsection \<open>Snapshot expiry\<close>

text \<open>A \<open>Date\<close> object may hold an invalid time.\<close>

datatype js_date = InvalidDate | DateMs ms

definition SNAPSHOT_HARD_EXPIRY_MS :: int where
  "SNAPSHOT_HARD_EXPIRY_MS = 7 * 24 * 60 * 60 * 1000"

definition SNAPSHOT_PROVIDERS_WITHOUT_APPLICATION_EXPIRY :: "string list" where
  "SNAPSHOT_PROVIDERS_WITHOUT_APPLICATION_EXPIRY = [''modal'', ''roomote'']"

definition getSnapshotExpiryMs :: "string option \<Rightarrow> int option" where
  "getSnapshotExpiryMs provider =
     (if provider \<in> Some ` set SNAPSHOT_PROVIDERS_WITHOUT_APPLICATION_EXPIRY then None
      else Some SNAPSHOT_HARD_EXPIRY_MS)"

definition getSnapshotExpiresAt :: "ms \<Rightarrow> string option \<Rightarrow> ms option" where
  "getSnapshotExpiresAt snapshotCreatedAt provider =
     (case getSnapshotExpiryMs provider of
        None \<Rightarrow> None
      | Some expiryMs \<Rightarrow> Some (snapshotCreatedAt + expiryMs))"

fun isSnapshotResumable :: "js_date option \<Rightarrow> string option \<Rightarrow> ms \<Rightarrow> bool" where
  "isSnapshotResumable (Some (DateMs t)) provider nowMs =
     (case getSnapshotExpiryMs provider of
        None \<Rightarrow> True
      | Some expiryMs \<Rightarrow> nowMs - t < expiryMs)"
| "isSnapshotResumable _ provider nowMs = False"

text \<open>A dated snapshot is resumable exactly before the expiry instant announced for it, at
  every later reading of the clock an expired snapshot stays expired, and a missing or invalid
  creation date is never resumable.\<close>

theorem snapshot_resumable_until_expiry:
  "(isSnapshotResumable (Some (DateMs t)) p now \<longleftrightarrow>
      (case getSnapshotExpiresAt t p of None \<Rightarrow> True | Some e \<Rightarrow> now < e)) \<and>
   \<not> (isSnapshotResumable d p (now + int k) \<and> \<not> isSnapshotResumable d p now) \<and>
   \<not> isSnapshotResumable None p now \<and> \<not> isSnapshotResumable (Some InvalidDate) p now"
  by (cases "(d, p, now)" rule: isSnapshotResumable.cases)
    (auto simp: getSnapshotExpiresAt_def split: option.splits)

subsection \<open>Keepalive\<close>

datatype app_env = EnvDevelopment | EnvPreview | EnvProduction | EnvTest

definition DEFAULT_AUTOMATION_KEEPALIVE_MS :: int where
  "DEFAULT_AUTOMATION_KEEPALIVE_MS = 60 * 1000"

definition DEFAULT_MAINTENANCE_KEEPALIVE_MS :: int where
  "DEFAULT_MAINTENANCE_KEEPALIVE_MS = 5 * 60 * 1000"

definition TASK_TYPE_KEEPALIVE_MS_OVERRIDES :: "(payload_kind, int) jsmap" where
  "TASK_TYPE_KEEPALIVE_MS_OVERRIDES = [(GithubPrReviewFollowUp, 0)]"

fun inferLaunchClassForTaskType :: "payload_kind \<Rightarrow> launch_class" where
  "inferLaunchClassForTaskType GithubPrReview = Maintenance"
| "inferLaunchClassForTaskType GithubPrReviewSync = Maintenance"
| "inferLaunchClassForTaskType Scan = Maintenance"
| "inferLaunchClassForTaskType McpRecommendations = Maintenance"
| "inferLaunchClassForTaskType GithubPrConflictResolve = Maintenance"
| "inferLaunchClassForTaskType SnapshotEnvironment = Maintenance"
| "inferLaunchClassForTaskType _ = Human"

record keepalive_options =
  ko_appEnv :: "app_env option"
  ko_defaultKeepaliveMs :: int
  ko_delegatedKeepaliveMs :: int
  ko_sandboxTimeoutMs :: int

definition capKeepaliveMs :: "int \<Rightarrow> int \<Rightarrow> int" where
  "capKeepaliveMs keepaliveMs sandboxTimeoutMs = min (max keepaliveMs 0) sandboxTimeoutMs"

definition resolveHumanKeepaliveMs :: "keepalive_options \<Rightarrow> int" where
  "resolveHumanKeepaliveMs options =
     (if ko_appEnv options = Some EnvDevelopment
      then capKeepaliveMs (ko_defaultKeepaliveMs options) (ko_sandboxTimeoutMs options)
      else capKeepaliveMs (ko_delegatedKeepaliveMs options) (ko_sandboxTimeoutMs options))"

definition resolveKeepaliveMsForResolvedLaunchClass ::
    "payload_kind option \<Rightarrow> launch_class option \<Rightarrow> keepalive_options \<Rightarrow> int" where
  "resolveKeepaliveMsForResolvedLaunchClass taskType launchClass options =
     (case Option.bind taskType (map_of TASK_TYPE_KEEPALIVE_MS_OVERRIDES) of
        Some keepaliveOverrideMs \<Rightarrow>
          capKeepaliveMs keepaliveOverrideMs (ko_sandboxTimeoutMs options)
      | None \<Rightarrow>
          (case launchClass of
             Some Human \<Rightarrow> resolveHumanKeepaliveMs options
           | Some Automation \<Rightarrow>
               capKeepaliveMs DEFAULT_AUTOMATION_KEEPALIVE_MS (ko_sandboxTimeoutMs options)
           | Some Maintenance \<Rightarrow>
               capKeepaliveMs DEFAULT_MAINTENANCE_KEEPALIVE_MS (ko_sandboxTimeoutMs options)
           | None \<Rightarrow> resolveHumanKeepaliveMs options))"

definition resolveTaskRuntimePolicy ::
    "payload_kind \<Rightarrow> launch_class option \<Rightarrow> keepalive_options \<Rightarrow> launch_class \<times> int" where
  "resolveTaskRuntimePolicy taskType launchClass options =
     (let cls = nullish_or launchClass (inferLaunchClassForTaskType taskType)
      in (cls, resolveKeepaliveMsForResolvedLaunchClass (Some taskType) (Some cls) options))"

definition resolveKeepaliveMs ::
    "payload_kind option \<Rightarrow> launch_class option \<Rightarrow> keepalive_options \<Rightarrow> int" where
  "resolveKeepaliveMs taskType launchClass options =
     resolveKeepaliveMsForResolvedLaunchClass taskType
       (nullish launchClass (map_option inferLaunchClassForTaskType taskType)) options"

lemma capKeepaliveMs_bounds:
  "0 \<le> t \<Longrightarrow> 0 \<le> capKeepaliveMs k t \<and> capKeepaliveMs k t \<le> t"
  by (simp add: capKeepaliveMs_def)

lemma resolved_keepalive_is_capped:
  "\<exists>k. resolveKeepaliveMsForResolvedLaunchClass t c opts =
     capKeepaliveMs k (ko_sandboxTimeoutMs opts)"
  by (auto simp: resolveKeepaliveMsForResolvedLaunchClass_def resolveHumanKeepaliveMs_def
      split: option.split launch_class.split)

text \<open>Whatever the task, launch class and configured windows, the keepalive never exceeds the
  sandbox timeout and is never negative when that timeout is not; a review follow-up is never
  kept alive at all, and the policy and the plain resolver agree on every launch.\<close>

theorem keepalive_within_sandbox_timeout:
  assumes "0 \<le> ko_sandboxTimeoutMs opts"
  shows "0 \<le> resolveKeepaliveMs t c opts \<and>
    resolveKeepaliveMs t c opts \<le> ko_sandboxTimeoutMs opts \<and>
    resolveKeepaliveMs (Some GithubPrReviewFollowUp) c opts = 0 \<and>
    snd (resolveTaskRuntimePolicy k c opts) = resolveKeepaliveMs (Some k) c opts"
proof -
  obtain w where "resolveKeepaliveMs t c opts = capKeepaliveMs w (ko_sandboxTimeoutMs opts)"
    using resolved_keepalive_is_capped unfolding resolveKeepaliveMs_def by blast
  moreover have "resolveKeepaliveMs (Some GithubPrReviewFollowUp) c opts = 0"
    using assms by (simp add: resolveKeepaliveMs_def capKeepaliveMs_def
        resolveKeepaliveMsForResolvedLaunchClass_def TASK_TYPE_KEEPALIVE_MS_OVERRIDES_def)
  moreover have "snd (resolveTaskRuntimePolicy k c opts) = resolveKeepaliveMs (Some k) c opts"
    by (cases c) (simp_all add: resolveTaskRuntimePolicy_def resolveKeepaliveMs_def Let_def)
  ultimately show ?thesis using capKeepaliveMs_bounds [OF assms] by simp
qed

theorem keepalive_within_sandbox_timeout_witness:
  "resolveKeepaliveMs (Some Scan) None
     \<lparr>ko_appEnv = None, ko_defaultKeepaliveMs = 1800000, ko_delegatedKeepaliveMs = 1800000,
      ko_sandboxTimeoutMs = 120000\<rparr> = 120000"
proof -
  let ?o = "\<lparr>ko_appEnv = None, ko_defaultKeepaliveMs = 1800000,
    ko_delegatedKeepaliveMs = 1800000, ko_sandboxTimeoutMs = 120000\<rparr>"
  have "resolveKeepaliveMs (Some Scan) None ?o \<le> 120000"
    using keepalive_within_sandbox_timeout [where opts = ?o and t = "Some Scan" and c = None]
    by simp
  moreover have "120000 \<le> resolveKeepaliveMs (Some Scan) None ?o"
    by (simp add: resolveKeepaliveMs_def resolveKeepaliveMsForResolvedLaunchClass_def
        TASK_TYPE_KEEPALIVE_MS_OVERRIDES_def capKeepaliveMs_def
        DEFAULT_MAINTENANCE_KEEPALIVE_MS_def)
  ultimately show ?thesis by simp
qed

end
