(* ===== verification/TaskPayload.thy ===== *)
theory TaskPayload
  imports TaskVocabulary
begin

section \<open>Communication metadata of a task payload\<close>

text \<open>
  A payload is an untyped record that several generations of code have written to: the
  neutral \<open>communication*\<close> keys, the Teams keys and the Slack keys. Here are the readers that
  choose between them, the writers that copy the metadata of one run into the payload of the
  next one, and the Discord reaction targets (\<open>packages/types/src/task-runs.ts\<close>,
  \<open>packages/types/src/communication.ts\<close>). A writer mutates its payload argument; here it
  returns the updated record. \<open>null\<close> results are \<open>None\<close>.
\<close>

subsection \<open>Reading one key\<close>

definition stripRunErrorMarkers :: "string option \<Rightarrow> string option" where
  "stripRunErrorMarkers error =
     (case error of
        None \<Rightarrow> None
      | Some e \<Rightarrow> (let sanitizedError = trim e
                   in if sanitizedError = [] then None else Some sanitizedError))"

fun hasNonEmptyValue :: "string option \<Rightarrow> bool" where
  "hasNonEmptyValue None = False"
| "hasNonEmptyValue (Some value) = (0 < length (trim value))"

definition communicationProviders :: "string list" where
  "communicationProviders = [''slack'', ''teams'', ''telegram'', ''discord'', ''agentmail'']"

definition isCommunicationProvider :: "string option \<Rightarrow> bool" where
  "isCommunicationProvider value = (nullish_or value [] \<in> set communicationProviders)"

definition getNonEmptyTaskPayloadString :: "jsv \<Rightarrow> string \<Rightarrow> string option" where
  "getNonEmptyTaskPayloadString payload key =
     (if \<not> is_object payload then None
      else (case get_prop payload key of
              JStr value \<Rightarrow> if 0 < length (trim value) then Some value else None
            | _ \<Rightarrow> None))"

lemma hasNonEmptyValue_iff: "hasNonEmptyValue x \<longleftrightarrow> (\<exists>s. x = Some s \<and> trim s \<noteq> [])"
  by (cases x) auto

lemma payload_string_nonblank:
  "getNonEmptyTaskPayloadString payload key = Some v \<Longrightarrow> trim v \<noteq> []"
  by (auto simp: getNonEmptyTaskPayloadString_def split: if_splits jsv.splits)

lemma payload_string_truthy:
  "truthy (getNonEmptyTaskPayloadString p k) \<longleftrightarrow> getNonEmptyTaskPayloadString p k \<noteq> None"
  using payload_string_nonblank [of p k]
  by (cases "getNonEmptyTaskPayloadString p k") auto

lemma payload_string_set [json_get]:
  "getNonEmptyTaskPayloadString (JObj (rec_set k (JStr v) r)) k' =
     (if k' = k then (if trim v \<noteq> [] then Some v else None)
      else getNonEmptyTaskPayloadString (JObj r) k')"
  by (simp add: getNonEmptyTaskPayloadString_def get_prop_JObj del: get_prop.simps)

lemma payload_string_empty [json_get]:
  "getNonEmptyTaskPayloadString (JObj []) k = None"
  by (simp add: getNonEmptyTaskPayloadString_def)

lemma payload_string_set_None:
  "getNonEmptyTaskPayloadString (JObj (rec_set k JUndefined r)) k' =
     (if k' = k then None else getNonEmptyTaskPayloadString (JObj r) k')"
  by (simp add: getNonEmptyTaskPayloadString_def get_prop_JObj del: get_prop.simps)

subsection \<open>Slack keys\<close>

definition getSlackChannelFromTaskPayload :: "jsv \<Rightarrow> string option" where
  "getSlackChannelFromTaskPayload payload =
     nullish (getNonEmptyTaskPayloadString payload ''channel'')
       (getNonEmptyTaskPayloadString payload ''slackChannel'')"

definition getSlackTeamIdFromTaskPayload :: "jsv \<Rightarrow> string option" where
  "getSlackTeamIdFromTaskPayload payload =
     nullish (getNonEmptyTaskPayloadString payload ''teamId'')
       (getNonEmptyTaskPayloadString payload ''slackTeamId'')"

definition getSlackTeamDomainFromTaskPayload :: "jsv \<Rightarrow> string option" where
  "getSlackTeamDomainFromTaskPayload payload =
     nullish (getNonEmptyTaskPayloadString payload ''teamDomain'')
       (getNonEmptyTaskPayloadString payload ''slackTeamDomain'')"

definition getSlackThreadTsFromTaskPayload :: "jsv \<Rightarrow> string option" where
  "getSlackThreadTsFromTaskPayload payload =
     nullish (getNonEmptyTaskPayloadString payload ''thread_ts'')
       (getNonEmptyTaskPayloadString payload ''slackThreadTs'')"

definition getSlackConversationUrlFromTaskPayload :: "jsv \<Rightarrow> string option" where
  "getSlackConversationUrlFromTaskPayload payload =
     getNonEmptyTaskPayloadString payload ''slackConversationUrl''"

subsection \<open>Provider-neutral keys\<close>

definition getCommunicationProviderFromTaskPayload :: "jsv \<Rightarrow> string option" where
  "getCommunicationProviderFromTaskPayload payload =
     (let explicitProvider = getNonEmptyTaskPayloadString payload ''communicationProvider''
      in if isCommunicationProvider explicitProvider then explicitProvider
         else if truthy (getSlackChannelFromTaskPayload payload)
           \<or> truthy (getSlackThreadTsFromTaskPayload payload)
           \<or> truthy (getSlackTeamIdFromTaskPayload payload)
         then Some ''slack''
         else if truthy (getNonEmptyTaskPayloadString payload ''teamsChannelId'')
           \<or> truthy (getNonEmptyTaskPayloadString payload ''teamsConversationId'')
           \<or> truthy (getNonEmptyTaskPayloadString payload ''teamsThreadId'')
           \<or> truthy (getNonEmptyTaskPayloadString payload ''teamsMessageId'')
           \<or> truthy (getNonEmptyTaskPayloadString payload ''teamsTeamId'')
           \<or> truthy (getNonEmptyTaskPayloadString payload ''teamsTenantId'')
           \<or> truthy (getNonEmptyTaskPayloadString payload ''teamsServiceUrl'')
         then Some ''teams''
         else None)"

definition getCommunicationTeamIdFromTaskPayload :: "jsv \<Rightarrow> string option" where
  "getCommunicationTeamIdFromTaskPayload payload =
     nullish (getNonEmptyTaskPayloadString payload ''communicationTeamId'')
       (nullish (getNonEmptyTaskPayloadString payload ''teamsTeamId'')
         (nullish (getNonEmptyTaskPayloadString payload ''teamsTenantId'')
           (getSlackTeamIdFromTaskPayload payload)))"

definition getCommunicationTeamDomainFromTaskPayload :: "jsv \<Rightarrow> string option" where
  "getCommunicationTeamDomainFromTaskPayload payload =
     nullish (getNonEmptyTaskPayloadString payload ''communicationTeamDomain'')
       (getSlackTeamDomainFromTaskPayload payload)"

definition getCommunicationGuildIdFromTaskPayload :: "jsv \<Rightarrow> string option" where
  "getCommunicationGuildIdFromTaskPayload payload =
     getNonEmptyTaskPayloadString payload ''communicationGuildId''"

definition getCommunicationServiceUrlFromTaskPayload :: "jsv \<Rightarrow> string option" where
  "getCommunicationServiceUrlFromTaskPayload payload =
     nullish (getNonEmptyTaskPayloadString payload ''communicationServiceUrl'')
       (getNonEmptyTaskPayloadString payload ''teamsServiceUrl'')"

definition getCommunicationTenantIdFromTaskPayload :: "jsv \<Rightarrow> string option" where
  "getCommunicationTenantIdFromTaskPayload payload =
     getNonEmptyTaskPayloadString payload ''teamsTenantId''"

definition getCommunicationChannelFromTaskPayload :: "jsv \<Rightarrow> string option" where
  "getCommunicationChannelFromTaskPayload payload =
     nullish (getNonEmptyTaskPayloadString payload ''communicationChannelId'')
       (nullish (getNonEmptyTaskPayloadString payload ''teamsConversationId'')
         (nullish (getNonEmptyTaskPayloadString payload ''teamsChannelId'')
           (getSlackChannelFromTaskPayload payload)))"

definition getCommunicationThreadIdFromTaskPayload :: "jsv \<Rightarrow> string option" where
  "getCommunicationThreadIdFromTaskPayload payload =
     nullish (getNonEmptyTaskPayloadString payload ''communicationThreadId'')
       (nullish (getNonEmptyTaskPayloadString payload ''teamsThreadId'')
         (nullish (getNonEmptyTaskPayloadString payload ''teamsMessageId'')
           (getSlackThreadTsFromTaskPayload payload)))"

definition getCommunicationMessageIdFromTaskPayload :: "jsv \<Rightarrow> string option" where
  "getCommunicationMessageIdFromTaskPayload payload =
     nullish (getNonEmptyTaskPayloadString payload ''communicationMessageId'')
       (getNonEmptyTaskPayloadString payload ''teamsMessageId'')"

lemmas slack_readers = getSlackChannelFromTaskPayload_def getSlackTeamIdFromTaskPayload_def
  getSlackTeamDomainFromTaskPayload_def getSlackThreadTsFromTaskPayload_def
  getSlackConversationUrlFromTaskPayload_def

lemmas communication_readers = getCommunicationTeamIdFromTaskPayload_def
  getCommunicationTeamDomainFromTaskPayload_def getCommunicationGuildIdFromTaskPayload_def
  getCommunicationServiceUrlFromTaskPayload_def getCommunicationTenantIdFromTaskPayload_def
  getCommunicationChannelFromTaskPayload_def getCommunicationThreadIdFromTaskPayload_def
  getCommunicationMessageIdFromTaskPayload_def

text \<open>Whatever key a reader takes its result from, the result is not blank.\<close>

definition nonblank :: "string option \<Rightarrow> bool" where
  "nonblank x \<longleftrightarrow> (\<forall>s. x = Some s \<longrightarrow> trim s \<noteq> [])"

lemma nonblank_payload_string [simp]: "nonblank (getNonEmptyTaskPayloadString p k)"
  using payload_string_nonblank by (auto simp: nonblank_def)

lemma nonblank_nullish [simp]: "nonblank a \<Longrightarrow> nonblank b \<Longrightarrow> nonblank (nullish a b)"
  by (cases a) auto

lemma nonblank_readers [simp]:
  "nonblank (getSlackChannelFromTaskPayload p)" "nonblank (getSlackTeamIdFromTaskPayload p)"
  "nonblank (getSlackTeamDomainFromTaskPayload p)" "nonblank (getSlackThreadTsFromTaskPayload p)"
  "nonblank (getSlackConversationUrlFromTaskPayload p)"
  "nonblank (getCommunicationTeamIdFromTaskPayload p)"
  "nonblank (getCommunicationTeamDomainFromTaskPayload p)"
  "nonblank (getCommunicationGuildIdFromTaskPayload p)"
  "nonblank (getCommunicationServiceUrlFromTaskPayload p)"
  "nonblank (getCommunicationChannelFromTaskPayload p)"
  "nonblank (getCommunicationThreadIdFromTaskPayload p)"
  "nonblank (getCommunicationMessageIdFromTaskPayload p)"
  by (simp_all add: slack_readers communication_readers)

lemma nonblank_truthy: "nonblank x \<Longrightarrow> truthy x \<longleftrightarrow> x \<noteq> None"
  by (cases x) (auto simp: nonblank_def)

lemma nonblank_hasNonEmptyValue: "nonblank x \<Longrightarrow> hasNonEmptyValue x \<longleftrightarrow> x \<noteq> None"
  by (cases x) (auto simp: nonblank_def)

lemma provider_is_known:
  "getCommunicationProviderFromTaskPayload p = Some v \<Longrightarrow> v \<in> set communicationProviders"
  by (auto simp: getCommunicationProviderFromTaskPayload_def Let_def isCommunicationProvider_def
      communicationProviders_def split: if_splits)

lemma provider_nonblank: "v \<in> set communicationProviders \<Longrightarrow> trim v \<noteq> []"
  by (auto simp: communicationProviders_def trim_eq_Nil js_space_def)

subsection \<open>Copying the metadata into another payload\<close>

record communication_options =
  co_teamId :: "string option"
  co_guildId :: "string option"
  co_teamDomain :: "string option"
  co_serviceUrl :: "string option"
  co_channelId :: "string option"
  co_threadId :: "string option"
  co_messageId :: "string option"

definition no_communication_options :: communication_options where
  "no_communication_options = \<lparr>co_teamId = None, co_guildId = None, co_teamDomain = None,
     co_serviceUrl = None, co_channelId = None, co_threadId = None, co_messageId = None\<rparr>"

definition fromOptionOrSource :: "string option \<Rightarrow> string option \<Rightarrow> string option" where
  "fromOptionOrSource option sourceValue =
     (if hasNonEmptyValue option then option else sourceValue)"

definition write_non_empty :: "js_record \<Rightarrow> string \<times> string option \<Rightarrow> js_record" where
  "write_non_empty payload entry =
     (case entry of (key, value) \<Rightarrow>
        (case value of
           Some v \<Rightarrow> if hasNonEmptyValue value then rec_set key (JStr v) payload else payload
         | None \<Rightarrow> payload))"

definition populateCommunicationMetadata ::
    "js_record \<Rightarrow> jsv \<Rightarrow> communication_options \<Rightarrow> js_record" where
  "populateCommunicationMetadata payload source options =
     (let payload1 = (case getCommunicationProviderFromTaskPayload source of
            Some provider \<Rightarrow> rec_set ''communicationProvider'' (JStr provider) payload
          | None \<Rightarrow> payload);
          values =
            [(''communicationTeamId'',
              fromOptionOrSource (co_teamId options)
                (getCommunicationTeamIdFromTaskPayload source)),
             (''communicationGuildId'',
              fromOptionOrSource (co_guildId options)
                (getCommunicationGuildIdFromTaskPayload source)),
             (''communicationTeamDomain'',
              fromOptionOrSource (co_teamDomain options)
                (getCommunicationTeamDomainFromTaskPayload source)),
             (''communicationServiceUrl'',
              fromOptionOrSource (co_serviceUrl options)
                (getCommunicationServiceUrlFromTaskPayload source)),
             (''communicationChannelId'',
              fromOptionOrSource (co_channelId options)
                (getCommunicationChannelFromTaskPayload source)),
             (''communicationThreadId'',
              fromOptionOrSource (co_threadId options)
                (getCommunicationThreadIdFromTaskPayload source)),
             (''communicationMessageId'',
              fromOptionOrSource (co_messageId options)
                (getCommunicationMessageIdFromTaskPayload source))]
      in foldl write_non_empty payload1 values)"

lemma nonblank_fromOptionOrSource [simp]:
  "nonblank s \<Longrightarrow> nonblank (fromOptionOrSource opt s)"
  by (auto simp: fromOptionOrSource_def nonblank_def hasNonEmptyValue_iff)

text \<open>Writing an entry gives its key the value when there is one, and touches no other key.\<close>

lemma payload_string_write:
  "nonblank w \<Longrightarrow>
   getNonEmptyTaskPayloadString (JObj (write_non_empty r (key, w))) k =
     (if k = key then nullish w (getNonEmptyTaskPayloadString (JObj r) k)
      else getNonEmptyTaskPayloadString (JObj r) k)"
  by (cases w)
    (auto simp: write_non_empty_def nonblank_hasNonEmptyValue json_get nonblank_def)

lemma payload_string_provider:
  "getNonEmptyTaskPayloadString
     (JObj (case getCommunicationProviderFromTaskPayload source of
              Some provider \<Rightarrow> rec_set ''communicationProvider'' (JStr provider) r
            | None \<Rightarrow> r)) k =
     (if k = ''communicationProvider''
      then nullish (getCommunicationProviderFromTaskPayload source)
             (getNonEmptyTaskPayloadString (JObj r) k)
      else getNonEmptyTaskPayloadString (JObj r) k)"
  using provider_nonblank [OF provider_is_known [of source]]
  by (auto simp: json_get split: option.split)

lemma populated_string:
  "getNonEmptyTaskPayloadString (JObj (populateCommunicationMetadata r source opts)) k =
     nullish
       (if k = ''communicationProvider'' then getCommunicationProviderFromTaskPayload source
        else if k = ''communicationTeamId'' then
          fromOptionOrSource (co_teamId opts) (getCommunicationTeamIdFromTaskPayload source)
        else if k = ''communicationGuildId'' then
          fromOptionOrSource (co_guildId opts) (getCommunicationGuildIdFromTaskPayload source)
        else if k = ''communicationTeamDomain'' then
          fromOptionOrSource (co_teamDomain opts)
            (getCommunicationTeamDomainFromTaskPayload source)
        else if k = ''communicationServiceUrl'' then
          fromOptionOrSource (co_serviceUrl opts)
            (getCommunicationServiceUrlFromTaskPayload source)
        else if k = ''communicationChannelId'' then
          fromOptionOrSource (co_channelId opts) (getCommunicationChannelFromTaskPayload source)
        else if k = ''communicationThreadId'' then
          fromOptionOrSource (co_threadId opts) (getCommunicationThreadIdFromTaskPayload source)
        else if k = ''communicationMessageId'' then
          fromOptionOrSource (co_messageId opts) (getCommunicationMessageIdFromTaskPayload source)
        else None)
       (getNonEmptyTaskPayloadString (JObj r) k)"
  by (simp add: populateCommunicationMetadata_def Let_def payload_string_write
      payload_string_provider)

text \<open>Starting a run from another run's payload carries its communication metadata over: each
  reader of the populated payload returns the caller's option when it is not blank, else what
  the same reader returned of the source payload, else what it returned of the payload before;
  the provider follows the source's, and no Slack key is touched.\<close>

theorem populate_communication_metadata:
  "let p = JObj r; q = JObj (populateCommunicationMetadata r source opts) in
     getCommunicationProviderFromTaskPayload q =
       nullish (getCommunicationProviderFromTaskPayload source)
         (getCommunicationProviderFromTaskPayload p) \<and>
     getCommunicationTeamIdFromTaskPayload q =
       nullish (fromOptionOrSource (co_teamId opts) (getCommunicationTeamIdFromTaskPayload source))
         (getCommunicationTeamIdFromTaskPayload p) \<and>
     getCommunicationChannelFromTaskPayload q =
       nullish (fromOptionOrSource (co_channelId opts)
           (getCommunicationChannelFromTaskPayload source))
         (getCommunicationChannelFromTaskPayload p) \<and>
     getCommunicationThreadIdFromTaskPayload q =
       nullish (fromOptionOrSource (co_threadId opts)
           (getCommunicationThreadIdFromTaskPayload source))
         (getCommunicationThreadIdFromTaskPayload p) \<and>
     getCommunicationMessageIdFromTaskPayload q =
       nullish (fromOptionOrSource (co_messageId opts)
           (getCommunicationMessageIdFromTaskPayload source))
         (getCommunicationMessageIdFromTaskPayload p) \<and>
     getSlackThreadTsFromTaskPayload q = getSlackThreadTsFromTaskPayload p"
proof -
  have known: "isCommunicationProvider (Some v)"
    if "getCommunicationProviderFromTaskPayload source = Some v" for v
    using provider_is_known [OF that] by (simp add: isCommunicationProvider_def)
  have provider:
    "getCommunicationProviderFromTaskPayload
         (JObj (populateCommunicationMetadata r source opts)) =
       nullish (getCommunicationProviderFromTaskPayload source)
         (getCommunicationProviderFromTaskPayload (JObj r))"
  proof (cases "getCommunicationProviderFromTaskPayload source")
    case None
    then show ?thesis
      by (subst (1 3) getCommunicationProviderFromTaskPayload_def)
        (simp add: populated_string slack_readers)
  next
    case (Some v)
    then show ?thesis
      using known [OF Some]
      by (subst (1) getCommunicationProviderFromTaskPayload_def)
        (simp add: populated_string)
  qed
  show ?thesis
    unfolding Let_def
    by (intro conjI provider)
      (simp_all add: communication_readers populated_string slack_readers nullish_assoc)
qed

definition populateSnapshotResumeCommunicationMetadata ::
    "js_record \<Rightarrow> string option \<Rightarrow> jsv \<Rightarrow> communication_options \<Rightarrow> js_record" where
  "populateSnapshotResumeCommunicationMetadata payload provider source options =
     (let payload1 = populateCommunicationMetadata payload source options
      in case provider of
           Some p \<Rightarrow> rec_set ''communicationProvider'' (JStr p) payload1
         | None \<Rightarrow> payload1)"

subsection \<open>Slack metadata of a resumed run\<close>

record slack_resume_options =
  so_teamId :: "string option"
  so_teamDomain :: "string option"
  so_channel :: "string option"
  so_threadTs :: "string option"
  so_conversationUrl :: "string option"

definition option_if_non_empty :: "string option \<Rightarrow> string option" where
  "option_if_non_empty value = (if hasNonEmptyValue value then value else None)"

fun set_when_truthy :: "string list \<Rightarrow> string option \<Rightarrow> js_record \<Rightarrow> js_record" where
  "set_when_truthy ks None payload = payload"
| "set_when_truthy ks (Some v) payload =
     (if v = [] then payload else foldl (\<lambda>r k. rec_set k (JStr v) r) payload ks)"

definition populateSnapshotResumeSlackMetadata ::
    "js_record \<Rightarrow> jsv \<Rightarrow> slack_resume_options \<Rightarrow> js_record" where
  "populateSnapshotResumeSlackMetadata payload source options =
     (let teamId = nullish (option_if_non_empty (so_teamId options))
            (getSlackTeamIdFromTaskPayload source);
          payload = set_when_truthy [''teamId'', ''slackTeamId''] teamId payload;
          teamDomain = nullish (option_if_non_empty (so_teamDomain options))
            (getSlackTeamDomainFromTaskPayload source);
          payload = set_when_truthy [''teamDomain''] teamDomain payload;
          channel = nullish (option_if_non_empty (so_channel options))
            (getSlackChannelFromTaskPayload source);
          payload = set_when_truthy [''channel'', ''slackChannel''] channel payload;
          threadTs = nullish (option_if_non_empty (so_threadTs options))
            (getSlackThreadTsFromTaskPayload source);
          payload = set_when_truthy [''thread_ts''] threadTs payload;
          conversationUrl = nullish (option_if_non_empty (so_conversationUrl options))
            (getSlackConversationUrlFromTaskPayload source)
      in set_when_truthy [''slackConversationUrl''] conversationUrl payload)"

lemma nonblank_option_if_non_empty [simp]: "nonblank (option_if_non_empty x)"
  by (auto simp: option_if_non_empty_def nonblank_def hasNonEmptyValue_iff)

lemma payload_string_set_all:
  assumes "trim v \<noteq> []"
  shows "getNonEmptyTaskPayloadString (JObj (foldl (\<lambda>r k. rec_set k (JStr v) r) r ks)) k =
    (if k \<in> set ks then Some v else getNonEmptyTaskPayloadString (JObj r) k)"
  using assms by (induction ks arbitrary: r) (simp_all add: json_get)

lemma payload_string_set_when_truthy:
  "nonblank w \<Longrightarrow>
   getNonEmptyTaskPayloadString (JObj (set_when_truthy ks w r)) k =
     (if k \<in> set ks then nullish w (getNonEmptyTaskPayloadString (JObj r) k)
      else getNonEmptyTaskPayloadString (JObj r) k)"
  by (cases w) (auto simp: nonblank_def payload_string_set_all)

text \<open>A run resumed from a snapshot keeps its Slack conversation: with no option given, the
  team, domain, channel, thread and conversation link read from the resumed payload are those
  of the source payload wherever the source has them, so the resumed run is again recognised as
  a Slack run; a second copy changes no reader.\<close>

theorem resume_slack_metadata:
  "let none = \<lparr>so_teamId = None, so_teamDomain = None, so_channel = None, so_threadTs = None,
         so_conversationUrl = None\<rparr>;
       p = JObj r;
       q1 = populateSnapshotResumeSlackMetadata r source none;
       q = JObj q1;
       again = JObj (populateSnapshotResumeSlackMetadata q1 source none) in
     getSlackTeamIdFromTaskPayload q =
       nullish (getSlackTeamIdFromTaskPayload source) (getSlackTeamIdFromTaskPayload p) \<and>
     getSlackTeamDomainFromTaskPayload q =
       nullish (getSlackTeamDomainFromTaskPayload source)
         (getSlackTeamDomainFromTaskPayload p) \<and>
     getSlackChannelFromTaskPayload q =
       nullish (getSlackChannelFromTaskPayload source) (getSlackChannelFromTaskPayload p) \<and>
     getSlackThreadTsFromTaskPayload q =
       nullish (getSlackThreadTsFromTaskPayload source) (getSlackThreadTsFromTaskPayload p) \<and>
     getSlackConversationUrlFromTaskPayload q =
       nullish (getSlackConversationUrlFromTaskPayload source)
         (getSlackConversationUrlFromTaskPayload p) \<and>
     getSlackChannelFromTaskPayload again = getSlackChannelFromTaskPayload q \<and>
     getSlackThreadTsFromTaskPayload again = getSlackThreadTsFromTaskPayload q"
proof -
  have [simp]: "option_if_non_empty None = None"
    by (simp add: option_if_non_empty_def)
  show ?thesis
    unfolding Let_def
    by (intro conjI)
      (simp_all add: populateSnapshotResumeSlackMetadata_def Let_def
        payload_string_set_when_truthy slack_readers nullish_assoc cong: nullish_cong)
qed

subsection \<open>Discord reaction targets\<close>

record reaction_target =
  rt_channelId :: string
  rt_messageId :: string

definition getDiscordReactionTargetFromTaskPayload :: "jsv \<Rightarrow> reaction_target option" where
  "getDiscordReactionTargetFromTaskPayload payload =
     (case (getNonEmptyTaskPayloadString payload ''discordReactionChannelId'',
            getNonEmptyTaskPayloadString payload ''discordReactionMessageId'') of
        (Some reactionChannelId, Some reactionMessageId) \<Rightarrow>
          Some \<lparr>rt_channelId = reactionChannelId, rt_messageId = reactionMessageId\<rparr>
      | _ \<Rightarrow>
          (case (nullish (getCommunicationThreadIdFromTaskPayload payload)
                   (getCommunicationChannelFromTaskPayload payload),
                 getCommunicationMessageIdFromTaskPayload payload) of
             (Some channelId, Some messageId) \<Rightarrow>
               Some \<lparr>rt_channelId = channelId, rt_messageId = messageId\<rparr>
           | _ \<Rightarrow> None))"

definition getDiscordIntakeAckReactionTargetFromTaskPayload ::
    "jsv \<Rightarrow> reaction_target option" where
  "getDiscordIntakeAckReactionTargetFromTaskPayload payload =
     (if \<not> is_object payload then None
      else if get_prop payload ''discordIntakeAckPending'' \<noteq> JBool True then None
      else (case (getNonEmptyTaskPayloadString payload ''discordReactionChannelId'',
                  getNonEmptyTaskPayloadString payload ''discordReactionMessageId'') of
              (Some channelId, Some messageId) \<Rightarrow>
                Some \<lparr>rt_channelId = channelId, rt_messageId = messageId\<rparr>
            | _ \<Rightarrow> None))"

text \<open>A Discord reaction target is never mixed from two places: either both halves are the
  dedicated reaction fields, or neither is used and both halves come from the communication
  metadata; and clearing the intake reaction always clears exactly the reaction the run itself
  would put, and only while the pending flag is set.\<close>

theorem discord_reaction_target_atomic:
  "(getDiscordReactionTargetFromTaskPayload p =
      (if getNonEmptyTaskPayloadString p ''discordReactionChannelId'' = None
          \<or> getNonEmptyTaskPayloadString p ''discordReactionMessageId'' = None
       then Option.bind (nullish (getCommunicationThreadIdFromTaskPayload p)
                (getCommunicationChannelFromTaskPayload p))
              (\<lambda>c. map_option (\<lambda>m. \<lparr>rt_channelId = c, rt_messageId = m\<rparr>)
                (getCommunicationMessageIdFromTaskPayload p))
       else Some \<lparr>rt_channelId =
                the (getNonEmptyTaskPayloadString p ''discordReactionChannelId''),
              rt_messageId =
                the (getNonEmptyTaskPayloadString p ''discordReactionMessageId'')\<rparr>)) \<and>
   (getDiscordIntakeAckReactionTargetFromTaskPayload p \<in>
      {None, getDiscordReactionTargetFromTaskPayload p}) \<and>
   (getDiscordIntakeAckReactionTargetFromTaskPayload p = None \<or>
      get_prop p ''discordIntakeAckPending'' = JBool True)"
  by (auto simp: getDiscordReactionTargetFromTaskPayload_def
      getDiscordIntakeAckReactionTargetFromTaskPayload_def split: option.splits)

end
