(* ===== verification/Workspace.thy ===== *)
theory Workspace
  imports TaskVocabulary
begin

section \<open>The workspace of a task\<close>

text \<open>
  Which repositories a task is given: the workspace fields of a payload and their resolution
  (\<open>packages/types/src/task-runs.ts\<close>), and the workspace fields a Fast session writes
  (\<open>packages/types/src/constants.ts\<close>). The thrown error is the left value of a sum.
\<close>

definition ALL_REPOSITORIES :: string where
  "ALL_REPOSITORIES = ''__all_repositories__''"

definition NO_REPOSITORIES :: string where
  "NO_REPOSITORIES = ''__no_repositories__''"

definition FAST_EXECUTION :: string where
  "FAST_EXECUTION = ''__fast__''"

record workspace_payload =
  wp_repo :: "string option"
  wp_branch :: "string option"
  wp_allowMissingBranchFallback :: "bool option"
  wp_sha :: "string option"
  wp_sourceControlHost :: "string option"
  wp_environmentId :: "string option"
  wp_selectedRepositories :: "string list option"

record repository_workspace =
  rw_repo :: string
  rw_branch :: "string option"
  rw_allowMissingBranchFallback :: bool
  rw_sha :: "string option"
  rw_sourceControlHost :: "string option"

record environment_workspace =
  ew_environmentId :: string
  ew_sourceRepo :: "string option"
  ew_sourceBranch :: "string option"
  ew_allowMissingBranchFallback :: bool
  ew_sourceSha :: "string option"

datatype task_workspace =
    WsNoRepositories
  | WsRepository repository_workspace
  | WsRepositorySet "string list" "string option"
  | WsAllRepositories
  | WsEnvironment environment_workspace

datatype workspace_error = InvalidWorkspacePayload

definition normalizeSelectedRepositories :: "string list option \<Rightarrow> string list option" where
  "normalizeSelectedRepositories repositories =
     (case repositories of
        None \<Rightarrow> None
      | Some rs \<Rightarrow>
          (let normalized = uniq (filter (\<lambda>r. r \<noteq> []) rs)
           in if 0 < length normalized then Some normalized else None))"

definition resolveTaskWorkspace :: "workspace_payload \<Rightarrow> workspace_error + task_workspace" where
  "resolveTaskWorkspace payload =
     (if truthy (wp_environmentId payload) then
        Inr (WsEnvironment
          \<lparr>ew_environmentId = nullish_or (wp_environmentId payload) [],
           ew_sourceRepo = wp_repo payload,
           ew_sourceBranch = wp_branch payload,
           ew_allowMissingBranchFallback = (wp_allowMissingBranchFallback payload = Some True),
           ew_sourceSha = wp_sha payload\<rparr>)
      else if wp_repo payload = Some NO_REPOSITORIES then Inr WsNoRepositories
      else if wp_repo payload = Some ALL_REPOSITORIES then
        (case normalizeSelectedRepositories (wp_selectedRepositories payload) of
           Some repositories \<Rightarrow>
             Inr (WsRepositorySet repositories (wp_sourceControlHost payload))
         | None \<Rightarrow> Inr WsAllRepositories)
      else if \<not> truthy (wp_repo payload) then Inl InvalidWorkspacePayload
      else Inr (WsRepository
          \<lparr>rw_repo = nullish_or (wp_repo payload) [],
           rw_branch = wp_branch payload,
           rw_allowMissingBranchFallback = (wp_allowMissingBranchFallback payload = Some True),
           rw_sha = wp_sha payload,
           rw_sourceControlHost = wp_sourceControlHost payload\<rparr>))"

text \<open>A normalised selection names repositories: none blank, none twice, none invented.\<close>

lemma normalized_selection:
  "normalizeSelectedRepositories sel = Some rs \<Longrightarrow>
     rs \<noteq> [] \<and> distinct rs \<and> [] \<notin> set rs \<and> (\<exists>xs. sel = Some xs \<and> set rs = set xs - {[]})"
  by (auto simp: normalizeSelectedRepositories_def Let_def split: option.splits if_splits)

lemma no_selection:
  "normalizeSelectedRepositories sel = None \<longleftrightarrow> (\<forall>xs. sel = Some xs \<longrightarrow> set xs \<subseteq> {[]})"
  by (auto simp: normalizeSelectedRepositories_def Let_def filter_empty_conv split: option.splits)

text \<open>Resolving a payload's workspace fails exactly when it names neither a repository nor an
  environment; an environment id wins over everything else; and a repository set is never
  empty, never holds a blank name or a repository twice, and holds exactly the selected
  repositories.\<close>

theorem resolve_task_workspace:
  "(resolveTaskWorkspace payload = Inl InvalidWorkspacePayload \<longleftrightarrow>
      \<not> truthy (wp_environmentId payload) \<and> \<not> truthy (wp_repo payload)) \<and>
   ((\<exists>e. resolveTaskWorkspace payload = Inr (WsEnvironment e)) \<longleftrightarrow>
      truthy (wp_environmentId payload)) \<and>
   (case resolveTaskWorkspace payload of
      Inr (WsRepositorySet rs host) \<Rightarrow>
        rs \<noteq> [] \<and> distinct rs \<and> [] \<notin> set rs \<and>
        (\<exists>xs. wp_selectedRepositories payload = Some xs \<and> set rs = set xs - {[]})
    | Inr (WsRepository w) \<Rightarrow>
        wp_repo payload = Some (rw_repo w) \<and>
        rw_repo w \<notin> {[], NO_REPOSITORIES, ALL_REPOSITORIES}
    | _ \<Rightarrow> True)"
proof -
  have ne: "NO_REPOSITORIES \<noteq> []" "ALL_REPOSITORIES \<noteq> []"
    by (simp_all add: NO_REPOSITORIES_def ALL_REPOSITORIES_def)
  show ?thesis
  proof (cases "truthy (wp_environmentId payload)")
    case True
    then show ?thesis by (simp add: resolveTaskWorkspace_def)
  next
    case no_env: False
    show ?thesis
    proof (cases "wp_repo payload")
      case None
      then show ?thesis using no_env by (simp add: resolveTaskWorkspace_def)
    next
      case (Some r)
      show ?thesis
      proof (cases "r = ALL_REPOSITORIES")
        case True
        have neq: "NO_REPOSITORIES \<noteq> ALL_REPOSITORIES"
          by (simp add: NO_REPOSITORIES_def ALL_REPOSITORIES_def)
        show ?thesis
          using no_env Some True ne neq
            normalized_selection [of "wp_selectedRepositories payload"]
          by (cases "normalizeSelectedRepositories (wp_selectedRepositories payload)")
            (simp_all add: resolveTaskWorkspace_def)
      next
        case False
        then show ?thesis using no_env Some ne by (simp add: resolveTaskWorkspace_def)
      qed
    qed
  qed
qed

subsection \<open>Launching from a Fast session\<close>

definition isFastAgentLaunchTargetSentinel :: "string option \<Rightarrow> bool" where
  "isFastAgentLaunchTargetSentinel environmentId \<longleftrightarrow>
     environmentId = Some ALL_REPOSITORIES \<or> environmentId = Some NO_REPOSITORIES \<or>
     environmentId = Some FAST_EXECUTION"

record fast_launch_workspace =
  fl_repo :: string
  fl_environmentId :: "string option"

definition resolveFastAgentLaunchWorkspace ::
    "string option \<Rightarrow> string \<Rightarrow> fast_launch_workspace" where
  "resolveFastAgentLaunchWorkspace environmentId fallbackRepo =
     (if environmentId = Some NO_REPOSITORIES
      then \<lparr>fl_repo = NO_REPOSITORIES, fl_environmentId = None\<rparr>
      else if truthy environmentId \<and> \<not> isFastAgentLaunchTargetSentinel environmentId
      then \<lparr>fl_repo = fallbackRepo, fl_environmentId = environmentId\<rparr>
      else \<lparr>fl_repo = fallbackRepo, fl_environmentId = None\<rparr>)"

text \<open>The payload fields a surface spreads the launch workspace into.\<close>

definition launch_payload :: "fast_launch_workspace \<Rightarrow> workspace_payload" where
  "launch_payload w =
     \<lparr>wp_repo = Some (fl_repo w), wp_branch = None, wp_allowMissingBranchFallback = None,
      wp_sha = None, wp_sourceControlHost = None, wp_environmentId = fl_environmentId w,
      wp_selectedRepositories = None\<rparr>"

text \<open>A launch target of a Fast session always resolves, when the fallback repository is not
  blank: a routing sentinel never becomes an environment id, every other target does, the
  blank-slate sentinel resolves to no repositories whatever the fallback, and any other
  sentinel or a missing target resolves to the fallback.\<close>

theorem fast_launch_never_stores_a_sentinel:
  assumes "fallback \<notin> {[], NO_REPOSITORIES, ALL_REPOSITORIES}"
  shows "(let w = resolveFastAgentLaunchWorkspace target fallback;
              r = resolveTaskWorkspace (launch_payload w) in
     \<not> isFastAgentLaunchTargetSentinel (fl_environmentId w) \<and>
     (if target = Some NO_REPOSITORIES then r = Inr WsNoRepositories
      else if truthy target \<and> \<not> isFastAgentLaunchTargetSentinel target
      then (\<exists>e. r = Inr (WsEnvironment e) \<and> target = Some (ew_environmentId e))
      else (\<exists>w. r = Inr (WsRepository w) \<and> rw_repo w = fallback)))"
  using assms
  by (auto simp: resolveFastAgentLaunchWorkspace_def resolveTaskWorkspace_def launch_payload_def
      isFastAgentLaunchTargetSentinel_def truthy_iff NO_REPOSITORIES_def ALL_REPOSITORIES_def
      FAST_EXECUTION_def neq_Nil_conv)

theorem fast_launch_never_stores_a_sentinel_witness:
  "resolveTaskWorkspace (launch_payload
     (resolveFastAgentLaunchWorkspace (Some FAST_EXECUTION) ''acme/app'')) =
   Inr (WsRepository \<lparr>rw_repo = ''acme/app'', rw_branch = None,
     rw_allowMissingBranchFallback = False, rw_sha = None, rw_sourceControlHost = None\<rparr>) \<and>
   \<not> isFastAgentLaunchTargetSentinel (fl_environmentId
     (resolveFastAgentLaunchWorkspace (Some FAST_EXECUTION) ''acme/app''))"
proof
  show "\<not> isFastAgentLaunchTargetSentinel (fl_environmentId
     (resolveFastAgentLaunchWorkspace (Some FAST_EXECUTION) ''acme/app''))"
    using fast_launch_never_stores_a_sentinel
      [where fallback = "''acme/app''" and target = "Some FAST_EXECUTION"]
    by (simp add: Let_def NO_REPOSITORIES_def ALL_REPOSITORIES_def)
  show "resolveTaskWorkspace (launch_payload
     (resolveFastAgentLaunchWorkspace (Some FAST_EXECUTION) ''acme/app'')) =
   Inr (WsRepository \<lparr>rw_repo = ''acme/app'', rw_branch = None,
     rw_allowMissingBranchFallback = False, rw_sha = None, rw_sourceControlHost = None\<rparr>)"
    by (simp add: resolveFastAgentLaunchWorkspace_def resolveTaskWorkspace_def
        launch_payload_def isFastAgentLaunchTargetSentinel_def NO_REPOSITORIES_def
        ALL_REPOSITORIES_def FAST_EXECUTION_def)
qed

end
