(* ===== verification/PromptQueue.thy ===== *)
theory PromptQueue
  imports Prelude
begin

section \<open>The worker's queue of follow-up prompts\<close>

text \<open>
  \<open>RuntimePromptQueue\<close> of
  \<open>apps/worker/src/sandbox-server/lib/harnesses/runtime-prompt-queue.ts\<close>: the messages a running
  harness has not delivered yet. The object is a record; a method returns the updated object,
  the update event it emitted (at most one) and its result. What the callbacks and the clock
  answer during a call (session id, sequence number, \<open>Date.now()\<close>) is the argument \<open>env\<close>.
\<close>

subsection \<open>Messages and events\<close>

record queued_prompt =
  qp_id :: string
  qp_text :: string
  qp_images :: "string list option"
  qp_queueOnly :: "bool option"
  qp_visibleInTranscript :: "bool option"
  qp_userId :: "string option"
  qp_userName :: "string option"
  qp_userImageUrl :: "string option"
  qp_clientMessageId :: "string option"
  qp_source :: "string option"
  qp_timestamp :: ms

record prompt_input =
  pi_text :: string
  pi_images :: "string list option"
  pi_queueOnly :: "bool option"
  pi_visibleInTranscript :: "bool option"
  pi_userId :: "string option"
  pi_userName :: "string option"
  pi_userImageUrl :: "string option"
  pi_clientMessageId :: "string option"
  pi_source :: "string option"

datatype update_cause =
  CEnqueue | CDequeue | CDelete | CPrioritize | CMove | CReplace | CClear | CRestore

text \<open>One entry of the event's payload: what the web app is shown of a message.\<close>

record queued_view =
  qv_id :: string
  qv_text :: string
  qv_timestamp :: ms
  qv_images :: "string list option"
  qv_userName :: "string option"
  qv_userImageUrl :: "string option"
  qv_clientMessageId :: "string option"

record queue_update =
  qu_sessionId :: string
  qu_sequence :: int
  qu_queuedMessages :: "queued_view list"
  qu_deliverableCount :: nat
  qu_cause :: update_cause

record prompt_queue =
  pq_messages :: "queued_prompt list"
  pq_counter :: nat

record callback_env =
  cb_sessionId :: "string option"
  cb_sequence :: int
  cb_now :: ms

definition empty_prompt_queue :: prompt_queue where
  "empty_prompt_queue = \<lparr>pq_messages = [], pq_counter = 0\<rparr>"

subsection \<open>Emitting an update\<close>

text \<open>A field that is spread in only when truthy is absent for the empty string.\<close>

definition spread_truthy :: "string option \<Rightarrow> string option" where
  "spread_truthy x = (if truthy x then x else None)"

definition queued_view_of :: "queued_prompt \<Rightarrow> queued_view" where
  "queued_view_of m =
     \<lparr>qv_id = qp_id m, qv_text = qp_text m, qv_timestamp = qp_timestamp m,
      qv_images = qp_images m,
      qv_userName = spread_truthy (qp_userName m),
      qv_userImageUrl = spread_truthy (qp_userImageUrl m),
      qv_clientMessageId = spread_truthy (qp_clientMessageId m)\<rparr>"

definition visible_queue :: "queued_prompt list \<Rightarrow> queued_view list" where
  "visible_queue ms =
     map queued_view_of
       (filter (\<lambda>m. qp_queueOnly m \<noteq> Some True \<and> qp_visibleInTranscript m \<noteq> Some False) ms)"

definition emitUpdate :: "callback_env \<Rightarrow> update_cause \<Rightarrow> prompt_queue \<Rightarrow> queue_update" where
  "emitUpdate env cause q =
     \<lparr>qu_sessionId = nullish_or (cb_sessionId env) ''runtime-session'',
      qu_sequence = cb_sequence env,
      qu_queuedMessages = visible_queue (pq_messages q),
      qu_deliverableCount =
        length (filter (\<lambda>m. qp_queueOnly m \<noteq> Some True) (pq_messages q)),
      qu_cause = cause\<rparr>"

type_synonym 'r queue_result = "prompt_queue \<times> queue_update option \<times> 'r"

subsection \<open>Operations\<close>

definition isHiddenPlatformPrompt :: "bool option \<Rightarrow> bool option \<Rightarrow> bool" where
  "isHiddenPlatformPrompt queueOnly visibleInTranscript \<longleftrightarrow>
     queueOnly = Some True \<or> visibleInTranscript = Some False"

definition hidden_message :: "queued_prompt \<Rightarrow> bool" where
  "hidden_message m = isHiddenPlatformPrompt (qp_queueOnly m) (qp_visibleInTranscript m)"

definition queued_id :: "nat \<Rightarrow> string" where
  "queued_id n = ''runtime-queued-'' @ nat_str n"

definition enqueue_message :: "string \<Rightarrow> ms \<Rightarrow> prompt_input \<Rightarrow> queued_prompt" where
  "enqueue_message newId now prompt =
     \<lparr>qp_id = newId, qp_text = pi_text prompt, qp_images = pi_images prompt,
      qp_queueOnly = pi_queueOnly prompt,
      qp_visibleInTranscript = pi_visibleInTranscript prompt,
      qp_userId = pi_userId prompt, qp_userName = pi_userName prompt,
      qp_userImageUrl = pi_userImageUrl prompt,
      qp_clientMessageId = pi_clientMessageId prompt,
      qp_source = pi_source prompt, qp_timestamp = now\<rparr>"

definition replace_index :: "prompt_input \<Rightarrow> queued_prompt list \<Rightarrow> nat option" where
  "replace_index prompt ms =
     (if isHiddenPlatformPrompt (pi_queueOnly prompt) (pi_visibleInTranscript prompt)
        \<and> truthy (pi_clientMessageId prompt)
      then find_index (\<lambda>m. hidden_message m \<and> qp_clientMessageId m = pi_clientMessageId prompt) ms
      else None)"

definition enqueue :: "callback_env \<Rightarrow> prompt_input \<Rightarrow> prompt_queue \<Rightarrow> string queue_result" where
  "enqueue env prompt q =
     (case replace_index prompt (pq_messages q) of
        Some i \<Rightarrow>
          (let newId = qp_id (pq_messages q ! i);
               q' = q\<lparr>pq_messages := (pq_messages q)[i := enqueue_message newId (cb_now env) prompt]\<rparr>
           in (q', Some (emitUpdate env CReplace q'), newId))
      | None \<Rightarrow>
          (let counter = pq_counter q + 1;
               newId = queued_id counter;
               q' = \<lparr>pq_messages =
                       pq_messages q @ [enqueue_message newId (cb_now env) prompt],
                     pq_counter = counter\<rparr>
           in (q', Some (emitUpdate env CEnqueue q'), newId)))"

definition dequeue :: "callback_env \<Rightarrow> prompt_queue \<Rightarrow> queued_prompt option queue_result" where
  "dequeue env q =
     (case pq_messages q of
        [] \<Rightarrow> (q, None, None)
      | m # rest \<Rightarrow>
          (let q' = q\<lparr>pq_messages := rest\<rparr> in (q', Some (emitUpdate env CDequeue q'), Some m)))"

definition peek :: "prompt_queue \<Rightarrow> queued_prompt option" where
  "peek q = (case pq_messages q of [] \<Rightarrow> None | m # rest \<Rightarrow> Some m)"

definition hasQueuedMessages :: "prompt_queue \<Rightarrow> bool" where
  "hasQueuedMessages q \<longleftrightarrow> 0 < length (pq_messages q)"

definition has :: "string \<Rightarrow> prompt_queue \<Rightarrow> bool" where
  "has mid q \<longleftrightarrow> (\<exists>m \<in> set (pq_messages q). qp_id m = mid)"

definition clear :: "callback_env \<Rightarrow> prompt_queue \<Rightarrow> unit queue_result" where
  "clear env q =
     (if pq_messages q = [] then (q, None, ())
      else let q' = q\<lparr>pq_messages := []\<rparr> in (q', Some (emitUpdate env CClear q'), ()))"

definition deleteById :: "callback_env \<Rightarrow> string \<Rightarrow> prompt_queue \<Rightarrow> bool queue_result" where
  "deleteById env mid q =
     (case find_index (\<lambda>m. qp_id m = mid) (pq_messages q) of
        None \<Rightarrow> (q, None, False)
      | Some i \<Rightarrow>
          (let q' = q\<lparr>pq_messages := remove_at i (pq_messages q)\<rparr>
           in (q', Some (emitUpdate env CDelete q'), True)))"

definition prioritize :: "callback_env \<Rightarrow> string \<Rightarrow> prompt_queue \<Rightarrow> bool queue_result" where
  "prioritize env mid q =
     (case find_index (\<lambda>m. qp_id m = mid) (pq_messages q) of
        None \<Rightarrow> (q, None, False)
      | Some i \<Rightarrow>
          if i = 0 then (q, None, True)
          else (let q' = q\<lparr>pq_messages := pq_messages q ! i # remove_at i (pq_messages q)\<rparr>
                in (q', Some (emitUpdate env CPrioritize q'), True)))"

datatype move_position = Before | After

definition move ::
    "callback_env \<Rightarrow> string \<Rightarrow> string \<Rightarrow> move_position \<Rightarrow> prompt_queue \<Rightarrow> bool queue_result" where
  "move env mid targetId position q =
     (if mid = targetId then (q, None, True)
      else (case (find_index (\<lambda>m. qp_id m = mid) (pq_messages q),
                  find_index (\<lambda>m. qp_id m = targetId) (pq_messages q)) of
              (Some sourceIndex, Some targetIndex) \<Rightarrow>
                (let message = pq_messages q ! sourceIndex;
                     nextQueue = remove_at sourceIndex (pq_messages q)
                 in case find_index (\<lambda>m. qp_id m = targetId) nextQueue of
                      None \<Rightarrow> (q, None, False)
                    | Some nextTargetIndex \<Rightarrow>
                        (let insertIndex =
                               (if position = Before then nextTargetIndex
                                else nextTargetIndex + 1);
                             moved = insert_at insertIndex message nextQueue
                         in if map qp_id moved = map qp_id (pq_messages q) then (q, None, True)
                            else let q' = q\<lparr>pq_messages := moved\<rparr>
                                 in (q', Some (emitUpdate env CMove q'), True)))
            | _ \<Rightarrow> (q, None, False)))"

definition snapshot :: "prompt_queue \<Rightarrow> queued_prompt list" where
  "snapshot q = pq_messages q"

definition restored_message :: "queued_prompt \<Rightarrow> queued_prompt" where
  "restored_message m =
     m\<lparr>qp_queueOnly := (if qp_queueOnly m = Some True then Some True else None),
       qp_userId := spread_truthy (qp_userId m),
       qp_userName := spread_truthy (qp_userName m),
       qp_userImageUrl := spread_truthy (qp_userImageUrl m),
       qp_clientMessageId := spread_truthy (qp_clientMessageId m),
       qp_source := spread_truthy (qp_source m)\<rparr>"

text \<open>
  The number in a generated id. The digits of an id are far fewer than the 308 a finite double
  can hold, so the check that the parsed number is finite never fails.
\<close>

definition queued_id_number :: "string \<Rightarrow> nat option" where
  "queued_id_number mid =
     (let rest = drop (length ''runtime-queued-'') mid
      in if starts_with ''runtime-queued-'' mid \<and> rest \<noteq> [] \<and> (\<forall>c \<in> set rest. is_digit c)
         then Some (digits_val rest) else None)"

definition max_id_number :: "nat \<Rightarrow> queued_prompt \<Rightarrow> nat" where
  "max_id_number maxId m =
     (case queued_id_number (qp_id m) of None \<Rightarrow> maxId | Some n \<Rightarrow> max maxId n)"

definition restore ::
    "callback_env \<Rightarrow> queued_prompt list \<Rightarrow> bool \<Rightarrow> prompt_queue \<Rightarrow> unit queue_result" where
  "restore env messages emit q =
     (let ms = map restored_message messages;
          q' = \<lparr>pq_messages = ms, pq_counter = foldl max_id_number 0 ms\<rparr>
      in (q', if emit then Some (emitUpdate env CRestore q') else None, ()))"

subsection \<open>Well-formed queues\<close>

text \<open>Ids are distinct, and a number in a generated id never exceeds the counter.\<close>

definition ids :: "prompt_queue \<Rightarrow> string list" where
  "ids q = map qp_id (pq_messages q)"

definition queue_ok :: "prompt_queue \<Rightarrow> bool" where
  "queue_ok q \<longleftrightarrow> distinct (ids q) \<and>
     (\<forall>m \<in> set (pq_messages q). \<forall>n. queued_id_number (qp_id m) = Some n \<longrightarrow> n \<le> pq_counter q)"

lemma queued_id_number_queued_id [simp]: "queued_id_number (queued_id n) = Some n"
  using nat_str_digits [of n]
  by (simp add: queued_id_number_def queued_id_def Let_def starts_with_def)

lemma fresh_id: "queue_ok q \<Longrightarrow> pq_counter q < n \<Longrightarrow> queued_id n \<notin> set (ids q)"
  unfolding queue_ok_def ids_def by (metis image_iff leD list.set_map queued_id_number_queued_id)

lemma max_id_number_bounds:
  "a \<le> foldl max_id_number a ms \<and>
   (\<forall>m \<in> set ms. \<forall>n. queued_id_number (qp_id m) = Some n \<longrightarrow> n \<le> foldl max_id_number a ms)"
proof (induction ms arbitrary: a)
  case (Cons m ms)
  have "a \<le> max_id_number a m"
    and "\<forall>n. queued_id_number (qp_id m) = Some n \<longrightarrow> n \<le> max_id_number a m"
    by (simp_all add: max_id_number_def split: option.split)
  then show ?case using Cons.IH [of "max_id_number a m"] by force
qed simp

lemma restored_id [simp]: "qp_id (restored_message m) = qp_id m"
  by (simp add: restored_message_def)

lemma spread_truthy_idem [simp]: "spread_truthy (spread_truthy x) = spread_truthy x"
  by (simp add: spread_truthy_def)

lemma restored_message_idem [simp]: "restored_message (restored_message m) = restored_message m"
  by (simp add: restored_message_def)

lemma visible_restored [simp]: "visible_queue (map restored_message ms) = visible_queue ms"
  by (induction ms)
    (simp_all add: visible_queue_def restored_message_def queued_view_of_def)

lemma find_id_ids:
  "find_index (\<lambda>m. qp_id m = i) ms = find_index (\<lambda>k. k = i) (map qp_id ms)"
  by (induction ms) simp_all

lemma ids_update_same:
  "i < length ms \<Longrightarrow> qp_id m = qp_id (ms ! i) \<Longrightarrow> map qp_id (ms[i := m]) = map qp_id ms"
  by (simp add: map_update list_update_same_conv)

subsection \<open>One call of a method\<close>

datatype queue_op =
    OpEnqueue callback_env prompt_input
  | OpDequeue callback_env
  | OpClear callback_env
  | OpDelete callback_env string
  | OpPrioritize callback_env string
  | OpMove callback_env string string move_position
  | OpRestore callback_env "queued_prompt list" bool

fun queue_call :: "queue_op \<Rightarrow> prompt_queue \<Rightarrow> prompt_queue \<times> queue_update option" where
  "queue_call (OpEnqueue env p) q = (case enqueue env p q of (q', u, r) \<Rightarrow> (q', u))"
| "queue_call (OpDequeue env) q = (case dequeue env q of (q', u, r) \<Rightarrow> (q', u))"
| "queue_call (OpClear env) q = (case clear env q of (q', u, r) \<Rightarrow> (q', u))"
| "queue_call (OpDelete env i) q = (case deleteById env i q of (q', u, r) \<Rightarrow> (q', u))"
| "queue_call (OpPrioritize env i) q = (case prioritize env i q of (q', u, r) \<Rightarrow> (q', u))"
| "queue_call (OpMove env i t p) q = (case move env i t p q of (q', u, r) \<Rightarrow> (q', u))"
| "queue_call (OpRestore env ms e) q = (case restore env ms e q of (q', u, r) \<Rightarrow> (q', u))"

definition queue_step :: "queue_op \<Rightarrow> prompt_queue \<Rightarrow> prompt_queue" where
  "queue_step op q = fst (queue_call op q)"

text \<open>A restored snapshot is one that was taken, so its ids are distinct.\<close>

fun queue_admissible :: "queue_op \<Rightarrow> prompt_queue \<Rightarrow> bool" where
  "queue_admissible (OpRestore env ms e) q = distinct (map qp_id ms)"
| "queue_admissible _ q = True"

lemmas queue_ops = enqueue_def dequeue_def clear_def deleteById_def prioritize_def move_def
  restore_def

text \<open>The messages of the new queue are messages of the old one, rearranged.\<close>

lemma queue_ok_mono:
  "queue_ok q \<Longrightarrow> set (pq_messages q') \<subseteq> set (pq_messages q) \<Longrightarrow> distinct (ids q') \<Longrightarrow>
   pq_counter q' = pq_counter q \<Longrightarrow> queue_ok q'"
  by (auto simp: queue_ok_def)

lemma enqueue_ok: "queue_ok q \<Longrightarrow> queue_ok (fst (enqueue env p q))"
proof (cases "replace_index p (pq_messages q)")
  case None
  assume ok: "queue_ok q"
  have "queued_id (pq_counter q + 1) \<notin> set (ids q)"
    by (rule fresh_id [OF ok]) simp
  then show ?thesis
    using ok None
    by (fastforce simp: enqueue_def queue_ok_def ids_def enqueue_message_def Let_def)
next
  case (Some i)
  assume ok: "queue_ok q"
  have i: "i < length (pq_messages q)"
    using Some by (auto simp: replace_index_def split: if_splits dest: find_index_lt)
  let ?m = "enqueue_message (qp_id (pq_messages q ! i)) (cb_now env) p"
  have mid: "qp_id ?m = qp_id (pq_messages q ! i)"
    by (simp add: enqueue_message_def)
  have "map qp_id ((pq_messages q)[i := ?m]) = map qp_id (pq_messages q)"
    by (rule ids_update_same [OF i mid])
  moreover have "\<forall>m \<in> set ((pq_messages q)[i := ?m]). qp_id m \<in> set (ids q)"
    using i mid set_update_subset_insert [of "pq_messages q" i ?m]
    by (fastforce simp: ids_def)
  ultimately show ?thesis
    using ok Some by (fastforce simp: enqueue_def queue_ok_def ids_def Let_def)
qed

lemma delete_ok: "queue_ok q \<Longrightarrow> queue_ok (fst (deleteById env i q))"
  by (auto simp: deleteById_def Let_def ids_def map_remove_at queue_ok_def
      intro: distinct_remove_at dest!: subsetD [OF set_remove_at_subset] split: option.split)

lemma prioritize_ok:
  assumes ok: "queue_ok q"
  shows "queue_ok (fst (prioritize env mid q))"
proof (cases "find_index (\<lambda>m. qp_id m = mid) (pq_messages q)")
  case (Some i)
  have i: "i < length (pq_messages q)"
    using Some by (rule find_index_lt)
  have "distinct (qp_id (pq_messages q ! i) # remove_at i (map qp_id (pq_messages q)))"
    using ok i not_in_remove_at [of "ids q" i] distinct_remove_at [of "ids q" i]
    by (simp add: queue_ok_def ids_def)
  then show ?thesis
    using ok Some i set_remove_at_subset [of i "pq_messages q"]
    by (auto simp: prioritize_def Let_def ids_def map_remove_at intro!: queue_ok_mono [OF ok])
qed (use ok in \<open>simp add: prioritize_def\<close>)

text \<open>Moving a message leaves the same messages, and leaves the ids distinct.\<close>

lemma moved_ids:
  assumes "distinct (map qp_id ms)" "i < length ms"
  shows "distinct (map qp_id (insert_at j (ms ! i) (remove_at i ms)))"
  using assms not_in_remove_at [of "map qp_id ms" i] distinct_remove_at [of "map qp_id ms" i]
  by (simp add: map_insert_at map_remove_at distinct_insert_at)

lemma move_ok:
  assumes ok: "queue_ok q"
  shows "queue_ok (fst (move env mid t p q))"
proof -
  have "queue_ok (q\<lparr>pq_messages := insert_at j (pq_messages q ! i) (remove_at i (pq_messages q))\<rparr>)"
    if "find_index (\<lambda>m. qp_id m = mid) (pq_messages q) = Some i" for i j
  proof -
    have i: "i < length (pq_messages q)"
      using that by (rule find_index_lt)
    show ?thesis
      using ok i moved_ids [of "pq_messages q" i j] set_remove_at_subset [of i "pq_messages q"]
      by (intro queue_ok_mono [OF ok]) (auto simp: queue_ok_def ids_def set_insert_at)
  qed
  then show ?thesis
    using ok by (simp add: move_def Let_def split: option.split)
qed

lemma restore_ok: "distinct (map qp_id ms) \<Longrightarrow> queue_ok (fst (restore env ms e q))"
  using max_id_number_bounds [of 0 "map restored_message ms"]
  by (auto simp: restore_def queue_ok_def ids_def Let_def comp_def)

lemma queue_step_ok: "queue_ok q \<Longrightarrow> queue_admissible opr q \<Longrightarrow> queue_ok (queue_step opr q)"
proof (cases opr)
  case (OpDequeue env)
  assume "queue_ok q"
  then show ?thesis
    using OpDequeue
    by (auto simp: queue_step_def dequeue_def queue_ok_def ids_def Let_def split: list.split)
next
  case (OpClear env)
  assume "queue_ok q"
  then show ?thesis
    using OpClear by (auto simp: queue_step_def clear_def queue_ok_def ids_def Let_def)
qed (auto simp: queue_step_def split_beta enqueue_ok delete_ok prioritize_ok move_ok restore_ok)

definition queue_size :: "prompt_queue \<Rightarrow> nat" where
  "queue_size q = length (pq_messages q)"

fun queue_op_cost :: "queue_op \<Rightarrow> nat" where
  "queue_op_cost (OpEnqueue env p) = 1"
| "queue_op_cost (OpRestore env ms e) = length ms"
| "queue_op_cost _ = 0"

lemma queue_step_size: "queue_size (queue_step opr q) \<le> queue_size q + queue_op_cost opr"
  by (cases opr)
    (auto simp: queue_step_def queue_ops queue_size_def Let_def list_ops
      dest: find_index_lt split: option.split list.split)

interpretation pq: measured_contract queue_step queue_admissible queue_ok queue_size queue_op_cost
  by unfold_locales (auto intro: queue_step_ok queue_step_size)

text \<open>C32: Whatever sequence of calls the harness makes on a new queue, restoring earlier snapshots
  included, the queued ids stay pairwise distinct, the next generated id is free, and the queue
  never holds more messages than were enqueued or restored.\<close>

theorem prompt_queue_ids_stay_distinct:
  assumes "pq.admissible_run ops empty_prompt_queue"
  shows "(let q = fold queue_step ops empty_prompt_queue in
     distinct (ids q) \<and> queued_id (pq_counter q + 1) \<notin> set (ids q) \<and>
     length (pq_messages q) \<le> sum_list (map queue_op_cost ops))"
proof -
  have start: "queue_ok empty_prompt_queue"
    by (simp add: queue_ok_def empty_prompt_queue_def ids_def)
  have ok: "queue_ok (fold queue_step ops empty_prompt_queue)"
    by (rule pq.run_ok [OF start assms])
  moreover have "queue_size (fold queue_step ops empty_prompt_queue)
      \<le> queue_size empty_prompt_queue + sum_list (map queue_op_cost ops)"
    by (rule pq.run_weight [OF start assms])
  ultimately show ?thesis
    using fresh_id [OF ok, of "pq_counter (fold queue_step ops empty_prompt_queue) + 1"]
    by (simp add: Let_def queue_ok_def queue_size_def empty_prompt_queue_def)
qed

text \<open>A plain user message and fixed answers of the callbacks, for examples.\<close>

definition plain_prompt :: "string \<Rightarrow> prompt_input" where
  "plain_prompt text =
     \<lparr>pi_text = text, pi_images = None, pi_queueOnly = None, pi_visibleInTranscript = None,
      pi_userId = None, pi_userName = None, pi_userImageUrl = None,
      pi_clientMessageId = None, pi_source = None\<rparr>"

definition example_env :: callback_env where
  "example_env = \<lparr>cb_sessionId = None, cb_sequence = 1, cb_now = 5\<rparr>"

theorem prompt_queue_ids_stay_distinct_witness:
  "let q = fold queue_step
        [OpEnqueue example_env (plain_prompt ''a''), OpEnqueue example_env (plain_prompt ''b''),
         OpDequeue example_env, OpEnqueue example_env (plain_prompt ''c'')] empty_prompt_queue
   in distinct (ids q) \<and> ids q = [queued_id 2, queued_id 3]"
proof -
  let ?ops = "[OpEnqueue example_env (plain_prompt ''a''),
    OpEnqueue example_env (plain_prompt ''b''), OpDequeue example_env,
    OpEnqueue example_env (plain_prompt ''c'')]"
  have "pq.admissible_run ?ops empty_prompt_queue" by simp
  then have "distinct (ids (fold queue_step ?ops empty_prompt_queue))"
    using prompt_queue_ids_stay_distinct [of ?ops] by (simp only: Let_def)
  moreover have "ids (fold queue_step ?ops empty_prompt_queue) = [queued_id 2, queued_id 3]"
    by (simp add: queue_step_def enqueue_def dequeue_def replace_index_def ids_def Let_def
        isHiddenPlatformPrompt_def empty_prompt_queue_def enqueue_message_def plain_prompt_def
        eval_nat_numeral)
  ultimately show ?thesis by (simp only: Let_def simp_thms)
qed

subsection \<open>What a reader of the updates knows\<close>

text \<open>A reader keeps the list of the last update it was sent.\<close>

definition observed_step ::
    "queue_op \<Rightarrow> prompt_queue \<times> queued_view list \<Rightarrow> prompt_queue \<times> queued_view list" where
  "observed_step op s =
     (case s of (q, seen) \<Rightarrow>
        (case queue_call op q of
           (q', Some u) \<Rightarrow> (q', qu_queuedMessages u)
         | (q', None) \<Rightarrow> (q', seen)))"

fun announced :: "queue_op \<Rightarrow> bool" where
  "announced (OpRestore env ms e) = e"
| "announced _ = True"

lemma silent_call_changes_nothing:
  "announced opr \<Longrightarrow> queue_call opr q = (q', None) \<Longrightarrow> q' = q"
  by (cases opr)
    (auto simp: queue_ops Let_def split: option.splits list.splits if_splits prod.splits)

lemma update_shows_the_queue:
  "queue_call opr q = (q', Some u) \<Longrightarrow> qu_queuedMessages u = visible_queue (pq_messages q')"
  by (cases opr)
    (auto simp: queue_ops Let_def emitUpdate_def
      split: option.splits list.splits if_splits prod.splits)

interpretation pq_reader: object_contract observed_step "\<lambda>opr s. announced opr"
    "\<lambda>s. snd s = visible_queue (pq_messages (fst s))"
proof
  fix s :: "prompt_queue \<times> queued_view list" and opr
  assume "snd s = visible_queue (pq_messages (fst s))" "announced opr"
  then show "snd (observed_step opr s) =
      visible_queue (pq_messages (fst (observed_step opr s)))"
    by (cases s)
      (auto simp: observed_step_def dest: silent_call_changes_nothing update_shows_the_queue
        split: prod.split option.split)
qed

lemma announced_run: "list_all announced ops \<Longrightarrow> pq_reader.admissible_run ops s"
  by (induction ops arbitrary: s) auto

text \<open>No change of the visible queue goes unannounced: after any sequence of calls whose
  restores emit, the list in the last update sent is exactly what is visible of the queue, so a
  client that redraws from the updates alone is never behind.\<close>

theorem updates_mirror_the_queue:
  assumes "list_all announced ops"
  shows "(case fold observed_step ops (empty_prompt_queue, []) of
           (q, seen) \<Rightarrow> seen = visible_queue (pq_messages q))"
proof -
  have start: "snd (empty_prompt_queue, []) =
      visible_queue (pq_messages (fst (empty_prompt_queue, [] :: queued_view list)))"
    by (simp add: visible_queue_def empty_prompt_queue_def)
  show ?thesis
    using pq_reader.run_ok [OF start announced_run [OF assms]] by (simp add: split_beta)
qed

theorem updates_mirror_the_queue_witness:
  "case fold observed_step
        [OpEnqueue example_env (plain_prompt ''a''), OpClear example_env,
         OpEnqueue example_env (plain_prompt ''b'')] (empty_prompt_queue, [])
   of (q, seen) \<Rightarrow> seen = visible_queue (pq_messages q)"
  by (rule updates_mirror_the_queue) simp

subsection \<open>Reordering and superseding\<close>

lemma filter_neq_remove_at:
  "distinct xs \<Longrightarrow> i < length xs \<Longrightarrow> filter (\<lambda>k. k \<noteq> xs ! i) xs = remove_at i xs"
proof -
  assume d: "distinct xs" and i: "i < length xs"
  have out: "xs ! i \<notin> set (take i xs)" "xs ! i \<notin> set (drop (Suc i) xs)"
    using not_in_remove_at [OF d i] by (auto simp: remove_at_def)
  have keep: "filter (\<lambda>k. k \<noteq> x) ys = ys" if "x \<notin> set ys" for x and ys :: "'a list"
    using that by (induction ys) auto
  have "filter (\<lambda>k. k \<noteq> xs ! i) xs =
      filter (\<lambda>k. k \<noteq> xs ! i) (take i xs @ xs ! i # drop (Suc i) xs)"
    using split_at_nth [OF i] by simp
  also have "\<dots> = remove_at i xs"
    using out by (simp add: remove_at_def keep)
  finally show ?thesis .
qed

lemma find_index_in:
  assumes "k \<in> set xs"
  obtains n where "find_index (\<lambda>x. x = k) xs = Some n" "xs ! n = k" "n < length xs"
proof (cases "find_index (\<lambda>x. x = k) xs")
  case None
  then show ?thesis using assms by (auto simp: find_index_None)
next
  case (Some n)
  then show ?thesis using that find_index_nth [OF Some] find_index_lt [OF Some] by blast
qed

lemma insert_next_to:
  assumes "n < length xs"
  shows "insert_at n m xs = take n xs @ [m, xs ! n] @ drop (Suc n) xs \<and>
    insert_at (Suc n) m xs = take n xs @ [xs ! n, m] @ drop (Suc n) xs"
  using assms by (simp add: insert_at_def Cons_nth_drop_Suc take_Suc_conv_app_nth)

text \<open>What a move computes when both messages are queued.\<close>

lemma move_found:
  assumes "distinct (ids q)" "mid \<in> set (ids q)" "t \<in> set (ids q)" "mid \<noteq> t"
  obtains q' xs ys where
    "filter (\<lambda>k. k \<noteq> mid) (ids q) = xs @ [t] @ ys"
    "ids q' = (if p = Before then xs @ [mid, t] @ ys else xs @ [t, mid] @ ys)"
    "move env mid t p q =
       (if ids q' = ids q then (q, None, True) else (q', Some (emitUpdate env CMove q'), True))"
proof -
  obtain i where i: "find_index (\<lambda>k. k = mid) (ids q) = Some i" "ids q ! i = mid"
      and il: "i < length (ids q)"
    using assms(2) by (rule find_index_in)
  obtain j where j: "find_index (\<lambda>k. k = t) (ids q) = Some j"
    using assms(3) by (rule find_index_in)
  let ?rest = "remove_at i (ids q)"
  have rest: "filter (\<lambda>k. k \<noteq> mid) (ids q) = ?rest"
    using filter_neq_remove_at [OF assms(1) il] i by simp
  have "t \<in> set ?rest" using assms(3,4) unfolding rest [symmetric] by simp
  then obtain n where n: "find_index (\<lambda>k. k = t) ?rest = Some n" "?rest ! n = t"
      and nl: "n < length ?rest"
    by (rule find_index_in)
  let ?k = "if p = Before then n else n + 1"
  let ?q = "q\<lparr>pq_messages := insert_at ?k (pq_messages q ! i) (remove_at i (pq_messages q))\<rparr>"
  have moved: "ids ?q = insert_at ?k mid ?rest"
    using i(2) il by (simp add: ids_def map_insert_at map_remove_at)
  show ?thesis
  proof
    show "filter (\<lambda>k. k \<noteq> mid) (ids q) = take n ?rest @ [t] @ drop (Suc n) ?rest"
      using split_at_nth [OF nl] n(2) rest by simp
    show "ids ?q = (if p = Before then take n ?rest @ [mid, t] @ drop (Suc n) ?rest
        else take n ?rest @ [t, mid] @ drop (Suc n) ?rest)"
      using insert_next_to [OF nl, of mid] n(2) moved by simp
    show "move env mid t p q = (if ids ?q = ids q then (q, None, True)
        else (?q, Some (emitUpdate env CMove ?q), True))"
      using i(1) j n(1) assms(4) unfolding move_def
      by (simp add: find_id_ids map_remove_at Let_def ids_def)
  qed
qed

text \<open>Moving a queued message puts it directly before or after its target and keeps the
  order of all the others; the call fails exactly when one of the two is not queued, and an
  update is emitted exactly when the order changed.\<close>

theorem move_repositions_one_message:
  assumes "queue_ok q" "mid \<noteq> t"
  shows "(case move env mid t p q of (q', u, r) \<Rightarrow>
     (r \<longleftrightarrow> mid \<in> set (ids q) \<and> t \<in> set (ids q)) \<and>
     (u = None \<longleftrightarrow> q' = q) \<and> (\<not> r \<longrightarrow> q' = q) \<and>
     (r \<longrightarrow> (\<exists>xs ys. filter (\<lambda>k. k \<noteq> mid) (ids q) = xs @ [t] @ ys \<and>
        ids q' = (if p = Before then xs @ [mid, t] @ ys else xs @ [t, mid] @ ys))))"
proof (cases "mid \<in> set (ids q) \<and> t \<in> set (ids q)")
  case False
  then have "find_index (\<lambda>m. qp_id m = mid) (pq_messages q) = None \<or>
      find_index (\<lambda>m. qp_id m = t) (pq_messages q) = None"
    by (auto simp: find_index_None ids_def)
  then show ?thesis using False assms by (auto simp: move_def split: option.split)
next
  case True
  have d: "distinct (ids q)" using assms by (simp add: queue_ok_def)
  obtain q' xs ys where
    m: "filter (\<lambda>k. k \<noteq> mid) (ids q) = xs @ [t] @ ys"
       "ids q' = (if p = Before then xs @ [mid, t] @ ys else xs @ [t, mid] @ ys)"
       "move env mid t p q =
          (if ids q' = ids q then (q, None, True)
           else (q', Some (emitUpdate env CMove q'), True))"
    using d True assms(2) by (blast intro: move_found)
  show ?thesis
    using True m by (cases "ids q' = ids q") auto
qed

definition example_queue :: prompt_queue where
  "example_queue =
     \<lparr>pq_messages = map (\<lambda>i. enqueue_message i 0 (plain_prompt ''hi'')) [''a'', ''b'', ''c''],
      pq_counter = 0\<rparr>"

lemma example_queue_ids: "ids example_queue = [''a'', ''b'', ''c'']"
  by (simp add: ids_def example_queue_def enqueue_message_def)

lemma example_queue_ok: "queue_ok example_queue"
  by (simp add: queue_ok_def example_queue_ids)
    (simp add: example_queue_def enqueue_message_def queued_id_number_def starts_with_def)

theorem move_repositions_one_message_witness:
  "ids (fst (move example_env ''a'' ''c'' After example_queue)) = [''b'', ''c'', ''a'']"
proof -
  obtain xs ys where "[''b'', ''c''] = xs @ [''c''] @ ys"
      "ids (fst (move example_env ''a'' ''c'' After example_queue)) = xs @ [''c'', ''a''] @ ys"
    using move_repositions_one_message
        [where q = example_queue and mid = "''a''" and t = "''c''" and p = After
          and env = example_env, OF example_queue_ok]
    by (auto simp: example_queue_ids split_beta)
  then show ?thesis by (auto simp: Cons_eq_append_conv)
qed

text \<open>A hidden platform follow-up supersedes the queued one with the same client message id
  in its place, under its id; messages a user can see are neither replaced, removed nor
  reordered by it; and a visible prompt always joins the end of the queue.\<close>

theorem hidden_follow_up_supersedes:
  "(case enqueue env p q of (q', u, r) \<Rightarrow>
     (if isHiddenPlatformPrompt (pi_queueOnly p) (pi_visibleInTranscript p)
      then filter (\<lambda>m. \<not> hidden_message m) (pq_messages q') =
             filter (\<lambda>m. \<not> hidden_message m) (pq_messages q) \<and>
           (if truthy (pi_clientMessageId p) \<and>
              (\<exists>m \<in> set (pq_messages q). hidden_message m \<and>
                 qp_clientMessageId m = pi_clientMessageId p)
            then ids q' = ids q \<and> r \<in> set (ids q) \<and> pq_counter q' = pq_counter q
            else ids q' = ids q @ [r] \<and> r = queued_id (pq_counter q'))
      else pq_messages q' =
             pq_messages q @ [enqueue_message (queued_id (pq_counter q + 1)) (cb_now env) p]))"
proof -
  have kept: "filter (\<lambda>m. \<not> hidden_message m) (ms[i := m]) =
      filter (\<lambda>m. \<not> hidden_message m) ms"
    if "i < length ms" "hidden_message (ms ! i)" "hidden_message m" for ms i m
  proof -
    have "filter (\<lambda>m. \<not> hidden_message m) (take i ms @ m # drop (Suc i) ms) =
        filter (\<lambda>m. \<not> hidden_message m) (take i ms @ ms ! i # drop (Suc i) ms)"
      using that by simp
    then show ?thesis
      using split_at_nth [OF that(1)] by (simp add: upd_conv_take_nth_drop [OF that(1)])
  qed
  have hidden: "hidden_message (enqueue_message i now p) =
      isHiddenPlatformPrompt (pi_queueOnly p) (pi_visibleInTranscript p)" for i now
    by (simp add: hidden_message_def enqueue_message_def)
  have mid: "qp_id (enqueue_message i now p) = i" for i now
    by (simp add: enqueue_message_def)
  show ?thesis
  proof (cases "replace_index p (pq_messages q)")
    case None
    then show ?thesis
      by (auto simp: enqueue_def Let_def hidden ids_def mid replace_index_def find_index_None
          split: if_splits)
  next
    case (Some i)
    then have i: "i < length (pq_messages q)" "hidden_message (pq_messages q ! i)"
        "isHiddenPlatformPrompt (pi_queueOnly p) (pi_visibleInTranscript p)"
      and same: "truthy (pi_clientMessageId p)"
        "qp_clientMessageId (pq_messages q ! i) = pi_clientMessageId p"
      by (auto simp: replace_index_def split: if_splits dest: find_index_lt find_index_nth)
    have cid: "truthy (pi_clientMessageId p) \<and> (\<exists>m \<in> set (pq_messages q). hidden_message m \<and>
        qp_clientMessageId m = pi_clientMessageId p)"
      using i same nth_mem by blast
    let ?m = "enqueue_message (qp_id (pq_messages q ! i)) (cb_now env) p"
    have "map qp_id ((pq_messages q)[i := ?m]) = map qp_id (pq_messages q)"
      using i(1) by (intro ids_update_same) (simp_all add: enqueue_message_def)
    moreover have "qp_id (pq_messages q ! i) \<in> set (map qp_id (pq_messages q))"
      using i(1) by simp
    ultimately show ?thesis
      using Some i cid kept [OF i(1,2), of ?m] hidden
      by (simp add: enqueue_def Let_def ids_def)
  qed
qed

end
