(* ===== verification/QueuedMessages.thy ===== *)
theory QueuedMessages
  imports PromptQueue
begin

section \<open>The web app's view of the queued messages\<close>

text \<open>
  \<open>queued-message-state.ts\<close> of the task page
  (\<open>apps/web/src/app/(sandbox)/task/[taskId]/hooks/services\<close>): messages the worker has queued,
  messages sent but not yet acknowledged (optimistic), and their merge. An unchanged array
  keeps its identity in the code; here it is the same list.
\<close>

record queued_message =
  qm_id :: string
  qm_text :: string
  qm_images :: "string list option"
  qm_userName :: "string option"
  qm_userImageUrl :: "string option"
  qm_clientMessageId :: "string option"
  qm_timestamp :: ms
  qm_optimistic :: "bool option"

record queued_message_state =
  qs_queuedMessages :: "queued_message list"
  qs_runtime :: "queued_message list"
  qs_optimistic :: "queued_message list"

definition QUEUED_MESSAGES_UPDATE_CAUSES :: "string list" where
  "QUEUED_MESSAGES_UPDATE_CAUSES =
     [''enqueue'', ''dequeue'', ''delete'', ''prioritize'', ''move'', ''clear'', ''restore'']"

definition getQueuedMessagesUpdateCause :: "string option \<Rightarrow> string option" where
  "getQueuedMessagesUpdateCause cause =
     (if nullish_or cause [] \<in> set QUEUED_MESSAGES_UPDATE_CAUSES then cause else None)"

text \<open>A set of the client message ids that are strings, in order of first insertion.\<close>

definition getQueuedMessageClientMessageIds :: "queued_message list \<Rightarrow> string list" where
  "getQueuedMessageClientMessageIds ms = uniq (List.map_filter qm_clientMessageId ms)"

definition mergeQueuedMessages ::
    "queued_message list \<Rightarrow> queued_message list \<Rightarrow> queued_message list" where
  "mergeQueuedMessages runtime optimistic =
     (let queuedClientMessageIds = getQueuedMessageClientMessageIds runtime
      in runtime @ filter (\<lambda>m. \<not> truthy (qm_clientMessageId m)
           \<or> nullish_or (qm_clientMessageId m) [] \<notin> set queuedClientMessageIds) optimistic)"

definition createQueuedMessageState ::
    "queued_message list \<Rightarrow> queued_message list \<Rightarrow> queued_message_state" where
  "createQueuedMessageState runtime optimistic =
     \<lparr>qs_queuedMessages = mergeQueuedMessages runtime optimistic, qs_runtime = runtime,
      qs_optimistic = optimistic\<rparr>"

definition removeDeletedAcknowledgedOptimisticQueuedMessages ::
    "queued_message list \<Rightarrow> queued_message list \<Rightarrow> queued_message list
     \<Rightarrow> queued_message list" where
  "removeDeletedAcknowledgedOptimisticQueuedMessages previous incoming optimistic =
     (if previous = [] \<or> optimistic = [] then optimistic
      else let previousIds = getQueuedMessageClientMessageIds previous
           in if previousIds = [] then optimistic
              else let incomingIds = getQueuedMessageClientMessageIds incoming
                   in filter (\<lambda>m. \<not> truthy (qm_clientMessageId m)
                        \<or> nullish_or (qm_clientMessageId m) [] \<notin> set previousIds
                        \<or> nullish_or (qm_clientMessageId m) [] \<in> set incomingIds) optimistic)"

definition reconcileQueuedMessagesUpdate ::
    "queued_message_state \<Rightarrow> queued_message list \<Rightarrow> string option \<Rightarrow> queued_message_state" where
  "reconcileQueuedMessagesUpdate current incoming cause =
     createQueuedMessageState incoming
       (if cause = Some ''delete'' \<or> cause = Some ''clear''
        then removeDeletedAcknowledgedOptimisticQueuedMessages (qs_runtime current) incoming
               (qs_optimistic current)
        else qs_optimistic current)"

definition upsertOptimisticQueuedMessage ::
    "queued_message list \<Rightarrow> queued_message \<Rightarrow> queued_message list" where
  "upsertOptimisticQueuedMessage optimistic m =
     (if \<not> truthy (qm_clientMessageId m) then optimistic @ [m]
      else (case find_index (\<lambda>x. qm_clientMessageId x = qm_clientMessageId m) optimistic of
              None \<Rightarrow> optimistic @ [m]
            | Some existingIndex \<Rightarrow> optimistic[existingIndex := m]))"

definition addOptimisticQueuedMessage ::
    "queued_message_state \<Rightarrow> queued_message \<Rightarrow> queued_message_state" where
  "addOptimisticQueuedMessage current m =
     createQueuedMessageState (qs_runtime current)
       (upsertOptimisticQueuedMessage (qs_optimistic current) (m\<lparr>qm_optimistic := Some True\<rparr>))"

definition removeQueuedMessagesByClientMessageId ::
    "queued_message list \<Rightarrow> string \<Rightarrow> queued_message list" where
  "removeQueuedMessagesByClientMessageId ms cid =
     filter (\<lambda>m. qm_clientMessageId m \<noteq> Some cid) ms"

text \<open>
  \<open>filter\<close> keeps the array's identity when it removed nothing; an array it returned unchanged
  has the same length.
\<close>

definition removeOptimisticQueuedMessageFromState ::
    "queued_message_state \<Rightarrow> string \<Rightarrow> queued_message_state" where
  "removeOptimisticQueuedMessageFromState current cid =
     (let optimistic = removeQueuedMessagesByClientMessageId (qs_optimistic current) cid
      in if length optimistic = length (qs_optimistic current) then current
         else createQueuedMessageState (qs_runtime current) optimistic)"

definition removeQueuedMessagesByClientMessageIdFromState ::
    "queued_message_state \<Rightarrow> string \<Rightarrow> queued_message_state" where
  "removeQueuedMessagesByClientMessageIdFromState current cid =
     (let runtime = removeQueuedMessagesByClientMessageId (qs_runtime current) cid;
          optimistic = removeQueuedMessagesByClientMessageId (qs_optimistic current) cid
      in if length runtime = length (qs_runtime current)
            \<and> length optimistic = length (qs_optimistic current) then current
         else createQueuedMessageState runtime optimistic)"

subsection \<open>Well-formed states\<close>

text \<open>The client message ids that identify a message: present and not empty.\<close>

definition client_ids :: "queued_message list \<Rightarrow> string list" where
  "client_ids ms = filter (\<lambda>c. c \<noteq> []) (List.map_filter qm_clientMessageId ms)"

text \<open>
  The merge is up to date, and no client message id is optimistic twice. Ids the worker reports
  are those of messages the clients sent.
\<close>

definition state_ok :: "queued_message_state \<Rightarrow> bool" where
  "state_ok s \<longleftrightarrow>
     qs_queuedMessages s = mergeQueuedMessages (qs_runtime s) (qs_optimistic s) \<and>
     distinct (client_ids (qs_optimistic s))"

lemma client_ids_append [simp]: "client_ids (xs @ ys) = client_ids xs @ client_ids ys"
  by (simp add: client_ids_def List.map_filter_def)

lemma client_ids_Nil [simp]: "client_ids [] = []"
  by (simp add: client_ids_def)

lemma client_ids_Cons [simp]:
  "client_ids (m # ms) =
     (if truthy (qm_clientMessageId m) then [the (qm_clientMessageId m)] else []) @ client_ids ms"
  by (cases "qm_clientMessageId m") (simp_all add: client_ids_def)

lemma in_client_ids:
  "c \<in> set (client_ids ms) \<longleftrightarrow> c \<noteq> [] \<and> (\<exists>m \<in> set ms. qm_clientMessageId m = Some c)"
  by (force simp: client_ids_def List.map_filter_def)

lemma in_string_ids:
  "c \<in> set (getQueuedMessageClientMessageIds ms) \<longleftrightarrow> (\<exists>m \<in> set ms. qm_clientMessageId m = Some c)"
  by (force simp: getQueuedMessageClientMessageIds_def List.map_filter_def)

lemma no_string_ids:
  "getQueuedMessageClientMessageIds ms = [] \<longleftrightarrow> (\<forall>m \<in> set ms. qm_clientMessageId m = None)"
  using in_string_ids [of _ ms] by (metis list.set_intros(1) neq_Nil_conv not_None_eq set_empty empty_iff)

lemma client_ids_filter_subset: "set (client_ids (filter P ms)) \<subseteq> set (client_ids ms)"
  by (auto simp: in_client_ids)

lemma client_ids_filter: "distinct (client_ids ms) \<Longrightarrow> distinct (client_ids (filter P ms))"
proof (induction ms)
  case (Cons m ms)
  then show ?case using client_ids_filter_subset [of P ms] by auto
qed simp

lemma client_ids_update:
  "i < length ms \<Longrightarrow> qm_clientMessageId m = qm_clientMessageId (ms ! i) \<Longrightarrow>
   client_ids (ms[i := m]) = client_ids ms"
  by (induction ms arbitrary: i) (auto split: nat.split)

lemma upsert_distinct:
  assumes "distinct (client_ids ms)"
  shows "distinct (client_ids (upsertOptimisticQueuedMessage ms m))"
proof (cases "find_index (\<lambda>x. qm_clientMessageId x = qm_clientMessageId m) ms")
  case None
  then have "\<forall>x \<in> set ms. qm_clientMessageId x \<noteq> qm_clientMessageId m"
    by (simp add: find_index_None)
  then have "truthy (qm_clientMessageId m) \<Longrightarrow> the (qm_clientMessageId m) \<notin> set (client_ids ms)"
    by (auto simp: in_client_ids truthy_iff)
  then show ?thesis
    using assms None by (simp add: upsertOptimisticQueuedMessage_def)
next
  case (Some i)
  then show ?thesis
    using assms find_index_lt [OF Some] find_index_nth [OF Some]
    by (simp add: upsertOptimisticQueuedMessage_def client_ids_update)
qed

lemma create_ok: "distinct (client_ids ys) \<Longrightarrow> state_ok (createQueuedMessageState xs ys)"
  by (simp add: state_ok_def createQueuedMessageState_def)

datatype view_event =
    RuntimeUpdate "queued_message list" "string option"
  | SendOptimistic queued_message
  | DropOptimistic string
  | DropEverywhere string

fun view_step :: "view_event \<Rightarrow> queued_message_state \<Rightarrow> queued_message_state" where
  "view_step (RuntimeUpdate ms cause) s = reconcileQueuedMessagesUpdate s ms cause"
| "view_step (SendOptimistic m) s = addOptimisticQueuedMessage s m"
| "view_step (DropOptimistic cid) s = removeOptimisticQueuedMessageFromState s cid"
| "view_step (DropEverywhere cid) s = removeQueuedMessagesByClientMessageIdFromState s cid"

lemma view_step_ok: "state_ok s \<Longrightarrow> state_ok (view_step e s)"
  by (cases e)
    (auto simp: reconcileQueuedMessagesUpdate_def addOptimisticQueuedMessage_def
      removeOptimisticQueuedMessageFromState_def Let_def
      removeQueuedMessagesByClientMessageIdFromState_def
      removeQueuedMessagesByClientMessageId_def
      removeDeletedAcknowledgedOptimisticQueuedMessages_def state_ok_def [of s]
      intro!: create_ok client_ids_filter upsert_distinct)

interpretation view: object_contract view_step "\<lambda>e s. True" state_ok
  by unfold_locales (rule view_step_ok)

lemma in_merged:
  "m \<in> set (mergeQueuedMessages xs ys) \<longleftrightarrow>
     m \<in> set xs \<or> m \<in> set ys \<and> set_option (qm_clientMessageId m) \<inter> set (client_ids xs) = {}"
  by (cases "qm_clientMessageId m")
    (auto simp: mergeQueuedMessages_def in_client_ids in_string_ids Let_def)

lemma merged_client_ids:
  "set (client_ids (mergeQueuedMessages xs ys)) = set (client_ids xs) \<union> set (client_ids ys)"
proof (intro set_eqI)
  fix c
  show "c \<in> set (client_ids (mergeQueuedMessages xs ys)) \<longleftrightarrow>
      c \<in> set (client_ids xs) \<union> set (client_ids ys)"
    by (cases "c \<in> set (client_ids xs)") (auto simp: in_client_ids in_merged)
qed

lemma merged_distinct:
  assumes "distinct (client_ids xs)" "distinct (client_ids ys)"
  shows "distinct (client_ids (mergeQueuedMessages xs ys))"
proof -
  let ?f = "filter (\<lambda>m. \<not> truthy (qm_clientMessageId m)
    \<or> nullish_or (qm_clientMessageId m) [] \<notin> set (getQueuedMessageClientMessageIds xs)) ys"
  have "set (client_ids xs) \<inter> set (client_ids ?f) = {}"
    by (auto simp: in_client_ids in_string_ids)
  then show ?thesis
    using assms client_ids_filter [OF assms(2)] by (simp add: mergeQueuedMessages_def Let_def)
qed

subsection \<open>Properties\<close>

lemma create_queue:
  "qs_queuedMessages (createQueuedMessageState xs ys) = mergeQueuedMessages xs ys"
  by (simp add: createQueuedMessageState_def)

lemma in_upsert:
  assumes "truthy (qm_clientMessageId m)"
  shows "the (qm_clientMessageId m) \<in> set (client_ids (upsertOptimisticQueuedMessage ms m))"
proof (cases "find_index (\<lambda>x. qm_clientMessageId x = qm_clientMessageId m) ms")
  case None
  then show ?thesis using assms by (simp add: upsertOptimisticQueuedMessage_def)
next
  case (Some i)
  then have "m \<in> set (ms[i := m])" by (simp add: find_index_lt set_update_memI)
  then show ?thesis
    using Some assms
    by (auto simp: upsertOptimisticQueuedMessage_def in_client_ids truthy_iff)
qed

text \<open>Whatever the user sends and the worker reports, in whatever order, each identified
  message is shown once: if no report names a client message id twice, the displayed queue
  never does, and every optimistic message not shown is one the worker reported.\<close>

theorem displayed_queue_shows_each_message_once:
  assumes "distinct (client_ids (qs_runtime s))"
    and "s = fold view_step events (createQueuedMessageState [] [])"
  shows "distinct (client_ids (qs_queuedMessages s)) \<and>
    set (client_ids (qs_queuedMessages s)) =
      set (client_ids (qs_runtime s)) \<union> set (client_ids (qs_optimistic s))"
proof -
  have "state_ok (createQueuedMessageState [] [])"
    by (rule create_ok) simp
  then have "state_ok s"
    unfolding assms(2) by (intro view.run_ok_always) simp_all
  then show ?thesis
    using assms(1) by (simp add: state_ok_def merged_distinct merged_client_ids)
qed

definition sent_message :: "string \<Rightarrow> string \<Rightarrow> queued_message" where
  "sent_message mid cid =
     \<lparr>qm_id = mid, qm_text = ''hi'', qm_images = None, qm_userName = None,
      qm_userImageUrl = None, qm_clientMessageId = Some cid, qm_timestamp = 0,
      qm_optimistic = None\<rparr>"

theorem displayed_queue_shows_each_message_once_witness:
  "distinct (client_ids (qs_queuedMessages
     (fold view_step
       [SendOptimistic (sent_message ''l1'' ''c1''), SendOptimistic (sent_message ''l2'' ''c2''),
        RuntimeUpdate [sent_message ''runtime-queued-1'' ''c1''] (Some ''enqueue'')]
       (createQueuedMessageState [] []))))"
  by (rule conjunct1, rule displayed_queue_shows_each_message_once [OF _ refl])
    (simp add: reconcileQueuedMessagesUpdate_def createQueuedMessageState_def sent_message_def)

text \<open>A message the user has just sent is displayed at once, and stays displayed through
  every report the worker makes, except a deletion or a clearing that names it in the queue
  before and not after; such a deletion does remove it.\<close>

theorem optimistic_message_until_deleted:
  assumes "truthy (qm_clientMessageId m)"
  shows "(let s1 = addOptimisticQueuedMessage s m; c = the (qm_clientMessageId m);
              s2 = reconcileQueuedMessagesUpdate s1 incoming cause in
     c \<in> set (client_ids (qs_queuedMessages s1)) \<and>
     (c \<in> set (client_ids (qs_queuedMessages s2)) \<longleftrightarrow>
        \<not> (cause \<in> {Some ''delete'', Some ''clear''} \<and>
            c \<in> set (client_ids (qs_runtime s)) \<and> c \<notin> set (client_ids incoming))))"
proof -
  obtain c where c: "qm_clientMessageId m = Some c" "c \<noteq> []"
    using assms by (auto simp: truthy_iff)
  let ?m = "m\<lparr>qm_optimistic := Some True\<rparr>"
  let ?opt = "upsertOptimisticQueuedMessage (qs_optimistic s) ?m"
  have shown: "c \<in> set (client_ids ?opt)"
    using in_upsert [of ?m "qs_optimistic s"] c by simp
  have add: "addOptimisticQueuedMessage s m = createQueuedMessageState (qs_runtime s) ?opt"
    by (simp add: addOptimisticQueuedMessage_def)
  have removed: "c \<in> set (client_ids
      (removeDeletedAcknowledgedOptimisticQueuedMessages (qs_runtime s) incoming ?opt)) \<longleftrightarrow>
      c \<notin> set (client_ids (qs_runtime s)) \<or> c \<in> set (client_ids incoming)"
    using shown c(2)
    by (auto simp: removeDeletedAcknowledgedOptimisticQueuedMessages_def in_client_ids
        in_string_ids no_string_ids Let_def)
  show ?thesis
    using c shown removed
    by (simp add: Let_def add reconcileQueuedMessagesUpdate_def create_queue merged_client_ids)
      (auto simp: createQueuedMessageState_def merged_client_ids)
qed

theorem optimistic_message_until_deleted_witness:
  "let s1 = addOptimisticQueuedMessage (createQueuedMessageState [sent_message ''r'' ''c1''] [])
              (sent_message ''l1'' ''c1'') in
   ''c1'' \<notin> set (client_ids (qs_queuedMessages
     (reconcileQueuedMessagesUpdate s1 [] (Some ''delete''))))"
  using optimistic_message_until_deleted [of "sent_message ''l1'' ''c1''"
      "createQueuedMessageState [sent_message ''r'' ''c1''] []" "[]" "Some ''delete''"]
  by (simp add: sent_message_def createQueuedMessageState_def Let_def)

end
