(* ===== verification/QueueChannel.thy ===== *)
theory QueueChannel
  imports PromptQueue QueuedMessages JsValue
begin

section \<open>From the worker's queue to the task page\<close>

text \<open>
  The update event between the two ends: the payload the worker emits
  (\<open>runtime-prompt-queue.ts\<close>), the page's parser of it
  (\<open>apps/web/src/app/(sandbox)/task/[taskId]/hooks/utils.ts\<close>), and the branch of
  \<open>_handleAcpEvent\<close> in \<open>use-sandbox-store.ts\<close> that reconciles the queue with it. A message that
  passed the page's type guard is read as a record.
\<close>

subsection \<open>The payload\<close>

fun update_cause_str :: "update_cause \<Rightarrow> string" where
  "update_cause_str CEnqueue = ''enqueue''"
| "update_cause_str CDequeue = ''dequeue''"
| "update_cause_str CDelete = ''delete''"
| "update_cause_str CPrioritize = ''prioritize''"
| "update_cause_str CMove = ''move''"
| "update_cause_str CReplace = ''replace''"
| "update_cause_str CClear = ''clear''"
| "update_cause_str CRestore = ''restore''"

definition opt_field :: "string \<Rightarrow> ('a \<Rightarrow> jsv) \<Rightarrow> 'a option \<Rightarrow> js_record" where
  "opt_field k f x = (case x of None \<Rightarrow> [] | Some v \<Rightarrow> [(k, f v)])"

definition json_of_view :: "queued_view \<Rightarrow> jsv" where
  "json_of_view v = JObj
     ([(''id'', JStr (qv_id v)), (''text'', JStr (qv_text v)), (''timestamp'', JNum (qv_timestamp v))] @
      opt_field ''images'' (\<lambda>xs. JArr (map JStr xs)) (qv_images v) @
      opt_field ''userName'' JStr (qv_userName v) @
      opt_field ''userImageUrl'' JStr (qv_userImageUrl v) @
      opt_field ''clientMessageId'' JStr (qv_clientMessageId v))"

definition queue_payload :: "queue_update \<Rightarrow> js_record" where
  "queue_payload u =
     [(''queuedMessages'', JArr (map json_of_view (qu_queuedMessages u))),
      (''deliverableCount'', JNum (int (qu_deliverableCount u))),
      (''cause'', JStr (update_cause_str (qu_cause u)))]"

subsection \<open>The page's parser\<close>

fun is_str :: "jsv \<Rightarrow> bool" where
  "is_str (JStr s) = True"
| "is_str _ = False"

fun is_num :: "jsv \<Rightarrow> bool" where
  "is_num (JNum n) = True"
| "is_num _ = False"

definition is_images :: "jsv \<Rightarrow> bool" where
  "is_images v = (case v of JArr xs \<Rightarrow> list_all is_str xs | _ \<Rightarrow> False)"

definition isQueuedMessage :: "jsv \<Rightarrow> bool" where
  "isQueuedMessage value \<longleftrightarrow>
     is_object value \<and> is_str (get_prop value ''id'') \<and> is_str (get_prop value ''text'') \<and>
     is_num (get_prop value ''timestamp'') \<and>
     (get_prop value ''images'' = JUndefined \<or> is_images (get_prop value ''images'')) \<and>
     list_all (\<lambda>k. get_prop value k = JUndefined \<or> is_str (get_prop value k))
       [''userName'', ''userImageUrl'', ''clientMessageId'']"

definition parseAcpQueuedMessagesPayload :: "js_record \<Rightarrow> jsv list option" where
  "parseAcpQueuedMessagesPayload update =
     (case rec_get update ''queuedMessages'' of
        JArr ms \<Rightarrow> Some (filter isQueuedMessage ms)
      | _ \<Rightarrow> None)"

definition str_of :: "jsv \<Rightarrow> string" where
  "str_of v = nullish_or (asString v) []"

definition message_of_json :: "jsv \<Rightarrow> queued_message" where
  "message_of_json v =
     \<lparr>qm_id = str_of (get_prop v ''id''), qm_text = str_of (get_prop v ''text''),
      qm_images = (case get_prop v ''images'' of JArr xs \<Rightarrow> Some (map str_of xs) | _ \<Rightarrow> None),
      qm_userName = asString (get_prop v ''userName''),
      qm_userImageUrl = asString (get_prop v ''userImageUrl''),
      qm_clientMessageId = asString (get_prop v ''clientMessageId''),
      qm_timestamp = nullish_or (asNumber (get_prop v ''timestamp'')) 0,
      qm_optimistic = asBoolean (get_prop v ''optimistic'')\<rparr>"

definition handle_queue_event :: "js_record \<Rightarrow> queued_message_state \<Rightarrow> queued_message_state" where
  "handle_queue_event payload s =
     (case parseAcpQueuedMessagesPayload payload of
        None \<Rightarrow> s
      | Some incoming \<Rightarrow>
          reconcileQueuedMessagesUpdate s (map message_of_json incoming)
            (getQueuedMessagesUpdateCause (asString (rec_get payload ''cause''))))"

subsection \<open>Nothing is lost on the way\<close>

definition message_of_view :: "queued_view \<Rightarrow> queued_message" where
  "message_of_view v =
     \<lparr>qm_id = qv_id v, qm_text = qv_text v, qm_images = qv_images v, qm_userName = qv_userName v,
      qm_userImageUrl = qv_userImageUrl v, qm_clientMessageId = qv_clientMessageId v,
      qm_timestamp = qv_timestamp v, qm_optimistic = None\<rparr>"

lemma str_of_JStr [simp]: "str_of (JStr s) = s"
  by (simp add: str_of_def)

definition json_opt :: "('a \<Rightarrow> jsv) \<Rightarrow> 'a option \<Rightarrow> jsv" where
  "json_opt f x = (case x of None \<Rightarrow> JUndefined | Some v \<Rightarrow> f v)"

lemma get_json_of_view [simp]:
  "get_prop (json_of_view v) ''id'' = JStr (qv_id v)"
  "get_prop (json_of_view v) ''text'' = JStr (qv_text v)"
  "get_prop (json_of_view v) ''timestamp'' = JNum (qv_timestamp v)"
  "get_prop (json_of_view v) ''images'' = json_opt (\<lambda>xs. JArr (map JStr xs)) (qv_images v)"
  "get_prop (json_of_view v) ''userName'' = json_opt JStr (qv_userName v)"
  "get_prop (json_of_view v) ''userImageUrl'' = json_opt JStr (qv_userImageUrl v)"
  "get_prop (json_of_view v) ''clientMessageId'' = json_opt JStr (qv_clientMessageId v)"
  "get_prop (json_of_view v) ''optimistic'' = JUndefined"
  by (cases "qv_images v"; cases "qv_userName v"; cases "qv_userImageUrl v";
      cases "qv_clientMessageId v"; simp add: json_of_view_def opt_field_def json_opt_def)+

lemma view_passes_the_guard: "isQueuedMessage (json_of_view v)"
proof -
  have "is_object (json_of_view v)" by (simp add: json_of_view_def)
  then show ?thesis
    by (simp add: isQueuedMessage_def is_images_def json_opt_def list_all_iff split: option.split)
qed

lemma message_of_json_of_view: "message_of_json (json_of_view v) = message_of_view v"
  by (simp add: message_of_json_def message_of_view_def json_opt_def comp_def split: option.split)

lemma payload_round_trip:
  "map_option (map message_of_json) (parseAcpQueuedMessagesPayload (queue_payload u)) =
     Some (map message_of_view (qu_queuedMessages u))"
  by (simp add: parseAcpQueuedMessagesPayload_def queue_payload_def rec_get_def
      view_passes_the_guard message_of_json_of_view filter_map comp_def)

lemma runtime_after_event:
  "qs_runtime (handle_queue_event (queue_payload u) s) = map message_of_view (qu_queuedMessages u)"
  using payload_round_trip [of u]
  by (auto simp: handle_queue_event_def reconcileQueuedMessagesUpdate_def
      createQueuedMessageState_def split: option.split)

lemma replace_is_no_cause_of_the_page:
  "getQueuedMessagesUpdateCause (Some (update_cause_str c)) =
     (if c = CReplace then None else Some (update_cause_str c))"
  by (cases c) (simp_all add: getQueuedMessagesUpdateCause_def QUEUED_MESSAGES_UPDATE_CAUSES_def)

subsection \<open>Both ends\<close>

datatype channel_event =
    WorkerCalls queue_op
  | PageSends queued_message
  | PageDrops string

fun channel_step ::
  "channel_event \<Rightarrow> prompt_queue \<times> queued_message_state \<Rightarrow> prompt_queue \<times> queued_message_state" where
  "channel_step (WorkerCalls opr) (q, s) =
     (case queue_call opr q of
        (q', Some u) \<Rightarrow> (q', handle_queue_event (queue_payload u) s)
      | (q', None) \<Rightarrow> (q', s))"
| "channel_step (PageSends m) (q, s) = (q, addOptimisticQueuedMessage s m)"
| "channel_step (PageDrops cid) (q, s) = (q, removeOptimisticQueuedMessageFromState s cid)"

fun channel_admissible :: "channel_event \<Rightarrow> prompt_queue \<times> queued_message_state \<Rightarrow> bool" where
  "channel_admissible (WorkerCalls opr) qs = announced opr"
| "channel_admissible _ qs = True"

definition channel_ok :: "prompt_queue \<times> queued_message_state \<Rightarrow> bool" where
  "channel_ok = (\<lambda>(q, s). state_ok s \<and> qs_runtime s = map message_of_view (visible_queue (pq_messages q)))"

lemma page_ops_keep_runtime:
  "qs_runtime (addOptimisticQueuedMessage s m) = qs_runtime s"
  "qs_runtime (removeOptimisticQueuedMessageFromState s cid) = qs_runtime s"
  by (simp_all add: addOptimisticQueuedMessage_def removeOptimisticQueuedMessageFromState_def
      createQueuedMessageState_def Let_def)

lemma handle_event_ok: "state_ok s \<Longrightarrow> state_ok (handle_queue_event payload s)"
  using view.step_ok [of s "RuntimeUpdate ms cause" for ms cause]
  by (auto simp: handle_queue_event_def split: option.split)

interpretation channel: object_contract channel_step channel_admissible channel_ok
proof
  fix qs :: "prompt_queue \<times> queued_message_state" and ev
  assume ok: "channel_ok qs" and adm: "channel_admissible ev qs"
  obtain q s where qs: "qs = (q, s)" by (cases qs)
  show "channel_ok (channel_step ev qs)"
  proof (cases ev)
    case (WorkerCalls opr)
    obtain q' u where call: "queue_call opr q = (q', u)" by (cases "queue_call opr q")
    show ?thesis
    proof (cases u)
      case None
      then have "q' = q"
        using silent_call_changes_nothing [of opr q q'] call adm WorkerCalls by simp
      then show ?thesis using ok call None by (simp add: WorkerCalls qs)
    next
      case (Some upd)
      then show ?thesis
        using ok call update_shows_the_queue [of opr q q' upd]
        by (simp add: WorkerCalls qs channel_ok_def handle_event_ok runtime_after_event)
    qed
  next
    case (PageSends m)
    then show ?thesis
      using ok view.step_ok [of s "SendOptimistic m"]
      by (simp add: qs channel_ok_def page_ops_keep_runtime)
  next
    case (PageDrops cid)
    then show ?thesis
      using ok view.step_ok [of s "DropOptimistic cid"]
      by (simp add: qs channel_ok_def page_ops_keep_runtime)
  qed
qed

lemma channel_run:
  "list_all (\<lambda>ev. channel_admissible ev (q, s)) evs \<Longrightarrow> channel.admissible_run evs t"
proof (induction evs arbitrary: t)
  case (Cons ev evs)
  then show ?case by (cases ev) auto
qed simp



end
