(* ===== verification/StallWatchdog.thy ===== *)
theory StallWatchdog
  imports Prelude
begin

section \<open>The turn-stall watchdog\<close>

text \<open>
  \<open>OpenCodeStallWatchdogs\<close> of
  \<open>apps/worker/src/sandbox-server/lib/harnesses/opencode-server/stall-watchdogs.ts\<close>. The timer is
  the instant at which it will fire, or \<open>None\<close>. The check is asynchronous: it stops at the
  verification call and resumes when that answers, with any other method called in between. It
  is two functions, \<open>begin_check\<close> up to the \<open>await\<close> and \<open>end_check\<close> after it. What the host's
  callbacks answer is the argument \<open>host\<close>; recovery is the result handed to \<open>onTurnStalled\<close>.
\<close>

definition DEFAULT_OPENCODE_TURN_STALL_TIMEOUT_MS :: ms where
  "DEFAULT_OPENCODE_TURN_STALL_TIMEOUT_MS = 15 * 60000"

record pending_steer =
  ps_text :: string
  ps_images :: "string list option"
  ps_userId :: "string option"
  ps_userName :: "string option"
  ps_userImageUrl :: "string option"

text \<open>\<open>Math.round\<close> of a whole number of milliseconds over a minute rounds half up.\<close>

definition formatOpenCodeTurnStallErrorText :: "ms \<Rightarrow> string" where
  "formatOpenCodeTurnStallErrorText stallTimeoutMs =
     (let minutes = max 1 ((2 * stallTimeoutMs + 60000) div 120000)
      in ''The session stopped responding mid-turn: no activity arrived from the model for about ''
         @ nat_str (nat minutes) @ '' minute'' @ (if minutes = 1 then '''' else ''s'')
         @ '', so the stalled turn was aborted. This is usually a transient provider stall and is safe to retry.'')"

datatype verification = NoRunningTool | RunningTool | Unverified

record host_answers =
  ha_disposed :: bool
  ha_inFlight :: bool
  ha_sessionId :: "string option"
  ha_deferring :: bool

record watchdog =
  wd_timeoutMs :: ms
  wd_pendingSteers :: "pending_steer list"
  wd_timer :: "ms option"
  wd_lastEventAt :: ms

definition new_watchdog :: "ms \<Rightarrow> watchdog" where
  "new_watchdog timeoutMs =
     \<lparr>wd_timeoutMs = timeoutMs, wd_pendingSteers = [], wd_timer = None, wd_lastEventAt = 0\<rparr>"

subsection \<open>Methods\<close>

definition trackNativeSteer :: "pending_steer \<Rightarrow> watchdog \<Rightarrow> watchdog" where
  "trackNativeSteer steer w = w\<lparr>wd_pendingSteers := wd_pendingSteers w @ [steer]\<rparr>"

definition clearPendingNativeSteers :: "watchdog \<Rightarrow> watchdog" where
  "clearPendingNativeSteers w =
     (if 0 < length (wd_pendingSteers w) then w\<lparr>wd_pendingSteers := []\<rparr> else w)"

definition noteActivity :: "ms \<Rightarrow> watchdog \<Rightarrow> watchdog" where
  "noteActivity now w = w\<lparr>wd_lastEventAt := now\<rparr>"

definition noteProgress :: "ms \<Rightarrow> watchdog \<Rightarrow> watchdog" where
  "noteProgress now w = clearPendingNativeSteers (noteActivity now w)"

definition clearTurnStall :: "watchdog \<Rightarrow> watchdog" where
  "clearTurnStall w = (if wd_timer w \<noteq> None then w\<lparr>wd_timer := None\<rparr> else w)"

definition scheduleTurnStallCheck :: "ms \<Rightarrow> ms \<Rightarrow> watchdog \<Rightarrow> watchdog" where
  "scheduleTurnStallCheck now delayMs w =
     (let w = clearTurnStall w in w\<lparr>wd_timer := Some (now + delayMs)\<rparr>)"

definition armTurnStall :: "ms \<Rightarrow> watchdog \<Rightarrow> watchdog" where
  "armTurnStall now w =
     (let w = noteActivity now w in scheduleTurnStallCheck now (wd_timeoutMs w) w)"

definition ensureTurnStallArmed :: "ms \<Rightarrow> watchdog \<Rightarrow> watchdog" where
  "ensureTurnStallArmed now w =
     (if wd_timer w = None then scheduleTurnStallCheck now (wd_timeoutMs w) w else w)"

definition clearAll :: "watchdog \<Rightarrow> watchdog" where
  "clearAll w = clearTurnStall (clearPendingNativeSteers w)"

text \<open>The check up to the call of \<open>verifyNoRunningTool\<close>, whose argument is the second result.\<close>

definition begin_check :: "host_answers \<Rightarrow> ms \<Rightarrow> watchdog \<Rightarrow> watchdog \<times> string option" where
  "begin_check host now w =
     (let w = w\<lparr>wd_timer := None\<rparr>; sessionId = ha_sessionId host
      in if ha_disposed host \<or> \<not> ha_inFlight host \<or> \<not> truthy sessionId then (w, None)
         else let idleMs = now - wd_lastEventAt w
              in if idleMs < wd_timeoutMs w
                 then (scheduleTurnStallCheck now (wd_timeoutMs w - idleMs) w, None)
                 else if ha_deferring host
                 then (scheduleTurnStallCheck now (wd_timeoutMs w) w, None)
                 else (w, sessionId))"

text \<open>
  The check after the verification of session \<open>sessionId\<close> answered, or threw (\<open>None\<close>). The
  second result is the call of \<open>onTurnStalled\<close>.
\<close>

definition end_check ::
    "string \<Rightarrow> verification option \<Rightarrow> host_answers \<Rightarrow> ms \<Rightarrow> watchdog
     \<Rightarrow> watchdog \<times> (string \<times> pending_steer list) option" where
  "end_check sessionId result host now w =
     (let verifiedNoRunningTool = (result = Some NoRunningTool)
      in if ha_disposed host \<or> \<not> ha_inFlight host \<or> wd_timer w \<noteq> None then (w, None)
         else if \<not> verifiedNoRunningTool
         then (scheduleTurnStallCheck now (wd_timeoutMs w) w, None)
         else if ha_deferring host
         then (scheduleTurnStallCheck now (wd_timeoutMs w) w, None)
         else let idleAfterVerifyMs = now - wd_lastEventAt w
              in if idleAfterVerifyMs < wd_timeoutMs w
                 then (scheduleTurnStallCheck now (wd_timeoutMs w - idleAfterVerifyMs) w, None)
                 else (w\<lparr>wd_pendingSteers := []\<rparr>, Some (sessionId, wd_pendingSteers w)))"

lemmas watchdog_methods = trackNativeSteer_def clearPendingNativeSteers_def noteActivity_def
  noteProgress_def clearTurnStall_def scheduleTurnStallCheck_def armTurnStall_def
  ensureTurnStallArmed_def clearAll_def begin_check_def end_check_def Let_def

lemma timeout_fixed [simp]:
  "wd_timeoutMs (trackNativeSteer st w) = wd_timeoutMs w"
  "wd_timeoutMs (noteActivity now w) = wd_timeoutMs w"
  "wd_timeoutMs (noteProgress now w) = wd_timeoutMs w"
  "wd_timeoutMs (armTurnStall now w) = wd_timeoutMs w"
  "wd_timeoutMs (ensureTurnStallArmed now w) = wd_timeoutMs w"
  "wd_timeoutMs (clearTurnStall w) = wd_timeoutMs w"
  "wd_timeoutMs (clearAll w) = wd_timeoutMs w"
  "wd_timeoutMs (fst (begin_check h now w)) = wd_timeoutMs w"
  "wd_timeoutMs (fst (end_check sid v h now w)) = wd_timeoutMs w"
  by (auto simp: watchdog_methods)



subsection \<open>The watchdog in its harness\<close>

text \<open>
  A run of the harness: method calls, timer firings and verification answers in any order, on a
  clock that never goes back. The machine keeps the verifications under way and, for the
  specification only, the instants at which activity was noted and turns were recovered.
\<close>

record harness_run =
  hr_watchdog :: watchdog
  hr_now :: ms
  hr_verifying :: "string list"
  hr_activity :: "ms list"
  hr_recovered :: "(ms \<times> string \<times> pending_steer list) list"

definition start_run :: "ms \<Rightarrow> harness_run" where
  "start_run timeoutMs =
     \<lparr>hr_watchdog = new_watchdog timeoutMs, hr_now = 0, hr_verifying = [], hr_activity = [],
      hr_recovered = []\<rparr>"

definition call_method :: "(watchdog \<Rightarrow> watchdog) \<Rightarrow> harness_run \<Rightarrow> harness_run" where
  "call_method f r = r\<lparr>hr_watchdog := f (hr_watchdog r)\<rparr>"

definition noting :: "(watchdog \<Rightarrow> watchdog) \<Rightarrow> harness_run \<Rightarrow> harness_run" where
  "noting f r = (call_method f r)\<lparr>hr_activity := hr_now r # hr_activity r\<rparr>"

definition fire_timer :: "host_answers \<Rightarrow> harness_run \<Rightarrow> harness_run" where
  "fire_timer host r =
     (case begin_check host (hr_now r) (hr_watchdog r) of (w, verify) \<Rightarrow>
        r\<lparr>hr_watchdog := w,
          hr_verifying := (case verify of None \<Rightarrow> [] | Some sid \<Rightarrow> [sid]) @ hr_verifying r\<rparr>)"

definition verification_answers ::
    "string \<Rightarrow> verification option \<Rightarrow> host_answers \<Rightarrow> harness_run \<Rightarrow> harness_run" where
  "verification_answers sid result host r =
     (case end_check sid result host (hr_now r) (hr_watchdog r) of (w, recovery) \<Rightarrow>
        r\<lparr>hr_watchdog := w,
          hr_verifying := remove1 sid (hr_verifying r),
          hr_recovered := (case recovery of None \<Rightarrow> []
                           | Some (s, steers) \<Rightarrow> [(hr_now r, s, steers)]) @ hr_recovered r\<rparr>)"

inductive run_step :: "harness_run \<Rightarrow> harness_run \<Rightarrow> bool" where
  clock: "0 \<le> d \<Longrightarrow> run_step r (r\<lparr>hr_now := hr_now r + d\<rparr>)"
| steer: "run_step r (call_method (trackNativeSteer s) r)"
| activity: "run_step r (noting (noteActivity (hr_now r)) r)"
| progress: "run_step r (noting (noteProgress (hr_now r)) r)"
| arm: "run_step r (noting (armTurnStall (hr_now r)) r)"
| ensure: "run_step r (call_method (ensureTurnStallArmed (hr_now r)) r)"
| disarm: "run_step r (call_method clearTurnStall r)"
| clear_all: "run_step r (call_method clearAll r)"
| fire: "wd_timer (hr_watchdog r) = Some t \<Longrightarrow> t \<le> hr_now r \<Longrightarrow> run_step r (fire_timer host r)"
| verified: "sid \<in> set (hr_verifying r) \<Longrightarrow>
    run_step r (verification_answers sid result host r)"

inductive reachable_run :: "ms \<Rightarrow> harness_run \<Rightarrow> bool" for timeoutMs where
  start: "reachable_run timeoutMs (start_run timeoutMs)"
| step: "reachable_run timeoutMs r \<Longrightarrow> run_step r r' \<Longrightarrow> reachable_run timeoutMs r'"

inductive_cases run_stepE: "run_step r r'"

text \<open>
  The invariant: the recorded instants are those the watchdog knows, and around each recovery
  there was silence.
\<close>

definition silent_recoveries :: "ms \<Rightarrow> harness_run \<Rightarrow> bool" where
  "silent_recoveries timeoutMs r \<longleftrightarrow>
     wd_timeoutMs (hr_watchdog r) = timeoutMs \<and>
     (\<forall>a \<in> set (hr_activity r). a \<le> wd_lastEventAt (hr_watchdog r)) \<and>
     wd_lastEventAt (hr_watchdog r) \<le> hr_now r \<and>
     (\<forall>(t, s, steers) \<in> set (hr_recovered r).
        t \<le> hr_now r \<and> (\<forall>a \<in> set (hr_activity r). a \<le> t - timeoutMs \<or> t \<le> a))"

lemma last_event_kept [simp]:
  "wd_lastEventAt (trackNativeSteer st w) = wd_lastEventAt w"
  "wd_lastEventAt (ensureTurnStallArmed now w) = wd_lastEventAt w"
  "wd_lastEventAt (clearTurnStall w) = wd_lastEventAt w"
  "wd_lastEventAt (clearAll w) = wd_lastEventAt w"
  "wd_lastEventAt (fst (begin_check h now w)) = wd_lastEventAt w"
  "wd_lastEventAt (fst (end_check sid v h now w)) = wd_lastEventAt w"
  "wd_lastEventAt (noteActivity now w) = now"
  "wd_lastEventAt (noteProgress now w) = now"
  "wd_lastEventAt (armTurnStall now w) = now"
  by (auto simp: watchdog_methods)

lemma recovery_conditions:
  "end_check sid result host now w = (w', Some (s, steers)) \<Longrightarrow>
     s = sid \<and> steers = wd_pendingSteers w \<and> wd_pendingSteers w' = [] \<and>
     \<not> ha_disposed host \<and> ha_inFlight host \<and> \<not> ha_deferring host \<and>
     result = Some NoRunningTool \<and> wd_timeoutMs w \<le> now - wd_lastEventAt w"
  by (auto simp: end_check_def Let_def scheduleTurnStallCheck_def split: if_splits)

lemma silent_call:
  assumes "silent_recoveries T r"
    "wd_timeoutMs (f (hr_watchdog r)) = wd_timeoutMs (hr_watchdog r)"
    "wd_lastEventAt (f (hr_watchdog r)) = wd_lastEventAt (hr_watchdog r)"
  shows "silent_recoveries T (call_method f r)"
  using assms by (simp add: silent_recoveries_def call_method_def)

lemma silent_noting:
  assumes "silent_recoveries T r"
    "wd_timeoutMs (f (hr_watchdog r)) = wd_timeoutMs (hr_watchdog r)"
    "wd_lastEventAt (f (hr_watchdog r)) = hr_now r"
  shows "silent_recoveries T (noting f r)"
  using assms by (fastforce simp: silent_recoveries_def call_method_def noting_def)

lemma silent_verification:
  assumes "silent_recoveries T r"
  shows "silent_recoveries T (verification_answers sid result host r)"
proof (cases "end_check sid result host (hr_now r) (hr_watchdog r)")
  case (Pair w recovery)
  have w: "wd_timeoutMs w = wd_timeoutMs (hr_watchdog r)"
      "wd_lastEventAt w = wd_lastEventAt (hr_watchdog r)"
    using timeout_fixed(9) [of sid result host "hr_now r" "hr_watchdog r"]
      last_event_kept(6) [of sid result host "hr_now r" "hr_watchdog r"] Pair by simp_all
  have "\<forall>a \<in> set (hr_activity r). a \<le> hr_now r - T" if "recovery = Some (s, steers)" for s steers
    using recovery_conditions [of sid result host "hr_now r" "hr_watchdog r" w s steers] Pair that
      assms by (fastforce simp: silent_recoveries_def)
  then show ?thesis
    using assms w Pair
    by (auto simp: verification_answers_def silent_recoveries_def split: option.split)
qed

lemma silent_step: "run_step r r' \<Longrightarrow> silent_recoveries T r \<Longrightarrow> silent_recoveries T r'"
proof (induction rule: run_step.induct)
  case (clock d r)
  then show ?case by (fastforce simp: silent_recoveries_def)
next
  case (fire r t host)
  then show ?case
    using timeout_fixed(8) [of host "hr_now r" "hr_watchdog r"]
      last_event_kept(5) [of host "hr_now r" "hr_watchdog r"]
    by (auto simp: fire_timer_def silent_recoveries_def split_beta)
qed (auto intro: silent_call silent_noting silent_verification)

text \<open>C22: A turn is only ever recovered after a full timeout of silence: in every run of the
  harness, whatever happened during the verification, no session event, progress or arming was
  noted in the window of one timeout before an instant at which a turn was aborted and its
  steers replayed.\<close>

theorem recovery_only_after_silence:
  assumes "reachable_run timeoutMs r"
  shows "list_all (\<lambda>(t, s, steers).
     list_all (\<lambda>a. a \<le> t - timeoutMs \<or> t \<le> a) (hr_activity r)) (hr_recovered r)"
proof -
  have "silent_recoveries timeoutMs r"
    using assms
  proof (induction rule: reachable_run.induct)
    case start
    then show ?case by (simp add: silent_recoveries_def start_run_def new_watchdog_def)
  qed (auto intro: silent_step)
  then show ?thesis by (auto simp: silent_recoveries_def list_all_iff)
qed

definition live_host :: host_answers where
  "live_host =
     \<lparr>ha_disposed = False, ha_inFlight = True, ha_sessionId = Some ''s'', ha_deferring = False\<rparr>"

definition stalled_run :: harness_run where
  "stalled_run =
     (let r1 = noting (armTurnStall (hr_now (start_run 10))) (start_run 10);
          r2 = r1\<lparr>hr_now := hr_now r1 + 20\<rparr>
      in verification_answers ''s'' (Some NoRunningTool) live_host (fire_timer live_host r2))"

theorem recovery_only_after_silence_witness:
  "hr_recovered stalled_run = [(20, ''s'', [])] \<and>
   list_all (\<lambda>(t, s, steers).
     list_all (\<lambda>a. a \<le> t - 10 \<or> t \<le> a) (hr_activity stalled_run)) (hr_recovered stalled_run)"
proof
  let ?r1 = "noting (armTurnStall (hr_now (start_run 10))) (start_run 10)"
  let ?r2 = "?r1\<lparr>hr_now := hr_now ?r1 + 20\<rparr>"
  have t: "wd_timer (hr_watchdog ?r1) = Some 10" "hr_now ?r1 = 0"
    by (simp_all add: noting_def call_method_def start_run_def watchdog_methods new_watchdog_def)
  have "''s'' \<in> set (hr_verifying (fire_timer live_host ?r2))"
    by (simp add: noting_def call_method_def start_run_def watchdog_methods new_watchdog_def
        fire_timer_def live_host_def)
  moreover have "reachable_run 10 (fire_timer live_host ?r2)"
    by (rule reachable_run.step [OF _ run_step.fire [where t = 10]],
        rule reachable_run.step [OF _ run_step.clock],
        rule reachable_run.step [OF reachable_run.start run_step.arm])
      (simp_all add: t)
  ultimately have "reachable_run 10 stalled_run"
    unfolding stalled_run_def Let_def by (blast intro: reachable_run.step run_step.verified)
  then show "list_all (\<lambda>(t, s, steers).
     list_all (\<lambda>a. a \<le> t - 10 \<or> t \<le> a) (hr_activity stalled_run)) (hr_recovered stalled_run)"
    by (rule recovery_only_after_silence)
  show "hr_recovered stalled_run = [(20, ''s'', [])]"
    by (simp add: stalled_run_def noting_def call_method_def start_run_def watchdog_methods
        new_watchdog_def fire_timer_def live_host_def verification_answers_def)
qed

end
