(* ===== verification/ChatReply.thy ===== *)
theory ChatReply
  imports JsValue
begin

section \<open>Chat reply satisfaction\<close>

text \<open>
  \<open>apps/worker/src/mcp/roomote-mcp-server/chat-reply-satisfaction.ts\<close>: the state file in which the
  worker's chat tools record whether the current turn has been answered and whether the channel
  can be delivered to at all. The file system is a map from paths to the JSON object stored
  there; a missing or unreadable file is \<open>None\<close>. The environment variable that names the file is
  the argument \<open>envPath\<close>, and \<open>nowMs\<close> is the caller's time or the clock.
\<close>

subsection \<open>Turn ids\<close>

text \<open>\<open>/^\d+$/\<close> and \<open>/^\d+\.\d+$/\<close>.\<close>

definition all_digits :: "string \<Rightarrow> bool" where
  "all_digits s \<longleftrightarrow> s \<noteq> [] \<and> (\<forall>c \<in> set s. is_digit c)"

definition slack_ts_shape :: "string \<Rightarrow> bool" where
  "slack_ts_shape s \<longleftrightarrow>
     (let whole = takeWhile is_digit s; rest = dropWhile is_digit s
      in whole \<noteq> [] \<and> rest \<noteq> [] \<and> hd rest = CHR ''.'' \<and> all_digits (tl rest))"

definition trimString :: "jsv \<Rightarrow> string" where
  "trimString v = (case v of JStr s \<Rightarrow> trim s | _ \<Rightarrow> [])"

definition isSlackMessageTs :: "jsv \<Rightarrow> bool" where
  "isSlackMessageTs v = slack_ts_shape (trimString v)"

definition isTelegramMessageId :: "jsv \<Rightarrow> bool" where
  "isTelegramMessageId v = all_digits (trimString v)"

definition isTeamsActivityId :: "jsv \<Rightarrow> bool" where
  "isTeamsActivityId v \<longleftrightarrow>
     (let trimmed = trimString v
      in trimmed \<noteq> [] \<and> \<not> starts_with ''web:'' trimmed \<and> \<not> (\<exists>c \<in> set trimmed. js_space c))"

definition isChatTurnMessageTs :: "jsv \<Rightarrow> bool" where
  "isChatTurnMessageTs v \<longleftrightarrow> isSlackMessageTs v \<or> isTelegramMessageId v \<or> isTeamsActivityId v"

lemma digit_not_space: "is_digit c \<Longrightarrow> \<not> js_space c \<and> c \<noteq> CHR ''w''"
  by (auto simp: is_digit_def js_space_def Let_def)

lemma slack_ts_chars: "slack_ts_shape s \<Longrightarrow> \<forall>c \<in> set s. is_digit c \<or> c = CHR ''.''"
proof -
  assume a: "slack_ts_shape s"
  then obtain tail where t: "dropWhile is_digit s = CHR ''.'' # tail" "\<forall>c \<in> set tail. is_digit c"
    by (auto simp: slack_ts_shape_def Let_def all_digits_def neq_Nil_conv)
  have "set s = set (takeWhile is_digit s) \<union> set (dropWhile is_digit s)"
    by (metis set_append takeWhile_dropWhile_id)
  then show ?thesis using t by (auto dest: set_takeWhileD)
qed

text \<open>The Slack and Telegram shapes are special cases of the Teams one.\<close>

lemma chat_turn_is_teams_shape: "isChatTurnMessageTs v \<longleftrightarrow> isTeamsActivityId v"
proof -
  have dot: "\<not> js_space (CHR ''.'')" by (simp add: js_space_def)
  have "isTeamsActivityId v" if "isSlackMessageTs v"
    using slack_ts_chars [of "trimString v"] that digit_not_space dot
    by (fastforce simp: isTeamsActivityId_def isSlackMessageTs_def Let_def starts_with_iff
        slack_ts_shape_def)
  moreover have "isTeamsActivityId v" if "isTelegramMessageId v"
    using that digit_not_space
    by (fastforce simp: isTeamsActivityId_def isTelegramMessageId_def Let_def all_digits_def
        starts_with_iff)
  ultimately show ?thesis by (auto simp: isChatTurnMessageTs_def)
qed

subsection \<open>The state file\<close>

type_synonym file_store = "string \<Rightarrow> js_record option"

datatype satisfaction_tool = SendChatReply | ReportToParentSession | SendChatReactionEmoji

fun satisfaction_tool_str :: "satisfaction_tool \<Rightarrow> string" where
  "satisfaction_tool_str SendChatReply = ''send_chat_reply''"
| "satisfaction_tool_str ReportToParentSession = ''report_to_parent_session''"
| "satisfaction_tool_str SendChatReactionEmoji = ''send_chat_reaction_emoji''"

datatype reply_purpose = Ack | Progress | Closeout | Clarification

fun reply_purpose_str :: "reply_purpose \<Rightarrow> string" where
  "reply_purpose_str Ack = ''ack''"
| "reply_purpose_str Progress = ''progress''"
| "reply_purpose_str Closeout = ''closeout''"
| "reply_purpose_str Clarification = ''clarification''"

definition isLifecycleTextTool :: "satisfaction_tool \<Rightarrow> bool" where
  "isLifecycleTextTool tool \<longleftrightarrow> tool = SendChatReply \<or> tool = ReportToParentSession"

definition getStateFilePath :: "string option \<Rightarrow> string option \<Rightarrow> string option" where
  "getStateFilePath envPath explicitPath = map_option trim (nullish explicitPath envPath)"

definition readState :: "file_store \<Rightarrow> string \<Rightarrow> js_record" where
  "readState fs path = (case fs path of None \<Rightarrow> [] | Some r \<Rightarrow> r)"

definition writeState :: "string \<Rightarrow> js_record \<Rightarrow> file_store \<Rightarrow> file_store" where
  "writeState path state fs = fs(path := Some state)"

text \<open>
  An object literal that spreads the stored state and then lists properties. Writing the file
  drops the properties that are \<open>undefined\<close>.
\<close>

fun assign :: "js_record \<Rightarrow> (string \<times> jsv) list \<Rightarrow> js_record" where
  "assign r [] = r"
| "assign r ((k, v) # kvs) =
     assign (if v = JUndefined then rec_remove k r else rec_set k v r) kvs"

lemma rec_get_assign [json_get]:
  "distinct (map fst kvs) \<Longrightarrow>
   rec_get (assign r kvs) k = (case map_of kvs k of None \<Rightarrow> rec_get r k | Some v \<Rightarrow> v)"
proof (induction r kvs rule: assign.induct)
  case (2 r k' v kvs)
  then have "map_of kvs k' = None" by (auto simp: map_of_eq_None_iff)
  then show ?case using 2 by (auto split: option.split)
qed simp

definition js_str_opt :: "string option \<Rightarrow> jsv" where
  "js_str_opt x = (case x of None \<Rightarrow> JUndefined | Some s \<Rightarrow> JStr s)"

definition cleared :: "string list \<Rightarrow> (string \<times> jsv) list" where
  "cleared ks = map (\<lambda>k. (k, JUndefined)) ks"

subsection \<open>Recording\<close>

record turn_start_input =
  ts_turnMessageTs :: string
  ts_allowReaction :: "bool option"
  ts_requireInitialAck :: "bool option"
  ts_sessionId :: "string option"

definition stored_flag :: "bool \<Rightarrow> jsv \<Rightarrow> bool option \<Rightarrow> bool" where
  "stored_flag isNewTurn stored given =
     (if isNewTurn then nullish_or given True
      else (case stored of JBool b \<Rightarrow> b | _ \<Rightarrow> nullish_or given True))"

definition recordChatTurnStart ::
    "string option \<Rightarrow> string option \<Rightarrow> turn_start_input \<Rightarrow> ms \<Rightarrow> file_store \<Rightarrow> file_store" where
  "recordChatTurnStart envPath explicitPath input nowMs fs =
     (let stateFilePath = getStateFilePath envPath explicitPath;
          turnMessageTs = trim (ts_turnMessageTs input)
      in if \<not> truthy stateFilePath \<or> turnMessageTs = [] then fs
         else let path = the stateFilePath;
                  existing = readState fs path;
                  sessionId = trimString (js_str_opt (ts_sessionId input));
                  isNewTurn = (trimString (rec_get existing ''currentTurnMessageTs'')
                    \<noteq> turnMessageTs)
              in writeState path (assign existing
                   ((if trimString (rec_get existing ''parentThreadId'') \<noteq> [] then []
                     else if sessionId \<noteq> [] then [(''parentThreadId'', JStr sessionId)]
                     else []) @
                    [(''currentTurnMessageTs'', JStr turnMessageTs),
                     (''currentTurnStartedAtMs'', JNum nowMs),
                     (''currentTurnReactionsAllowed'', JBool (stored_flag isNewTurn
                        (rec_get existing ''currentTurnReactionsAllowed'')
                        (ts_allowReaction input))),
                     (''currentTurnRequiresInitialAck'', JBool (stored_flag isNewTurn
                        (rec_get existing ''currentTurnRequiresInitialAck'')
                        (ts_requireInitialAck input)))] @
                    (if isNewTurn
                     then cleared [''initialAckReminderAtMs'', ''satisfiedTurnMessageTs'',
                            ''lastNonSlackWorkAfterSatisfactionAtMs'',
                            ''terminalSatisfiedTurnMessageTs'', ''terminalSatisfiedAtMs'',
                            ''terminalSatisfactionTool'', ''lastNonSlackWorkAfterTerminalAtMs'',
                            ''deliveryFailureCount'', ''lastDeliveryFailureAtMs'',
                            ''lastDeliveryFailureCode'', ''terminalDeliveryFailureAtMs'']
                     else []))) fs)"

definition MAX_RETRYABLE_DELIVERY_FAILURES_BEFORE_TERMINAL :: int where
  "MAX_RETRYABLE_DELIVERY_FAILURES_BEFORE_TERMINAL = 3"

definition hasTerminalChatReplyDeliveryFailure ::
    "string option \<Rightarrow> string option \<Rightarrow> file_store \<Rightarrow> bool" where
  "hasTerminalChatReplyDeliveryFailure envPath explicitPath fs =
     (let stateFilePath = getStateFilePath envPath explicitPath
      in if \<not> truthy stateFilePath then False
         else asNumber (rec_get (readState fs (the stateFilePath))
                ''terminalDeliveryFailureAtMs'') \<noteq> None)"

record delivery_failure_input =
  df_retryable :: bool
  df_providerErrorCode :: "string option"
  df_sessionId :: "string option"

definition other_session :: "js_record \<Rightarrow> string option \<Rightarrow> bool" where
  "other_session existing session =
     (let sessionId = trimString (js_str_opt session);
          parentThreadId = trimString (rec_get existing ''parentThreadId'')
      in parentThreadId \<noteq> [] \<and> sessionId \<noteq> [] \<and> sessionId \<noteq> parentThreadId)"

definition recordChatReplyDeliveryFailure ::
    "string option \<Rightarrow> string option \<Rightarrow> delivery_failure_input \<Rightarrow> ms \<Rightarrow> file_store
     \<Rightarrow> file_store \<times> bool" where
  "recordChatReplyDeliveryFailure envPath explicitPath input nowMs fs =
     (let stateFilePath = getStateFilePath envPath explicitPath
      in if \<not> truthy stateFilePath then (fs, False)
         else let path = the stateFilePath; existing = readState fs path
              in if other_session existing (df_sessionId input) then (fs, False)
                 else let previousCount =
                            nullish_or (asNumber (rec_get existing ''deliveryFailureCount'')) 0;
                          deliveryFailureCount = previousCount + 1;
                          providerErrorCode = trimString (js_str_opt (df_providerErrorCode input));
                          previousTerminalAtMs =
                            asNumber (rec_get existing ''terminalDeliveryFailureAtMs'');
                          terminalDeliveryFailure =
                            (previousTerminalAtMs \<noteq> None \<or> \<not> df_retryable input \<or>
                             MAX_RETRYABLE_DELIVERY_FAILURES_BEFORE_TERMINAL
                               \<le> deliveryFailureCount)
                      in (writeState path (assign existing
                            ([(''deliveryFailureCount'', JNum deliveryFailureCount),
                              (''lastDeliveryFailureAtMs'', JNum nowMs)] @
                             (if providerErrorCode \<noteq> []
                              then [(''lastDeliveryFailureCode'', JStr providerErrorCode)]
                              else []) @
                             (if terminalDeliveryFailure
                              then [(''terminalDeliveryFailureAtMs'',
                                     JNum (nullish_or previousTerminalAtMs nowMs))]
                              else []))) fs,
                          terminalDeliveryFailure))"

record satisfaction_input =
  si_messageTs :: string
  si_tool :: satisfaction_tool
  si_replyPurpose :: "reply_purpose option"
  si_sessionId :: "string option"

definition satisfies_current_turn :: "js_record \<Rightarrow> satisfaction_tool \<Rightarrow> string \<Rightarrow> bool" where
  "satisfies_current_turn existing tool messageTs =
     (let currentTurnMessageTs = trimString (rec_get existing ''currentTurnMessageTs'');
          reactionsAllowed = (rec_get existing ''currentTurnReactionsAllowed'' \<noteq> JBool False)
      in currentTurnMessageTs \<noteq> [] \<and>
         (if tool = SendChatReactionEmoji
          then reactionsAllowed \<and> isChatTurnMessageTs (JStr currentTurnMessageTs) \<and>
            currentTurnMessageTs = messageTs
          else True))"

definition recordChatReplySatisfaction ::
    "string option \<Rightarrow> string option \<Rightarrow> satisfaction_input \<Rightarrow> ms \<Rightarrow> file_store \<Rightarrow> file_store" where
  "recordChatReplySatisfaction envPath explicitPath input nowMs fs =
     (let stateFilePath = getStateFilePath envPath explicitPath;
          messageTs = trim (si_messageTs input)
      in if \<not> truthy stateFilePath \<or> messageTs = [] then fs
         else let path = the stateFilePath; existing = readState fs path
              in if other_session existing (si_sessionId input) then fs
                 else let currentTurnMessageTs =
                            trimString (rec_get existing ''currentTurnMessageTs'');
                          satisfies = satisfies_current_turn existing (si_tool input) messageTs;
                          lifecycle = isLifecycleTextTool (si_tool input)
                      in writeState path (assign existing
                           ([(''messageTs'', JStr messageTs),
                             (''tool'', JStr (satisfaction_tool_str (si_tool input))),
                             (''replyPurpose'',
                              js_str_opt (if lifecycle
                                then map_option reply_purpose_str (si_replyPurpose input)
                                else None)),
                             (''recordedAtMs'', JNum nowMs)] @
                            (if lifecycle
                             then cleared [''deliveryFailureCount'', ''lastDeliveryFailureAtMs'',
                                    ''lastDeliveryFailureCode'', ''terminalDeliveryFailureAtMs'']
                             else []) @
                            (if satisfies
                             then [(''satisfiedTurnMessageTs'', JStr currentTurnMessageTs),
                                   (''lastNonSlackWorkAfterSatisfactionAtMs'', JUndefined)]
                             else []) @
                            (if lifecycle \<and>
                                si_replyPurpose input \<in> {Some Closeout, Some Clarification} \<and>
                                satisfies
                             then [(''terminalSatisfiedTurnMessageTs'', JStr currentTurnMessageTs),
                                   (''terminalSatisfiedAtMs'', JNum nowMs),
                                   (''terminalSatisfactionTool'',
                                    JStr (satisfaction_tool_str (si_tool input))),
                                   (''lastNonSlackWorkAfterTerminalAtMs'', JUndefined)]
                             else []))) fs)"

subsection \<open>Properties\<close>

lemma readState_writeState [simp]: "readState (writeState p r fs) p = r"
  by (simp add: readState_def writeState_def)

lemma trimString_JStr [simp]: "trimString (JStr s) = trim s"
  by (simp add: trimString_def)

text \<open>The failure keys of the state file at a path.\<close>

definition failure_count :: "js_record \<Rightarrow> int" where
  "failure_count r = nullish_or (asNumber (rec_get r ''deliveryFailureCount'')) 0"

definition terminal_at :: "js_record \<Rightarrow> ms option" where
  "terminal_at r = asNumber (rec_get r ''terminalDeliveryFailureAtMs'')"

text \<open>A failure of the bound session, as a step on the record of the state file.\<close>

lemma delivery_failure_step:
  assumes "getStateFilePath envPath explicitPath = Some p" "p \<noteq> []"
    and "\<not> other_session (readState fs p) (df_sessionId input)"
  shows "(let fs' = fst (recordChatReplyDeliveryFailure envPath explicitPath input nowMs fs);
              terminal = snd (recordChatReplyDeliveryFailure envPath explicitPath input nowMs fs);
              r = readState fs p; r' = readState fs' p in
     failure_count r' = failure_count r + 1 \<and>
     rec_get r' ''parentThreadId'' = rec_get r ''parentThreadId'' \<and>
     (terminal \<longleftrightarrow> terminal_at r \<noteq> None \<or> \<not> df_retryable input \<or> 3 \<le> failure_count r + 1) \<and>
     terminal_at r' = (if terminal then Some (nullish_or (terminal_at r) nowMs) else None))"
  using assms
  by (cases "terminal_at (readState fs p)")
    (auto simp: recordChatReplyDeliveryFailure_def Let_def json_get failure_count_def
      terminal_at_def MAX_RETRYABLE_DELIVERY_FAILURES_BEFORE_TERMINAL_def
      split: option.split)

text \<open>Failures in a row, each with the time it is recorded at, and those of the bound session.\<close>

definition record_failure ::
    "string \<Rightarrow> delivery_failure_input \<times> ms \<Rightarrow> file_store \<Rightarrow> file_store" where
  "record_failure p f fs =
     fst (recordChatReplyDeliveryFailure None (Some p) (fst f) (snd f) fs)"

definition bound_failure :: "js_record \<Rightarrow> delivery_failure_input \<times> ms \<Rightarrow> bool" where
  "bound_failure r f \<longleftrightarrow> \<not> other_session r (df_sessionId (fst f))"

lemma other_session_parent:
  "rec_get r' ''parentThreadId'' = rec_get r ''parentThreadId'' \<Longrightarrow>
   other_session r' s = other_session r s"
  by (simp add: other_session_def)

text \<open>What one such failure does to the count and to the stamp, whichever it finds.\<close>

lemma record_failure_step:
  assumes "trim p = p" "p \<noteq> []" "bound_failure (readState fs p) f"
  shows "failure_count (readState (record_failure p f fs) p) =
      failure_count (readState fs p) + 1"
    and "terminal_at (readState (record_failure p f fs) p) =
      (if terminal_at (readState fs p) \<noteq> None then terminal_at (readState fs p)
       else if \<not> df_retryable (fst f) \<or> 2 \<le> failure_count (readState fs p) then Some (snd f)
       else None)"
    and "bound_failure (readState (record_failure p f fs) p) = bound_failure (readState fs p)"
proof -
  let ?r = "readState fs p" and ?r' = "readState (record_failure p f fs) p"
  have path: "getStateFilePath None (Some p) = Some p"
    using assms(1) by (simp add: getStateFilePath_def)
  have bound: "\<not> other_session ?r (df_sessionId (fst f))"
    using assms(3) by (simp add: bound_failure_def)
  note step = delivery_failure_step [OF path assms(2) bound, of "snd f",
      folded record_failure_def, unfolded Let_def]
  show "failure_count ?r' = failure_count ?r + 1"
    using step by (simp add: record_failure_def)
  show "bound_failure ?r' = bound_failure ?r"
    using step other_session_parent [of ?r' ?r]
    by (simp add: record_failure_def bound_failure_def fun_eq_iff)
  show "terminal_at ?r' = (if terminal_at ?r \<noteq> None then terminal_at ?r
      else if \<not> df_retryable (fst f) \<or> 2 \<le> failure_count ?r then Some (snd f) else None)"
    using step by (cases "terminal_at ?r") (simp_all add: record_failure_def)
qed

lemma terminal_failure_sticks:
  assumes "trim p = p" "p \<noteq> []" "list_all (bound_failure (readState fs p)) failures"
    and "terminal_at (readState fs p) = Some t"
  shows "terminal_at (readState (fold (record_failure p) failures fs) p) = Some t"
  using assms(3,4)
proof (induction failures arbitrary: fs)
  case (Cons f failures)
  then show ?case by (simp add: record_failure_step [OF assms(1,2)])
qed simp

text \<open>The delivery budget is exact: starting from no recorded failure, a run of retryable
  failures of the bound session is terminal from the third one on and not before, the terminal
  instant stays the one of the third failure however many follow, and that is what the stop
  hooks read; a single failure that cannot be retried is terminal at once.\<close>

theorem delivery_failure_budget:
  assumes "trim p = p" "p \<noteq> []"
    and "failure_count (readState fs p) = 0" "terminal_at (readState fs p) = None"
    and "list_all (bound_failure (readState fs p)) failures"
    and "list_all (\<lambda>f. df_retryable (fst f)) failures"
    and "bound_failure (readState fs p) g" "\<not> df_retryable (fst g)"
  shows "terminal_at (readState (fold (record_failure p) failures fs) p) =
      (if length failures < 3 then None else Some (snd (failures ! 2))) \<and>
    (hasTerminalChatReplyDeliveryFailure None (Some p) (fold (record_failure p) failures fs)
      \<longleftrightarrow> 3 \<le> length failures) \<and>
    hasTerminalChatReplyDeliveryFailure None (Some p) (record_failure p g fs)"
proof -
  have reads: "hasTerminalChatReplyDeliveryFailure None (Some p) fs' \<longleftrightarrow>
      terminal_at (readState fs' p) \<noteq> None" for fs'
    using assms(1,2)
    by (simp add: hasTerminalChatReplyDeliveryFailure_def getStateFilePath_def terminal_at_def)
  note steps = record_failure_step [OF assms(1,2)]
  have "terminal_at (readState (fold (record_failure p) failures fs) p) =
      (if length failures < 3 then None else Some (snd (failures ! 2)))"
  proof (cases "length failures < 3")
    case True
    then consider "failures = []" | a where "failures = [a]" | a b where "failures = [a, b]"
      by (cases failures; cases "tl failures"; cases "tl (tl failures)") auto
    then show ?thesis by cases (use assms in \<open>simp_all add: steps\<close>)
  next
    case False
    then obtain a b c rest where f: "failures = a # b # c # rest"
      by (cases failures; cases "tl failures"; cases "tl (tl failures)") auto
    let ?fs = "record_failure p c (record_failure p b (record_failure p a fs))"
    have "terminal_at (readState ?fs p) = Some (snd c)"
      "list_all (bound_failure (readState ?fs p)) rest"
      using assms f by (simp_all add: steps)
    then show ?thesis
      using terminal_failure_sticks [OF assms(1,2)] f by simp
  qed
  then show ?thesis using assms by (simp add: reads steps not_less)
qed

definition retryable_failure :: delivery_failure_input where
  "retryable_failure =
     \<lparr>df_retryable = True, df_providerErrorCode = Some ''ratelimited'', df_sessionId = None\<rparr>"

theorem delivery_failure_budget_witness:
  "hasTerminalChatReplyDeliveryFailure None (Some ''f'')
     (fold (record_failure ''f'') [(retryable_failure, 1), (retryable_failure, 2),
        (retryable_failure, 3)] (\<lambda>p. None))"
  using delivery_failure_budget [where p = "''f''" and fs = "\<lambda>p. None"
      and failures = "[(retryable_failure, 1), (retryable_failure, 2), (retryable_failure, 3)]"
      and g = "(retryable_failure\<lparr>df_retryable := False\<rparr>, 4)"]
  by (simp add: readState_def failure_count_def terminal_at_def bound_failure_def
      other_session_def retryable_failure_def js_str_opt_def trimString_def trim_def
      trim_start_def js_space_def Let_def)

lemma trimString_trimString: "trim (trimString v) = trimString v"
  by (cases v) (simp_all add: trimString_def)

text \<open>The keys a reply leaves behind that speak of the turn it answered.\<close>

definition turn_answer_keys :: "string list" where
  "turn_answer_keys = [''satisfiedTurnMessageTs'', ''terminalSatisfiedTurnMessageTs'',
     ''terminalSatisfiedAtMs'', ''terminalSatisfactionTool'', ''deliveryFailureCount'',
     ''terminalDeliveryFailureAtMs'']"

text \<open>Starting a turn forgets the answers to the previous one and nothing else: a new turn id
  clears every satisfaction and delivery-failure key and opens with the flags given, the same
  id announced again keeps them all, and the session the file is bound to never changes once it
  is set.\<close>

theorem turn_start_resets_exactly_on_a_new_turn:
  assumes "trim p = p" "p \<noteq> []" "trim (ts_turnMessageTs input) \<noteq> []"
  shows "(let r = readState fs p;
              r' = readState (recordChatTurnStart None (Some p) input now fs) p;
              new_turn = (trimString (rec_get r ''currentTurnMessageTs'')
                \<noteq> trim (ts_turnMessageTs input)) in
     rec_get r' ''currentTurnMessageTs'' = JStr (trim (ts_turnMessageTs input)) \<and>
     list_all (\<lambda>k. rec_get r' k = (if new_turn then JUndefined else rec_get r k))
       turn_answer_keys \<and>
     (if new_turn
      then rec_get r' ''currentTurnReactionsAllowed'' =
             JBool (nullish_or (ts_allowReaction input) True)
      else rec_get r' ''currentTurnReactionsAllowed'' =
             JBool (case rec_get r ''currentTurnReactionsAllowed'' of JBool b \<Rightarrow> b
                    | _ \<Rightarrow> nullish_or (ts_allowReaction input) True)) \<and>
     (if trimString (rec_get r ''parentThreadId'') \<noteq> []
      then rec_get r' ''parentThreadId'' = rec_get r ''parentThreadId''
      else trimString (rec_get r' ''parentThreadId'') =
             trim (nullish_or (ts_sessionId input) [])))"
proof -
  let ?r = "readState fs p"
  let ?sid = "trimString (js_str_opt (ts_sessionId input))"
  have path: "getStateFilePath None (Some p) = Some p"
    using assms(1) by (simp add: getStateFilePath_def)
  have sid: "?sid = trim (nullish_or (ts_sessionId input) [])"
    by (cases "ts_sessionId input") (simp_all add: js_str_opt_def trimString_def)
  show ?thesis
    unfolding sid [symmetric]
    using assms(2,3) path
    by (cases "trimString (rec_get ?r ''currentTurnMessageTs'') = trim (ts_turnMessageTs input)";
        cases "trimString (rec_get ?r ''parentThreadId'') = []"; cases "?sid = []")
      (simp_all add: recordChatTurnStart_def Let_def json_get turn_answer_keys_def cleared_def
        stored_flag_def trimString_trimString)
qed

theorem turn_start_resets_exactly_on_a_new_turn_witness:
  "rec_get (readState (recordChatTurnStart None (Some ''f'')
      \<lparr>ts_turnMessageTs = ''2.2'', ts_allowReaction = None, ts_requireInitialAck = None,
       ts_sessionId = None\<rparr> 9
      (\<lambda>p. Some [(''currentTurnMessageTs'', JStr ''1.1''),
                 (''terminalSatisfiedTurnMessageTs'', JStr ''1.1'')])) ''f'')
    ''terminalSatisfiedTurnMessageTs'' = JUndefined"
  using turn_start_resets_exactly_on_a_new_turn [where p = "''f''" and now = 9
      and input = "\<lparr>ts_turnMessageTs = ''2.2'', ts_allowReaction = None,
        ts_requireInitialAck = None, ts_sessionId = None\<rparr>"
      and fs = "\<lambda>p. Some [(''currentTurnMessageTs'', JStr ''1.1''),
                 (''terminalSatisfiedTurnMessageTs'', JStr ''1.1'')]"]
  by (simp add: Let_def turn_answer_keys_def readState_def rec_get_def trim_def trim_start_def
      js_space_def)

text \<open>What a successful post of the bound session records: a text reply answers the current
  turn and proves the channel deliverable again, and it settles the turn for good exactly when
  it is a closeout or a clarification; a reaction never touches the delivery failures, never
  settles a turn, and answers it only when reactions are allowed and it is on the very message
  of the turn.\<close>

theorem reply_satisfaction:
  assumes "trim p = p" "p \<noteq> []" "trim (si_messageTs input) \<noteq> []"
    and "\<not> other_session (readState fs p) (si_sessionId input)"
    and "trimString (rec_get (readState fs p) ''currentTurnMessageTs'') = turn" "turn \<noteq> []"
  shows "(let r = readState fs p;
              r' = readState (recordChatReplySatisfaction None (Some p) input now fs) p in
     (if si_tool input = SendChatReactionEmoji
      then terminal_at r' = terminal_at r \<and> failure_count r' = failure_count r \<and>
        rec_get r' ''terminalSatisfiedTurnMessageTs'' =
          rec_get r ''terminalSatisfiedTurnMessageTs'' \<and>
        rec_get r' ''satisfiedTurnMessageTs'' =
          (if rec_get r ''currentTurnReactionsAllowed'' \<noteq> JBool False \<and>
              isTeamsActivityId (JStr turn) \<and> turn = trim (si_messageTs input)
           then JStr turn else rec_get r ''satisfiedTurnMessageTs'')
      else terminal_at r' = None \<and> failure_count r' = 0 \<and>
        rec_get r' ''satisfiedTurnMessageTs'' = JStr turn \<and>
        rec_get r' ''terminalSatisfiedTurnMessageTs'' =
          (if si_replyPurpose input \<in> {Some Closeout, Some Clarification} then JStr turn
           else rec_get r ''terminalSatisfiedTurnMessageTs'')))"
proof -
  have path: "getStateFilePath None (Some p) = Some p"
    using assms(1) by (simp add: getStateFilePath_def)
  have life: "isLifecycleTextTool (si_tool input) \<longleftrightarrow> si_tool input \<noteq> SendChatReactionEmoji"
    by (cases "si_tool input") (simp_all add: isLifecycleTextTool_def)
  have eqs: "truthy (getStateFilePath None (Some p))" "the (getStateFilePath None (Some p)) = p"
    using path assms(2) by simp_all
  have sat: "satisfies_current_turn (readState fs p) (si_tool input) (trim (si_messageTs input)) =
      (if si_tool input = SendChatReactionEmoji
       then rec_get (readState fs p) ''currentTurnReactionsAllowed'' \<noteq> JBool False \<and>
         isTeamsActivityId (JStr turn) \<and> turn = trim (si_messageTs input)
       else True)"
    using assms(5,6) by (simp add: satisfies_current_turn_def chat_turn_is_teams_shape)
  note unfolded = recordChatReplySatisfaction_def Let_def eqs assms(3,4,5) json_get
    cleared_def terminal_at_def failure_count_def
  show ?thesis
  proof (cases "si_tool input = SendChatReactionEmoji")
    case True
    then show ?thesis
      using sat
      by (cases "satisfies_current_turn (readState fs p) SendChatReactionEmoji
            (trim (si_messageTs input))")
        (auto simp: unfolded isLifecycleTextTool_def)
  next
    case False
    then show ?thesis
      using sat
      by (cases "si_replyPurpose input \<in> {Some Closeout, Some Clarification}")
        (simp_all add: unfolded life)
  qed
qed

theorem reply_satisfaction_witness:
  "rec_get (readState (recordChatReplySatisfaction None (Some ''f'')
      \<lparr>si_messageTs = ''9.9'', si_tool = SendChatReply, si_replyPurpose = Some Closeout,
       si_sessionId = None\<rparr> 9
      (\<lambda>p. Some [(''currentTurnMessageTs'', JStr ''1.1'')])) ''f'')
    ''terminalSatisfiedTurnMessageTs'' = JStr ''1.1''"
  using reply_satisfaction [where p = "''f''" and now = 9 and turn = "''1.1''"
      and input = "\<lparr>si_messageTs = ''9.9'', si_tool = SendChatReply,
        si_replyPurpose = Some Closeout, si_sessionId = None\<rparr>"
      and fs = "\<lambda>p. Some [(''currentTurnMessageTs'', JStr ''1.1'')]"]
  by (simp add: Let_def readState_def rec_get_def trim_def trim_start_def
      js_space_def other_session_def trimString_def js_str_opt_def)

end
