(* ===== verification/ToolPolicy.thy ===== *)
theory ToolPolicy
  imports Prelude
begin

section \<open>Tool policies of MCP integrations\<close>

text \<open>
  \<open>packages/types/src/mcp-tool-policy.ts\<close>: the tools of a built-in integration that may be
  mounted, and the filter every proxy applies. The ids asked about are those of the integration
  catalogue.
\<close>

definition BETTER_STACK_READ_ONLY_UPTIME_TOOL_NAMES :: "string list" where
  "BETTER_STACK_READ_ONLY_UPTIME_TOOL_NAMES =
    [''escalation_policy'', ''heartbeat_availability'', ''heartbeat'', ''incident_comments'',
     ''incident_escalation_options'', ''incident_timeline'', ''incident'',
     ''monitor_availability'', ''monitor_response_times'', ''monitor'', ''on_call_event'',
     ''on_call_rotation'', ''on_call'', ''severity'', ''status_page_report_update'',
     ''status_page_resources'', ''status_page'', ''escalation_policies'', ''heartbeats'',
     ''incidents'', ''monitors'', ''on_call_events'', ''on_calls'', ''severities'',
     ''status_page_report_updates'', ''status_page_reports'', ''status_pages'']"

definition BETTER_STACK_READ_ONLY_TELEMETRY_TOOL_NAMES :: "string list" where
  "BETTER_STACK_READ_ONLY_TELEMETRY_TOOL_NAMES =
    [''search_documentation'', ''explore_query_instructions'', ''render_chart'',
     ''export_dashboard'', ''application'', ''chart_alert'', ''chart_alert_instructions'',
     ''chart_building_instructions'', ''chart'', ''dashboard'', ''error'',
     ''errors_query_instructions'', ''metric'', ''metric_query_instructions'', ''metrics'',
     ''query_instructions'', ''replays_query_instructions'', ''source'', ''source_fields'',
     ''applications'', ''chart_alerts'', ''clusters'', ''dashboard_templates'', ''dashboards'',
     ''data_regions'', ''releases'', ''sources'', ''teams'', ''query'']"

definition BETTER_STACK_READ_ONLY_TOOL_NAMES :: "string list" where
  "BETTER_STACK_READ_ONLY_TOOL_NAMES =
    BETTER_STACK_READ_ONLY_UPTIME_TOOL_NAMES @
    BETTER_STACK_READ_ONLY_TELEMETRY_TOOL_NAMES"

definition GRAFANA_READ_ONLY_TOOL_NAMES :: "string list" where
  "GRAFANA_READ_ONLY_TOOL_NAMES =
    [''list_dashboards'', ''search_dashboards'', ''get_dashboard'', ''list_alert_rules'',
     ''get_alert_rule'', ''list_alert_instances'', ''list_data_sources'', ''list_annotations'']"

definition RAILWAY_READ_ONLY_TOOL_NAMES :: "string list" where
  "RAILWAY_READ_ONLY_TOOL_NAMES =
    [''whoami'', ''list-projects'', ''list-services'']"

definition PYLON_READ_ONLY_TOOL_NAMES :: "string list" where
  "PYLON_READ_ONLY_TOOL_NAMES =
    [''search_issues'', ''get_issue'', ''get_issue_messages'', ''search_accounts'',
     ''get_account'']"

definition JIRA_SHARED_TOOL_NAMES :: "string list" where
  "JIRA_SHARED_TOOL_NAMES =
    [''atlassianUserInfo'', ''getAccessibleAtlassianResources'']"

definition JIRA_READ_ONLY_TOOL_NAMES :: "string list" where
  "JIRA_READ_ONLY_TOOL_NAMES =
    JIRA_SHARED_TOOL_NAMES @
    [''getJiraIssue'', ''getJiraIssueRemoteIssueLinks'', ''getJiraIssueTypeMetaWithFields'',
     ''getJiraProjectIssueTypesMetadata'', ''getIssueLinkTypes'',
     ''getTransitionsForJiraIssue'', ''getVisibleJiraProjects'', ''lookupJiraAccountId'',
     ''searchJiraIssuesUsingJql'']"

definition MONDAY_READ_ONLY_TOOL_NAMES :: "string list" where
  "MONDAY_READ_ONLY_TOOL_NAMES =
    [''get_board_info'', ''get_board_items_page'', ''get_board_activity'', ''board_insights'',
     ''get_column_type_info'', ''list_workspaces'', ''workspace_info'', ''read_docs'',
     ''all_widgets_schema'', ''get_form'', ''get_user_context'', ''list_users_and_teams'',
     ''get_updates'', ''search'', ''get_assets'', ''list_automations'', ''plan_workflow'',
     ''agent_catalog'', ''get_notetaker_meetings'', ''get_monday_dev_sprints_boards'',
     ''get_sprints_metadata'', ''get_sprint_summary'', ''get_graphql_schema'',
     ''get_type_details'']"

definition X_READ_ONLY_TOOL_NAMES :: "string list" where
  "X_READ_ONLY_TOOL_NAMES =
    [''search_posts_recent'', ''search_posts_all'', ''get_posts_counts_recent'',
     ''get_posts_counts_all'', ''get_posts_by_id'', ''get_posts_by_ids'',
     ''get_posts_quoted_posts'', ''get_posts_reposted_by'', ''get_posts_reposts'',
     ''get_posts_liking_users'', ''get_users_by_id'', ''get_users_by_ids'',
     ''get_users_by_username'', ''get_users_by_usernames'', ''search_users'',
     ''get_users_posts'', ''get_users_followers'', ''get_users_following'',
     ''get_users_liked_posts'', ''get_users_owned_lists'', ''get_trends_by_woeid'',
     ''get_news'', ''search_news'', ''get_lists_by_id'', ''get_lists_posts'',
     ''get_lists_members'', ''get_lists_followers'', ''get_spaces_by_id'',
     ''get_spaces_by_ids'', ''get_spaces_posts'', ''search_spaces'', ''get_communities_by_id'',
     ''search_communities'', ''get_usage'']"

definition INTEGRATION_MCP_ALLOWED_TOOL_NAMES :: "(string, string list) jsmap" where
  "INTEGRATION_MCP_ALLOWED_TOOL_NAMES =
    [(''betterstack'', BETTER_STACK_READ_ONLY_TOOL_NAMES),
     (''grafana'', GRAFANA_READ_ONLY_TOOL_NAMES),
     (''jira'', JIRA_READ_ONLY_TOOL_NAMES),
     (''monday'', MONDAY_READ_ONLY_TOOL_NAMES),
     (''pylon'', PYLON_READ_ONLY_TOOL_NAMES),
     (''railway'', RAILWAY_READ_ONLY_TOOL_NAMES),
     (''x'', X_READ_ONLY_TOOL_NAMES)]"

record mcp_tool_policy =
  tp_allowed :: "string list option"
  tp_disabled :: "string list option"

definition getAllowedIntegrationMcpToolNames :: "string \<Rightarrow> string list option" where
  "getAllowedIntegrationMcpToolNames integrationId =
     map_of INTEGRATION_MCP_ALLOWED_TOOL_NAMES integrationId"

definition isMcpToolAllowed :: "string \<Rightarrow> mcp_tool_policy \<Rightarrow> bool" where
  "isMcpToolAllowed toolName policy =
     (if (case tp_allowed policy of None \<Rightarrow> False | Some ns \<Rightarrow> toolName \<notin> set ns) then False
      else toolName \<notin> set (nullish_or (tp_disabled policy) []))"

text \<open>A tool definition is anything with a name, which \<open>name_of\<close> reads.\<close>

definition filterMcpToolDefinitions ::
    "('t \<Rightarrow> string) \<Rightarrow> 't list \<Rightarrow> mcp_tool_policy \<Rightarrow> 't list" where
  "filterMcpToolDefinitions name_of tools policy =
     filter (\<lambda>tool. isMcpToolAllowed (name_of tool) policy) tools"

definition getEffectiveAllowedMcpToolNames :: "mcp_tool_policy \<Rightarrow> string list option" where
  "getEffectiveAllowedMcpToolNames policy =
     (case tp_allowed policy of
        None \<Rightarrow> None
      | Some names \<Rightarrow> Some (filterMcpToolDefinitions (\<lambda>name. name) names policy))"

lemma isMcpToolAllowed_iff:
  "isMcpToolAllowed n p \<longleftrightarrow>
     (\<forall>ns. tp_allowed p = Some ns \<longrightarrow> n \<in> set ns) \<and> n \<notin> set (nullish_or (tp_disabled p) [])"
  by (auto simp: isMcpToolAllowed_def split: option.split)

lemma disabled_mono:
  "set (nullish_or d []) \<subseteq> set (nullish_or d' []) \<Longrightarrow>
   isMcpToolAllowed n \<lparr>tp_allowed = a, tp_disabled = d'\<rparr> \<Longrightarrow>
   isMcpToolAllowed n \<lparr>tp_allowed = a, tp_disabled = d\<rparr>"
  by (auto simp: isMcpToolAllowed_iff)

text \<open>The effective allow list is a faithful summary of the policy: asking it is the same as
  asking the policy, filtering by the policy twice is filtering once, a policy whose allow list
  is its own effective list allows the same tools, and disabling further tools never allows one
  that was not allowed.\<close>

theorem effective_allow_list:
  "(isMcpToolAllowed n p \<longleftrightarrow>
      (case getEffectiveAllowedMcpToolNames p of
         None \<Rightarrow> n \<notin> set (nullish_or (tp_disabled p) [])
       | Some ns \<Rightarrow> n \<in> set ns)) \<and>
   filterMcpToolDefinitions f (filterMcpToolDefinitions f ts p) p =
     filterMcpToolDefinitions f ts p \<and>
   (isMcpToolAllowed n (p\<lparr>tp_allowed := getEffectiveAllowedMcpToolNames p\<rparr>) \<longleftrightarrow>
      isMcpToolAllowed n p) \<and>
   {t. isMcpToolAllowed t (p\<lparr>tp_disabled := Some (nullish_or (tp_disabled p) [] @ extra)\<rparr>)} =
     {t. isMcpToolAllowed t p} - set extra"
  by (cases p) (auto simp: isMcpToolAllowed_iff getEffectiveAllowedMcpToolNames_def
      filterMcpToolDefinitions_def split: option.splits)

text \<open>The built-in allow lists name each tool once and each integration once, no integration
  has an empty list, and an integration that has none (Sentry, any unknown id) is filtered by
  its disabled tools alone.\<close>

theorem builtin_allow_lists:
  "jsmap_ok INTEGRATION_MCP_ALLOWED_TOOL_NAMES \<and>
   list_all (\<lambda>(i, ns). ns \<noteq> [] \<and> distinct ns) INTEGRATION_MCP_ALLOWED_TOOL_NAMES \<and>
   getAllowedIntegrationMcpToolNames ''sentry'' = None \<and>
   isMcpToolAllowed n
     \<lparr>tp_allowed = getAllowedIntegrationMcpToolNames ''sentry'', tp_disabled = Some ds\<rparr> =
     (n \<notin> set ds)"
proof -
  have "list_all (\<lambda>(i, ns). ns \<noteq> [] \<and> distinct ns) INTEGRATION_MCP_ALLOWED_TOOL_NAMES"
    by code_simp
  then show ?thesis
    by (simp add: jsmap_ok_def INTEGRATION_MCP_ALLOWED_TOOL_NAMES_def
        getAllowedIntegrationMcpToolNames_def isMcpToolAllowed_def)
qed

end
