(* ===== verification/ToolApprovals.thy ===== *)
theory ToolApprovals
  imports Prelude
begin

section \<open>Approval of integration tools\<close>

text \<open>
  \<open>packages/types/src/integration-tool-approvals.ts\<close>: the approval modes, how the deployment's and
  a user's policies combine, the mode a tool runs under in a session, the callback data of the
  approval buttons, and the native permission rules compiled for a task. The composite key of a
  policy, which the code builds with \<open>JSON.stringify\<close> so that distinct pairs never collide, is
  the pair itself.
\<close>

subsection \<open>Modes\<close>

datatype policy_mode = ModeAllow | ModeAlwaysAllow | ModeAsk | ModeReject

datatype override_mode = OverrideAllow | OverrideAsk

datatype approval_status =
    ApPending | ApApproved | ApRejected | ApExpired | ApConsumed | ApCancelled
  | ApAutoApproved | ApAutoRejected

fun INTEGRATION_TOOL_POLICY_MODE_STRICTNESS :: "policy_mode \<Rightarrow> nat" where
  "INTEGRATION_TOOL_POLICY_MODE_STRICTNESS ModeAlwaysAllow = 0"
| "INTEGRATION_TOOL_POLICY_MODE_STRICTNESS ModeAllow = 0"
| "INTEGRATION_TOOL_POLICY_MODE_STRICTNESS ModeAsk = 1"
| "INTEGRATION_TOOL_POLICY_MODE_STRICTNESS ModeReject = 2"

abbreviation strictness :: "policy_mode \<Rightarrow> nat" where
  "strictness \<equiv> INTEGRATION_TOOL_POLICY_MODE_STRICTNESS"

fun resolveStricterIntegrationToolPolicyMode ::
    "policy_mode option \<Rightarrow> policy_mode option \<Rightarrow> policy_mode option" where
  "resolveStricterIntegrationToolPolicyMode None userMode = userMode"
| "resolveStricterIntegrationToolPolicyMode (Some d) None = Some d"
| "resolveStricterIntegrationToolPolicyMode (Some d) (Some u) =
     (if strictness u > strictness d then Some u else Some d)"

fun override_policy :: "override_mode \<Rightarrow> policy_mode" where
  "override_policy OverrideAllow = ModeAllow"
| "override_policy OverrideAsk = ModeAsk"

definition resolveEffectiveIntegrationToolMode ::
    "policy_mode option \<Rightarrow> override_mode option \<Rightarrow> policy_mode" where
  "resolveEffectiveIntegrationToolMode policyMode sessionOverrideMode =
     (if policyMode = Some ModeReject then ModeReject
      else nullish_or (nullish (map_option override_policy sessionOverrideMode) policyMode)
             ModeAllow)"

definition integrationToolModeIsAutoAssessed ::
    "policy_mode option \<Rightarrow> override_mode option \<Rightarrow> bool" where
  "integrationToolModeIsAutoAssessed policyMode sessionOverrideMode \<longleftrightarrow>
     policyMode = None \<and> sessionOverrideMode = None"

subsection \<open>Combining the layers\<close>

record policy_entry =
  pe_integrationId :: string
  pe_toolName :: string
  pe_mode :: policy_mode

datatype policy_scope = Deployment | Personal

type_synonym tool_key = "string \<times> string"

definition integrationToolPolicyKey :: "string \<Rightarrow> string \<Rightarrow> tool_key" where
  "integrationToolPolicyKey integrationId toolName = (integrationId, toolName)"

definition entry_key :: "policy_entry \<Rightarrow> tool_key" where
  "entry_key e = integrationToolPolicyKey (pe_integrationId e) (pe_toolName e)"

definition govern_entry ::
    "(string \<Rightarrow> policy_scope option) \<Rightarrow> policy_scope \<times> policy_entry
     \<Rightarrow> (tool_key, policy_entry) jsmap \<Rightarrow> (tool_key, policy_entry) jsmap" where
  "govern_entry scopeOf le governing =
     (case le of (layer, policy) \<Rightarrow>
        if nullish_or (scopeOf (pe_integrationId policy)) layer \<noteq> layer then governing
        else let key = entry_key policy;
                 mode = resolveStricterIntegrationToolPolicyMode
                          (map_option pe_mode (map_of governing key)) (Some (pe_mode policy))
             in if mode = Some (pe_mode policy) then AList.update key policy governing
                else governing)"

definition resolveGoverningIntegrationToolPolicies ::
    "policy_entry list \<Rightarrow> policy_entry list \<Rightarrow> (string \<Rightarrow> policy_scope option)
     \<Rightarrow> policy_entry list" where
  "resolveGoverningIntegrationToolPolicies deploymentPolicies userPolicies scopeOf =
     map snd (fold (govern_entry scopeOf)
       (map (Pair Deployment) deploymentPolicies @ map (Pair Personal) userPolicies) [])"

text \<open>The entries that govern a tool: of its key, in a layer its integration takes.\<close>

definition governs ::
    "(string \<Rightarrow> policy_scope option) \<Rightarrow> policy_scope \<times> policy_entry \<Rightarrow> tool_key \<Rightarrow> bool" where
  "governs scopeOf le k \<longleftrightarrow>
     entry_key (snd le) = k \<and> scopeOf (pe_integrationId (snd le)) \<in> {None, Some (fst le)}"

text \<open>
  What the map knows of a key after some layered entries: nothing when none governs it, else a
  governing entry of the greatest strictness.
\<close>

definition strictest ::
    "(string \<Rightarrow> policy_scope option) \<Rightarrow> (policy_scope \<times> policy_entry) list \<Rightarrow> tool_key
     \<Rightarrow> policy_entry option \<Rightarrow> bool" where
  "strictest scopeOf les k res \<longleftrightarrow>
     (case res of
        None \<Rightarrow> \<forall>le \<in> set les. \<not> governs scopeOf le k
      | Some e \<Rightarrow> (\<exists>le \<in> set les. governs scopeOf le k \<and> snd le = e) \<and>
          (\<forall>le \<in> set les. governs scopeOf le k \<longrightarrow> strictness (pe_mode (snd le)) \<le> strictness (pe_mode e)))"

lemma stricter_mode:
  "resolveStricterIntegrationToolPolicyMode (Some d) (Some u) = Some u \<longleftrightarrow>
     strictness d < strictness u \<or> u = d"
  by auto

lemma strictest_step:
  assumes "strictest scopeOf les k (map_of m k)"
  shows "strictest scopeOf (les @ [le]) k (map_of (govern_entry scopeOf le m) k)"
proof (cases "governs scopeOf le k")
  case True
  obtain layer e where le: "le = (layer, e)" by (cases le)
  have g: "nullish_or (scopeOf (pe_integrationId e)) layer = layer" "entry_key e = k"
    using True le by (auto simp: governs_def)
  show ?thesis
  proof (cases "map_of m k")
    case None
    then show ?thesis
      using assms True le g
      by (auto simp: govern_entry_def strictest_def update_conv')
  next
    case (Some d)
    show ?thesis
    proof (cases "strictness (pe_mode d) < strictness (pe_mode e) \<or> pe_mode e = pe_mode d")
      case upd: True
      then show ?thesis
        using assms Some True le g
        by (fastforce simp: govern_entry_def strictest_def update_conv' stricter_mode Let_def)
    next
      case False
      then show ?thesis
        using assms Some True le g
        by (simp add: govern_entry_def stricter_mode) (auto simp: strictest_def)
    qed
  qed
next
  case False
  then have "map_of (govern_entry scopeOf le m) k = map_of m k"
    by (cases le; cases "scopeOf (pe_integrationId (snd le))")
      (auto simp: govern_entry_def governs_def update_conv' Let_def)
  then show ?thesis
    using assms False by (auto simp: strictest_def split: option.splits)
qed

lemma strictest_fold:
  "strictest scopeOf les k (map_of (fold (govern_entry scopeOf) les []) k)"
proof (induction les rule: rev_induct)
  case Nil
  then show ?case by (simp add: strictest_def)
next
  case (snoc le les)
  then show ?case using strictest_step by simp
qed

lemma governing_ok: "jsmap_ok m \<Longrightarrow> jsmap_ok (fold (govern_entry scopeOf) les m)"
  by (induction les arbitrary: m) (auto simp: govern_entry_def Let_def split: prod.split)

lemma governing_keys:
  "(\<forall>(k, e) \<in> set m. entry_key e = k) \<Longrightarrow>
   (\<forall>(k, e) \<in> set (fold (govern_entry scopeOf) les m). entry_key e = k)"
proof (induction les arbitrary: m)
  case (Cons le les)
  have "\<forall>(k, e) \<in> set (govern_entry scopeOf le m). entry_key e = k"
    using Cons.prems set_alist_update [of "entry_key (snd le)" "snd le" m]
    by (auto simp: govern_entry_def Let_def split: prod.splits if_splits)
  then show ?case using Cons.IH by simp
qed simp

lemma in_governing_iff:
  "e \<in> set (resolveGoverningIntegrationToolPolicies ds us scopeOf) \<longleftrightarrow>
   map_of (fold (govern_entry scopeOf) (map (Pair Deployment) ds @ map (Pair Personal) us) [])
     (entry_key e) = Some e"
proof -
  let ?m = "fold (govern_entry scopeOf) (map (Pair Deployment) ds @ map (Pair Personal) us) []"
  have ok: "jsmap_ok ?m" by (rule governing_ok) simp
  have keys: "\<forall>(k, e) \<in> set ?m. entry_key e = k" by (rule governing_keys) simp
  have "e \<in> set (map snd ?m) \<longleftrightarrow> (entry_key e, e) \<in> set ?m"
    using keys by force
  then show ?thesis
    using jsmap_values_iff [OF ok] by (simp add: resolveGoverningIntegrationToolPolicies_def)
qed

text \<open>Policy layers combine to the strictest governing mode: a tool has a governing policy
  exactly when some entry for it sits in a layer its integration takes, that policy is one of
  those entries and no other governing entry is stricter (so a personal policy can only
  tighten), and there is only one per tool; an entry in a layer its integration does not take
  never appears.\<close>

theorem governing_policies_are_the_strictest:
  "(let les = map (Pair Deployment) ds @ map (Pair Personal) us;
        result = resolveGoverningIntegrationToolPolicies ds us scopeOf in
     distinct (map entry_key result) \<and>
     entry_key ` set result = {k. \<exists>le \<in> set les. governs scopeOf le k} \<and>
     list_all (\<lambda>e. Max ((strictness \<circ> pe_mode \<circ> snd) `
         {le \<in> set les. governs scopeOf le (entry_key e)}) = strictness (pe_mode e) \<and>
       (\<exists>le \<in> set les. snd le = e \<and> governs scopeOf le (entry_key e))) result)"
proof -
  let ?les = "map (Pair Deployment) ds @ map (Pair Personal) us"
  let ?m = "fold (govern_entry scopeOf) ?les []"
  let ?result = "resolveGoverningIntegrationToolPolicies ds us scopeOf"
  have keys: "\<forall>(k, e) \<in> set ?m. entry_key e = k" by (rule governing_keys) simp
  then have "map entry_key ?result = map fst ?m"
    by (auto simp: resolveGoverningIntegrationToolPolicies_def)
  moreover have "distinct (map fst ?m)"
    using governing_ok [of "[]" scopeOf ?les] by (simp add: jsmap_ok_def)
  moreover have "set (map fst ?m) = {k. \<exists>le \<in> set ?les. governs scopeOf le k}"
  proof (intro set_eqI)
    fix k
    have "k \<in> set (map fst ?m) \<longleftrightarrow> map_of ?m k \<noteq> None"
      by (simp add: map_of_eq_None_iff)
    also have "\<dots> \<longleftrightarrow> (\<exists>le \<in> set ?les. governs scopeOf le k)"
      using strictest_fold [of scopeOf ?les k]
      by (cases "map_of ?m k") (auto simp: strictest_def)
    finally show "k \<in> set (map fst ?m) \<longleftrightarrow> k \<in> {k. \<exists>le \<in> set ?les. governs scopeOf le k}"
      by simp
  qed
  moreover have "Max ((strictness \<circ> pe_mode \<circ> snd) `
         {le \<in> set ?les. governs scopeOf le (entry_key e)}) = strictness (pe_mode e) \<and>
       (\<exists>le \<in> set ?les. snd le = e \<and> governs scopeOf le (entry_key e))"
    if "e \<in> set ?result" for e
  proof -
    have s: "strictest scopeOf ?les (entry_key e) (Some e)"
      using that strictest_fold [of scopeOf ?les "entry_key e"] by (simp add: in_governing_iff)
    then obtain le where le: "le \<in> set ?les" "governs scopeOf le (entry_key e)" "snd le = e"
      by (auto simp: strictest_def)
    have "Max ((strictness \<circ> pe_mode \<circ> snd) `
         {le \<in> set ?les. governs scopeOf le (entry_key e)}) = strictness (pe_mode e)"
      using s le by (intro Max_eqI) (auto simp: strictest_def simp del: set_append set_map)
    then show ?thesis using le by blast
  qed
  ultimately show ?thesis
    by (simp add: Let_def list_all_iff flip: set_map del: set_append)
qed

subsection \<open>The mode a tool runs under\<close>

text \<open>A deployment or personal reject is a ceiling no session override loosens; below it the
  session's choice wins over the policy and the policy over the default; and Auto mode assesses
  a call only when nobody has made a choice about the tool, which then runs as allowed.\<close>

theorem effective_mode:
  "(resolveEffectiveIntegrationToolMode p ov = ModeReject \<longleftrightarrow> p = Some ModeReject) \<and>
   (if p = Some ModeReject then True
    else resolveEffectiveIntegrationToolMode p ov =
      (case ov of Some OverrideAllow \<Rightarrow> ModeAllow | Some OverrideAsk \<Rightarrow> ModeAsk
       | None \<Rightarrow> (case p of Some m \<Rightarrow> m | None \<Rightarrow> ModeAllow))) \<and>
   (integrationToolModeIsAutoAssessed p ov \<longleftrightarrow> p = None \<and> ov = None) \<and>
   strictness (resolveEffectiveIntegrationToolMode
       (resolveStricterIntegrationToolPolicyMode d u) None) =
     max (strictness (nullish_or d ModeAllow)) (strictness (nullish_or u ModeAllow))"
  by (cases p; cases ov; cases "the ov"; cases d; cases u; cases "the d"; cases "the u")
    (auto simp: resolveEffectiveIntegrationToolMode_def integrationToolModeIsAutoAssessed_def)

subsection \<open>Callback data\<close>

datatype approval_decision = DecApproved | DecApprovedForSession | DecRejected

fun decision_code :: "approval_decision \<Rightarrow> string" where
  "decision_code DecApproved = ''o''"
| "decision_code DecApprovedForSession = ''s''"
| "decision_code DecRejected = ''d''"

definition buildIntegrationToolApprovalCallback :: "string \<Rightarrow> approval_decision \<Rightarrow> string" where
  "buildIntegrationToolApprovalCallback approvalId decision =
     ''ita:'' @ approvalId @ '':'' @ decision_code decision"

text \<open>The pattern ignores case; a hexadecimal digit and the groups of a GUID.\<close>

definition hex_char :: "char \<Rightarrow> bool" where
  "hex_char c \<longleftrightarrow> is_digit c \<or> lower_char c \<in> set ''abcdef''"

definition guid_shape :: "string \<Rightarrow> bool" where
  "guid_shape s \<longleftrightarrow> length s = 36 \<and>
     (\<forall>i < 36. if i \<in> {8, 13, 18, 23} then s ! i = CHR ''-'' else hex_char (s ! i))"

definition parseIntegrationToolApprovalCallback ::
    "string option \<Rightarrow> (string \<times> approval_decision) option" where
  "parseIntegrationToolApprovalCallback value =
     (let v = nullish_or value []; approvalId = take 36 (drop 4 v);
          code = to_lower (drop 41 v)
      in if length v = 42 \<and> to_lower (take 4 v) = ''ita:'' \<and> guid_shape approvalId
            \<and> v ! 40 = CHR '':'' \<and> code \<in> {''o'', ''s'', ''d''}
         then Some (approvalId,
           if code = ''o'' then DecApproved
           else if code = ''s'' then DecApprovedForSession else DecRejected)
         else None)"

definition integrationToolApprovalButtons :: "string \<Rightarrow> (string \<times> string) list list" where
  "integrationToolApprovalButtons approvalId =
     [[(''Allow once'', buildIntegrationToolApprovalCallback approvalId DecApproved),
       (''Allow for session'',
        buildIntegrationToolApprovalCallback approvalId DecApprovedForSession),
       (''Deny'', buildIntegrationToolApprovalCallback approvalId DecRejected)]]"

lemma decision_code_length: "length (decision_code d) = 1"
  by (cases d) simp_all

lemma lower_decision_code [simp]: "to_lower (decision_code d) = decision_code d"
  by (cases d) (simp_all add: to_lower_def lower_char_def Let_def)

lemma built_callback:
  assumes "length i = 36"
  shows "length (buildIntegrationToolApprovalCallback i d) = 42"
    and "take 4 (buildIntegrationToolApprovalCallback i d) = ''ita:''"
    and "take 36 (drop 4 (buildIntegrationToolApprovalCallback i d)) = i"
    and "buildIntegrationToolApprovalCallback i d ! 40 = CHR '':''"
    and "drop 41 (buildIntegrationToolApprovalCallback i d) = decision_code d"
  using assms
  by (simp_all add: buildIntegrationToolApprovalCallback_def decision_code_length nth_append
      numeral_eq_Suc)

text \<open>The callback of a button is read back as the approval and the decision it was built from,
  it fits the 64 bytes Telegram allows, distinct decisions have distinct callbacks, and whatever
  is read back is, up to letter case, the callback of what was read.\<close>

theorem approval_callback_round_trip:
  assumes "guid_shape i" "parseIntegrationToolApprovalCallback (Some v) = Some (j, e)"
  shows "parseIntegrationToolApprovalCallback (Some (buildIntegrationToolApprovalCallback i d)) =
      Some (i, d) \<and>
    length (buildIntegrationToolApprovalCallback i d) \<le> 64 \<and>
    distinct (map snd (concat (integrationToolApprovalButtons i))) \<and>
    to_lower v = to_lower (buildIntegrationToolApprovalCallback j e) \<and> guid_shape j"
proof -
  have len: "length i = 36" using assms(1) by (simp add: guid_shape_def)
  have low: "to_lower ''ita:'' = ''ita:''" "to_lower ''o'' = ''o''" "to_lower ''s'' = ''s''"
      "to_lower ''d'' = ''d''"
    by (simp_all add: to_lower_def lower_char_def Let_def)
  have parse: "parseIntegrationToolApprovalCallback
      (Some (buildIntegrationToolApprovalCallback i d)) = Some (i, d)"
    using assms(1)
    by (cases d) (simp_all add: parseIntegrationToolApprovalCallback_def Let_def low
        built_callback [OF len])
  have v: "length v = 42" "to_lower (take 4 v) = ''ita:''" "take 36 (drop 4 v) = j"
      "v ! 40 = CHR '':''" "to_lower (drop 41 v) = decision_code e" "guid_shape j"
    using assms(2)
    by (auto simp: parseIntegrationToolApprovalCallback_def Let_def split: if_splits)
  have "drop 40 v = v ! 40 # drop 41 v"
    using Cons_nth_drop_Suc [of 40 v] v(1) by simp
  then have "v = take 4 v @ take 36 (drop 4 v) @ v ! 40 # drop 41 v"
    using append_take_drop_id [of 4 v] append_take_drop_id [of 36 "drop 4 v"] by simp
  then have "v = take 4 v @ j @ CHR '':'' # drop 41 v"
    using v(3,4) by simp
  moreover have "to_lower (take 4 v @ j @ CHR '':'' # drop 41 v) =
      to_lower ''ita:'' @ to_lower j @ to_lower '':'' @ to_lower (decision_code e)"
    using v(2,5) low lower_decision_code [of e] by (simp add: to_lower_def)
  ultimately have "to_lower v = to_lower (buildIntegrationToolApprovalCallback j e)"
    by (simp add: buildIntegrationToolApprovalCallback_def to_lower_def)
  then show ?thesis
    using parse v(6) built_callback(1) [OF len]
    by (simp add: integrationToolApprovalButtons_def buildIntegrationToolApprovalCallback_def)
qed

definition example_guid :: string where
  "example_guid = ''0123abcd-0123-0123-0123-0123456789ab''"

theorem approval_callback_round_trip_witness:
  "parseIntegrationToolApprovalCallback
     (Some (buildIntegrationToolApprovalCallback example_guid DecRejected)) =
   Some (example_guid, DecRejected)"
proof -
  have "guid_shape example_guid" by code_simp
  moreover have "parseIntegrationToolApprovalCallback
      (Some ''ITA:0123abcd-0123-0123-0123-0123456789ab:S'') =
      Some (example_guid, DecApprovedForSession)"
    by code_simp
  ultimately show ?thesis using approval_callback_round_trip by blast
qed

subsection \<open>Native permission rules of a task\<close>

datatype native_action = NativeAllow | NativeAsk | NativeDeny

record override_entry =
  oe_integrationId :: string
  oe_toolName :: string
  oe_mode :: override_mode

record task_approvals =
  ta_permission :: "(string, native_action) jsmap"
  ta_tools :: "(string, tool_key) jsmap"
  ta_autoServers :: "string list"

definition word_char :: "char \<Rightarrow> bool" where
  "word_char c \<longleftrightarrow> (let n = of_char c :: nat in 97 \<le> n \<and> n \<le> 122 \<or> 65 \<le> n \<and> n \<le> 90
     \<or> 48 \<le> n \<and> n \<le> 57 \<or> n = 95 \<or> n = 45)"

definition sanitize :: "string \<Rightarrow> string" where
  "sanitize s = map (\<lambda>c. if word_char c then c else CHR ''_'') s"

definition openCodeMcpToolKey :: "string \<Rightarrow> string \<Rightarrow> string" where
  "openCodeMcpToolKey serverName toolName = sanitize serverName @ ''_'' @ sanitize toolName"

text \<open>\<open>new Map(entries)\<close>: a later entry of a key replaces the earlier value.\<close>

definition map_from :: "('k \<times> 'v) list \<Rightarrow> ('k, 'v) jsmap" where
  "map_from kvs = fold (\<lambda>kv m. AList.update (fst kv) (snd kv) m) kvs []"

definition native_action_of ::
    "bool \<Rightarrow> policy_mode option \<Rightarrow> override_mode option \<Rightarrow> native_action option" where
  "native_action_of autoOn policyMode overrideMode =
     (let mode = resolveEffectiveIntegrationToolMode policyMode overrideMode
      in if mode = ModeReject then Some NativeDeny
         else if mode = ModeAsk \<or> policyMode = Some ModeAsk then Some NativeAsk
         else if autoOn then Some NativeAllow
         else None)"

record compile_state =
  cs_permission :: "(string, native_action) jsmap"
  cs_tools :: "(string, tool_key) jsmap"
  cs_ambiguous :: "string list"

text \<open>One iteration of the loop over the policies and overrides.\<close>

definition compile_entry ::
    "(tool_key \<Rightarrow> native_action option) \<Rightarrow> string list \<Rightarrow> tool_key \<Rightarrow> compile_state
     \<Rightarrow> compile_state" where
  "compile_entry action_of mounted tool st =
     (if fst tool \<notin> set mounted then st
      else (case action_of tool of
              None \<Rightarrow> st
            | Some action \<Rightarrow>
                (let key = openCodeMcpToolKey (fst tool) (snd tool);
                     ambiguous =
                       (case map_of (cs_tools st) key of
                          Some known \<Rightarrow>
                            if known \<noteq> tool then List.insert key (cs_ambiguous st)
                            else cs_ambiguous st
                        | None \<Rightarrow> cs_ambiguous st)
                 in \<lparr>cs_permission =
                       (if map_of (cs_permission st) key \<noteq> Some NativeDeny
                        then AList.update key action (cs_permission st) else cs_permission st),
                     cs_tools = AList.update key tool (cs_tools st),
                     cs_ambiguous = ambiguous\<rparr>)))"

definition wildcard_key :: "string \<Rightarrow> string" where
  "wildcard_key serverName = openCodeMcpToolKey serverName [] @ ''*''"

definition tool_actions ::
    "policy_entry list \<Rightarrow> override_entry list \<Rightarrow> bool \<Rightarrow> tool_key \<Rightarrow> native_action option" where
  "tool_actions policies sessionOverrides autoOn tool =
     (let policyModes = map_from (map (\<lambda>p. (entry_key p, pe_mode p)) policies);
          overrideModes = map_from (map (\<lambda>ov. (integrationToolPolicyKey (oe_integrationId ov)
            (oe_toolName ov), oe_mode ov)) sessionOverrides)
      in native_action_of autoOn (map_of policyModes tool) (map_of overrideModes tool))"

definition listed_tools :: "policy_entry list \<Rightarrow> override_entry list \<Rightarrow> tool_key list" where
  "listed_tools policies sessionOverrides =
     map (\<lambda>p. (pe_integrationId p, pe_toolName p)) policies @
     map (\<lambda>ov. (oe_integrationId ov, oe_toolName ov)) sessionOverrides"

definition compileTaskIntegrationToolApprovals ::
    "string list \<Rightarrow> policy_entry list \<Rightarrow> override_entry list \<Rightarrow> bool \<Rightarrow> task_approvals" where
  "compileTaskIntegrationToolApprovals serverNames policies sessionOverrides autoOn =
     (let wildcards =
            (if autoOn
             then fold (\<lambda>s. AList.update (wildcard_key s) NativeAsk) serverNames []
             else []);
          st = fold (compile_entry (tool_actions policies sessionOverrides autoOn) serverNames)
                 (listed_tools policies sessionOverrides)
                 \<lparr>cs_permission = wildcards, cs_tools = [], cs_ambiguous = []\<rparr>
      in \<lparr>ta_permission =
            fold (\<lambda>key. AList.update key NativeDeny) (cs_ambiguous st) (cs_permission st),
          ta_tools = fold AList.delete (cs_ambiguous st) (cs_tools st),
          ta_autoServers = (if autoOn then serverNames else [])\<rparr>)"

subsubsection \<open>The loop's invariant\<close>

text \<open>
  The tools of \<open>ts\<close> that emit a rule under a native key, and what the loop knows after \<open>ts\<close>: a
  key with one emitting tool has that tool's action, a key with several is ambiguous, and every
  other key is as it was.
\<close>

definition emitting ::
    "(tool_key \<Rightarrow> native_action option) \<Rightarrow> string list \<Rightarrow> tool_key list \<Rightarrow> string
     \<Rightarrow> tool_key set" where
  "emitting action_of mounted ts key =
     {t \<in> set ts. fst t \<in> set mounted \<and> action_of t \<noteq> None \<and>
        openCodeMcpToolKey (fst t) (snd t) = key}"

definition compiled ::
    "(tool_key \<Rightarrow> native_action option) \<Rightarrow> string list \<Rightarrow> tool_key list \<Rightarrow>
     (string \<Rightarrow> native_action option) \<Rightarrow> string \<Rightarrow> compile_state \<Rightarrow> bool" where
  "compiled action_of mounted ts init key st \<longleftrightarrow>
     (let E = emitting action_of mounted ts key in
      (key \<in> set (cs_ambiguous st) \<longleftrightarrow> (\<exists>a \<in> E. \<exists>b \<in> E. a \<noteq> b)) \<and>
      (map_of (cs_tools st) key = None \<longleftrightarrow> E = {}) \<and>
      (\<forall>t. map_of (cs_tools st) key = Some t \<longrightarrow> t \<in> E) \<and>
      (E = {} \<longrightarrow> map_of (cs_permission st) key = init key) \<and>
      (\<forall>t. E = {t} \<longrightarrow> map_of (cs_permission st) key = action_of t))"

lemma emitting_snoc:
  "emitting act mounted (ts @ [t]) key =
     (if fst t \<in> set mounted \<and> act t \<noteq> None \<and> openCodeMcpToolKey (fst t) (snd t) = key
      then insert t (emitting act mounted ts key) else emitting act mounted ts key)"
  by (auto simp: emitting_def)

lemma compile_other_key:
  assumes "\<not> (fst t \<in> set mounted \<and> act t \<noteq> None \<and> openCodeMcpToolKey (fst t) (snd t) = key)"
  shows "map_of (cs_permission (compile_entry act mounted t st)) key =
      map_of (cs_permission st) key"
    and "map_of (cs_tools (compile_entry act mounted t st)) key = map_of (cs_tools st) key"
    and "key \<in> set (cs_ambiguous (compile_entry act mounted t st)) \<longleftrightarrow>
      key \<in> set (cs_ambiguous st)"
  using assms
  by (auto simp: compile_entry_def Let_def update_conv' split: option.split)

lemma compile_this_key:
  assumes "fst t \<in> set mounted" "act t = Some action" "openCodeMcpToolKey (fst t) (snd t) = key"
  shows "map_of (cs_permission (compile_entry act mounted t st)) key =
      (if map_of (cs_permission st) key = Some NativeDeny then Some NativeDeny else Some action)"
    and "map_of (cs_tools (compile_entry act mounted t st)) key = Some t"
    and "key \<in> set (cs_ambiguous (compile_entry act mounted t st)) \<longleftrightarrow>
      key \<in> set (cs_ambiguous st) \<or>
      (\<exists>known. map_of (cs_tools st) key = Some known \<and> known \<noteq> t)"
  using assms
  by (auto simp: compile_entry_def Let_def update_conv' split: option.split)

lemma compiled_step:
  assumes "compiled act mounted ts init key st" "init key \<noteq> Some NativeDeny"
  shows "compiled act mounted (ts @ [t]) init key (compile_entry act mounted t st)"
proof (cases "fst t \<in> set mounted \<and> act t \<noteq> None \<and> openCodeMcpToolKey (fst t) (snd t) = key")
  case False
  then have "emitting act mounted (ts @ [t]) key = emitting act mounted ts key"
    unfolding emitting_snoc by (rule if_not_P)
  then show ?thesis
    using assms(1) compile_other_key [where act = act and mounted = mounted and t = t and key = key and st = st, OF False] unfolding compiled_def Let_def by simp
next
  case True
  then obtain action where t: "fst t \<in> set mounted" "act t = Some action"
      "openCodeMcpToolKey (fst t) (snd t) = key"
    by auto
  define E where "E = emitting act mounted ts key"
  have E': "emitting act mounted (ts @ [t]) key = insert t E"
    using True by (simp add: emitting_snoc E_def)
  have inv: "key \<in> set (cs_ambiguous st) \<longleftrightarrow> (\<exists>a \<in> E. \<exists>b \<in> E. a \<noteq> b)"
      "map_of (cs_tools st) key = None \<longleftrightarrow> E = {}"
      "\<And>t. map_of (cs_tools st) key = Some t \<Longrightarrow> t \<in> E"
      "E = {} \<Longrightarrow> map_of (cs_permission st) key = init key"
      "\<And>t. E = {t} \<Longrightarrow> map_of (cs_permission st) key = act t"
    using assms(1) unfolding compiled_def Let_def E_def by blast+
  note this_key = compile_this_key [where act = act and st = st, OF t]
  have "key \<in> set (cs_ambiguous (compile_entry act mounted t st)) \<longleftrightarrow>
      (\<exists>a \<in> insert t E. \<exists>b \<in> insert t E. a \<noteq> b)"
  proof (cases "map_of (cs_tools st) key")
    case None
    then show ?thesis using inv(1,2) this_key(3) by simp
  next
    case (Some known)
    then have "key \<in> set (cs_ambiguous (compile_entry act mounted t st)) \<longleftrightarrow>
        (\<exists>a \<in> E. \<exists>b \<in> E. a \<noteq> b) \<or> known \<noteq> t"
      using inv(1) this_key(3) by simp
    then show ?thesis using inv(3) [OF Some] by blast
  qed
  moreover have "map_of (cs_permission (compile_entry act mounted t st)) key = act t'"
    if "insert t E = {t'}" for t'
  proof -
    have "E = {} \<or> E = {t}" and t': "t' = t" using that by auto
    then have "map_of (cs_permission st) key \<noteq> Some NativeDeny \<or> act t = Some NativeDeny"
      using inv(4) inv(5) [of t] assms(2) by metis
    then show ?thesis using this_key(1) t(2) t' by auto
  qed
  ultimately show ?thesis
    using this_key(2) unfolding compiled_def Let_def E'
    by (simp del: split_paired_All split_paired_Ex)
qed

lemma compiled_fold:
  assumes "init key \<noteq> Some NativeDeny" "map_of (cs_permission st) key = init key"
    "cs_tools st = []" "cs_ambiguous st = []"
  shows "compiled act mounted ts init key (fold (compile_entry act mounted) ts st)"
proof (induction ts rule: rev_induct)
  case Nil
  then show ?case using assms by (simp add: compiled_def emitting_def)
next
  case (snoc t ts)
  then show ?case using compiled_step assms(1) by simp
qed

lemma map_of_fold_update:
  "map_of (fold (\<lambda>k. AList.update k v) ks m) k = (if k \<in> set ks then Some v else map_of m k)"
  by (induction ks arbitrary: m) (auto simp: update_conv')

lemma map_of_fold_delete:
  "map_of (fold AList.delete ks m) k = (if k \<in> set ks then None else map_of m k)"
  by (induction ks arbitrary: m) (auto simp: delete_conv')

lemma map_of_fold_wildcards:
  "map_of (fold (\<lambda>s. AList.update (wildcard_key s) v) ss m) k =
     (if k \<in> wildcard_key ` set ss then Some v else map_of m k)"
  by (induction ss arbitrary: m) (auto simp: update_conv')

text \<open>A wildcard is never the key of a tool.\<close>

lemma wildcard_is_no_tool_key: "openCodeMcpToolKey s t \<noteq> wildcard_key s'"
proof
  assume "openCodeMcpToolKey s t = wildcard_key s'"
  then have "CHR ''*'' \<in> set (openCodeMcpToolKey s t)"
    by (simp add: wildcard_key_def)
  moreover have "\<not> word_char (CHR ''*'')" by (simp add: word_char_def)
  ultimately show False by (auto simp: openCodeMcpToolKey_def sanitize_def split: if_splits)
qed

text \<open>C24: The compiled rules are exactly the emitting tools, by native key: a key of one emitting
  tool carries that tool's action and, as its name, that tool; a key that several emitting tools
  flatten to is denied and names no tool; a server's wildcard asks exactly under Auto; and no
  other key has a rule. In particular a rejected tool of a mounted server is always denied.\<close>

theorem compiled_rules_are_the_emitting_tools:
  "(let out = compileTaskIntegrationToolApprovals servers policies overrides autoOn;
        act = tool_actions policies overrides autoOn;
        E = emitting act servers (listed_tools policies overrides) key in
     (if \<exists>t. E = {t} then
        map_of (ta_permission out) key = act (the_elem E) \<and>
        map_of (ta_tools out) key = Some (the_elem E)
      else map_of (ta_tools out) key = None \<and>
        map_of (ta_permission out) key =
          (if E \<noteq> {} then Some NativeDeny
           else if autoOn \<and> key \<in> wildcard_key ` set servers then Some NativeAsk
           else None)))"
proof -
  let ?act = "tool_actions policies overrides autoOn"
  let ?ts = "listed_tools policies overrides"
  let ?w = "if autoOn then fold (\<lambda>s. AList.update (wildcard_key s) NativeAsk) servers []
    else []"
  let ?st = "fold (compile_entry ?act servers) ?ts
    \<lparr>cs_permission = ?w, cs_tools = [], cs_ambiguous = []\<rparr>"
  define E where "E = emitting ?act servers ?ts key"
  have w: "map_of ?w key =
      (if autoOn \<and> key \<in> wildcard_key ` set servers then Some NativeAsk else None)"
    by (simp add: map_of_fold_wildcards)
  have inv: "compiled ?act servers ?ts (map_of ?w) key ?st"
    by (rule compiled_fold) (simp_all add: map_of_fold_wildcards)
  have out: "map_of (ta_permission (compileTaskIntegrationToolApprovals servers policies overrides
        autoOn)) key =
      (if key \<in> set (cs_ambiguous ?st) then Some NativeDeny else map_of (cs_permission ?st) key)"
    "map_of (ta_tools (compileTaskIntegrationToolApprovals servers policies overrides autoOn)) key =
      (if key \<in> set (cs_ambiguous ?st) then None else map_of (cs_tools ?st) key)"
    by (simp_all add: compileTaskIntegrationToolApprovals_def Let_def map_of_fold_update
        map_of_fold_delete)
  consider "E = {}" | t where "E = {t}" | a b where "a \<in> E" "b \<in> E" "a \<noteq> b"
    by blast
  then show ?thesis
  proof cases
    case 1
    then show ?thesis using inv w unfolding compiled_def Let_def out E_def [symmetric] by simp
  next
    case (2 t)
    then show ?thesis
      using inv unfolding compiled_def Let_def out E_def [symmetric]
      by (cases "map_of (cs_tools ?st) key") auto
  next
    case 3
    then have "\<not> (\<exists>t. E = {t})" "E \<noteq> {}" by auto
    then show ?thesis using inv 3 unfolding compiled_def Let_def out E_def [symmetric] by auto
  qed
qed

text \<open>
  Only emitting tools count as colliding: a tool whose policy is allow emits no rule, so a tool
  that flattens to the same key is asked about under its own name although the native rule also
  catches the allowed tool.
\<close>

lemma allowed_tool_shares_the_ask:
  "(let out = compileTaskIntegrationToolApprovals [''srv'']
       [\<lparr>pe_integrationId = ''srv'', pe_toolName = ''a.b'', pe_mode = ModeAsk\<rparr>,
        \<lparr>pe_integrationId = ''srv'', pe_toolName = ''a_b'', pe_mode = ModeAllow\<rparr>] [] False
    in openCodeMcpToolKey ''srv'' ''a_b'' = ''srv_a_b'' \<and>
       map_of (ta_permission out) ''srv_a_b'' = Some NativeAsk \<and>
       map_of (ta_tools out) ''srv_a_b'' = Some (''srv'', ''a.b''))"
  by code_simp

end
