(* ===== verification/Redaction.thy ===== *)
theory Redaction
  imports JsValue "HOL-Library.Sublist"
begin

section \<open>Redaction of tool arguments\<close>

text \<open>
  \<open>packages/types/src/integration-tool-args.ts\<close>: the view of a tool call's arguments that is shown
  on an approval card, judged and stored, and the key rules of
  \<open>packages/types/src/secret-redaction.ts\<close> it uses. The scan of a string for a published credential
  format (\<open>secretRedactor.hasSecret\<close>) and the ellipsis U+2026, which a string of 8-bit characters
  cannot hold, are arguments. Values are trees, so the set of visited objects, which guards
  against cycles, never cuts one.
\<close>

record redaction_env =
  re_hasSecret :: "string \<Rightarrow> bool"
  re_ellipsis :: string

definition DEFAULT_MAX_STRING_LENGTH :: nat where "DEFAULT_MAX_STRING_LENGTH = 200"
definition MAX_DEPTH :: nat where "MAX_DEPTH = 6"
definition MAX_COLLECTION_ITEMS :: nat where "MAX_COLLECTION_ITEMS = 50"
definition MASKED_VALUE :: string where "MASKED_VALUE = ''[value omitted]''"

subsection \<open>Sensitive keys\<close>

datatype key_policy =
    KeyDiagnostic | KeyDiagnosticText | KeyIntegration | KeyWebhook | KeyEnvironment

record key_rule =
  kr_name :: string
  kr_webhookSuffix :: bool
  kr_integration :: bool
  kr_webhook :: bool
  kr_diagnostic :: bool

definition rule_of :: "string \<Rightarrow> bool \<Rightarrow> bool \<Rightarrow> bool \<Rightarrow> bool \<Rightarrow> key_rule" where
  "rule_of name webhookSuffix integration webhook diagnostic =
     \<lparr>kr_name = name, kr_webhookSuffix = webhookSuffix, kr_integration = integration,
      kr_webhook = webhook, kr_diagnostic = diagnostic\<rparr>"

definition keyRules :: "key_rule list" where
  "keyRules =
     [rule_of ''secret'' True True True True, rule_of ''secrets'' False True True True,
      rule_of ''token'' True True True True, rule_of ''password'' True True True True,
      rule_of ''passwd'' False False True True, rule_of ''credential'' False True True True,
      rule_of ''credentials'' False True True True,
      rule_of ''authorization'' False True True True, rule_of ''apikey'' True True True True,
      rule_of ''privatekey'' False True True True, rule_of ''cookie'' False False False True,
      rule_of ''cookies'' False False False True, rule_of ''accesskey'' False False False True,
      rule_of ''databaseurl'' False False False True,
      rule_of ''connectionstring'' False False False True,
      rule_of ''key'' False False False False]"

definition normalized_key :: "string \<Rightarrow> string" where
  "normalized_key key =
     filter (\<lambda>c. is_digit c \<or> (let n = of_char c :: nat in 97 \<le> n \<and> n \<le> 122)) (to_lower key)"

definition key_rule_applies :: "key_policy \<Rightarrow> string \<Rightarrow> key_rule \<Rightarrow> bool" where
  "key_rule_applies policy normalized rule \<longleftrightarrow>
     (case policy of
        KeyDiagnosticText \<Rightarrow> kr_diagnostic rule \<and> sublist (kr_name rule) normalized
      | KeyWebhook \<Rightarrow> kr_webhook rule \<and>
          (normalized = kr_name rule \<or> kr_webhookSuffix rule \<and> suffix (kr_name rule) normalized)
      | KeyIntegration \<Rightarrow> kr_integration rule \<and> sublist (kr_name rule) normalized
      | _ \<Rightarrow> (policy = KeyEnvironment \<or> kr_diagnostic rule) \<and> suffix (kr_name rule) normalized)"

definition isSensitiveKey :: "string \<Rightarrow> key_policy \<Rightarrow> bool" where
  "isSensitiveKey key policy \<longleftrightarrow>
     (let normalized = normalized_key key in
      if normalized = ''tokencount'' \<and> policy \<noteq> KeyDiagnosticText then False
      else list_ex (key_rule_applies policy normalized) keyRules)"

subsection \<open>The redacted view\<close>

fun hasIntegrationToolSecret :: "redaction_env \<Rightarrow> jsv \<Rightarrow> bool" where
  "hasIntegrationToolSecret env (JStr s) = re_hasSecret env s"
| "hasIntegrationToolSecret env (JArr xs) = list_ex (hasIntegrationToolSecret env) xs"
| "hasIntegrationToolSecret env (JObj kvs) =
     list_ex (\<lambda>kv. hasIntegrationToolSecret env (snd kv)) kvs"
| "hasIntegrationToolSecret env _ = False"

definition truncated_string :: "redaction_env \<Rightarrow> nat \<Rightarrow> string \<Rightarrow> string" where
  "truncated_string env maxStringLength s =
     (if length s > maxStringLength
      then take maxStringLength s @ re_ellipsis env @ ''[truncated]'' else s)"

function redactValue :: "redaction_env \<Rightarrow> nat \<Rightarrow> nat \<Rightarrow> jsv \<Rightarrow> jsv" where
  "redactValue env depth maxStringLength v =
     (if depth > MAX_DEPTH then JStr ''[truncated]''
      else case v of
        JStr s \<Rightarrow> JStr (if re_hasSecret env s then MASKED_VALUE
                        else truncated_string env maxStringLength s)
      | JArr xs \<Rightarrow>
          JArr (map (redactValue env (depth + 1) maxStringLength) (take MAX_COLLECTION_ITEMS xs))
      | JObj kvs \<Rightarrow>
          JObj (map (\<lambda>kv. (fst kv, if isSensitiveKey (fst kv) KeyIntegration then JStr MASKED_VALUE
                                    else redactValue env (depth + 1) maxStringLength (snd kv)))
                 (take MAX_COLLECTION_ITEMS kvs))
      | _ \<Rightarrow> v)"
  by pat_completeness auto

termination
proof (relation "measure (\<lambda>(env, depth, m, v). MAX_DEPTH + 1 - depth)")
qed (auto simp: MAX_DEPTH_def)

declare redactValue.simps [simp del]

definition redactIntegrationToolArgs :: "redaction_env \<Rightarrow> jsv \<Rightarrow> nat option \<Rightarrow> jsv" where
  "redactIntegrationToolArgs env v maxStringLength =
     redactValue env 0 (nullish_or maxStringLength DEFAULT_MAX_STRING_LENGTH) v"

subsection \<open>What the view can show\<close>

text \<open>
  A bounded view, \<open>d\<close> levels down: it goes no deeper than the limit, a collection has at most
  fifty items, a sensitive key shows the placeholder, and a string is a placeholder, a string
  the scanner passes that is short enough, or a cut one.
\<close>

definition shown_string :: "redaction_env \<Rightarrow> nat \<Rightarrow> string \<Rightarrow> bool" where
  "shown_string env m s \<longleftrightarrow>
     s = MASKED_VALUE \<or> s = ''[truncated]'' \<or> \<not> re_hasSecret env s \<and> length s \<le> m \<or>
     length s = m + length (re_ellipsis env) + 11 \<and>
       drop m s = re_ellipsis env @ ''[truncated]''"

fun bounded_view :: "redaction_env \<Rightarrow> nat \<Rightarrow> nat \<Rightarrow> jsv \<Rightarrow> bool" where
  "bounded_view env m d (JStr s) = (d \<le> MAX_DEPTH + 1 \<and> shown_string env m s)"
| "bounded_view env m d (JArr xs) =
     (d \<le> MAX_DEPTH \<and> length xs \<le> MAX_COLLECTION_ITEMS \<and>
      list_all (bounded_view env m (d + 1)) xs)"
| "bounded_view env m d (JObj kvs) =
     (d \<le> MAX_DEPTH \<and> length kvs \<le> MAX_COLLECTION_ITEMS \<and>
      list_all (\<lambda>kv. bounded_view env m (d + 1) (snd kv)) kvs \<and>
      list_all (\<lambda>kv. \<not> isSensitiveKey (fst kv) KeyIntegration \<or> snd kv = JStr MASKED_VALUE) kvs)"
| "bounded_view env m d _ = (d \<le> MAX_DEPTH)"

lemma shown_truncated: "\<not> re_hasSecret env s \<Longrightarrow> shown_string env m (truncated_string env m s)"
  by (simp add: shown_string_def truncated_string_def)

lemma shown_markers [simp]:
  "shown_string env m MASKED_VALUE" "shown_string env m ''[truncated]''"
  by (simp_all add: shown_string_def)

lemma bounded_view_redactValue:
  "d \<le> MAX_DEPTH + 1 \<Longrightarrow> bounded_view env m d (redactValue env d m v)"
proof (induction env d m v rule: redactValue.induct)
  case (1 env d m v)
  show ?case
  proof (cases "d > MAX_DEPTH")
    case True
    then show ?thesis using 1(3) by (simp add: redactValue.simps [of env d])
  next
    case False
    note IH = 1(1,2) [OF False]
    show ?thesis
    proof (cases v)
      case (JArr xs)
      then show ?thesis
        using False IH(1) [OF JArr] by (simp add: redactValue.simps [of env d] list_all_iff)
    next
      case (JObj kvs)
      then show ?thesis
        using False IH(2) [OF JObj]
        by (auto simp: redactValue.simps [of env d] list_all_iff)
    qed (use False in \<open>simp_all add: redactValue.simps [of env d] shown_truncated\<close>)
  qed
qed

text \<open>Whatever the arguments of a tool call are, the view that is shown, judged and stored is
  bounded: at most seven levels and then only a marker, at most fifty items per collection, every
  string within the limit or cut at it; and it shows no value under a secret-named key and no string in which the
  scanner finds a credential, other than a cut one's first characters.\<close>

theorem redacted_view_is_bounded:
  "bounded_view env (nullish_or maxStringLength DEFAULT_MAX_STRING_LENGTH) 0
     (redactIntegrationToolArgs env v maxStringLength)"
  unfolding redactIntegrationToolArgs_def by (rule bounded_view_redactValue) simp

end
