(* ===== verification/Tables.thy ===== *)
theory Tables
  imports Prelude
begin

section \<open>Database tables\<close>

text \<open>
  A table is a map from primary keys to rows. The statements the code issues on one: an update
  of the row of an id under a guard, with the row it returns; an update of every row a condition
  selects, with their ids; a query. Each is one step; the properties of a single row that such
  steps keep are the invariants the components share.
\<close>

named_theorems table_ops \<open>what the statements do to a table, row by row\<close>

type_synonym 'r table = "(string, 'r) jsmap"

subsection \<open>Statements\<close>

text \<open>\<open>update ... set f where id = k and p returning *\<close>.\<close>

definition update_where ::
    "'k \<Rightarrow> ('r \<Rightarrow> bool) \<Rightarrow> ('r \<Rightarrow> 'r) \<Rightarrow> ('k, 'r) jsmap \<Rightarrow> ('k, 'r) jsmap \<times> 'r option" where
  "update_where k p f t =
     (case map_of t k of
        None \<Rightarrow> (t, None)
      | Some row \<Rightarrow> if p row then (AList.update k (f row) t, Some (f row)) else (t, None))"

text \<open>\<open>update ... set f where p returning id\<close>.\<close>

definition update_all :: "('r \<Rightarrow> bool) \<Rightarrow> ('r \<Rightarrow> 'r) \<Rightarrow> ('k, 'r) jsmap \<Rightarrow> ('k, 'r) jsmap \<times> 'k list" where
  "update_all p f t =
     (map (\<lambda>(k, row). (k, if p row then f row else row)) t,
      map fst (filter (\<lambda>(k, row). p row) t))"

text \<open>\<open>update ... set f where id in ids and p returning id\<close>.\<close>

definition update_ids ::
    "'k list \<Rightarrow> ('r \<Rightarrow> bool) \<Rightarrow> ('r \<Rightarrow> 'r) \<Rightarrow> ('k, 'r) jsmap \<Rightarrow>
     ('k, 'r) jsmap \<times> 'k list" where
  "update_ids ids p f t =
     (map (\<lambda>(k, row). (k, if k \<in> set ids \<and> p row then f row else row)) t,
      map fst (filter (\<lambda>(k, row). k \<in> set ids \<and> p row) t))"

text \<open>\<open>insert ... values\<close> with a fresh id.\<close>

definition insert_row :: "'k \<Rightarrow> 'r \<Rightarrow> ('k, 'r) jsmap \<Rightarrow> ('k, 'r) jsmap" where
  "insert_row k row t = AList.update k row t"

definition select_rows :: "('r \<Rightarrow> bool) \<Rightarrow> ('k, 'r) jsmap \<Rightarrow> ('k \<times> 'r) list" where
  "select_rows p t = filter (\<lambda>(k, row). p row) t"

definition count_rows :: "('r \<Rightarrow> bool) \<Rightarrow> ('k, 'r) jsmap \<Rightarrow> nat" where
  "count_rows p t = length (select_rows p t)"

subsection \<open>Their effect on one row\<close>

lemma map_of_update_where [table_ops]:
  "map_of (fst (update_where k p f t)) i =
     (if i = k \<and> (\<exists>row. map_of t k = Some row \<and> p row)
      then map_option f (map_of t k) else map_of t i)"
  by (auto simp: update_where_def update_conv' split: option.split)

lemma snd_update_where:
  "snd (update_where k p f t) = Some r \<longleftrightarrow>
     (\<exists>row. map_of t k = Some row \<and> p row \<and> r = f row)"
  by (auto simp: update_where_def split: option.split)

lemma snd_update_where_None:
  "snd (update_where k p f t) = None \<longleftrightarrow> (\<forall>row. map_of t k = Some row \<longrightarrow> \<not> p row)"
  by (auto simp: update_where_def split: option.split)

lemma update_where_None:
  "update_where k p f t = (t, None) \<longleftrightarrow> (\<forall>row. map_of t k = Some row \<longrightarrow> \<not> p row)"
  by (auto simp: update_where_def split: option.split)

lemma map_of_update_all [table_ops]:
  "map_of (fst (update_all p f t)) i =
     map_option (\<lambda>row. if p row then f row else row) (map_of t i)"
  by (induction t) (auto simp: update_all_def)

lemma map_of_update_ids [table_ops]:
  "map_of (fst (update_ids ids p f t)) i =
     map_option (\<lambda>row. if i \<in> set ids \<and> p row then f row else row) (map_of t i)"
  by (induction t) (auto simp: update_ids_def)

lemma snd_update_ids:
  "jsmap_ok t \<Longrightarrow> i \<in> set (snd (update_ids ids p f t)) \<longleftrightarrow>
     i \<in> set ids \<and> (\<exists>row. map_of t i = Some row \<and> p row)"
  by (auto simp: update_ids_def jsmap_values_iff image_iff)

lemma keys_update_ids [simp]: "map fst (fst (update_ids ids p f t)) = map fst t"
  by (induction t) (auto simp: update_ids_def)

lemma jsmap_ok_update_ids [simp]: "jsmap_ok (fst (update_ids ids p f t)) = jsmap_ok t"
  unfolding jsmap_ok_def by (simp only: keys_update_ids)

lemma map_of_insert_row [table_ops]:
  "map_of (insert_row k row t) i = (if i = k then Some row else map_of t i)"
  by (simp add: insert_row_def update_conv')

lemma jsmap_ok_update_where [simp]: "jsmap_ok t \<Longrightarrow> jsmap_ok (fst (update_where k p f t))"
  by (auto simp: update_where_def split: option.split)

lemma keys_update_all [simp]: "map fst (fst (update_all p f t)) = map fst t"
  by (induction t) (auto simp: update_all_def)

lemma jsmap_ok_update_all [simp]: "jsmap_ok (fst (update_all p f t)) = jsmap_ok t"
  unfolding jsmap_ok_def by (simp only: keys_update_all)

lemma jsmap_ok_insert_row [simp]: "jsmap_ok t \<Longrightarrow> jsmap_ok (insert_row k row t)"
  by (simp add: insert_row_def)

lemma set_select_rows:
  "jsmap_ok t \<Longrightarrow> (k, row) \<in> set (select_rows p t) \<longleftrightarrow> map_of t k = Some row \<and> p row"
  by (auto simp: select_rows_def jsmap_values_iff)

lemma map_of_in_set: "map_of t k = Some row \<Longrightarrow> (k, row) \<in> set t"
  by (rule map_of_SomeD)

subsection \<open>Properties of rows\<close>

text \<open>Of the row of an id, if there is one; of the row of an id, which there is; of all rows.\<close>

definition row_all :: "'k \<Rightarrow> ('r \<Rightarrow> bool) \<Rightarrow> ('k, 'r) jsmap \<Rightarrow> bool" where
  "row_all k p t \<longleftrightarrow> (\<forall>row. map_of t k = Some row \<longrightarrow> p row)"

definition row_is :: "'k \<Rightarrow> ('r \<Rightarrow> bool) \<Rightarrow> ('k, 'r) jsmap \<Rightarrow> bool" where
  "row_is k p t \<longleftrightarrow> (\<exists>row. map_of t k = Some row \<and> p row)"

definition rows_all :: "('r \<Rightarrow> bool) \<Rightarrow> ('k, 'r) jsmap \<Rightarrow> bool" where
  "rows_all p t \<longleftrightarrow> (\<forall>k. row_all k p t)"

lemma row_all_update_where:
  "row_all i q t \<Longrightarrow> (\<And>row. q row \<Longrightarrow> p row \<Longrightarrow> q (f row)) \<Longrightarrow>
   row_all i q (fst (update_where k p f t))"
  by (auto simp: row_all_def table_ops)

lemma row_is_update_where:
  "row_is i q t \<Longrightarrow> (\<And>row. q row \<Longrightarrow> p row \<Longrightarrow> q (f row)) \<Longrightarrow>
   row_is i q (fst (update_where k p f t))"
  by (auto simp: row_is_def table_ops)

lemma row_is_update_all:
  "row_is i q t \<Longrightarrow> (\<And>row. q row \<Longrightarrow> p row \<Longrightarrow> q (f row)) \<Longrightarrow>
   row_is i q (fst (update_all p f t))"
  by (cases "map_of t i") (simp_all add: row_is_def map_of_update_all)

lemma row_is_insert_row: "row_is i q t \<Longrightarrow> map_of t k = None \<Longrightarrow> row_is i q (insert_row k row t)"
  by (auto simp: row_is_def table_ops)

lemma rows_allD: "rows_all p t \<Longrightarrow> map_of t k = Some row \<Longrightarrow> p row"
  by (auto simp: rows_all_def row_all_def)

lemma rows_all_update_where:
  "rows_all q t \<Longrightarrow> (\<And>row. q row \<Longrightarrow> p row \<Longrightarrow> q (f row)) \<Longrightarrow>
   rows_all q (fst (update_where k p f t))"
  by (simp add: rows_all_def row_all_update_where)

lemma rows_all_update_all:
  "rows_all q t \<Longrightarrow> (\<And>row. q row \<Longrightarrow> p row \<Longrightarrow> q (f row)) \<Longrightarrow>
   rows_all q (fst (update_all p f t))"
  by (auto simp: rows_all_def row_all_def table_ops)

lemma rows_all_insert_row: "rows_all q t \<Longrightarrow> q row \<Longrightarrow> rows_all q (insert_row k row t)"
  by (auto simp: rows_all_def row_all_def table_ops)

lemma rows_all_Nil [simp]: "rows_all q []"
  by (simp add: rows_all_def row_all_def)

text \<open>Counting rows is counting ids.\<close>

lemma count_rows_card:
  assumes "jsmap_ok t"
  shows "count_rows p t = card {k. row_is k p t}" "finite {k. row_is k p t}"
proof -
  have "set (map fst xs) = {k. \<exists>row. (k, row) \<in> set xs}" for xs :: "('a \<times> 'b) list"
    by force
  then have keys: "set (map fst (select_rows p t)) = {k. row_is k p t}"
    by (simp only: set_select_rows [OF assms] row_is_def)
  have "distinct (map fst (select_rows p t))"
    using assms unfolding jsmap_ok_def select_rows_def by (rule distinct_map_filter)
  then have "length (map fst (select_rows p t)) = card (set (map fst (select_rows p t)))"
    by (simp only: distinct_card)
  then show "count_rows p t = card {k. row_is k p t}"
    unfolding keys count_rows_def by simp
  show "finite {k. row_is k p t}"
    unfolding keys [symmetric] by (rule List.finite_set)
qed

lemma count_rows_mono:
  assumes "jsmap_ok t" "jsmap_ok t'" "\<And>k. row_is k p t' \<Longrightarrow> row_is k p t"
  shows "count_rows p t' \<le> count_rows p t"
  unfolding count_rows_card(1) [OF assms(1)] count_rows_card(1) [OF assms(2)]
  using count_rows_card(2) [OF assms(1)] assms(3) by (intro card_mono) auto

subsection \<open>Tables as lists\<close>

lemma update_where_as_map:
  assumes "jsmap_ok t"
  shows "fst (update_where i p f t) = map (\<lambda>(k, r). (k, if k = i \<and> p r then f r else r)) t"
proof (cases "map_of t i")
  case None
  then have "\<forall>(k, r) \<in> set t. k \<noteq> i" by (force simp: map_of_eq_None_iff)
  then have "map (\<lambda>(k, r). (k, if k = i \<and> p r then f r else r)) t = t"
    by (intro map_idI) auto
  then show ?thesis using None by (simp add: update_where_def)
next
  case (Some row)
  have "AList.update i (f row) t = map (\<lambda>(k, r). (k, if k = i then f r else r)) t"
    using assms Some
  proof (induction t)
    case (Cons x t)
    obtain k r where x: "x = (k, r)" by (cases x)
    have "\<forall>(k, r) \<in> set t. k \<noteq> i" if "k = i"
      using Cons.prems(1) that by (auto simp: x jsmap_ok_def image_iff)
    then have "map (\<lambda>(k, r). (k, if k = i then f r else r)) t = t" if "k = i"
      using that by (intro map_idI) auto
    then show ?case using Cons by (auto simp: x jsmap_ok_def split: if_splits)
  qed simp
  moreover have "map (\<lambda>(k, r). (k, if k = i \<and> p r then f r else r)) t =
      (if p row then map (\<lambda>(k, r). (k, if k = i then f r else r)) t else t)"
  proof -
    have "r = row" if "(i, r) \<in> set t" for r
      using that Some by (simp add: jsmap_values_iff [OF assms])
    then show ?thesis by (cases "p row") (auto intro!: map_idI)
  qed
  ultimately show ?thesis using Some by (simp add: update_where_def)
qed

lemma insert_fresh_row:
  "map_of t i = None \<Longrightarrow> insert_row i row t = t @ [(i, row)]"
  unfolding insert_row_def by (induction t) auto

lemma select_first:
  assumes "jsmap_ok t" "sort_key g (select_rows p t) = (i, row) # rest"
  shows "map_of t i = Some row" "p row"
proof -
  have "(i, row) \<in> set (select_rows p t)"
    using assms(2) by (metis list.set_intros(1) set_sort)
  then show "map_of t i = Some row" "p row" using assms(1) by (simp_all add: set_select_rows)
qed

lemma select_insert_other:
  "\<not> p row \<Longrightarrow> (\<forall>r. map_of t i = Some r \<longrightarrow> \<not> p r) \<Longrightarrow>
   select_rows p (insert_row i row t) = select_rows p t"
  by (induction t) (auto simp: insert_row_def select_rows_def split: if_splits)

lemma select_insert_same:
  assumes "jsmap_ok t" "p row" "\<forall>r. map_of t i = Some r \<longrightarrow> p r"
  shows "select_rows p (insert_row i row t) = insert_row i row (select_rows p t)"
  using assms
proof (induction t)
  case (Cons x t)
  obtain k r where x: "x = (k, r)" by (cases x)
  show ?case
  proof (cases "k = i")
    case True
    then show ?thesis using Cons.prems by (simp add: x insert_row_def select_rows_def)
  next
    case False
    have "select_rows p (insert_row i row t) = insert_row i row (select_rows p t)"
      by (rule Cons.IH) (use Cons.prems False in \<open>simp_all add: x jsmap_ok_def\<close>)
    then show ?thesis using False by (simp add: x insert_row_def select_rows_def)
  qed
qed (simp add: insert_row_def select_rows_def)

end
