(* ===== verification/ApprovalRequests.thy ===== *)
theory ApprovalRequests
  imports ToolApprovals Redaction Tables "HOL-Library.Product_Lexorder"
begin

section \<open>Approval requests\<close>

text \<open>
  \<open>packages/db/src/lib/integration-tool-approvals.ts\<close> over its tables: the stored policies, the
  approval requests with their life from a pending ask or a reservation to a terminal status, the
  session overrides, and a session's Auto switch. A transaction is one step: the row locks, the
  advisory lock and the conditional updates of the code make each of them atomic. Random ids and
  \<open>clock_timestamp()\<close> are arguments; so are the fingerprint of a call (a SHA-256 of its canonical
  JSON) and the collation of text columns.
\<close>

definition INTEGRATION_TOOL_APPROVAL_WINDOW_MINUTES :: int where
  "INTEGRATION_TOOL_APPROVAL_WINDOW_MINUTES = 10"

abbreviation approval_window :: ms where
  "approval_window \<equiv> INTEGRATION_TOOL_APPROVAL_WINDOW_MINUTES * 60000"

datatype approval_error = OwnerNotFound | ApprovalNotFound | WriteFailed

subsection \<open>Tables\<close>

datatype auto_recommendation = RecommendApprove | RecommendAsk

record auto_evaluation =
  ae_recommendation :: auto_recommendation
  ae_unavailable :: "string option"
  ae_reason :: "string option"

record approval_row =
  ap_sessionId :: string
  ap_requesterUserId :: string
  ap_taskId :: "string option"
  ap_integrationId :: string
  ap_toolName :: string
  ap_nativeRequestId :: string
  ap_argsFingerprint :: string
  ap_argsSummary :: jsv
  ap_status :: approval_status
  ap_decidedByUserId :: "string option"
  ap_decidedAt :: "ms option"
  ap_autoEvaluation :: "auto_evaluation option"
  ap_expiresAt :: ms
  ap_createdAt :: ms

record policy_row =
  pr_policyId :: string
  pr_mode :: policy_mode
  pr_updatedByUserId :: "string option"
  pr_createdAt :: ms
  pr_updatedAt :: ms

record override_row =
  ov_mode :: override_mode
  ov_setByUserId :: string

record auto_session =
  as_ownerUserId :: "string option"
  as_autoEnabled :: bool
  as_autoSuspendedAt :: "ms option"

record shadow_row =
  sh_userId :: "string option"
  sh_taskId :: "string option"
  sh_integrationId :: string
  sh_toolName :: string
  sh_argsSummary :: jsv
  sh_evaluation :: auto_evaluation

type_synonym session_tool = "string \<times> string \<times> string"

record approval_db =
  ad_users :: "string list"
  ad_sessions :: "auto_session table"
  ad_requests :: "approval_row table"
  ad_overrides :: "(session_tool, override_row) jsmap"
  ad_policies :: "(tool_key, policy_row) jsmap"
  ad_userPolicies :: "(string \<times> tool_key, policy_row) jsmap"
  ad_evaluations :: "shadow_row list"

record policy_metadata = policy_entry +
  pm_policyId :: string
  pm_updatedAt :: ms
  pm_createdAt :: ms

definition policyMetadata :: "tool_key \<Rightarrow> policy_row \<Rightarrow> policy_metadata" where
  "policyMetadata k row =
     \<lparr>pe_integrationId = fst k, pe_toolName = snd k, pe_mode = pr_mode row,
      pm_policyId = pr_policyId row, pm_updatedAt = pr_updatedAt row,
      pm_createdAt = pr_createdAt row\<rparr>"

record approval_metadata =
  am_approvalId :: string
  am_integrationId :: string
  am_toolName :: string
  am_argsSummary :: jsv
  am_status :: approval_status
  am_taskId :: "string option"
  am_autoEvaluation :: "auto_evaluation option"
  am_expiresAt :: ms
  am_createdAt :: ms

definition approvalMetadata :: "string \<times> approval_row \<Rightarrow> approval_metadata" where
  "approvalMetadata r =
     \<lparr>am_approvalId = fst r, am_integrationId = ap_integrationId (snd r),
      am_toolName = ap_toolName (snd r), am_argsSummary = ap_argsSummary (snd r),
      am_status = ap_status (snd r), am_taskId = ap_taskId (snd r),
      am_autoEvaluation = ap_autoEvaluation (snd r), am_expiresAt = ap_expiresAt (snd r),
      am_createdAt = ap_createdAt (snd r)\<rparr>"

subsection \<open>Stored policies\<close>

text \<open>
  A store is one of the two tables; \<open>upsertPolicy\<close> and \<open>upsertPolicies\<close> are written once over it.
  What differs is the key, which a personal policy extends with its user, and the column that
  names the admin. A new row is inserted with the id and both times given; a conflict keeps the
  id and the creation time.
\<close>

datatype policy_store = DeploymentStore "string option" | UserStore string

definition changed_policy ::
    "policy_mode \<Rightarrow> string option \<Rightarrow> string \<Rightarrow> ms \<Rightarrow> policy_row option \<Rightarrow> policy_row" where
  "changed_policy mode updatedByUserId newId now existing =
     (case existing of
        None \<Rightarrow> \<lparr>pr_policyId = newId, pr_mode = mode, pr_updatedByUserId = updatedByUserId,
                 pr_createdAt = now, pr_updatedAt = now\<rparr>
      | Some row \<Rightarrow> row\<lparr>pr_mode := mode,
                        pr_updatedByUserId := nullish updatedByUserId (pr_updatedByUserId row),
                        pr_updatedAt := now\<rparr>)"

definition put_policy ::
    "'k \<Rightarrow> policy_mode \<Rightarrow> string option \<Rightarrow> string \<Rightarrow> ms \<Rightarrow> ('k, policy_row) jsmap
     \<Rightarrow> ('k, policy_row) jsmap" where
  "put_policy k mode updatedByUserId newId now t =
     (if mode = ModeAllow then AList.delete k t
      else AList.update k (changed_policy mode updatedByUserId newId now (map_of t k)) t)"

definition upsertPolicy ::
    "policy_store \<Rightarrow> string \<Rightarrow> string \<Rightarrow> policy_mode \<Rightarrow> string \<Rightarrow> ms \<Rightarrow> approval_db
     \<Rightarrow> approval_db" where
  "upsertPolicy store integrationId toolName mode newId now db =
     (case store of
        DeploymentStore by \<Rightarrow>
          db\<lparr>ad_policies := put_policy (integrationId, toolName) mode
                (if truthy by then by else None) newId now (ad_policies db)\<rparr>
      | UserStore userId \<Rightarrow>
          db\<lparr>ad_userPolicies := put_policy (userId, integrationId, toolName) mode None newId now
                (ad_userPolicies db)\<rparr>)"

text \<open>The rows of a bulk write get their ids in the order of the distinct names.\<close>

definition upsertPolicies ::
    "policy_store \<Rightarrow> string \<Rightarrow> string list \<Rightarrow> policy_mode \<Rightarrow> (string \<Rightarrow> string) \<Rightarrow> ms \<Rightarrow> approval_db
     \<Rightarrow> approval_db" where
  "upsertPolicies store integrationId toolNames mode newId now db =
     fold (\<lambda>toolName. upsertPolicy store integrationId toolName mode (newId toolName) now)
       (uniq toolNames) db"

definition listPolicies ::
    "(string \<Rightarrow> 'c::linorder) \<Rightarrow> policy_store \<Rightarrow> approval_db \<Rightarrow> policy_metadata list" where
  "listPolicies collate store db =
     map (\<lambda>(k, row). policyMetadata k row)
       (sort_key (\<lambda>(k, row). (collate (fst k), collate (snd k)))
         (case store of
            DeploymentStore by \<Rightarrow> ad_policies db
          | UserStore userId \<Rightarrow>
              map (\<lambda>((u, k), row). (k, row))
                (filter (\<lambda>((u, k), row). u = userId) (ad_userPolicies db))))"

definition listIntegrationToolPolicies ::
    "(string \<Rightarrow> 'c::linorder) \<Rightarrow> approval_db \<Rightarrow> policy_metadata list" where
  "listIntegrationToolPolicies collate db = listPolicies collate (DeploymentStore None) db"

definition upsertIntegrationToolPolicy ::
    "string \<Rightarrow> string \<Rightarrow> policy_mode \<Rightarrow> string \<Rightarrow> string \<Rightarrow> ms \<Rightarrow> approval_db \<Rightarrow> approval_db" where
  "upsertIntegrationToolPolicy integrationId toolName mode updatedByUserId newId now db =
     upsertPolicy (DeploymentStore (Some updatedByUserId)) integrationId toolName mode newId now db"

definition upsertIntegrationToolPolicies ::
    "string \<Rightarrow> string list \<Rightarrow> policy_mode \<Rightarrow> string \<Rightarrow> (string \<Rightarrow> string) \<Rightarrow> ms \<Rightarrow> approval_db
     \<Rightarrow> approval_db" where
  "upsertIntegrationToolPolicies integrationId toolNames mode updatedByUserId newId now db =
     upsertPolicies (DeploymentStore (Some updatedByUserId)) integrationId toolNames mode newId
       now db"

definition listIntegrationToolUserPolicies ::
    "(string \<Rightarrow> 'c::linorder) \<Rightarrow> string \<Rightarrow> approval_db \<Rightarrow> policy_metadata list" where
  "listIntegrationToolUserPolicies collate userId db = listPolicies collate (UserStore userId) db"

definition upsertIntegrationToolUserPolicy ::
    "string \<Rightarrow> string \<Rightarrow> string \<Rightarrow> policy_mode \<Rightarrow> string \<Rightarrow> ms \<Rightarrow> approval_db \<Rightarrow> approval_db" where
  "upsertIntegrationToolUserPolicy userId integrationId toolName mode newId now db =
     upsertPolicy (UserStore userId) integrationId toolName mode newId now db"

definition upsertIntegrationToolUserPolicies ::
    "string \<Rightarrow> string \<Rightarrow> string list \<Rightarrow> policy_mode \<Rightarrow> (string \<Rightarrow> string) \<Rightarrow> ms \<Rightarrow> approval_db
     \<Rightarrow> approval_db" where
  "upsertIntegrationToolUserPolicies userId integrationId toolNames mode newId now db =
     upsertPolicies (UserStore userId) integrationId toolNames mode newId now db"

subsection \<open>Asking\<close>

text \<open>The session, the user the agent acts for, and the call a row records.\<close>

record approval_context =
  ac_sessionId :: string
  ac_userId :: string

record approval_input =
  ai_integrationId :: string
  ai_toolName :: string
  ai_nativeRequestId :: string
  ai_argsFingerprint :: string
  ai_argsSummary :: jsv
  ai_taskId :: "string option"
  ai_autoEvaluation :: "auto_evaluation option"

definition requireSessionOwner ::
    "approval_context \<Rightarrow> approval_db \<Rightarrow> approval_error + string" where
  "requireSessionOwner ctx db =
     (case Option.bind (map_of (ad_sessions db) (ac_sessionId ctx)) as_ownerUserId of
        None \<Rightarrow> Inl OwnerNotFound
      | Some owner \<Rightarrow>
          if owner \<in> set (ad_users db) \<and> owner = ac_userId ctx then Inr owner
          else Inl OwnerNotFound)"

definition stored_summary :: "redaction_env \<Rightarrow> jsv \<Rightarrow> jsv" where
  "stored_summary env summary =
     redactIntegrationToolArgs env
       (if summary = JUndefined \<or> summary = JNull then JObj [] else summary) None"

definition new_request ::
    "redaction_env \<Rightarrow> approval_context \<Rightarrow> string \<Rightarrow> approval_input \<Rightarrow> approval_status
     \<Rightarrow> string option \<Rightarrow> ms option \<Rightarrow> ms \<Rightarrow> ms \<Rightarrow> approval_row" where
  "new_request env ctx owner inp status decidedBy decidedAt expiresAt now =
     \<lparr>ap_sessionId = ac_sessionId ctx, ap_requesterUserId = owner, ap_taskId = ai_taskId inp,
      ap_integrationId = ai_integrationId inp, ap_toolName = ai_toolName inp,
      ap_nativeRequestId = ai_nativeRequestId inp, ap_argsFingerprint = ai_argsFingerprint inp,
      ap_argsSummary = stored_summary env (ai_argsSummary inp), ap_status = status,
      ap_decidedByUserId = decidedBy, ap_decidedAt = decidedAt,
      ap_autoEvaluation = ai_autoEvaluation inp, ap_expiresAt = expiresAt, ap_createdAt = now\<rparr>"

definition pending_for :: "string \<Rightarrow> string \<Rightarrow> approval_row \<Rightarrow> bool" where
  "pending_for sessionId nativeRequestId row \<longleftrightarrow>
     ap_sessionId row = sessionId \<and> ap_nativeRequestId row = nativeRequestId \<and>
     ap_status row = ApPending"

definition find_row :: "('r \<Rightarrow> bool) \<Rightarrow> 'r table \<Rightarrow> (string \<times> 'r) option" where
  "find_row p t = find (\<lambda>(k, row). p row) t"

text \<open>
  The transaction reads an open row first and inserts only when it finds none; the partial unique
  index turns an insert that a concurrent one beat into a read of the winner. The two halves are
  functions of their own, so that other transactions can come between them.
\<close>

definition insert_pending ::
    "redaction_env \<Rightarrow> approval_context \<Rightarrow> approval_input \<Rightarrow> string \<Rightarrow> ms \<Rightarrow> string \<Rightarrow> approval_db
     \<Rightarrow> approval_error + approval_db \<times> approval_metadata" where
  "insert_pending env ctx inp newId now owner db =
     (if list_ex (\<lambda>(k, row). pending_for (ac_sessionId ctx) (ai_nativeRequestId inp) row)
           (ad_requests db)
      then case find_row (pending_for (ac_sessionId ctx) (ai_nativeRequestId inp))
                  (ad_requests db) of
             None \<Rightarrow> Inl WriteFailed
           | Some winner \<Rightarrow> Inr (db, approvalMetadata winner)
      else let row = new_request env ctx owner inp ApPending None None (now + approval_window) now
           in Inr (db\<lparr>ad_requests := insert_row newId row (ad_requests db)\<rparr>,
                   approvalMetadata (newId, row)))"

definition insertIntegrationToolApproval ::
    "redaction_env \<Rightarrow> approval_context \<Rightarrow> approval_input \<Rightarrow> string \<Rightarrow> ms \<Rightarrow> approval_db
     \<Rightarrow> approval_error + approval_db \<times> approval_metadata" where
  "insertIntegrationToolApproval env ctx inp newId now db =
     (case requireSessionOwner ctx db of
        Inl e \<Rightarrow> Inl e
      | Inr owner \<Rightarrow>
          (case find_row (pending_for (ac_sessionId ctx) (ai_nativeRequestId inp))
                  (ad_requests db) of
             Some existing \<Rightarrow> Inr (db, approvalMetadata existing)
           | None \<Rightarrow> insert_pending env ctx inp newId now owner db))"

definition listPendingIntegrationToolApprovals ::
    "approval_context \<Rightarrow> ms \<Rightarrow> approval_db \<Rightarrow> approval_metadata list" where
  "listPendingIntegrationToolApprovals ctx now db =
     map approvalMetadata
       (sort_key (\<lambda>(k, row). ap_createdAt row)
         (select_rows (\<lambda>row. ap_sessionId row = ac_sessionId ctx \<and>
              ap_requesterUserId row = ac_userId ctx \<and> ap_status row = ApPending \<and>
              ap_expiresAt row > now) (ad_requests db)))"

definition getIntegrationToolApproval :: "string \<Rightarrow> approval_db \<Rightarrow> approval_row option" where
  "getIntegrationToolApproval approvalId db = map_of (ad_requests db) approvalId"

subsection \<open>What was decided before\<close>

definition decidedCallScope :: "string option \<Rightarrow> approval_row \<Rightarrow> bool" where
  "decidedCallScope taskId row \<longleftrightarrow>
     ap_taskId row = None \<or> truthy taskId \<and> ap_taskId row = taskId"

definition decided_by_owner :: "approval_context \<Rightarrow> string option \<Rightarrow> approval_row \<Rightarrow> bool" where
  "decided_by_owner ctx taskId row \<longleftrightarrow>
     ap_sessionId row = ac_sessionId ctx \<and> ap_requesterUserId row = ac_userId ctx \<and>
     ap_decidedByUserId row = Some (ac_userId ctx) \<and> decidedCallScope taskId row"

datatype call_outcome = OutcomeApproved | OutcomeRejected

definition listRecentIntegrationToolApprovalOutcomes ::
    "approval_context \<Rightarrow> string option \<Rightarrow> approval_db
     \<Rightarrow> (string \<times> string \<times> call_outcome \<times> jsv) list" where
  "listRecentIntegrationToolApprovalOutcomes ctx taskId db =
     map (\<lambda>(k, row). (ap_integrationId row, ap_toolName row,
           if ap_status row = ApRejected then OutcomeRejected else OutcomeApproved,
           ap_argsSummary row))
       (take 6 (sort_key (\<lambda>(k, row). case ap_decidedAt row of None \<Rightarrow> (0, 0) | Some t \<Rightarrow> (1, - t))
         (select_rows (\<lambda>row. decided_by_owner ctx taskId row \<and>
              ap_status row \<in> {ApConsumed, ApRejected}) (ad_requests db))))"

definition rejected_call ::
    "approval_context \<Rightarrow> string option \<Rightarrow> string \<Rightarrow> string \<Rightarrow> approval_row \<Rightarrow> bool" where
  "rejected_call ctx taskId integrationId toolName row \<longleftrightarrow>
     decided_by_owner ctx taskId row \<and> ap_integrationId row = integrationId \<and>
     ap_toolName row = toolName \<and> ap_status row = ApRejected"

definition hasRejectedIntegrationToolInSession ::
    "approval_context \<Rightarrow> string option \<Rightarrow> string \<Rightarrow> string \<Rightarrow> approval_db \<Rightarrow> bool" where
  "hasRejectedIntegrationToolInSession ctx taskId integrationId toolName db \<longleftrightarrow>
     list_ex (\<lambda>(k, row). rejected_call ctx taskId integrationId toolName row) (ad_requests db)"

subsection \<open>Deciding\<close>

definition upsertSessionOverride ::
    "session_tool \<Rightarrow> override_mode \<Rightarrow> string \<Rightarrow> approval_db \<Rightarrow> approval_db" where
  "upsertSessionOverride key mode setByUserId db =
     db\<lparr>ad_overrides :=
       AList.update key \<lparr>ov_mode = mode, ov_setByUserId = setByUserId\<rparr> (ad_overrides db)\<rparr>"

definition listIntegrationToolSessionOverrides ::
    "(string \<Rightarrow> 'c::linorder) \<Rightarrow> string \<Rightarrow> approval_db \<Rightarrow> override_entry list" where
  "listIntegrationToolSessionOverrides collate sessionId db =
     map (\<lambda>((s, integrationId, toolName), row).
           \<lparr>oe_integrationId = integrationId, oe_toolName = toolName, oe_mode = ov_mode row\<rparr>)
       (sort_key (\<lambda>((s, integrationId, toolName), row). (collate integrationId, collate toolName))
         (filter (\<lambda>((s, k), row). s = sessionId) (ad_overrides db)))"

definition answerable :: "approval_context \<Rightarrow> ms \<Rightarrow> approval_row \<Rightarrow> bool" where
  "answerable ctx now row \<longleftrightarrow>
     ap_sessionId row = ac_sessionId ctx \<and> ap_requesterUserId row = ac_userId ctx \<and>
     ap_status row = ApPending \<and> ap_expiresAt row > now"

definition decided_status :: "approval_decision \<Rightarrow> approval_status" where
  "decided_status decision = (if decision = DecRejected then ApRejected else ApApproved)"

definition decideIntegrationToolApproval ::
    "approval_context \<Rightarrow> string \<Rightarrow> approval_decision \<Rightarrow> ms \<Rightarrow> approval_db
     \<Rightarrow> approval_error + approval_db \<times> approval_metadata" where
  "decideIntegrationToolApproval ctx approvalId decision now db =
     (case update_where approvalId (answerable ctx now)
             (\<lambda>row. row\<lparr>ap_status := decided_status decision,
                        ap_decidedByUserId := Some (ac_userId ctx),
                        ap_decidedAt := Some now\<rparr>) (ad_requests db) of
        (t, None) \<Rightarrow> Inl ApprovalNotFound
      | (t, Some row) \<Rightarrow>
          let db' = db\<lparr>ad_requests := t\<rparr> in
          Inr (if decision = DecApprovedForSession
               then upsertSessionOverride
                      (ac_sessionId ctx, ap_integrationId row, ap_toolName row) OverrideAllow
                      (ac_userId ctx) db'
               else db',
               approvalMetadata (approvalId, row)))"

definition expireIntegrationToolApproval :: "string \<Rightarrow> approval_db \<Rightarrow> approval_db" where
  "expireIntegrationToolApproval approvalId db =
     db\<lparr>ad_requests := fst (update_where approvalId (\<lambda>row. ap_status row = ApPending)
                             (\<lambda>row. row\<lparr>ap_status := ApExpired\<rparr>) (ad_requests db))\<rparr>"

definition recordIntegrationToolAutoEvaluation ::
    "string \<Rightarrow> auto_evaluation \<Rightarrow> approval_db \<Rightarrow> approval_db" where
  "recordIntegrationToolAutoEvaluation approvalId evaluation db =
     db\<lparr>ad_requests := fst (update_where approvalId (\<lambda>row. True)
                             (\<lambda>row. row\<lparr>ap_autoEvaluation := Some evaluation\<rparr>)
                             (ad_requests db))\<rparr>"

subsection \<open>Claiming an approval\<close>

text \<open>The guard of a claim is a condition on the table as it is when the claim is made.\<close>

definition claimApprovedIntegrationToolApproval ::
    "string \<Rightarrow> string \<Rightarrow> approval_status \<Rightarrow> (approval_row table \<Rightarrow> bool) \<Rightarrow> approval_db
     \<Rightarrow> approval_db \<times> bool" where
  "claimApprovedIntegrationToolApproval approvalId requesterUserId claimedStatus condition db =
     (case update_where approvalId
             (\<lambda>row. ap_requesterUserId row = requesterUserId \<and> ap_status row = ApApproved \<and>
                    condition (ad_requests db))
             (\<lambda>row. row\<lparr>ap_status := claimedStatus\<rparr>) (ad_requests db) of
        (t, claimed) \<Rightarrow> (db\<lparr>ad_requests := t\<rparr>, claimed \<noteq> None))"

definition markIntegrationToolApprovalConsumed ::
    "string \<Rightarrow> string \<Rightarrow> approval_db \<Rightarrow> approval_db \<times> bool" where
  "markIntegrationToolApprovalConsumed approvalId requesterUserId db =
     claimApprovedIntegrationToolApproval approvalId requesterUserId ApConsumed (\<lambda>t. True) db"

text \<open>The tool whose rejection makes an Auto claim fail: session, integration, name.\<close>

definition not_rejected :: "session_tool \<Rightarrow> string \<Rightarrow> approval_row table \<Rightarrow> bool" where
  "not_rejected tool requesterUserId t \<longleftrightarrow>
     (case tool of (sessionId, integrationId, toolName) \<Rightarrow>
        \<not> list_ex (\<lambda>(k, row). rejected_call
             \<lparr>ac_sessionId = sessionId, ac_userId = requesterUserId\<rparr> None integrationId toolName row) t)"

text \<open>
  The claim of a reservation, and the second statement that closes one that lost: they are two
  transactions, so other steps can come between them.
\<close>

definition claim_reservation ::
    "string \<Rightarrow> string \<Rightarrow> session_tool option \<Rightarrow> approval_db \<Rightarrow> approval_db \<times> bool" where
  "claim_reservation approvalId requesterUserId unlessToolRejected db =
     claimApprovedIntegrationToolApproval approvalId requesterUserId ApAutoApproved
       (case unlessToolRejected of
          None \<Rightarrow> (\<lambda>t. True) | Some tool \<Rightarrow> not_rejected tool requesterUserId) db"

definition close_reservation :: "string \<Rightarrow> approval_db \<Rightarrow> approval_db" where
  "close_reservation approvalId db =
     db\<lparr>ad_requests := fst (update_where approvalId (\<lambda>row. ap_status row = ApApproved)
                             (\<lambda>row. row\<lparr>ap_status := ApCancelled\<rparr>) (ad_requests db))\<rparr>"

definition claimAutoApprovedIntegrationToolApproval ::
    "string \<Rightarrow> string \<Rightarrow> session_tool option \<Rightarrow> approval_db \<Rightarrow> approval_db \<times> bool" where
  "claimAutoApprovedIntegrationToolApproval approvalId requesterUserId unlessToolRejected db =
     (case claim_reservation approvalId requesterUserId unlessToolRejected db of
        (db', claimed) \<Rightarrow>
          (if \<not> claimed \<and> unlessToolRejected \<noteq> None then close_reservation approvalId db'
           else db', claimed))"

definition claimable_call :: "string \<Rightarrow> string \<Rightarrow> ms \<Rightarrow> approval_row \<Rightarrow> bool" where
  "claimable_call taskId argsFingerprint now row \<longleftrightarrow>
     ap_taskId row = Some taskId \<and> ap_argsFingerprint row = argsFingerprint \<and>
     ap_status row = ApApproved \<and>
     (case ap_decidedAt row of None \<Rightarrow> False | Some t \<Rightarrow> t > now - approval_window)"

definition claimed_call_status :: "approval_row \<Rightarrow> approval_status" where
  "claimed_call_status row =
     (if truthy (ap_decidedByUserId row) then ApConsumed else ApAutoApproved)"

text \<open>A row another transaction has locked is skipped: \<open>locked\<close> names such rows.\<close>

definition oldest_claimable ::
    "string \<Rightarrow> string \<Rightarrow> ms \<Rightarrow> string list \<Rightarrow> approval_db \<Rightarrow> (string \<times> approval_row) option" where
  "oldest_claimable taskId argsFingerprint now locked db =
     (case sort_key (\<lambda>(k, row). ap_createdAt row)
             (filter (\<lambda>(k, row). k \<notin> set locked)
               (select_rows (claimable_call taskId argsFingerprint now) (ad_requests db))) of
        [] \<Rightarrow> None | r # rs \<Rightarrow> Some r)"

definition claimTaskIntegrationToolCall ::
    "string \<Rightarrow> string \<Rightarrow> ms \<Rightarrow> string list \<Rightarrow> approval_db \<Rightarrow> approval_db \<times> bool" where
  "claimTaskIntegrationToolCall taskId argsFingerprint now locked db =
     (case oldest_claimable taskId argsFingerprint now locked db of
        None \<Rightarrow> (db, False)
      | Some (k, row) \<Rightarrow>
          (db\<lparr>ad_requests := fst (update_where k (\<lambda>r. True)
                                  (\<lambda>r. r\<lparr>ap_status := claimed_call_status row\<rparr>)
                                  (ad_requests db))\<rparr>, True))"

subsection \<open>Reservations and denials\<close>

datatype reservation_decider = ByRequester | ByModel

definition insertAutoApprovedIntegrationToolApproval ::
    "redaction_env \<Rightarrow> approval_context \<Rightarrow> approval_input \<Rightarrow> reservation_decider option \<Rightarrow> string
     \<Rightarrow> ms \<Rightarrow> approval_db \<Rightarrow> approval_error + approval_db \<times> approval_metadata" where
  "insertAutoApprovedIntegrationToolApproval env ctx inp decidedBy newId now db =
     (case requireSessionOwner ctx db of
        Inl e \<Rightarrow> Inl e
      | Inr owner \<Rightarrow>
          let row = new_request env ctx owner inp ApApproved
                      (if decidedBy = Some ByModel then None else Some owner) (Some now) now now
          in Inr (db\<lparr>ad_requests := insert_row newId row (ad_requests db)\<rparr>,
                  approvalMetadata (newId, row)))"

definition insertAutoRejectedIntegrationToolApproval ::
    "redaction_env \<Rightarrow> approval_context \<Rightarrow> approval_input \<Rightarrow> string \<Rightarrow> ms \<Rightarrow> approval_db
     \<Rightarrow> approval_error + approval_db \<times> approval_metadata" where
  "insertAutoRejectedIntegrationToolApproval env ctx inp newId now db =
     (case requireSessionOwner ctx db of
        Inl e \<Rightarrow> Inl e
      | Inr owner \<Rightarrow>
          let row = new_request env ctx owner inp ApAutoRejected None (Some now) now now
          in Inr (db\<lparr>ad_requests := insert_row newId row (ad_requests db)\<rparr>,
                  approvalMetadata (newId, row)))"

definition recordIntegrationToolShadowEvaluation ::
    "redaction_env \<Rightarrow> string option \<Rightarrow> string option \<Rightarrow> string \<Rightarrow> string \<Rightarrow> jsv \<Rightarrow> auto_evaluation
     \<Rightarrow> approval_db \<Rightarrow> approval_db" where
  "recordIntegrationToolShadowEvaluation env userId taskId integrationId toolName summary
       evaluation db =
     db\<lparr>ad_evaluations := ad_evaluations db @
       [\<lparr>sh_userId = userId, sh_taskId = taskId, sh_integrationId = integrationId,
         sh_toolName = toolName, sh_argsSummary = stored_summary env summary,
         sh_evaluation = evaluation\<rparr>]\<rparr>"

subsection \<open>A session's Auto switch\<close>

definition update_session ::
    "string \<Rightarrow> (auto_session \<Rightarrow> bool) \<Rightarrow> (auto_session \<Rightarrow> auto_session) \<Rightarrow> approval_db
     \<Rightarrow> approval_db \<times> bool" where
  "update_session sessionId p f db =
     (case update_where sessionId p f (ad_sessions db) of
        (t, row) \<Rightarrow> (db\<lparr>ad_sessions := t\<rparr>, row \<noteq> None))"

definition suspendIntegrationToolAutoForSession ::
    "string \<Rightarrow> ms \<Rightarrow> approval_db \<Rightarrow> approval_db \<times> bool" where
  "suspendIntegrationToolAutoForSession sessionId now db =
     update_session sessionId (\<lambda>row. as_autoSuspendedAt row = None)
       (\<lambda>row. row\<lparr>as_autoSuspendedAt := Some now\<rparr>) db"

definition setIntegrationToolAutoForSession ::
    "string \<Rightarrow> string \<Rightarrow> bool \<Rightarrow> approval_db \<Rightarrow> approval_db \<times> bool" where
  "setIntegrationToolAutoForSession sessionId userId enabled db =
     update_session sessionId (\<lambda>row. as_ownerUserId row = Some userId)
       (\<lambda>row. row\<lparr>as_autoEnabled := enabled,
                  as_autoSuspendedAt := (if enabled then None else as_autoSuspendedAt row)\<rparr>) db"

record auto_view =
  av_enabled :: bool
  av_suspended :: bool

definition getIntegrationToolAutoForSession ::
    "string \<Rightarrow> string \<Rightarrow> approval_db \<Rightarrow> auto_view option" where
  "getIntegrationToolAutoForSession sessionId userId db =
     (case map_of (ad_sessions db) sessionId of
        None \<Rightarrow> None
      | Some row \<Rightarrow>
          if as_ownerUserId row = Some userId
          then Some \<lparr>av_enabled = as_autoEnabled row, av_suspended = as_autoSuspendedAt row \<noteq> None\<rparr>
          else None)"

definition isIntegrationToolAutoEnabledForSession :: "string \<Rightarrow> approval_db \<Rightarrow> bool" where
  "isIntegrationToolAutoEnabledForSession sessionId db \<longleftrightarrow>
     map_option as_autoEnabled (map_of (ad_sessions db) sessionId) = Some True"

definition isIntegrationToolAutoSuspendedForSession :: "string \<Rightarrow> approval_db \<Rightarrow> bool" where
  "isIntegrationToolAutoSuspendedForSession sessionId db \<longleftrightarrow>
     Option.bind (map_of (ad_sessions db) sessionId) as_autoSuspendedAt \<noteq> None"

subsection \<open>Every transaction as a step\<close>

datatype approval_op =
    OpAsk redaction_env approval_context approval_input string ms
  | OpInsertPending redaction_env approval_context approval_input string ms string
  | OpReserve redaction_env approval_context approval_input "reservation_decider option" string ms
  | OpDeny redaction_env approval_context approval_input string ms
  | OpDecide approval_context string approval_decision ms
  | OpExpire string
  | OpEvaluate string auto_evaluation
  | OpMarkConsumed string string
  | OpClaimReservation string string "session_tool option"
  | OpCloseReservation string
  | OpClaimTaskCall string string ms "string list"
  | OpSuspendAuto string ms
  | OpSetAuto string string bool
  | OpPolicies policy_store string "string list" policy_mode "string \<Rightarrow> string" ms
  | OpShadow redaction_env "string option" "string option" string string jsv auto_evaluation

fun or_same :: "'s \<Rightarrow> 'e + 's \<times> 'a \<Rightarrow> 's" where
  "or_same s (Inl e) = s"
| "or_same s (Inr (s', a)) = s'"

fun approval_step :: "approval_op \<Rightarrow> approval_db \<Rightarrow> approval_db" where
  "approval_step (OpAsk env ctx inp newId now) db =
     or_same db (insertIntegrationToolApproval env ctx inp newId now db)"
| "approval_step (OpInsertPending env ctx inp newId now owner) db =
     or_same db (insert_pending env ctx inp newId now owner db)"
| "approval_step (OpReserve env ctx inp by newId now) db =
     or_same db (insertAutoApprovedIntegrationToolApproval env ctx inp by newId now db)"
| "approval_step (OpDeny env ctx inp newId now) db =
     or_same db (insertAutoRejectedIntegrationToolApproval env ctx inp newId now db)"
| "approval_step (OpDecide ctx approvalId decision now) db =
     or_same db (decideIntegrationToolApproval ctx approvalId decision now db)"
| "approval_step (OpExpire approvalId) db = expireIntegrationToolApproval approvalId db"
| "approval_step (OpEvaluate approvalId evaluation) db =
     recordIntegrationToolAutoEvaluation approvalId evaluation db"
| "approval_step (OpMarkConsumed approvalId userId) db =
     fst (markIntegrationToolApprovalConsumed approvalId userId db)"
| "approval_step (OpClaimReservation approvalId userId tool) db =
     fst (claim_reservation approvalId userId tool db)"
| "approval_step (OpCloseReservation approvalId) db = close_reservation approvalId db"
| "approval_step (OpClaimTaskCall taskId fingerprint now locked) db =
     fst (claimTaskIntegrationToolCall taskId fingerprint now locked db)"
| "approval_step (OpSuspendAuto sessionId now) db =
     fst (suspendIntegrationToolAutoForSession sessionId now db)"
| "approval_step (OpSetAuto sessionId userId enabled) db =
     fst (setIntegrationToolAutoForSession sessionId userId enabled db)"
| "approval_step (OpPolicies store integrationId toolNames mode newId now) db =
     upsertPolicies store integrationId toolNames mode newId now db"
| "approval_step (OpShadow env userId taskId integrationId toolName summary evaluation) db =
     recordIntegrationToolShadowEvaluation env userId taskId integrationId toolName summary
       evaluation db"

text \<open>A random id is a new one.\<close>

fun fresh_ids :: "approval_op \<Rightarrow> approval_db \<Rightarrow> bool" where
  "fresh_ids (OpAsk env ctx inp newId now) db = (map_of (ad_requests db) newId = None)"
| "fresh_ids (OpInsertPending env ctx inp newId now owner) db =
     (map_of (ad_requests db) newId = None)"
| "fresh_ids (OpReserve env ctx inp by newId now) db = (map_of (ad_requests db) newId = None)"
| "fresh_ids (OpDeny env ctx inp newId now) db = (map_of (ad_requests db) newId = None)"
| "fresh_ids _ db = True"

text \<open>
  What a step can do to the requests: nothing; add a row that is born pending, reserved or
  denied; or apply one of the row updates under its guard. Every invariant below is proved from
  this list alone.
\<close>

inductive request_change :: "approval_row table \<Rightarrow> approval_row table \<Rightarrow> bool" where
  rc_same: "request_change t t"
| rc_ask: "\<not> list_ex (\<lambda>(k, row). pending_for (ac_sessionId ctx) (ai_nativeRequestId inp) row) t \<Longrightarrow>
    map_of t newId = None \<Longrightarrow> request_change t (insert_row newId
      (new_request env ctx owner inp ApPending None None (now + approval_window) now) t)"
| rc_reserve: "d = None \<or> d = Some owner \<Longrightarrow> map_of t newId = None \<Longrightarrow>
    request_change t (insert_row newId
      (new_request env ctx owner inp ApApproved d (Some now) now now) t)"
| rc_deny: "map_of t newId = None \<Longrightarrow> request_change t (insert_row newId
    (new_request env ctx owner inp ApAutoRejected None (Some now) now now) t)"
| rc_decide: "request_change t (fst (update_where k (answerable ctx now)
    (\<lambda>row. row\<lparr>ap_status := decided_status decision, ap_decidedByUserId := Some (ac_userId ctx),
              ap_decidedAt := Some now\<rparr>) t))"
| rc_expire: "request_change t (fst (update_where k (\<lambda>row. ap_status row = ApPending)
    (\<lambda>row. row\<lparr>ap_status := ApExpired\<rparr>) t))"
| rc_evaluate: "request_change t (fst (update_where k (\<lambda>row. True)
    (\<lambda>row. row\<lparr>ap_autoEvaluation := Some evaluation\<rparr>) t))"
| rc_claim: "st \<in> {ApConsumed, ApAutoApproved, ApCancelled} \<Longrightarrow>
    request_change t (fst (update_where k (\<lambda>row. ap_status row = ApApproved \<and> g row)
      (\<lambda>row. row\<lparr>ap_status := st\<rparr>) t))"

lemma update_where_same:
  "map_of t k = Some row \<Longrightarrow> p row = q row \<Longrightarrow> update_where k p f t = update_where k q f t"
  by (simp add: update_where_def)

lemma oldest_claimable_Some:
  assumes "oldest_claimable taskId fp now locked db = Some (k, row)" "jsmap_ok (ad_requests db)"
  shows "map_of (ad_requests db) k = Some row \<and> claimable_call taskId fp now row"
proof -
  define l where "l = filter (\<lambda>(k, row). k \<notin> set locked)
    (select_rows (claimable_call taskId fp now) (ad_requests db))"
  obtain rs where "sort_key (\<lambda>(k, row). ap_createdAt row) l = (k, row) # rs"
    using assms(1) by (auto simp: oldest_claimable_def l_def split: list.splits)
  then have "(k, row) \<in> set l"
    by (metis list.set_intros(1) set_sort)
  then show ?thesis
    using assms(2) by (simp add: l_def set_select_rows)
qed

lemma map_of_fold_other:
  "(\<And>x s. g (f x s) = g s) \<Longrightarrow> g (fold f xs s) = g s"
  by (induction xs arbitrary: s) auto

lemma upsertPolicies_frame [simp]:
  "ad_requests (upsertPolicies store i names mode newId now db) = ad_requests db"
  "ad_overrides (upsertPolicies store i names mode newId now db) = ad_overrides db"
  "ad_sessions (upsertPolicies store i names mode newId now db) = ad_sessions db"
  unfolding upsertPolicies_def
  by (rule map_of_fold_other, simp add: upsertPolicy_def split: policy_store.split)+

lemma update_session_frame [simp]:
  "ad_requests (fst (update_session sid p f db)) = ad_requests db"
  "ad_overrides (fst (update_session sid p f db)) = ad_overrides db"
  by (simp_all add: update_session_def split: prod.split)

lemma claimApproved_requests:
  "ad_requests (fst (claimApprovedIntegrationToolApproval k u st c db)) =
     fst (update_where k (\<lambda>row. ap_status row = ApApproved \<and>
       (ap_requesterUserId row = u \<and> c (ad_requests db)))
       (\<lambda>row. row\<lparr>ap_status := st\<rparr>) (ad_requests db))"
  unfolding claimApprovedIntegrationToolApproval_def
  by (simp add: conj_ac split: prod.split)

lemma insert_pending_change:
  "map_of (ad_requests db) newId = None \<Longrightarrow>
   request_change (ad_requests db)
     (ad_requests (or_same db (insert_pending env ctx inp newId now owner db)))"
  by (auto simp: insert_pending_def Let_def intro: rc_same rc_ask split: option.split)

lemma step_request_change:
  assumes ok: "jsmap_ok (ad_requests db)" and fresh: "fresh_ids opr db"
  shows "request_change (ad_requests db) (ad_requests (approval_step opr db))"
proof (cases opr)
  case (OpAsk env ctx inp newId now)
  then show ?thesis
    using fresh insert_pending_change
    by (auto simp: insertIntegrationToolApproval_def intro: rc_same split: sum.split option.split)
next
  case (OpInsertPending env ctx inp newId now owner)
  then show ?thesis using fresh insert_pending_change by simp
next
  case (OpReserve env ctx inp d newId now)
  then show ?thesis
    using fresh
    by (auto simp: insertAutoApprovedIntegrationToolApproval_def Let_def
        intro: rc_same rc_reserve split: sum.split)
next
  case (OpDeny env ctx inp newId now)
  then show ?thesis
    using fresh
    by (auto simp: insertAutoRejectedIntegrationToolApproval_def Let_def
        intro: rc_same rc_deny split: sum.split)
next
  case (OpDecide ctx k decision now)
  let ?f = "\<lambda>row. row\<lparr>ap_status := decided_status decision,
    ap_decidedByUserId := Some (ac_userId ctx), ap_decidedAt := Some now\<rparr>"
  have "ad_requests (approval_step opr db) = fst (update_where k (answerable ctx now) ?f
      (ad_requests db)) \<or> ad_requests (approval_step opr db) = ad_requests db"
    using OpDecide
    by (auto simp: decideIntegrationToolApproval_def upsertSessionOverride_def Let_def
        split: prod.split option.split)
  then show ?thesis using rc_same rc_decide by metis
next
  case (OpClaimTaskCall taskId fp now locked)
  show ?thesis
  proof (cases "oldest_claimable taskId fp now locked db")
    case None
    then show ?thesis
      using OpClaimTaskCall by (simp add: claimTaskIntegrationToolCall_def rc_same)
  next
    case (Some kr)
    obtain k row where kr: "kr = (k, row)" by fastforce
    have row: "map_of (ad_requests db) k = Some row" "ap_status row = ApApproved"
      using oldest_claimable_Some [of taskId fp now locked db k row] Some kr ok
      by (auto simp: claimable_call_def)
    have "ad_requests (approval_step opr db) =
        fst (update_where k (\<lambda>r. ap_status r = ApApproved \<and> True)
          (\<lambda>r. r\<lparr>ap_status := claimed_call_status row\<rparr>) (ad_requests db))"
      using OpClaimTaskCall Some kr row by (simp add: claimTaskIntegrationToolCall_def
          update_where_def)
    then show ?thesis
      by (simp only:) (rule rc_claim, simp add: claimed_call_status_def)
  qed
next
  case (OpMarkConsumed k u)
  then show ?thesis
    by (simp add: markIntegrationToolApprovalConsumed_def claimApproved_requests rc_claim)
next
  case (OpClaimReservation k u tool)
  then show ?thesis
    by (simp add: claim_reservation_def claimApproved_requests rc_claim)
next
  case (OpCloseReservation k)
  then show ?thesis
    using rc_claim [of ApCancelled "ad_requests db" k "\<lambda>row. True"]
    by (simp add: close_reservation_def)
qed (simp_all add: rc_same rc_expire rc_evaluate expireIntegrationToolApproval_def
    recordIntegrationToolAutoEvaluation_def suspendIntegrationToolAutoForSession_def
    setIntegrationToolAutoForSession_def recordIntegrationToolShadowEvaluation_def)

lemma jsmap_ok_request_change: "request_change t t' \<Longrightarrow> jsmap_ok t \<Longrightarrow> jsmap_ok t'"
  by (induction rule: request_change.induct) simp_all

subsection \<open>Well-formed requests\<close>

text \<open>
  What the type of a row does not say: a row has a decision time exactly when it left the
  pending state other than by expiring; only the requester is ever recorded as the decider, and
  always on a rejection; an ask that was not answered, or that Auto denied, has no decider.
\<close>

definition request_wf :: "approval_row \<Rightarrow> bool" where
  "request_wf row \<longleftrightarrow>
     (ap_decidedAt row = None \<longleftrightarrow> ap_status row \<in> {ApPending, ApExpired}) \<and>
     (ap_decidedByUserId row = None \<or> ap_decidedByUserId row = Some (ap_requesterUserId row)) \<and>
     (ap_status row = ApRejected \<longrightarrow> ap_decidedByUserId row = Some (ap_requesterUserId row)) \<and>
     (ap_status row \<in> {ApPending, ApExpired, ApAutoRejected} \<longrightarrow> ap_decidedByUserId row = None)"

definition pending_unique :: "approval_row table \<Rightarrow> bool" where
  "pending_unique t \<longleftrightarrow>
     (\<forall>s n k k'. row_is k (pending_for s n) t \<longrightarrow> row_is k' (pending_for s n) t \<longrightarrow> k = k')"

definition requests_ok :: "approval_db \<Rightarrow> bool" where
  "requests_ok db \<longleftrightarrow>
     jsmap_ok (ad_requests db) \<and> rows_all request_wf (ad_requests db) \<and>
     pending_unique (ad_requests db)"

lemma new_request_wf:
  "d = None \<or> d = Some owner \<Longrightarrow>
     request_wf (new_request env ctx owner inp ApApproved d (Some t) e now)"
  "request_wf (new_request env ctx owner inp ApPending None None e now)"
  "request_wf (new_request env ctx owner inp ApAutoRejected None (Some t) e now)"
  by (auto simp: request_wf_def new_request_def)

lemma rows_wf_request_change:
  "request_change t t' \<Longrightarrow> rows_all request_wf t \<Longrightarrow> rows_all request_wf t'"
proof (induction rule: request_change.induct)
  case (rc_decide t k ctx now decision)
  then show ?case
    by (rule rows_all_update_where) (simp add: request_wf_def answerable_def decided_status_def)
next
  case (rc_claim st t k g)
  show ?case
    using rc_claim(2) by (rule rows_all_update_where) (use rc_claim(1) in \<open>auto simp: request_wf_def\<close>)
qed (auto intro!: rows_all_insert_row rows_all_update_where new_request_wf simp: request_wf_def)

text \<open>No step makes a row pending but the insert that finds none.\<close>

lemma pending_update_where:
  assumes "\<And>row. p row \<Longrightarrow> ap_status (f row) = ApPending \<Longrightarrow>
      ap_status row = ApPending \<and> ap_sessionId (f row) = ap_sessionId row \<and>
      ap_nativeRequestId (f row) = ap_nativeRequestId row"
    and "row_is i (pending_for s n) (fst (update_where k p f t))"
  shows "row_is i (pending_for s n) t"
  using assms by (auto simp: row_is_def map_of_update_where pending_for_def split: if_splits)

lemma pending_unique_mono:
  "pending_unique t \<Longrightarrow>
   (\<And>i s n. row_is i (pending_for s n) t' \<Longrightarrow> row_is i (pending_for s n) t) \<Longrightarrow> pending_unique t'"
  unfolding pending_unique_def by blast

lemma row_is_list_ex: "row_is k p t \<Longrightarrow> list_ex (\<lambda>(k, row). p row) t" for t :: "'r table"
  by (auto simp: row_is_def list_ex_iff dest!: map_of_SomeD intro!: bexI)

lemma pending_unique_request_change:
  "request_change t t' \<Longrightarrow> pending_unique t \<Longrightarrow> pending_unique t'"
proof (induction rule: request_change.induct)
  case (rc_ask ctx inp t newId env owner now)
  let ?row = "new_request env ctx owner inp ApPending None None (now + approval_window) now"
  have none: "\<not> row_is i (pending_for (ac_sessionId ctx) (ai_nativeRequestId inp)) t" for i
    using rc_ask(1) row_is_list_ex by blast
  have split: "row_is i (pending_for s n) (insert_row newId ?row t) \<longleftrightarrow>
      (if i = newId then s = ac_sessionId ctx \<and> n = ai_nativeRequestId inp
       else row_is i (pending_for s n) t)" for i s n
    by (auto simp: row_is_def map_of_insert_row pending_for_def new_request_def)
  show ?case
    using rc_ask(3) none unfolding pending_unique_def split by (auto split: if_splits)
next
  case (rc_reserve d owner t newId env ctx inp now)
  then show ?case
    by (elim pending_unique_mono)
      (auto simp: row_is_def map_of_insert_row pending_for_def new_request_def split: if_splits)
next
  case (rc_deny t newId env ctx owner inp now)
  then show ?case
    by (elim pending_unique_mono)
      (auto simp: row_is_def map_of_insert_row pending_for_def new_request_def split: if_splits)
qed (simp, (erule pending_unique_mono, erule pending_update_where [rotated],
      auto simp: decided_status_def split: if_splits)+)

interpretation requests: object_contract approval_step fresh_ids requests_ok
proof
  fix db opr
  assume "requests_ok db" and fresh: "fresh_ids opr db"
  then have "request_change (ad_requests db) (ad_requests (approval_step opr db))"
    by (simp add: requests_ok_def step_request_change)
  then show "requests_ok (approval_step opr db)"
    using \<open>requests_ok db\<close> unfolding requests_ok_def
    by (metis jsmap_ok_request_change rows_wf_request_change pending_unique_request_change)
qed

text \<open>C39: Every transaction keeps the requests well-formed, whatever their order: ids are unique; a
  row carries a decision time exactly when it was decided; nobody but the requester is recorded
  as having decided it, and a rejection is always theirs; and at most one ask is open for a
  native permission request of a session, also when two inserts race.\<close>

theorem approval_rows_stay_well_formed:
  assumes "requests_ok db" and "requests.admissible_run ops db"
  shows "requests_ok (fold approval_step ops db)"
  using assms by (rule requests.run_ok)

text \<open>A session of one owner, with an ask of its own agent.\<close>

definition plain_env :: redaction_env where
  "plain_env = \<lparr>re_hasSecret = (\<lambda>s. False), re_ellipsis = []\<rparr>"

definition example_ctx :: approval_context where
  "example_ctx = \<lparr>ac_sessionId = ''s'', ac_userId = ''ann''\<rparr>"

definition example_call :: approval_input where
  "example_call =
     \<lparr>ai_integrationId = ''github'', ai_toolName = ''merge'', ai_nativeRequestId = ''req-1'',
      ai_argsFingerprint = ''f'', ai_argsSummary = JObj [], ai_taskId = None,
      ai_autoEvaluation = None\<rparr>"

definition example_db :: approval_db where
  "example_db =
     \<lparr>ad_users = [''ann''],
      ad_sessions = [(''s'', \<lparr>as_ownerUserId = Some ''ann'', as_autoEnabled = True,
                              as_autoSuspendedAt = None\<rparr>)],
      ad_requests = [], ad_overrides = [], ad_policies = [], ad_userPolicies = [],
      ad_evaluations = []\<rparr>"

lemma example_owner [simp]: "requireSessionOwner example_ctx example_db = Inr ''ann''"
  by (simp add: requireSessionOwner_def example_ctx_def example_db_def)

lemma example_requests [simp]: "ad_requests example_db = []" "ad_overrides example_db = []"
  by (simp_all add: example_db_def)

lemma example_db_ok [simp]: "requests_ok example_db"
  by (simp add: requests_ok_def pending_unique_def row_is_def)

definition example_asked :: approval_db where
  "example_asked = approval_step (OpAsk plain_env example_ctx example_call ''a'' 0) example_db"

definition example_row :: approval_row where
  "example_row = new_request plain_env example_ctx ''ann'' example_call ApPending None None 600000 0"

lemma example_asked_requests [simp]: "ad_requests example_asked = [(''a'', example_row)]"
  by (simp add: example_asked_def insertIntegrationToolApproval_def find_row_def
      insert_pending_def Let_def insert_row_def example_row_def
      INTEGRATION_TOOL_APPROVAL_WINDOW_MINUTES_def)

lemma example_asked_overrides [simp]: "ad_overrides example_asked = []"
  by (simp add: example_asked_def insertIntegrationToolApproval_def find_row_def
      insert_pending_def Let_def)

lemma example_row_fields [simp]:
  "ap_sessionId example_row = ''s''" "ap_requesterUserId example_row = ''ann''"
  "ap_status example_row = ApPending" "ap_expiresAt example_row = 600000"
  "ap_integrationId example_row = ''github''" "ap_toolName example_row = ''merge''"
  "ap_nativeRequestId example_row = ''req-1''" "ap_taskId example_row = None"
  by (simp_all add: example_row_def new_request_def example_ctx_def example_call_def)

theorem approval_rows_stay_well_formed_witness:
  "requests_ok (fold approval_step
     [OpAsk plain_env example_ctx example_call ''a'' 0, OpDecide example_ctx ''a'' DecApproved 5,
      OpMarkConsumed ''a'' ''ann''] example_db)"
  by (rule approval_rows_stay_well_formed) simp_all

subsection \<open>A decision is final and used once\<close>

definition terminal :: "approval_status \<Rightarrow> bool" where
  "terminal st \<longleftrightarrow> st \<notin> {ApPending, ApApproved}"

text \<open>The row but for the model's view recorded beside it.\<close>

definition same_decision :: "approval_row \<Rightarrow> approval_row \<Rightarrow> bool" where
  "same_decision row0 row \<longleftrightarrow> row\<lparr>ap_autoEvaluation := ap_autoEvaluation row0\<rparr> = row0"

lemma same_decision_refl [simp]: "same_decision row row"
  by (simp add: same_decision_def)

lemma same_decision_status: "same_decision row0 row \<Longrightarrow> ap_status row = ap_status row0"
  unfolding same_decision_def by (drule arg_cong [where f = ap_status]) simp

lemma settled_request_change:
  assumes "request_change t t'" "row_is k (same_decision row0) t" "terminal (ap_status row0)"
  shows "row_is k (same_decision row0) t'"
  using assms
proof (induction rule: request_change.induct)
  case (rc_evaluate t i evaluation)
  then show ?case
    by (intro row_is_update_where) (auto simp: same_decision_def)
next
  case (rc_decide t i ctx now decision)
  then show ?case
    by (intro row_is_update_where)
      (auto simp: answerable_def terminal_def dest: same_decision_status)
next
  case (rc_expire t i)
  then show ?case
    by (intro row_is_update_where) (auto simp: terminal_def dest: same_decision_status)
next
  case (rc_claim st t i g)
  then show ?case
    by (intro row_is_update_where) (auto simp: terminal_def dest: same_decision_status)
qed (auto intro: row_is_insert_row)

definition settled_db :: "string \<Rightarrow> approval_row \<Rightarrow> approval_db \<Rightarrow> bool" where
  "settled_db k row0 db \<longleftrightarrow>
     jsmap_ok (ad_requests db) \<and> terminal (ap_status row0) \<and>
     row_is k (same_decision row0) (ad_requests db)"

interpretation settled_request: object_contract approval_step fresh_ids "settled_db k row0"
proof
  fix db opr
  assume "settled_db k row0 db" "fresh_ids opr db"
  then show "settled_db k row0 (approval_step opr db)"
    unfolding settled_db_def
    by (metis step_request_change jsmap_ok_request_change settled_request_change)
qed

text \<open>A terminal approval is never resurrected: once a request is rejected, expired, consumed,
  cancelled or decided by Auto, no transaction changes it again, except that the model's view
  may be recorded beside it.\<close>

theorem terminal_requests_never_change:
  assumes "jsmap_ok (ad_requests db)" and "map_of (ad_requests db) k = Some row0"
    and "terminal (ap_status row0)" and "requests.admissible_run ops db"
  shows "map_option (\<lambda>row. row\<lparr>ap_autoEvaluation := ap_autoEvaluation row0\<rparr>)
           (map_of (ad_requests (fold approval_step ops db)) k) = Some row0"
proof -
  have "settled_db k row0 db" using assms by (simp add: settled_db_def row_is_def)
  then have "settled_db k row0 (fold approval_step ops db)"
    using assms(4) by (rule settled_request.run_ok)
  then show ?thesis by (auto simp: settled_db_def row_is_def same_decision_def)
qed

theorem terminal_requests_never_change_witness:
  "let db = approval_step (OpDecide example_ctx ''a'' DecRejected 5) example_asked;
       row0 = example_row\<lparr>ap_status := ApRejected, ap_decidedByUserId := Some ''ann'',
                          ap_decidedAt := Some 5\<rparr>;
       ops = [OpDecide example_ctx ''a'' DecApproved 6, OpMarkConsumed ''a'' ''ann'']
   in map_option (\<lambda>row. row\<lparr>ap_autoEvaluation := ap_autoEvaluation row0\<rparr>)
        (map_of (ad_requests (fold approval_step ops db)) ''a'') = Some row0"
  unfolding Let_def
  by (rule terminal_requests_never_change)
    (simp_all add: decideIntegrationToolApproval_def update_where_def answerable_def
      example_ctx_def decided_status_def terminal_def jsmap_ok_def)

text \<open>The three ways an approved row is used: relayed, claimed for Auto, claimed at the proxy.\<close>

datatype approval_claim =
    ClaimRelay string string
  | ClaimReservation string string "session_tool option"
  | ClaimTaskCall string string ms "string list"

definition run_claim :: "approval_claim \<Rightarrow> approval_db \<Rightarrow> approval_db \<times> string option" where
  "run_claim claim db =
     (case claim of
        ClaimRelay k u \<Rightarrow>
          (case markIntegrationToolApprovalConsumed k u db of
             (db', won) \<Rightarrow> (db', if won then Some k else None))
      | ClaimReservation k u tool \<Rightarrow>
          (case claimAutoApprovedIntegrationToolApproval k u tool db of
             (db', won) \<Rightarrow> (db', if won then Some k else None))
      | ClaimTaskCall taskId fingerprint now locked \<Rightarrow>
          (case claimTaskIntegrationToolCall taskId fingerprint now locked db of
             (db', won) \<Rightarrow>
               (db', if won then map_option fst (oldest_claimable taskId fingerprint now locked db)
                     else None)))"

lemma claimApproved_won:
  assumes "claimApprovedIntegrationToolApproval k u st c db = (db', True)"
  shows "\<exists>row. map_of (ad_requests db) k = Some row \<and> ap_status row = ApApproved \<and>
      ap_requesterUserId row = u \<and> c (ad_requests db) \<and>
      map_of (ad_requests db') k = Some (row\<lparr>ap_status := st\<rparr>)"
  using assms
  by (auto simp: claimApprovedIntegrationToolApproval_def update_where_def update_conv'
      split: option.splits if_splits)

lemma claimAuto_won:
  assumes "claimAutoApprovedIntegrationToolApproval k u tool db = (db', True)"
  shows "claim_reservation k u tool db = (db', True)"
  using assms by (auto simp: claimAutoApprovedIntegrationToolApproval_def split: prod.splits)

lemma run_claim_won:
  assumes "run_claim claim db = (db', Some k)" "jsmap_ok (ad_requests db)"
  shows "\<exists>row st. map_of (ad_requests db) k = Some row \<and> ap_status row = ApApproved \<and>
      map_of (ad_requests db') k = Some (row\<lparr>ap_status := st\<rparr>) \<and>
      st \<in> {ApConsumed, ApAutoApproved}"
proof (cases claim)
  case (ClaimRelay i u)
  then have "claimApprovedIntegrationToolApproval i u ApConsumed (\<lambda>t. True) db = (db', True)"
      and "i = k"
    using assms(1)
    by (auto simp: run_claim_def markIntegrationToolApprovalConsumed_def split: prod.splits if_splits)
  then show ?thesis using claimApproved_won by fastforce
next
  case (ClaimReservation i u tool)
  then have "claimAutoApprovedIntegrationToolApproval i u tool db = (db', True)" and "i = k"
    using assms(1) by (auto simp: run_claim_def split: prod.splits if_splits)
  then show ?thesis
    using claimApproved_won claimAuto_won unfolding claim_reservation_def by fastforce
next
  case (ClaimTaskCall taskId fp now locked)
  then obtain row where old: "oldest_claimable taskId fp now locked db = Some (k, row)"
      and db': "ad_requests db' = fst (update_where k (\<lambda>r. True)
        (\<lambda>r. r\<lparr>ap_status := claimed_call_status row\<rparr>) (ad_requests db))"
    using assms(1)
    by (auto simp: run_claim_def claimTaskIntegrationToolCall_def split: option.splits prod.splits)
  have row: "map_of (ad_requests db) k = Some row" "ap_status row = ApApproved"
    using oldest_claimable_Some [OF old assms(2)] by (auto simp: claimable_call_def)
  then have "map_of (ad_requests db') k = Some (row\<lparr>ap_status := claimed_call_status row\<rparr>)"
    by (simp add: db' map_of_update_where)
  then show ?thesis using row unfolding claimed_call_status_def by fastforce
qed

lemma jsmap_ok_step:
  "jsmap_ok (ad_requests db) \<Longrightarrow> fresh_ids opr db \<Longrightarrow> jsmap_ok (ad_requests (approval_step opr db))"
  using step_request_change jsmap_ok_request_change by blast

lemma claim_request_change:
  assumes "run_claim claim db = (db', Some k)" "jsmap_ok (ad_requests db)"
  shows "jsmap_ok (ad_requests db')"
proof (cases claim)
  case (ClaimTaskCall taskId fp now locked)
  then have "db' = approval_step (OpClaimTaskCall taskId fp now locked) db"
    using assms(1) by (auto simp: run_claim_def split: prod.splits)
  then show ?thesis
    using jsmap_ok_step [of db "OpClaimTaskCall taskId fp now locked"] assms(2) by simp
next
  case (ClaimRelay i u)
  then have "db' = approval_step (OpMarkConsumed i u) db"
    using assms(1) by (auto simp: run_claim_def split: prod.splits)
  then show ?thesis
    using jsmap_ok_step [of db "OpMarkConsumed i u"] assms(2) by simp
next
  case (ClaimReservation i u tool)
  then have "db' = approval_step (OpClaimReservation i u tool) db"
    using assms(1) claimAuto_won [of i u tool db db']
    by (auto simp: run_claim_def split: prod.splits if_splits)
  then show ?thesis
    using jsmap_ok_step [of db "OpClaimReservation i u tool"] assms(2) by simp
qed

text \<open>C4: One approval runs one call: once any claim has won an approved request, whether the relay
  of a card, the relay of a reservation or the integration proxy, no later claim of any kind
  wins the same request, whatever transactions come between them.\<close>

theorem approval_runs_one_call:
  assumes "jsmap_ok (ad_requests db)" and "run_claim claim db = (db', Some k)"
    and "requests.admissible_run ops db'"
  shows "snd (run_claim later (fold approval_step ops db')) \<noteq> Some k"
proof
  define db'' where "db'' = fold approval_step ops db'"
  assume "snd (run_claim later (fold approval_step ops db')) = Some k"
  then obtain db3 where won: "run_claim later db'' = (db3, Some k)"
    by (metis db''_def prod.collapse)
  obtain row st where row: "map_of (ad_requests db') k = Some (row\<lparr>ap_status := st\<rparr>)"
      and st: "st \<in> {ApConsumed, ApAutoApproved}"
    using run_claim_won [OF assms(2,1)] by blast
  have "settled_db k (row\<lparr>ap_status := st\<rparr>) db'"
    using row st claim_request_change [OF assms(2,1)]
    by (auto simp: settled_db_def row_is_def terminal_def)
  then have "settled_db k (row\<lparr>ap_status := st\<rparr>) db''"
    unfolding db''_def using assms(3) by (rule settled_request.run_ok)
  then show False
    using run_claim_won [OF won] st
    by (auto simp: settled_db_def row_is_def dest: same_decision_status)
qed

theorem approval_runs_one_call_witness:
  "let db = approval_step (OpDecide example_ctx ''a'' DecApproved 5) example_asked;
       db' = fst (run_claim (ClaimRelay ''a'' ''ann'') db)
   in snd (run_claim (ClaimRelay ''a'' ''ann'')
        (fold approval_step [OpDecide example_ctx ''a'' DecApproved 6, OpExpire ''a''] db'))
      \<noteq> Some ''a''"
  unfolding Let_def
  by (rule approval_runs_one_call [where claim = "ClaimRelay ''a'' ''ann''"
        and db = "approval_step (OpDecide example_ctx ''a'' DecApproved 5) example_asked"])
    (simp_all add: decideIntegrationToolApproval_def update_where_def answerable_def
      example_ctx_def decided_status_def jsmap_ok_def run_claim_def
      markIntegrationToolApprovalConsumed_def claimApprovedIntegrationToolApproval_def)

subsection \<open>The answer of a person\<close>

text \<open>An answer counts exactly when the requester gives it to their own pending, unexpired ask,
  in the session that asked; then it is recorded with its time and no other request changes, and
  "allow for session" also stores the override for that tool. Every other answer, a second one
  included, fails and changes nothing.\<close>

theorem decision_is_the_requesters_in_time:
  "decideIntegrationToolApproval ctx k decision now db =
     (case map_of (ad_requests db) k of
        None \<Rightarrow> Inl ApprovalNotFound
      | Some row \<Rightarrow>
          if ap_sessionId row = ac_sessionId ctx \<and> ap_requesterUserId row = ac_userId ctx \<and>
             ap_status row = ApPending \<and> now < ap_expiresAt row
          then let row' = row\<lparr>ap_status := (if decision = DecRejected then ApRejected else ApApproved),
                              ap_decidedByUserId := Some (ac_userId ctx),
                              ap_decidedAt := Some now\<rparr>;
                   tool = (ac_sessionId ctx, ap_integrationId row, ap_toolName row)
               in Inr (db\<lparr>ad_requests := AList.update k row' (ad_requests db),
                          ad_overrides :=
                            (if decision = DecApprovedForSession
                             then AList.update tool \<lparr>ov_mode = OverrideAllow,
                                                     ov_setByUserId = ac_userId ctx\<rparr>
                                    (ad_overrides db)
                             else ad_overrides db)\<rparr>,
                       approvalMetadata (k, row'))
          else Inl ApprovalNotFound)"
  by (auto simp: decideIntegrationToolApproval_def update_where_def answerable_def
      decided_status_def upsertSessionOverride_def Let_def split: option.split)

text \<open>The owner rejected a call of the session's own agent to the tool.\<close>

definition own_rejection :: "string \<Rightarrow> session_tool \<Rightarrow> approval_row \<Rightarrow> bool" where
  "own_rejection userId tool row \<longleftrightarrow>
     (case tool of (sessionId, integrationId, toolName) \<Rightarrow>
        rejected_call \<lparr>ac_sessionId = sessionId, ac_userId = userId\<rparr> None integrationId toolName row)"

lemma own_rejection_terminal: "own_rejection u tool row \<Longrightarrow> terminal (ap_status row)"
  by (auto simp: own_rejection_def rejected_call_def terminal_def split: prod.splits)

lemma own_rejection_same:
  assumes "own_rejection u tool row0" "same_decision row0 row"
  shows "own_rejection u tool row"
proof -
  have "own_rejection u tool (row\<lparr>ap_autoEvaluation := ap_autoEvaluation row0\<rparr>)"
    using assms unfolding same_decision_def by simp
  then show ?thesis
    by (simp add: own_rejection_def rejected_call_def decided_by_owner_def decidedCallScope_def
        split: prod.splits)
qed

lemma reservation_blocked:
  assumes "row_is k (own_rejection u tool) (ad_requests db)"
  shows "claim_reservation i u (Some tool) db = (db, False)"
proof -
  obtain s iid tn where tool: "tool = (s, iid, tn)" by (cases tool)
  have "list_ex (\<lambda>(k, row). own_rejection u tool row) (ad_requests db)"
    using assms by (rule row_is_list_ex)
  then have "\<not> not_rejected tool u (ad_requests db)"
    by (simp add: not_rejected_def own_rejection_def tool)
  then show ?thesis
    by (simp add: claim_reservation_def claimApprovedIntegrationToolApproval_def update_where_def
        split: option.split)
qed

lemma close_reservation_closes:
  "row_all i (\<lambda>row. ap_status row \<noteq> ApApproved) (ad_requests (close_reservation i db))"
  by (auto simp: close_reservation_def row_all_def map_of_update_where split: if_splits)


definition example_rejected :: approval_db where
  "example_rejected = approval_step (OpDecide example_ctx ''a'' DecRejected 5) example_asked"

lemma example_rejected_requests [simp]:
  "ad_requests example_rejected =
     [(''a'', example_row\<lparr>ap_status := ApRejected, ap_decidedByUserId := Some ''ann'',
                          ap_decidedAt := Some 5\<rparr>)]"
  by (simp add: example_rejected_def decideIntegrationToolApproval_def update_where_def
      answerable_def example_ctx_def decided_status_def)


subsection \<open>Where an override comes from\<close>

text \<open>The decided ask an override of a tool rests on; the answer may have been used since.\<close>

definition backs :: "session_tool \<Rightarrow> string \<Rightarrow> approval_row \<Rightarrow> bool" where
  "backs tool u row \<longleftrightarrow>
     tool = (ap_sessionId row, ap_integrationId row, ap_toolName row) \<and>
     ap_requesterUserId row = u \<and> ap_decidedByUserId row = Some u \<and>
     ap_status row \<in> {ApApproved, ApConsumed, ApAutoApproved, ApCancelled}"

definition overrides_backed :: "approval_db \<Rightarrow> bool" where
  "overrides_backed db \<longleftrightarrow>
     jsmap_ok (ad_requests db) \<and>
     (\<forall>tool ov. map_of (ad_overrides db) tool = Some ov \<longrightarrow>
        ov_mode ov = OverrideAllow \<and> (\<exists>k. row_is k (backs tool (ov_setByUserId ov)) (ad_requests db)))"

lemma backs_request_change:
  "request_change t t' \<Longrightarrow> row_is k (backs tool u) t \<Longrightarrow> row_is k (backs tool u) t'"
  by (induction rule: request_change.induct)
    (auto intro!: row_is_insert_row row_is_update_where simp: backs_def answerable_def)

lemma step_overrides:
  "ad_overrides (approval_step opr db) = ad_overrides db \<or>
   (\<exists>ctx k now row. opr = OpDecide ctx k DecApprovedForSession now \<and>
      map_of (ad_requests (approval_step opr db)) k = Some row \<and>
      backs (ac_sessionId ctx, ap_integrationId row, ap_toolName row) (ac_userId ctx) row \<and>
      ad_overrides (approval_step opr db) =
        AList.update (ac_sessionId ctx, ap_integrationId row, ap_toolName row)
          \<lparr>ov_mode = OverrideAllow, ov_setByUserId = ac_userId ctx\<rparr> (ad_overrides db))"
proof (cases opr)
  case (OpDecide ctx k decision now)
  then show ?thesis
    by (auto simp: decideIntegrationToolApproval_def update_where_def update_conv' answerable_def
        upsertSessionOverride_def backs_def decided_status_def Let_def split: option.split)
next
  case (OpAsk env ctx inp newId now)
  then show ?thesis
    by (auto simp: insertIntegrationToolApproval_def insert_pending_def Let_def
        split: sum.split option.split)
next
  case (OpInsertPending env ctx inp newId now owner)
  then show ?thesis by (auto simp: insert_pending_def Let_def split: option.split)
next
  case (OpReserve env ctx inp d newId now)
  then show ?thesis
    by (auto simp: insertAutoApprovedIntegrationToolApproval_def Let_def split: sum.split)
next
  case (OpDeny env ctx inp newId now)
  then show ?thesis
    by (auto simp: insertAutoRejectedIntegrationToolApproval_def Let_def split: sum.split)
qed (simp_all add: expireIntegrationToolApproval_def recordIntegrationToolAutoEvaluation_def
    markIntegrationToolApprovalConsumed_def claimApprovedIntegrationToolApproval_def
    claim_reservation_def close_reservation_def claimTaskIntegrationToolCall_def
    suspendIntegrationToolAutoForSession_def setIntegrationToolAutoForSession_def
    recordIntegrationToolShadowEvaluation_def split: prod.split option.split)

interpretation overrides: object_contract approval_step fresh_ids overrides_backed
proof
  fix db opr
  assume inv: "overrides_backed db" and fresh: "fresh_ids opr db"
  let ?db' = "approval_step opr db"
  have ok: "jsmap_ok (ad_requests db)" using inv by (simp add: overrides_backed_def)
  note change = step_request_change [OF ok fresh]
  have kept: "\<exists>k. row_is k (backs tool (ov_setByUserId ov)) (ad_requests ?db')"
    if "map_of (ad_overrides db) tool = Some ov" for tool ov
    using inv that backs_request_change [OF change] unfolding overrides_backed_def by blast
  have "ov_mode ov = OverrideAllow \<and> (\<exists>k. row_is k (backs tool (ov_setByUserId ov)) (ad_requests ?db'))"
    if ov: "map_of (ad_overrides ?db') tool = Some ov" for tool ov
    using step_overrides [of opr db]
  proof (elim disjE exE conjE)
    assume "ad_overrides ?db' = ad_overrides db"
    then show ?thesis using ov kept inv unfolding overrides_backed_def by metis
  next
    fix ctx :: approval_context and k now and row :: approval_row
    let ?tool = "(ac_sessionId ctx, ap_integrationId row, ap_toolName row)"
    assume row: "map_of (ad_requests ?db') k = Some row" "backs ?tool (ac_userId ctx) row"
      and upd: "ad_overrides ?db' = AList.update ?tool
          \<lparr>ov_mode = OverrideAllow, ov_setByUserId = ac_userId ctx\<rparr> (ad_overrides db)"
    show ?thesis
    proof (cases "tool = ?tool")
      case True
      then have "ov = \<lparr>ov_mode = OverrideAllow, ov_setByUserId = ac_userId ctx\<rparr>"
        using ov by (simp add: upd update_conv')
      then show ?thesis using row True unfolding row_is_def by auto
    next
      case False
      then have "map_of (ad_overrides db) tool = Some ov"
        using ov by (simp add: upd update_conv')
      then show ?thesis using kept inv unfolding overrides_backed_def by metis
    qed
  qed
  then show "overrides_backed ?db'"
    using jsmap_ok_step [OF ok fresh] unfolding overrides_backed_def by blast
qed



subsection \<open>What the policy tables hold\<close>

definition stored_mode :: "policy_store \<Rightarrow> tool_key \<Rightarrow> approval_db \<Rightarrow> policy_mode option" where
  "stored_mode store k db =
     map_option pr_mode
       (case store of
          DeploymentStore by \<Rightarrow> map_of (ad_policies db) k
        | UserStore u \<Rightarrow> map_of (ad_userPolicies db) (u, k))"

fun same_table :: "policy_store \<Rightarrow> policy_store \<Rightarrow> bool" where
  "same_table (DeploymentStore a) (DeploymentStore b) = True"
| "same_table (UserStore u) (UserStore v) = (u = v)"
| "same_table _ _ = False"

definition policies_ok :: "approval_db \<Rightarrow> bool" where
  "policies_ok db \<longleftrightarrow>
     jsmap_ok (ad_policies db) \<and> jsmap_ok (ad_userPolicies db) \<and>
     (\<forall>store k. stored_mode store k db \<noteq> Some ModeAllow)"

lemma map_of_put_policy:
  "map_of (put_policy k mode by newId now t) k' =
     (if k' = k then (if mode = ModeAllow then None
                      else Some (changed_policy mode by newId now (map_of t k)))
      else map_of t k')"
  by (simp add: put_policy_def update_conv' delete_conv')

lemma pr_mode_changed [simp]: "pr_mode (changed_policy mode by newId now old) = mode"
  by (simp add: changed_policy_def split: option.split)

lemma jsmap_ok_put_policy [simp]: "jsmap_ok t \<Longrightarrow> jsmap_ok (put_policy k mode by newId now t)"
  by (simp add: put_policy_def)

lemma stored_mode_upsertPolicy:
  "stored_mode st (i', t') (upsertPolicy store i t mode newId now db) =
     (if same_table store st \<and> i' = i \<and> t' = t
      then (if mode = ModeAllow then None else Some mode) else stored_mode st (i', t') db)"
  by (cases store; cases st) (auto simp: stored_mode_def upsertPolicy_def map_of_put_policy)

text \<open>Setting modes, for one tool or many, changes the stored mode of exactly those tools in the
  table written to: the new mode, or no row at all for the default; one user's choices never
  change another user's or the deployment's, and repeating a name changes nothing.\<close>

theorem upsert_sets_the_named_modes:
  "stored_mode st (i', t') (upsertPolicies store i names mode newId now db) =
     (if same_table store st \<and> i' = i \<and> t' \<in> set names
      then (if mode = ModeAllow then None else Some mode) else stored_mode st (i', t') db)"
proof -
  have "stored_mode st (i', t') (fold (\<lambda>t. upsertPolicy store i t mode (newId t) now) ts db) =
      (if same_table store st \<and> i' = i \<and> t' \<in> set ts
       then (if mode = ModeAllow then None else Some mode) else stored_mode st (i', t') db)" for ts
    by (induction ts arbitrary: db) (auto simp: stored_mode_upsertPolicy)
  then show ?thesis by (simp add: upsertPolicies_def)
qed

lemma policies_ok_upsertPolicy: "policies_ok db \<Longrightarrow> policies_ok (upsertPolicy store i t mode newId now db)"
proof -
  assume ok: "policies_ok db"
  have "stored_mode st k (upsertPolicy store i t mode newId now db) \<noteq> Some ModeAllow" for st k
    using ok by (cases k) (simp add: stored_mode_upsertPolicy policies_ok_def)
  then show ?thesis
    using ok by (auto simp: policies_ok_def upsertPolicy_def split: policy_store.split)
qed

lemma policies_ok_cong:
  "ad_policies db' = ad_policies db \<Longrightarrow> ad_userPolicies db' = ad_userPolicies db \<Longrightarrow>
   policies_ok db \<Longrightarrow> policies_ok db'"
proof -
  assume same: "ad_policies db' = ad_policies db" "ad_userPolicies db' = ad_userPolicies db"
  then have "stored_mode st k db' = stored_mode st k db" for st k
    by (simp add: stored_mode_def split: policy_store.split)
  then show "policies_ok db \<Longrightarrow> policies_ok db'" using same by (simp add: policies_ok_def)
qed

lemma step_policies:
  assumes "\<And>store i names mode newId now. opr \<noteq> OpPolicies store i names mode newId now"
  shows "ad_policies (approval_step opr db) = ad_policies db \<and>
    ad_userPolicies (approval_step opr db) = ad_userPolicies db"
proof (cases opr)
  case (OpPolicies store i names mode newId now)
  then show ?thesis using assms by blast
qed (auto simp: insertIntegrationToolApproval_def insert_pending_def
    insertAutoApprovedIntegrationToolApproval_def insertAutoRejectedIntegrationToolApproval_def
    decideIntegrationToolApproval_def upsertSessionOverride_def expireIntegrationToolApproval_def
    recordIntegrationToolAutoEvaluation_def markIntegrationToolApprovalConsumed_def
    claimApprovedIntegrationToolApproval_def claim_reservation_def close_reservation_def
    claimTaskIntegrationToolCall_def suspendIntegrationToolAutoForSession_def update_session_def
    setIntegrationToolAutoForSession_def recordIntegrationToolShadowEvaluation_def Let_def
    split: prod.split option.split sum.split)

interpretation policies: object_contract approval_step "\<lambda>opr db. True" policies_ok
proof
  fix db opr
  assume ok: "policies_ok db"
  show "policies_ok (approval_step opr db)"
  proof (cases "\<exists>store i names mode newId now. opr = OpPolicies store i names mode newId now")
    case True
    have "policies_ok (fold (\<lambda>t. upsertPolicy store i t mode (newId t) now) ts db)"
      for store i mode newId now ts
      using ok by (induction ts arbitrary: db) (simp_all add: policies_ok_upsertPolicy)
    then show ?thesis using True by (auto simp: upsertPolicies_def)
  next
    case False
    then show ?thesis using policies_ok_cong ok step_policies by metis
  qed
qed

text \<open>The list of a store is its table.\<close>

lemma listPolicies_modes:
  assumes "policies_ok db"
  shows "(\<exists>e \<in> set (listPolicies collate store db).
            pe_integrationId e = i \<and> pe_toolName e = t \<and> pe_mode e = m) \<longleftrightarrow>
    stored_mode store (i, t) db = Some m"
proof (cases store)
  case (DeploymentStore b)
  have "(\<exists>e \<in> set (listPolicies collate store db).
            pe_integrationId e = i \<and> pe_toolName e = t \<and> pe_mode e = m) \<longleftrightarrow>
      (\<exists>row. ((i, t), row) \<in> set (ad_policies db) \<and> pr_mode row = m)"
    by (force simp: DeploymentStore listPolicies_def policyMetadata_def)
  then show ?thesis
    using assms by (auto simp: DeploymentStore policies_ok_def stored_mode_def jsmap_values_iff)
next
  case (UserStore u)
  have "(\<exists>e \<in> set (listPolicies collate store db).
            pe_integrationId e = i \<and> pe_toolName e = t \<and> pe_mode e = m) \<longleftrightarrow>
      (\<exists>row. ((u, i, t), row) \<in> set (ad_userPolicies db) \<and> pr_mode row = m)"
    by (force simp: UserStore listPolicies_def policyMetadata_def)
  then show ?thesis
    using assms by (auto simp: UserStore policies_ok_def stored_mode_def jsmap_values_iff)
qed

end
