(* ===== verification/ApprovalEnforcement.thy ===== *)
theory ApprovalEnforcement
  imports ApprovalRequests
begin

section \<open>Enforcing approvals\<close>

text \<open>
  Where approvals decide whether a tool call runs. At the integration proxy
  (\<open>apps/api/src/handlers/mcp/tool-approval-enforcement.ts\<close>, \<open>native-tool-approvals.ts\<close>,
  \<open>unasked-task-tool-call.ts\<close>): the block of each tool from the stored policies, overrides and the
  Auto state, and the gate a task's call passes. For a task's ask
  (\<open>packages/sdk/src/server/lib/task-tool-approvals.ts\<close>): who decides it. For the chat surfaces
  (\<open>apps/api/src/handlers/tool-approval-action.ts\<close>): the answer of a linked sender. The session of
  a task or conversation, the acting user, the verdict of the decision model and the owner's
  presence are arguments: they are read elsewhere.
\<close>

subsection \<open>Auto's state\<close>

datatype auto_mode = AutoOff | AutoShadow | AutoOn

record auto_settings =
  se_experimentEnabled :: bool
  se_nightlyExperiments :: bool
  se_judgmentModel :: bool

definition resolveIntegrationToolAutoState ::
    "auto_settings \<Rightarrow> string option \<Rightarrow> approval_db \<Rightarrow> auto_mode" where
  "resolveIntegrationToolAutoState settings sessionId db =
     (if \<not> se_nightlyExperiments settings \<or> \<not> se_experimentEnabled settings then AutoOff
      else if (case sessionId of
                 None \<Rightarrow> False
               | Some s \<Rightarrow> s \<noteq> [] \<and> isIntegrationToolAutoEnabledForSession s db) then AutoOn
      else if se_judgmentModel settings then AutoShadow
      else AutoOff)"

subsection \<open>The blocks of a request\<close>

datatype proxy_block = BlockReject | BlockNeedsApproval | BlockAllow

datatype token_type = RunToken | AuthToken

record proxy_approvals =
  pa_blocks :: "(string, proxy_block) jsmap"
  pa_defaultBlock :: "proxy_block option"
  pa_shadowDefaultTools :: bool
  pa_sessionId :: "string option"

text \<open>The session is the task's for a run token, the named conversation's otherwise.\<close>

record proxy_request =
  px_integrationId :: string
  px_policyScope :: "policy_scope option"
  px_tokenType :: token_type
  px_sessionId :: "string option"
  px_actingUserId :: "string option"

definition governing_entries ::
    "(string \<Rightarrow> 'c::linorder) \<Rightarrow> policy_scope option \<Rightarrow> string option \<Rightarrow> approval_db
     \<Rightarrow> policy_entry list" where
  "governing_entries collate scope actingUserId db =
     resolveGoverningIntegrationToolPolicies
       (if scope = Some Personal then []
        else map policy_entry.truncate (listIntegrationToolPolicies collate db))
       (case (if scope = Some Deployment then None else actingUserId) of
          None \<Rightarrow> []
        | Some u \<Rightarrow> if u = [] then []
                   else map policy_entry.truncate (listIntegrationToolUserPolicies collate u db))
       (\<lambda>integrationId. scope)"

definition block_entry ::
    "token_type \<Rightarrow> proxy_block option \<Rightarrow> (string, policy_mode) jsmap
     \<Rightarrow> (string, override_mode) jsmap \<Rightarrow> string \<Rightarrow> (string, proxy_block) jsmap
     \<Rightarrow> (string, proxy_block) jsmap" where
  "block_entry tokenType defaultBlock policyModes overrideModes toolName blocks =
     (let policyMode = map_of policyModes toolName;
          overrideMode = map_of overrideModes toolName;
          mode = resolveEffectiveIntegrationToolMode policyMode overrideMode
      in if mode = ModeReject then AList.update toolName BlockReject blocks
         else if mode = ModeAsk \<and> tokenType = RunToken
         then AList.update toolName BlockNeedsApproval blocks
         else if defaultBlock \<noteq> None \<and>
                 \<not> integrationToolModeIsAutoAssessed policyMode overrideMode
         then AList.update toolName BlockAllow blocks
         else blocks)"

definition resolveProxyToolApprovalBlocks ::
    "(string \<Rightarrow> 'c::linorder) \<Rightarrow> auto_settings \<Rightarrow> proxy_request \<Rightarrow> approval_db \<Rightarrow> proxy_approvals"
where
  "resolveProxyToolApprovalBlocks collate settings rq db =
     (let autoMode = resolveIntegrationToolAutoState settings (px_sessionId rq) db;
          defaultBlock = (if autoMode = AutoOn \<and> px_tokenType rq = RunToken
                          then Some BlockNeedsApproval else None);
          governing = governing_entries collate (px_policyScope rq) (px_actingUserId rq) db;
          policyModes = map_from (map (\<lambda>e. (pe_toolName e, pe_mode e))
            (filter (\<lambda>e. pe_integrationId e = px_integrationId rq) governing));
          overrides = (case px_sessionId rq of
             Some s \<Rightarrow> if px_tokenType rq = RunToken
                       then listIntegrationToolSessionOverrides collate s db else []
           | None \<Rightarrow> []);
          overrideModes = map_from (map (\<lambda>e. (oe_toolName e, oe_mode e))
            (filter (\<lambda>e. oe_integrationId e = px_integrationId rq) overrides))
      in \<lparr>pa_blocks =
            fold (block_entry (px_tokenType rq) defaultBlock policyModes overrideModes)
              (uniq (map fst policyModes @ map fst overrideModes)) [],
          pa_defaultBlock = defaultBlock,
          pa_shadowDefaultTools = (autoMode = AutoShadow),
          pa_sessionId = px_sessionId rq\<rparr>)"

definition resolveProxyToolApprovalBlock :: "proxy_approvals \<Rightarrow> string \<Rightarrow> proxy_block option" where
  "resolveProxyToolApprovalBlock approvals toolName =
     nullish (map_of (pa_blocks approvals) toolName) (pa_defaultBlock approvals)"

text \<open>Whether a call to a default tool is assessed in the background.\<close>

definition shadowProxyToolCall :: "proxy_approvals \<Rightarrow> string \<Rightarrow> bool" where
  "shadowProxyToolCall approvals toolName \<longleftrightarrow>
     pa_shadowDefaultTools approvals \<and> map_of (pa_blocks approvals) toolName = None"

definition describeProxyToolApprovalBlock :: "string \<Rightarrow> proxy_block \<Rightarrow> string" where
  "describeProxyToolApprovalBlock toolName block =
     ''Tool '' @ [CHR 0x22] @ toolName @ [CHR 0x22] @
     (case block of
        BlockReject \<Rightarrow> '' is disabled by a tool approval policy.''
      | BlockNeedsApproval \<Rightarrow>
          '' needs approval before it runs, and this call has not been approved.''
      | BlockAllow \<Rightarrow> '' is allowed.'')"

definition readFastConversationIdHeader :: "string option \<Rightarrow> string option" where
  "readFastConversationIdHeader header =
     (case map_option trim header of
        None \<Rightarrow> None | Some v \<Rightarrow> if v \<noteq> [] \<and> guid_shape v then Some v else None)"

subsection \<open>What the blocks mean\<close>

text \<open>The mode the stored policies give a tool, and the choice the session made about it.\<close>

definition stored_policy ::
    "policy_scope option \<Rightarrow> string option \<Rightarrow> tool_key \<Rightarrow> approval_db \<Rightarrow> policy_mode option" where
  "stored_policy scope actingUserId k db =
     resolveStricterIntegrationToolPolicyMode
       (if scope = Some Personal then None else stored_mode (DeploymentStore None) k db)
       (if scope = Some Deployment \<or> \<not> truthy actingUserId then None
        else stored_mode (UserStore (the actingUserId)) k db)"

definition stored_override :: "string option \<Rightarrow> tool_key \<Rightarrow> approval_db \<Rightarrow> override_mode option" where
  "stored_override sessionId k db =
     (case sessionId of
        None \<Rightarrow> None | Some s \<Rightarrow> map_option ov_mode (map_of (ad_overrides db) (s, k)))"

lemma map_of_map_from_aux:
  "map_of (fold (\<lambda>kv m. AList.update (fst kv) (snd kv) m) kvs m) k =
     (case map_of (rev kvs) k of None \<Rightarrow> map_of m k | Some v \<Rightarrow> Some v)"
  by (induction kvs arbitrary: m) (auto simp: update_conv' map_add_def split: option.split)

lemma map_of_map_from:
  assumes "distinct (map fst kvs)"
  shows "map_of (map_from kvs) k = Some v \<longleftrightarrow> (k, v) \<in> set kvs"
proof -
  have "distinct (map fst (rev kvs))" using assms by (simp add: rev_map [symmetric])
  then have "map_of (rev kvs) k = Some v \<longleftrightarrow> (k, v) \<in> set kvs" by simp
  moreover have "map_of (map_from kvs) k = map_of (rev kvs) k"
    by (simp add: map_from_def map_of_map_from_aux split: option.split)
  ultimately show ?thesis by simp
qed

lemma stricter_inj:
  "m \<noteq> ModeAllow \<Longrightarrow> m' \<noteq> ModeAllow \<Longrightarrow> strictness m = strictness m' \<Longrightarrow> m = m'"
  by (cases m; cases m') simp_all

lemma truncated_modes:
  "(\<exists>e \<in> set (map policy_entry.truncate l). entry_key e = (i, t) \<and> pe_mode e = m) \<longleftrightarrow>
   (\<exists>e \<in> set l. pe_integrationId e = i \<and> pe_toolName e = t \<and> pe_mode e = m)"
  by (auto simp: entry_key_def integrationToolPolicyKey_def policy_entry.truncate_def)

text \<open>Two layers of entries, each with at most one mode per key and none the default.\<close>

lemma governing_mode:
  fixes ds us :: "policy_entry list"
  assumes D: "\<And>m. (\<exists>e \<in> set ds. entry_key e = k \<and> pe_mode e = m) \<longleftrightarrow> d = Some m"
    and U: "\<And>m. (\<exists>e \<in> set us. entry_key e = k \<and> pe_mode e = m) \<longleftrightarrow> u = Some m"
    and nz: "d \<noteq> Some ModeAllow" "u \<noteq> Some ModeAllow"
    and scope: "\<And>i. scopeOf i = Some Personal \<Longrightarrow> ds = []" "\<And>i. scopeOf i = Some Deployment \<Longrightarrow> us = []"
  shows "map_option pe_mode (map_of (fold (govern_entry scopeOf)
      (map (Pair Deployment) ds @ map (Pair Personal) us) []) k) =
    resolveStricterIntegrationToolPolicyMode d u"
proof -
  let ?les = "map (Pair Deployment) ds @ map (Pair Personal) us"
  have s: "scopeOf i = None \<or> scopeOf i = Some Deployment \<or> scopeOf i = Some Personal" for i
    by (metis not_None_eq policy_scope.exhaust)
  have g: "(\<exists>le \<in> set ?les. governs scopeOf le k \<and> pe_mode (snd le) = m) \<longleftrightarrow>
      d = Some m \<or> u = Some m" for m
  proof -
    have "e \<in> set ds \<Longrightarrow> governs scopeOf (Deployment, e) k \<longleftrightarrow> entry_key e = k" for e
      using s [of "pe_integrationId e"] scope(1) by (auto simp: governs_def)
    moreover have "e \<in> set us \<Longrightarrow> governs scopeOf (Personal, e) k \<longleftrightarrow> entry_key e = k" for e
      using s [of "pe_integrationId e"] scope(2) by (auto simp: governs_def)
    moreover have "(\<exists>le \<in> set ?les. governs scopeOf le k \<and> pe_mode (snd le) = m) \<longleftrightarrow>
        (\<exists>e \<in> set ds. governs scopeOf (Deployment, e) k \<and> pe_mode e = m) \<or>
        (\<exists>e \<in> set us. governs scopeOf (Personal, e) k \<and> pe_mode e = m)"
      by (simp only: set_append set_map bex_Un bex_simps snd_conv)
    ultimately show ?thesis
      unfolding D [symmetric] U [symmetric] by blast
  qed
  show ?thesis
  proof (cases "map_of (fold (govern_entry scopeOf) ?les []) k")
    case None
    then have "\<forall>le \<in> set ?les. \<not> governs scopeOf le k"
      using strictest_fold [of scopeOf ?les k] by (simp add: strictest_def)
    then have "\<not> (d = Some m \<or> u = Some m)" for m using g [of m] by blast
    then show ?thesis using None by (cases d; cases u) auto
  next
    case (Some e)
    have st: "strictest scopeOf ?les k (Some e)"
      using strictest_fold [of scopeOf ?les k] Some by simp
    have de: "d = Some (pe_mode e) \<or> u = Some (pe_mode e)"
      using st unfolding g [symmetric] strictest_def by fastforce
    have le: "strictness m \<le> strictness (pe_mode e)" if "d = Some m \<or> u = Some m" for m
      using that st unfolding g [symmetric] strictest_def by fastforce
    have "resolveStricterIntegrationToolPolicyMode d u = Some (pe_mode e)"
      using de nz le [of "the d"] le [of "the u"] stricter_inj [of "the d" "the u"]
      by (cases d; cases u) (auto simp: not_less intro: le_antisym)
    then show ?thesis using Some by simp
  qed
qed

lemma governing_entry_mode:
  assumes ok: "policies_ok db"
  shows "(\<exists>e \<in> set (governing_entries collate scope actor db). entry_key e = k \<and> pe_mode e = m) \<longleftrightarrow>
    stored_policy scope actor k db = Some m"
proof -
  obtain i t where k: "k = (i, t)" by (cases k)
  define ds where "ds = (if scope = Some Personal then []
    else map policy_entry.truncate (listIntegrationToolPolicies collate db))"
  define us where "us = (case (if scope = Some Deployment then None else actor) of None \<Rightarrow> []
    | Some u \<Rightarrow> if u = [] then []
       else map policy_entry.truncate (listIntegrationToolUserPolicies collate u db))"
  define d where "d = (if scope = Some Personal then None else stored_mode (DeploymentStore None) k db)"
  define u where "u = (if scope = Some Deployment \<or> \<not> truthy actor then None
    else stored_mode (UserStore (the actor)) k db)"
  have D: "(\<exists>e \<in> set ds. entry_key e = k \<and> pe_mode e = m) \<longleftrightarrow> d = Some m" for m
    by (simp only: ds_def d_def k listIntegrationToolPolicies_def listPolicies_modes [OF ok]
        truncated_modes if_distrib split: if_split) auto
  have U: "(\<exists>e \<in> set us. entry_key e = k \<and> pe_mode e = m) \<longleftrightarrow> u = Some m" for m
    using truncated_modes [of "listIntegrationToolUserPolicies collate (the actor) db" i t m]
      listPolicies_modes [OF ok, of collate "UserStore (the actor)" i t m]
    by (cases actor; cases "scope = Some Deployment")
      (auto simp: us_def u_def k listIntegrationToolUserPolicies_def)
  have nz: "d \<noteq> Some ModeAllow" "u \<noteq> Some ModeAllow"
    using ok by (auto simp: d_def u_def policies_ok_def k)
  define m0 where "m0 = map_of (fold (govern_entry (\<lambda>i. scope))
    (map (Pair Deployment) ds @ map (Pair Personal) us) []) k"
  have mode: "map_option pe_mode m0 = stored_policy scope actor k db"
    unfolding m0_def stored_policy_def d_def [symmetric] u_def [symmetric]
    by (rule governing_mode [OF D U nz]) (simp_all add: ds_def us_def)
  have "e \<in> set (governing_entries collate scope actor db) \<and> entry_key e = k \<longleftrightarrow> m0 = Some e" for e
  proof -
    have "governing_entries collate scope actor db =
        resolveGoverningIntegrationToolPolicies ds us (\<lambda>i. scope)"
      by (simp add: governing_entries_def ds_def us_def)
    moreover have "m0 = Some e \<Longrightarrow> entry_key e = k"
      using strictest_fold [of "\<lambda>i. scope" "map (Pair Deployment) ds @ map (Pair Personal) us" k]
      by (auto simp: m0_def strictest_def governs_def)
    ultimately show ?thesis using in_governing_iff m0_def by metis
  qed
  then have "(\<exists>e \<in> set (governing_entries collate scope actor db). entry_key e = k \<and> pe_mode e = m) \<longleftrightarrow>
      (\<exists>e. m0 = Some e \<and> pe_mode e = m)"
    by blast
  then show ?thesis using mode by (metis (no_types) map_option_eq_Some)
qed

lemma distinct_governing: "distinct (map entry_key (governing_entries collate scope actor db))"
proof -
  define ds us where "ds = (if scope = Some Personal then []
        else map policy_entry.truncate (listIntegrationToolPolicies collate db))"
    and "us = (case (if scope = Some Deployment then None else actor) of None \<Rightarrow> []
        | Some u \<Rightarrow> if u = [] then []
           else map policy_entry.truncate (listIntegrationToolUserPolicies collate u db))"
  let ?m = "fold (govern_entry (\<lambda>i. scope)) (map (Pair Deployment) ds @ map (Pair Personal) us) []"
  have "\<forall>(k, e) \<in> set ?m. entry_key e = k" by (rule governing_keys) simp
  then have "map entry_key (governing_entries collate scope actor db) = map fst ?m"
    by (auto simp: governing_entries_def resolveGoverningIntegrationToolPolicies_def ds_def us_def)
  moreover have "jsmap_ok ?m" by (rule governing_ok) simp
  ultimately show ?thesis by (simp add: jsmap_ok_def)
qed

text \<open>The map the code builds from the entries of one integration gives each tool its mode.\<close>

definition policy_modes ::
    "(string \<Rightarrow> 'c::linorder) \<Rightarrow> proxy_request \<Rightarrow> approval_db \<Rightarrow> (string, policy_mode) jsmap" where
  "policy_modes collate rq db =
     map_from (map (\<lambda>e. (pe_toolName e, pe_mode e))
       (filter (\<lambda>e. pe_integrationId e = px_integrationId rq)
         (governing_entries collate (px_policyScope rq) (px_actingUserId rq) db)))"

lemma map_of_policy_modes:
  assumes "policies_ok db"
  shows "map_of (policy_modes collate rq db) t =
    stored_policy (px_policyScope rq) (px_actingUserId rq) (px_integrationId rq, t) db"
proof -
  let ?es = "governing_entries collate (px_policyScope rq) (px_actingUserId rq) db"
  let ?l = "filter (\<lambda>e. pe_integrationId e = px_integrationId rq) ?es"
  have key: "entry_key e = (px_integrationId rq, pe_toolName e)" if "e \<in> set ?l" for e
    using that by (simp add: entry_key_def integrationToolPolicyKey_def)
  have "distinct (map entry_key ?l)" using distinct_governing distinct_map_filter by blast
  then have "inj_on entry_key (set ?l)" and "distinct ?l" by (simp_all add: distinct_map)
  then have "inj_on pe_toolName (set ?l)" using key unfolding inj_on_def by metis
  then have dist: "distinct (map fst (map (\<lambda>e. (pe_toolName e, pe_mode e)) ?l))"
    using \<open>distinct ?l\<close> by (simp add: distinct_map comp_def)
  have "map_of (policy_modes collate rq db) t = Some m \<longleftrightarrow>
      (\<exists>e \<in> set ?es. entry_key e = (px_integrationId rq, t) \<and> pe_mode e = m)" for m
    unfolding policy_modes_def map_of_map_from [OF dist]
    by (auto simp: entry_key_def integrationToolPolicyKey_def)
  then have "map_of (policy_modes collate rq db) t = Some m \<longleftrightarrow>
      stored_policy (px_policyScope rq) (px_actingUserId rq) (px_integrationId rq, t) db = Some m" for m
    using governing_entry_mode [OF assms] by simp
  then show ?thesis by (metis option.exhaust)
qed

definition override_modes ::
    "(string \<Rightarrow> 'c::linorder) \<Rightarrow> proxy_request \<Rightarrow> approval_db \<Rightarrow> (string, override_mode) jsmap" where
  "override_modes collate rq db =
     map_from (map (\<lambda>e. (oe_toolName e, oe_mode e))
       (filter (\<lambda>e. oe_integrationId e = px_integrationId rq)
         (case px_sessionId rq of
            Some s \<Rightarrow> if px_tokenType rq = RunToken
                      then listIntegrationToolSessionOverrides collate s db else []
          | None \<Rightarrow> [])))"

lemma in_listed_overrides:
  assumes "jsmap_ok (ad_overrides db)"
  shows "(\<exists>e \<in> set (listIntegrationToolSessionOverrides collate s db).
            oe_integrationId e = i \<and> oe_toolName e = t \<and> oe_mode e = m) \<longleftrightarrow>
    map_option ov_mode (map_of (ad_overrides db) (s, i, t)) = Some m"
proof -
  have "(\<exists>e \<in> set (listIntegrationToolSessionOverrides collate s db).
            oe_integrationId e = i \<and> oe_toolName e = t \<and> oe_mode e = m) \<longleftrightarrow>
      (\<exists>row. ((s, i, t), row) \<in> set (ad_overrides db) \<and> ov_mode row = m)"
    by (force simp: listIntegrationToolSessionOverrides_def)
  then show ?thesis using jsmap_values_iff [OF assms] by auto
qed

lemma distinct_listed_overrides:
  assumes "jsmap_ok (ad_overrides db)"
  shows "distinct (map (\<lambda>e. (oe_integrationId e, oe_toolName e))
    (listIntegrationToolSessionOverrides collate s db))"
proof -
  let ?f = "\<lambda>((s, integrationId, toolName), row). (collate integrationId, collate toolName)"
  let ?l = "filter (\<lambda>((s', k), row). s' = s) (ad_overrides db)"
  have "distinct (map fst ?l)" and fst: "\<And>x. x \<in> set ?l \<Longrightarrow> fst (fst x) = s"
    using assms by (auto simp: jsmap_ok_def distinct_map_filter)
  then have "distinct ?l" and "inj_on (snd \<circ> fst) (set ?l)"
    unfolding distinct_map inj_on_def by (auto simp: prod_eq_iff)
  then have "distinct (map (snd \<circ> fst) (sort_key ?f ?l))"
    by (simp add: distinct_map)
  moreover have "map (\<lambda>e. (oe_integrationId e, oe_toolName e))
      (listIntegrationToolSessionOverrides collate s db) = map (snd \<circ> fst) (sort_key ?f ?l)"
    by (auto simp: listIntegrationToolSessionOverrides_def)
  ultimately show ?thesis by (simp only:)
qed

lemma map_of_override_modes:
  assumes "jsmap_ok (ad_overrides db)"
  shows "map_of (override_modes collate rq db) t =
    (if px_tokenType rq = RunToken
     then stored_override (px_sessionId rq) (px_integrationId rq, t) db else None)"
proof (cases "px_sessionId rq")
  case None
  then show ?thesis by (simp add: override_modes_def stored_override_def map_from_def)
next
  case (Some s)
  show ?thesis
  proof (cases "px_tokenType rq = RunToken")
    case False
    then show ?thesis using Some by (simp add: override_modes_def map_from_def)
  next
    case True
    let ?es = "listIntegrationToolSessionOverrides collate s db"
    let ?l = "filter (\<lambda>e. oe_integrationId e = px_integrationId rq) ?es"
    have "distinct (map (\<lambda>e. (oe_integrationId e, oe_toolName e)) ?l)"
      using distinct_listed_overrides [OF assms] distinct_map_filter by blast
    then have "inj_on oe_toolName (set ?l)" and "distinct ?l"
      unfolding distinct_map inj_on_def by auto
    then have dist: "distinct (map fst (map (\<lambda>e. (oe_toolName e, oe_mode e)) ?l))"
      by (simp add: distinct_map comp_def)
    have om: "override_modes collate rq db = map_from (map (\<lambda>e. (oe_toolName e, oe_mode e)) ?l)"
      using Some True by (simp add: override_modes_def)
    have "map_of (override_modes collate rq db) t = Some m \<longleftrightarrow>
        (\<exists>e \<in> set ?es. oe_integrationId e = px_integrationId rq \<and> oe_toolName e = t \<and> oe_mode e = m)"
      for m
      unfolding om map_of_map_from [OF dist] by auto
    then have "map_of (override_modes collate rq db) t = Some m \<longleftrightarrow>
        map_option ov_mode (map_of (ad_overrides db) (s, px_integrationId rq, t)) = Some m" for m
      using in_listed_overrides [OF assms] by simp
    then show ?thesis
      using Some True by (simp only: stored_override_def option.case if_True) (metis option.exhaust)
  qed
qed

lemma map_of_fold_blocks:
  assumes "distinct ts"
  shows "map_of (fold (block_entry ty def pm om) ts m) t =
     (if t \<in> set ts then map_of (block_entry ty def pm om t m) t else map_of m t)"
  using assms
proof (induction ts arbitrary: m)
  case (Cons x ts)
  have other: "map_of (block_entry ty def pm om x m') y = map_of m' y" if "y \<noteq> x" for y m'
    using that by (simp add: block_entry_def Let_def update_conv')
  have cong: "map_of (block_entry ty def pm om t m1) t = map_of (block_entry ty def pm om t m2) t"
    if "map_of m1 t = map_of m2 t" for m1 m2
    using that by (simp add: block_entry_def Let_def update_conv')
  show ?case
    using Cons other [of t] cong [of "block_entry ty def pm om x m" m] by auto
qed simp

definition blocks_of ::
    "(string \<Rightarrow> 'c::linorder) \<Rightarrow> proxy_request \<Rightarrow> proxy_block option \<Rightarrow> approval_db
     \<Rightarrow> (string, proxy_block) jsmap" where
  "blocks_of collate rq defaultBlock db =
     (let pm = policy_modes collate rq db; om = override_modes collate rq db
      in fold (block_entry (px_tokenType rq) defaultBlock pm om) (uniq (map fst pm @ map fst om)) [])"

lemma map_of_blocks_of:
  "map_of (blocks_of collate rq defaultBlock db) t =
     (let p = map_of (policy_modes collate rq db) t; o' = map_of (override_modes collate rq db) t;
          mode = resolveEffectiveIntegrationToolMode p o'
      in if mode = ModeReject then Some BlockReject
         else if mode = ModeAsk \<and> px_tokenType rq = RunToken then Some BlockNeedsApproval
         else if defaultBlock \<noteq> None \<and> \<not> (p = None \<and> o' = None) then Some BlockAllow
         else None)"
proof -
  let ?pm = "policy_modes collate rq db" and ?om = "override_modes collate rq db"
  have "t \<notin> set (uniq (map fst ?pm @ map fst ?om)) \<Longrightarrow> map_of ?pm t = None \<and> map_of ?om t = None"
    by (auto simp: map_of_eq_None_iff)
  then show ?thesis
    unfolding blocks_of_def Let_def map_of_fold_blocks [OF distinct_uniq]
    by (auto simp: block_entry_def integrationToolModeIsAutoAssessed_def update_conv'
        resolveEffectiveIntegrationToolMode_def)
qed

lemma block_of_choice:
  "nullish
     (let mode = resolveEffectiveIntegrationToolMode p c
      in if mode = ModeReject then Some BlockReject
         else if mode = ModeAsk \<and> run then Some BlockNeedsApproval
         else if (if auto \<and> run then Some BlockNeedsApproval else None) \<noteq> None \<and>
                 \<not> (p = None \<and> c = None) then Some BlockAllow
         else None)
     (if auto \<and> run then Some BlockNeedsApproval else None) =
   (if p = Some ModeReject then Some BlockReject
    else if c = None \<and> p = None then (if run \<and> auto then Some BlockNeedsApproval else None)
    else if (case c of Some c \<Rightarrow> run \<and> c = OverrideAsk | None \<Rightarrow> run \<and> p = Some ModeAsk)
    then Some BlockNeedsApproval
    else if run \<and> auto then Some BlockAllow
    else None)"
  by (cases p; cases c; cases "the p"; cases "the c")
    (simp_all add: resolveEffectiveIntegrationToolMode_def)

text \<open>C25: What the proxy does with a call is what the stored choices say: the stricter of the modes
  stored in the layers that govern the integration, overridden by the session's own choice for a
  task's call but never below a reject, decides the tool; a rejected tool is blocked for every
  caller, an ask holds a task's call for an approval and lets a session's pass, and a tool nobody
  made a choice about is held exactly while Auto is on for the task's session.\<close>

theorem proxy_block_is_the_stored_choice:
  assumes "policies_ok db" and "jsmap_ok (ad_overrides db)"
  shows "resolveProxyToolApprovalBlock (resolveProxyToolApprovalBlocks collate settings rq db) tool =
    (let k = (px_integrationId rq, tool); run = (px_tokenType rq = RunToken);
         auto = (run \<and> resolveIntegrationToolAutoState settings (px_sessionId rq) db = AutoOn);
         policy = stored_policy (px_policyScope rq) (px_actingUserId rq) k db;
         choice = (if run then stored_override (px_sessionId rq) k db else None)
     in if policy = Some ModeReject then Some BlockReject
        else if choice = None \<and> policy = None
        then (if auto then Some BlockNeedsApproval else None)
        else if (case choice of Some c \<Rightarrow> c = OverrideAsk | None \<Rightarrow> run \<and> policy = Some ModeAsk)
        then Some BlockNeedsApproval
        else if auto then Some BlockAllow
        else None)"
proof -
  define def where "def = (if resolveIntegrationToolAutoState settings (px_sessionId rq) db = AutoOn \<and>
    px_tokenType rq = RunToken then Some BlockNeedsApproval else None)"
  have blocks: "pa_blocks (resolveProxyToolApprovalBlocks collate settings rq db) =
      blocks_of collate rq def db"
    by (simp add: resolveProxyToolApprovalBlocks_def blocks_of_def policy_modes_def
        override_modes_def def_def Let_def)
  have default: "pa_defaultBlock (resolveProxyToolApprovalBlocks collate settings rq db) = def"
    by (simp add: resolveProxyToolApprovalBlocks_def def_def Let_def)
  show ?thesis
    unfolding resolveProxyToolApprovalBlock_def blocks default map_of_blocks_of def_def
      map_of_policy_modes [OF assms(1)] map_of_override_modes [OF assms(2)]
    using block_of_choice [where run = "px_tokenType rq = RunToken"
        and auto = "resolveIntegrationToolAutoState settings (px_sessionId rq) db = AutoOn"]
    by (cases "px_tokenType rq = RunToken") (simp_all add: Let_def split: option.splits)
qed

subsection \<open>An ask of a task's agent\<close>

record task_session =
  tk_taskId :: string
  tk_sessionId :: string
  tk_ownerUserId :: "string option"
  tk_sourceSurface :: "string option"

record tool_ask =
  ak_integrationId :: string
  ak_toolName :: string
  ak_nativeRequestId :: string
  ak_argsFingerprint :: string
  ak_args :: jsv
  ak_actingUserId :: "string option"
  ak_scopeOf :: "string \<Rightarrow> policy_scope option"

datatype auto_action = ActApprove | ActAsk

datatype auto_verdict = VerdictOff | VerdictOn auto_action auto_evaluation

text \<open>What the ask reads of the outside: the model's verdict and whether the owner is there.\<close>

record ask_env =
  ax_redaction :: redaction_env
  ax_settings :: auto_settings
  ax_verdict :: auto_verdict
  ax_presence :: "bool \<times> bool"
  ax_newId :: string
  ax_now :: ms

datatype ask_outcome =
    AskNotRequired | AskUnavailable | AskApproved | AskDenied auto_evaluation | AskPaused
  | AskPending string

definition isTaskSessionOwnerPresent :: "string option \<Rightarrow> bool \<times> bool \<Rightarrow> bool" where
  "isTaskSessionOwnerPresent sourceSurface presence \<longleftrightarrow>
     sourceSurface \<in> {Some ''slack'', Some ''discord'', Some ''teams'', Some ''telegram''} \<or>
     fst presence \<or> snd presence"

definition resolveTaskGoverningPolicies ::
    "(string \<Rightarrow> 'c::linorder) \<Rightarrow> string option \<Rightarrow> (string \<Rightarrow> policy_scope option) \<Rightarrow> string
     \<Rightarrow> approval_db \<Rightarrow> policy_entry list \<times> override_entry list" where
  "resolveTaskGoverningPolicies collate actingUserId scopeOf sessionId db =
     (resolveGoverningIntegrationToolPolicies
        (map policy_entry.truncate (listIntegrationToolPolicies collate db))
        (if truthy actingUserId
         then map policy_entry.truncate
                (listIntegrationToolUserPolicies collate (the actingUserId) db)
         else [])
        scopeOf,
      if sessionId = [] then [] else listIntegrationToolSessionOverrides collate sessionId db)"

definition mode_for :: "tool_ask \<Rightarrow> policy_entry list \<Rightarrow> policy_mode option" where
  "mode_for ask policies =
     map_option pe_mode (find (\<lambda>e. pe_integrationId e = ak_integrationId ask \<and>
       pe_toolName e = ak_toolName ask) policies)"

definition override_for :: "tool_ask \<Rightarrow> override_entry list \<Rightarrow> override_mode option" where
  "override_for ask sessionOverrides =
     map_option oe_mode (find (\<lambda>e. oe_integrationId e = ak_integrationId ask \<and>
       oe_toolName e = ak_toolName ask) sessionOverrides)"

definition call_of :: "task_session \<Rightarrow> tool_ask \<Rightarrow> auto_evaluation option \<Rightarrow> approval_input" where
  "call_of session ask evaluation =
     \<lparr>ai_integrationId = ak_integrationId ask, ai_toolName = ak_toolName ask,
      ai_nativeRequestId = ak_nativeRequestId ask, ai_argsFingerprint = ak_argsFingerprint ask,
      ai_argsSummary = (if ak_args ask = JUndefined then JNull else ak_args ask),
      ai_taskId = Some (tk_taskId session), ai_autoEvaluation = evaluation\<rparr>"

text \<open>An insert that fails throws, and leaves what was done before it.\<close>

definition with_outcome ::
    "(approval_metadata \<Rightarrow> ask_outcome) \<Rightarrow> approval_db
     \<Rightarrow> approval_error + approval_db \<times> approval_metadata
     \<Rightarrow> approval_db \<times> (approval_error + ask_outcome)" where
  "with_outcome outcome db r =
     (case r of Inl e \<Rightarrow> (db, Inl e) | Inr (db', approval) \<Rightarrow> (db', Inr (outcome approval)))"

definition requestTaskToolApproval ::
    "(string \<Rightarrow> 'c::linorder) \<Rightarrow> ask_env \<Rightarrow> task_session option \<Rightarrow> tool_ask \<Rightarrow> approval_db
     \<Rightarrow> approval_db \<times> (approval_error + ask_outcome)" where
  "requestTaskToolApproval collate env session ask db =
     (case session of
        None \<Rightarrow> (db, Inr AskUnavailable)
      | Some session \<Rightarrow>
          if \<not> truthy (tk_ownerUserId session) then (db, Inr AskUnavailable)
          else
            let owner = the (tk_ownerUserId session); sid = tk_sessionId session;
                ctx = \<lparr>ac_sessionId = sid, ac_userId = owner\<rparr>;
                (policies, sessionOverrides) = resolveTaskGoverningPolicies collate
                  (ak_actingUserId ask) (ak_scopeOf ask) sid db;
                policyMode = mode_for ask policies;
                override = override_for ask sessionOverrides;
                allowedForSession = (override = Some OverrideAllow \<or>
                  resolveEffectiveIntegrationToolMode policyMode override = ModeAlwaysAllow);
                autoCandidate = integrationToolModeIsAutoAssessed policyMode override;
                autoSuspended = (autoCandidate \<and> isIntegrationToolAutoSuspendedForSession sid db);
                auto = (if autoCandidate \<and> \<not> autoSuspended then Some (ax_verdict env) else None);
                assessed = (case auto of Some (VerdictOn action e) \<Rightarrow> [(action, e)] | _ \<Rightarrow> []);
                evaluation = (case assessed of [] \<Rightarrow> None | ae # rest \<Rightarrow> Some (snd ae))
            in if autoSuspended \<and>
                  resolveIntegrationToolAutoState (ax_settings env) (Some sid) db \<noteq> AutoOn
               then (db, Inr AskNotRequired)
               else if auto = Some VerdictOff then (db, Inr AskNotRequired)
               else if list_ex (\<lambda>ae. ae_unavailable (snd ae) \<noteq> None) assessed
               then let db' = fst (suspendIntegrationToolAutoForSession sid (ax_now env) db)
                    in with_outcome (\<lambda>approval. AskPaused) db'
                         (insertAutoRejectedIntegrationToolApproval (ax_redaction env) ctx
                            (call_of session ask evaluation) (ax_newId env) (ax_now env) db')
               else if allowedForSession
               then (case insertAutoApprovedIntegrationToolApproval (ax_redaction env) ctx
                            (call_of session ask None) None (ax_newId env) (ax_now env) db of
                       Inl e \<Rightarrow> (db, Inl e)
                     | Inr (db', reservation) \<Rightarrow>
                         (case claimAutoApprovedIntegrationToolApproval
                                 (am_approvalId reservation) owner None db' of
                            (db'', claimed) \<Rightarrow>
                              (db'', Inr (if claimed then AskApproved else AskNotRequired))))
               else if list_ex (\<lambda>ae. fst ae = ActApprove) assessed
               then with_outcome (\<lambda>approval. AskApproved) db
                      (insertAutoApprovedIntegrationToolApproval (ax_redaction env) ctx
                         (call_of session ask evaluation) (Some ByModel) (ax_newId env)
                         (ax_now env) db)
               else if assessed \<noteq> [] \<and>
                  \<not> isTaskSessionOwnerPresent (tk_sourceSurface session) (ax_presence env)
               then with_outcome (\<lambda>approval. AskDenied (snd (hd assessed))) db
                      (insertAutoRejectedIntegrationToolApproval (ax_redaction env) ctx
                         (call_of session ask evaluation) (ax_newId env) (ax_now env) db)
               else with_outcome (\<lambda>approval. AskPending (am_approvalId approval)) db
                      (insertIntegrationToolApproval (ax_redaction env) ctx
                         (call_of session ask evaluation) (ax_newId env) (ax_now env) db))"

definition getTaskToolApprovalStatus ::
    "task_session option \<Rightarrow> string \<Rightarrow> ms \<Rightarrow> approval_db \<Rightarrow> approval_db \<times> approval_status option" where
  "getTaskToolApprovalStatus session approvalId now db =
     (case (session, getIntegrationToolApproval approvalId db) of
        (Some s, Some row) \<Rightarrow>
          if ap_taskId row \<noteq> Some (tk_taskId s) then (db, None)
          else if ap_status row = ApPending \<and> ap_expiresAt row \<le> now
          then (expireIntegrationToolApproval approvalId db, Some ApExpired)
          else (db, Some (ap_status row))
      | _ \<Rightarrow> (db, None))"

definition decideCommunicationToolApproval ::
    "string option \<Rightarrow> string \<Rightarrow> approval_decision \<Rightarrow> ms \<Rightarrow> approval_db \<Rightarrow> approval_db \<times> bool" where
  "decideCommunicationToolApproval userId approvalId decision now db =
     (if \<not> truthy userId then (db, False)
      else case getIntegrationToolApproval approvalId db of
             None \<Rightarrow> (db, False)
           | Some row \<Rightarrow>
               if ap_requesterUserId row \<noteq> the userId then (db, False)
               else case decideIntegrationToolApproval
                           \<lparr>ac_sessionId = ap_sessionId row, ac_userId = the userId\<rparr>
                           approvalId decision now db of
                      Inl e \<Rightarrow> (db, False)
                    | Inr (db', approval) \<Rightarrow> (db', True))"

subsection \<open>The gate of a task's call\<close>

text \<open>
  A task's held call at the proxy: it claims an approval; with nothing to claim the proxy asks on
  the task's behalf and waits. Others act meanwhile: a round of the wait is the transactions that
  come before it reads the status, those that come before it claims, the time it reads, and
  whether the caller has gone. The wait ends on a decision, at its deadline, or with the rounds.
\<close>

definition APPROVAL_MAX_WAIT_MS :: ms where
  "APPROVAL_MAX_WAIT_MS = 12 * 60000"

record wait_round =
  wr_before :: "approval_op list"
  wr_beforeClaim :: "approval_op list"
  wr_now :: ms
  wr_locked :: "string list"
  wr_left :: "bool \<times> bool \<times> bool"

datatype gate_result = PassClaimed string | PassNotRequired | GateRefused

definition claimProxyTaskToolCall ::
    "string option \<Rightarrow> string \<Rightarrow> ms \<Rightarrow> string list \<Rightarrow> approval_db \<Rightarrow> approval_db \<times> string option"
where
  "claimProxyTaskToolCall taskId argsFingerprint now locked db =
     (if \<not> truthy taskId then (db, None)
      else run_claim (ClaimTaskCall (the taskId) argsFingerprint now locked) db)"

definition claim_for_caller ::
    "string option \<Rightarrow> string \<Rightarrow> ms \<Rightarrow> string list \<Rightarrow> bool \<Rightarrow> bool \<Rightarrow> approval_db
     \<Rightarrow> approval_db \<times> gate_result" where
  "claim_for_caller taskId fingerprint now locked leftBefore leftAfter db =
     (if leftBefore then (db, GateRefused)
      else case claimProxyTaskToolCall taskId fingerprint now locked db of
             (db', None) \<Rightarrow> (db', GateRefused)
           | (db', Some k) \<Rightarrow> (db', if leftAfter then GateRefused else PassClaimed k))"

fun wait_for_decision ::
    "task_session option \<Rightarrow> string option \<Rightarrow> string \<Rightarrow> string \<Rightarrow> ms \<Rightarrow> wait_round list \<Rightarrow> approval_db
     \<Rightarrow> approval_db \<times> gate_result" where
  "wait_for_decision session taskId fingerprint approvalId deadline [] db = (db, GateRefused)"
| "wait_for_decision session taskId fingerprint approvalId deadline (r # rs) db =
     (if wr_now r \<ge> deadline \<or> fst (wr_left r)
      then (fold approval_step (wr_before r) db, GateRefused)
      else case getTaskToolApprovalStatus session approvalId (wr_now r)
                  (fold approval_step (wr_before r) db) of
             (db', status) \<Rightarrow>
               if status = Some ApApproved
               then claim_for_caller taskId fingerprint (wr_now r) (wr_locked r)
                      (fst (snd (wr_left r))) (snd (snd (wr_left r)))
                      (fold approval_step (wr_beforeClaim r) db')
               else if status = Some ApPending
               then wait_for_decision session taskId fingerprint approvalId deadline rs db'
               else (db', GateRefused))"

definition decideUnaskedTaskToolCall ::
    "(string \<Rightarrow> 'c::linorder) \<Rightarrow> ask_env \<Rightarrow> int option \<Rightarrow> task_session option \<Rightarrow> tool_ask
     \<Rightarrow> string option \<Rightarrow> wait_round \<Rightarrow> wait_round list \<Rightarrow> approval_db
     \<Rightarrow> approval_db \<times> (approval_error + gate_result)" where
  "decideUnaskedTaskToolCall collate env runId session ask taskId first rounds db =
     (if runId = None \<or> \<not> truthy taskId then (db, Inr GateRefused)
      else case requestTaskToolApproval collate env session
                  (ask\<lparr>ak_nativeRequestId := ''proxy:'' @ ak_argsFingerprint ask\<rparr>) db of
             (db', Inl e) \<Rightarrow> (db', Inl e)
           | (db', Inr outcome) \<Rightarrow>
               map_prod id Inr (case outcome of
                      AskNotRequired \<Rightarrow>
                        (db', if fst (wr_left first) then GateRefused else PassNotRequired)
                    | AskApproved \<Rightarrow>
                        claim_for_caller taskId (ak_argsFingerprint ask) (wr_now first)
                          (wr_locked first) (fst (snd (wr_left first))) (snd (snd (wr_left first)))
                          (fold approval_step (wr_beforeClaim first) db')
                    | AskPending approvalId \<Rightarrow>
                        wait_for_decision session taskId (ak_argsFingerprint ask) approvalId
                          (ax_now env + APPROVAL_MAX_WAIT_MS) rounds db'
                    | _ \<Rightarrow> (db', GateRefused)))"

definition check_held_call ::
    "(string \<Rightarrow> 'c::linorder) \<Rightarrow> ask_env \<Rightarrow> int option \<Rightarrow> task_session option \<Rightarrow> tool_ask
     \<Rightarrow> string option \<Rightarrow> wait_round \<Rightarrow> wait_round list \<Rightarrow> approval_db \<Rightarrow> approval_db \<times> gate_result"
where
  "check_held_call collate env runId session ask taskId first rounds db =
     (case claimProxyTaskToolCall taskId (ak_argsFingerprint ask) (ax_now env) (wr_locked first) db of
        (db', Some k) \<Rightarrow> (db', PassClaimed k)
      | (db', None) \<Rightarrow>
          (case decideUnaskedTaskToolCall collate env runId session ask taskId first rounds
                  (fold approval_step (wr_before first) db') of
             (db'', Inl e) \<Rightarrow> (db'', GateRefused)
           | (db'', Inr r) \<Rightarrow> (db'', r)))"

text \<open>The whole check of a request: a call to a tool with no block, or with a choice to run it, passes.\<close>

definition checkCall ::
    "proxy_approvals \<Rightarrow> (approval_db \<Rightarrow> approval_db \<times> gate_result) \<Rightarrow> string \<Rightarrow> approval_db
     \<Rightarrow> approval_db \<times> gate_result" where
  "checkCall approvals held toolName db =
     (case resolveProxyToolApprovalBlock approvals toolName of
        None \<Rightarrow> (db, PassNotRequired)
      | Some BlockAllow \<Rightarrow> (db, PassNotRequired)
      | Some BlockReject \<Rightarrow> (db, GateRefused)
      | Some BlockNeedsApproval \<Rightarrow> held db)"

subsection \<open>What the gate lets through\<close>

lemma jsmap_ok_insert_pending:
  "jsmap_ok (ad_requests db) \<Longrightarrow>
   insert_pending env ctx inp newId now owner db = Inr (db', a) \<Longrightarrow> jsmap_ok (ad_requests db')"
  by (auto simp: insert_pending_def Let_def split: if_splits option.splits)

lemma jsmap_ok_inserts:
  assumes "jsmap_ok (ad_requests db)"
  shows "insertIntegrationToolApproval env ctx inp newId now db = Inr (db', a) \<Longrightarrow>
      jsmap_ok (ad_requests db')"
    and "insertAutoApprovedIntegrationToolApproval env ctx inp d newId now db = Inr (db', a) \<Longrightarrow>
      jsmap_ok (ad_requests db')"
    and "insertAutoRejectedIntegrationToolApproval env ctx inp newId now db = Inr (db', a) \<Longrightarrow>
      jsmap_ok (ad_requests db')"
  using assms jsmap_ok_insert_pending [OF assms]
  by (auto simp: insertIntegrationToolApproval_def insertAutoApprovedIntegrationToolApproval_def
      insertAutoRejectedIntegrationToolApproval_def Let_def split: sum.splits option.splits)

lemma jsmap_ok_claim_reservation:
  "jsmap_ok (ad_requests db) \<Longrightarrow> jsmap_ok (ad_requests (fst (claim_reservation k u tool db)))"
  by (simp add: claim_reservation_def claimApproved_requests)

lemma jsmap_ok_claimTask:
  "jsmap_ok (ad_requests db) \<Longrightarrow>
   jsmap_ok (ad_requests (fst (claimTaskIntegrationToolCall taskId fp now locked db)))"
  by (auto simp: claimTaskIntegrationToolCall_def split: option.split)

lemma jsmap_ok_any_step: "jsmap_ok (ad_requests db) \<Longrightarrow> jsmap_ok (ad_requests (approval_step opr db))"
proof (cases opr)
  case (OpClaimTaskCall taskId fp now locked)
  then show "jsmap_ok (ad_requests db) \<Longrightarrow> ?thesis" by (simp add: jsmap_ok_claimTask)
next
  case (OpAsk env ctx inp newId now)
  then show "jsmap_ok (ad_requests db) \<Longrightarrow> ?thesis"
    using jsmap_ok_inserts(1)
    by (cases "insertIntegrationToolApproval env ctx inp newId now db") fastforce+
next
  case (OpReserve env ctx inp d newId now)
  then show "jsmap_ok (ad_requests db) \<Longrightarrow> ?thesis"
    using jsmap_ok_inserts(2)
    by (cases "insertAutoApprovedIntegrationToolApproval env ctx inp d newId now db") fastforce+
next
  case (OpDeny env ctx inp newId now)
  then show "jsmap_ok (ad_requests db) \<Longrightarrow> ?thesis"
    using jsmap_ok_inserts(3)
    by (cases "insertAutoRejectedIntegrationToolApproval env ctx inp newId now db") fastforce+
next
  case (OpInsertPending env ctx inp newId now owner)
  then show "jsmap_ok (ad_requests db) \<Longrightarrow> ?thesis"
    using jsmap_ok_insert_pending
    by (cases "insert_pending env ctx inp newId now owner db") fastforce+
qed (erule jsmap_ok_step, simp)+

lemma jsmap_ok_steps: "jsmap_ok (ad_requests db) \<Longrightarrow> jsmap_ok (ad_requests (fold approval_step ops db))"
  by (induction ops arbitrary: db) (simp_all add: jsmap_ok_any_step)

text \<open>The row a claim at the proxy used: of this task and this exact call, decided, now spent.\<close>

definition spent_for :: "string option \<Rightarrow> string \<Rightarrow> approval_row \<Rightarrow> bool" where
  "spent_for taskId fingerprint row \<longleftrightarrow>
     ap_taskId row = taskId \<and> ap_argsFingerprint row = fingerprint \<and>
     ap_decidedAt row \<noteq> None \<and> ap_status row \<in> {ApConsumed, ApAutoApproved}"

lemma claimProxy_spent:
  assumes "claimProxyTaskToolCall taskId fp now locked db = (db', res)" "jsmap_ok (ad_requests db)"
  shows "jsmap_ok (ad_requests db') \<and>
    (\<forall>k. res = Some k \<longrightarrow> row_is k (spent_for taskId fp) (ad_requests db'))"
proof (cases "truthy taskId")
  case False
  then show ?thesis using assms by (auto simp: claimProxyTaskToolCall_def)
next
  case True
  then obtain task where task: "taskId = Some task" by (auto simp: truthy_iff)
  show ?thesis
  proof (cases "oldest_claimable task fp now locked db")
    case None
    then show ?thesis
      using assms True
      by (auto simp: task claimProxyTaskToolCall_def run_claim_def claimTaskIntegrationToolCall_def)
  next
    case (Some kr)
    obtain k row where kr: "kr = (k, row)" by fastforce
    have row: "map_of (ad_requests db) k = Some row" "claimable_call task fp now row"
      using oldest_claimable_Some assms(2) Some kr by auto
    have "db' = db\<lparr>ad_requests := fst (update_where k (\<lambda>r. True)
        (\<lambda>r. r\<lparr>ap_status := claimed_call_status row\<rparr>) (ad_requests db))\<rparr>" and "res = Some k"
      using assms(1) True Some kr
      by (auto simp: task claimProxyTaskToolCall_def run_claim_def claimTaskIntegrationToolCall_def)
    then show ?thesis
      using assms(2) row
      by (auto simp: row_is_def map_of_update_where spent_for_def claimable_call_def task
          claimed_call_status_def split: option.splits)
  qed
qed

lemma claim_for_caller_spent:
  assumes "claim_for_caller taskId fp now locked l1 l2 db = (db', res)" "jsmap_ok (ad_requests db)"
  shows "jsmap_ok (ad_requests db') \<and> res \<noteq> PassNotRequired \<and>
    (\<forall>k. res = PassClaimed k \<longrightarrow> row_is k (spent_for taskId fp) (ad_requests db'))"
  using assms claimProxy_spent [of taskId fp now locked db]
  by (auto simp: claim_for_caller_def split: if_splits prod.splits option.splits)

lemma wait_for_decision_spent:
  assumes "wait_for_decision session taskId fp k0 deadline rs db = (db', res)" "jsmap_ok (ad_requests db)"
  shows "jsmap_ok (ad_requests db') \<and> res \<noteq> PassNotRequired \<and>
    (\<forall>k. res = PassClaimed k \<longrightarrow> row_is k (spent_for taskId fp) (ad_requests db'))"
  using assms
proof (induction session taskId fp k0 deadline rs db rule: wait_for_decision.induct)
  case (1 session taskId fp k0 deadline db)
  then show ?case by auto
next
  case (2 session taskId fp k0 deadline r rs db)
  define db1 where "db1 = fold approval_step (wr_before r) db"
  obtain db2 status where st: "getTaskToolApprovalStatus session k0 (wr_now r) db1 = (db2, status)"
    by fastforce
  have ok1: "jsmap_ok (ad_requests db1)" using 2(3) by (simp add: db1_def jsmap_ok_steps)
  then have ok2: "jsmap_ok (ad_requests db2)"
    using st by (auto simp: getTaskToolApprovalStatus_def expireIntegrationToolApproval_def
        split: option.splits if_splits)
  show ?case
  proof (cases "wr_now r \<ge> deadline \<or> fst (wr_left r)")
    case True
    then show ?thesis using 2(2) ok1 by (auto simp: db1_def)
  next
    case False
    then show ?thesis
      using 2(2) 2(1) [OF False] st ok2 jsmap_ok_steps [OF ok2, of "wr_beforeClaim r"]
      by (auto simp: db1_def [symmetric] dest: claim_for_caller_spent split: if_splits)
  qed
qed

lemma jsmap_ok_suspend:
  "ad_requests (fst (suspendIntegrationToolAutoForSession sid now db)) = ad_requests db"
  by (simp add: suspendIntegrationToolAutoForSession_def)

lemma jsmap_ok_claimAuto:
  "jsmap_ok (ad_requests db) \<Longrightarrow>
   jsmap_ok (ad_requests (fst (claimAutoApprovedIntegrationToolApproval k u tool db)))"
  using jsmap_ok_claim_reservation [of db k u tool]
  by (auto simp: claimAutoApprovedIntegrationToolApproval_def close_reservation_def
      split: prod.splits)

lemma requestTask_ok:
  assumes "jsmap_ok (ad_requests db)"
  shows "jsmap_ok (ad_requests (fst (requestTaskToolApproval collate env session ask db)))"
proof -
  have outcome: "jsmap_ok (ad_requests (fst (with_outcome f db1 r)))"
    if "jsmap_ok (ad_requests db1)" "\<And>db' a. r = Inr (db', a) \<Longrightarrow> jsmap_ok (ad_requests db')" for f db1 r
    using that by (auto simp: with_outcome_def split: sum.split)
  have suspended: "jsmap_ok (ad_requests
      (fst (suspendIntegrationToolAutoForSession sid (ax_now env) db)))" for sid
    using assms by (simp add: jsmap_ok_suspend)
  have claimed: "jsmap_ok (ad_requests db'')"
    if "claimAutoApprovedIntegrationToolApproval k u None db' = (db'', b)" "jsmap_ok (ad_requests db')"
    for k u db' db'' b
    using jsmap_ok_claimAuto [OF that(2), of k u None] that(1) by simp
  show ?thesis
    unfolding requestTaskToolApproval_def Let_def
    using assms suspended
    by (auto split: option.splits if_splits prod.splits sum.splits
        intro!: outcome intro: claimed dest: jsmap_ok_inserts [OF assms] jsmap_ok_inserts [OF suspended])
qed

lemma held_call_spends:
  assumes "jsmap_ok (ad_requests db)"
    and "check_held_call collate env runId session ask taskId first rounds db = (db', PassClaimed k)"
    and "requests.admissible_run ops db'"
  shows "row_is k (spent_for taskId (ak_argsFingerprint ask)) (ad_requests db')"
    and "snd (run_claim later (fold approval_step ops db')) \<noteq> Some k"
proof -
  let ?fp = "ak_argsFingerprint ask"
  obtain db1 res where c: "claimProxyTaskToolCall taskId ?fp (ax_now env) (wr_locked first) db = (db1, res)"
    by fastforce
  note first_claim = claimProxy_spent [OF c assms(1)]
  have ok2: "jsmap_ok (ad_requests (fold approval_step (wr_before first) db1))"
    using first_claim by (simp add: jsmap_ok_steps)
  have spent: "jsmap_ok (ad_requests db') \<and> row_is k (spent_for taskId ?fp) (ad_requests db')"
  proof (cases res)
    case (Some k')
    then show ?thesis using first_claim assms(2) c by (auto simp: check_held_call_def)
  next
    case None
    define db2 where "db2 = fold approval_step (wr_before first) db1"
    obtain db3 out where rq: "requestTaskToolApproval collate env session
        (ask\<lparr>ak_nativeRequestId := ''proxy:'' @ ?fp\<rparr>) db2 = (db3, out)"
      by fastforce
    have ok3: "jsmap_ok (ad_requests db3)"
      using requestTask_ok [of db2 collate env session "ask\<lparr>ak_nativeRequestId := ''proxy:'' @ ?fp\<rparr>"]
        ok2 rq by (simp add: db2_def)
    have "decideUnaskedTaskToolCall collate env runId session ask taskId first rounds db2 =
        (db', Inr (PassClaimed k))"
      using assms(2) c None by (auto simp: check_held_call_def db2_def split: prod.splits sum.splits)
    then show ?thesis
      using rq ok3 jsmap_ok_steps [OF ok3, of "wr_beforeClaim first"]
      by (auto simp: decideUnaskedTaskToolCall_def map_prod_def split: if_splits sum.splits
          ask_outcome.splits prod.splits dest: claim_for_caller_spent wait_for_decision_spent)
  qed
  then show "row_is k (spent_for taskId ?fp) (ad_requests db')" by simp
  obtain row where row: "map_of (ad_requests db') k = Some row" "spent_for taskId ?fp row"
    using spent by (auto simp: row_is_def)
  then have "settled_db k row db'"
    using spent by (auto simp: settled_db_def row_is_def terminal_def spent_for_def)
  then have settled: "settled_db k row (fold approval_step ops db')"
    using assms(3) by (rule settled_request.run_ok)
  show "snd (run_claim later (fold approval_step ops db')) \<noteq> Some k"
  proof
    assume "snd (run_claim later (fold approval_step ops db')) = Some k"
    then obtain db4 where "run_claim later (fold approval_step ops db') = (db4, Some k)"
      by (metis prod.collapse)
    from run_claim_won [OF this] settled row(2) show False
      by (auto simp: settled_db_def row_is_def spent_for_def dest: same_decision_status)
  qed
qed


definition task_call :: approval_input where
  "task_call = example_call\<lparr>ai_taskId := Some ''t''\<rparr>"

definition held_db :: approval_db where
  "held_db = fold approval_step
     [OpAsk plain_env example_ctx task_call ''a'' 0, OpDecide example_ctx ''a'' DecApproved 5]
     example_db"

lemma example_ctx_fields [simp]: "ac_sessionId example_ctx = ''s''" "ac_userId example_ctx = ''ann''"
  by (simp_all add: example_ctx_def)

lemma task_asked:
  "ad_requests (approval_step (OpAsk plain_env example_ctx task_call ''a'' 0) example_db) =
     [(''a'', example_row\<lparr>ap_taskId := Some ''t''\<rparr>)]"
  by (simp add: insertIntegrationToolApproval_def find_row_def insert_pending_def
      Let_def insert_row_def INTEGRATION_TOOL_APPROVAL_WINDOW_MINUTES_def example_row_def
      new_request_def task_call_def)

lemma held_requests [simp]:
  "ad_requests held_db =
     [(''a'', example_row\<lparr>ap_taskId := Some ''t'', ap_status := ApApproved,
                          ap_decidedByUserId := Some ''ann'', ap_decidedAt := Some 5\<rparr>)]"
proof -
  have "ad_requests (approval_step (OpDecide example_ctx ''a'' DecApproved 5) db) =
      [(''a'', example_row\<lparr>ap_taskId := Some ''t'', ap_status := ApApproved,
                          ap_decidedByUserId := Some ''ann'', ap_decidedAt := Some 5\<rparr>)]"
    if "ad_requests db = [(''a'', example_row\<lparr>ap_taskId := Some ''t''\<rparr>)]" for db
    using that by (simp add: decideIntegrationToolApproval_def update_where_def answerable_def
        decided_status_def)
  then show ?thesis using task_asked by (simp add: held_db_def)
qed

definition quiet_round :: wait_round where
  "quiet_round = \<lparr>wr_before = [], wr_beforeClaim = [], wr_now = 10, wr_locked = [],
     wr_left = (False, False, False)\<rparr>"

definition example_ask :: tool_ask where
  "example_ask =
     \<lparr>ak_integrationId = ''github'', ak_toolName = ''merge'', ak_nativeRequestId = ''req-1'',
      ak_argsFingerprint = ''f'', ak_args = JObj [], ak_actingUserId = Some ''ann'',
      ak_scopeOf = (\<lambda>i. None)\<rparr>"

definition example_ask_env :: ask_env where
  "example_ask_env =
     \<lparr>ax_redaction = plain_env,
      ax_settings = \<lparr>se_experimentEnabled = True, se_nightlyExperiments = True,
                     se_judgmentModel = False\<rparr>,
      ax_verdict = VerdictOff, ax_presence = (True, True), ax_newId = ''b'', ax_now = 10\<rparr>"

definition example_task_session :: task_session where
  "example_task_session =
     \<lparr>tk_taskId = ''t'', tk_sessionId = ''s'', tk_ownerUserId = Some ''ann'',
      tk_sourceSurface = None\<rparr>"

lemma held_claim:
  "claimProxyTaskToolCall (Some ''t'') ''f'' 10 [] held_db =
     (held_db\<lparr>ad_requests :=
        [(''a'', example_row\<lparr>ap_taskId := Some ''t'', ap_status := ApConsumed,
                          ap_decidedByUserId := Some ''ann'', ap_decidedAt := Some 5\<rparr>)]\<rparr>,
      Some ''a'')"
proof -
  have "ap_argsFingerprint example_row = ''f''"
    by (simp add: example_row_def new_request_def example_call_def)
  then show ?thesis
    by (simp add: claimProxyTaskToolCall_def run_claim_def claimTaskIntegrationToolCall_def
        oldest_claimable_def select_rows_def claimable_call_def claimed_call_status_def
        INTEGRATION_TOOL_APPROVAL_WINDOW_MINUTES_def update_where_def)
qed

lemma held_call_passes:
  "check_held_call length example_ask_env (Some 1) (Some example_task_session) example_ask
     (Some ''t'') quiet_round [] held_db =
   (fst (claimProxyTaskToolCall (Some ''t'') ''f'' 10 [] held_db), PassClaimed ''a'')"
  by (simp add: check_held_call_def held_claim example_ask_def example_ask_env_def quiet_round_def)


text \<open>The blocks of a task's request for the example, of a tool the deployment asks about.\<close>

definition run_request :: proxy_request where
  "run_request =
     \<lparr>px_integrationId = ''github'', px_policyScope = None, px_tokenType = RunToken,
      px_sessionId = Some ''s'', px_actingUserId = Some ''ann''\<rparr>"

definition asking_db :: approval_db where
  "asking_db = upsertIntegrationToolPolicy ''github'' ''merge'' ModeAsk ''root'' ''p'' 1 example_db"

lemma asking_stored [simp]:
  "stored_mode st (i, t) asking_db =
     (if same_table (DeploymentStore None) st \<and> i = ''github'' \<and> t = ''merge'' then Some ModeAsk
      else None)"
  by (cases st) (auto simp: asking_db_def upsertIntegrationToolPolicy_def stored_mode_upsertPolicy,
      auto simp: stored_mode_def example_db_def)

theorem proxy_block_is_the_stored_choice_witness:
  "resolveProxyToolApprovalBlock
     (resolveProxyToolApprovalBlocks length (ax_settings example_ask_env) run_request asking_db)
     ''merge'' = Some BlockNeedsApproval"
proof -
  have "policies_ok example_db"
    by (simp add: policies_ok_def stored_mode_def example_db_def split: policy_store.split)
  then have ok: "policies_ok asking_db"
    by (simp add: asking_db_def upsertIntegrationToolPolicy_def policies_ok_upsertPolicy)
  have none: "ad_overrides asking_db = []"
    by (simp add: asking_db_def upsertIntegrationToolPolicy_def upsertPolicy_def)
  then have "jsmap_ok (ad_overrides asking_db)" by simp
  from proxy_block_is_the_stored_choice [OF ok this, of length "ax_settings example_ask_env"
      run_request "''merge''"]
  show ?thesis
    by (simp add: run_request_def stored_policy_def stored_override_def none Let_def)
qed

end
