(* ===== verification/NativeRules.thy ===== *)
theory NativeRules
  imports ApprovalEnforcement
begin

section \<open>Approvals in a session's own runtime\<close>

text \<open>
  \<open>packages/cloud-agents/src/server/fast-agent/fast-agent-tool-approvals.ts\<close> and the server names of
  \<open>fast-agent-tool-policy.ts\<close>: the names integrations are mounted under, the native permission
  rules compiled for a session, the tool and arguments a native ask is for, and the wait for the
  owner's decision on a card. Arguments of calls are JSON values, so equal serializations are
  equal values.
\<close>

subsection \<open>Server names\<close>

text \<open>
  \<open>id.replace(/[^a-zA-Z0-9_-]/gu, '_')\<close> is \<open>sanitize\<close>. The inner loop tries suffixes until a name is
  free; it ends because the candidates are distinct and the taken names are finitely many.
\<close>

definition suffixed_name :: "string \<Rightarrow> nat \<Rightarrow> string" where
  "suffixed_name baseName n = baseName @ ''__roomote_'' @ nat_str n"

lemma suffixed_name_inject [simp]: "suffixed_name b m = suffixed_name b n \<longleftrightarrow> m = n"
  by (simp add: suffixed_name_def)

lemma finite_taken_suffixes: "finite {m. n \<le> m \<and> suffixed_name b m \<in> set taken}"
proof -
  have "finite (suffixed_name b -` set taken)"
    by (rule finite_vimageI) (simp_all add: inj_def)
  then show ?thesis by (rule rev_finite_subset) auto
qed

function unused_name :: "string \<Rightarrow> nat \<Rightarrow> string list \<Rightarrow> string" where
  "unused_name baseName n taken =
     (if suffixed_name baseName n \<in> set taken then unused_name baseName (n + 1) taken
      else suffixed_name baseName n)"
  by pat_completeness auto

termination
proof (relation "measure (\<lambda>(b, n, taken). card {m. n \<le> m \<and> suffixed_name b m \<in> set taken})")
  fix b :: string and n taken
  assume "suffixed_name b n \<in> set taken"
  then have "n \<in> {m. n \<le> m \<and> suffixed_name b m \<in> set taken}" by simp
  moreover have "n \<notin> {m. n + 1 \<le> m \<and> suffixed_name b m \<in> set taken}" by simp
  moreover have "{m. n + 1 \<le> m \<and> suffixed_name b m \<in> set taken} \<subseteq> {m. n \<le> m \<and> suffixed_name b m \<in> set taken}"
    by auto
  ultimately have "{m. n + 1 \<le> m \<and> suffixed_name b m \<in> set taken} \<subset> {m. n \<le> m \<and> suffixed_name b m \<in> set taken}"
    by blast
  then show "((b, n + 1, taken), b, n, taken) \<in>
      measure (\<lambda>(b, n, taken). card {m. n \<le> m \<and> suffixed_name b m \<in> set taken})"
    using finite_taken_suffixes by (simp add: psubset_card_mono)
qed simp

declare unused_name.simps [simp del]

lemma unused_name_fresh: "unused_name b n taken \<notin> set taken"
  by (induction b n taken rule: unused_name.induct) (simp add: unused_name.simps [of _ _ taken for taken])

lemma unused_name_form: "\<exists>m \<ge> n. unused_name b n taken = suffixed_name b m"
proof (induction b n taken rule: unused_name.induct)
  case (1 b n taken)
  then show ?case
    by (subst unused_name.simps) (auto dest: Suc_leD)
qed

definition server_name :: "string list \<Rightarrow> nat \<Rightarrow> string list \<Rightarrow> string" where
  "server_name sanitized index used =
     (let baseName = sanitized ! index in
      if baseName \<in> set used \<or> find_index (\<lambda>s. s = baseName) sanitized \<noteq> Some index
      then unused_name baseName (index + 1) (used @ sanitized) else baseName)"

text \<open>The names in the order of the ids.\<close>

fun assigned_names :: "string list \<Rightarrow> nat \<Rightarrow> string list" where
  "assigned_names sanitized 0 = []"
| "assigned_names sanitized (Suc n) =
     (let used = assigned_names sanitized n in used @ [server_name sanitized n used])"

definition buildFastAgentCodeModeServerNames :: "string list \<Rightarrow> (string, string) jsmap" where
  "buildFastAgentCodeModeServerNames integrationIds =
     map_from (zip integrationIds
       (assigned_names (map sanitize integrationIds) (length integrationIds)))"

lemma length_assigned [simp]: "length (assigned_names sanitized n) = n"
  by (induction n) (simp_all add: Let_def)

lemma server_name_free: "server_name sanitized n used \<notin> set used"
  using unused_name_fresh [of _ _ "used @ sanitized"] by (auto simp: server_name_def Let_def)

lemma distinct_assigned: "distinct (assigned_names sanitized n)"
  by (induction n) (simp_all add: Let_def server_name_free)

lemma nat_str_word: "c \<in> set (nat_str n) \<Longrightarrow> word_char c"
  using nat_str_digits [of n] by (auto simp: is_digit_def word_char_def Let_def)

lemma sanitize_word: "c \<in> set (sanitize s) \<Longrightarrow> word_char c"
  by (auto simp: sanitize_def word_char_def split: if_splits)

lemma server_name_word:
  assumes "n < length sanitized" "\<forall>s \<in> set sanitized. \<forall>c \<in> set s. word_char c"
  shows "\<forall>c \<in> set (server_name sanitized n used). word_char c"
proof -
  have base: "\<forall>c \<in> set (sanitized ! n). word_char c" using assms nth_mem by blast
  obtain m where "unused_name (sanitized ! n) (n + 1) (used @ sanitized) =
      suffixed_name (sanitized ! n) m"
    using unused_name_form by blast
  moreover have "\<forall>c \<in> set (suffixed_name (sanitized ! n) m). word_char c"
    using base nat_str_word by (auto simp: suffixed_name_def word_char_def)
  ultimately show ?thesis using base by (simp add: server_name_def Let_def)
qed

lemma assigned_word:
  assumes "n \<le> length sanitized" "\<forall>s \<in> set sanitized. \<forall>c \<in> set s. word_char c"
  shows "\<forall>name \<in> set (assigned_names sanitized n). \<forall>c \<in> set name. word_char c"
  using assms
proof (induction n)
  case (Suc n)
  then have "\<forall>c \<in> set (server_name sanitized n (assigned_names sanitized n)). word_char c"
    by (intro server_name_word) simp_all
  then show ?case using Suc by (simp add: Let_def)
qed simp

lemma set_map_from: "set (map_from kvs) \<subseteq> set kvs"
proof -
  have "set (fold (\<lambda>kv m. AList.update (fst kv) (snd kv) m) kvs m) \<subseteq> set m \<union> set kvs" for m
  proof (induction kvs arbitrary: m)
    case (Cons kv kvs)
    have "set (AList.update (fst kv) (snd kv) m) \<subseteq> insert kv (set m)"
      using set_alist_update [of "fst kv" "snd kv" m] by simp
    then show ?case using Cons.IH [of "AList.update (fst kv) (snd kv) m"] by auto
  qed simp
  from this [of "[]"] show ?thesis by (simp add: map_from_def)
qed

text \<open>A name found for an id is the one assigned at one of the id's positions.\<close>

lemma server_names_at:
  assumes "map_of (buildFastAgentCodeModeServerNames ids) i = Some name"
  shows "\<exists>j < length ids. ids ! j = i \<and> assigned_names (map sanitize ids) (length ids) ! j = name"
proof -
  let ?kvs = "zip ids (assigned_names (map sanitize ids) (length ids))"
  have "map_of (rev ?kvs) i = Some name"
    using assms map_of_map_from_aux [of ?kvs "[]" i]
    by (simp add: buildFastAgentCodeModeServerNames_def map_from_def split: option.splits)
  then have "(i, name) \<in> set ?kvs" by (metis map_of_SomeD set_rev)
  then show ?thesis by (auto simp: in_set_zip)
qed

lemma server_name_all:
  "map_of (buildFastAgentCodeModeServerNames ids) i =
     map_of (rev (zip ids (assigned_names (map sanitize ids) (length ids)))) i"
  using map_of_map_from_aux [of "zip ids (assigned_names (map sanitize ids) (length ids))" "[]" i]
  by (simp add: buildFastAgentCodeModeServerNames_def map_from_def split: option.splits)

lemma server_name_None:
  "map_of (buildFastAgentCodeModeServerNames ids) i = None \<longleftrightarrow> i \<notin> set ids"
  by (simp add: server_name_all map_of_eq_None_iff map_fst_zip flip: set_map)

lemma server_names_word:
  "(i, name) \<in> set (buildFastAgentCodeModeServerNames ids) \<Longrightarrow> list_all word_char name"
proof -
  assume named: "(i, name) \<in> set (buildFastAgentCodeModeServerNames ids)"
  have "\<forall>s \<in> set (map sanitize ids). \<forall>c \<in> set s. word_char c"
    using sanitize_word by auto
  then have "\<forall>name \<in> set (assigned_names (map sanitize ids) (length ids)). \<forall>c \<in> set name. word_char c"
    by (intro assigned_word) simp_all
  moreover have "name \<in> set (assigned_names (map sanitize ids) (length ids))"
    using named unfolding buildFastAgentCodeModeServerNames_def
    by (blast dest: set_map_from [THEN subsetD] set_zip_rightD)
  ultimately show ?thesis by (auto simp: list_all_iff)
qed

text \<open>Every mounted integration gets a server name, made of the characters the runtime accepts,
  and no two integrations share one, however their ids collide when sanitized; the search for a
  free suffix always ends.\<close>

theorem server_names_are_unique:
  "(\<forall>i. (map_of (buildFastAgentCodeModeServerNames ids) i = None) = (i \<notin> set ids)) \<and>
   inj_on (map_of (buildFastAgentCodeModeServerNames ids)) (set ids) \<and>
   list_all (\<lambda>(i, name). list_all word_char name) (buildFastAgentCodeModeServerNames ids)"
proof (intro conjI inj_onI)
  show "\<forall>i. (map_of (buildFastAgentCodeModeServerNames ids) i = None) = (i \<notin> set ids)"
    using server_name_None by blast
  show "i = j" if "i \<in> set ids" "j \<in> set ids"
      "map_of (buildFastAgentCodeModeServerNames ids) i = map_of (buildFastAgentCodeModeServerNames ids) j"
    for i j
  proof -
    have "map_of (buildFastAgentCodeModeServerNames ids) i \<noteq> None"
      using that(1) server_name_None [of ids i] by simp
    then obtain name where "map_of (buildFastAgentCodeModeServerNames ids) i = Some name" by blast
    with that(3) have "map_of (buildFastAgentCodeModeServerNames ids) i = Some name"
        "map_of (buildFastAgentCodeModeServerNames ids) j = Some name"
      by simp_all
    then obtain a b where "a < length ids" "ids ! a = i" "b < length ids" "ids ! b = j"
        "assigned_names (map sanitize ids) (length ids) ! a =
         assigned_names (map sanitize ids) (length ids) ! b"
      using server_names_at by metis
    then show "i = j" using distinct_assigned nth_eq_iff_index_eq length_assigned by metis
  qed
  show "list_all (\<lambda>(i, name). list_all word_char name) (buildFastAgentCodeModeServerNames ids)"
    using server_names_word by (auto simp: list_all_iff)
qed

subsection \<open>Permission rules\<close>

record mounted_integration =
  mi_id :: string
  mi_tools :: "string list"

record mounted_tool =
  mt_integrationId :: string
  mt_toolName :: string
  mt_serverName :: string
  mt_key :: string

definition codeModeToolKey :: "string \<Rightarrow> string \<Rightarrow> string" where
  "codeModeToolKey serverName toolName = serverName @ ''_'' @ toolName"

definition listMountedIntegrationTools :: "mounted_integration list \<Rightarrow> mounted_tool list" where
  "listMountedIntegrationTools integrations =
     (let serverNames = buildFastAgentCodeModeServerNames (map mi_id integrations)
      in concat (map (\<lambda>integration.
           let serverName = the (map_of serverNames (mi_id integration))
           in map (\<lambda>tool. \<lparr>mt_integrationId = mi_id integration, mt_toolName = tool,
                            mt_serverName = serverName,
                            mt_key = codeModeToolKey serverName tool\<rparr>) (mi_tools integration))
         integrations))"

datatype rule_action = RuleAsk | RuleDeny

definition tool_rule ::
    "(tool_key, policy_mode) jsmap \<Rightarrow> (tool_key, override_mode) jsmap \<Rightarrow> bool \<Rightarrow> mounted_tool
     \<Rightarrow> rule_action option \<times> bool" where
  "tool_rule modeByTool overrideByTool autoOn tool =
     (let key = integrationToolPolicyKey (mt_integrationId tool) (mt_toolName tool);
          policyMode = map_of modeByTool key;
          overrideMode = map_of overrideByTool key;
          mode = resolveEffectiveIntegrationToolMode policyMode overrideMode;
          autoAssessed = (autoOn \<and> integrationToolModeIsAutoAssessed policyMode overrideMode)
      in if mode = ModeReject then (Some RuleDeny, False)
         else if mode = ModeAsk \<or> mode = ModeAllow \<and> policyMode = Some ModeAsk \<or> autoAssessed
         then (Some RuleAsk, autoAssessed)
         else (None, False))"

text \<open>One iteration: the rules by native key, and the keys Auto alone made ask.\<close>

definition add_rule ::
    "(mounted_tool \<Rightarrow> rule_action option \<times> bool) \<Rightarrow> mounted_tool
     \<Rightarrow> (string, rule_action) jsmap \<times> tool_key list \<Rightarrow> (string, rule_action) jsmap \<times> tool_key list"
where
  "add_rule rule tool st =
     (case rule tool of
        (Some RuleDeny, auto) \<Rightarrow> (AList.update (mt_key tool) RuleDeny (fst st), snd st)
      | (Some RuleAsk, auto) \<Rightarrow>
          if map_of (fst st) (mt_key tool) = Some RuleDeny then st
          else (AList.update (mt_key tool) RuleAsk (fst st),
                if auto then List.insert (mt_integrationId tool, mt_toolName tool) (snd st)
                else snd st)
      | (None, auto) \<Rightarrow> st)"

definition buildIntegrationToolApprovalRules ::
    "mounted_integration list \<Rightarrow> policy_entry list \<Rightarrow> override_entry list \<Rightarrow> bool
     \<Rightarrow> (string, rule_action) jsmap \<times> tool_key list" where
  "buildIntegrationToolApprovalRules integrations policies sessionOverrides autoOn =
     (let modeByTool = map_from (map (\<lambda>p. (entry_key p, pe_mode p)) policies);
          overrideByTool = map_from (map (\<lambda>ov. (integrationToolPolicyKey (oe_integrationId ov)
            (oe_toolName ov), oe_mode ov)) sessionOverrides)
      in fold (add_rule (tool_rule modeByTool overrideByTool autoOn))
           (listMountedIntegrationTools integrations) ([], []))"

definition integrationToolApprovalRulesToConfig ::
    "(string, rule_action) jsmap \<Rightarrow> (string, rule_action) jsmap" where
  "integrationToolApprovalRulesToConfig rules = map_from rules"

text \<open>The outer option is \<open>undefined\<close>, the inner one \<open>null\<close>.\<close>

definition shouldDisposeInstanceForToolConfig :: "string option option \<Rightarrow> string option \<Rightarrow> bool" where
  "shouldDisposeInstanceForToolConfig recordedHash currentHash \<longleftrightarrow>
     (case recordedHash of None \<Rightarrow> False | Some h \<Rightarrow> h \<noteq> currentHash)"

text \<open>The tools that share a native key with a given action.\<close>

lemma map_of_add_rules:
  "map_of (fst (fold (add_rule rule) tools st)) key =
     (if map_of (fst st) key = Some RuleDeny \<or>
         (\<exists>t \<in> set tools. mt_key t = key \<and> fst (rule t) = Some RuleDeny) then Some RuleDeny
      else if map_of (fst st) key = Some RuleAsk \<or>
         (\<exists>t \<in> set tools. mt_key t = key \<and> fst (rule t) = Some RuleAsk) then Some RuleAsk
      else None)"
proof (induction tools arbitrary: st)
  case Nil
  show ?case by (cases "map_of (fst st) key"; cases "the (map_of (fst st) key)") simp_all
next
  case (Cons t tools)
  have one: "map_of (fst (add_rule rule t st)) key =
      (if mt_key t \<noteq> key then map_of (fst st) key
       else case fst (rule t) of
              None \<Rightarrow> map_of (fst st) key
            | Some RuleDeny \<Rightarrow> Some RuleDeny
            | Some RuleAsk \<Rightarrow> if map_of (fst st) key = Some RuleDeny then Some RuleDeny else Some RuleAsk)"
    by (cases "rule t") (auto simp: add_rule_def update_conv' split: option.split rule_action.split)
  show ?case
    unfolding fold_Cons comp_def Cons.IH one
    by (cases "fst (rule t)"; cases "the (fst (rule t))") auto
qed

text \<open>C27: A session's native rules are the most restrictive among the tools that share a key: a key is
  denied exactly when some mounted tool that flattens to it is rejected, it asks exactly when none
  is and some tool of the key asks (by policy, by the session's choice, by a session allow over a
  policy ask, which the bridge answers itself, or because Auto assesses it), and it has no rule
  otherwise; so a collision never lets a gated tool run ungated.\<close>

theorem native_rules_are_the_strictest:
  "map_of (fst (buildIntegrationToolApprovalRules integrations policies overrides autoOn)) key =
     (let tools = filter (\<lambda>t. mt_key t = key) (listMountedIntegrationTools integrations);
          mode = (\<lambda>t. map_of (map_from (map (\<lambda>p. (entry_key p, pe_mode p)) policies))
            (mt_integrationId t, mt_toolName t));
          choice = (\<lambda>t. map_of (map_from (map (\<lambda>ov. ((oe_integrationId ov, oe_toolName ov), oe_mode ov))
            overrides)) (mt_integrationId t, mt_toolName t))
      in if list_ex (\<lambda>t. mode t = Some ModeReject) tools then Some RuleDeny
         else if list_ex (\<lambda>t. mode t = Some ModeAsk \<or> choice t = Some OverrideAsk \<or>
             autoOn \<and> mode t = None \<and> choice t = None) tools then Some RuleAsk
         else None)"
proof -
  let ?m = "map_from (map (\<lambda>p. (entry_key p, pe_mode p)) policies)"
  let ?c = "map_from (map (\<lambda>ov. ((oe_integrationId ov, oe_toolName ov), oe_mode ov)) overrides)"
  have reject: "fst (tool_rule ?m ?c autoOn t) = Some RuleDeny \<longleftrightarrow>
      map_of ?m (mt_integrationId t, mt_toolName t) = Some ModeReject" for t
    by (cases "map_of ?m (mt_integrationId t, mt_toolName t)";
        cases "map_of ?c (mt_integrationId t, mt_toolName t)";
        cases "the (map_of ?m (mt_integrationId t, mt_toolName t))";
        cases "the (map_of ?c (mt_integrationId t, mt_toolName t))")
      (simp_all add: tool_rule_def Let_def integrationToolPolicyKey_def
        resolveEffectiveIntegrationToolMode_def integrationToolModeIsAutoAssessed_def)
  have ask: "fst (tool_rule ?m ?c autoOn t) = Some RuleAsk \<longleftrightarrow>
      map_of ?m (mt_integrationId t, mt_toolName t) \<noteq> Some ModeReject \<and>
      (map_of ?m (mt_integrationId t, mt_toolName t) = Some ModeAsk \<or>
       map_of ?c (mt_integrationId t, mt_toolName t) = Some OverrideAsk \<or>
       autoOn \<and> map_of ?m (mt_integrationId t, mt_toolName t) = None \<and>
         map_of ?c (mt_integrationId t, mt_toolName t) = None)" for t
    by (cases "map_of ?m (mt_integrationId t, mt_toolName t)";
        cases "map_of ?c (mt_integrationId t, mt_toolName t)";
        cases "the (map_of ?m (mt_integrationId t, mt_toolName t))";
        cases "the (map_of ?c (mt_integrationId t, mt_toolName t))")
      (simp_all add: tool_rule_def Let_def integrationToolPolicyKey_def
        resolveEffectiveIntegrationToolMode_def integrationToolModeIsAutoAssessed_def)
  show ?thesis
    unfolding buildIntegrationToolApprovalRules_def integrationToolPolicyKey_def Let_def
      map_of_add_rules reject ask
    by (auto simp: list_ex_iff)
qed

end
