(* ===== verification/NativeAsks.thy ===== *)
theory NativeAsks
  imports NativeRules
begin

section \<open>Answering a native ask\<close>

text \<open>
  The bridge of \<open>packages/cloud-agents/src/server/fast-agent/fast-agent-tool-approvals.ts\<close>: a session's
  runtime pauses a call a rule gates and asks; the bridge finds out which mounted tool and which
  arguments the ask is for, lets Auto assess it or asks the owner on a card, and answers the
  runtime. The transactions others commit meanwhile are lists of steps between the ones made here.
\<close>

subsection \<open>Which call is asked about\<close>

record child_call =
  cc_tool :: jsv
  cc_input :: jsv
  cc_status :: jsv

record recovered_call =
  rv_input :: jsv
  rv_toolCalls :: "child_call list"

datatype call_args = CallArgs jsv "nat option" | CallCandidates "jsv list"

definition dotted_name :: "mounted_tool \<Rightarrow> string" where
  "dotted_name tool = mt_serverName tool @ ''.'' @ mt_toolName tool"

definition isOpenChildCall :: "child_call \<Rightarrow> bool" where
  "isOpenChildCall entry \<longleftrightarrow>
     cc_status entry \<noteq> JStr ''completed'' \<and> cc_status entry \<noteq> JStr ''error''"

text \<open>\<open>v ?? null\<close>; equal serializations are equal values.\<close>

definition or_null :: "jsv \<Rightarrow> jsv" where
  "or_null v = (if v = JUndefined then JNull else v)"

definition extractApprovalCallArgs :: "recovered_call option \<Rightarrow> mounted_tool \<Rightarrow> call_args" where
  "extractApprovalCallArgs recovered tool =
     (case recovered of
        None \<Rightarrow> CallArgs JUndefined None
      | Some rv \<Rightarrow>
          let matches = filter (\<lambda>entry. cc_tool entry = JStr (dotted_name tool)) (rv_toolCalls rv)
          in if matches = [] then CallArgs (rv_input rv) None
             else let running = filter isOpenChildCall matches;
                      candidates = (if running \<noteq> [] then running else [last matches]);
                      unlike = map_from (map (\<lambda>entry. (or_null (cc_input entry), cc_input entry))
                                 candidates)
                  in if length unlike = 1
                     then CallArgs (cc_input (hd candidates))
                            (if length candidates > 1 then Some (length candidates) else None)
                     else CallCandidates (map snd unlike))"

text \<open>The first dot becomes an underscore.\<close>

definition flattenDottedChildName :: "string \<Rightarrow> string" where
  "flattenDottedChildName dotted =
     (case find_index (\<lambda>c. c = CHR ''.'') dotted of
        None \<Rightarrow> dotted
      | Some boundary \<Rightarrow> take boundary dotted @ ''_'' @ drop (boundary + 1) dotted)"

record resolved_ask =
  ra_tool :: mounted_tool
  ra_args :: jsv
  ra_parallel :: "jsv list option"
  ra_concurrent :: bool

definition resolveToolForAsk ::
    "mounted_integration list \<Rightarrow> string \<Rightarrow> recovered_call option \<Rightarrow> resolved_ask option" where
  "resolveToolForAsk integrations permission recovered =
     (let mounted = listMountedIntegrationTools integrations;
          toolByDottedName = map_from (map (\<lambda>tool. (dotted_name tool, tool)) mounted)
      in case filter (\<lambda>tool. mt_key tool = permission) mounted of
           [tool] \<Rightarrow>
             (case extractApprovalCallArgs recovered tool of
                CallCandidates cs \<Rightarrow>
                  Some \<lparr>ra_tool = tool, ra_args = JArr cs, ra_parallel = Some cs, ra_concurrent = False\<rparr>
              | CallArgs args concurrent \<Rightarrow>
                  Some \<lparr>ra_tool = tool, ra_args = args, ra_parallel = None,
                        ra_concurrent = (concurrent \<noteq> None)\<rparr>)
         | _ \<Rightarrow>
             (case filter (\<lambda>entry. (case cc_tool entry of
                              JStr name \<Rightarrow> flattenDottedChildName name = permission \<and> isOpenChildCall entry
                            | _ \<Rightarrow> False))
                     (case recovered of None \<Rightarrow> [] | Some rv \<Rightarrow> rv_toolCalls rv) of
                [child] \<Rightarrow>
                  (case asString (cc_tool child) of
                     None \<Rightarrow> None
                   | Some name \<Rightarrow>
                       map_option (\<lambda>tool. \<lparr>ra_tool = tool, ra_args = cc_input child,
                           ra_parallel = None, ra_concurrent = False\<rparr>)
                         (map_of toolByDottedName name))
              | _ \<Rightarrow> None))"

lemma no_dot: "list_all word_char s \<Longrightarrow> CHR ''.'' \<notin> set s"
  by (auto simp: list_all_iff word_char_def)

lemma mounted_key: "t \<in> set (listMountedIntegrationTools integrations) \<Longrightarrow>
    mt_key t = mt_serverName t @ ''_'' @ mt_toolName t"
  by (auto simp: listMountedIntegrationTools_def Let_def codeModeToolKey_def)

lemma mounted_server_no_dot:
  assumes "t \<in> set (listMountedIntegrationTools integrations)"
  shows "CHR ''.'' \<notin> set (mt_serverName t)"
proof -
  obtain integration where i: "integration \<in> set integrations"
      "mt_serverName t = the (map_of (buildFastAgentCodeModeServerNames (map mi_id integrations))
         (mi_id integration))"
    using assms by (auto simp: listMountedIntegrationTools_def Let_def)
  then obtain name where "map_of (buildFastAgentCodeModeServerNames (map mi_id integrations))
      (mi_id integration) = Some name"
    using server_name_None [of "map mi_id integrations" "mi_id integration"] by force
  then show ?thesis using i server_names_word no_dot map_of_SomeD by fastforce
qed

lemma find_index_append_notin:
  "c \<notin> set s \<Longrightarrow> find_index (\<lambda>d. d = c) (s @ c # r) = Some (length s)"
  by (induction s) auto

lemma flatten_dotted_name:
  "t \<in> set (listMountedIntegrationTools integrations) \<Longrightarrow>
   flattenDottedChildName (dotted_name t) = mt_key t"
  using mounted_server_no_dot [of t integrations]
  by (simp add: flattenDottedChildName_def dotted_name_def mounted_key find_index_append_notin)

lemma resolved_is_mounted:
  assumes "resolveToolForAsk integrations permission recovered = Some r"
  shows "ra_tool r \<in> set (listMountedIntegrationTools integrations) \<and> mt_key (ra_tool r) = permission"
proof (cases "\<exists>t. filter (\<lambda>tool. mt_key tool = permission) (listMountedIntegrationTools integrations) = [t]")
  case True
  then obtain t where t: "filter (\<lambda>tool. mt_key tool = permission)
      (listMountedIntegrationTools integrations) = [t]" by blast
  then have "t \<in> set (filter (\<lambda>tool. mt_key tool = permission)
      (listMountedIntegrationTools integrations))" by simp
  then have "t \<in> set (listMountedIntegrationTools integrations) \<and> mt_key t = permission" by simp
  then show ?thesis
    using assms t by (auto simp: resolveToolForAsk_def Let_def split: call_args.splits)
next
  case False
  define kids where "kids = filter (\<lambda>entry. (case cc_tool entry of
      JStr name \<Rightarrow> flattenDottedChildName name = permission \<and> isOpenChildCall entry | _ \<Rightarrow> False))
    (case recovered of None \<Rightarrow> [] | Some rv \<Rightarrow> rv_toolCalls rv)"
  let ?byName = "map_from (map (\<lambda>tool. (dotted_name tool, tool))
    (listMountedIntegrationTools integrations))"
  have "(case kids of [child] \<Rightarrow>
      (case asString (cc_tool child) of None \<Rightarrow> None
       | Some name \<Rightarrow> map_option (\<lambda>tool. \<lparr>ra_tool = tool, ra_args = cc_input child,
           ra_parallel = None, ra_concurrent = False\<rparr>) (map_of ?byName name))
      | _ \<Rightarrow> None) = Some r"
    using assms False unfolding resolveToolForAsk_def Let_def kids_def
    by (cases "filter (\<lambda>tool. mt_key tool = permission) (listMountedIntegrationTools integrations)")
      (auto split: list.split_asm)
  then obtain child name tool where c: "kids = [child]" "cc_tool child = JStr name"
      "map_of ?byName name = Some tool" "ra_tool r = tool"
    by (auto split: list.split_asm option.split_asm)
  have "child \<in> set kids" using c(1) by simp
  then have "flattenDottedChildName name = permission" using c(2) by (simp add: kids_def)
  moreover have "(name, tool) \<in> set (map (\<lambda>tool. (dotted_name tool, tool))
      (listMountedIntegrationTools integrations))"
    using map_of_SomeD [OF c(3)] set_map_from by blast
  ultimately show ?thesis using c(4) flatten_dotted_name by auto
qed

subsection \<open>A card\<close>

text \<open>
  The wait for the owner: a round is the transactions before it reads the row, those before what it
  does about it, whether the turn was aborted, and the time. The rounds end the wait when they
  run out, which stands for a wait that still goes on.
\<close>

record card_round =
  cr_aborted :: bool
  cr_before :: "approval_op list"
  cr_beforeEnd :: "approval_op list"
  cr_now :: ms

datatype card_decision = CardApproved | CardRejected | CardExpired | CardInvalid | CardAborted

fun poll_card ::
    "string \<Rightarrow> string \<Rightarrow> ms \<Rightarrow> card_round list \<Rightarrow> approval_db \<Rightarrow> approval_db \<times> card_decision option"
where
  "poll_card approvalId userId deadline [] db = (db, None)"
| "poll_card approvalId userId deadline (r # rs) db =
     (if cr_aborted r then (db, Some CardAborted)
      else let db1 = fold approval_step (cr_before r) db;
               status = map_option ap_status (getIntegrationToolApproval approvalId db1)
           in if status \<in> {None, Some ApRejected, Some ApCancelled} then (db1, Some CardRejected)
              else if status = Some ApExpired then (db1, Some CardExpired)
              else if status = Some ApApproved
              then (case markIntegrationToolApprovalConsumed approvalId userId
                           (fold approval_step (cr_beforeEnd r) db1) of
                      (db2, consumed) \<Rightarrow> (db2, Some (if consumed then CardApproved else CardInvalid)))
              else if cr_now r \<ge> deadline
              then (expireIntegrationToolApproval approvalId
                      (fold approval_step (cr_beforeEnd r) db1), Some CardExpired)
              else poll_card approvalId userId deadline rs db1)"

text \<open>The row of the card is the pending one of the ask, or a new one; a failed notice throws.\<close>

definition awaitCardDecision ::
    "redaction_env \<Rightarrow> approval_context \<Rightarrow> approval_input \<Rightarrow> string \<Rightarrow> ms \<Rightarrow> bool \<Rightarrow> card_round list
     \<Rightarrow> approval_db \<Rightarrow> approval_db \<times> (string \<times> card_decision) option" where
  "awaitCardDecision env ctx inp newId now notified rounds db =
     (case insertIntegrationToolApproval env ctx inp newId now db of
        Inl e \<Rightarrow> (db, Some ([], CardInvalid))
      | Inr (db', approval) \<Rightarrow>
          if \<not> notified then (db', Some ([], CardInvalid))
          else case poll_card (am_approvalId approval) (ac_userId ctx) (am_expiresAt approval)
                      rounds db' of
                 (db'', decision) \<Rightarrow> (db'', map_option (Pair (am_approvalId approval)) decision))"

subsection \<open>The handler\<close>

record native_ask =
  nk_requestId :: string
  nk_permission :: string

record bridge_env =
  be_redaction :: redaction_env
  be_settings :: auto_settings
  be_integrations :: "mounted_integration list"
  be_autoToolKeys :: "tool_key list"
  be_ctx :: approval_context
  be_fingerprint :: "string \<Rightarrow> string \<Rightarrow> jsv \<Rightarrow> string"
  be_verdict :: "bool \<Rightarrow> jsv \<Rightarrow> auto_verdict"
  be_ownerPresent :: "bool \<times> bool \<times> bool"
  be_newId :: string
  be_now :: ms
  be_whileAssessing :: "approval_op list"
  be_beforeClaim :: "approval_op list"
  be_notified :: bool
  be_rounds :: "card_round list"
  be_shared :: "card_decision option"

text \<open>
  The answer given, and what a call that runs runs on: an approval this ask spent, the card of the
  batch another of its asks opened, or Auto being off for a tool only Auto gates.
\<close>

datatype run_basis = Recorded string | SharedCard | AutoIsOff

datatype native_answer = RunCall run_basis | RefuseCall | LeaveOpen

text \<open>Of several calls running together Auto's verdict is the strictest one.\<close>

definition unavailable_verdict :: "auto_verdict \<Rightarrow> bool" where
  "unavailable_verdict v \<longleftrightarrow>
     (case v of VerdictOn action e \<Rightarrow> ae_unavailable e \<noteq> None | VerdictOff \<Rightarrow> False)"

definition approving_verdict :: "auto_verdict \<Rightarrow> bool" where
  "approving_verdict v \<longleftrightarrow> (case v of VerdictOn action e \<Rightarrow> action = ActApprove | VerdictOff \<Rightarrow> False)"

definition batch_verdict :: "auto_verdict list \<Rightarrow> auto_verdict option" where
  "batch_verdict results =
     nullish (find (\<lambda>v. v = VerdictOff) results)
       (nullish (find unavailable_verdict results)
         (nullish (find (\<lambda>v. \<not> approving_verdict v) results) (find (\<lambda>v. True) results)))"

definition ask_verdict :: "bridge_env \<Rightarrow> bool \<Rightarrow> resolved_ask \<Rightarrow> auto_verdict option" where
  "ask_verdict env toolRejectedInSession r =
     (case ra_parallel r of
        Some calls \<Rightarrow> batch_verdict (map (be_verdict env toolRejectedInSession) calls)
      | None \<Rightarrow> Some (be_verdict env toolRejectedInSession (ra_args r)))"

definition native_call :: "bridge_env \<Rightarrow> native_ask \<Rightarrow> resolved_ask \<Rightarrow> auto_evaluation option \<Rightarrow> approval_input"
where
  "native_call env ask r evaluation =
     \<lparr>ai_integrationId = mt_integrationId (ra_tool r), ai_toolName = mt_toolName (ra_tool r),
      ai_nativeRequestId = nk_requestId ask,
      ai_argsFingerprint = be_fingerprint env (mt_integrationId (ra_tool r))
        (mt_toolName (ra_tool r)) (or_null (ra_args r)),
      ai_argsSummary = redactIntegrationToolArgs (be_redaction env) (or_null (ra_args r)) None,
      ai_taskId = None, ai_autoEvaluation = evaluation\<rparr>"

definition ownerIsPresent :: "bridge_env \<Rightarrow> bool" where
  "ownerIsPresent env \<longleftrightarrow>
     (case be_ownerPresent env of (chatSurface, looked, lookedAgain) \<Rightarrow>
        chatSurface \<or> looked \<or> lookedAgain)"

definition owner_rejection :: "auto_evaluation \<Rightarrow> auto_evaluation" where
  "owner_rejection e =
     e\<lparr>ae_recommendation := RecommendAsk,
       ae_reason := Some ''the session owner rejected a call to this tool''\<rparr>"

text \<open>A call allowed for the session, or approved by Auto: reserve, then claim the reservation.\<close>

definition run_reserved ::
    "bridge_env \<Rightarrow> native_ask \<Rightarrow> resolved_ask \<Rightarrow> auto_evaluation option \<Rightarrow> bool \<Rightarrow> approval_db
     \<Rightarrow> approval_db \<times> native_answer" where
  "run_reserved env ask r approved guardRejection db =
     (case insertAutoApprovedIntegrationToolApproval (be_redaction env) (be_ctx env)
             (native_call env ask r approved) (map_option (\<lambda>e. ByModel) approved)
             (be_newId env) (be_now env) db of
        Inl e \<Rightarrow> (db, RefuseCall)
      | Inr (db', reservation) \<Rightarrow>
          (case claimAutoApprovedIntegrationToolApproval (am_approvalId reservation)
                  (ac_userId (be_ctx env))
                  (if guardRejection
                   then Some (ac_sessionId (be_ctx env), mt_integrationId (ra_tool r),
                              mt_toolName (ra_tool r))
                   else None)
                  (fold approval_step (be_beforeClaim env) db') of
             (db'', claimed) \<Rightarrow>
               (db'', if claimed then RunCall (Recorded (am_approvalId reservation))
                      else RefuseCall)))"

fun card_answer :: "run_basis \<Rightarrow> card_decision \<Rightarrow> native_answer" where
  "card_answer basis CardApproved = RunCall basis"
| "card_answer basis CardAborted = LeaveOpen"
| "card_answer basis _ = RefuseCall"

text \<open>Calls that run together share one card: \<open>be_shared\<close> is what the card already open decides.\<close>

definition ask_owner ::
    "bridge_env \<Rightarrow> native_ask \<Rightarrow> resolved_ask \<Rightarrow> auto_evaluation option \<Rightarrow> approval_db
     \<Rightarrow> approval_db \<times> native_answer" where
  "ask_owner env ask r asked db =
     (if (ra_parallel r \<noteq> None \<or> ra_concurrent r) \<and> be_shared env \<noteq> None
      then (db, card_answer SharedCard (the (be_shared env)))
      else case awaitCardDecision (be_redaction env) (be_ctx env) (native_call env ask r asked)
                  (be_newId env) (be_now env) (be_notified env) (be_rounds env) db of
             (db', None) \<Rightarrow> (db', LeaveOpen)
           | (db', Some (k, decision)) \<Rightarrow> (db', card_answer (Recorded k) decision))"

text \<open>The answer once the verdict is in: deny in the owner's absence, run on a reservation, or ask.\<close>

definition answer_call ::
    "bridge_env \<Rightarrow> native_ask \<Rightarrow> resolved_ask \<Rightarrow> bool \<Rightarrow> (auto_action \<times> auto_evaluation) option \<Rightarrow> bool
     \<Rightarrow> approval_db \<Rightarrow> approval_db \<times> native_answer" where
  "answer_call env ask r allowedForSession auto toolRejectedInSession db =
     (let asks = (map_option fst auto = Some ActAsk);
          approves = (map_option fst auto = Some ActApprove)
      in if asks \<and> \<not> ownerIsPresent env
         then (or_same db (insertAutoRejectedIntegrationToolApproval (be_redaction env)
                 (be_ctx env) (native_call env ask r (map_option snd auto)) (be_newId env)
                 (be_now env) db), RefuseCall)
         else if allowedForSession \<or> approves
         then run_reserved env ask r (if approves then map_option snd auto else None)
                (\<not> allowedForSession \<and> approves \<and> \<not> toolRejectedInSession) db
         else ask_owner env ask r (if asks then map_option snd auto else None) db)"

text \<open>A call Auto could not assess stops Auto for the session.\<close>

definition pause_auto ::
    "bridge_env \<Rightarrow> native_ask \<Rightarrow> resolved_ask \<Rightarrow> auto_evaluation \<Rightarrow> approval_db \<Rightarrow> approval_db" where
  "pause_auto env ask r e db =
     (let db' = fst (suspendIntegrationToolAutoForSession (ac_sessionId (be_ctx env))
                  (be_now env) db)
      in or_same db' (insertAutoRejectedIntegrationToolApproval (be_redaction env) (be_ctx env)
           (native_call env ask r (Some e)) (be_newId env) (be_now env) db'))"

text \<open>The flag is \<open>autoSuspendedThisTurn\<close>.\<close>

definition handleAsk ::
    "(string \<Rightarrow> 'c::linorder) \<Rightarrow> bridge_env \<Rightarrow> native_ask \<Rightarrow> recovered_call option \<Rightarrow> bool \<Rightarrow> approval_db
     \<Rightarrow> approval_db \<times> bool \<times> native_answer" where
  "handleAsk collate env ask recovered autoSuspendedThisTurn db =
     (case resolveToolForAsk (be_integrations env) (nk_permission ask) recovered of
        None \<Rightarrow> (db, autoSuspendedThisTurn, RefuseCall)
      | Some r \<Rightarrow>
          if autoSuspendedThisTurn then (db, True, RefuseCall)
          else
            let ctx = be_ctx env; sid = ac_sessionId ctx;
                tool = mt_integrationId (ra_tool r); name = mt_toolName (ra_tool r);
                override = map_option oe_mode (find (\<lambda>e. oe_integrationId e = tool \<and>
                  oe_toolName e = name) (listIntegrationToolSessionOverrides collate sid db));
                allowedForSession = (override = Some OverrideAllow);
                autoCandidate = (override = None \<and>
                  integrationToolPolicyKey tool name \<in> set (be_autoToolKeys env));
                autoSuspended = (autoCandidate \<and> isIntegrationToolAutoSuspendedForSession sid db);
                autoAssessed = (autoCandidate \<and> \<not> autoSuspended);
                toolRejectedInSession = (autoAssessed \<and>
                  hasRejectedIntegrationToolInSession ctx None tool name db);
                db' = fold approval_step (be_whileAssessing env) db
            in if autoSuspended \<and>
                  resolveIntegrationToolAutoState (be_settings env) (Some sid) db \<noteq> AutoOn
               then (db, False, RunCall AutoIsOff)
               else case (if autoAssessed then ask_verdict env toolRejectedInSession r else None) of
                 Some VerdictOff \<Rightarrow> (db', False, RunCall AutoIsOff)
               | None \<Rightarrow>
                   apsnd (Pair False) (answer_call env ask r allowedForSession None False db')
               | Some (VerdictOn action e) \<Rightarrow>
                   if ae_unavailable e \<noteq> None
                   then (pause_auto env ask r e db', True, RefuseCall)
                   else
                     let rejectedSince = (action = ActApprove \<and> \<not> toolRejectedInSession \<and>
                           hasRejectedIntegrationToolInSession ctx None tool name db');
                         auto = (if rejectedSince then (ActAsk, owner_rejection e) else (action, e))
                     in apsnd (Pair False) (answer_call env ask r allowedForSession (Some auto)
                          toolRejectedInSession db'))"

subsection \<open>What a native call runs on\<close>

definition spent_by :: "string \<Rightarrow> string \<Rightarrow> approval_db \<Rightarrow> bool" where
  "spent_by k userId db \<longleftrightarrow> row_is k (\<lambda>row. ap_requesterUserId row = userId \<and>
     ap_status row \<in> {ApConsumed, ApAutoApproved}) (ad_requests db)"

lemma claim_spends:
  assumes "run_claim claim db = (db', Some k)" "jsmap_ok (ad_requests db)"
  shows "jsmap_ok (ad_requests db')"
  using assms claim_request_change jsmap_ok_request_change by blast

lemma markConsumed_spends:
  assumes "markIntegrationToolApprovalConsumed k u db = (db', True)"
  shows "spent_by k u db'"
  using claimApproved_won [of k u ApConsumed "\<lambda>t. True" db db'] assms
  by (auto simp: markIntegrationToolApprovalConsumed_def spent_by_def row_is_def)

lemma claimAuto_spends:
  assumes "claimAutoApprovedIntegrationToolApproval k u tool db = (db', True)"
  shows "spent_by k u db'"
  using claimAuto_won [OF assms]
  by (auto simp: claim_reservation_def spent_by_def row_is_def dest!: claimApproved_won)

text \<open>A spent approval is never claimed again, and stays spent.\<close>

lemma spent_never_claimed:
  assumes "spent_by k u db" "jsmap_ok (ad_requests db)" "requests.admissible_run ops db"
  shows "snd (run_claim later (fold approval_step ops db)) \<noteq> Some k"
proof
  obtain row where row: "map_of (ad_requests db) k = Some row"
      "ap_status row \<in> {ApConsumed, ApAutoApproved}"
    using assms(1) by (auto simp: spent_by_def row_is_def)
  then have "settled_db k row db"
    using assms(2) by (auto simp: settled_db_def row_is_def terminal_def)
  then have settled: "settled_db k row (fold approval_step ops db)"
    using assms(3) by (rule settled_request.run_ok)
  assume "snd (run_claim later (fold approval_step ops db)) = Some k"
  then obtain db' where "run_claim later (fold approval_step ops db) = (db', Some k)"
    by (metis prod.collapse)
  from run_claim_won [OF this] settled row(2) show False
    by (auto simp: settled_db_def row_is_def dest: same_decision_status)
qed

lemma jsmap_ok_markConsumed:
  "jsmap_ok (ad_requests db) \<Longrightarrow>
   jsmap_ok (ad_requests (fst (markIntegrationToolApprovalConsumed k u db)))"
  using jsmap_ok_any_step [of db "OpMarkConsumed k u"] by simp

lemma poll_card_spends:
  assumes "poll_card k u deadline rounds db = (db', d)" "jsmap_ok (ad_requests db)"
  shows "jsmap_ok (ad_requests db') \<and> (d = Some CardApproved \<longrightarrow> spent_by k u db')"
  using assms
proof (induction k u deadline rounds db rule: poll_card.induct)
  case (1 k u deadline db)
  then show ?case by simp
next
  case (2 k u deadline r rs db)
  define db1 where "db1 = fold approval_step (cr_before r) db"
  define db2 where "db2 = fold approval_step (cr_beforeEnd r) db1"
  have ok: "jsmap_ok (ad_requests db1)" "jsmap_ok (ad_requests db2)"
    using 2(3) by (simp_all add: db1_def db2_def jsmap_ok_steps)
  have ok3: "jsmap_ok (ad_requests (fst (markIntegrationToolApprovalConsumed k u db2)))"
      "jsmap_ok (ad_requests (expireIntegrationToolApproval k db2))"
    using ok(2) jsmap_ok_markConsumed jsmap_ok_any_step [of db2 "OpExpire k"] by auto
  show ?case
    using 2(2,3) 2(1) [OF _ db1_def refl] ok ok3
    by (auto simp: db1_def [symmetric] db2_def [symmetric] Let_def dest: markConsumed_spends
        split: if_splits prod.splits)
qed

text \<open>The wait is over by the deadline: a round at or after it always decides.\<close>

lemma poll_card_decides:
  "list_ex (\<lambda>r. deadline \<le> cr_now r) rounds \<Longrightarrow> snd (poll_card k u deadline rounds db) \<noteq> None"
proof (induction k u deadline rounds db rule: poll_card.induct)
  case (2 k u deadline r rs db)
  then show ?case by (auto simp: Let_def split: prod.splits)
qed simp

text \<open>What an answer that runs the call rests on.\<close>

definition basis_ok ::
    "bridge_env \<Rightarrow> resolved_ask \<Rightarrow> approval_db \<Rightarrow> approval_db \<Rightarrow> run_basis \<Rightarrow> bool" where
  "basis_ok env r db db' basis \<longleftrightarrow>
     (case basis of
        Recorded k \<Rightarrow> spent_by k (ac_userId (be_ctx env)) db'
      | SharedCard \<Rightarrow> be_shared env = Some CardApproved \<and> (ra_parallel r \<noteq> None \<or> ra_concurrent r)
      | AutoIsOff \<Rightarrow>
          (mt_integrationId (ra_tool r), mt_toolName (ra_tool r)) \<in> set (be_autoToolKeys env) \<and>
          map_of (ad_overrides db) (ac_sessionId (be_ctx env), mt_integrationId (ra_tool r),
            mt_toolName (ra_tool r)) = None)"

lemma card_answer_RunCall [simp]:
  "card_answer basis d = RunCall b \<longleftrightarrow> d = CardApproved \<and> b = basis"
  by (cases d) auto

lemma run_reserved_basis:
  assumes "run_reserved env ask r e g db = (db', RunCall basis)"
  shows "\<exists>k. basis = Recorded k \<and> spent_by k (ac_userId (be_ctx env)) db'"
  using assms
  by (auto simp: run_reserved_def dest: claimAuto_spends split: sum.splits prod.splits if_splits)

lemma jsmap_ok_reserved:
  assumes "jsmap_ok (ad_requests db)" "run_reserved env ask r e g db = (db', a)"
  shows "jsmap_ok (ad_requests db')"
proof -
  have claimed: "jsmap_ok (ad_requests db3)"
    if "claimAutoApprovedIntegrationToolApproval k u tool (fold approval_step ops db1) = (db3, b)"
      "jsmap_ok (ad_requests db1)" for k u tool ops db1 db3 b
    using jsmap_ok_claimAuto [OF jsmap_ok_steps [OF that(2)], of k u tool ops] that(1) by simp
  show ?thesis
    using assms
    by (auto simp: run_reserved_def dest: jsmap_ok_inserts [OF assms(1)] claimed
        split: sum.splits prod.splits)
qed

lemma ask_owner_ok:
  assumes "ask_owner env ask r e db = (db', a)" "jsmap_ok (ad_requests db)"
  shows "jsmap_ok (ad_requests db') \<and> (\<forall>basis. a = RunCall basis \<longrightarrow> basis_ok env r db0 db' basis)"
proof (cases "(ra_parallel r \<noteq> None \<or> ra_concurrent r) \<and> be_shared env \<noteq> None")
  case True
  then show ?thesis using assms by (auto simp: ask_owner_def basis_ok_def)
next
  case False
  show ?thesis
    using assms False jsmap_ok_inserts(1) [OF assms(2)]
    by (auto simp: ask_owner_def awaitCardDecision_def basis_ok_def
        split: if_splits prod.splits option.splits sum.splits dest: poll_card_spends)
qed

lemma answer_call_ok:
  assumes "answer_call env ask r allowed auto rejected db = (db', a)" "jsmap_ok (ad_requests db)"
  shows "jsmap_ok (ad_requests db') \<and> (\<forall>basis. a = RunCall basis \<longrightarrow> basis_ok env r db0 db' basis)"
proof -
  have denied: "jsmap_ok (ad_requests (or_same db
      (insertAutoRejectedIntegrationToolApproval e c i n t db)))" for e c i n t
    using jsmap_ok_any_step [OF assms(2), of "OpDeny e c i n t"] by simp
  have reserved: "basis_ok env r db0 db' basis"
    if "run_reserved env ask r e g db = (db', RunCall basis)" for e g basis
    using run_reserved_basis [OF that] by (auto simp: basis_ok_def)
  have asked: "basis_ok env r db0 db' basis"
    if "ask_owner env ask r e db = (db', RunCall basis)" for e basis
    using ask_owner_ok [OF that assms(2)] by simp
  have kept: "jsmap_ok (ad_requests db')" if "ask_owner env ask r e db = (db', a)" for e
    using ask_owner_ok [OF that assms(2)] by simp
  show ?thesis
    using assms denied
    by (auto simp: answer_call_def Let_def intro: reserved asked kept
        jsmap_ok_reserved [OF assms(2)] split: if_splits)
qed

lemma no_override_listed:
  assumes "jsmap_ok (ad_overrides db)"
    and "find (\<lambda>e. oe_integrationId e = i \<and> oe_toolName e = t)
      (listIntegrationToolSessionOverrides collate s db) = None"
  shows "map_of (ad_overrides db) (s, i, t) = None"
proof (rule ccontr)
  assume "map_of (ad_overrides db) (s, i, t) \<noteq> None"
  then obtain row where "map_of (ad_overrides db) (s, i, t) = Some row" by blast
  then have "map_option ov_mode (map_of (ad_overrides db) (s, i, t)) = Some (ov_mode row)" by simp
  then show False
    using assms in_listed_overrides [OF assms(1), of collate s i t "ov_mode row"]
    by (auto simp: find_None_iff)
qed

lemma pause_auto_ok:
  "jsmap_ok (ad_requests db) \<Longrightarrow> jsmap_ok (ad_requests (pause_auto env ask r e db))"
  using jsmap_ok_any_step [of "fst (suspendIntegrationToolAutoForSession s t db)"
      "OpDeny e' c i n t'" for s t e' c i n t']
  by (simp add: pause_auto_def Let_def jsmap_ok_suspend)

lemma handleAsk_ok:
  assumes "handleAsk collate env ask recovered paused db = (db', paused', RunCall basis)"
    and "jsmap_ok (ad_requests db)" "jsmap_ok (ad_overrides db)"
  shows "jsmap_ok (ad_requests db') \<and> \<not> paused \<and>
    (\<exists>r. resolveToolForAsk (be_integrations env) (nk_permission ask) recovered = Some r \<and>
         basis_ok env r db db' basis)"
proof -
  obtain r where r: "resolveToolForAsk (be_integrations env) (nk_permission ask) recovered = Some r"
    using assms(1) by (auto simp: handleAsk_def split: option.splits)
  have later: "jsmap_ok (ad_requests (fold approval_step (be_whileAssessing env) db))"
    using assms(2) by (rule jsmap_ok_steps)
  have answered: "jsmap_ok (ad_requests db')" "basis_ok env r db db' basis"
    if "apsnd (Pair False) (answer_call env ask r allowed auto rejected
          (fold approval_step (be_whileAssessing env) db)) = (db', paused', RunCall basis)"
    for allowed auto rejected
    using answer_call_ok [OF _ later, of env ask r allowed auto rejected db' "RunCall basis" db] that
    by (auto simp: apsnd_def map_prod_def split: prod.splits)
  define tool where "tool = (mt_integrationId (ra_tool r), mt_toolName (ra_tool r))"
  define override where "override = map_option oe_mode
    (find (\<lambda>e. oe_integrationId e = fst tool \<and> oe_toolName e = snd tool)
      (listIntegrationToolSessionOverrides collate (ac_sessionId (be_ctx env)) db))"
  define candidate where "candidate \<longleftrightarrow> override = None \<and> tool \<in> set (be_autoToolKeys env)"
  have off: "basis_ok env r db db'' AutoIsOff" if candidate for db''
    using that no_override_listed [OF assms(3)]
    by (auto simp: basis_ok_def candidate_def override_def tool_def)
  have "jsmap_ok (ad_requests db') \<and> \<not> paused \<and> basis_ok env r db db' basis"
  proof (cases paused)
    case True
    then show ?thesis using assms(1) r by (auto simp: handleAsk_def)
  next
    case False
    then show ?thesis
      using assms(1,2) r later answered
      unfolding handleAsk_def Let_def integrationToolPolicyKey_def
      by (auto simp: override_def [symmetric, unfolded tool_def, simplified]
          tool_def [symmetric] candidate_def [symmetric] split: if_splits option.splits auto_verdict.splits
          dest: off answered)
  qed
  then show ?thesis using r by blast
qed

lemma native_run_is_approved:
  assumes "jsmap_ok (ad_requests db)" and "jsmap_ok (ad_overrides db)"
    and "handleAsk collate env ask recovered paused db = (db', paused', RunCall basis)"
    and "requests.admissible_run ops db'"
  shows "case resolveToolForAsk (be_integrations env) (nk_permission ask) recovered of
      None \<Rightarrow> False
    | Some r \<Rightarrow> ra_tool r \<in> set (listMountedIntegrationTools (be_integrations env)) \<and>
        mt_key (ra_tool r) = nk_permission ask \<and> \<not> paused \<and> basis_ok env r db db' basis"
    and "case basis of Recorded k \<Rightarrow> snd (run_claim later (fold approval_step ops db')) \<noteq> Some k
         | _ \<Rightarrow> True"
proof -
  note ok = handleAsk_ok [OF assms(3,1,2)]
  then show "case resolveToolForAsk (be_integrations env) (nk_permission ask) recovered of
      None \<Rightarrow> False
    | Some r \<Rightarrow> ra_tool r \<in> set (listMountedIntegrationTools (be_integrations env)) \<and>
        mt_key (ra_tool r) = nk_permission ask \<and> \<not> paused \<and> basis_ok env r db db' basis"
    using resolved_is_mounted by fastforce
  show "case basis of Recorded k \<Rightarrow> snd (run_claim later (fold approval_step ops db')) \<noteq> Some k
         | _ \<Rightarrow> True"
    using ok assms(4) spent_never_claimed by (auto simp: basis_ok_def split: run_basis.split)
qed


definition example_bridge :: bridge_env where
  "example_bridge =
     \<lparr>be_redaction = plain_env,
      be_settings = \<lparr>se_experimentEnabled = True, se_nightlyExperiments = True,
                     se_judgmentModel = False\<rparr>,
      be_integrations = [\<lparr>mi_id = ''github'', mi_tools = [''merge'']\<rparr>], be_autoToolKeys = [],
      be_ctx = example_ctx, be_fingerprint = (\<lambda>i t a. ''f''), be_verdict = (\<lambda>b a. VerdictOff),
      be_ownerPresent = (True, True, True), be_newId = ''b'', be_now = 1, be_whileAssessing = [],
      be_beforeClaim = [], be_notified = True,
      be_rounds = [\<lparr>cr_aborted = False, cr_before = [OpDecide example_ctx ''a'' DecApproved 5],
                    cr_beforeEnd = [], cr_now = 10\<rparr>],
      be_shared = None\<rparr>"

definition example_native_ask :: native_ask where
  "example_native_ask = \<lparr>nk_requestId = ''req-1'', nk_permission = ''github_merge''\<rparr>"

lemma example_mounted [simp]:
  "listMountedIntegrationTools [\<lparr>mi_id = ''github'', mi_tools = [''merge'']\<rparr>] =
     [\<lparr>mt_integrationId = ''github'', mt_toolName = ''merge'', mt_serverName = ''github'',
       mt_key = ''github_merge''\<rparr>]"
  by (simp add: listMountedIntegrationTools_def buildFastAgentCodeModeServerNames_def map_from_def
      server_name_def sanitize_def word_char_def codeModeToolKey_def Let_def)

lemma example_asked_owner [simp]: "requireSessionOwner example_ctx example_asked = Inr ''ann''"
  by (simp add: requireSessionOwner_def example_ctx_def example_asked_def example_db_def
      insertIntegrationToolApproval_def find_row_def insert_pending_def Let_def)

lemma example_handled:
  "\<exists>db. handleAsk length example_bridge example_native_ask None False example_asked =
     (db, False, RunCall (Recorded ''a'')) \<and>
     ad_requests db = [(''a'', example_row\<lparr>ap_status := ApConsumed,
       ap_decidedByUserId := Some ''ann'', ap_decidedAt := Some 5\<rparr>)]"
  by (simp add: handleAsk_def example_bridge_def example_native_ask_def resolveToolForAsk_def Let_def
      extractApprovalCallArgs_def answer_call_def ask_owner_def awaitCardDecision_def
      insertIntegrationToolApproval_def find_row_def pending_for_def native_call_def
      approvalMetadata_def decideIntegrationToolApproval_def update_where_def answerable_def
      getIntegrationToolApproval_def decided_status_def markIntegrationToolApprovalConsumed_def
      claimApprovedIntegrationToolApproval_def listIntegrationToolSessionOverrides_def apsnd_def)


end
