(* ===== verification/WakeupSchedule.thy ===== *)
theory WakeupSchedule
  imports Prelude
begin

section \<open>Schedules of session wakeups\<close>

text \<open>
  \<open>packages/types/src/session-wakeups.ts\<close> (bounds), and \<open>schedule.ts\<close> and \<open>parse.ts\<close> of
  \<open>packages/cloud-agents/src/server/session-wakeups\<close>: the one string an agent schedules a wakeup with,
  the schedule it stands for, the caps a tight schedule must carry, the occurrence after a fire and
  the description shown. The code keeps durations in minutes and admits whole seconds only, so a
  duration is a number of seconds. The regular expressions run on text whose white space is
  collapsed; they are read here as patterns of words. Dates, time zones and cron expressions are
  read by the platform and \<open>cron-parser\<close>: they are the functions of a \<open>schedule_env\<close>.
\<close>

definition SESSION_WAKEUP_MAX_INTERVAL_SECONDS :: nat where
  "SESSION_WAKEUP_MAX_INTERVAL_SECONDS = 7 * 24 * 60 * 60"

definition SESSION_WAKEUP_UNCAPPED_MIN_INTERVAL_SECONDS :: nat where
  "SESSION_WAKEUP_UNCAPPED_MIN_INTERVAL_SECONDS = 5 * 60"

definition SESSION_WAKEUP_MAX_ONCE_HORIZON_SECONDS :: nat where
  "SESSION_WAKEUP_MAX_ONCE_HORIZON_SECONDS = 30 * 24 * 60 * 60"

definition SESSION_WAKEUP_MAX_RUNS_LIMIT :: nat where
  "SESSION_WAKEUP_MAX_RUNS_LIMIT = 1000"

datatype wakeup_schedule =
    Once ms "nat option"
  | Interval nat
  | Cron string string

datatype schedule_input =
    InOnce "nat option" "string option"
  | InInterval nat
  | InCron string "string option"

datatype schedule_error =
    Unreadable | NotPositive | NeedsTime | BadDelay | BadDate | NotFuture | TooFar | BadInterval
  | BadTimeZone | NotFiveFields | BadCron | BadRunCount | UnexpectedWord | UntilTooEarly | Uncapped

record schedule_env =
  we_now :: ms
  we_defaultTimeZone :: string
  we_parseDate :: "string \<Rightarrow> ms option"
  we_timeZone :: "string \<Rightarrow> string option"
  we_cronNext :: "string \<Rightarrow> string \<Rightarrow> ms \<Rightarrow> ms option"

abbreviation seconds_ms :: "nat \<Rightarrow> ms" where
  "seconds_ms n \<equiv> int n * 1000"

subsection \<open>The schedule and its first occurrence\<close>

definition normalizeSessionWakeupTimeZone :: "schedule_env \<Rightarrow> string \<Rightarrow> schedule_error + string" where
  "normalizeSessionWakeupTimeZone env v =
     (if trim v = [] then Inl BadTimeZone
      else case we_timeZone env (trim v) of None \<Rightarrow> Inl BadTimeZone | Some tz \<Rightarrow> Inr tz)"

definition duration_ok :: "nat \<Rightarrow> nat \<Rightarrow> bool" where
  "duration_ok maximum n \<longleftrightarrow> 1 \<le> n \<and> n \<le> maximum"

definition normalize_once ::
    "schedule_env \<Rightarrow> nat option \<Rightarrow> string option \<Rightarrow> schedule_error + wakeup_schedule \<times> ms" where
  "normalize_once env delay at =
     (if delay = None \<and> at = None then Inl NeedsTime
      else if delay \<noteq> None \<and> \<not> duration_ok SESSION_WAKEUP_MAX_ONCE_HORIZON_SECONDS (the delay)
      then Inl BadDelay
      else case (case delay of Some n \<Rightarrow> Some (we_now env + seconds_ms n)
                             | None \<Rightarrow> we_parseDate env (the at)) of
             None \<Rightarrow> Inl BadDate
           | Some t \<Rightarrow>
               if t \<le> we_now env then Inl NotFuture
               else if t - we_now env > seconds_ms SESSION_WAKEUP_MAX_ONCE_HORIZON_SECONDS
               then Inl TooFar
               else Inr (Once t delay, t))"

definition normalizeSessionWakeupSchedule ::
    "schedule_env \<Rightarrow> schedule_input \<Rightarrow> schedule_error + wakeup_schedule \<times> ms" where
  "normalizeSessionWakeupSchedule env inp =
     (case inp of
        InOnce delay at \<Rightarrow> normalize_once env delay at
      | InInterval n \<Rightarrow>
          if \<not> duration_ok SESSION_WAKEUP_MAX_INTERVAL_SECONDS n then Inl BadInterval
          else Inr (Interval n, we_now env + seconds_ms n)
      | InCron expression timezone \<Rightarrow>
          (case normalizeSessionWakeupTimeZone env
                  (nullish_or timezone (we_defaultTimeZone env)) of
             Inl e \<Rightarrow> Inl e
           | Inr tz \<Rightarrow>
               let fields = js_words expression in
               if length fields \<noteq> 5 then Inl NotFiveFields
               else case we_cronNext env (join_words fields) tz (we_now env) of
                      None \<Rightarrow> Inl BadCron
                    | Some t \<Rightarrow> Inr (Cron (join_words fields) tz, t)))"

text \<open>
  The occurrence after a time, if there is one. The cron iterator gives the one after its current
  date, which becomes the current date, and throws when it finds none: that is the outer \<open>None\<close>.
\<close>

definition computeNextSessionWakeupRunAt ::
    "(string \<Rightarrow> string \<Rightarrow> ms \<Rightarrow> ms option) \<Rightarrow> wakeup_schedule \<Rightarrow> ms \<Rightarrow> ms option option" where
  "computeNextSessionWakeupRunAt cronNext schedule from =
     (case schedule of
        Once at delay \<Rightarrow> Some (if at > from then Some at else None)
      | Interval n \<Rightarrow> Some (Some (from + seconds_ms n))
      | Cron expression tz \<Rightarrow> map_option Some (cronNext expression tz from))"

definition resolveSessionWakeupNextRun ::
    "(string \<Rightarrow> string \<Rightarrow> ms \<Rightarrow> ms option) \<Rightarrow> wakeup_schedule \<Rightarrow> ms \<Rightarrow> nat \<Rightarrow> nat option
     \<Rightarrow> ms option \<Rightarrow> ms option option" where
  "resolveSessionWakeupNextRun cronNext schedule firedAt runCountAfterFire maxRuns until =
     (case schedule of
        Once at delay \<Rightarrow> Some None
      | _ \<Rightarrow>
          if (case maxRuns of None \<Rightarrow> False | Some m \<Rightarrow> m \<le> runCountAfterFire) then Some None
          else case computeNextSessionWakeupRunAt cronNext schedule firedAt of
                 None \<Rightarrow> None
               | Some None \<Rightarrow> Some None
               | Some (Some t) \<Rightarrow>
                   Some (if (case until of None \<Rightarrow> False | Some u \<Rightarrow> u < t) then None else Some t))"

subsection \<open>Caps\<close>

definition CRON_GAP_SAMPLES :: nat where
  "CRON_GAP_SAMPLES = 24"

fun cron_samples :: "(ms \<Rightarrow> ms option) \<Rightarrow> nat \<Rightarrow> ms \<Rightarrow> ms list" where
  "cron_samples cronNext 0 from = []"
| "cron_samples cronNext (Suc n) from =
     (case cronNext from of None \<Rightarrow> [] | Some t \<Rightarrow> t # cron_samples cronNext n t)"

fun gaps :: "ms list \<Rightarrow> ms list" where
  "gaps (a # b # ts) = (b - a) # gaps (b # ts)"
| "gaps _ = []"

text \<open>The smallest gap in milliseconds; \<open>None\<close> is infinity.\<close>

definition estimateCronMinGap ::
    "(string \<Rightarrow> string \<Rightarrow> ms \<Rightarrow> ms option) \<Rightarrow> string \<Rightarrow> string \<Rightarrow> ms \<Rightarrow> ms option" where
  "estimateCronMinGap cronNext expression tz from =
     (case gaps (cron_samples (cronNext expression tz) CRON_GAP_SAMPLES from) of
        [] \<Rightarrow> None | g # gs \<Rightarrow> Some (fold min gs g))"

definition validateSessionWakeupCaps ::
    "schedule_env \<Rightarrow> wakeup_schedule \<Rightarrow> ms \<Rightarrow> nat option \<Rightarrow> ms option \<Rightarrow> schedule_error option" where
  "validateSessionWakeupCaps env schedule firstRunAt maxRuns until =
     (let uncapped = (maxRuns = None \<and> until = None) in
      case schedule of
        Once at delay \<Rightarrow> None
      | _ \<Rightarrow>
          if (case until of None \<Rightarrow> False | Some u \<Rightarrow> u \<le> firstRunAt) then Some UntilTooEarly
          else case schedule of
            Interval n \<Rightarrow>
              if n < SESSION_WAKEUP_UNCAPPED_MIN_INTERVAL_SECONDS \<and> uncapped then Some Uncapped
              else None
          | Cron expression tz \<Rightarrow>
              if uncapped \<and> (case estimateCronMinGap (we_cronNext env) expression tz firstRunAt of
                   None \<Rightarrow> False
                 | Some g \<Rightarrow> g < seconds_ms SESSION_WAKEUP_UNCAPPED_MIN_INTERVAL_SECONDS)
              then Some Uncapped else None
          | Once at delay \<Rightarrow> None)"

subsection \<open>The schedule string\<close>

definition UNIT_SECONDS :: "(string, nat) jsmap" where
  "UNIT_SECONDS =
     [(''s'', 1), (''sec'', 1), (''secs'', 1), (''second'', 1), (''seconds'', 1),
      (''m'', 60), (''min'', 60), (''mins'', 60), (''minute'', 60), (''minutes'', 60),
      (''h'', 3600), (''hr'', 3600), (''hrs'', 3600), (''hour'', 3600), (''hours'', 3600),
      (''d'', 24 * 3600), (''day'', 24 * 3600), (''days'', 24 * 3600)]"

definition unit_seconds :: "string \<Rightarrow> nat option" where
  "unit_seconds w = map_of UNIT_SECONDS (to_lower w)"

definition keyword :: "string \<Rightarrow> string \<Rightarrow> bool" where
  "keyword k w \<longleftrightarrow> to_lower w = k"

definition all_digits_word :: "string \<Rightarrow> bool" where
  "all_digits_word w \<longleftrightarrow> w \<noteq> [] \<and> list_all is_digit w"

text \<open>\<open>DURATION\<close>: digits and a unit, joined or in two words; the seconds and the words after it.\<close>

definition read_duration :: "string list \<Rightarrow> (nat \<times> string list) option" where
  "read_duration ws =
     (case ws of
        [] \<Rightarrow> None
      | w # rest \<Rightarrow>
          let amount = takeWhile is_digit w; unit = dropWhile is_digit w in
          if amount = [] then None
          else if unit \<noteq> [] then map_option (\<lambda>k. (digits_val amount * k, rest)) (unit_seconds unit)
          else case rest of
                 [] \<Rightarrow> None
               | u # rest' \<Rightarrow> map_option (\<lambda>k. (digits_val amount * k, rest')) (unit_seconds u))"

definition named_unit :: "string \<Rightarrow> nat option" where
  "named_unit w =
     (if to_lower w \<in> {''second'', ''minute'', ''hour'', ''day''} then unit_seconds w else None)"

fun strip_once :: "string list \<Rightarrow> string list" where
  "strip_once (w # w' # ws) = (if keyword ''once'' w then w' # ws else w # w' # ws)"
| "strip_once ws = ws"

text \<open>\<open>COUNT_RE\<close> on the words of a modifier, with the count as written.\<close>

definition count_words :: "string list \<Rightarrow> string option" where
  "count_words ws =
     (case ws of
        [w] \<Rightarrow>
          if w \<noteq> [] \<and> keyword ''x'' [hd w] \<and> all_digits_word (tl w) then Some (tl w)
          else let amount = takeWhile is_digit w in
               if amount \<noteq> [] \<and> to_lower (dropWhile is_digit w) \<in> {''x'', ''times'', ''runs''}
               then Some amount else None
      | [a, b] \<Rightarrow>
          if keyword ''x'' a \<and> all_digits_word b then Some b
          else if all_digits_word a \<and> to_lower b \<in> {''x'', ''times'', ''runs''} then Some a
          else None
      | [a, b, c] \<Rightarrow>
          if keyword ''for'' a \<and> all_digits_word b \<and> to_lower c \<in> {''runs'', ''times''} then Some b
          else None
      | _ \<Rightarrow> None)"

text \<open>The longest of the three prefixes that is a count, and how far to move on.\<close>

definition read_count :: "string list \<Rightarrow> (string \<times> nat) option" where
  "read_count ws =
     (case count_words (take 3 ws) of
        Some c \<Rightarrow> Some (c, 3)
      | None \<Rightarrow>
          (case count_words (take 2 ws) of
             Some c \<Rightarrow> Some (c, 2)
           | None \<Rightarrow> map_option (\<lambda>c. (c, 1)) (count_words (take 1 ws))))"

lemma read_count_pos: "read_count ws = Some (c, n) \<Longrightarrow> 0 < n"
  by (auto simp: read_count_def split: option.splits)

function parseModifiers ::
    "schedule_env \<Rightarrow> string list \<Rightarrow> nat option \<Rightarrow> ms option
     \<Rightarrow> schedule_error + nat option \<times> ms option" where
  "parseModifiers env [] maxRuns until = Inr (maxRuns, until)"
| "parseModifiers env (w # ws) maxRuns until =
     (if keyword ''until'' w \<and> ws \<noteq> []
      then case we_parseDate env (hd ws) of
             None \<Rightarrow> Inl BadDate
           | Some t \<Rightarrow> parseModifiers env (tl ws) maxRuns (Some t)
      else case read_count (w # ws) of
             None \<Rightarrow> Inl UnexpectedWord
           | Some (c, n) \<Rightarrow>
               if digits_val c < 1 \<or> digits_val c > SESSION_WAKEUP_MAX_RUNS_LIMIT then Inl BadRunCount
               else parseModifiers env (drop n (w # ws)) (Some (digits_val c)) until)"
  by pat_completeness auto

termination
  by (relation "measure (\<lambda>(env, ws, m, u). length ws)")
    (auto dest: read_count_pos simp: less_Suc_eq_le)

record parsed_schedule =
  ps_schedule :: wakeup_schedule
  ps_firstRunAt :: ms
  ps_maxRuns :: "nat option"
  ps_until :: "ms option"

definition with_caps ::
    "schedule_env \<Rightarrow> string list \<Rightarrow> schedule_error + wakeup_schedule \<times> ms
     \<Rightarrow> schedule_error + parsed_schedule" where
  "with_caps env modifiers normalized =
     (case normalized of
        Inl e \<Rightarrow> Inl e
      | Inr (schedule, firstRunAt) \<Rightarrow>
          (case parseModifiers env modifiers None None of
             Inl e \<Rightarrow> Inl e
           | Inr (maxRuns, until) \<Rightarrow>
               (case validateSessionWakeupCaps env schedule firstRunAt maxRuns until of
                  Some e \<Rightarrow> Inl e
                | None \<Rightarrow> Inr \<lparr>ps_schedule = schedule, ps_firstRunAt = firstRunAt,
                               ps_maxRuns = maxRuns, ps_until = until\<rparr>)))"

definition once_only ::
    "schedule_error + wakeup_schedule \<times> ms \<Rightarrow> schedule_error + parsed_schedule" where
  "once_only normalized =
     map_sum id (\<lambda>(schedule, firstRunAt). \<lparr>ps_schedule = schedule, ps_firstRunAt = firstRunAt,
       ps_maxRuns = None, ps_until = None\<rparr>) normalized"

text \<open>\<open>MODIFIER_START_RE\<close>.\<close>

definition modifier_start :: "string \<Rightarrow> bool" where
  "modifier_start w \<longleftrightarrow>
     (w \<noteq> [] \<and> keyword ''x'' [hd w] \<and> list_all is_digit (tl w)) \<or> all_digits_word w \<or>
     keyword ''for'' w \<or> keyword ''until'' w"

definition parse_in :: "schedule_env \<Rightarrow> string list \<Rightarrow> (schedule_error + parsed_schedule) option" where
  "parse_in env ws =
     (case strip_once ws of
        w # rest \<Rightarrow>
          (if keyword ''in'' w
           then case read_duration rest of
                  Some (n, []) \<Rightarrow>
                    Some (if n = 0 then Inl NotPositive
                          else once_only (normalizeSessionWakeupSchedule env (InOnce (Some n) None)))
                | _ \<Rightarrow> None
           else None)
      | [] \<Rightarrow> None)"

definition parse_at :: "schedule_env \<Rightarrow> string list \<Rightarrow> (schedule_error + parsed_schedule) option" where
  "parse_at env ws =
     (case strip_once ws of
        [w, date] \<Rightarrow>
          if keyword ''at'' w
          then Some (once_only (normalizeSessionWakeupSchedule env (InOnce None (Some date))))
          else None
      | _ \<Rightarrow> None)"

definition parse_every :: "schedule_env \<Rightarrow> string list \<Rightarrow> (schedule_error + parsed_schedule) option" where
  "parse_every env ws =
     (case ws of
        w # v # rest \<Rightarrow>
          if \<not> keyword ''every'' w then None
          else (case named_unit v of
                  Some n \<Rightarrow>
                    Some (with_caps env rest (normalizeSessionWakeupSchedule env (InInterval n)))
                | None \<Rightarrow>
                    map_option (\<lambda>(n, modifiers).
                      if n = 0 then Inl NotPositive
                      else with_caps env modifiers
                             (normalizeSessionWakeupSchedule env (InInterval n)))
                      (read_duration (v # rest)))
      | _ \<Rightarrow> None)"

definition parse_cron :: "schedule_env \<Rightarrow> string list \<Rightarrow> (schedule_error + parsed_schedule) option" where
  "parse_cron env ws =
     (case ws of
        [] \<Rightarrow> None
      | w # rest \<Rightarrow>
          if \<not> keyword ''cron'' w \<or> length rest < 5 then None
          else let trailing = drop 5 rest;
                   named = (trailing \<noteq> [] \<and> \<not> modifier_start (hd trailing))
               in Some (with_caps env (if named then tl trailing else trailing)
                    (normalizeSessionWakeupSchedule env
                      (InCron (join_words (take 5 rest))
                         (if named then Some (hd trailing) else None)))))"

definition parseSessionWakeupSchedule ::
    "schedule_env \<Rightarrow> string \<Rightarrow> schedule_error + parsed_schedule" where
  "parseSessionWakeupSchedule env inp =
     (let ws = js_words inp in
      nullish_or
        (nullish (parse_in env ws)
          (nullish (parse_at env ws) (nullish (parse_every env ws) (parse_cron env ws))))
        (Inl Unreadable))"

subsection \<open>The description\<close>

definition counted :: "nat \<Rightarrow> string \<Rightarrow> string" where
  "counted n unit = nat_str n @ '' '' @ unit @ (if n = 1 then [] else ''s'')"

definition formatMinutes :: "nat \<Rightarrow> string" where
  "formatMinutes seconds =
     (if seconds mod 60 \<noteq> 0 then counted seconds ''second''
      else if seconds mod (24 * 3600) = 0 then counted (seconds div (24 * 3600)) ''day''
      else if seconds mod 3600 = 0 then counted (seconds div 3600) ''hour''
      else counted (seconds div 60) ''minute'')"

definition describeSessionWakeupSchedule :: "(ms \<Rightarrow> string) \<Rightarrow> wakeup_schedule \<Rightarrow> string" where
  "describeSessionWakeupSchedule isoDate schedule =
     (case schedule of
        Once at delay \<Rightarrow> ''once at '' @ isoDate at
      | Interval n \<Rightarrow> ''every '' @ formatMinutes n
      | Cron expression tz \<Rightarrow> ''cron '' @ expression @ '' ('' @ tz @ '')'')"

definition isSessionWakeupRecurring :: "wakeup_schedule \<Rightarrow> bool" where
  "isSessionWakeupRecurring schedule \<longleftrightarrow> (case schedule of Once at delay \<Rightarrow> False | _ \<Rightarrow> True)"

subsection \<open>What a parsed schedule is\<close>

definition cap_ok :: "nat option \<Rightarrow> bool" where
  "cap_ok m \<longleftrightarrow> (case m of None \<Rightarrow> True | Some n \<Rightarrow> 1 \<le> n \<and> n \<le> SESSION_WAKEUP_MAX_RUNS_LIMIT)"

definition until_ok :: "ms \<Rightarrow> ms option \<Rightarrow> bool" where
  "until_ok t u \<longleftrightarrow> (case u of None \<Rightarrow> True | Some e \<Rightarrow> t < e)"

definition parsed_ok :: "schedule_env \<Rightarrow> parsed_schedule \<Rightarrow> bool" where
  "parsed_ok env p \<longleftrightarrow>
     cap_ok (ps_maxRuns p) \<and> until_ok (ps_firstRunAt p) (ps_until p) \<and>
     (case ps_schedule p of
        Once at delay \<Rightarrow>
          at = ps_firstRunAt p \<and> we_now env < at \<and> at \<le> we_now env + 30 * 86400000 \<and>
          ps_maxRuns p = None \<and> ps_until p = None
      | Interval n \<Rightarrow>
          1 \<le> n \<and> n \<le> 7 * 86400 \<and> ps_firstRunAt p = we_now env + int n * 1000 \<and>
          (300 \<le> n \<or> ps_maxRuns p \<noteq> None \<or> ps_until p \<noteq> None)
      | Cron expression tz \<Rightarrow>
          we_cronNext env expression tz (we_now env) = Some (ps_firstRunAt p) \<and>
          (ps_maxRuns p \<noteq> None \<or> ps_until p \<noteq> None \<or>
           list_all (\<lambda>g. 300000 \<le> g)
             (gaps (cron_samples (we_cronNext env expression tz) 24 (ps_firstRunAt p)))))"

lemma fold_min_le: "fold min gs (g::int) \<le> g \<and> (\<forall>x \<in> set gs. fold min gs g \<le> x)"
proof (induction gs arbitrary: g)
  case (Cons x gs)
  have "fold min gs (min x g) \<le> x" "fold min gs (min x g) \<le> g" "\<forall>y \<in> set gs. fold min gs (min x g) \<le> y"
    using Cons [of "min x g"] by auto
  then show ?case by auto
qed simp

lemma wide_gaps:
  assumes "\<not> (case estimateCronMinGap cn e tz start of None \<Rightarrow> False | Some g \<Rightarrow> g < b)"
  shows "list_all (\<lambda>g. b \<le> g) (gaps (cron_samples (cn e tz) CRON_GAP_SAMPLES start))"
proof (cases "gaps (cron_samples (cn e tz) CRON_GAP_SAMPLES start)")
  case (Cons g gs)
  then show ?thesis
    using assms fold_min_le [of gs g] by (force simp: estimateCronMinGap_def list_all_iff)
qed simp

lemma parseModifiers_caps:
  "parseModifiers env ws m u = Inr (m', u') \<Longrightarrow> cap_ok m \<Longrightarrow> cap_ok m'"
proof (induction env ws m u rule: parseModifiers.induct)
  case (2 env w ws m u)
  then show ?case
    by (auto simp: cap_ok_def split: if_splits option.splits)
qed simp

lemma normalize_not_once:
  "normalizeSessionWakeupSchedule env inp = Inr (schedule, t) \<Longrightarrow>
   (case inp of InOnce d a \<Rightarrow> False | _ \<Rightarrow> True) \<Longrightarrow>
   (case schedule of
      Once at delay \<Rightarrow> False
    | Interval n \<Rightarrow> 1 \<le> n \<and> n \<le> 7 * 86400 \<and> t = we_now env + int n * 1000
    | Cron e tz \<Rightarrow> we_cronNext env e tz (we_now env) = Some t)"
  by (auto simp: normalizeSessionWakeupSchedule_def duration_ok_def Let_def
      SESSION_WAKEUP_MAX_INTERVAL_SECONDS_def
      split: schedule_input.splits if_splits sum.splits option.splits)

lemma with_caps_ok:
  assumes "with_caps env ms (normalizeSessionWakeupSchedule env inp) = Inr p"
    and "case inp of InOnce d a \<Rightarrow> False | _ \<Rightarrow> True"
  shows "parsed_ok env p"
proof -
  obtain schedule t m u where n: "normalizeSessionWakeupSchedule env inp = Inr (schedule, t)"
      and m: "parseModifiers env ms None None = Inr (m, u)"
      and v: "validateSessionWakeupCaps env schedule t m u = None"
      and p: "p = \<lparr>ps_schedule = schedule, ps_firstRunAt = t, ps_maxRuns = m, ps_until = u\<rparr>"
    using assms(1) by (auto simp: with_caps_def split: sum.splits prod.splits option.splits)
  have "cap_ok m" using parseModifiers_caps [OF m] by (simp add: cap_ok_def)
  have norm: "case schedule of
      Once at delay \<Rightarrow> False
    | Interval n \<Rightarrow> 1 \<le> n \<and> n \<le> 7 * 86400 \<and> t = we_now env + int n * 1000
    | Cron e tz \<Rightarrow> we_cronNext env e tz (we_now env) = Some t"
    by (rule normalize_not_once [OF n assms(2)])
  then have until: "until_ok t u"
    using v by (cases u; cases schedule)
      (auto simp: validateSessionWakeupCaps_def until_ok_def Let_def split: if_splits)
  show ?thesis
  proof (cases schedule)
    case (Once at delay)
    then show ?thesis using norm by simp
  next
    case (Interval n)
    then have "300 \<le> n \<or> m \<noteq> None \<or> u \<noteq> None"
      using v by (auto simp: validateSessionWakeupCaps_def Let_def
          SESSION_WAKEUP_UNCAPPED_MIN_INTERVAL_SECONDS_def split: if_splits)
    then show ?thesis using norm until \<open>cap_ok m\<close> Interval by (simp add: p parsed_ok_def)
  next
    case (Cron e tz)
    then have "m \<noteq> None \<or> u \<noteq> None \<or>
        \<not> (case estimateCronMinGap (we_cronNext env) e tz t of None \<Rightarrow> False | Some g \<Rightarrow> g < 300000)"
      using v by (auto simp: validateSessionWakeupCaps_def Let_def
          SESSION_WAKEUP_UNCAPPED_MIN_INTERVAL_SECONDS_def split: if_splits option.splits)
    then have "m \<noteq> None \<or> u \<noteq> None \<or>
        list_all (\<lambda>g. 300000 \<le> g) (gaps (cron_samples (we_cronNext env e tz) 24 t))"
      using wide_gaps [where cn = "we_cronNext env" and e = e and tz = tz and start = t and b = 300000] by (auto simp: CRON_GAP_SAMPLES_def)
    then show ?thesis using norm until \<open>cap_ok m\<close> Cron by (simp add: p parsed_ok_def)
  qed
qed

lemma once_only_ok:
  "once_only (normalizeSessionWakeupSchedule env (InOnce d a)) = Inr p \<Longrightarrow> parsed_ok env p"
  by (auto simp: once_only_def normalizeSessionWakeupSchedule_def normalize_once_def parsed_ok_def
      cap_ok_def until_ok_def SESSION_WAKEUP_MAX_ONCE_HORIZON_SECONDS_def map_sum_def
      split: if_splits option.splits sum.splits prod.splits)

lemma parse_result_ok:
  assumes "parseSessionWakeupSchedule env inp = Inr p"
  shows "parsed_ok env p"
proof -
  let ?ws = "js_words inp"
  have into: "parse_in env ?ws = Some (Inr p) \<Longrightarrow> parsed_ok env p"
    by (auto simp: parse_in_def once_only_ok split: list.splits if_splits option.splits)
  have at: "parse_at env ?ws = Some (Inr p) \<Longrightarrow> parsed_ok env p"
    by (auto simp: parse_at_def once_only_ok split: list.splits if_splits)
  have every: "parse_every env ?ws = Some (Inr p) \<Longrightarrow> parsed_ok env p"
    by (auto simp: parse_every_def with_caps_ok split: list.splits if_splits option.splits)
  have cron: "parse_cron env ?ws = Some (Inr p) \<Longrightarrow> parsed_ok env p"
    by (auto simp: parse_cron_def with_caps_ok Let_def split: list.splits if_splits)
  show ?thesis
    using assms into at every cron
    by (cases "parse_in env ?ws"; cases "parse_at env ?ws"; cases "parse_every env ?ws";
        cases "parse_cron env ?ws")
      (auto simp: parseSessionWakeupSchedule_def Let_def)
qed

text \<open>Every schedule string the parser accepts is within its bounds: a one-shot lies in the
  future, at most thirty days out, and carries no caps; an interval is one second to seven days and
  starts one interval from now; a cron starts at its next occurrence; a run count is 1 to 1000 and
  an end time lies after the first run; and a recurring schedule without any cap never fires more
  often than every five minutes, for a cron over its sampled occurrences.\<close>

theorem parsed_schedule_is_bounded:
  assumes "parseSessionWakeupSchedule env inp = Inr p"
  shows "parsed_ok env p"
  using assms by (rule parse_result_ok)

text \<open>An environment whose crons come round every hour.\<close>

definition example_schedule_env :: schedule_env where
  "example_schedule_env =
     \<lparr>we_now = 0, we_defaultTimeZone = ''UTC'', we_parseDate = (\<lambda>s. None),
      we_timeZone = Some, we_cronNext = (\<lambda>e tz t. Some (t + 3600000))\<rparr>"

subsection \<open>Reading back\<close>

lemma digit_plain: "is_digit c \<Longrightarrow> \<not> js_space c"
  by (auto simp: is_digit_def js_space_def Let_def)

lemma plain_nat_str [simp]: "plain_word (nat_str n)"
  using nat_str_digits [of n] digit_plain by (auto simp: plain_word_def list_all_iff)

lemma takeWhile_nat_str [simp]:
  "takeWhile is_digit (nat_str n) = nat_str n" "dropWhile is_digit (nat_str n) = []"
  using nat_str_digits [of n] by simp_all

lemma nat_str_not_Nil [simp]: "nat_str n \<noteq> []"
  using nat_str_digits by blast

lemma digit_not_lower: "is_digit c \<Longrightarrow> lower_char c = c \<and> c \<notin> {CHR ''s'', CHR ''m'', CHR ''h'', CHR ''d''}"
  by (auto simp: is_digit_def lower_char_def Let_def)

lemma named_unit_nat_str [simp]: "named_unit (nat_str n) = None"
proof -
  obtain c cs where "nat_str n = c # cs" "is_digit c"
    using nat_str_digits [of n] by (cases "nat_str n") auto
  then show ?thesis using digit_not_lower [of c] by (simp add: named_unit_def to_lower_def)
qed

text \<open>The units a description uses.\<close>

definition unit_word :: "nat \<Rightarrow> string \<Rightarrow> nat \<Rightarrow> bool" where
  "unit_word n u k \<longleftrightarrow> plain_word u \<and> unit_seconds u = Some k \<and> unit_seconds (u @ ''s'') = Some k"

lemma unit_words [simp]:
  "unit_word n ''second'' 1" "unit_word n ''minute'' 60" "unit_word n ''hour'' 3600"
  "unit_word n ''day'' 86400"
  by (simp_all add: unit_word_def plain_word_def js_space_def unit_seconds_def UNIT_SECONDS_def
      to_lower_def lower_char_def)

lemma every_counted:
  assumes "unit_word n u k"
  shows "js_words (''every '' @ counted n u) = [''every'', nat_str n, u @ (if n = 1 then [] else ''s'')]"
    and "read_duration [nat_str n, u @ (if n = 1 then [] else ''s'')] = Some (n * k, [])"
proof -
  have "plain_word (u @ (if n = 1 then [] else ''s''))" "plain_word ''every''"
    using assms by (auto simp: unit_word_def plain_word_def js_space_def)
  then show "js_words (''every '' @ counted n u) =
      [''every'', nat_str n, u @ (if n = 1 then [] else ''s'')]"
    using js_words_join [of "[''every'', nat_str n, u @ (if n = 1 then [] else ''s'')]"]
    by (simp add: counted_def)
  show "read_duration [nat_str n, u @ (if n = 1 then [] else ''s'')] = Some (n * k, [])"
    using assms by (auto simp: read_duration_def unit_word_def Let_def)
qed

lemma description_words:
  "\<exists>n u. js_words (''every '' @ formatMinutes s) = [''every'', nat_str n, u] \<and>
      read_duration [nat_str n, u] = Some (s, [])"
proof -
  have by_unit: ?thesis if "formatMinutes s = counted n u" "unit_word n u k" "n * k = s" for n u k
    using every_counted [OF that(2)] that(1,3) by auto
  show ?thesis
  proof (cases "s mod 60 = 0")
    case False
    then have "formatMinutes s = counted s ''second''" by (simp add: formatMinutes_def)
    from by_unit [OF this unit_words(1)] show ?thesis by simp
  next
    case minutes: True
    consider "s mod 86400 = 0" | "s mod 86400 \<noteq> 0" "s mod 3600 = 0" | "s mod 86400 \<noteq> 0" "s mod 3600 \<noteq> 0"
      by blast
    then show ?thesis
    proof cases
      case 1
      then have "formatMinutes s = counted (s div 86400) ''day''"
        using minutes by (simp add: formatMinutes_def)
      from by_unit [OF this unit_words(4)] 1 show ?thesis by fastforce
    next
      case 2
      then have "formatMinutes s = counted (s div 3600) ''hour''"
        using minutes by (simp add: formatMinutes_def)
      from by_unit [OF this unit_words(3)] 2 show ?thesis by fastforce
    next
      case 3
      then have "formatMinutes s = counted (s div 60) ''minute''"
        using minutes by (simp add: formatMinutes_def)
      from by_unit [OF this unit_words(2)] minutes show ?thesis by fastforce
    qed
  qed
qed

text \<open>What the agent is told about a repeating wakeup can be given back as a schedule: the
  description of an interval parses to the same interval, in whichever unit it is shown, and is
  refused exactly when the interval is out of bounds or too tight to go without a cap.\<close>

theorem described_interval_reads_back:
  "parseSessionWakeupSchedule env (describeSessionWakeupSchedule isoDate (Interval s)) =
     (if s = 0 then Inl NotPositive
      else if 7 * 86400 < s then Inl BadInterval
      else if s < 300 then Inl Uncapped
      else Inr \<lparr>ps_schedule = Interval s, ps_firstRunAt = we_now env + int s * 1000,
                ps_maxRuns = None, ps_until = None\<rparr>)"
proof -
  obtain n u where "js_words (''every '' @ formatMinutes s) = [''every'', nat_str n, u]"
      and d: "read_duration [nat_str n, u] = Some (s, [])"
    using description_words by blast
  then have w: "js_words (describeSessionWakeupSchedule isoDate (Interval s)) =
      [''every'', nat_str n, u]"
    unfolding describeSessionWakeupSchedule_def by simp
  have k: "\<not> keyword ''in'' ''every''" "\<not> keyword ''once'' ''every''" "\<not> keyword ''at'' ''every''"
      "keyword ''every'' ''every''"
    by (simp_all add: keyword_def to_lower_def lower_char_def)
  show ?thesis
    by (simp add: parseSessionWakeupSchedule_def Let_def w d k
        parse_in_def parse_at_def parse_every_def with_caps_def normalizeSessionWakeupSchedule_def
        duration_ok_def SESSION_WAKEUP_MAX_INTERVAL_SECONDS_def validateSessionWakeupCaps_def
        SESSION_WAKEUP_UNCAPPED_MIN_INTERVAL_SECONDS_def)
qed

definition ten_minutes :: string where
  "ten_minutes = ''every '' @ formatMinutes 600"

theorem parsed_schedule_is_bounded_witness:
  "parsed_ok example_schedule_env
     (projr (parseSessionWakeupSchedule example_schedule_env ten_minutes))"
proof (rule parsed_schedule_is_bounded)
  obtain n u where w: "js_words ten_minutes = [''every'', nat_str n, u]"
      and d: "read_duration [nat_str n, u] = Some (600, [])"
    using description_words unfolding ten_minutes_def by blast
  show "parseSessionWakeupSchedule example_schedule_env ten_minutes =
      Inr (projr (parseSessionWakeupSchedule example_schedule_env ten_minutes))"
    by (simp add: parseSessionWakeupSchedule_def Let_def keyword_def to_lower_def lower_char_def w d
        parse_in_def parse_at_def parse_every_def with_caps_def normalizeSessionWakeupSchedule_def
        duration_ok_def SESSION_WAKEUP_MAX_INTERVAL_SECONDS_def validateSessionWakeupCaps_def
        SESSION_WAKEUP_UNCAPPED_MIN_INTERVAL_SECONDS_def)
qed

end
