(* ===== verification/SessionWakeups.thy ===== *)
theory SessionWakeups
  imports WakeupSchedule Tables JsValue "HOL-Library.Product_Lexorder"
begin

section \<open>Session wakeups\<close>

text \<open>
  The rows a conversation's wakeups are stored in and every statement on them
  (\<open>packages/db/src/lib/session-wakeups.ts\<close>, the table in \<open>packages/db/src/schema.ts\<close>), and the service the
  agent's tool calls (\<open>packages/cloud-agents/src/server/session-wakeups/service.ts\<close>, \<open>args.ts\<close>). A statement
  is one step. Ids, times and the platform's reading of dates and zones are arguments.
\<close>

definition MAX_ACTIVE_SESSION_WAKEUPS :: nat where
  "MAX_ACTIVE_SESSION_WAKEUPS = 10"

definition SESSION_WAKEUP_MAX_CONSECUTIVE_FAILURES :: nat where
  "SESSION_WAKEUP_MAX_CONSECUTIVE_FAILURES = 5"

datatype wakeup_status = WuActive | WuCompleted | WuCancelled | WuFailed

datatype report_policy = ReportAlways | ReportOnlyWhenNotable

record wakeup_row =
  wu_conversationId :: string
  wu_createdByUserId :: "string option"
  wu_name :: string
  wu_prompt :: string
  wu_promptSignature :: string
  wu_schedule :: wakeup_schedule
  wu_reportPolicy :: report_policy
  wu_internal :: bool
  wu_status :: wakeup_status
  wu_runCount :: nat
  wu_maxRuns :: "nat option"
  wu_until :: "ms option"
  wu_consecutiveFailures :: nat
  wu_nextRunAt :: "ms option"
  wu_lastFiredAt :: "ms option"
  wu_lastError :: "string option"
  wu_completedAt :: "ms option"
  wu_createdAt :: ms
  wu_updatedAt :: ms

type_synonym wakeups = "wakeup_row table"

subsection \<open>Statements\<close>

definition buildSessionWakeupPromptSignature :: "string \<Rightarrow> string" where
  "buildSessionWakeupPromptSignature prompt = join_words (js_words (to_lower prompt))"

definition active_in :: "string \<Rightarrow> wakeup_row \<Rightarrow> bool" where
  "active_in conversationId row \<longleftrightarrow>
     wu_conversationId row = conversationId \<and> wu_status row = WuActive"

definition countActiveSessionWakeups :: "string \<Rightarrow> wakeups \<Rightarrow> nat" where
  "countActiveSessionWakeups conversationId t = count_rows (active_in conversationId) t"

text \<open>Ascending, with absent times last.\<close>

definition time_key :: "ms option \<Rightarrow> nat \<times> ms" where
  "time_key t = (case t of None \<Rightarrow> (1, 0) | Some t \<Rightarrow> (0, t))"

definition listActiveSessionWakeups :: "string \<Rightarrow> wakeups \<Rightarrow> (string \<times> wakeup_row) list" where
  "listActiveSessionWakeups conversationId t =
     sort_key (\<lambda>(k, row). (time_key (wu_nextRunAt row), wu_createdAt row))
       (select_rows (active_in conversationId) t)"

definition listSessionWakeups ::
    "string \<Rightarrow> bool \<Rightarrow> nat option \<Rightarrow> wakeups \<Rightarrow> (string \<times> wakeup_row) list" where
  "listSessionWakeups conversationId includeTerminal limit t =
     take (nullish_or limit 50)
       (sort_key (\<lambda>(k, row). (if wu_status row = WuActive then 0 :: nat else 1,
                             time_key (wu_nextRunAt row), - wu_updatedAt row))
         (select_rows (\<lambda>row. if includeTerminal then wu_conversationId row = conversationId
                            else active_in conversationId row) t))"

definition getSessionWakeupById :: "string \<Rightarrow> wakeups \<Rightarrow> wakeup_row option" where
  "getSessionWakeupById i t = map_of t i"

record wakeup_input =
  wi_conversationId :: string
  wi_createdByUserId :: "string option"
  wi_name :: string
  wi_prompt :: string
  wi_schedule :: wakeup_schedule
  wi_reportPolicy :: report_policy
  wi_internal :: "bool option"
  wi_maxRuns :: "nat option"
  wi_until :: "ms option"
  wi_nextRunAt :: ms

definition new_wakeup :: "wakeup_input \<Rightarrow> ms \<Rightarrow> wakeup_row" where
  "new_wakeup inp now =
     \<lparr>wu_conversationId = wi_conversationId inp, wu_createdByUserId = wi_createdByUserId inp,
      wu_name = wi_name inp, wu_prompt = wi_prompt inp,
      wu_promptSignature = buildSessionWakeupPromptSignature (wi_prompt inp),
      wu_schedule = wi_schedule inp, wu_reportPolicy = wi_reportPolicy inp,
      wu_internal = nullish_or (wi_internal inp) False, wu_status = WuActive, wu_runCount = 0,
      wu_maxRuns = wi_maxRuns inp, wu_until = wi_until inp, wu_consecutiveFailures = 0,
      wu_nextRunAt = Some (wi_nextRunAt inp), wu_lastFiredAt = None, wu_lastError = None,
      wu_completedAt = None, wu_createdAt = now, wu_updatedAt = now\<rparr>"

definition insertSessionWakeup :: "wakeup_input \<Rightarrow> string \<Rightarrow> ms \<Rightarrow> wakeups \<Rightarrow> wakeups" where
  "insertSessionWakeup inp newId now t = insert_row newId (new_wakeup inp now) t"

text \<open>Two relative one-shots are the same wakeup when their delays are; other schedules when equal.\<close>

definition same_schedule :: "wakeup_schedule \<Rightarrow> wakeup_schedule \<Rightarrow> bool" where
  "same_schedule a b \<longleftrightarrow>
     (case (a, b) of
        (Once at (Some d), Once at' (Some d')) \<Rightarrow> d = d'
      | _ \<Rightarrow> a = b)"

definition equivalent_wakeup :: "string \<Rightarrow> bool \<Rightarrow> wakeup_schedule \<Rightarrow> wakeup_row \<Rightarrow> bool" where
  "equivalent_wakeup promptSignature internal schedule row \<longleftrightarrow>
     wu_promptSignature row = promptSignature \<and> wu_internal row = internal \<and>
     same_schedule (wu_schedule row) schedule"

datatype admission = Created string | Duplicate string | WakeupCapReached

text \<open>The conversation row is locked, so the read, the count and the insert are one step.\<close>

definition admitSessionWakeup ::
    "wakeup_input \<Rightarrow> string list \<Rightarrow> string \<Rightarrow> ms \<Rightarrow> wakeups \<Rightarrow> (wakeups \<times> admission) option" where
  "admitSessionWakeup inp conversations newId now t =
     (if wi_conversationId inp \<notin> set conversations then None
      else let active = listActiveSessionWakeups (wi_conversationId inp) t in
        case find (\<lambda>(k, row). equivalent_wakeup
               (buildSessionWakeupPromptSignature (wi_prompt inp))
               (nullish_or (wi_internal inp) False) (wi_schedule inp) row) active of
          Some (k, row) \<Rightarrow> Some (t, Duplicate k)
        | None \<Rightarrow>
            if length active \<ge> MAX_ACTIVE_SESSION_WAKEUPS then Some (t, WakeupCapReached)
            else Some (insertSessionWakeup inp newId now t, Created newId))"

definition end_wakeup :: "wakeup_status \<Rightarrow> ms \<Rightarrow> wakeup_row \<Rightarrow> wakeup_row" where
  "end_wakeup status now row =
     row\<lparr>wu_status := status, wu_nextRunAt := None, wu_completedAt := Some now,
         wu_updatedAt := now\<rparr>"

definition cancelSessionWakeup ::
    "string \<Rightarrow> string \<Rightarrow> ms \<Rightarrow> wakeups \<Rightarrow> wakeups \<times> wakeup_row option" where
  "cancelSessionWakeup i conversationId now t =
     update_where i (active_in conversationId) (end_wakeup WuCancelled now) t"

definition cancelSessionWakeupsForConversation ::
    "string \<Rightarrow> ms \<Rightarrow> wakeups \<Rightarrow> wakeups \<times> nat" where
  "cancelSessionWakeupsForConversation conversationId now t =
     apsnd length (update_all (active_in conversationId) (end_wakeup WuCancelled now) t)"

text \<open>The compare-and-set claim of one occurrence.\<close>

definition claimSessionWakeupFire ::
    "string \<Rightarrow> ms \<Rightarrow> ms option \<Rightarrow> ms \<Rightarrow> wakeups \<Rightarrow> wakeups \<times> wakeup_row option" where
  "claimSessionWakeupFire i expectedNextRunAt nextRunAt firedAt t =
     update_where i
       (\<lambda>row. wu_status row = WuActive \<and> wu_nextRunAt row = Some expectedNextRunAt)
       (\<lambda>row. row\<lparr>wu_runCount := wu_runCount row + 1, wu_lastFiredAt := Some firedAt,
                  wu_nextRunAt := nextRunAt,
                  wu_status := (if nextRunAt = None then WuCompleted else wu_status row),
                  wu_completedAt := (if nextRunAt = None then Some firedAt else wu_completedAt row),
                  wu_updatedAt := firedAt\<rparr>) t"

text \<open>The outcome of a turn: the statement that counts it, and the one that retires the wakeup.\<close>

datatype turn_outcome = TurnSucceeded | TurnFailed "string option"

definition count_outcome :: "turn_outcome \<Rightarrow> ms \<Rightarrow> wakeup_row \<Rightarrow> wakeup_row" where
  "count_outcome outcome now row =
     (case outcome of
        TurnSucceeded \<Rightarrow> row\<lparr>wu_consecutiveFailures := 0, wu_lastError := None, wu_updatedAt := now\<rparr>
      | TurnFailed error \<Rightarrow>
          row\<lparr>wu_consecutiveFailures := wu_consecutiveFailures row + 1, wu_lastError := error,
              wu_updatedAt := now\<rparr>)"

definition record_count ::
    "string \<Rightarrow> turn_outcome \<Rightarrow> ms \<Rightarrow> wakeups \<Rightarrow> wakeups \<times> wakeup_row option" where
  "record_count i outcome now t = update_where i (\<lambda>row. True) (count_outcome outcome now) t"

definition must_retire :: "wakeup_row \<Rightarrow> bool" where
  "must_retire row \<longleftrightarrow>
     \<not> (wu_status row \<noteq> WuActive \<or>
        wu_consecutiveFailures row < SESSION_WAKEUP_MAX_CONSECUTIVE_FAILURES)"

definition retire_wakeup :: "string \<Rightarrow> ms \<Rightarrow> wakeups \<Rightarrow> wakeups \<times> wakeup_row option" where
  "retire_wakeup i now t =
     update_where i (\<lambda>row. wu_status row = WuActive) (end_wakeup WuFailed now) t"

definition recordSessionWakeupOutcome ::
    "string \<Rightarrow> turn_outcome \<Rightarrow> ms \<Rightarrow> wakeups \<Rightarrow> wakeups \<times> wakeup_row option" where
  "recordSessionWakeupOutcome i outcome now t =
     (case record_count i outcome now t of
        (t', None) \<Rightarrow> (t', None)
      | (t', Some row) \<Rightarrow>
          if outcome = TurnSucceeded \<or> \<not> must_retire row then (t', Some row)
          else case retire_wakeup i now t' of
                 (t'', retired) \<Rightarrow> (t'', nullish retired (Some row)))"

definition due_by :: "ms \<Rightarrow> wakeup_row \<Rightarrow> bool" where
  "due_by dueBy row \<longleftrightarrow>
     wu_status row = WuActive \<and> (case wu_nextRunAt row of None \<Rightarrow> False | Some t \<Rightarrow> t \<le> dueBy)"

definition listDueSessionWakeups ::
    "ms \<Rightarrow> nat option \<Rightarrow> wakeups \<Rightarrow> (string \<times> ms option) list" where
  "listDueSessionWakeups dueBy limit t =
     map (\<lambda>(k, row). (k, wu_nextRunAt row))
       (take (nullish_or limit 500)
         (sort_key (\<lambda>(k, row). time_key (wu_nextRunAt row)) (select_rows (due_by dueBy) t)))"

subsection \<open>Well-formed wakeups\<close>

text \<open>
  What the type of a row does not say: a wakeup has a next occurrence, and no completion time,
  exactly while it is active; its next occurrence is not past its end; it has runs left while it
  is active and never more than it may; a one-shot runs once; its schedule is one the parser
  accepts.
\<close>

definition has_run_left :: "wakeup_row \<Rightarrow> bool" where
  "has_run_left row \<longleftrightarrow>
     (case wu_maxRuns row of
        None \<Rightarrow> True
      | Some m \<Rightarrow> if wu_status row = WuActive then wu_runCount row < m else wu_runCount row \<le> m) \<and>
     (case wu_schedule row of
        Once at delay \<Rightarrow> wu_runCount row \<le> (if wu_status row = WuActive then 0 else 1)
      | Interval n \<Rightarrow> 1 \<le> n
      | Cron e tz \<Rightarrow> True)"

definition wakeup_ok :: "wakeup_row \<Rightarrow> bool" where
  "wakeup_ok row \<longleftrightarrow>
     (wu_status row = WuActive \<longleftrightarrow> wu_nextRunAt row \<noteq> None) \<and>
     (wu_status row = WuActive \<longleftrightarrow> wu_completedAt row = None) \<and>
     (case (wu_nextRunAt row, wu_until row) of (Some t, Some u) \<Rightarrow> t \<le> u | _ \<Rightarrow> True) \<and>
     cap_ok (wu_maxRuns row) \<and> has_run_left row"

lemma wakeup_ok_end [simp]:
  "status \<noteq> WuActive \<Longrightarrow> wakeup_ok row \<Longrightarrow> wakeup_ok (end_wakeup status now row)"
  by (auto simp: wakeup_ok_def end_wakeup_def has_run_left_def
      split: option.splits wakeup_schedule.splits if_splits)

lemma count_outcome_frame [simp]:
  "wu_status (count_outcome outcome now row) = wu_status row"
  "wu_nextRunAt (count_outcome outcome now row) = wu_nextRunAt row"
  "wu_completedAt (count_outcome outcome now row) = wu_completedAt row"
  "wu_runCount (count_outcome outcome now row) = wu_runCount row"
  "wu_maxRuns (count_outcome outcome now row) = wu_maxRuns row"
  "wu_until (count_outcome outcome now row) = wu_until row"
  "wu_schedule (count_outcome outcome now row) = wu_schedule row"
  "wu_conversationId (count_outcome outcome now row) = wu_conversationId row"
  "wu_promptSignature (count_outcome outcome now row) = wu_promptSignature row"
  "wu_internal (count_outcome outcome now row) = wu_internal row"
  by (simp_all add: count_outcome_def split: turn_outcome.split)

lemma wakeup_ok_count [simp]: "wakeup_ok (count_outcome outcome now row) = wakeup_ok row"
  by (simp add: wakeup_ok_def has_run_left_def split: option.split wakeup_schedule.split)

lemma end_wakeup_frame [simp]:
  "wu_status (end_wakeup status now row) = status"
  "wu_nextRunAt (end_wakeup status now row) = None"
  "wu_runCount (end_wakeup status now row) = wu_runCount row"
  "wu_maxRuns (end_wakeup status now row) = wu_maxRuns row"
  "wu_until (end_wakeup status now row) = wu_until row"
  "wu_schedule (end_wakeup status now row) = wu_schedule row"
  "wu_conversationId (end_wakeup status now row) = wu_conversationId row"
  "wu_promptSignature (end_wakeup status now row) = wu_promptSignature row"
  "wu_internal (end_wakeup status now row) = wu_internal row"
  by (simp_all add: end_wakeup_def)

subsection \<open>The service\<close>

text \<open>
  The conversations there are, each with the user it belongs to; the wakeups; and the delayed
  jobs, one per occurrence: the job id carries the wakeup and the time, so that a hint that is
  added again is the same job.
\<close>

record fire_job =
  fj_wakeupId :: string
  fj_runAt :: ms

record wakeup_db =
  wd_conversations :: "(string, string option) jsmap"
  wd_timeZone :: "string option"
  wd_wakeups :: wakeups
  wd_jobs :: "fire_job list"

definition buildSessionWakeupFireJobId :: "(ms \<Rightarrow> string) \<Rightarrow> fire_job \<Rightarrow> string" where
  "buildSessionWakeupFireJobId number job = fj_wakeupId job @ ''-'' @ number (fj_runAt job)"

definition enqueueSessionWakeupFire :: "fire_job \<Rightarrow> wakeup_db \<Rightarrow> wakeup_db" where
  "enqueueSessionWakeupFire job db = db\<lparr>wd_jobs := List.insert job (wd_jobs db)\<rparr>"

datatype service_error =
    NameRequired | PromptRequired | BadSchedule schedule_error | TooManyWakeups | ConversationMissing

record create_wakeup =
  cw_name :: string
  cw_prompt :: string
  cw_schedule :: string
  cw_reportPolicy :: "report_policy option"
  cw_internal :: "bool option"

definition resolveSessionWakeupTimeZone :: "schedule_env \<Rightarrow> wakeup_db \<Rightarrow> string" where
  "resolveSessionWakeupTimeZone env db =
     (case wd_timeZone db of
        None \<Rightarrow> ''UTC''
      | Some z \<Rightarrow>
          if z = [] then ''UTC''
          else (case normalizeSessionWakeupTimeZone env z of Inl e \<Rightarrow> ''UTC'' | Inr tz \<Rightarrow> tz))"

text \<open>The created row's job is added after it is stored, and may fail: \<open>hinted\<close> says whether it was.\<close>

definition createSessionWakeup ::
    "schedule_env \<Rightarrow> string \<Rightarrow> string \<Rightarrow> create_wakeup \<Rightarrow> string \<Rightarrow> bool \<Rightarrow> wakeup_db
     \<Rightarrow> service_error + wakeup_db \<times> string \<times> bool" where
  "createSessionWakeup env conversationId userId inp newId hinted db =
     (let name = join_words (js_words (cw_name inp)); prompt = trim (cw_prompt inp) in
      if name = [] then Inl NameRequired
      else if prompt = [] then Inl PromptRequired
      else case parseSessionWakeupSchedule
                  (env\<lparr>we_defaultTimeZone := resolveSessionWakeupTimeZone env db\<rparr>)
                  (cw_schedule inp) of
             Inl e \<Rightarrow> Inl (BadSchedule e)
           | Inr parsed \<Rightarrow>
               (case admitSessionWakeup
                       \<lparr>wi_conversationId = conversationId, wi_createdByUserId = Some userId,
                        wi_name = name, wi_prompt = prompt, wi_schedule = ps_schedule parsed,
                        wi_reportPolicy = nullish_or (cw_reportPolicy inp)
                          (if isSessionWakeupRecurring (ps_schedule parsed)
                           then ReportOnlyWhenNotable else ReportAlways),
                        wi_internal = Some (nullish_or (cw_internal inp) False),
                        wi_maxRuns = ps_maxRuns parsed, wi_until = ps_until parsed,
                        wi_nextRunAt = ps_firstRunAt parsed\<rparr>
                       (map fst (wd_conversations db)) newId (we_now env) (wd_wakeups db) of
                  None \<Rightarrow> Inl ConversationMissing
                | Some (t, WakeupCapReached) \<Rightarrow> Inl TooManyWakeups
                | Some (t, Duplicate k) \<Rightarrow> Inr (db, k, True)
                | Some (t, Created k) \<Rightarrow>
                    Inr ((if hinted
                          then enqueueSessionWakeupFire
                                 \<lparr>fj_wakeupId = k, fj_runAt = ps_firstRunAt parsed\<rparr>
                          else id) (db\<lparr>wd_wakeups := t\<rparr>), k, False)))"

datatype cancel_result = CancelledNow string | AlreadyTerminal string | WakeupNotFound

definition cancelSessionWakeupForConversation ::
    "string \<Rightarrow> string \<Rightarrow> ms \<Rightarrow> wakeup_db \<Rightarrow> wakeup_db \<times> cancel_result" where
  "cancelSessionWakeupForConversation conversationId wakeupId now db =
     (case cancelSessionWakeup wakeupId conversationId now (wd_wakeups db) of
        (t, Some row) \<Rightarrow> (db\<lparr>wd_wakeups := t\<rparr>, CancelledNow wakeupId)
      | (t, None) \<Rightarrow>
          (db, case getSessionWakeupById wakeupId (wd_wakeups db) of
                 None \<Rightarrow> WakeupNotFound
               | Some row \<Rightarrow>
                   if wu_conversationId row \<noteq> conversationId then WakeupNotFound
                   else AlreadyTerminal wakeupId))"

definition getSessionWakeupForConversation ::
    "string \<Rightarrow> string \<Rightarrow> wakeup_db \<Rightarrow> wakeup_row option" where
  "getSessionWakeupForConversation conversationId wakeupId db =
     (case getSessionWakeupById wakeupId (wd_wakeups db) of
        None \<Rightarrow> None
      | Some row \<Rightarrow> if wu_conversationId row \<noteq> conversationId then None else Some row)"

definition cancel_each :: "string list \<Rightarrow> string \<Rightarrow> ms \<Rightarrow> wakeup_db \<Rightarrow> wakeup_db" where
  "cancel_each ids conversationId now db =
     db\<lparr>wd_wakeups := fold (\<lambda>i t. fst (cancelSessionWakeup i conversationId now t)) ids
       (wd_wakeups db)\<rparr>"

subsection \<open>Wakeups the platform sets itself\<close>

definition OWN_TASK_FOLLOW_THROUGH_NAME :: string where
  "OWN_TASK_FOLLOW_THROUGH_NAME = ''Follow through on session tasks''"

definition OWN_TASK_FOLLOW_THROUGH_PROMPT :: string where
  "OWN_TASK_FOLLOW_THROUGH_PROMPT =
     ''Run the Own Coding Task Follow-Through session check for all tasks in this conversation. '' @
     ''Follow that system policy exactly, including inspection, reporting, correction, stopping, '' @
     ''and rearming.''"

definition SESSION_GOAL_CONTINUATION_NAME :: string where
  "SESSION_GOAL_CONTINUATION_NAME = ''Continue pursuing session goal''"

definition SESSION_GOAL_CONTINUATION_PROMPT :: string where
  "SESSION_GOAL_CONTINUATION_PROMPT =
     ''Continue pursuing the active Session Goal. Take a concrete next action, delegate execution '' @
     ''if needed, or use manage_goal to complete, block, or cancel it.''"

definition platform_wakeup :: "string \<Rightarrow> string \<Rightarrow> string \<Rightarrow> create_wakeup" where
  "platform_wakeup name prompt schedule =
     \<lparr>cw_name = name, cw_prompt = prompt, cw_schedule = schedule,
      cw_reportPolicy = Some ReportOnlyWhenNotable, cw_internal = Some True\<rparr>"

definition platform_ids :: "string \<Rightarrow> string \<Rightarrow> string \<Rightarrow> (wakeup_row \<Rightarrow> bool) \<Rightarrow> wakeup_db \<Rightarrow> string list"
where
  "platform_ids conversationId name prompt p db =
     map fst (filter (\<lambda>(k, row). wu_internal row \<and> wu_name row = name \<and> wu_prompt row = prompt \<and> p row)
       (listSessionWakeups conversationId False None (wd_wakeups db)))"

definition isOwnTaskFollowThroughInput :: "create_wakeup \<Rightarrow> bool" where
  "isOwnTaskFollowThroughInput inp \<longleftrightarrow>
     cw_internal inp = Some True \<and>
     join_words (js_words (cw_name inp)) = OWN_TASK_FOLLOW_THROUGH_NAME \<and>
     trim (cw_prompt inp) = OWN_TASK_FOLLOW_THROUGH_PROMPT"

definition other_cadence :: "nat \<Rightarrow> wakeup_row \<Rightarrow> bool" where
  "other_cadence seconds row \<longleftrightarrow>
     (case wu_schedule row of Once at delay \<Rightarrow> delay \<noteq> Some seconds | _ \<Rightarrow> True)"

definition ensureOwnTaskFollowThroughWakeupForMode ::
    "schedule_env \<Rightarrow> string \<Rightarrow> string \<Rightarrow> bool \<Rightarrow> bool \<Rightarrow> string \<Rightarrow> bool \<Rightarrow> wakeup_db
     \<Rightarrow> wakeup_db \<times> (service_error + string \<times> bool) option" where
  "ensureOwnTaskFollowThroughWakeupForMode env conversationId userId voiceMode onlyIfActive newId
       hinted db =
     (let own = platform_ids conversationId OWN_TASK_FOLLOW_THROUGH_NAME
                  OWN_TASK_FOLLOW_THROUGH_PROMPT (\<lambda>row. True) db in
      if onlyIfActive \<and> own = [] then (db, None)
      else let db' = cancel_each (platform_ids conversationId OWN_TASK_FOLLOW_THROUGH_NAME
                       OWN_TASK_FOLLOW_THROUGH_PROMPT
                       (other_cadence (if voiceMode then 60 else 600)) db)
                       conversationId (we_now env) db in
        case createSessionWakeup env conversationId userId
               (platform_wakeup OWN_TASK_FOLLOW_THROUGH_NAME OWN_TASK_FOLLOW_THROUGH_PROMPT
                 (if voiceMode then ''in 1m'' else ''in 10m'')) newId hinted db' of
          Inl e \<Rightarrow> (db', Some (Inl e))
        | Inr (db'', r) \<Rightarrow> (db'', Some (Inr r)))"

definition ensureSessionGoalContinuationWakeup ::
    "schedule_env \<Rightarrow> string \<Rightarrow> string \<Rightarrow> string \<Rightarrow> bool \<Rightarrow> wakeup_db
     \<Rightarrow> service_error + wakeup_db \<times> string \<times> bool" where
  "ensureSessionGoalContinuationWakeup env conversationId userId newId hinted db =
     createSessionWakeup env conversationId userId
       (platform_wakeup SESSION_GOAL_CONTINUATION_NAME SESSION_GOAL_CONTINUATION_PROMPT ''in 1m'')
       newId hinted db"

definition cancelSessionGoalContinuationWakeups :: "string \<Rightarrow> ms \<Rightarrow> wakeup_db \<Rightarrow> wakeup_db" where
  "cancelSessionGoalContinuationWakeups conversationId now db =
     cancel_each (platform_ids conversationId SESSION_GOAL_CONTINUATION_NAME
       SESSION_GOAL_CONTINUATION_PROMPT (\<lambda>row. True) db) conversationId now db"

subsection \<open>The tool\<close>

text \<open>What the model pads its arguments with; an argument left empty is \<open>undefined\<close>.\<close>

definition PLACEHOLDER_STRINGS :: "string list" where
  "PLACEHOLDER_STRINGS = [''null'', ''none'', ''undefined'', ''n/a'']"

fun stripEmpty :: "jsv \<Rightarrow> jsv" where
  "stripEmpty (JArr vs) = JArr (map stripEmpty vs)"
| "stripEmpty (JObj kvs) =
     JObj (filter (\<lambda>(k, v). v \<noteq> JUndefined) (map (\<lambda>(k, v). (k, stripEmpty v)) kvs))"
| "stripEmpty JNull = JUndefined"
| "stripEmpty (JStr s) =
     (if trim s = [] \<or> to_lower (trim s) \<in> set PLACEHOLDER_STRINGS then JUndefined else JStr s)"
| "stripEmpty v = v"

definition normalizeManageWakeupsArgs :: "jsv \<Rightarrow> jsv" where
  "normalizeManageWakeupsArgs args = stripEmpty args"

datatype manage_action =
    ManageCreate "string option" "string option" "string option" "report_policy option" "bool option"
  | ManageList
  | ManageGet "string option"
  | ManageCancel "string option"

datatype manage_result =
    ManageCreated string bool
  | ManageListed "(string \<times> wakeup_row) list"
  | ManageFound wakeup_row
  | ManageCancelled bool string
  | ManageRefused
  | ManageThrows

text \<open>\<open>voice\<close> is whether a voice call is under way in the conversation.\<close>

definition created_result ::
    "wakeup_db \<Rightarrow> service_error + wakeup_db \<times> string \<times> bool \<Rightarrow> wakeup_db \<times> manage_result" where
  "created_result db r =
     (case r of
        Inr (db', k, duplicate) \<Rightarrow> (db', ManageCreated k duplicate)
      | Inl e \<Rightarrow> (db, if e = ConversationMissing then ManageThrows else ManageRefused))"

definition handleManageWakeupsToolCall ::
    "schedule_env \<Rightarrow> string \<Rightarrow> string \<Rightarrow> bool \<Rightarrow> manage_action \<Rightarrow> string \<Rightarrow> bool \<Rightarrow> wakeup_db
     \<Rightarrow> wakeup_db \<times> manage_result" where
  "handleManageWakeupsToolCall env conversationId userId voice action newId hinted db =
     (case action of
        ManageCreate name prompt schedule policy internal \<Rightarrow>
          if \<not> truthy name \<or> \<not> truthy prompt \<or> \<not> truthy schedule then (db, ManageRefused)
          else let inp = \<lparr>cw_name = the name, cw_prompt = the prompt, cw_schedule = the schedule,
                          cw_reportPolicy = policy,
                          cw_internal = Some (nullish_or internal False)\<rparr> in
            if isOwnTaskFollowThroughInput inp
            then case ensureOwnTaskFollowThroughWakeupForMode env conversationId userId voice False
                        newId hinted db of
                   (db', Some (Inr r)) \<Rightarrow> (db', ManageCreated (fst r) (snd r))
                 | (db', Some (Inl e)) \<Rightarrow>
                     (db', if e = ConversationMissing then ManageThrows else ManageRefused)
                 | (db', None) \<Rightarrow> (db', ManageThrows)
            else created_result db
                   (createSessionWakeup env conversationId userId inp newId hinted db)
      | ManageList \<Rightarrow>
          (db, ManageListed (listSessionWakeups conversationId False None (wd_wakeups db)))
      | ManageGet i \<Rightarrow>
          (db, if \<not> truthy i then ManageRefused
               else case getSessionWakeupForConversation conversationId (the i) db of
                      None \<Rightarrow> ManageRefused | Some row \<Rightarrow> ManageFound row)
      | ManageCancel i \<Rightarrow>
          if \<not> truthy i then (db, ManageRefused)
          else case cancelSessionWakeupForConversation conversationId (the i) (we_now env) db of
                 (db', CancelledNow k) \<Rightarrow> (db', ManageCancelled True k)
               | (db', AlreadyTerminal k) \<Rightarrow> (db', ManageCancelled False k)
               | (db', WakeupNotFound) \<Rightarrow> (db', ManageRefused))"

subsection \<open>What the service does to the table\<close>

text \<open>
  The statements of the service, one at a time: a new wakeup that is admitted; an active one that
  ends; a turn that is counted; a conversation that is deleted with its wakeups.
\<close>

definition admissible_insert :: "string \<Rightarrow> wakeup_input \<Rightarrow> wakeups \<Rightarrow> bool" where
  "admissible_insert newId inp t \<longleftrightarrow>
     map_of t newId = None \<and> wakeup_ok (new_wakeup inp 0) \<and>
     length (listActiveSessionWakeups (wi_conversationId inp) t) < MAX_ACTIVE_SESSION_WAKEUPS \<and>
     list_all (\<lambda>(k, row). \<not> equivalent_wakeup (buildSessionWakeupPromptSignature (wi_prompt inp))
         (nullish_or (wi_internal inp) False) (wi_schedule inp) row)
       (listActiveSessionWakeups (wi_conversationId inp) t)"

inductive service_change :: "string \<Rightarrow> wakeups \<Rightarrow> wakeups \<Rightarrow> bool" for newId where
  sc_insert: "admissible_insert newId inp t \<Longrightarrow>
    service_change newId t (insertSessionWakeup inp newId now t)"
| sc_end: "status \<noteq> WuActive \<Longrightarrow> service_change newId t
    (fst (update_where k (\<lambda>row. wu_status row = WuActive \<and> g row) (end_wakeup status now) t))"
| sc_end_all: "service_change newId t
    (fst (update_all (active_in conversationId) (end_wakeup WuCancelled now) t))"
| sc_count: "service_change newId t (fst (record_count k outcome now t))"
| sc_delete: "service_change newId t
    (filter (\<lambda>(k, row). wu_conversationId row \<noteq> conversationId) t)"

text \<open>The row of an id after a change: what it was, perhaps ended; or new.\<close>

definition same_wakeup :: "wakeup_row \<Rightarrow> wakeup_row \<Rightarrow> bool" where
  "same_wakeup row row' \<longleftrightarrow>
     wu_conversationId row' = wu_conversationId row \<and> wu_schedule row' = wu_schedule row \<and>
     wu_maxRuns row' = wu_maxRuns row \<and> wu_until row' = wu_until row \<and>
     wu_promptSignature row' = wu_promptSignature row \<and> wu_internal row' = wu_internal row"

definition row_kept :: "wakeup_row \<Rightarrow> wakeup_row \<Rightarrow> bool" where
  "row_kept row row' \<longleftrightarrow>
     same_wakeup row row' \<and> wu_runCount row' = wu_runCount row \<and> (wakeup_ok row \<longrightarrow> wakeup_ok row') \<and>
     (wu_status row' = wu_status row \<and> wu_nextRunAt row' = wu_nextRunAt row \<or>
      wu_status row' \<noteq> WuActive \<and> wu_nextRunAt row' = None)"

lemma row_kept_refl [simp]: "row_kept row row"
  by (simp add: row_kept_def same_wakeup_def)

lemma row_kept_trans: "row_kept a b \<Longrightarrow> row_kept b c \<Longrightarrow> row_kept a c"
  by (auto simp: row_kept_def same_wakeup_def)

lemma row_kept_end [simp]: "status \<noteq> WuActive \<Longrightarrow> row_kept row (end_wakeup status now row)"
  by (simp add: row_kept_def same_wakeup_def)

lemma row_kept_count [simp]: "row_kept row (count_outcome outcome now row)"
  by (simp add: row_kept_def same_wakeup_def)

lemma new_wakeup_fields [simp]:
  "wu_conversationId (new_wakeup inp now) = wi_conversationId inp"
  "wu_schedule (new_wakeup inp now) = wi_schedule inp"
  "wu_promptSignature (new_wakeup inp now) = buildSessionWakeupPromptSignature (wi_prompt inp)"
  "wu_internal (new_wakeup inp now) = nullish_or (wi_internal inp) False"
  "wu_status (new_wakeup inp now) = WuActive" "wu_runCount (new_wakeup inp now) = 0"
  "wu_maxRuns (new_wakeup inp now) = wi_maxRuns inp" "wu_until (new_wakeup inp now) = wi_until inp"
  "wu_nextRunAt (new_wakeup inp now) = Some (wi_nextRunAt inp)"
  "wu_completedAt (new_wakeup inp now) = None"
  by (simp_all add: new_wakeup_def)

lemma wakeup_ok_new: "wakeup_ok (new_wakeup inp now) = wakeup_ok (new_wakeup inp 0)"
  by (simp add: wakeup_ok_def has_run_left_def split: option.split wakeup_schedule.split)

lemma map_of_filter_rows:
  "jsmap_ok t \<Longrightarrow> map_of (filter (\<lambda>(k, row). p row) t) k =
     (case map_of t k of None \<Rightarrow> None | Some row \<Rightarrow> if p row then Some row else None)"
  unfolding jsmap_ok_def
  by (induction t) (auto simp: map_of_eq_None_iff image_iff split: option.splits)

definition new_row_ok :: "string \<Rightarrow> string \<Rightarrow> wakeups \<Rightarrow> wakeup_row \<Rightarrow> bool" where
  "new_row_ok newId k t row \<longleftrightarrow> k = newId \<and> map_of t newId = None \<and> wu_runCount row = 0 \<and> wakeup_ok row"

lemma service_change_row:
  assumes "service_change newId t t'" "jsmap_ok t" "map_of t' k = Some row'"
  shows "(\<exists>row. map_of t k = Some row \<and> row_kept row row') \<or> new_row_ok newId k t row'"
  using assms
proof (induction rule: service_change.induct)
  case (sc_insert inp t now)
  then show ?case
    using wakeup_ok_new [of inp now]
    by (auto simp: insertSessionWakeup_def map_of_insert_row new_row_ok_def admissible_insert_def
        split: if_splits)
next
  case (sc_end status t i g now)
  then show ?case by (auto simp: map_of_update_where split: if_splits)
next
  case (sc_end_all t conversationId now)
  then show ?case by (auto simp: map_of_update_all split: if_splits)
next
  case (sc_count t i outcome now)
  then show ?case by (auto simp: record_count_def map_of_update_where split: if_splits)
next
  case (sc_delete t conversationId)
  then show ?case by (auto simp: map_of_filter_rows split: option.splits if_splits)
qed

lemma jsmap_ok_service_change: "service_change newId t t' \<Longrightarrow> jsmap_ok t \<Longrightarrow> jsmap_ok t'"
proof (induction rule: service_change.induct)
  case (sc_delete t conversationId)
  then show ?case unfolding jsmap_ok_def by (rule distinct_map_filter)
qed (simp_all add: insertSessionWakeup_def record_count_def)

subsection \<open>Admission\<close>

text \<open>A conversation holds few active wakeups, and no two of them that mean the same.\<close>

definition twins :: "wakeup_row \<Rightarrow> wakeup_row \<Rightarrow> bool" where
  "twins row row' \<longleftrightarrow>
     active_in (wu_conversationId row) row \<and> active_in (wu_conversationId row) row' \<and>
     equivalent_wakeup (wu_promptSignature row') (wu_internal row') (wu_schedule row') row"

definition admission_ok :: "wakeups \<Rightarrow> bool" where
  "admission_ok t \<longleftrightarrow>
     (\<forall>c. countActiveSessionWakeups c t \<le> MAX_ACTIVE_SESSION_WAKEUPS) \<and>
     (\<forall>k k' row row'. map_of t k = Some row \<longrightarrow> map_of t k' = Some row' \<longrightarrow> twins row row' \<longrightarrow> k = k')"

lemma same_schedule_sym: "same_schedule a b = same_schedule b a"
  by (auto simp: same_schedule_def split: wakeup_schedule.splits option.splits)

lemma twins_sym: "twins row row' = twins row' row"
  by (auto simp: twins_def active_in_def equivalent_wakeup_def same_schedule_sym)

lemma listActive_set:
  "jsmap_ok t \<Longrightarrow> (k, row) \<in> set (listActiveSessionWakeups c t) \<longleftrightarrow>
     map_of t k = Some row \<and> active_in c row"
  by (simp add: listActiveSessionWakeups_def set_select_rows)

lemma length_listActive: "length (listActiveSessionWakeups c t) = countActiveSessionWakeups c t"
  by (simp add: listActiveSessionWakeups_def countActiveSessionWakeups_def count_rows_def)

lemma kept_active: "same_wakeup row row' \<Longrightarrow> (wu_status row' = WuActive \<Longrightarrow> wu_status row = WuActive) \<Longrightarrow>
    active_in c row' \<Longrightarrow> active_in c row"
  by (auto simp: active_in_def same_wakeup_def)

text \<open>A change that only keeps or ends wakeups keeps the admission rules.\<close>

definition shrinks :: "wakeups \<Rightarrow> wakeups \<Rightarrow> bool" where
  "shrinks t t' \<longleftrightarrow> (\<forall>k row'. map_of t' k = Some row' \<longrightarrow> (\<exists>row. map_of t k = Some row \<and>
     same_wakeup row row' \<and> (wu_status row' = WuActive \<longrightarrow> wu_status row = WuActive)))"

lemma admission_ok_shrinks:
  assumes "admission_ok t" "jsmap_ok t" "jsmap_ok t'" "shrinks t t'"
  shows "admission_ok t'"
  unfolding admission_ok_def
proof (intro conjI allI impI)
  fix c
  have "countActiveSessionWakeups c t' \<le> countActiveSessionWakeups c t"
    unfolding countActiveSessionWakeups_def
    using assms(2-4) unfolding row_is_def shrinks_def
    by (intro count_rows_mono) (auto simp: row_is_def, blast intro: kept_active)
  then show "countActiveSessionWakeups c t' \<le> MAX_ACTIVE_SESSION_WAKEUPS"
    using assms(1) by (auto simp: admission_ok_def intro: order_trans)
next
  fix k k' row row'
  assume k: "map_of t' k = Some row" "map_of t' k' = Some row'" "twins row row'"
  obtain old where o: "map_of t k = Some old" "same_wakeup old row"
      "wu_status row = WuActive \<longrightarrow> wu_status old = WuActive"
    using assms(4) k(1) unfolding shrinks_def by blast
  obtain old' where o': "map_of t k' = Some old'" "same_wakeup old' row'"
      "wu_status row' = WuActive \<longrightarrow> wu_status old' = WuActive"
    using assms(4) k(2) unfolding shrinks_def by blast
  have "twins old old'"
    using k(3) o(2,3) o'(2,3)
    unfolding twins_def active_in_def same_wakeup_def equivalent_wakeup_def by simp
  then show "k = k'" using assms(1) o(1) o'(1) by (auto simp: admission_ok_def)
qed

lemma admission_ok_insert:
  assumes "admission_ok t" "jsmap_ok t" "admissible_insert newId inp t"
  shows "admission_ok (insertSessionWakeup inp newId now t)"
  unfolding admission_ok_def
proof (intro conjI allI impI)
  let ?t' = "insertSessionWakeup inp newId now t"
  let ?new = "new_wakeup inp now"
  have ok': "jsmap_ok ?t'" using assms(2) by (simp add: insertSessionWakeup_def)
  have new: "map_of t newId = None" using assms(3) by (simp add: admissible_insert_def)
  have lookup: "map_of ?t' k = (if k = newId then Some ?new else map_of t k)" for k
    by (simp add: insertSessionWakeup_def map_of_insert_row)
  fix c
  show "countActiveSessionWakeups c ?t' \<le> MAX_ACTIVE_SESSION_WAKEUPS"
  proof (cases "c = wi_conversationId inp")
    case True
    have "{k. row_is k (active_in c) ?t'} \<subseteq> insert newId {k. row_is k (active_in c) t}"
      by (auto simp: row_is_def lookup split: if_splits)
    then have "card {k. row_is k (active_in c) ?t'} \<le> card (insert newId {k. row_is k (active_in c) t})"
      using count_rows_card(2) [OF assms(2)] by (intro card_mono) simp_all
    also have "\<dots> \<le> Suc (card {k. row_is k (active_in c) t})"
      using count_rows_card(2) [OF assms(2)] by (simp add: card_insert_if)
    finally have "countActiveSessionWakeups c ?t' \<le> Suc (countActiveSessionWakeups c t)"
      by (simp add: countActiveSessionWakeups_def count_rows_card(1) assms(2) ok')
    then show ?thesis
      using assms(3) True by (simp add: admissible_insert_def length_listActive)
  next
    case False
    have "countActiveSessionWakeups c ?t' \<le> countActiveSessionWakeups c t"
      unfolding countActiveSessionWakeups_def
      using assms(2) ok' False
      by (intro count_rows_mono) (auto simp: row_is_def lookup active_in_def split: if_splits)
    then show ?thesis using assms(1) by (auto simp: admission_ok_def intro: order_trans)
  qed
next
  let ?t' = "insertSessionWakeup inp newId now t"
  let ?new = "new_wakeup inp now"
  have lookup: "map_of ?t' k = (if k = newId then Some ?new else map_of t k)" for k
    by (simp add: insertSessionWakeup_def map_of_insert_row)
  have alone: "\<not> twins row ?new" if "map_of t k = Some row" for k row
    using assms(3) listActive_set [OF assms(2), of k row "wi_conversationId inp"] that
    by (auto simp: admissible_insert_def list_all_iff twins_def active_in_def)
  fix k k' row row'
  assume "map_of ?t' k = Some row" "map_of ?t' k' = Some row'" "twins row row'"
  then show "k = k'"
    using assms(1) alone twins_sym [of row row']
    by (auto simp: lookup admission_ok_def split: if_splits)
qed

lemma service_change_shrinks:
  assumes "service_change newId t t'" "jsmap_ok t"
  shows "shrinks t t' \<or> (\<exists>inp now. admissible_insert newId inp t \<and> t' = insertSessionWakeup inp newId now t)"
  using assms
proof (induction rule: service_change.induct)
  case (sc_end status t k g now)
  then show ?case by (auto simp: shrinks_def map_of_update_where same_wakeup_def)
next
  case (sc_end_all t c now)
  then show ?case by (auto simp: shrinks_def map_of_update_all same_wakeup_def)
next
  case (sc_count t k outcome now)
  then show ?case by (auto simp: shrinks_def record_count_def map_of_update_where same_wakeup_def)
next
  case (sc_delete t c)
  then show ?case
    by (auto simp: shrinks_def map_of_filter_rows same_wakeup_def split: option.splits if_splits)
qed blast

lemma admission_ok_service_change:
  assumes "service_change newId t t'" "jsmap_ok t" "admission_ok t"
  shows "admission_ok t'"
  using service_change_shrinks [OF assms(1,2)] jsmap_ok_service_change [OF assms(1,2)]
    admission_ok_shrinks admission_ok_insert assms by blast

subsection \<open>Every service call as changes\<close>

definition service_run :: "string \<Rightarrow> wakeups \<Rightarrow> wakeups \<Rightarrow> bool" where
  "service_run newId = (service_change newId)\<^sup>*\<^sup>*"

lemma service_run_refl [intro]: "service_run newId t t"
  by (simp add: service_run_def)

lemma service_run_trans [trans]:
  "service_run newId t t' \<Longrightarrow> service_run newId t' t'' \<Longrightarrow> service_run newId t t''"
  by (simp add: service_run_def)

lemma service_run_change: "service_change newId t t' \<Longrightarrow> service_run newId t t'"
  by (simp add: service_run_def r_into_rtranclp)

lemma jsmap_ok_service_run: "service_run newId t t' \<Longrightarrow> jsmap_ok t \<Longrightarrow> jsmap_ok t'"
  unfolding service_run_def
  by (induction rule: rtranclp_induct) (auto dest: jsmap_ok_service_change)

lemma admission_ok_service_run:
  "service_run newId t t' \<Longrightarrow> jsmap_ok t \<Longrightarrow> admission_ok t \<Longrightarrow> admission_ok t' \<and> jsmap_ok t'"
  unfolding service_run_def
  by (induction rule: rtranclp_induct)
    (auto dest: jsmap_ok_service_change admission_ok_service_change)

lemma service_run_row:
  assumes "service_run newId t t'" "jsmap_ok t" "map_of t' k = Some row'"
  shows "(\<exists>row. map_of t k = Some row \<and> row_kept row row') \<or>
    k = newId \<and> wu_runCount row' = 0 \<and> wakeup_ok row'"
  using assms unfolding service_run_def
proof (induction arbitrary: row' rule: rtranclp_induct)
  case (step y z)
  have ok: "jsmap_ok y"
    using step.hyps(1) step.prems(1) jsmap_ok_service_run by (simp add: service_run_def)
  from service_change_row [OF step.hyps(2) ok step.prems(2)] show ?case
  proof
    assume "\<exists>row. map_of y k = Some row \<and> row_kept row row'"
    then obtain row where row: "map_of y k = Some row" "row_kept row row'" by blast
    from step.IH [OF step.prems(1) row(1)] show ?case
    proof
      assume "\<exists>old. map_of t k = Some old \<and> row_kept old row"
      then show ?thesis using row(2) row_kept_trans by blast
    next
      assume "k = newId \<and> wu_runCount row = 0 \<and> wakeup_ok row"
      then show ?thesis using row(2) by (simp add: row_kept_def)
    qed
  next
    assume "new_row_ok newId k y row'"
    then show ?case by (simp add: new_row_ok_def)
  qed
qed auto

lemma cancel_run: "service_run newId t (fst (cancelSessionWakeup i c now t))"
  using sc_end [where status = WuCancelled and newId = newId and k = i and now = now and t = t
      and g = "\<lambda>row. wu_conversationId row = c"]
  unfolding cancelSessionWakeup_def active_in_def
  by (intro service_run_change) (simp add: conj_commute)

lemma cancel_each_run: "service_run newId (wd_wakeups db) (wd_wakeups (cancel_each ids c now db))"
proof -
  have "service_run newId t (fold (\<lambda>i t. fst (cancelSessionWakeup i c now t)) ids t)" for t
  proof (induction ids arbitrary: t)
    case (Cons i ids)
    show ?case using service_run_trans [OF cancel_run Cons.IH] by simp
  qed auto
  then show ?thesis by (simp add: cancel_each_def)
qed

text \<open>A parsed schedule makes a well-formed new wakeup.\<close>

lemma parsed_new_ok:
  "parsed_ok env p \<Longrightarrow> wi_schedule inp = ps_schedule p \<Longrightarrow> wi_nextRunAt inp = ps_firstRunAt p \<Longrightarrow>
   wi_maxRuns inp = ps_maxRuns p \<Longrightarrow> wi_until inp = ps_until p \<Longrightarrow> wakeup_ok (new_wakeup inp 0)"
  by (auto simp: parsed_ok_def wakeup_ok_def has_run_left_def until_ok_def cap_ok_def
      split: option.splits wakeup_schedule.splits)

lemma admit_run:
  assumes "admitSessionWakeup inp convs newId now t = Some (t', a)" "map_of t newId = None"
    "wakeup_ok (new_wakeup inp 0)"
  shows "service_run newId t t'"
proof -
  have "t' = t \<or> t' = insertSessionWakeup inp newId now t \<and> admissible_insert newId inp t"
    using assms
    by (auto simp: admitSessionWakeup_def admissible_insert_def Let_def find_None_iff list_all_iff
        split: if_splits option.splits)
  then show ?thesis using sc_insert service_run_change by blast
qed

lemma map_of_cancelled_None:
  "map_of t k = None \<Longrightarrow> map_of (fst (cancelSessionWakeup i c now t)) k = None"
  by (auto simp: cancelSessionWakeup_def map_of_update_where)

lemma cancel_each_None:
  "map_of (wd_wakeups db) k = None \<Longrightarrow> map_of (wd_wakeups (cancel_each ids c now db)) k = None"
proof -
  have "map_of t k = None \<Longrightarrow>
      map_of (fold (\<lambda>i t. fst (cancelSessionWakeup i c now t)) ids t) k = None" for t
    by (induction ids arbitrary: t) (auto simp: map_of_cancelled_None)
  then show "map_of (wd_wakeups db) k = None \<Longrightarrow> ?thesis" by (simp add: cancel_each_def)
qed

definition fresh_wakeup :: "string \<Rightarrow> wakeup_db \<Rightarrow> bool" where
  "fresh_wakeup newId db \<longleftrightarrow> map_of (wd_wakeups db) newId = None"

lemma create_run:
  assumes "createSessionWakeup env c u inp newId hinted db = Inr (db', r)" "fresh_wakeup newId db"
  shows "service_run newId (wd_wakeups db) (wd_wakeups db')"
proof -
  obtain parsed winp t a where
      parsed: "parseSessionWakeupSchedule
        (env\<lparr>we_defaultTimeZone := resolveSessionWakeupTimeZone env db\<rparr>) (cw_schedule inp) = Inr parsed"
    and admit: "admitSessionWakeup winp (map fst (wd_conversations db)) newId (we_now env)
        (wd_wakeups db) = Some (t, a)"
    and winp: "wi_schedule winp = ps_schedule parsed" "wi_nextRunAt winp = ps_firstRunAt parsed"
        "wi_maxRuns winp = ps_maxRuns parsed" "wi_until winp = ps_until parsed"
    and db': "wd_wakeups db' = wd_wakeups db \<or> wd_wakeups db' = t"
    using assms(1)
    by (fastforce simp: createSessionWakeup_def Let_def enqueueSessionWakeupFire_def
        split: if_splits sum.splits option.splits prod.splits admission.splits)
  have "service_run newId (wd_wakeups db) t"
    using admit assms(2) parsed_new_ok [OF parse_result_ok [OF parsed] winp]
    by (intro admit_run) (auto simp: fresh_wakeup_def)
  then show ?thesis using db' by auto
qed

lemma ensure_own_run:
  assumes "fresh_wakeup newId db"
  shows "service_run newId (wd_wakeups db)
    (wd_wakeups (fst (ensureOwnTaskFollowThroughWakeupForMode env c u voice only newId hinted db)))"
proof -
  have created: "service_run newId (wd_wakeups db) (wd_wakeups db2)"
    if "createSessionWakeup env c u inp newId hinted (cancel_each ids c now db) = Inr (db2, r)"
    for inp ids now db2 r
  proof -
    have "fresh_wakeup newId (cancel_each ids c now db)"
      using assms cancel_each_None by (simp add: fresh_wakeup_def)
    then have "service_run newId (wd_wakeups (cancel_each ids c now db)) (wd_wakeups db2)"
      using create_run [OF that] by simp
    then show ?thesis by (rule service_run_trans [OF cancel_each_run])
  qed
  show ?thesis
    by (auto simp: ensureOwnTaskFollowThroughWakeupForMode_def Let_def
        intro: cancel_each_run created split: sum.split)
qed

lemma cancel_for_run:
  "service_run newId (wd_wakeups db)
     (wd_wakeups (fst (cancelSessionWakeupForConversation c i now db)))"
  using cancel_run [of newId "wd_wakeups db" i c now]
  by (auto simp: cancelSessionWakeupForConversation_def split: prod.splits option.splits)

lemma manage_run:
  assumes "fresh_wakeup newId db"
  shows "service_run newId (wd_wakeups db)
    (wd_wakeups (fst (handleManageWakeupsToolCall env c u voice action newId hinted db)))"
proof (cases action)
  case (ManageCreate name prompt schedule policy internal)
  have created: "service_run newId (wd_wakeups db) (wd_wakeups (fst (created_result db
      (createSessionWakeup env c u inp newId hinted db))))" for inp
    using create_run [OF _ assms, of env c u inp hinted]
    by (auto simp: created_result_def split: sum.split)
  have own: "service_run newId (wd_wakeups db) (wd_wakeups db2)"
    if "ensureOwnTaskFollowThroughWakeupForMode env c u voice False newId hinted db = (db2, r)"
    for db2 r
    using ensure_own_run [OF assms, of env c u voice False hinted] that by simp
  show ?thesis
    using ManageCreate created
    by (auto simp: handleManageWakeupsToolCall_def Let_def dest: own
        split: prod.splits option.splits sum.splits)
next
  case (ManageCancel i)
  have "service_run newId (wd_wakeups db) (wd_wakeups db2)"
    if "cancelSessionWakeupForConversation c k now db = (db2, r)" for k now db2 r
    using cancel_for_run [of newId db c k now] that by simp
  then show ?thesis
    using ManageCancel
    by (auto simp: handleManageWakeupsToolCall_def split: prod.splits cancel_result.splits)
qed (auto simp: handleManageWakeupsToolCall_def)

subsection \<open>Recovery\<close>

text \<open>
  \<open>packages/sdk/src/server/lib/session-wakeups.ts\<close>: the sweep adds a job for every active row that is
  due or nearly due; \<open>failing\<close> says which additions fail.
\<close>

definition SESSION_WAKEUP_RECOVERY_LOOKAHEAD_MS :: ms where
  "SESSION_WAKEUP_RECOVERY_LOOKAHEAD_MS = 2 * 60000"

definition recoverPendingSessionWakeups ::
    "ms \<Rightarrow> (fire_job \<Rightarrow> bool) \<Rightarrow> wakeup_db \<Rightarrow> wakeup_db \<times> nat" where
  "recoverPendingSessionWakeups now failing db =
     fold (\<lambda>(i, nextRunAt) (db, recovered).
         case nextRunAt of
           None \<Rightarrow> (db, recovered)
         | Some t \<Rightarrow>
             let job = \<lparr>fj_wakeupId = i, fj_runAt = t\<rparr> in
             if failing job then (db, recovered)
             else (enqueueSessionWakeupFire job db, recovered + 1))
       (listDueSessionWakeups (now + SESSION_WAKEUP_RECOVERY_LOOKAHEAD_MS) None (wd_wakeups db))
       (db, 0)"

subsection \<open>Operations\<close>

datatype wakeup_op =
    OpManage schedule_env string string bool manage_action string bool
  | OpEnsureOwn schedule_env string string bool bool string bool
  | OpContinueGoal schedule_env string string string bool
  | OpCancelGoal string ms
  | OpCancelConversation string ms
  | OpCount string turn_outcome ms
  | OpRetire string ms
  | OpRecover ms "fire_job \<Rightarrow> bool"
  | OpAddConversation string "string option"
  | OpDeleteConversation string

definition delete_conversation :: "string \<Rightarrow> wakeup_db \<Rightarrow> wakeup_db" where
  "delete_conversation c db =
     db\<lparr>wd_conversations := AList.delete c (wd_conversations db),
        wd_wakeups := filter (\<lambda>(k, row). wu_conversationId row \<noteq> c) (wd_wakeups db)\<rparr>"

fun wakeup_op_step :: "wakeup_op \<Rightarrow> wakeup_db \<Rightarrow> wakeup_db" where
  "wakeup_op_step (OpManage env c u voice action newId hinted) db =
     fst (handleManageWakeupsToolCall env c u voice action newId hinted db)"
| "wakeup_op_step (OpEnsureOwn env c u voice only newId hinted) db =
     fst (ensureOwnTaskFollowThroughWakeupForMode env c u voice only newId hinted db)"
| "wakeup_op_step (OpContinueGoal env c u newId hinted) db =
     (case ensureSessionGoalContinuationWakeup env c u newId hinted db of
        Inl e \<Rightarrow> db | Inr (db', r) \<Rightarrow> db')"
| "wakeup_op_step (OpCancelGoal c now) db = cancelSessionGoalContinuationWakeups c now db"
| "wakeup_op_step (OpCancelConversation c now) db =
     db\<lparr>wd_wakeups := fst (cancelSessionWakeupsForConversation c now (wd_wakeups db))\<rparr>"
| "wakeup_op_step (OpCount i outcome now) db =
     db\<lparr>wd_wakeups := fst (record_count i outcome now (wd_wakeups db))\<rparr>"
| "wakeup_op_step (OpRetire i now) db =
     db\<lparr>wd_wakeups := fst (retire_wakeup i now (wd_wakeups db))\<rparr>"
| "wakeup_op_step (OpRecover now failing) db = fst (recoverPendingSessionWakeups now failing db)"
| "wakeup_op_step (OpAddConversation c user) db =
     db\<lparr>wd_conversations := AList.update c user (wd_conversations db)\<rparr>"
| "wakeup_op_step (OpDeleteConversation c) db = delete_conversation c db"

text \<open>The id an operation gives to a wakeup it creates.\<close>

fun op_newId :: "wakeup_op \<Rightarrow> string" where
  "op_newId (OpManage env c u voice action newId hinted) = newId"
| "op_newId (OpEnsureOwn env c u voice only newId hinted) = newId"
| "op_newId (OpContinueGoal env c u newId hinted) = newId"
| "op_newId opr = []"

fun op_creates :: "wakeup_op \<Rightarrow> bool" where
  "op_creates (OpManage env c u voice action newId hinted) = True"
| "op_creates (OpEnsureOwn env c u voice only newId hinted) = True"
| "op_creates (OpContinueGoal env c u newId hinted) = True"
| "op_creates opr = False"

lemma recover_wakeups [simp]:
  "wd_wakeups (fst (recoverPendingSessionWakeups now failing db)) = wd_wakeups db"
proof -
  have "wd_wakeups (fst (fold (\<lambda>(i, nextRunAt) (db, recovered).
         case nextRunAt of
           None \<Rightarrow> (db, recovered)
         | Some t \<Rightarrow>
             let job = \<lparr>fj_wakeupId = i, fj_runAt = t\<rparr> in
             if failing job then (db, recovered)
             else (enqueueSessionWakeupFire job db, recovered + 1)) xs (db, n))) = wd_wakeups db"
    for xs and n :: nat and db
    by (induction xs arbitrary: db n)
      (auto simp: Let_def enqueueSessionWakeupFire_def split: option.splits)
  then show ?thesis by (simp add: recoverPendingSessionWakeups_def)
qed

lemma wakeup_op_run:
  assumes "op_creates opr \<longrightarrow> fresh_wakeup (op_newId opr) db \<and> n = op_newId opr"
  shows "service_run n (wd_wakeups db) (wd_wakeups (wakeup_op_step opr db))"
proof (cases opr)
  case (OpContinueGoal env c u newId hinted)
  then show ?thesis
    using assms create_run
    by (auto simp: ensureSessionGoalContinuationWakeup_def split: sum.split)
next
  case (OpRetire i now)
  then show ?thesis
    using sc_end [where g = "\<lambda>row. True" and status = WuFailed and k = i and now = now]
    by (auto simp: retire_wakeup_def intro!: service_run_change)
next
  case (OpDeleteConversation c)
  then show ?thesis by (auto simp: delete_conversation_def intro!: service_run_change sc_delete)
next
  case (OpCancelGoal c now)
  then show ?thesis by (simp add: cancelSessionGoalContinuationWakeups_def cancel_each_run)
next
  case (OpCancelConversation c now)
  then show ?thesis
    by (auto simp: cancelSessionWakeupsForConversation_def intro!: service_run_change sc_end_all)
next
  case (OpCount i outcome now)
  then show ?thesis by (auto intro!: service_run_change sc_count)
next
  case (OpManage env c u voice action newId hinted)
  then show ?thesis using assms manage_run by simp
next
  case (OpEnsureOwn env c u voice only newId hinted)
  then show ?thesis using assms ensure_own_run by simp
qed auto

text \<open>The row of an id after an operation.\<close>

lemma wakeup_op_row:
  assumes "op_creates opr \<longrightarrow> fresh_wakeup (op_newId opr) db" "jsmap_ok (wd_wakeups db)"
    and "map_of (wd_wakeups (wakeup_op_step opr db)) k = Some row'"
  shows "(\<exists>row. map_of (wd_wakeups db) k = Some row \<and> row_kept row row') \<or>
    op_creates opr \<and> k = op_newId opr \<and> wu_runCount row' = 0 \<and> wakeup_ok row'"
proof (cases "op_creates opr")
  case True
  then show ?thesis
    using service_run_row [OF wakeup_op_run [of opr db "op_newId opr"] assms(2,3)] assms(1) by simp
next
  case False
  then show ?thesis
    using service_run_row [OF wakeup_op_run [of opr db "CHR ''x'' # k"] assms(2,3)] by simp
qed

end
