(* ===== verification/WakeupFiring.thy ===== *)
theory WakeupFiring
  imports SessionWakeups
begin

section \<open>Firing session wakeups\<close>

text \<open>
  \<open>fireSessionWakeup\<close> of \<open>packages/sdk/src/server/lib/session-wakeups.ts\<close>, as a worker that runs beside
  others. A worker reads the row, looks up the conversation, admits the event into the
  conversation's inbox, claims the occurrence, and adds the job of the next one; a conversation or
  user that is gone is counted as a failed turn instead. Each of these is one step, and the service,
  other workers and crashes come between any two.
\<close>

subsection \<open>Events\<close>

record wakeup_event =
  ev_eventId :: string
  ev_wakeupId :: string
  ev_name :: string
  ev_prompt :: string
  ev_runNumber :: nat
  ev_maxRuns :: "nat option"
  ev_firedAt :: ms
  ev_nextRunAt :: "ms option"
  ev_reportPolicy :: report_policy
  ev_createdByUserId :: string

definition event_id :: "string \<Rightarrow> nat \<Rightarrow> string" where
  "event_id wakeupId runNumber = wakeupId @ '':'' @ nat_str runNumber"

text \<open>The key names the wakeup and the run: the last colon separates them.\<close>

lemma nat_str_no_colon: "CHR '':'' \<notin> set (nat_str n)"
  using nat_str_digits [of n] by (auto simp: is_digit_def Let_def)

lemma event_id_inject [simp]: "event_id i m = event_id j n \<longleftrightarrow> i = j \<and> m = n"
proof
  assume eq: "event_id i m = event_id j n"
  have cut: "takeWhile (\<lambda>c. c \<noteq> CHR '':'') (rev (event_id k l)) = rev (nat_str l)" for k l
  proof -
    have "takeWhile (\<lambda>c. c \<noteq> CHR '':'') (rev (nat_str l) @ CHR '':'' # rev k) = rev (nat_str l)"
      using nat_str_no_colon [of l] by (subst takeWhile_append2) auto
    then show ?thesis by (simp add: event_id_def)
  qed
  have "rev (nat_str m) = rev (nat_str n)" using cut [of i m] cut [of j n] eq by simp
  then have "m = n" by simp
  with eq show "i = j \<and> m = n" by (simp add: event_id_def)
qed simp

text \<open>An event that is admitted again is the same event.\<close>

definition enqueueFastAgentParentEvent :: "wakeup_event \<Rightarrow> wakeup_event list \<Rightarrow> wakeup_event list" where
  "enqueueFastAgentParentEvent event events =
     (if list_ex (\<lambda>e. ev_eventId e = ev_eventId event) events then events else events @ [event])"

subsection \<open>Workers\<close>

datatype fire_kind = Delivered | NoConversation | NoActingUser

datatype fire_pc =
    AtLookup | AtAdmit string | AtClaim fire_kind | AtCount fire_kind | AtRetire fire_kind
  | AtEnqueue fire_kind

text \<open>The row as it was read, the occurrence it had, the time, the occurrence after it.\<close>

record fire_worker =
  fw_wakeupId :: string
  fw_row :: wakeup_row
  fw_due :: ms
  fw_firedAt :: ms
  fw_nextRunAt :: "ms option"
  fw_pc :: fire_pc

text \<open>\<open>wm_lost\<close> remembers the runs that were claimed although nobody could take the event.\<close>

record wakeup_machine =
  wm_db :: wakeup_db
  wm_events :: "wakeup_event list"
  wm_workers :: "fire_worker list"
  wm_lost :: "(string \<times> nat) list"

definition fw_runNumber :: "fire_worker \<Rightarrow> nat" where
  "fw_runNumber w = wu_runCount (fw_row w) + 1"

text \<open>The start: a missing or inactive row, or another occurrence, is skipped.\<close>

definition fire_read ::
    "(string \<Rightarrow> string \<Rightarrow> ms \<Rightarrow> ms option) \<Rightarrow> fire_job \<Rightarrow> ms \<Rightarrow> wakeups \<Rightarrow> fire_worker option" where
  "fire_read cronNext job firedAt t =
     (case getSessionWakeupById (fj_wakeupId job) t of
        None \<Rightarrow> None
      | Some row \<Rightarrow>
          if wu_status row \<noteq> WuActive \<or> wu_nextRunAt row = None then None
          else if the (wu_nextRunAt row) \<noteq> fj_runAt job then None
          else map_option (\<lambda>next. \<lparr>fw_wakeupId = fj_wakeupId job, fw_row = row,
                 fw_due = fj_runAt job, fw_firedAt = firedAt, fw_nextRunAt = next,
                 fw_pc = AtLookup\<rparr>)
                 (resolveSessionWakeupNextRun cronNext (wu_schedule row) firedAt
                   (wu_runCount row + 1) (wu_maxRuns row) (wu_until row)))"

definition worker_event :: "fire_worker \<Rightarrow> string \<Rightarrow> wakeup_event" where
  "worker_event w user =
     \<lparr>ev_eventId = event_id (fw_wakeupId w) (fw_runNumber w), ev_wakeupId = fw_wakeupId w,
      ev_name = wu_name (fw_row w), ev_prompt = wu_prompt (fw_row w),
      ev_runNumber = fw_runNumber w, ev_maxRuns = wu_maxRuns (fw_row w),
      ev_firedAt = fw_firedAt w, ev_nextRunAt = fw_nextRunAt w,
      ev_reportPolicy = wu_reportPolicy (fw_row w), ev_createdByUserId = user\<rparr>"

definition set_wakeups :: "wakeups \<Rightarrow> wakeup_machine \<Rightarrow> wakeup_machine" where
  "set_wakeups t m = m\<lparr>wm_db := (wm_db m)\<lparr>wd_wakeups := t\<rparr>\<rparr>"

abbreviation wm_wakeups :: "wakeup_machine \<Rightarrow> wakeups" where
  "wm_wakeups m \<equiv> wd_wakeups (wm_db m)"

text \<open>One step of a worker: what it does, and the worker after it, unless it is done.\<close>

definition lookup_pc :: "fire_worker \<Rightarrow> wakeup_machine \<Rightarrow> fire_pc" where
  "lookup_pc w m =
     (case map_of (wd_conversations (wm_db m)) (wu_conversationId (fw_row w)) of
        None \<Rightarrow> AtClaim NoConversation
      | Some user \<Rightarrow>
          let acting = nullish_or (nullish (wu_createdByUserId (fw_row w)) user) [] in
          if acting = [] then AtClaim NoActingUser else AtAdmit acting)"

definition claim_step ::
    "fire_kind \<Rightarrow> fire_worker \<Rightarrow> wakeup_machine \<Rightarrow> wakeup_machine \<times> fire_worker option" where
  "claim_step kind w m =
     (case claimSessionWakeupFire (fw_wakeupId w) (fw_due w)
             (if kind = NoActingUser then None else fw_nextRunAt w) (fw_firedAt w) (wm_wakeups m) of
        (t, claimed) \<Rightarrow>
          ((set_wakeups t m)\<lparr>wm_lost := (if claimed \<noteq> None \<and> kind \<noteq> Delivered
               then (fw_wakeupId w, fw_runNumber w) # wm_lost m else wm_lost m)\<rparr>,
           if kind \<noteq> Delivered then Some (w\<lparr>fw_pc := AtCount kind\<rparr>)
           else if claimed = None then None
           else Some (w\<lparr>fw_pc := AtEnqueue kind\<rparr>)))"

definition worker_step ::
    "ms \<Rightarrow> fire_worker \<Rightarrow> wakeup_machine \<Rightarrow> wakeup_machine \<times> fire_worker option" where
  "worker_step now w m =
     (case fw_pc w of
        AtLookup \<Rightarrow> (m, Some (w\<lparr>fw_pc := lookup_pc w m\<rparr>))
      | AtAdmit user \<Rightarrow>
          (m\<lparr>wm_events := enqueueFastAgentParentEvent (worker_event w user) (wm_events m)\<rparr>,
           Some (w\<lparr>fw_pc := AtClaim Delivered\<rparr>))
      | AtClaim kind \<Rightarrow> claim_step kind w m
      | AtCount kind \<Rightarrow>
          (case record_count (fw_wakeupId w) (TurnFailed (Some ''gone'')) now (wm_wakeups m) of
             (t, row) \<Rightarrow>
               (set_wakeups t m,
                Some (w\<lparr>fw_pc := (case row of
                    None \<Rightarrow> AtEnqueue kind
                  | Some row \<Rightarrow> if must_retire row then AtRetire kind else AtEnqueue kind)\<rparr>)))
      | AtRetire kind \<Rightarrow>
          (set_wakeups (fst (retire_wakeup (fw_wakeupId w) now (wm_wakeups m))) m,
           Some (w\<lparr>fw_pc := AtEnqueue kind\<rparr>))
      | AtEnqueue kind \<Rightarrow>
          (case fw_nextRunAt w of
             None \<Rightarrow> (m, None)
           | Some t \<Rightarrow>
               (if kind = NoActingUser then m
                else m\<lparr>wm_db := enqueueSessionWakeupFire
                         \<lparr>fj_wakeupId = fw_wakeupId w, fj_runAt = t\<rparr> (wm_db m)\<rparr>,
                None)))"

text \<open>A worker left alone is done after six steps.\<close>

fun run_worker :: "nat \<Rightarrow> ms \<Rightarrow> fire_worker \<Rightarrow> wakeup_machine \<Rightarrow> wakeup_machine \<times> fire_worker option"
where
  "run_worker 0 now w m = (m, Some w)"
| "run_worker (Suc n) now w m =
     (case worker_step now w m of
        (m', None) \<Rightarrow> (m', None)
      | (m', Some w') \<Rightarrow> run_worker n now w' m')"

definition fireSessionWakeup ::
    "(string \<Rightarrow> string \<Rightarrow> ms \<Rightarrow> ms option) \<Rightarrow> fire_job \<Rightarrow> ms \<Rightarrow> wakeup_machine \<Rightarrow> wakeup_machine" where
  "fireSessionWakeup cronNext job firedAt m =
     (case fire_read cronNext job firedAt (wm_wakeups m) of
        None \<Rightarrow> m
      | Some w \<Rightarrow> fst (run_worker 6 firedAt w m))"

subsection \<open>The system\<close>

definition remove_nth :: "nat \<Rightarrow> 'a list \<Rightarrow> 'a list" where
  "remove_nth i xs = take i xs @ drop (Suc i) xs"

definition fresh_id :: "string \<Rightarrow> wakeup_machine \<Rightarrow> bool" where
  "fresh_id newId m \<longleftrightarrow>
     map_of (wm_wakeups m) newId = None \<and> newId \<notin> fw_wakeupId ` set (wm_workers m) \<and>
     newId \<notin> ev_wakeupId ` set (wm_events m) \<and> newId \<notin> fst ` set (wm_lost m)"

text \<open>
  A delayed job is not run before its time: the time a worker reads is at or after the occurrence
  of its job. The same job may be run any number of times.
\<close>

inductive wakeup_step ::
    "(string \<Rightarrow> string \<Rightarrow> ms \<Rightarrow> ms option) \<Rightarrow> wakeup_machine \<Rightarrow> wakeup_machine \<Rightarrow> bool"
  for cronNext where
  ws_service: "op_creates opr \<longrightarrow> fresh_id (op_newId opr) m \<Longrightarrow>
    wakeup_step cronNext m (m\<lparr>wm_db := wakeup_op_step opr (wm_db m)\<rparr>)"
| ws_read: "job \<in> set (wd_jobs (wm_db m)) \<Longrightarrow> fj_runAt job \<le> firedAt \<Longrightarrow>
    fire_read cronNext job firedAt (wm_wakeups m) = Some w \<Longrightarrow>
    wakeup_step cronNext m (m\<lparr>wm_workers := w # wm_workers m\<rparr>)"
| ws_work: "i < length (wm_workers m) \<Longrightarrow> worker_step now (wm_workers m ! i) m = (m', Some w) \<Longrightarrow>
    wakeup_step cronNext m (m'\<lparr>wm_workers := (wm_workers m)[i := w]\<rparr>)"
| ws_done: "i < length (wm_workers m) \<Longrightarrow> worker_step now (wm_workers m ! i) m = (m', None) \<Longrightarrow>
    wakeup_step cronNext m (m'\<lparr>wm_workers := remove_nth i (wm_workers m)\<rparr>)"
| ws_crash: "wakeup_step cronNext m (m\<lparr>wm_workers := remove_nth i (wm_workers m)\<rparr>)"
| ws_job_removed: "wakeup_step cronNext m (m\<lparr>wm_db := (wm_db m)\<lparr>wd_jobs := removeAll job (wd_jobs (wm_db m))\<rparr>\<rparr>)"

definition empty_machine :: wakeup_machine where
  "empty_machine =
     \<lparr>wm_db = \<lparr>wd_conversations = [], wd_timeZone = None, wd_wakeups = [], wd_jobs = []\<rparr>,
      wm_events = [], wm_workers = [], wm_lost = []\<rparr>"

inductive reachable_wakeups ::
    "(string \<Rightarrow> string \<Rightarrow> ms \<Rightarrow> ms option) \<Rightarrow> wakeup_machine \<Rightarrow> bool" for cronNext where
  rw_start: "reachable_wakeups cronNext empty_machine"
| rw_step: "reachable_wakeups cronNext m \<Longrightarrow> wakeup_step cronNext m m' \<Longrightarrow>
    reachable_wakeups cronNext m'"

subsection \<open>One occurrence, one run\<close>

text \<open>The next occurrence of a cron expression lies after the time it is asked for.\<close>

definition cron_forward :: "(string \<Rightarrow> string \<Rightarrow> ms \<Rightarrow> ms option) \<Rightarrow> bool" where
  "cron_forward cronNext \<longleftrightarrow> (\<forall>e tz a b. cronNext e tz a = Some b \<longrightarrow> a < b)"

text \<open>What a step makes of the row of an id: at most one more run, and then a later occurrence.\<close>

definition row_evolves :: "wakeup_row \<Rightarrow> wakeup_row \<Rightarrow> bool" where
  "row_evolves row row' \<longleftrightarrow>
     same_wakeup row row' \<and> (wakeup_ok row \<longrightarrow> wakeup_ok row') \<and>
     (wu_runCount row' = wu_runCount row \<and> wu_nextRunAt row' \<in> {wu_nextRunAt row, None} \<or>
      wu_runCount row' = wu_runCount row + 1 \<and>
        (case (wu_nextRunAt row, wu_nextRunAt row') of
           (Some d, Some t) \<Rightarrow> d < t | (None, _) \<Rightarrow> False | _ \<Rightarrow> True))"

lemma row_kept_evolves: "row_kept row row' \<Longrightarrow> row_evolves row row'"
  by (auto simp: row_kept_def row_evolves_def)

text \<open>A worker against the row as it now is.\<close>

definition seen_row :: "fire_worker \<Rightarrow> wakeup_row \<Rightarrow> bool" where
  "seen_row w row \<longleftrightarrow>
     same_wakeup (fw_row w) row \<and> wu_runCount (fw_row w) \<le> wu_runCount row \<and>
     (if wu_runCount row = wu_runCount (fw_row w) then wu_nextRunAt row \<in> {None, Some (fw_due w)}
      else case wu_nextRunAt row of None \<Rightarrow> True | Some t \<Rightarrow> fw_due w < t)"

definition snapshot_ok :: "(string \<Rightarrow> string \<Rightarrow> ms \<Rightarrow> ms option) \<Rightarrow> fire_worker \<Rightarrow> bool" where
  "snapshot_ok cronNext w \<longleftrightarrow>
     wakeup_ok (fw_row w) \<and> wu_status (fw_row w) = WuActive \<and>
     wu_nextRunAt (fw_row w) = Some (fw_due w) \<and> fw_due w \<le> fw_firedAt w \<and>
     resolveSessionWakeupNextRun cronNext (wu_schedule (fw_row w)) (fw_firedAt w)
       (wu_runCount (fw_row w) + 1) (wu_maxRuns (fw_row w)) (wu_until (fw_row w)) =
       Some (fw_nextRunAt w)"

definition admitted :: "string \<Rightarrow> nat \<Rightarrow> wakeup_event list \<Rightarrow> bool" where
  "admitted i n events \<longleftrightarrow> event_id i n \<in> ev_eventId ` set events"

definition coherent ::
    "(string \<Rightarrow> string \<Rightarrow> ms \<Rightarrow> ms option) \<Rightarrow> wakeups \<Rightarrow> wakeup_event list \<Rightarrow> fire_worker \<Rightarrow> bool" where
  "coherent cronNext t events w \<longleftrightarrow>
     snapshot_ok cronNext w \<and> row_all (fw_wakeupId w) (seen_row w) t \<and>
     (fw_pc w = AtClaim Delivered \<longrightarrow>
        admitted (fw_wakeupId w) (fw_runNumber w) events)"

definition within_runs :: "nat \<Rightarrow> wakeup_row \<Rightarrow> bool" where
  "within_runs n row \<longleftrightarrow>
     n \<le> wu_runCount row + 1 \<and> (case wu_maxRuns row of None \<Rightarrow> True | Some m \<Rightarrow> n \<le> m) \<and>
     (case wu_schedule row of Once at delay \<Rightarrow> n \<le> 1 | _ \<Rightarrow> True)"

definition event_ok :: "wakeups \<Rightarrow> wakeup_event \<Rightarrow> bool" where
  "event_ok t ev \<longleftrightarrow>
     ev_eventId ev = event_id (ev_wakeupId ev) (ev_runNumber ev) \<and> 1 \<le> ev_runNumber ev \<and>
     row_all (ev_wakeupId ev) (within_runs (ev_runNumber ev)) t"

definition runs_accounted :: "wakeups \<Rightarrow> wakeup_event list \<Rightarrow> (string \<times> nat) list \<Rightarrow> bool" where
  "runs_accounted t events lost \<longleftrightarrow>
     (\<forall>k row n. map_of t k = Some row \<longrightarrow> 1 \<le> n \<longrightarrow> n \<le> wu_runCount row \<longrightarrow>
        admitted k n events \<or> (k, n) \<in> set lost)"

definition wakeups_ok ::
    "(string \<Rightarrow> string \<Rightarrow> ms \<Rightarrow> ms option) \<Rightarrow> wakeup_machine \<Rightarrow> bool" where
  "wakeups_ok cronNext m \<longleftrightarrow>
     jsmap_ok (wm_wakeups m) \<and> rows_all wakeup_ok (wm_wakeups m) \<and> admission_ok (wm_wakeups m) \<and>
     (\<forall>w \<in> set (wm_workers m). coherent cronNext (wm_wakeups m) (wm_events m) w) \<and>
     (\<forall>ev \<in> set (wm_events m). event_ok (wm_wakeups m) ev) \<and>
     distinct (map ev_eventId (wm_events m)) \<and>
     runs_accounted (wm_wakeups m) (wm_events m) (wm_lost m)"

lemma seen_row_evolves: "row_evolves row row' \<Longrightarrow> seen_row w row \<Longrightarrow> seen_row w row'"
  by (auto simp: row_evolves_def seen_row_def same_wakeup_def split: option.splits if_splits)

lemma within_runs_evolves: "row_evolves row row' \<Longrightarrow> within_runs n row \<Longrightarrow> within_runs n row'"
  by (auto simp: row_evolves_def within_runs_def same_wakeup_def split: option.splits
      wakeup_schedule.splits)

lemma next_run_facts:
  assumes "resolveSessionWakeupNextRun cronNext (wu_schedule row) firedAt (wu_runCount row + 1)
      (wu_maxRuns row) (wu_until row) = Some (Some t)"
    and "cron_forward cronNext" "wakeup_ok row"
  shows "firedAt < t \<and> (case wu_until row of None \<Rightarrow> True | Some u \<Rightarrow> t \<le> u) \<and>
    (case wu_maxRuns row of None \<Rightarrow> True | Some m \<Rightarrow> wu_runCount row + 1 < m) \<and>
    (case wu_schedule row of Once at d \<Rightarrow> False | _ \<Rightarrow> True)"
  using assms
  by (cases "wu_schedule row")
    (auto simp: resolveSessionWakeupNextRun_def computeNextSessionWakeupRunAt_def cron_forward_def
      wakeup_ok_def has_run_left_def split: option.splits if_splits)

definition rows_evolve :: "string set \<Rightarrow> wakeups \<Rightarrow> wakeups \<Rightarrow> bool" where
  "rows_evolve fresh t t' \<longleftrightarrow>
     (\<forall>k row'. map_of t' k = Some row' \<longrightarrow>
        (\<exists>row. map_of t k = Some row \<and> row_evolves row row') \<or>
        k \<in> fresh \<and> wu_runCount row' = 0 \<and> wakeup_ok row')"

lemma rows_evolve_all:
  assumes "rows_evolve F t t'" "k \<notin> F" "row_all k p t" "\<And>row row'. row_evolves row row' \<Longrightarrow> p row \<Longrightarrow> p row'"
  shows "row_all k p t'"
  using assms unfolding row_all_def rows_evolve_def by blast

lemma rows_evolve_ok:
  "rows_evolve F t t' \<Longrightarrow> rows_all wakeup_ok t \<Longrightarrow> rows_all wakeup_ok t'"
  unfolding rows_evolve_def rows_all_def row_all_def row_evolves_def by blast

lemma coherent_evolve:
  "rows_evolve F t t' \<Longrightarrow> fw_wakeupId w \<notin> F \<Longrightarrow> coherent cronNext t events w \<Longrightarrow>
   coherent cronNext t' events w"
  unfolding coherent_def using rows_evolve_all [of F t t' "fw_wakeupId w" "seen_row w"] seen_row_evolves
  by blast

lemma event_ok_evolve:
  "rows_evolve F t t' \<Longrightarrow> ev_wakeupId ev \<notin> F \<Longrightarrow> event_ok t ev \<Longrightarrow> event_ok t' ev"
  unfolding event_ok_def
  using rows_evolve_all [of F t t' "ev_wakeupId ev" "within_runs (ev_runNumber ev)"]
    within_runs_evolves by blast

lemma coherent_events:
  "coherent cronNext t events w \<Longrightarrow> set (map ev_eventId events) \<subseteq> set (map ev_eventId events') \<Longrightarrow>
   coherent cronNext t events' w"
  by (auto simp: coherent_def admitted_def)

text \<open>A claim that succeeds is of the occurrence the worker read, and of the run after the last.\<close>

definition claimed_row :: "ms option \<Rightarrow> ms \<Rightarrow> wakeup_row \<Rightarrow> wakeup_row" where
  "claimed_row nextRunAt firedAt row =
     row\<lparr>wu_runCount := wu_runCount row + 1, wu_lastFiredAt := Some firedAt,
         wu_nextRunAt := nextRunAt,
         wu_status := (if nextRunAt = None then WuCompleted else wu_status row),
         wu_completedAt := (if nextRunAt = None then Some firedAt else wu_completedAt row),
         wu_updatedAt := firedAt\<rparr>"

lemma claimed_row_fields [simp]:
  "wu_runCount (claimed_row n f row) = wu_runCount row + 1"
  "wu_nextRunAt (claimed_row n f row) = n"
  "wu_status (claimed_row n f row) = (if n = None then WuCompleted else wu_status row)"
  "wu_completedAt (claimed_row n f row) = (if n = None then Some f else wu_completedAt row)"
  "wu_maxRuns (claimed_row n f row) = wu_maxRuns row" "wu_until (claimed_row n f row) = wu_until row"
  "wu_schedule (claimed_row n f row) = wu_schedule row"
  "same_wakeup row (claimed_row n f row)"
  by (simp_all add: claimed_row_def same_wakeup_def)

lemma claim_unfold:
  "claimSessionWakeupFire i due nextRunAt firedAt t =
     update_where i (\<lambda>row. wu_status row = WuActive \<and> wu_nextRunAt row = Some due)
       (claimed_row nextRunAt firedAt) t"
  unfolding claimSessionWakeupFire_def claimed_row_def [abs_def] by (rule refl)

lemma claimed_row_ok:
  assumes "snapshot_ok cronNext w" "seen_row w row" "wakeup_ok row" "cron_forward cronNext"
    and "wu_status row = WuActive" "wu_nextRunAt row = Some (fw_due w)"
    and "next = None \<or> next = fw_nextRunAt w"
  shows "wu_runCount row = wu_runCount (fw_row w)"
    and "row_evolves row (claimed_row next (fw_firedAt w) row)"
proof -
  show rc: "wu_runCount row = wu_runCount (fw_row w)"
    using assms(2,6) by (auto simp: seen_row_def split: if_splits)
  have same: "same_wakeup (fw_row w) row" using assms(2) by (simp add: seen_row_def)
  show "row_evolves row (claimed_row next (fw_firedAt w) row)"
  proof (cases "next")
    case None
    then show ?thesis
      using assms(3,5,6)
      by (auto simp: row_evolves_def wakeup_ok_def has_run_left_def
          split: option.splits wakeup_schedule.splits)
  next
    case (Some t)
    have "resolveSessionWakeupNextRun cronNext (wu_schedule row) (fw_firedAt w) (wu_runCount row + 1)
        (wu_maxRuns row) (wu_until row) = Some (Some t)"
      using assms(1,7) Some same rc by (simp add: snapshot_ok_def same_wakeup_def)
    note next_run_facts [OF this assms(4,3)]
    moreover have "fw_due w \<le> fw_firedAt w" using assms(1) by (simp add: snapshot_ok_def)
    ultimately show ?thesis
      using assms(3,5,6) Some
      by (auto simp: row_evolves_def wakeup_ok_def has_run_left_def
          split: option.splits wakeup_schedule.splits)
  qed
qed

lemma claim_evolves:
  assumes "claimSessionWakeupFire (fw_wakeupId w) (fw_due w) next (fw_firedAt w) t = (t', res)"
    and "coherent cronNext t events w" "rows_all wakeup_ok t" "cron_forward cronNext"
    and "next = None \<or> next = fw_nextRunAt w"
  shows "rows_evolve {} t t'"
    and "res = None \<Longrightarrow> t' = t"
    and "res \<noteq> None \<Longrightarrow> \<exists>row. map_of t (fw_wakeupId w) = Some row \<and>
      wu_runCount row + 1 = fw_runNumber w \<and> wu_status row = WuActive \<and>
      map_of t' (fw_wakeupId w) = Some (claimed_row next (fw_firedAt w) row) \<and>
      (\<forall>k. k \<noteq> fw_wakeupId w \<longrightarrow> map_of t' k = map_of t k)"
proof -
  let ?p = "\<lambda>row. wu_status row = WuActive \<and> wu_nextRunAt row = Some (fw_due w)"
  have u: "update_where (fw_wakeupId w) ?p (claimed_row next (fw_firedAt w)) t = (t', res)"
    using assms(1) by (simp add: claim_unfold)
  have facts: "wu_runCount row = wu_runCount (fw_row w) \<and>
      row_evolves row (claimed_row next (fw_firedAt w) row)"
    if "map_of t (fw_wakeupId w) = Some row" "?p row" for row
    using claimed_row_ok [of cronNext w row] that assms(2-5)
    by (auto simp: coherent_def row_all_def rows_all_def)
  have at: "map_of t' k = (if k = fw_wakeupId w \<and> (\<exists>row. map_of t (fw_wakeupId w) = Some row \<and> ?p row)
      then map_option (claimed_row next (fw_firedAt w)) (map_of t (fw_wakeupId w)) else map_of t k)" for k
    using map_of_update_where [of "fw_wakeupId w" ?p "claimed_row next (fw_firedAt w)" t k] u by simp
  show "rows_evolve {} t t'"
    unfolding rows_evolve_def using facts row_kept_evolves [OF row_kept_refl]
    by (auto simp: at split: if_splits)
  show "t' = t" if "res = None"
    using u that by (auto simp: update_where_def split: option.splits if_splits)
  show "\<exists>row. map_of t (fw_wakeupId w) = Some row \<and>
      wu_runCount row + 1 = fw_runNumber w \<and> wu_status row = WuActive \<and>
      map_of t' (fw_wakeupId w) = Some (claimed_row next (fw_firedAt w) row) \<and>
      (\<forall>k. k \<noteq> fw_wakeupId w \<longrightarrow> map_of t' k = map_of t k)" if won: "res \<noteq> None"
  proof -
    obtain row where row: "map_of t (fw_wakeupId w) = Some row" "?p row"
      using u won by (auto simp: update_where_def split: option.splits if_splits)
    then show ?thesis using facts [OF row] by (auto simp: at fw_runNumber_def)
  qed
qed

subsection \<open>The invariant\<close>

lemma set_wakeups_fields [simp]:
  "wm_wakeups (set_wakeups t m) = t" "wm_events (set_wakeups t m) = wm_events m"
  "wm_workers (set_wakeups t m) = wm_workers m" "wm_lost (set_wakeups t m) = wm_lost m"
  by (simp_all add: set_wakeups_def)

lemma wakeups_ok_table:
  assumes "wakeups_ok cronNext m" "rows_evolve F (wm_wakeups m) t'" "jsmap_ok t'" "admission_ok t'"
    and "F \<inter> (fw_wakeupId ` set (wm_workers m) \<union> ev_wakeupId ` set (wm_events m)) = {}"
    and "runs_accounted t' (wm_events m) (wm_lost m')"
    and "wm_wakeups m' = t'" "wm_events m' = wm_events m" "wm_workers m' = wm_workers m"
  shows "wakeups_ok cronNext m'"
proof -
  note ok = assms(1) [unfolded wakeups_ok_def]
  have "rows_all wakeup_ok t'"
    using assms(2) ok rows_evolve_ok by blast
  moreover have "\<forall>w \<in> set (wm_workers m). coherent cronNext t' (wm_events m) w"
    using assms(2,5) ok coherent_evolve by blast
  moreover have "\<forall>ev \<in> set (wm_events m). event_ok t' ev"
    using assms(2,5) ok event_ok_evolve by blast
  ultimately show ?thesis
    unfolding wakeups_ok_def assms(7-9) using assms(3,4,6) ok by blast
qed

lemma kept_evolve:
  "(\<And>k row'. map_of t' k = Some row' \<Longrightarrow> \<exists>row. map_of t k = Some row \<and> row_kept row row') \<Longrightarrow>
   rows_evolve {} t t'"
  unfolding rows_evolve_def using row_kept_evolves by blast

lemma kept_accounted:
  assumes "runs_accounted t events lost"
    and "\<And>k row'. map_of t' k = Some row' \<Longrightarrow>
      (\<exists>row. map_of t k = Some row \<and> row_kept row row') \<or> wu_runCount row' = 0"
  shows "runs_accounted t' events lost"
  unfolding runs_accounted_def
proof (intro allI impI)
  fix k row' n
  assume a: "map_of t' k = Some row'" "1 \<le> n" "n \<le> wu_runCount row'"
  then obtain row where "map_of t k = Some row" "row_kept row row'"
    using assms(2) by fastforce
  then show "admitted k n events \<or> (k, n) \<in> set lost"
    using assms(1) a(2,3) by (auto simp: runs_accounted_def row_kept_def)
qed

lemma service_change_kept:
  assumes "service_change n t t'" "jsmap_ok t" "map_of t' k = Some row'" "k \<noteq> n"
  shows "\<exists>row. map_of t k = Some row \<and> row_kept row row'"
  using service_change_row [OF assms(1-3)] assms(4) by (auto simp: new_row_ok_def)

text \<open>A statement on rows that makes no new one, such as the count of a failure.\<close>

lemma wakeups_ok_statement:
  assumes "wakeups_ok cronNext m" "\<And>n. service_change n (wm_wakeups m) t'"
  shows "wakeups_ok cronNext (set_wakeups t' m)" "rows_evolve {} (wm_wakeups m) t'"
proof -
  have ok: "jsmap_ok (wm_wakeups m)" "admission_ok (wm_wakeups m)"
    using assms(1) by (simp_all add: wakeups_ok_def)
  have kept: "\<exists>row. map_of (wm_wakeups m) k = Some row \<and> row_kept row row'"
    if "map_of t' k = Some row'" for k row'
    using service_change_kept [OF assms(2) [of "CHR ''x'' # k"] ok(1) that] by simp
  show ev: "rows_evolve {} (wm_wakeups m) t'" by (rule kept_evolve [OF kept])
  show "wakeups_ok cronNext (set_wakeups t' m)"
  proof (rule wakeups_ok_table [OF assms(1) ev])
    show "jsmap_ok t'" using assms(2) ok(1) by (rule jsmap_ok_service_change)
    show "admission_ok t'" using assms(2) ok by (rule admission_ok_service_change)
    show "runs_accounted t' (wm_events m) (wm_lost (set_wakeups t' m))"
    proof -
      have "runs_accounted (wm_wakeups m) (wm_events m) (wm_lost m)"
        using assms(1) by (simp add: wakeups_ok_def)
      then show ?thesis
        unfolding set_wakeups_fields by (rule kept_accounted) (rule disjI1, rule kept)
    qed
  qed simp_all
qed

lemma admit_ok:
  assumes "wakeups_ok cronNext m" "coherent cronNext (wm_wakeups m) (wm_events m) w"
  shows "wakeups_ok cronNext
      (m\<lparr>wm_events := enqueueFastAgentParentEvent (worker_event w user) (wm_events m)\<rparr>)"
    and "admitted (fw_wakeupId w) (fw_runNumber w)
      (enqueueFastAgentParentEvent (worker_event w user) (wm_events m))"
proof -
  let ?ev = "worker_event w user"
  let ?events = "enqueueFastAgentParentEvent ?ev (wm_events m)"
  have snap: "wakeup_ok (fw_row w)" "wu_status (fw_row w) = WuActive"
      "row_all (fw_wakeupId w) (seen_row w) (wm_wakeups m)"
    using assms(2) by (auto simp: coherent_def snapshot_ok_def)
  have "seen_row w row \<Longrightarrow> within_runs (fw_runNumber w) row" for row
    using snap(1,2)
    by (auto simp: seen_row_def same_wakeup_def within_runs_def fw_runNumber_def wakeup_ok_def
        has_run_left_def split: option.splits wakeup_schedule.splits)
  then have new: "event_ok (wm_wakeups m) ?ev"
    using snap(3) by (auto simp: event_ok_def worker_event_def fw_runNumber_def row_all_def)
  have more: "set (map ev_eventId (wm_events m)) \<subseteq> set (map ev_eventId ?events)"
    by (auto simp: enqueueFastAgentParentEvent_def)
  have "set ?events \<subseteq> insert ?ev (set (wm_events m))"
    by (auto simp: enqueueFastAgentParentEvent_def)
  moreover have "distinct (map ev_eventId ?events)"
    using assms(1) by (auto simp: enqueueFastAgentParentEvent_def wakeups_ok_def list_ex_iff)
  moreover have "runs_accounted (wm_wakeups m) ?events (wm_lost m)"
    using assms(1) more unfolding wakeups_ok_def runs_accounted_def admitted_def
    by (simp add: subset_iff) blast
  ultimately show "wakeups_ok cronNext (m\<lparr>wm_events := ?events\<rparr>)"
    using assms(1) new more coherent_events unfolding wakeups_ok_def by auto
  show "admitted (fw_wakeupId w) (fw_runNumber w) ?events"
    by (auto simp: admitted_def enqueueFastAgentParentEvent_def worker_event_def list_ex_iff
        intro: rev_image_eqI)
qed

lemma seen_row_moves [simp]: "seen_row (w\<lparr>fw_pc := pc\<rparr>) = seen_row w"
  by (rule ext) (simp add: seen_row_def split: option.split)

lemma fw_moves [simp]:
  "snapshot_ok cronNext (w\<lparr>fw_pc := pc\<rparr>) = snapshot_ok cronNext w"
  "fw_runNumber (w\<lparr>fw_pc := pc\<rparr>) = fw_runNumber w"
  by (simp_all add: snapshot_ok_def fw_runNumber_def)

lemma coherent_moves:
  "coherent cronNext t events w \<Longrightarrow>
   (pc = AtClaim Delivered \<longrightarrow> admitted (fw_wakeupId w) (fw_runNumber w) events) \<Longrightarrow>
   coherent cronNext t events (w\<lparr>fw_pc := pc\<rparr>)"
  by (simp add: coherent_def)

lemma claim_ok:
  assumes ok: "wakeups_ok cronNext m" and co: "coherent cronNext (wm_wakeups m) (wm_events m) w"
    and cron: "cron_forward cronNext"
    and c: "claimSessionWakeupFire (fw_wakeupId w) (fw_due w) next (fw_firedAt w) (wm_wakeups m) = (t', res)"
    and nxt: "next = None \<or> next = fw_nextRunAt w"
    and m': "m' = (set_wakeups t' m)\<lparr>wm_lost := lost\<rparr>"
    and lost: "set (wm_lost m) \<subseteq> set lost"
    and run: "res \<noteq> None \<longrightarrow> admitted (fw_wakeupId w) (fw_runNumber w) (wm_events m) \<or>
        (fw_wakeupId w, fw_runNumber w) \<in> set lost"
  shows "wakeups_ok cronNext m'" and "coherent cronNext t' (wm_events m) w"
proof -
  have rows: "jsmap_ok (wm_wakeups m)" "rows_all wakeup_ok (wm_wakeups m)"
      "admission_ok (wm_wakeups m)" "runs_accounted (wm_wakeups m) (wm_events m) (wm_lost m)"
    using ok by (simp_all add: wakeups_ok_def)
  note ev = claim_evolves [OF c co rows(2) cron nxt]
  show "coherent cronNext t' (wm_events m) w"
    using coherent_evolve [OF ev(1) _ co] by simp
  have ok': "jsmap_ok t'"
    using c rows(1) jsmap_ok_update_where by (metis claim_unfold fst_conv)
  have shrink: "shrinks (wm_wakeups m) t'"
  proof (cases "res = None")
    case True
    then show ?thesis using ev(2) by (auto simp: shrinks_def same_wakeup_def)
  next
    case False
    from ev(3) [OF this] show ?thesis
      unfolding shrinks_def
      by (metis claimed_row_fields(8) option.inject same_wakeup_def)
  qed
  have "runs_accounted t' (wm_events m) lost"
    unfolding runs_accounted_def
  proof (intro allI impI)
    fix k row' n
    assume a: "map_of t' k = Some row'" "1 \<le> n" "n \<le> wu_runCount row'"
    have old: "admitted k n (wm_events m) \<or> (k, n) \<in> set lost"
      if "map_of (wm_wakeups m) k = Some row" "n \<le> wu_runCount row" for row
      using rows(4) that a(2) lost unfolding runs_accounted_def by blast
    show "admitted k n (wm_events m) \<or> (k, n) \<in> set lost"
    proof (cases "res = None")
      case True
      then show ?thesis using ev(2) a old by simp
    next
      case False
      from ev(3) [OF this] obtain row where r: "map_of (wm_wakeups m) (fw_wakeupId w) = Some row"
          "wu_runCount row + 1 = fw_runNumber w"
          "map_of t' (fw_wakeupId w) = Some (claimed_row next (fw_firedAt w) row)"
          "\<forall>k. k \<noteq> fw_wakeupId w \<longrightarrow> map_of t' k = map_of (wm_wakeups m) k"
        by blast
      show ?thesis
      proof (cases "k = fw_wakeupId w \<and> n = fw_runNumber w")
        case True
        then show ?thesis using run False by blast
      next
        case other: False
        show ?thesis
        proof (cases "k = fw_wakeupId w")
          case True
          then have "n \<le> wu_runCount row" using a(1,3) other r(2,3) by auto
          then show ?thesis using old r(1) True by blast
        next
          case False
          then show ?thesis using a(1,3) r(4) old by auto
        qed
      qed
    qed
  qed
  then show "wakeups_ok cronNext m'"
    using ok ok' ev(1) admission_ok_shrinks [OF rows(3,1) ok' shrink]
    by (intro wakeups_ok_table [of cronNext m "{}" t' m']) (simp_all add: m')
qed

lemma count_is_change: "service_change n t (fst (record_count i outcome now t))"
  by (rule sc_count)

lemma retire_is_change: "service_change n t (fst (retire_wakeup i now t))"
  using sc_end [where g = "\<lambda>row. True" and status = WuFailed and k = i and now = now]
  by (simp add: retire_wakeup_def)

lemma worker_step_ok:
  assumes ok: "wakeups_ok cronNext m" and co: "coherent cronNext (wm_wakeups m) (wm_events m) w"
    and cron: "cron_forward cronNext" and step: "worker_step now w m = (m', w')"
  shows "wakeups_ok cronNext m' \<and> wm_workers m' = wm_workers m \<and>
    (case w' of None \<Rightarrow> True | Some w2 \<Rightarrow> coherent cronNext (wm_wakeups m') (wm_events m') w2)"
proof (cases "fw_pc w")
  case AtLookup
  have "lookup_pc w m \<noteq> AtClaim Delivered"
    by (auto simp: lookup_pc_def Let_def split: option.splits)
  then show ?thesis using step ok co AtLookup by (auto simp: worker_step_def intro: coherent_moves)
next
  case (AtAdmit user)
  let ?events = "enqueueFastAgentParentEvent (worker_event w user) (wm_events m)"
  have "coherent cronNext (wm_wakeups m) ?events (w\<lparr>fw_pc := AtClaim Delivered\<rparr>)"
    using admit_ok(2) [OF ok co, of user]
    by (intro coherent_moves coherent_events [OF co]) (auto simp: enqueueFastAgentParentEvent_def)
  then show ?thesis
    using step admit_ok(1) [OF ok co, of user] AtAdmit by (auto simp: worker_step_def)
next
  case (AtClaim kind)
  obtain t' res where c: "claimSessionWakeupFire (fw_wakeupId w) (fw_due w)
      (if kind = NoActingUser then None else fw_nextRunAt w) (fw_firedAt w) (wm_wakeups m) = (t', res)"
    by fastforce
  define lost where "lost = (if res \<noteq> None \<and> kind \<noteq> Delivered
    then (fw_wakeupId w, fw_runNumber w) # wm_lost m else wm_lost m)"
  have m': "m' = (set_wakeups t' m)\<lparr>wm_lost := lost\<rparr>"
      and w': "w' = (if kind \<noteq> Delivered then Some (w\<lparr>fw_pc := AtCount kind\<rparr>)
        else if res = None then None else Some (w\<lparr>fw_pc := AtEnqueue kind\<rparr>))"
    using step AtClaim c by (auto simp: worker_step_def claim_step_def lost_def)
  have adm: "kind = Delivered \<longrightarrow> admitted (fw_wakeupId w) (fw_runNumber w) (wm_events m)"
    using co AtClaim by (simp add: coherent_def)
  have nxt: "(if kind = NoActingUser then None else fw_nextRunAt w) = None \<or>
      (if kind = NoActingUser then None else fw_nextRunAt w) = fw_nextRunAt w" by simp
  have lost: "set (wm_lost m) \<subseteq> set lost" by (auto simp: lost_def)
  have run: "res \<noteq> None \<longrightarrow> admitted (fw_wakeupId w) (fw_runNumber w) (wm_events m) \<or>
      (fw_wakeupId w, fw_runNumber w) \<in> set lost"
    using adm by (auto simp: lost_def)
  note claimed = claim_ok [OF ok co cron c nxt m' lost run]
  then show ?thesis
    using adm by (auto simp: m' w' intro: coherent_moves)
next
  case (AtCount kind)
  obtain t' row where c: "record_count (fw_wakeupId w) (TurnFailed (Some ''gone'')) now (wm_wakeups m) = (t', row)"
    by fastforce
  have ch: "service_change n (wm_wakeups m) t'" for n
    using count_is_change [of n "wm_wakeups m" "fw_wakeupId w" "TurnFailed (Some ''gone'')" now] c by simp
  note st = wakeups_ok_statement [OF ok ch]
  have "coherent cronNext t' (wm_events m) w" using coherent_evolve [OF st(2) _ co] by simp
  then show ?thesis
    using step AtCount c st(1)
    by (auto simp: worker_step_def intro!: coherent_moves split: option.splits if_splits)
next
  case (AtRetire kind)
  note st = wakeups_ok_statement [OF ok retire_is_change [of _ _ "fw_wakeupId w" now]]
  have "coherent cronNext (fst (retire_wakeup (fw_wakeupId w) now (wm_wakeups m))) (wm_events m) w"
    using coherent_evolve [OF st(2) _ co] by simp
  then show ?thesis
    using step AtRetire st(1)
    by (auto simp: worker_step_def intro!: coherent_moves)
next
  case (AtEnqueue kind)
  then show ?thesis
    using step ok
    by (auto simp: worker_step_def wakeups_ok_def enqueueSessionWakeupFire_def
        split: option.splits if_splits)
qed

lemma set_remove_nth: "set (remove_nth i xs) \<subseteq> set xs"
  by (auto simp: remove_nth_def dest: in_set_takeD in_set_dropD)

lemma wakeups_ok_workers:
  "wakeups_ok cronNext m \<Longrightarrow> \<forall>w \<in> set ws. coherent cronNext (wm_wakeups m) (wm_events m) w \<Longrightarrow>
   wakeups_ok cronNext (m\<lparr>wm_workers := ws\<rparr>)"
  by (simp add: wakeups_ok_def)

lemma read_coherent:
  assumes "fire_read cronNext job firedAt t = Some w" "rows_all wakeup_ok t" "fj_runAt job \<le> firedAt"
  shows "coherent cronNext t events w"
proof -
  obtain row nxt where r: "map_of t (fj_wakeupId job) = Some row" "wu_status row = WuActive"
      "wu_nextRunAt row = Some (fj_runAt job)"
      "resolveSessionWakeupNextRun cronNext (wu_schedule row) firedAt (wu_runCount row + 1)
         (wu_maxRuns row) (wu_until row) = Some nxt"
      "w = \<lparr>fw_wakeupId = fj_wakeupId job, fw_row = row, fw_due = fj_runAt job,
            fw_firedAt = firedAt, fw_nextRunAt = nxt, fw_pc = AtLookup\<rparr>"
    using assms(1) by (auto simp: fire_read_def getSessionWakeupById_def split: option.splits if_splits)
  moreover have "wakeup_ok row" using assms(2) r(1) by (rule rows_allD)
  ultimately show ?thesis
    using assms(3) by (simp add: coherent_def snapshot_ok_def row_all_def seen_row_def same_wakeup_def)
qed

lemma op_ok:
  assumes ok: "wakeups_ok cronNext m" and fresh: "op_creates opr \<longrightarrow> fresh_id (op_newId opr) m"
  shows "wakeups_ok cronNext (m\<lparr>wm_db := wakeup_op_step opr (wm_db m)\<rparr>)"
proof -
  have parts: "jsmap_ok (wm_wakeups m)" "admission_ok (wm_wakeups m)"
      "runs_accounted (wm_wakeups m) (wm_events m) (wm_lost m)"
    using ok by (simp_all add: wakeups_ok_def)
  have fw: "op_creates opr \<longrightarrow> fresh_wakeup (op_newId opr) (wm_db m)"
    using fresh by (simp add: fresh_id_def fresh_wakeup_def)
  let ?F = "if op_creates opr then {op_newId opr} else {}"
  note row = wakeup_op_row [OF fw parts(1)]
  have ev: "rows_evolve ?F (wm_wakeups m) (wd_wakeups (wakeup_op_step opr (wm_db m)))"
    unfolding rows_evolve_def
  proof (intro allI impI)
    fix k row'
    assume "map_of (wd_wakeups (wakeup_op_step opr (wm_db m))) k = Some row'"
    from row [OF this] row_kept_evolves
    show "(\<exists>row. map_of (wm_wakeups m) k = Some row \<and> row_evolves row row') \<or>
        k \<in> ?F \<and> wu_runCount row' = 0 \<and> wakeup_ok row'"
      by auto
  qed
  have acc: "runs_accounted (wd_wakeups (wakeup_op_step opr (wm_db m))) (wm_events m) (wm_lost m)"
    using parts(3)
  proof (rule kept_accounted)
    fix k row'
    assume "map_of (wd_wakeups (wakeup_op_step opr (wm_db m))) k = Some row'"
    from row [OF this] show
      "(\<exists>row. map_of (wm_wakeups m) k = Some row \<and> row_kept row row') \<or> wu_runCount row' = 0"
      by (rule disj_forward) simp_all
  qed
  have run: "service_run (op_newId opr) (wm_wakeups m) (wd_wakeups (wakeup_op_step opr (wm_db m)))"
    using fw by (intro wakeup_op_run) simp
  note adm = admission_ok_service_run [OF run parts(1,2)]
  show ?thesis
    by (rule wakeups_ok_table [OF ok ev]) (use adm acc fresh in \<open>auto simp: fresh_id_def\<close>)
qed

lemma workers_coherent:
  "wakeups_ok cronNext m \<Longrightarrow> w \<in> set (wm_workers m) \<Longrightarrow>
   coherent cronNext (wm_wakeups m) (wm_events m) w"
  unfolding wakeups_ok_def by blast

lemma wakeups_ok_fewer:
  assumes "wakeups_ok cronNext m" "set ws \<subseteq> insert w (set (wm_workers m))"
    and "coherent cronNext (wm_wakeups m) (wm_events m) w \<or> set ws \<subseteq> set (wm_workers m)"
  shows "wakeups_ok cronNext (m\<lparr>wm_workers := ws\<rparr>)"
  using assms(2,3) workers_coherent [OF assms(1)] by (intro wakeups_ok_workers [OF assms(1)]) blast

lemma wakeup_step_ok:
  assumes "wakeup_step cronNext m m'" "wakeups_ok cronNext m" "cron_forward cronNext"
  shows "wakeups_ok cronNext m'"
  using assms
proof (induction rule: wakeup_step.induct)
  case (ws_service opr m)
  then show ?case by (intro op_ok)
next
  case (ws_read job m firedAt w)
  have "rows_all wakeup_ok (wm_wakeups m)" using ws_read(4) by (simp add: wakeups_ok_def)
  then have "coherent cronNext (wm_wakeups m) (wm_events m) w"
    by (rule read_coherent [OF ws_read(3) _ ws_read(2)])
  then show ?case by (intro wakeups_ok_fewer [OF ws_read(4)]) auto
next
  case (ws_work i m now m' w)
  note st = worker_step_ok [OF ws_work(3) workers_coherent [OF ws_work(3) nth_mem [OF ws_work(1)]]
      ws_work(4,2)]
  then show ?case
    by (intro wakeups_ok_fewer [of cronNext m' _ w]) (simp_all add: set_update_subset_insert)
next
  case (ws_done i m now m')
  note st = worker_step_ok [OF ws_done(3) workers_coherent [OF ws_done(3) nth_mem [OF ws_done(1)]]
      ws_done(4,2)]
  then show ?case
    using set_remove_nth [of i "wm_workers m"]
    by (intro wakeups_ok_fewer [of cronNext m']) (simp_all add: subset_insertI2)
next
  case (ws_crash m i)
  then show ?case
    using set_remove_nth [of i "wm_workers m"]
    by (intro wakeups_ok_fewer [of cronNext m]) (simp_all add: subset_insertI2)
next
  case (ws_job_removed m job)
  then show ?case by (simp add: wakeups_ok_def)
qed

lemma empty_machine_ok: "wakeups_ok cronNext empty_machine"
  by (simp add: wakeups_ok_def empty_machine_def admission_ok_def runs_accounted_def jsmap_ok_def
      countActiveSessionWakeups_def count_rows_def select_rows_def)

lemma reachable_wakeups_ok:
  "reachable_wakeups cronNext m \<Longrightarrow> cron_forward cronNext \<Longrightarrow> wakeups_ok cronNext m"
  by (induction rule: reachable_wakeups.induct) (auto simp: empty_machine_ok wakeup_step_ok)

text \<open>C34: The rows of session wakeups are always well-formed, whatever the service, the workers and
  crashes do and in whatever order: a wakeup has a next occurrence exactly while it is active and a
  completion time exactly when it is not, the next occurrence is never past its end time, an
  active wakeup has a run left, no wakeup runs more often than its run count allows, and a one-shot
  runs at most once.\<close>

theorem wakeup_rows_stay_well_formed:
  assumes "reachable_wakeups cronNext m" and "cron_forward cronNext"
  shows "rows_all wakeup_ok (wm_wakeups m)"
  using reachable_wakeups_ok [OF assms] by (simp add: wakeups_ok_def)

lemma wakeup_run_events:
  assumes "reachable_wakeups cronNext m" and "cron_forward cronNext"
    and "map_of (wm_wakeups m) k = Some row"
  shows "\<forall>n \<in> {1..wu_runCount row}.
      length (filter (\<lambda>ev. ev_wakeupId ev = k \<and> ev_runNumber ev = n) (wm_events m)) = 1 \<or>
      (k, n) \<in> set (wm_lost m)"
    and "list_all (\<lambda>ev. ev_wakeupId ev = k \<longrightarrow>
      1 \<le> ev_runNumber ev \<and> within_runs (ev_runNumber ev) row) (wm_events m)"
    and "length (filter (\<lambda>ev. ev_wakeupId ev = k \<and> ev_runNumber ev = n) (wm_events m)) \<le> 1"
proof -
  note ok = reachable_wakeups_ok [OF assms(1,2), unfolded wakeups_ok_def]
  have ids: "ev_eventId ev = event_id (ev_wakeupId ev) (ev_runNumber ev)" if "ev \<in> set (wm_events m)" for ev
    using ok that by (auto simp: event_ok_def)
  have same: "filter (\<lambda>ev. ev_wakeupId ev = k \<and> ev_runNumber ev = n) (wm_events m) =
      filter (\<lambda>ev. ev_eventId ev = event_id k n) (wm_events m)" for n
    using ids by (intro filter_cong) auto
  have le: "length (filter (\<lambda>ev. ev_eventId ev = event_id k n) evs) \<le> 1"
    if "distinct (map ev_eventId evs)" for evs n
    using that
  proof (induction evs)
    case (Cons ev evs)
    have "filter (\<lambda>e. ev_eventId e = event_id k n) evs = []" if "ev_eventId ev = event_id k n"
      using Cons.prems that by (auto simp: filter_empty_conv) (metis image_eqI)
    then show ?case using Cons by auto
  qed simp
  show once: "length (filter (\<lambda>ev. ev_wakeupId ev = k \<and> ev_runNumber ev = n) (wm_events m)) \<le> 1" for n
    unfolding same using ok le by blast
  show "\<forall>n \<in> {1..wu_runCount row}.
      length (filter (\<lambda>ev. ev_wakeupId ev = k \<and> ev_runNumber ev = n) (wm_events m)) = 1 \<or>
      (k, n) \<in> set (wm_lost m)"
  proof
    fix n
    assume "n \<in> {1..wu_runCount row}"
    then have "admitted k n (wm_events m) \<or> (k, n) \<in> set (wm_lost m)"
      using ok assms(3) by (auto simp: runs_accounted_def)
    moreover have "filter (\<lambda>ev. ev_eventId ev = event_id k n) (wm_events m) \<noteq> []"
      if "admitted k n (wm_events m)"
      using that by (auto simp: admitted_def filter_empty_conv)
    ultimately show "length (filter (\<lambda>ev. ev_wakeupId ev = k \<and> ev_runNumber ev = n) (wm_events m)) = 1 \<or>
        (k, n) \<in> set (wm_lost m)"
      using once [of n] unfolding same by (cases "filter (\<lambda>ev. ev_eventId ev = event_id k n) (wm_events m)") auto
  qed
  show "list_all (\<lambda>ev. ev_wakeupId ev = k \<longrightarrow>
      1 \<le> ev_runNumber ev \<and> within_runs (ev_runNumber ev) row) (wm_events m)"
    using ok assms(3) by (auto simp: list_all_iff event_ok_def row_all_def)
qed

lemma active_wakeups_admitted:
  assumes "reachable_wakeups cronNext m" and "cron_forward cronNext"
  shows "countActiveSessionWakeups c (wm_wakeups m) \<le> 10"
    and "map_of (wm_wakeups m) k = Some row \<Longrightarrow> map_of (wm_wakeups m) k' = Some row' \<Longrightarrow>
      twins row row' \<Longrightarrow> k = k'"
  using reachable_wakeups_ok [OF assms]
  by (auto simp: wakeups_ok_def admission_ok_def MAX_ACTIVE_SESSION_WAKEUPS_def)

text \<open>C6: No run of a wakeup is lost and none is delivered twice: for every run a row counts, the
  conversation's inbox has the one event of that run, unless the conversation or the acting user
  was gone when it was claimed; and every event is of a run the wakeup may make: at most one past
  the runs counted, within its run count, and the first for a one-shot. This holds for any number of
  workers holding the same jobs, and with a crash between any two steps of a worker.\<close>

theorem wakeup_runs_are_delivered_once:
  assumes "reachable_wakeups cronNext m" and "cron_forward cronNext"
    and "map_of (wm_wakeups m) k = Some row"
  shows "(\<forall>n \<in> {1..wu_runCount row}.
      length (filter (\<lambda>ev. ev_wakeupId ev = k \<and> ev_runNumber ev = n) (wm_events m)) = 1 \<or>
      (k, n) \<in> set (wm_lost m)) \<and>
    list_all (\<lambda>ev. ev_wakeupId ev = k \<longrightarrow>
      1 \<le> ev_runNumber ev \<and> within_runs (ev_runNumber ev) row) (wm_events m) \<and>
    length (filter (\<lambda>ev. ev_wakeupId ev = k \<and> ev_runNumber ev = n) (wm_events m)) \<le> 1"
  using wakeup_run_events [OF assms] by blast

text \<open>C35: A conversation never holds more than ten active wakeups, and no two active ones that mean the
  same (the same prompt up to case and white space, the same kind and the same schedule), even
  when they are created concurrently and fire meanwhile.\<close>

theorem active_wakeups_are_few_and_distinct:
  assumes "reachable_wakeups cronNext m" and "cron_forward cronNext"
  shows "countActiveSessionWakeups c (wm_wakeups m) \<le> 10 \<and>
    (map_of (wm_wakeups m) k = Some row \<and> map_of (wm_wakeups m) k' = Some row' \<and> twins row row'
       \<longrightarrow> k = k')"
  using active_wakeups_admitted [OF assms] by blast

subsection \<open>An example\<close>

text \<open>A one-shot is created, its job is run, and the worker claims the occurrence.\<close>

definition hourly :: "string \<Rightarrow> string \<Rightarrow> ms \<Rightarrow> ms option" where
  "hourly e tz t = Some (t + 3600000)"

definition example_opened :: wakeup_machine where
  "example_opened = empty_machine\<lparr>wm_db :=
     wakeup_op_step (OpAddConversation ''c'' (Some ''ann'')) (wm_db empty_machine)\<rparr>"

definition example_create :: wakeup_op where
  "example_create = OpManage example_schedule_env ''c'' ''ann'' False
     (ManageCreate (Some ''n'') (Some ''p'') (Some ''in 10m'') None None) ''w'' True"

definition example_scheduled :: wakeup_machine where
  "example_scheduled = example_opened\<lparr>wm_db := wakeup_op_step example_create (wm_db example_opened)\<rparr>"

definition example_job :: fire_job where
  "example_job = \<lparr>fj_wakeupId = ''w'', fj_runAt = 600000\<rparr>"

definition example_worker :: fire_worker where
  "example_worker = the (fire_read hourly example_job 600000 (wm_wakeups example_scheduled))"

definition example_started :: wakeup_machine where
  "example_started = example_scheduled\<lparr>wm_workers := example_worker # wm_workers example_scheduled\<rparr>"

definition advance :: "wakeup_machine \<Rightarrow> wakeup_machine" where
  "advance m = (case worker_step 600000 (wm_workers m ! 0) m of
     (m', Some w) \<Rightarrow> m'\<lparr>wm_workers := (wm_workers m)[0 := w]\<rparr> | (m', None) \<Rightarrow> m)"

definition example_fired :: wakeup_machine where
  "example_fired = advance (advance (advance example_started))"

lemma advance_reachable:
  assumes "reachable_wakeups cn m" "wm_workers m \<noteq> []"
  shows "reachable_wakeups cn (advance m)"
proof -
  obtain m' w' where st: "worker_step 600000 (wm_workers m ! 0) m = (m', w')" by fastforce
  show ?thesis
  proof (cases w')
    case None
    then show ?thesis using assms(1) st by (simp add: advance_def)
  next
    case (Some w)
    have "wakeup_step cn m (m'\<lparr>wm_workers := (wm_workers m)[0 := w]\<rparr>)"
      using assms(2) st Some by (intro ws_work) auto
    then show ?thesis using rw_step [OF assms(1)] st Some by (simp add: advance_def)
  qed
qed

lemma advance_workers: "wm_workers m \<noteq> [] \<Longrightarrow> wm_workers (advance m) \<noteq> []"
  by (auto simp: advance_def split: prod.split option.split)

definition example_wakeup :: wakeup_row where
  "example_wakeup = new_wakeup
     \<lparr>wi_conversationId = ''c'', wi_createdByUserId = Some ''ann'', wi_name = ''n'', wi_prompt = ''p'',
      wi_schedule = Once 600000 (Some 600), wi_reportPolicy = ReportAlways,
      wi_internal = Some False, wi_maxRuns = None, wi_until = None, wi_nextRunAt = 600000\<rparr> 0"

lemma example_parse:
  "parseSessionWakeupSchedule (example_schedule_env\<lparr>we_defaultTimeZone := z\<rparr>) ''in 10m'' =
     Inr \<lparr>ps_schedule = Once 600000 (Some 600), ps_firstRunAt = 600000, ps_maxRuns = None,
          ps_until = None\<rparr>"
proof -
  have "js_words ''in 10m'' = [''in'', ''10m'']" by (simp add: js_words_def js_space_def)
  moreover have "strip_once [''in'', ''10m''] = [''in'', ''10m'']"
    by (simp add: keyword_def to_lower_def lower_char_def)
  moreover have "read_duration [''10m''] = Some (600, [])"
    by (simp add: read_duration_def is_digit_def digits_val_def char_digit_def unit_seconds_def
        UNIT_SECONDS_def to_lower_def lower_char_def)
  ultimately show ?thesis
    by (simp add: parseSessionWakeupSchedule_def parse_in_def keyword_def to_lower_def lower_char_def
        once_only_def normalizeSessionWakeupSchedule_def normalize_once_def duration_ok_def
        SESSION_WAKEUP_MAX_ONCE_HORIZON_SECONDS_def example_schedule_env_def)
qed

lemma example_texts:
  "js_words ''n'' = [''n'']" "js_words ''p'' = [''p'']" "trim ''p'' = ''p''" "to_lower ''p'' = ''p''"
  "OWN_TASK_FOLLOW_THROUGH_NAME \<noteq> ''n''"
  by (simp_all add: js_words_def js_space_def trim_def trim_start_def to_lower_def lower_char_def
      OWN_TASK_FOLLOW_THROUGH_NAME_def)

lemma example_opened_db:
  "wm_db example_opened = \<lparr>wd_conversations = [(''c'', Some ''ann'')], wd_timeZone = None,
     wd_wakeups = [], wd_jobs = []\<rparr>" "wm_events example_opened = []" "wm_workers example_opened = []"
  "wm_lost example_opened = []"
  by (simp_all add: example_opened_def empty_machine_def)

lemma example_created:
  "createSessionWakeup example_schedule_env ''c'' ''ann''
     \<lparr>cw_name = ''n'', cw_prompt = ''p'', cw_schedule = ''in 10m'', cw_reportPolicy = None,
      cw_internal = Some False\<rparr> ''w'' True (wm_db example_opened) =
   Inr (\<lparr>wd_conversations = [(''c'', Some ''ann'')], wd_timeZone = None,
         wd_wakeups = [(''w'', example_wakeup)], wd_jobs = [example_job]\<rparr>, ''w'', False)"
proof -
  have now: "we_now example_schedule_env = 0" by (simp add: example_schedule_env_def)
  show ?thesis
    by (simp add: createSessionWakeup_def Let_def example_parse example_texts(1,3) example_opened_db now
        admitSessionWakeup_def listActiveSessionWakeups_def select_rows_def
        MAX_ACTIVE_SESSION_WAKEUPS_def insertSessionWakeup_def insert_row_def
        isSessionWakeupRecurring_def enqueueSessionWakeupFire_def example_wakeup_def
        example_job_def)
qed

lemma example_scheduled_db:
  "wm_db example_scheduled = \<lparr>wd_conversations = [(''c'', Some ''ann'')], wd_timeZone = None,
     wd_wakeups = [(''w'', example_wakeup)], wd_jobs = [example_job]\<rparr>"
  by (simp add: example_scheduled_def example_create_def handleManageWakeupsToolCall_def
      isOwnTaskFollowThroughInput_def created_result_def example_created)

lemma example_read:
  "fire_read hourly example_job 600000 (wm_wakeups example_scheduled) = Some example_worker"
proof -
  have "fire_read hourly example_job 600000 (wm_wakeups example_scheduled) \<noteq> None"
    by (simp add: example_scheduled_db fire_read_def getSessionWakeupById_def example_job_def
        example_wakeup_def resolveSessionWakeupNextRun_def)
  then show ?thesis by (auto simp: example_worker_def)
qed

lemma example_reachable: "reachable_wakeups hourly example_fired"
proof -
  have "reachable_wakeups hourly example_opened"
    unfolding example_opened_def by (rule rw_step [OF rw_start ws_service]) simp
  moreover have "fresh_id (op_newId example_create) example_opened"
    by (simp add: fresh_id_def example_create_def example_opened_db)
  ultimately have "reachable_wakeups hourly example_scheduled"
    unfolding example_scheduled_def by (intro rw_step [OF _ ws_service]) simp_all
  moreover have "example_job \<in> set (wd_jobs (wm_db example_scheduled))"
    by (simp add: example_scheduled_db)
  ultimately have "reachable_wakeups hourly example_started"
    unfolding example_started_def
    by (intro rw_step [OF _ ws_read [OF _ _ example_read]]) (simp_all add: example_job_def)
  moreover have "wm_workers example_started \<noteq> []" by (simp add: example_started_def)
  ultimately show ?thesis
    unfolding example_fired_def by (simp add: advance_reachable advance_workers)
qed

lemma hourly_forward: "cron_forward hourly"
  by (simp add: cron_forward_def hourly_def)

lemma example_fired_row:
  "\<exists>row. map_of (wm_wakeups example_fired) ''w'' = Some row \<and> wu_runCount row = 1"
proof -
  have w: "example_worker = \<lparr>fw_wakeupId = ''w'', fw_row = example_wakeup, fw_due = 600000,
      fw_firedAt = 600000, fw_nextRunAt = None, fw_pc = AtLookup\<rparr>"
    by (simp add: example_worker_def example_scheduled_db fire_read_def getSessionWakeupById_def
        example_job_def example_wakeup_def resolveSessionWakeupNextRun_def)
  have s: "wm_workers example_scheduled = []" "wm_events example_scheduled = []"
    by (simp_all add: example_scheduled_def example_opened_db)
  show ?thesis
    by (simp add: example_fired_def advance_def example_started_def w s example_scheduled_db
        worker_step_def lookup_pc_def claim_step_def claimSessionWakeupFire_def update_where_def
        set_wakeups_def example_wakeup_def new_wakeup_def)
qed

lemma example_fired_lost: "wm_lost example_fired = []"
proof -
  have w: "example_worker = \<lparr>fw_wakeupId = ''w'', fw_row = example_wakeup, fw_due = 600000,
      fw_firedAt = 600000, fw_nextRunAt = None, fw_pc = AtLookup\<rparr>"
    by (simp add: example_worker_def example_scheduled_db fire_read_def getSessionWakeupById_def
        example_job_def example_wakeup_def resolveSessionWakeupNextRun_def)
  have s: "wm_workers example_scheduled = []" "wm_events example_scheduled = []"
    "wm_lost example_scheduled = []"
    by (simp_all add: example_scheduled_def example_opened_db example_opened_def empty_machine_def)
  show ?thesis
    by (simp add: example_fired_def advance_def example_started_def w s example_scheduled_db
        worker_step_def lookup_pc_def claim_step_def claimSessionWakeupFire_def update_where_def
        set_wakeups_def example_wakeup_def new_wakeup_def)
qed

theorem wakeup_rows_stay_well_formed_witness:
  "rows_all wakeup_ok (wm_wakeups example_fired)"
  by (rule wakeup_rows_stay_well_formed [OF example_reachable hourly_forward])

theorem wakeup_runs_are_delivered_once_witness:
  "length (filter (\<lambda>ev. ev_wakeupId ev = ''w'' \<and> ev_runNumber ev = 1) (wm_events example_fired)) = 1"
proof -
  obtain row where "map_of (wm_wakeups example_fired) ''w'' = Some row" "wu_runCount row = 1"
    using example_fired_row by blast
  then show ?thesis
    using wakeup_runs_are_delivered_once [OF example_reachable hourly_forward, of "''w''" row]
      example_fired_lost by simp
qed

theorem active_wakeups_are_few_and_distinct_witness:
  "countActiveSessionWakeups ''c'' (wm_wakeups example_fired) \<le> 10"
  using active_wakeups_are_few_and_distinct [OF example_reachable hourly_forward] by blast

end
