(* ===== verification/SessionGoals.thy ===== *)
theory SessionGoals
  imports Prelude
begin

section \<open>Session goals\<close>

text \<open>
  \<open>packages/db/src/lib/session-goals.ts\<close>: a session's goal, its generations, and the continuations
  that spend its budget. The database is a record: the sessions, the conversations that belong
  to one, the goal rows by session, and the session activity the code reports. A statement or a
  transaction is one step; \<open>claimSessionGoalContinuation\<close> reads and then updates with a guard, so
  it is two functions and other steps may come between them. Random ids and \<open>new Date()\<close> are
  arguments. SQL's null comparisons are written out.
\<close>

datatype goal_status = GoalActive | GoalComplete | GoalBlocked | GoalBudgetLimited | GoalCanceled

record goal_input =
  gi_objective :: string
  gi_maxContinuations :: int

record goal_row =
  gg_objective :: string
  gg_status :: goal_status
  gg_maxContinuations :: int
  gg_continuationsUsed :: int
  gg_blockedReason :: "string option"
  gg_completedAt :: "ms option"
  gg_lastContinuationId :: string
  gg_continuationIds :: "string list"
  gg_generationIds :: "string list"
  gg_blockerCandidateReason :: "string option"
  gg_blockerCandidateCount :: int
  gg_blockerLastContinuationUsed :: "int option"
  gg_startedAt :: ms
  gg_endedAt :: "ms option"
  gg_createdByUserId :: "string option"
  gg_createdAt :: ms
  gg_updatedAt :: ms

record session_goal =
  sg_objective :: string
  sg_generation :: string
  sg_status :: goal_status
  sg_maxContinuations :: int
  sg_continuationsUsed :: int
  sg_blockedReason :: "string option"
  sg_completedAt :: "ms option"

record goal_db =
  gd_sessions :: "string list"
  gd_conversations :: "(string, string) jsmap"
  gd_goals :: "(string, goal_row) jsmap"
  gd_touches :: "(string \<times> int) list"

datatype mutation_reason =
    Missing | NotActive | BudgetExhausted | AlreadyClaimed | BlockerPending | GenerationMismatch

datatype mutation_result =
    GoalUpdated session_goal
  | GoalNotUpdated mutation_reason "session_goal option"

definition toSessionGoal :: "goal_row \<Rightarrow> session_goal" where
  "toSessionGoal row =
     \<lparr>sg_objective = gg_objective row, sg_generation = gg_lastContinuationId row,
      sg_status = gg_status row, sg_maxContinuations = gg_maxContinuations row,
      sg_continuationsUsed = gg_continuationsUsed row,
      sg_blockedReason = gg_blockedReason row, sg_completedAt = gg_completedAt row\<rparr>"

text \<open>
  The call of \<open>touchSessionActivity\<close> is recorded with its time in seconds; what it does to the
  session's own row (\<open>sessions.ts\<close>) is outside this component.
\<close>

definition touchSessionActivity :: "string \<Rightarrow> ms \<Rightarrow> goal_db \<Rightarrow> goal_db" where
  "touchSessionActivity sessionId now db =
     db\<lparr>gd_touches := gd_touches db @ [(sessionId, now div 1000)]\<rparr>"

definition put_goal :: "string \<Rightarrow> goal_row \<Rightarrow> goal_db \<Rightarrow> goal_db" where
  "put_goal sessionId row db = db\<lparr>gd_goals := AList.update sessionId row (gd_goals db)\<rparr>"

definition goal_of :: "goal_db \<Rightarrow> string \<Rightarrow> goal_row option" where
  "goal_of db sessionId = map_of (gd_goals db) sessionId"

definition getSessionIdForConversation :: "string \<Rightarrow> goal_db \<Rightarrow> string option" where
  "getSessionIdForConversation conversationId db = map_of (gd_conversations db) conversationId"

definition getSessionGoal :: "string \<Rightarrow> goal_db \<Rightarrow> session_goal option" where
  "getSessionGoal sessionId db = map_option toSessionGoal (goal_of db sessionId)"

definition getSessionGoalForConversation :: "string \<Rightarrow> goal_db \<Rightarrow> session_goal option" where
  "getSessionGoalForConversation conversationId db =
     Option.bind (getSessionIdForConversation conversationId db) (\<lambda>sid. getSessionGoal sid db)"

subsection \<open>Setting a goal\<close>

definition GOAL_GENERATION_PREFIX :: string where
  "GOAL_GENERATION_PREFIX = ''goal-generation:''"

datatype goal_error = SessionNotFound | BlockerReasonRequired

definition new_goal_row :: "string \<Rightarrow> string \<Rightarrow> goal_input \<Rightarrow> ms \<Rightarrow> ms \<Rightarrow> goal_row" where
  "new_goal_row generation userId goal now createdAt =
     \<lparr>gg_objective = gi_objective goal, gg_status = GoalActive,
      gg_maxContinuations = gi_maxContinuations goal, gg_continuationsUsed = 0,
      gg_blockedReason = None, gg_completedAt = None, gg_lastContinuationId = generation,
      gg_continuationIds = [], gg_generationIds = [generation],
      gg_blockerCandidateReason = None, gg_blockerCandidateCount = 0,
      gg_blockerLastContinuationUsed = None, gg_startedAt = now, gg_endedAt = None,
      gg_createdByUserId = Some userId, gg_createdAt = createdAt, gg_updatedAt = now\<rparr>"

text \<open>The result carries what the rollback closure captures: the generation and the prior row.\<close>

definition replaceSessionGoal ::
    "string \<Rightarrow> string \<Rightarrow> goal_input \<Rightarrow> string \<Rightarrow> ms \<Rightarrow> goal_db
     \<Rightarrow> goal_error + goal_db \<times> session_goal \<times> string \<times> goal_row option" where
  "replaceSessionGoal sessionId userId goal uuid now db =
     (if sessionId \<notin> set (gd_sessions db) then Inl SessionNotFound
      else let generation = GOAL_GENERATION_PREFIX @ uuid;
               prior = goal_of db sessionId;
               row = new_goal_row generation userId goal now
                       (case prior of None \<Rightarrow> now | Some p \<Rightarrow> gg_createdAt p)
           in Inr (touchSessionActivity sessionId now (put_goal sessionId row db),
                   \<lparr>sg_objective = gi_objective goal, sg_generation = generation,
                    sg_status = GoalActive, sg_maxContinuations = gi_maxContinuations goal,
                    sg_continuationsUsed = 0, sg_blockedReason = None, sg_completedAt = None\<rparr>,
                   generation, prior))"

definition rollbackSessionGoal ::
    "string \<Rightarrow> string \<Rightarrow> goal_row option \<Rightarrow> ms \<Rightarrow> goal_db \<Rightarrow> goal_db \<times> bool" where
  "rollbackSessionGoal sessionId generation previous now db =
     (if map_option gg_lastContinuationId (goal_of db sessionId) \<noteq> Some generation
      then (db, False)
      else (touchSessionActivity sessionId now
              (case previous of
                 None \<Rightarrow> db\<lparr>gd_goals := AList.delete sessionId (gd_goals db)\<rparr>
               | Some row \<Rightarrow> put_goal sessionId row db),
            True))"

subsection \<open>Marking a goal\<close>

definition hasAssignedGeneration :: "goal_row \<Rightarrow> string \<Rightarrow> bool" where
  "hasAssignedGeneration row generation \<longleftrightarrow>
     gg_lastContinuationId row = generation \<or> generation \<in> set (gg_generationIds row)"

datatype mark_status = MarkComplete | MarkBlocked | MarkCanceled

fun mark_goal_status :: "mark_status \<Rightarrow> goal_status" where
  "mark_goal_status MarkComplete = GoalComplete"
| "mark_goal_status MarkBlocked = GoalBlocked"
| "mark_goal_status MarkCanceled = GoalCanceled"

definition end_goal :: "goal_status \<Rightarrow> string option \<Rightarrow> ms \<Rightarrow> goal_row \<Rightarrow> goal_row" where
  "end_goal status reason now row =
     row\<lparr>gg_status := status, gg_blockedReason := reason, gg_completedAt := Some now,
         gg_endedAt := Some now, gg_blockerCandidateReason := None,
         gg_blockerCandidateCount := 0, gg_blockerLastContinuationUsed := None,
         gg_updatedAt := now\<rparr>"

definition blocker_count :: "goal_row \<Rightarrow> string \<Rightarrow> int" where
  "blocker_count row reason =
     (let sameTurn = (gg_blockerLastContinuationUsed row = Some (gg_continuationsUsed row));
          sameReason = (gg_blockerCandidateReason row = Some reason)
      in if sameTurn \<and> sameReason then gg_blockerCandidateCount row
         else if sameReason then gg_blockerCandidateCount row + 1
         else 1)"

text \<open>
  The transaction locks the row, so its guarded update finds the row it read: the guard's
  conditions are the ones just checked.
\<close>

definition mark_row ::
    "string \<Rightarrow> mark_status \<Rightarrow> string option \<Rightarrow> ms \<Rightarrow> goal_row
     \<Rightarrow> goal_error + goal_row \<times> mutation_result" where
  "mark_row generation status reason now row =
     (if gg_status row \<noteq> GoalActive
      then Inr (row, GoalNotUpdated NotActive (Some (toSessionGoal row)))
      else if \<not> hasAssignedGeneration row generation
      then Inr (row, GoalNotUpdated GenerationMismatch (Some (toSessionGoal row)))
      else if status = MarkBlocked
      then (let reason = trim (nullish_or reason [])
            in if reason = [] then Inl BlockerReasonRequired
               else let candidateCount = blocker_count row reason
                    in if candidateCount \<ge> 3
                       then let updated = end_goal GoalBlocked (Some reason) now row
                            in Inr (updated, GoalUpdated (toSessionGoal updated))
                       else let updated =
                                  row\<lparr>gg_blockerCandidateReason := Some reason,
                                      gg_blockerCandidateCount := candidateCount,
                                      gg_blockerLastContinuationUsed :=
                                        Some (gg_continuationsUsed row),
                                      gg_updatedAt := now\<rparr>
                            in Inr (updated,
                                 GoalNotUpdated BlockerPending (Some (toSessionGoal updated))))
      else let updated = end_goal (mark_goal_status status) None now row
           in Inr (updated, GoalUpdated (toSessionGoal updated)))"

definition markSessionGoal ::
    "string \<Rightarrow> string \<Rightarrow> mark_status \<Rightarrow> string option \<Rightarrow> ms \<Rightarrow> goal_db
     \<Rightarrow> goal_error + goal_db \<times> mutation_result" where
  "markSessionGoal sessionId generation status reason now db =
     (case goal_of db sessionId of
        None \<Rightarrow> Inr (touchSessionActivity sessionId now db, GoalNotUpdated Missing None)
      | Some row \<Rightarrow>
          (case mark_row generation status reason now row of
             Inl e \<Rightarrow> Inl e
           | Inr (row', result) \<Rightarrow>
               Inr (touchSessionActivity sessionId now (put_goal sessionId row' db), result)))"

definition markSessionGoalForConversation ::
    "string \<Rightarrow> string \<Rightarrow> mark_status \<Rightarrow> string option \<Rightarrow> ms \<Rightarrow> goal_db
     \<Rightarrow> goal_error + goal_db \<times> mutation_result" where
  "markSessionGoalForConversation conversationId generation status reason now db =
     (case getSessionIdForConversation conversationId db of
        None \<Rightarrow> Inr (db, GoalNotUpdated Missing None)
      | Some sessionId \<Rightarrow> markSessionGoal sessionId generation status reason now db)"

subsection \<open>Continuations\<close>

text \<open>What the read decides: an answer, or one of the two guarded updates on what was read.\<close>

datatype claim_plan =
    ClaimAnswer mutation_result
  | ClaimLimit string goal_row
  | ClaimUpdate string goal_row

definition claim_read :: "string \<Rightarrow> string \<Rightarrow> goal_db \<Rightarrow> claim_plan" where
  "claim_read conversationId continuationId db =
     (case getSessionIdForConversation conversationId db of
        None \<Rightarrow> ClaimAnswer (GoalNotUpdated Missing None)
      | Some sessionId \<Rightarrow>
          (case goal_of db sessionId of
             None \<Rightarrow> ClaimAnswer (GoalNotUpdated Missing None)
           | Some current \<Rightarrow>
               if gg_status current \<noteq> GoalActive
               then ClaimAnswer (GoalNotUpdated NotActive (Some (toSessionGoal current)))
               else if continuationId \<in> set (gg_continuationIds current)
               then ClaimAnswer (GoalNotUpdated AlreadyClaimed (Some (toSessionGoal current)))
               else if gg_continuationsUsed current \<ge> gg_maxContinuations current
               then ClaimLimit sessionId current
               else ClaimUpdate sessionId current))"

definition limit_row :: "ms \<Rightarrow> goal_row \<Rightarrow> goal_row" where
  "limit_row now row =
     row\<lparr>gg_status := GoalBudgetLimited, gg_endedAt := Some now, gg_updatedAt := now\<rparr>"

definition continue_row :: "string \<Rightarrow> ms \<Rightarrow> goal_row \<Rightarrow> goal_row" where
  "continue_row continuationId now row =
     (let sameTurn = (gg_blockerLastContinuationUsed row = Some (gg_continuationsUsed row)) in
      row\<lparr>gg_continuationsUsed := gg_continuationsUsed row + 1,
          gg_lastContinuationId := continuationId,
          gg_continuationIds := gg_continuationIds row @ [continuationId],
          gg_generationIds := gg_generationIds row @ [continuationId],
          gg_blockerCandidateReason :=
            (if sameTurn then gg_blockerCandidateReason row else None),
          gg_blockerCandidateCount := (if sameTurn then gg_blockerCandidateCount row else 0),
          gg_blockerLastContinuationUsed :=
            (if sameTurn then gg_blockerLastContinuationUsed row else None),
          gg_updatedAt := now\<rparr>)"

definition claim_write :: "string \<Rightarrow> ms \<Rightarrow> claim_plan \<Rightarrow> goal_db \<Rightarrow> goal_db \<times> mutation_result" where
  "claim_write continuationId now plan db =
     (case plan of
        ClaimAnswer r \<Rightarrow> (db, r)
      | ClaimLimit sessionId current \<Rightarrow>
          (case goal_of db sessionId of
             Some row \<Rightarrow>
               if gg_status row = GoalActive
                  \<and> gg_lastContinuationId row = gg_lastContinuationId current
               then (touchSessionActivity sessionId now
                       (put_goal sessionId (limit_row now row) db),
                     GoalNotUpdated BudgetExhausted (Some (toSessionGoal (limit_row now row))))
               else (touchSessionActivity sessionId now db,
                     GoalNotUpdated BudgetExhausted (Some (toSessionGoal current)))
           | None \<Rightarrow> (touchSessionActivity sessionId now db,
                     GoalNotUpdated BudgetExhausted (Some (toSessionGoal current))))
      | ClaimUpdate sessionId current \<Rightarrow>
          (case goal_of db sessionId of
             Some row \<Rightarrow>
               if gg_status row = GoalActive
                  \<and> gg_lastContinuationId row = gg_lastContinuationId current
                  \<and> gg_continuationsUsed row < gg_maxContinuations row
                  \<and> continuationId \<notin> set (gg_continuationIds row)
               then (touchSessionActivity sessionId now
                       (put_goal sessionId (continue_row continuationId now row) db),
                     GoalUpdated (toSessionGoal (continue_row continuationId now row)))
               else (db, GoalNotUpdated GenerationMismatch (Some (toSessionGoal current)))
           | None \<Rightarrow> (db, GoalNotUpdated GenerationMismatch (Some (toSessionGoal current)))))"

definition claimSessionGoalContinuation ::
    "string \<Rightarrow> string \<Rightarrow> ms \<Rightarrow> goal_db \<Rightarrow> goal_db \<times> mutation_result" where
  "claimSessionGoalContinuation conversationId continuationId now db =
     claim_write continuationId now (claim_read conversationId continuationId db) db"

definition release_row :: "string \<Rightarrow> ms \<Rightarrow> goal_row \<Rightarrow> goal_row" where
  "release_row continuationId now row =
     row\<lparr>gg_continuationsUsed := max (gg_continuationsUsed row - 1) 0,
         gg_continuationIds := removeAll continuationId (gg_continuationIds row),
         gg_generationIds := removeAll continuationId (gg_generationIds row),
         gg_updatedAt := now\<rparr>"

definition releaseSessionGoalContinuation ::
    "string \<Rightarrow> string \<Rightarrow> ms \<Rightarrow> goal_db \<Rightarrow> goal_db \<times> bool" where
  "releaseSessionGoalContinuation conversationId continuationId now db =
     (case getSessionIdForConversation conversationId db of
        None \<Rightarrow> (db, False)
      | Some sessionId \<Rightarrow>
          (case goal_of db sessionId of
             None \<Rightarrow> (db, False)
           | Some row \<Rightarrow>
               if gg_status row = GoalActive \<and> continuationId \<in> set (gg_continuationIds row)
               then (put_goal sessionId (release_row continuationId now row) db, True)
               else (db, False)))"

subsection \<open>The budget\<close>

text \<open>
  A row is well-formed when its use count is the number of its continuations, no continuation
  is claimed twice, the budget is not exceeded and a blocker has not been counted to three.
\<close>

definition row_ok :: "goal_row \<Rightarrow> bool" where
  "row_ok row \<longleftrightarrow>
     gg_continuationsUsed row = int (length (gg_continuationIds row)) \<and>
     distinct (gg_continuationIds row) \<and>
     gg_continuationsUsed row \<le> gg_maxContinuations row \<and>
     0 \<le> gg_blockerCandidateCount row \<and> gg_blockerCandidateCount row \<le> 2"

lemma goal_of_put [simp]:
  "goal_of (put_goal s row db) s' = (if s' = s then Some row else goal_of db s')"
  by (simp add: goal_of_def put_goal_def update_conv')

lemma goal_of_touch [simp]: "goal_of (touchSessionActivity s now db) s' = goal_of db s'"
  by (simp add: goal_of_def touchSessionActivity_def)

lemma new_row_ok: "0 \<le> gi_maxContinuations g \<Longrightarrow> row_ok (new_goal_row gen u g now c)"
  by (simp add: row_ok_def new_goal_row_def)

lemma end_goal_ok: "row_ok row \<Longrightarrow> row_ok (end_goal st r now row)"
  by (simp add: row_ok_def end_goal_def)

lemma limit_row_ok: "row_ok row \<Longrightarrow> row_ok (limit_row now row)"
  by (simp add: row_ok_def limit_row_def)

lemma continue_row_ok:
  "row_ok row \<Longrightarrow> gg_continuationsUsed row < gg_maxContinuations row \<Longrightarrow>
   c \<notin> set (gg_continuationIds row) \<Longrightarrow> row_ok (continue_row c now row)"
  by (simp add: row_ok_def continue_row_def Let_def)

lemma length_removeAll_distinct:
  "distinct xs \<Longrightarrow> x \<in> set xs \<Longrightarrow> length (removeAll x xs) = length xs - 1"
  by (simp add: distinct_remove1_removeAll [symmetric] length_remove1)

lemma release_row_ok:
  assumes "row_ok row" "c \<in> set (gg_continuationIds row)"
  shows "row_ok (release_row c now row)"
proof -
  obtain n where n: "length (gg_continuationIds row) = Suc n"
    using length_pos_if_in_set [OF assms(2)] gr0_implies_Suc by blast
  then have "int (length (removeAll c (gg_continuationIds row))) =
      int (length (gg_continuationIds row)) - 1"
    using assms length_removeAll_distinct [of "gg_continuationIds row" c]
    by (simp add: row_ok_def)
  then show ?thesis
    using assms by (auto simp: row_ok_def release_row_def distinct_removeAll)
qed

lemma mark_row_ok:
  "row_ok row \<Longrightarrow> mark_row gen st r now row = Inr (row', res) \<Longrightarrow> row_ok row'"
  by (auto simp: mark_row_def Let_def end_goal_ok blocker_count_def
      split: if_splits) (simp_all add: row_ok_def)

subsection \<open>Concurrent sessions\<close>

text \<open>
  Any number of callers act on the database. The machine keeps the claims that have read and not
  yet written, and the rollbacks callers may still run.
\<close>

record goal_machine =
  gm_db :: goal_db
  gm_claims :: "(string \<times> claim_plan) list"
  gm_rollbacks :: "(string \<times> string \<times> goal_row option) list"

inductive goal_step :: "goal_machine \<Rightarrow> goal_machine \<Rightarrow> bool" where
  replace: "replaceSessionGoal sid uid goal uuid now (gm_db m) = Inr (db, g, gen, prior) \<Longrightarrow>
    0 \<le> gi_maxContinuations goal \<Longrightarrow>
    goal_step m (m\<lparr>gm_db := db, gm_rollbacks := (sid, gen, prior) # gm_rollbacks m\<rparr>)"
| rollback: "(sid, gen, prior) \<in> set (gm_rollbacks m) \<Longrightarrow>
    goal_step m (m\<lparr>gm_db := fst (rollbackSessionGoal sid gen prior now (gm_db m))\<rparr>)"
| mark: "markSessionGoal sid gen st r now (gm_db m) = Inr (db, res) \<Longrightarrow>
    goal_step m (m\<lparr>gm_db := db\<rparr>)"
| claim_reads: "goal_step m
    (m\<lparr>gm_claims := (c, claim_read conv c (gm_db m)) # gm_claims m\<rparr>)"
| claim_writes: "(c, plan) \<in> set (gm_claims m) \<Longrightarrow>
    goal_step m (m\<lparr>gm_db := fst (claim_write c now plan (gm_db m)),
                    gm_claims := remove1 (c, plan) (gm_claims m)\<rparr>)"
| release: "goal_step m
    (m\<lparr>gm_db := fst (releaseSessionGoalContinuation conv c now (gm_db m))\<rparr>)"
| session: "goal_step m (m\<lparr>gm_db := (gm_db m)\<lparr>gd_sessions := sids, gd_conversations := convs\<rparr>\<rparr>)"

inductive goal_run :: "goal_machine \<Rightarrow> bool" where
  start: "goal_run \<lparr>gm_db = \<lparr>gd_sessions = [], gd_conversations = [], gd_goals = [],
    gd_touches = []\<rparr>, gm_claims = [], gm_rollbacks = []\<rparr>"
| step: "goal_run m \<Longrightarrow> goal_step m m' \<Longrightarrow> goal_run m'"

definition goals_ok :: "goal_machine \<Rightarrow> bool" where
  "goals_ok m \<longleftrightarrow>
     (\<forall>sid row. goal_of (gm_db m) sid = Some row \<longrightarrow> row_ok row) \<and>
     (\<forall>(sid, gen, prior) \<in> set (gm_rollbacks m). \<forall>row. prior = Some row \<longrightarrow> row_ok row)"

lemma claim_write_ok:
  assumes "\<forall>sid row. goal_of db sid = Some row \<longrightarrow> row_ok row"
    and "goal_of (fst (claim_write c now plan db)) sid = Some row"
  shows "row_ok row"
  using assms
  by (auto simp: claim_write_def limit_row_ok continue_row_ok
      split: claim_plan.splits option.splits if_splits)

lemma goal_of_delete:
  "goal_of (db\<lparr>gd_goals := AList.delete s (gd_goals db)\<rparr>) s' =
     (if s' = s then None else goal_of db s')"
  by (simp add: goal_of_def delete_conv')

lemma goal_step_ok: "goal_step m m' \<Longrightarrow> goals_ok m \<Longrightarrow> goals_ok m'"
proof (induction rule: goal_step.induct)
  case (replace sid uid goal uuid now m db g gen prior)
  then show ?case
    by (auto simp: replaceSessionGoal_def goals_ok_def Let_def new_row_ok split: if_splits)
next
  case (rollback sid gen prior m now)
  have "\<forall>row. prior = Some row \<longrightarrow> row_ok row"
    using rollback by (auto simp: goals_ok_def)
  then show ?case
    using rollback
    by (auto simp: rollbackSessionGoal_def goals_ok_def goal_of_delete split: option.splits if_splits)
next
  case (mark sid gen st r now m db res)
  have marked: "row_ok row'" if "goal_of (gm_db m) sid = Some row"
    "mark_row gen st r now row = Inr (row', res')" for row row' res'
  proof -
    have "row_ok row" using mark(2) that(1) by (simp add: goals_ok_def)
    then show ?thesis using that(2) by (rule mark_row_ok)
  qed
  show ?case
    using mark marked
    by (auto simp: markSessionGoal_def goals_ok_def
        split: option.splits sum.splits if_splits)
next
  case (claim_writes c plan m now)
  then show ?case
    using claim_write_ok [of "gm_db m" c now plan] by (auto simp: goals_ok_def)
next
  case (release m conv c now)
  then show ?case
    by (auto simp: releaseSessionGoalContinuation_def goals_ok_def release_row_ok
        split: option.splits if_splits)
qed (auto simp: goals_ok_def goal_of_def)


text \<open>A goal with a budget of one, claimed once.\<close>

definition example_goal_row :: goal_row where
  "example_goal_row =
     new_goal_row ''goal-generation:1'' ''u'' \<lparr>gi_objective = ''ship'', gi_maxContinuations = 1\<rparr> 0 0"

definition example_goal_machine :: goal_machine where
  "example_goal_machine =
     \<lparr>gm_db = fst (claim_write ''c1'' 5
        (ClaimUpdate ''s'' example_goal_row)
        \<lparr>gd_sessions = [''s''], gd_conversations = [(''k'', ''s'')],
         gd_goals = [(''s'', example_goal_row)], gd_touches = [(''s'', 0)]\<rparr>),
      gm_claims = [],
      gm_rollbacks = [(''s'', ''goal-generation:1'', None)]\<rparr>"

lemma example_goal_run: "goal_run example_goal_machine"
proof -
  let ?m0 = "\<lparr>gm_db = \<lparr>gd_sessions = [], gd_conversations = [], gd_goals = [],
    gd_touches = []\<rparr>, gm_claims = [], gm_rollbacks = []\<rparr>"
  let ?m1 = "?m0\<lparr>gm_db := (gm_db ?m0)\<lparr>gd_sessions := [''s''],
    gd_conversations := [(''k'', ''s'')]\<rparr>\<rparr>"
  let ?goal = "\<lparr>gi_objective = ''ship'', gi_maxContinuations = 1\<rparr>"
  let ?db = "\<lparr>gd_sessions = [''s''], gd_conversations = [(''k'', ''s'')],
    gd_goals = [(''s'', example_goal_row)], gd_touches = [(''s'', 0)]\<rparr>"
  let ?m2 = "?m1\<lparr>gm_db := ?db, gm_rollbacks := (''s'', ''goal-generation:1'', None) # []\<rparr>"
  have "\<exists>g. replaceSessionGoal ''s'' ''u'' ?goal ''1'' 0 (gm_db ?m1) =
      Inr (?db, g, ''goal-generation:1'', None)"
    by (simp add: replaceSessionGoal_def Let_def goal_of_def put_goal_def touchSessionActivity_def
        GOAL_GENERATION_PREFIX_def example_goal_row_def)
  then obtain g where g: "replaceSessionGoal ''s'' ''u'' ?goal ''1'' 0 (gm_db ?m1) =
      Inr (?db, g, ''goal-generation:1'', None)" ..
  have m1: "goal_run ?m1"
    by (rule goal_run.step [OF goal_run.start goal_step.session])
  have "goal_step ?m1 (?m1\<lparr>gm_db := ?db,
      gm_rollbacks := (''s'', ''goal-generation:1'', None) # gm_rollbacks ?m1\<rparr>)"
    by (rule goal_step.replace [OF g]) simp
  then have m2: "goal_run ?m2" using goal_run.step [OF m1] by simp
  let ?m3 = "?m2\<lparr>gm_claims := (''c1'', claim_read ''k'' ''c1'' (gm_db ?m2)) # gm_claims ?m2\<rparr>"
  have m3: "goal_run ?m3"
    by (rule goal_run.step [OF m2 goal_step.claim_reads])
  have plan: "claim_read ''k'' ''c1'' ?db = ClaimUpdate ''s'' example_goal_row"
    by (simp add: claim_read_def getSessionIdForConversation_def goal_of_def example_goal_row_def
        new_goal_row_def)
  have "(''c1'', ClaimUpdate ''s'' example_goal_row) \<in> set (gm_claims ?m3)"
    by (simp add: plan)
  then have "goal_step ?m3 (?m3\<lparr>gm_db := fst (claim_write ''c1'' 5
      (ClaimUpdate ''s'' example_goal_row) (gm_db ?m3)),
      gm_claims := remove1 (''c1'', ClaimUpdate ''s'' example_goal_row) (gm_claims ?m3)\<rparr>)"
    by (rule goal_step.claim_writes)
  then show ?thesis
    using goal_run.step [OF m3] by (simp add: plan example_goal_machine_def)
qed


subsection \<open>Claims and blockers\<close>

text \<open>Of several claims that read the same state of a goal at most one wins: once one of them
  has written, every other that read the same row finds the generation moved on, changes
  nothing and reports the mismatch; and a claim whose continuation is already counted changes
  nothing whenever it runs.\<close>

theorem one_claim_wins:
  assumes "claim_write c now (ClaimUpdate sid current) db = (db1, GoalUpdated g)"
    and "c \<noteq> gg_lastContinuationId current"
  shows "claim_write c' now' (ClaimUpdate sid current) db1 =
      (db1, GoalNotUpdated GenerationMismatch (Some (toSessionGoal current))) \<and>
    sg_generation g = c \<and>
    map_option gg_continuationsUsed (goal_of db1 sid) =
      map_option (\<lambda>r. gg_continuationsUsed r + 1) (goal_of db sid) \<and>
    (fst (claimSessionGoalContinuation conv c now'' db1) = db1 \<or>
      getSessionIdForConversation conv db1 \<noteq> Some sid)"
proof -
  obtain row where row: "goal_of db sid = Some row" "gg_status row = GoalActive"
      "db1 = touchSessionActivity sid now (put_goal sid (continue_row c now row) db)"
      "g = toSessionGoal (continue_row c now row)"
    using assms(1) by (auto simp: claim_write_def split: option.splits if_splits)
  have now: "goal_of db1 sid = Some (continue_row c now row)"
    by (simp add: row(3))
  have fields: "gg_lastContinuationId (continue_row c now row) = c"
      "gg_status (continue_row c now row) = GoalActive"
      "c \<in> set (gg_continuationIds (continue_row c now row))"
      "gg_continuationsUsed (continue_row c now row) = gg_continuationsUsed row + 1"
    using row(2) by (simp_all add: continue_row_def Let_def)
  show ?thesis
    using assms(2) row(1,4) fields
    by (auto simp: claim_write_def [of c' now'] now claimSessionGoalContinuation_def
        claim_read_def claim_write_def [of c now''] toSessionGoal_def split: option.split)
qed

theorem one_claim_wins_witness:
  "(let db = \<lparr>gd_sessions = [''s''], gd_conversations = [(''k'', ''s'')],
        gd_goals = [(''s'', example_goal_row)], gd_touches = []\<rparr>;
      db1 = fst (claim_write ''c1'' 1 (ClaimUpdate ''s'' example_goal_row) db)
    in fst (claim_write ''c2'' 2 (ClaimUpdate ''s'' example_goal_row) db1) = db1)"
proof -
  let ?db = "\<lparr>gd_sessions = [''s''], gd_conversations = [(''k'', ''s'')],
        gd_goals = [(''s'', example_goal_row)], gd_touches = []\<rparr>"
  let ?r = "claim_write ''c1'' 1 (ClaimUpdate ''s'' example_goal_row) ?db"
  have "\<exists>g. snd ?r = GoalUpdated g"
    by (simp add: claim_write_def goal_of_def example_goal_row_def new_goal_row_def)
  then obtain g where "?r = (fst ?r, GoalUpdated g)" by (metis prod.collapse)
  moreover have "''c1'' \<noteq> gg_lastContinuationId example_goal_row"
    by (simp add: example_goal_row_def new_goal_row_def)
  ultimately show ?thesis
    using one_claim_wins [of "''c1''" 1 "''s''" example_goal_row ?db "fst ?r" g "''c2''" 2]
    by (simp add: Let_def)
qed

text \<open>A goal is blocked only by the same reason reported on three turns: a report blocks
  exactly when the same reason was counted twice before and not yet on this turn; repeating a
  report within a turn changes nothing but the time; and a turn that ends without a report, or
  a different reason, starts the count again.\<close>

theorem blocked_needs_three_turns:
  assumes "row_ok row" "gg_status row = GoalActive" "hasAssignedGeneration row gen"
    and "trim r \<noteq> []" "mark_row gen MarkBlocked (Some r) now row = Inr (row', res)"
  shows "(gg_status row' = GoalBlocked \<longleftrightarrow>
      gg_blockerCandidateReason row = Some (trim r) \<and> gg_blockerCandidateCount row = 2 \<and>
      gg_blockerLastContinuationUsed row \<noteq> Some (gg_continuationsUsed row)) \<and>
    (if gg_status row' = GoalBlocked
     then res = GoalUpdated (toSessionGoal row') \<and> gg_blockedReason row' = Some (trim r)
     else res = GoalNotUpdated BlockerPending (Some (toSessionGoal row')) \<and>
       mark_row gen MarkBlocked (Some r) now row' = Inr (row', res) \<and>
       gg_blockerCandidateCount (continue_row c now' row') = gg_blockerCandidateCount row' \<and>
       gg_blockerCandidateCount (continue_row c' now'' (continue_row c now' row')) = 0 \<and>
       (if gg_blockerCandidateReason row = Some (trim r) then True
        else gg_blockerCandidateCount row' = 1))"
proof -
  have bounds: "0 \<le> gg_blockerCandidateCount row" "gg_blockerCandidateCount row \<le> 2"
    using assms(1) by (simp_all add: row_ok_def)
  have eval: "mark_row gen MarkBlocked (Some r) now row =
      (if blocker_count row (trim r) \<ge> 3
       then Inr (end_goal GoalBlocked (Some (trim r)) now row,
         GoalUpdated (toSessionGoal (end_goal GoalBlocked (Some (trim r)) now row)))
       else let u = row\<lparr>gg_blockerCandidateReason := Some (trim r),
              gg_blockerCandidateCount := blocker_count row (trim r),
              gg_blockerLastContinuationUsed := Some (gg_continuationsUsed row),
              gg_updatedAt := now\<rparr>
            in Inr (u, GoalNotUpdated BlockerPending (Some (toSessionGoal u))))"
    using assms(2,3,4) by (simp add: mark_row_def Let_def)
  show ?thesis
  proof (cases "blocker_count row (trim r) \<ge> 3")
    case True
    then have "row' = end_goal GoalBlocked (Some (trim r)) now row"
        "res = GoalUpdated (toSessionGoal row')"
      using assms(5) by (auto simp: eval)
    then show ?thesis
      using True bounds by (auto simp: end_goal_def blocker_count_def Let_def split: if_splits)
  next
    case False
    then have row': "row' = row\<lparr>gg_blockerCandidateReason := Some (trim r),
              gg_blockerCandidateCount := blocker_count row (trim r),
              gg_blockerLastContinuationUsed := Some (gg_continuationsUsed row),
              gg_updatedAt := now\<rparr>"
        "res = GoalNotUpdated BlockerPending (Some (toSessionGoal row'))"
      using assms(5) by (auto simp: eval Let_def)
    have "mark_row gen MarkBlocked (Some r) now row' = Inr (row', res)"
      using False assms(2,3,4) row'
      by (simp add: mark_row_def Let_def blocker_count_def hasAssignedGeneration_def)
    then show ?thesis
      using False bounds assms(2) row'
      by (auto simp: continue_row_def Let_def blocker_count_def split: if_splits)
  qed
qed

theorem blocked_needs_three_turns_witness:
  "(let row = example_goal_row\<lparr>gg_blockerCandidateReason := Some ''no key'',
        gg_blockerCandidateCount := 2, gg_blockerLastContinuationUsed := None\<rparr>
    in \<exists>row' res. mark_row ''goal-generation:1'' MarkBlocked (Some ''no key'') 9 row =
         Inr (row', res) \<and> gg_status row' = GoalBlocked)"
proof -
  let ?row = "example_goal_row\<lparr>gg_blockerCandidateReason := Some ''no key'',
        gg_blockerCandidateCount := 2, gg_blockerLastContinuationUsed := None\<rparr>"
  have t: "trim ''no key'' = ''no key''"
    by (simp add: trim_def trim_start_def js_space_def)
  have ok: "row_ok ?row" "gg_status ?row = GoalActive"
      "hasAssignedGeneration ?row ''goal-generation:1''"
    by (simp_all add: row_ok_def example_goal_row_def new_goal_row_def hasAssignedGeneration_def)
  obtain row' res where m: "mark_row ''goal-generation:1'' MarkBlocked (Some ''no key'') 9 ?row =
      Inr (row', res)"
  proof (cases "mark_row ''goal-generation:1'' MarkBlocked (Some ''no key'') 9 ?row")
    case (Inl e)
    then show ?thesis using ok t by (simp add: mark_row_def Let_def split: if_splits)
  next
    case (Inr p)
    then show ?thesis using that by (cases p) simp
  qed
  have "gg_status row' = GoalBlocked"
    using blocked_needs_three_turns [OF ok _ m] t
    by (simp add: example_goal_row_def new_goal_row_def)
  then show ?thesis using m by (auto simp: Let_def)
qed

text \<open>
  The guard of the budget limit does not ask whether the budget is still spent: a release that
  lands between a claim's read and its write makes room, and the goal is ended as out of budget
  all the same.
\<close>

lemma release_lands_before_the_limit:
  "(let db = gm_db example_goal_machine;
        plan = claim_read ''k'' ''c2'' db;
        db1 = fst (releaseSessionGoalContinuation ''k'' ''c1'' 6 db);
        db2 = fst (claim_write ''c2'' 7 plan db1)
    in map_option gg_continuationsUsed (goal_of db2 ''s'') = Some 0 \<and>
       map_option gg_status (goal_of db2 ''s'') = Some GoalBudgetLimited)"
  by code_simp

end
