(* ===== verification/WorkItems.thy ===== *)
theory WorkItems
  imports TaskVocabulary Tables
begin

section \<open>Claiming work items for launch\<close>

text \<open>
  \<open>packages/db/src/lib/work-item-claims.ts\<close>: the launch state machine of a work item. Each
  helper is one guarded update; it returns the row it updated or nothing. The table is a map
  from ids to rows, \<open>new Date()\<close> is the argument \<open>now\<close>, and the caller's extra predicates are a
  predicate on the row. A comparison with a null column holds of no row.
\<close>

definition WORK_ITEM_LAUNCH_STALE_CLAIM_MS :: ms where
  "WORK_ITEM_LAUNCH_STALE_CLAIM_MS = 10 * 60 * 1000"

record work_item =
  wi_kind :: string
  wi_status :: work_item_status
  wi_launchedTaskId :: "string option"
  wi_launchClaimedAt :: "ms option"
  wi_launchedAt :: "ms option"
  wi_dismissedAt :: "ms option"
  wi_launchError :: "string option"
  wi_targetEnvironmentId :: "string option"
  wi_updatedAt :: ms

type_synonym work_items = "(string, work_item) jsmap"

record claim_params =
  cp_staleClaimMs :: "ms option"
  cp_additionalClaimableStatuses :: "work_item_status list"

definition claimable :: "claim_params \<Rightarrow> ms \<Rightarrow> work_item \<Rightarrow> bool" where
  "claimable params now row \<longleftrightarrow>
     (let threshold = now - nullish_or (cp_staleClaimMs params) WORK_ITEM_LAUNCH_STALE_CLAIM_MS in
      wi_launchedTaskId row = None \<and>
      (wi_status row = WiOpen \<or>
       wi_status row \<in> set (cp_additionalClaimableStatuses params) \<or>
       wi_status row = WiLaunching \<and>
         (case wi_launchClaimedAt row of None \<Rightarrow> False | Some t \<Rightarrow> t \<le> threshold)))"

definition claimWorkItem ::
    "string \<Rightarrow> claim_params \<Rightarrow> (work_item \<Rightarrow> bool) \<Rightarrow> ms \<Rightarrow> work_items
     \<Rightarrow> work_items \<times> work_item option" where
  "claimWorkItem wid params extra now items =
     update_where wid (\<lambda>row. claimable params now row \<and> extra row)
       (\<lambda>row. row\<lparr>wi_status := WiLaunching, wi_launchClaimedAt := Some now,
                  wi_updatedAt := now\<rparr>) items"

definition owns_claim :: "ms \<Rightarrow> work_item \<Rightarrow> bool" where
  "owns_claim claimedAt row \<longleftrightarrow>
     wi_status row = WiLaunching \<and> wi_launchClaimedAt row = Some claimedAt"

definition releaseWorkItemClaim ::
    "string \<Rightarrow> ms \<Rightarrow> bool \<Rightarrow> (work_item \<Rightarrow> bool) \<Rightarrow> ms \<Rightarrow> work_items \<Rightarrow> work_items \<times> bool" where
  "releaseWorkItemClaim wid claimedAt clearDismissedAt extra now items =
     (case update_where wid (\<lambda>row. owns_claim claimedAt row \<and> extra row)
             (\<lambda>row. row\<lparr>wi_status := WiOpen, wi_launchClaimedAt := None,
                        wi_dismissedAt := (if clearDismissedAt then None else wi_dismissedAt row),
                        wi_updatedAt := now\<rparr>) items of
        (items', released) \<Rightarrow> (items', released \<noteq> None))"

record finalize_params =
  fp_taskId :: "string option"
  fp_claimedAt :: ms
  fp_clearLaunchError :: bool
  fp_clearDismissedAt :: bool
  fp_targetEnvironmentId :: "string option"

definition finalizeWorkItemLaunched ::
    "string \<Rightarrow> finalize_params \<Rightarrow> ms \<Rightarrow> work_items \<Rightarrow> work_items \<times> bool" where
  "finalizeWorkItemLaunched wid params now items =
     (case update_where wid (owns_claim (fp_claimedAt params))
             (\<lambda>row. row\<lparr>wi_status := WiLaunched, wi_launchedTaskId := fp_taskId params,
                        wi_launchedAt := Some now, wi_launchClaimedAt := None,
                        wi_launchError :=
                          (if fp_clearLaunchError params then None else wi_launchError row),
                        wi_dismissedAt :=
                          (if fp_clearDismissedAt params then None else wi_dismissedAt row),
                        wi_targetEnvironmentId :=
                          (if truthy (fp_targetEnvironmentId params)
                           then fp_targetEnvironmentId params
                           else wi_targetEnvironmentId row),
                        wi_updatedAt := now\<rparr>) items of
        (items', updated) \<Rightarrow> (items', updated \<noteq> None))"

subsection \<open>Launchers at work\<close>

datatype item_op =
    OpClaim string claim_params "work_item \<Rightarrow> bool" ms
  | OpReleaseClaim string ms bool "work_item \<Rightarrow> bool" ms
  | OpFinalize string finalize_params ms

fun op_time :: "item_op \<Rightarrow> ms" where
  "op_time (OpClaim wid params extra now) = now"
| "op_time (OpReleaseClaim wid t c extra now) = now"
| "op_time (OpFinalize wid params now) = now"

fun item_step :: "item_op \<Rightarrow> work_items \<Rightarrow> work_items" where
  "item_step (OpClaim wid params extra now) items = fst (claimWorkItem wid params extra now items)"
| "item_step (OpReleaseClaim wid t c extra now) items =
     fst (releaseWorkItemClaim wid t c extra now items)"
| "item_step (OpFinalize wid params now) items =
     fst (finalizeWorkItemLaunched wid params now items)"

lemma fst_release [simp]:
  "fst (case x of (a, b) \<Rightarrow> (a, g b)) = fst x"
  by (cases x) simp

lemmas item_helpers = claimWorkItem_def releaseWorkItemClaim_def finalizeWorkItemLaunched_def

text \<open>
  Three contracts: from a claim at \<open>t\<close> on, no token older than \<open>t\<close> comes back; a launched item
  stays launched with its task; an item being launched has a token and no task.
\<close>

definition fenced :: "ms \<Rightarrow> work_item \<Rightarrow> bool" where
  "fenced t row \<longleftrightarrow> (\<forall>c. wi_launchClaimedAt row = Some c \<longrightarrow> t \<le> c)"

definition settled :: "string \<Rightarrow> work_item \<Rightarrow> bool" where
  "settled task row \<longleftrightarrow> wi_status row = WiLaunched \<and> wi_launchedTaskId row = Some task"

definition launching_owned :: "work_item \<Rightarrow> bool" where
  "launching_owned row \<longleftrightarrow>
     (wi_status row = WiLaunching \<longrightarrow>
        wi_launchClaimedAt row \<noteq> None \<and> wi_launchedTaskId row = None)"

interpretation fence: object_contract item_step "\<lambda>opr items. t \<le> op_time opr"
    "row_all wid (fenced t)"
proof
  fix s opr
  assume "row_all wid (fenced t) s" "t \<le> op_time opr"
  then show "row_all wid (fenced t) (item_step opr s)"
    by (cases opr)
      (auto simp: item_helpers fenced_def intro!: row_all_update_where)
qed

interpretation settle: object_contract item_step "\<lambda>opr items. True" "row_is wid (settled task)"
proof
  fix s opr
  assume "row_is wid (settled task) s"
  then show "row_is wid (settled task) (item_step opr s)"
    by (cases opr)
      (auto simp: item_helpers settled_def claimable_def owns_claim_def
        intro!: row_is_update_where)
qed

interpretation owned: object_contract item_step "\<lambda>opr items. True" "row_all wid launching_owned"
proof
  fix s opr
  assume "row_all wid launching_owned s"
  then show "row_all wid launching_owned (item_step opr s)"
    by (cases opr)
      (auto simp: item_helpers launching_owned_def claimable_def owns_claim_def
        intro!: row_all_update_where)
qed

lemma fence_run: "\<forall>opr \<in> set ops. t \<le> op_time opr \<Longrightarrow> fence.admissible_run t ops s"
  by (induction ops arbitrary: s) auto

text \<open>C2: The claim time is a fencing token: once an item has been claimed at a later time, a
  launcher that still holds an older token can neither finalize nor release, whatever claims,
  releases and launches have happened since, and its attempt leaves the table as it is.\<close>

theorem stale_launcher_is_fenced_out:
  assumes "snd (claimWorkItem wid params extra t items) \<noteq> None"
    and "list_all (\<lambda>opr. t \<le> op_time opr) ops" "old < t" "fp_claimedAt fin = old"
  shows "(let table = fold item_step ops (fst (claimWorkItem wid params extra t items)) in
     finalizeWorkItemLaunched wid fin now table = (table, False) \<and>
     releaseWorkItemClaim wid old clr ex now table = (table, False))"
proof -
  have "row_all wid (fenced t) (fst (claimWorkItem wid params extra t items))"
    using assms(1)
    by (auto simp: claimWorkItem_def row_all_def map_of_update_where fenced_def)
      (auto simp: update_where_def split: option.splits if_splits)
  then have "row_all wid (fenced t)
      (fold item_step ops (fst (claimWorkItem wid params extra t items)))"
    using assms(2) by (intro fence.run_ok fence_run) (auto simp: list_all_iff)
  then show ?thesis
    using assms(3,4)
    by (auto simp: Let_def finalizeWorkItemLaunched_def releaseWorkItemClaim_def row_all_def
        fenced_def owns_claim_def update_where_def split: option.splits)
qed

definition open_item :: work_item where
  "open_item = \<lparr>wi_kind = ''suggestion'', wi_status = WiOpen, wi_launchedTaskId = None,
     wi_launchClaimedAt = None, wi_launchedAt = None, wi_dismissedAt = None,
     wi_launchError = None, wi_targetEnvironmentId = None, wi_updatedAt = 0\<rparr>"

definition default_claim :: claim_params where
  "default_claim = \<lparr>cp_staleClaimMs = None, cp_additionalClaimableStatuses = []\<rparr>"

theorem stale_launcher_is_fenced_out_witness:
  "(let first = fst (claimWorkItem ''w'' default_claim (\<lambda>r. True) 1000 [(''w'', open_item)]);
        second = fst (claimWorkItem ''w'' default_claim (\<lambda>r. True) 601000 first)
    in releaseWorkItemClaim ''w'' 1000 False (\<lambda>r. True) 601001 second = (second, False))"
proof -
  let ?first = "fst (claimWorkItem ''w'' default_claim (\<lambda>r. True) 1000 [(''w'', open_item)])"
  have "snd (claimWorkItem ''w'' default_claim (\<lambda>r. True) 601000 ?first) \<noteq> None"
    by (simp add: claimWorkItem_def update_where_def claimable_def open_item_def
        default_claim_def WORK_ITEM_LAUNCH_STALE_CLAIM_MS_def)
  from stale_launcher_is_fenced_out [OF this, of "[]" 1000
      "\<lparr>fp_taskId = None, fp_claimedAt = 1000, fp_clearLaunchError = False,
        fp_clearDismissedAt = False, fp_targetEnvironmentId = None\<rparr>"]
  show ?thesis by (simp add: Let_def)
qed

text \<open>An item is launched at most once: after a successful finalize with a task, whatever the
  launchers do next, the item stays launched with that very task and no claim, release or
  finalize of it succeeds again.\<close>

theorem launched_item_is_never_relaunched:
  assumes "finalizeWorkItemLaunched wid fin now items = (items', True)"
    and "fp_taskId fin = Some task"
  shows "(let table = fold item_step ops items' in
     (\<exists>row. map_of table wid = Some row \<and> wi_status row = WiLaunched \<and>
        wi_launchedTaskId row = Some task) \<and>
     claimWorkItem wid params extra now' table = (table, None) \<and>
     releaseWorkItemClaim wid token clr extra now' table = (table, False) \<and>
     finalizeWorkItemLaunched wid fin' now' table = (table, False))"
proof -
  have "row_is wid (settled task) items'"
    using assms
    by (auto simp: finalizeWorkItemLaunched_def update_where_def row_is_def settled_def
        update_conv' split: option.splits if_splits)
  then have "row_is wid (settled task) (fold item_step ops items')"
    by (intro settle.run_ok_always) simp_all
  then show ?thesis
    by (auto simp: Let_def row_is_def settled_def item_helpers update_where_def claimable_def
        owns_claim_def)
qed

definition task_launch :: "ms \<Rightarrow> finalize_params" where
  "task_launch token = \<lparr>fp_taskId = Some ''t1'', fp_claimedAt = token, fp_clearLaunchError = False,
     fp_clearDismissedAt = False, fp_targetEnvironmentId = None\<rparr>"

theorem launched_item_is_never_relaunched_witness:
  "(let claimed = fst (claimWorkItem ''w'' default_claim (\<lambda>r. True) 1000 [(''w'', open_item)]);
        launched = fst (finalizeWorkItemLaunched ''w'' (task_launch 1000) 1500 claimed)
    in claimWorkItem ''w'' default_claim (\<lambda>r. True) 9000000 launched = (launched, None))"
proof -
  let ?claimed = "fst (claimWorkItem ''w'' default_claim (\<lambda>r. True) 1000 [(''w'', open_item)])"
  let ?r = "finalizeWorkItemLaunched ''w'' (task_launch 1000) 1500 ?claimed"
  have "?r = (fst ?r, True)"
    by (simp add: claimWorkItem_def finalizeWorkItemLaunched_def update_where_def claimable_def
        owns_claim_def open_item_def default_claim_def task_launch_def)
  from launched_item_is_never_relaunched [OF this, of "''t1''" "[]"]
  show ?thesis by (simp add: Let_def task_launch_def)
qed

text \<open>A crash between claim and finalize never strands an item: in every table the launchers
  can reach from a well-formed one, an item left launching is refused while its claim is fresh
  and claimable again from the moment the claim is stale, and the new claim carries its own
  token.\<close>

theorem stale_claim_is_recovered:
  assumes "row_all wid launching_owned items"
    and "map_of (fold item_step ops items) wid = Some row" "wi_status row = WiLaunching"
    and "cp_additionalClaimableStatuses params = []"
  shows "(\<exists>t. wi_launchClaimedAt row = Some t \<and>
     (let stale = nullish_or (cp_staleClaimMs params) WORK_ITEM_LAUNCH_STALE_CLAIM_MS;
          result = snd (claimWorkItem wid params (\<lambda>r. True) now (fold item_step ops items)) in
      if t + stale \<le> now
      then map_option wi_launchClaimedAt result = Some (Some now)
      else result = None))"
proof -
  have "row_all wid launching_owned (fold item_step ops items)"
    using assms(1) by (intro owned.run_ok_always) simp_all
  then obtain t where "wi_launchClaimedAt row = Some t" "wi_launchedTaskId row = None"
    using assms(2,3) by (auto simp: row_all_def launching_owned_def)
  then show ?thesis
    using assms(2-4)
    by (auto simp: claimWorkItem_def update_where_def claimable_def Let_def)
qed

theorem stale_claim_is_recovered_witness:
  "(let claimed = fst (claimWorkItem ''w'' default_claim (\<lambda>r. True) 1000 [(''w'', open_item)])
    in map_option wi_launchClaimedAt
         (snd (claimWorkItem ''w'' default_claim (\<lambda>r. True) 601000 claimed)) = Some (Some 601000))"
proof -
  let ?items = "[(''w'', open_item)]"
  let ?ops = "[OpClaim ''w'' default_claim (\<lambda>r. True) 1000]"
  have "row_all ''w'' launching_owned ?items"
    by (simp add: row_all_def launching_owned_def open_item_def)
  moreover have "map_of (fold item_step ?ops ?items) ''w'' =
      Some (open_item\<lparr>wi_status := WiLaunching, wi_launchClaimedAt := Some 1000,
                      wi_updatedAt := 1000\<rparr>)"
    by (simp add: claimWorkItem_def update_where_def claimable_def open_item_def)
  ultimately show ?thesis
    using stale_claim_is_recovered [of "''w''" ?items ?ops _ default_claim 601000]
    by (simp add: Let_def default_claim_def WORK_ITEM_LAUNCH_STALE_CLAIM_MS_def)
qed

end
