(* ===== verification/StreamRegistry.thy ===== *)
theory StreamRegistry
  imports Prelude "HOL-Library.Multiset"
begin

section \<open>The registry of long-lived proxy streams\<close>

text \<open>
  \<open>apps/api/src/handlers/long-lived-proxy-stream-registry.ts\<close>: the API counts the streams it is
  proxying and warns, at most once per cooldown, when there are too many or one is too old. The
  module's variables are a record; the release function a registration returns is the operation
  \<open>releaseStream\<close> on the registration's id, with its captured \<open>released\<close> flag kept in the
  record. A warning is recorded with the facts its text is made of. The comparison
  \<open>localeCompare\<close> of route names is the argument \<open>lc\<close>.
\<close>

record stream_context =
  st_route :: string
  st_method :: string
  st_path :: string
  st_requestId :: "string option"

record active_stream =
  as_id :: nat
  as_startedAt :: ms
  as_context :: stream_context

record age_counts =
  ac_atLeast1m :: nat
  ac_atLeast5m :: nat
  ac_atLeast15m :: nat

record health_snapshot =
  hs_activeCount :: nat
  hs_oldestAgeMs :: "ms option"
  hs_countsByAge :: age_counts
  hs_byRoute :: "(string, nat) jsmap"
  hs_warningActive :: bool

record stream_warning =
  sw_at :: ms
  sw_snapshot :: health_snapshot
  sw_oldest :: "string list"

record stream_registry =
  sr_active :: "(nat, active_stream) jsmap"
  sr_nextId :: nat
  sr_interval :: bool
  sr_lastWarnAt :: ms
  sr_released :: "nat list"
  sr_warnings :: "stream_warning list"

definition ACTIVE_STREAM_WARN_THRESHOLD :: nat where
  "ACTIVE_STREAM_WARN_THRESHOLD = 20"

definition OLDEST_STREAM_WARN_THRESHOLD_MS :: ms where
  "OLDEST_STREAM_WARN_THRESHOLD_MS = 10 * 60 * 1000"

definition WARN_COOLDOWN_MS :: ms where
  "WARN_COOLDOWN_MS = 60 * 1000"

definition WARN_SAMPLE_LIMIT :: nat where
  "WARN_SAMPLE_LIMIT = 3"

definition empty_registry :: stream_registry where
  "empty_registry = \<lparr>sr_active = [], sr_nextId = 1, sr_interval = False, sr_lastWarnAt = 0,
     sr_released = [], sr_warnings = []\<rparr>"

subsection \<open>The health snapshot\<close>

definition stream_age :: "ms \<Rightarrow> active_stream \<Rightarrow> ms" where
  "stream_age now s = max 0 (now - as_startedAt s)"

record route_counts =
  rc_byRoute :: "(string, nat) jsmap"
  rc_oldestAgeMs :: "ms option"
  rc_countsByAge :: age_counts

definition count_stream :: "ms \<Rightarrow> active_stream \<Rightarrow> route_counts \<Rightarrow> route_counts" where
  "count_stream now s c =
     (let ageMs = stream_age now s; route = st_route (as_context s); a = rc_countsByAge c in
      \<lparr>rc_byRoute =
         AList.update route (nullish_or (map_of (rc_byRoute c) route) 0 + 1) (rc_byRoute c),
       rc_oldestAgeMs =
         (case rc_oldestAgeMs c of None \<Rightarrow> Some ageMs | Some oldest \<Rightarrow> Some (max oldest ageMs)),
       rc_countsByAge =
         \<lparr>ac_atLeast1m = ac_atLeast1m a + (if ageMs \<ge> 60000 then 1 else 0),
          ac_atLeast5m = ac_atLeast5m a + (if ageMs \<ge> 5 * 60000 then 1 else 0),
          ac_atLeast15m = ac_atLeast15m a + (if ageMs \<ge> 15 * 60000 then 1 else 0)\<rparr>\<rparr>)"

text \<open>\<open>sort\<close> with a comparison, stable as in the language.\<close>

fun insert_with :: "('a \<Rightarrow> 'a \<Rightarrow> bool) \<Rightarrow> 'a \<Rightarrow> 'a list \<Rightarrow> 'a list" where
  "insert_with le x [] = [x]"
| "insert_with le x (y # ys) = (if le x y then x # y # ys else y # insert_with le x ys)"

definition sort_with :: "('a \<Rightarrow> 'a \<Rightarrow> bool) \<Rightarrow> 'a list \<Rightarrow> 'a list" where
  "sort_with le xs = foldr (insert_with le) xs []"

definition buildRouteCounts ::
    "(string \<Rightarrow> string \<Rightarrow> bool) \<Rightarrow> ms \<Rightarrow> stream_registry \<Rightarrow> route_counts" where
  "buildRouteCounts lc now r =
     (let c = fold (count_stream now) (map snd (sr_active r))
                \<lparr>rc_byRoute = [], rc_oldestAgeMs = None,
                 rc_countsByAge = \<lparr>ac_atLeast1m = 0, ac_atLeast5m = 0, ac_atLeast15m = 0\<rparr>\<rparr>
      in c\<lparr>rc_byRoute := sort_with (\<lambda>x y. lc (fst x) (fst y)) (rc_byRoute c)\<rparr>)"

definition shouldWarn :: "nat \<Rightarrow> ms option \<Rightarrow> bool" where
  "shouldWarn activeCount oldestAgeMs \<longleftrightarrow>
     activeCount \<ge> ACTIVE_STREAM_WARN_THRESHOLD \<or>
     nullish_or oldestAgeMs 0 \<ge> OLDEST_STREAM_WARN_THRESHOLD_MS"

definition getLongLivedProxyStreamHealthSnapshot ::
    "(string \<Rightarrow> string \<Rightarrow> bool) \<Rightarrow> ms \<Rightarrow> stream_registry \<Rightarrow> health_snapshot" where
  "getLongLivedProxyStreamHealthSnapshot lc now r =
     (let c = buildRouteCounts lc now r; activeCount = length (sr_active r) in
      \<lparr>hs_activeCount = activeCount, hs_oldestAgeMs = rc_oldestAgeMs c,
       hs_countsByAge = rc_countsByAge c, hs_byRoute = rc_byRoute c,
       hs_warningActive = shouldWarn activeCount (rc_oldestAgeMs c)\<rparr>)"

definition getOldestSamples :: "ms \<Rightarrow> stream_registry \<Rightarrow> string list" where
  "getOldestSamples now r =
     map (\<lambda>s. let c = as_context s in
            st_route c @ '' '' @ st_method c @ '' '' @ st_path c @ '' ageMs='' @
            nat_str (nat (stream_age now s)) @
            (if truthy (st_requestId c) then '' requestId='' @ the (st_requestId c) else []))
       (take WARN_SAMPLE_LIMIT (sort_key as_startedAt (map snd (sr_active r))))"

subsection \<open>Operations\<close>

definition startWarningInterval :: "stream_registry \<Rightarrow> stream_registry" where
  "startWarningInterval r = (if sr_interval r then r else r\<lparr>sr_interval := True\<rparr>)"

definition stopWarningInterval :: "stream_registry \<Rightarrow> stream_registry" where
  "stopWarningInterval r = (if \<not> sr_interval r then r else r\<lparr>sr_interval := False\<rparr>)"

definition maybeWarnAboutLongLivedProxyStreams ::
    "(string \<Rightarrow> string \<Rightarrow> bool) \<Rightarrow> ms \<Rightarrow> stream_registry \<Rightarrow> stream_registry" where
  "maybeWarnAboutLongLivedProxyStreams lc now r =
     (let snap = getLongLivedProxyStreamHealthSnapshot lc now r
      in if \<not> hs_warningActive snap then r
         else if now - sr_lastWarnAt r < WARN_COOLDOWN_MS then r
         else let r = r\<lparr>sr_lastWarnAt := now\<rparr>
              in r\<lparr>sr_warnings := sr_warnings r @
                    [\<lparr>sw_at = now, sw_snapshot = snap, sw_oldest = getOldestSamples now r\<rparr>]\<rparr>)"

definition checkWarningInterval ::
    "(string \<Rightarrow> string \<Rightarrow> bool) \<Rightarrow> ms \<Rightarrow> stream_registry \<Rightarrow> stream_registry" where
  "checkWarningInterval lc now r =
     (if length (sr_active r) = 0 then stopWarningInterval r
      else maybeWarnAboutLongLivedProxyStreams lc now r)"

definition registerLongLivedProxyStream ::
    "(string \<Rightarrow> string \<Rightarrow> bool) \<Rightarrow> stream_context \<Rightarrow> ms \<Rightarrow> stream_registry
     \<Rightarrow> stream_registry \<times> nat" where
  "registerLongLivedProxyStream lc context now r =
     (let sid = sr_nextId r;
          r = r\<lparr>sr_nextId := sid + 1\<rparr>;
          r = r\<lparr>sr_active := AList.update sid
                  \<lparr>as_id = sid, as_startedAt = now, as_context = context\<rparr> (sr_active r)\<rparr>;
          r = maybeWarnAboutLongLivedProxyStreams lc now (startWarningInterval r)
      in (r, sid))"

definition releaseStream :: "nat \<Rightarrow> stream_registry \<Rightarrow> stream_registry" where
  "releaseStream sid r =
     (if sid \<in> set (sr_released r) then r
      else let r = r\<lparr>sr_released := sid # sr_released r\<rparr>;
               r = r\<lparr>sr_active := AList.delete sid (sr_active r)\<rparr>
           in if length (sr_active r) = 0 then stopWarningInterval r else r)"

definition resetLongLivedProxyStreamRegistryForTests :: "stream_registry \<Rightarrow> stream_registry" where
  "resetLongLivedProxyStreamRegistryForTests r =
     r\<lparr>sr_active := [], sr_nextId := 1, sr_lastWarnAt := 0, sr_interval := False\<rparr>"

subsection \<open>The snapshot is exact\<close>

lemma mset_insert_with: "mset (insert_with le x xs) = add_mset x (mset xs)"
  by (induction xs) auto

lemma mset_sort_with [simp]: "mset (sort_with le xs) = mset xs"
  unfolding sort_with_def by (induction xs) (simp_all add: mset_insert_with)

lemma distinct_sort_with: "distinct (map f (sort_with le xs)) \<longleftrightarrow> distinct (map f xs)"
  by (metis mset_eq_imp_distinct_iff mset_map mset_sort_with)

lemma sum_sort_with:
  "sum_list (map f (sort_with le xs)) = sum_list (map f xs :: nat list)"
  by (metis mset_map mset_sort_with sum_mset_sum_list)

lemma sum_values_update:
  "distinct (map fst m) \<Longrightarrow>
   sum_list (map snd (AList.update k (nullish_or (map_of m k) 0 + 1) m)) =
     sum_list (map snd m) + (1 :: nat)"
proof (induction m)
  case (Cons kv m)
  then show ?case by (cases kv) auto
qed simp

definition age_at_least :: "ms \<Rightarrow> ms \<Rightarrow> active_stream list \<Rightarrow> nat" where
  "age_at_least now bound ss = length (filter (\<lambda>s. bound \<le> stream_age now s) ss)"

lemma count_streams:
  fixes c :: route_counts
  assumes "jsmap_ok (rc_byRoute c)"
  shows "(let c' = fold (count_stream now) ss c in
     jsmap_ok (rc_byRoute c') \<and>
     sum_list (map snd (rc_byRoute c')) = sum_list (map snd (rc_byRoute c)) + length ss \<and>
     rc_countsByAge c' =
       \<lparr>ac_atLeast1m = ac_atLeast1m (rc_countsByAge c) + age_at_least now 60000 ss,
        ac_atLeast5m = ac_atLeast5m (rc_countsByAge c) + age_at_least now 300000 ss,
        ac_atLeast15m = ac_atLeast15m (rc_countsByAge c) + age_at_least now 900000 ss\<rparr> \<and>
     rc_oldestAgeMs c' =
       (if ss = [] then rc_oldestAgeMs c
        else Some (Max (set_option (rc_oldestAgeMs c) \<union> stream_age now ` set ss))))"
  using assms
proof (induction ss arbitrary: c)
  case (Cons s ss)
  let ?c = "count_stream now s c"
  have ok: "jsmap_ok (rc_byRoute ?c)"
    using Cons.prems by (simp add: count_stream_def Let_def)
  have sum: "sum_list (map snd (rc_byRoute ?c)) = sum_list (map snd (rc_byRoute c)) + 1"
    using Cons.prems sum_values_update [of "rc_byRoute c"]
    by (simp add: count_stream_def Let_def jsmap_ok_def)
  have oldest: "set_option (rc_oldestAgeMs ?c) \<noteq> {} \<and>
      Max (set_option (rc_oldestAgeMs ?c) \<union> A) =
      Max (set_option (rc_oldestAgeMs c) \<union> insert (stream_age now s) A)"
    if "finite A" for A
  proof (cases "rc_oldestAgeMs c")
    case None
    then show ?thesis by (simp add: count_stream_def Let_def)
  next
    case (Some a)
    have "Max (insert (max a b) A) = Max (insert a (insert b A))" for b
      using that by (cases "A = {}") (auto simp: Max_insert max.assoc)
    then show ?thesis using Some by (simp add: count_stream_def Let_def insert_commute)
  qed
  show ?case
    using Cons.IH [OF ok] sum oldest [of "stream_age now ` set ss"] oldest [of "{}"]
    by (cases "rc_oldestAgeMs ?c")
      (auto simp: Let_def age_at_least_def count_stream_def [of now s c])
qed (simp add: age_at_least_def)

text \<open>The health snapshot is exact at every clock reading: the route counts add up to the
  number of active streams, each age count is the number of streams at least that old (so the
  three are ordered), the oldest age is the maximum, absent exactly when no stream is active,
  and the warning flag is raised exactly at the thresholds.\<close>

theorem health_snapshot_exact:
  "(let ss = map snd (sr_active r); snap = getLongLivedProxyStreamHealthSnapshot lc now r in
     hs_activeCount snap = length ss \<and>
     sum_list (map snd (hs_byRoute snap)) = length ss \<and> distinct (map fst (hs_byRoute snap)) \<and>
     hs_oldestAgeMs snap = (if ss = [] then None else Some (Max (stream_age now ` set ss))) \<and>
     hs_countsByAge snap = \<lparr>ac_atLeast1m = age_at_least now 60000 ss,
        ac_atLeast5m = age_at_least now 300000 ss, ac_atLeast15m = age_at_least now 900000 ss\<rparr> \<and>
     (hs_warningActive snap \<longleftrightarrow>
        20 \<le> length ss \<or> (\<exists>s \<in> set ss. 600000 \<le> now - as_startedAt s)))"
proof -
  let ?ss = "map snd (sr_active r)"
  let ?c = "fold (count_stream now) ?ss \<lparr>rc_byRoute = [], rc_oldestAgeMs = None,
    rc_countsByAge = \<lparr>ac_atLeast1m = 0, ac_atLeast5m = 0, ac_atLeast15m = 0\<rparr>\<rparr>"
  have c: "distinct (map fst (rc_byRoute ?c))" "sum_list (map snd (rc_byRoute ?c)) = length ?ss"
      "rc_countsByAge ?c = \<lparr>ac_atLeast1m = age_at_least now 60000 ?ss,
        ac_atLeast5m = age_at_least now 300000 ?ss,
        ac_atLeast15m = age_at_least now 900000 ?ss\<rparr>"
      "rc_oldestAgeMs ?c = (if ?ss = [] then None else Some (Max (stream_age now ` set ?ss)))"
    using count_streams [of "\<lparr>rc_byRoute = [], rc_oldestAgeMs = None,
      rc_countsByAge = \<lparr>ac_atLeast1m = 0, ac_atLeast5m = 0, ac_atLeast15m = 0\<rparr>\<rparr>" now ?ss]
    by (simp_all add: Let_def jsmap_ok_def)
  have oldest: "600000 \<le> Max (stream_age now ` set ?ss) \<longleftrightarrow>
      (\<exists>s \<in> set ?ss. 600000 \<le> now - as_startedAt s)" if "?ss \<noteq> []"
    using that by (subst Max_ge_iff) (force simp: stream_age_def)+
  have "shouldWarn (length ?ss) (rc_oldestAgeMs ?c) \<longleftrightarrow>
      20 \<le> length ?ss \<or> (\<exists>s \<in> set ?ss. 600000 \<le> now - as_startedAt s)"
  proof (cases "?ss = []")
    case True
    then show ?thesis
      by (simp add: shouldWarn_def ACTIVE_STREAM_WARN_THRESHOLD_def
          OLDEST_STREAM_WARN_THRESHOLD_MS_def)
  next
    case False
    then have "rc_oldestAgeMs ?c = Some (Max (stream_age now ` set ?ss))" using c by simp
    then show ?thesis
      using oldest [OF False]
      by (simp add: shouldWarn_def ACTIVE_STREAM_WARN_THRESHOLD_def
          OLDEST_STREAM_WARN_THRESHOLD_MS_def)
  qed
  then show ?thesis
    using c unfolding getLongLivedProxyStreamHealthSnapshot_def buildRouteCounts_def Let_def
    by (simp add: distinct_sort_with sum_sort_with)
qed

subsection \<open>The registry's contract\<close>

datatype registry_op = Register stream_context ms | Release nat | Tick ms

fun registry_step ::
    "(string \<Rightarrow> string \<Rightarrow> bool) \<Rightarrow> registry_op \<Rightarrow> stream_registry \<Rightarrow> stream_registry" where
  "registry_step lc (Register ctx now) r = fst (registerLongLivedProxyStream lc ctx now r)"
| "registry_step lc (Release sid) r = releaseStream sid r"
| "registry_step lc (Tick now) r = checkWarningInterval lc now r"

text \<open>Only a registration gives out the function that releases its id.\<close>

fun registry_admissible :: "registry_op \<Rightarrow> stream_registry \<Rightarrow> bool" where
  "registry_admissible (Release sid) r = (1 \<le> sid \<and> sid < sr_nextId r)"
| "registry_admissible _ r = True"

text \<open>
  The active streams are those registered and not released; the interval runs exactly while
  there is one; warnings are a cooldown apart.
\<close>

definition spaced_warnings :: "stream_registry \<Rightarrow> bool" where
  "spaced_warnings r \<longleftrightarrow>
     successively (\<lambda>a b. sw_at a + WARN_COOLDOWN_MS \<le> sw_at b) (sr_warnings r) \<and>
     (sr_warnings r \<noteq> [] \<longrightarrow> sw_at (last (sr_warnings r)) = sr_lastWarnAt r)"

definition registry_ok :: "stream_registry \<Rightarrow> bool" where
  "registry_ok r \<longleftrightarrow>
     distinct (map fst (sr_active r)) \<and> 1 \<le> sr_nextId r \<and>
     set (sr_released r) \<subseteq> {1..<sr_nextId r} \<and>
     fst ` set (sr_active r) = {1..<sr_nextId r} - set (sr_released r) \<and>
     (sr_interval r \<longleftrightarrow> sr_active r \<noteq> []) \<and>
     spaced_warnings r"

lemma warn_keeps:
  "sr_active (maybeWarnAboutLongLivedProxyStreams lc now r) = sr_active r"
  "sr_nextId (maybeWarnAboutLongLivedProxyStreams lc now r) = sr_nextId r"
  "sr_interval (maybeWarnAboutLongLivedProxyStreams lc now r) = sr_interval r"
  "sr_released (maybeWarnAboutLongLivedProxyStreams lc now r) = sr_released r"
  by (simp_all add: maybeWarnAboutLongLivedProxyStreams_def Let_def)

lemma warn_spaced:
  "spaced_warnings r \<Longrightarrow> spaced_warnings (maybeWarnAboutLongLivedProxyStreams lc now r)"
  by (cases "sr_warnings r = []")
    (auto simp: maybeWarnAboutLongLivedProxyStreams_def Let_def spaced_warnings_def
      successively_append_iff)

lemma spaced_other_fields:
  "sr_warnings r' = sr_warnings r \<Longrightarrow> sr_lastWarnAt r' = sr_lastWarnAt r \<Longrightarrow>
   spaced_warnings r' = spaced_warnings r"
  by (simp add: spaced_warnings_def)

lemma startWarningInterval_sets: "startWarningInterval r = r\<lparr>sr_interval := True\<rparr>"
  by (cases r) (simp add: startWarningInterval_def)

lemma register_ok:
  assumes ok: "registry_ok r"
  shows "registry_ok (fst (registerLongLivedProxyStream lc ctx now r))"
proof -
  let ?n = "sr_nextId r"
  have keys: "fst ` set (AList.update ?n v (sr_active r)) = {1..<?n + 1} - set (sr_released r)"
    for v
  proof -
    have "fst ` set (AList.update ?n v (sr_active r)) = insert ?n (fst ` set (sr_active r))"
      using dom_update [of ?n v "sr_active r"] by (simp add: dom_map_of_conv_image_fst)
    also have "\<dots> = {1..<?n + 1} - set (sr_released r)"
      using ok by (auto simp: registry_ok_def)
    finally show ?thesis .
  qed
  moreover have "?n \<in> {1..<?n + 1} - set (sr_released r)"
    using ok by (auto simp: registry_ok_def)
  ultimately have ne: "AList.update ?n v (sr_active r) \<noteq> []" for v
    by (metis empty_iff image_is_empty set_empty)
  have range: "set (sr_released r) \<subseteq> {1..<?n + 1}" "1 \<le> ?n + 1"
    using ok by (auto simp: registry_ok_def)
  have warned: "spaced_warnings (maybeWarnAboutLongLivedProxyStreams lc now r')"
    if "sr_warnings r' = sr_warnings r" "sr_lastWarnAt r' = sr_lastWarnAt r" for r'
    using warn_spaced [of r' lc now] spaced_other_fields [OF that] ok
    by (simp add: registry_ok_def)
  let ?A = "AList.update ?n \<lparr>as_id = ?n, as_startedAt = now, as_context = ctx\<rparr> (sr_active r)"
  have eq: "fst (registerLongLivedProxyStream lc ctx now r) =
      maybeWarnAboutLongLivedProxyStreams lc now
        (r\<lparr>sr_nextId := ?n + 1, sr_active := ?A, sr_interval := True\<rparr>)"
    by (simp add: registerLongLivedProxyStream_def Let_def startWarningInterval_sets)
  have "distinct (map fst ?A)"
    using ok by (simp add: registry_ok_def distinct_update)
  then show ?thesis
    unfolding eq registry_ok_def warn_keeps using keys ne range
    by (intro conjI warned) simp_all
qed

lemma release_ok:
  assumes ok: "registry_ok r" and sid: "1 \<le> sid" "sid < sr_nextId r"
  shows "registry_ok (releaseStream sid r)"
proof -
  have "fst ` set (AList.delete sid (sr_active r)) =
      {1..<sr_nextId r} - set (sid # sr_released r)"
    using ok by (auto simp: registry_ok_def dom_map_of_conv_image_fst [symmetric] delete_conv')
  moreover have "sr_interval r \<or> AList.delete sid (sr_active r) = []"
    using ok by (cases "sr_active r") (auto simp: registry_ok_def)
  ultimately show ?thesis
    using ok sid
    by (auto simp: registry_ok_def releaseStream_def Let_def stopWarningInterval_def
        distinct_delete elim: spaced_other_fields [THEN iffD1, rotated 2])
qed

lemma tick_ok: "registry_ok r \<Longrightarrow> registry_ok (checkWarningInterval lc now r)"
  by (auto simp: registry_ok_def checkWarningInterval_def stopWarningInterval_def warn_keeps
      intro: warn_spaced elim: spaced_other_fields [THEN iffD1, rotated 2])

interpretation registry: object_contract "registry_step lc" registry_admissible registry_ok
proof
  show "registry_ok s \<Longrightarrow> registry_admissible opr s \<Longrightarrow> registry_ok (registry_step lc opr s)"
    for s opr
    by (cases opr) (simp_all add: register_ok release_ok tick_ok)
qed

text \<open>In any life of the registry a stream is active exactly from its registration to its
  release, whichever order streams end in and however often a release function is called; the
  warning timer runs exactly while a stream is active; and no two warnings are less than a
  minute apart.\<close>

theorem registry_tracks_active_streams:
  assumes "registry.admissible_run lc ops empty_registry"
  shows "(let r = fold (registry_step lc) ops empty_registry in
     fst ` set (sr_active r) = {1..<sr_nextId r} - set (sr_released r) \<and>
     distinct (map fst (sr_active r)) \<and>
     (sr_interval r \<longleftrightarrow> sr_active r \<noteq> []) \<and>
     successively (\<lambda>a b. sw_at a + 60000 \<le> sw_at b) (sr_warnings r) \<and>
     releaseStream sid (releaseStream sid r) = releaseStream sid r)"
proof -
  have start: "registry_ok empty_registry"
    by (simp add: registry_ok_def empty_registry_def spaced_warnings_def)
  have "registry_ok (fold (registry_step lc) ops empty_registry)"
    by (rule registry.run_ok [OF start assms])
  then show ?thesis
    by (auto simp: Let_def registry_ok_def spaced_warnings_def WARN_COOLDOWN_MS_def
        releaseStream_def stopWarningInterval_def)
qed

definition example_context :: stream_context where
  "example_context =
     \<lparr>st_route = ''/mcp'', st_method = ''GET'', st_path = ''/mcp/x'', st_requestId = None\<rparr>"

theorem registry_tracks_active_streams_witness:
  "(let r = fold (registry_step (\<lambda>a b. True))
       [Register example_context 0, Register example_context 5, Release 1] empty_registry
    in fst ` set (sr_active r) = {2} \<and> sr_interval r)"
proof -
  let ?ops = "[Register example_context 0, Register example_context 5, Release 1]"
  let ?r = "fold (registry_step (\<lambda>a b. True)) ?ops empty_registry"
  have adm: "registry.admissible_run (\<lambda>a b. True) ?ops empty_registry"
    by (simp add: registerLongLivedProxyStream_def Let_def warn_keeps startWarningInterval_def
        empty_registry_def)
  have "sr_nextId ?r = 3 \<and> sr_released ?r = [1]"
    by (simp add: registerLongLivedProxyStream_def Let_def warn_keeps startWarningInterval_def
        empty_registry_def releaseStream_def stopWarningInterval_def)
  then have "fst ` set (sr_active ?r) = {1..<3} - {1}" "sr_interval ?r \<longleftrightarrow> sr_active ?r \<noteq> []"
    using registry_tracks_active_streams [OF adm] by (simp_all add: Let_def)
  moreover have "{1..<3} - {1} = {2 :: nat}" by auto
  ultimately show ?thesis by (auto simp: Let_def)
qed

end
