(* ===== verification/ResumeStore.thy ===== *)
theory ResumeStore
  imports Prelude
begin

section \<open>The gateway's resume checkpoint\<close>

text \<open>
  \<open>DiscordGatewayResumeStore\<close> of \<open>apps/discord-gateway/src/gateway-resume-store.ts\<close> and its rows
  (\<open>packages/sdk/src/server/lib/discord-persistence.ts\<close>). The store keeps, per shard, the session
  the library observed, the sequence known to be in the database, the acknowledged sequences not
  yet contiguous with it and a pending sequence not yet written. \<open>flush\<close> and \<open>update\<close> wait for
  the database, so each is two functions, before and after the wait. Safe integers are integers.
\<close>

subsection \<open>The rows\<close>

record gateway_row =
  gr_sessionId :: "string option"
  gr_resumeGatewayUrl :: "string option"
  gr_sequence :: "int option"
  gr_shardCount :: "nat option"
  gr_lastConnectedAt :: "ms option"
  gr_disconnectedAt :: "ms option"
  gr_lastError :: "string option"
  gr_lastHeartbeatAckAt :: "ms option"
  gr_updatedAt :: ms

record session_key =
  sk_tokenFingerprint :: string
  sk_shardId :: nat

record resume_state =
  re_sessionId :: string
  re_resumeGatewayUrl :: string
  re_sequence :: int
  re_shardId :: nat
  re_shardCount :: nat

type_synonym gateway_rows = "(string, gateway_row) jsmap"

definition discordGatewaySessionRowId :: "session_key \<Rightarrow> string" where
  "discordGatewaySessionRowId input =
     sk_tokenFingerprint input @ '':'' @ nat_str (sk_shardId input)"

definition findDiscordGatewayResumeState ::
    "session_key \<Rightarrow> gateway_rows \<Rightarrow> resume_state option" where
  "findDiscordGatewayResumeState input rows =
     (case map_of rows (discordGatewaySessionRowId input) of
        None \<Rightarrow> None
      | Some state \<Rightarrow>
          (case (gr_sequence state, gr_shardCount state) of
             (Some sequence, Some shardCount) \<Rightarrow>
               if \<not> truthy (gr_sessionId state) \<or> \<not> truthy (gr_resumeGatewayUrl state) then None
               else Some \<lparr>re_sessionId = the (gr_sessionId state),
                          re_resumeGatewayUrl = the (gr_resumeGatewayUrl state),
                          re_sequence = sequence, re_shardId = sk_shardId input,
                          re_shardCount = shardCount\<rparr>
           | _ \<Rightarrow> None))"

text \<open>An upsert keeps the column the statement does not name.\<close>

definition saveDiscordGatewayResumeState ::
    "session_key \<Rightarrow> string \<Rightarrow> string \<Rightarrow> int \<Rightarrow> nat \<Rightarrow> ms \<Rightarrow> gateway_rows \<Rightarrow> gateway_rows" where
  "saveDiscordGatewayResumeState input sessionId url seqn shardCount now rows =
     (let rid = discordGatewaySessionRowId input in
      AList.update rid
        \<lparr>gr_sessionId = Some sessionId, gr_resumeGatewayUrl = Some url,
         gr_sequence = Some seqn, gr_shardCount = Some shardCount,
         gr_lastConnectedAt = Some now, gr_disconnectedAt = None, gr_lastError = None,
         gr_lastHeartbeatAckAt =
           Option.bind (map_of rows rid) gr_lastHeartbeatAckAt,
         gr_updatedAt = now\<rparr> rows)"

definition update_row ::
    "string \<Rightarrow> (gateway_row \<Rightarrow> gateway_row) \<Rightarrow> gateway_rows \<Rightarrow> gateway_rows" where
  "update_row rid f rows =
     (case map_of rows rid of None \<Rightarrow> rows | Some row \<Rightarrow> AList.update rid (f row) rows)"

definition updateDiscordGatewaySequence ::
    "session_key \<Rightarrow> int \<Rightarrow> ms \<Rightarrow> gateway_rows \<Rightarrow> gateway_rows" where
  "updateDiscordGatewaySequence input seqn now rows =
     update_row (discordGatewaySessionRowId input)
       (\<lambda>row. row\<lparr>gr_sequence := Some seqn, gr_updatedAt := now\<rparr>) rows"

definition recordDiscordGatewayHeartbeatAck ::
    "session_key \<Rightarrow> ms \<Rightarrow> gateway_rows \<Rightarrow> gateway_rows" where
  "recordDiscordGatewayHeartbeatAck input acknowledgedAt rows =
     update_row (discordGatewaySessionRowId input)
       (\<lambda>row. row\<lparr>gr_lastHeartbeatAckAt := Some acknowledgedAt, gr_updatedAt := acknowledgedAt\<rparr>) rows"

definition clearDiscordGatewayResumeState ::
    "session_key \<Rightarrow> ms \<Rightarrow> string option \<Rightarrow> gateway_rows \<Rightarrow> gateway_rows" where
  "clearDiscordGatewayResumeState input now lastError rows =
     (let rid = discordGatewaySessionRowId input in
      AList.update rid
        \<lparr>gr_sessionId = None, gr_resumeGatewayUrl = None, gr_sequence = None,
         gr_shardCount = None,
         gr_lastConnectedAt = Option.bind (map_of rows rid) gr_lastConnectedAt,
         gr_disconnectedAt = Some now, gr_lastError = lastError,
         gr_lastHeartbeatAckAt = Option.bind (map_of rows rid) gr_lastHeartbeatAckAt,
         gr_updatedAt = now\<rparr> rows)"

subsection \<open>The repository's contract\<close>

text \<open>
  What the store relies on: a saved session is found again, writing a sequence changes the
  sequence of a session that is there and nothing else, clearing removes it, a heartbeat changes
  nothing that is read back, and no operation touches another key.
\<close>

locale resume_repository =
  fixes find_state :: "'key \<Rightarrow> 'db \<Rightarrow> resume_state option"
    and save :: "'key \<Rightarrow> string \<Rightarrow> string \<Rightarrow> int \<Rightarrow> nat \<Rightarrow> ms \<Rightarrow> 'db \<Rightarrow> 'db"
    and write_sequence :: "'key \<Rightarrow> int \<Rightarrow> ms \<Rightarrow> 'db \<Rightarrow> 'db"
    and clear_state :: "'key \<Rightarrow> ms \<Rightarrow> string option \<Rightarrow> 'db \<Rightarrow> 'db"
    and heartbeat :: "'key \<Rightarrow> ms \<Rightarrow> 'db \<Rightarrow> 'db"
    and shard :: "'key \<Rightarrow> nat"
    and no_session :: "'key \<Rightarrow> 'db \<Rightarrow> bool"
  assumes find_save: "sid \<noteq> [] \<Longrightarrow> url \<noteq> [] \<Longrightarrow>
      find_state k (save k sid url q n now db) =
        Some \<lparr>re_sessionId = sid, re_resumeGatewayUrl = url, re_sequence = q,
              re_shardId = shard k, re_shardCount = n\<rparr>"
    and find_write: "find_state k db = Some s \<Longrightarrow>
        find_state k (write_sequence k q now db) = Some (s\<lparr>re_sequence := q\<rparr>)"
    and find_none: "no_session k db \<Longrightarrow> find_state k db = None"
    and clear_none: "no_session k (clear_state k now e db)"
    and write_none: "no_session k db \<Longrightarrow> no_session k (write_sequence k q now db)"
    and find_heartbeat: "find_state k (heartbeat k now db) = find_state k db"
    and find_other: "k' \<noteq> k \<Longrightarrow> find_state k (save k' sid url q n now db) = find_state k db"
      "k' \<noteq> k \<Longrightarrow> find_state k (write_sequence k' q now db) = find_state k db"
      "k' \<noteq> k \<Longrightarrow> find_state k (clear_state k' now e db) = find_state k db"
      "k' \<noteq> k \<Longrightarrow> find_state k (heartbeat k' now db) = find_state k db"
begin

text \<open>The sequence a session is found with is the last one written since it was saved.\<close>

lemma found_after_writes:
  assumes "sid \<noteq> []" "url \<noteq> []"
  shows "find_state k (fold (\<lambda>(q, t). write_sequence k q t) writes
           (save k sid url q0 n now db)) =
         Some \<lparr>re_sessionId = sid, re_resumeGatewayUrl = url,
               re_sequence = last (q0 # map fst writes), re_shardId = shard k,
               re_shardCount = n\<rparr>"
proof (induction writes rule: rev_induct)
  case Nil
  then show ?case using assms by (simp add: find_save)
next
  case (snoc w writes)
  then show ?case by (cases w) (simp add: find_write)
qed

lemma cleared_stays_cleared:
  "find_state k (fold (\<lambda>(q, t). write_sequence k q t) writes (clear_state k now e db)) = None"
proof (rule find_none, induction writes rule: rev_induct)
  case Nil
  then show ?case by (simp add: clear_none)
next
  case (snoc w writes)
  then show ?case by (cases w) (simp add: write_none)
qed

end

lemma row_id_inject: "discordGatewaySessionRowId k = discordGatewaySessionRowId k' \<longleftrightarrow> k = k'"
proof
  have shard: "takeWhile (\<lambda>c. c \<noteq> CHR '':'') (rev (discordGatewaySessionRowId k)) =
      rev (nat_str (sk_shardId k))" for k
  proof -
    have "c \<noteq> CHR '':''" if "c \<in> set (nat_str n)" for c n
      using nat_str_digits [of n] that by (auto simp: is_digit_def)
    then show ?thesis
      by (simp add: discordGatewaySessionRowId_def takeWhile_append takeWhile_eq_all_conv)
  qed
  assume eq: "discordGatewaySessionRowId k = discordGatewaySessionRowId k'"
  then have "sk_shardId k = sk_shardId k'"
    using shard [of k] shard [of k'] by simp
  moreover then have "sk_tokenFingerprint k = sk_tokenFingerprint k'"
    using eq by (simp add: discordGatewaySessionRowId_def)
  ultimately show "k = k'" by (cases k; cases k') simp
qed simp

lemma map_of_update_row:
  "map_of (update_row rid f rows) r =
     (if r = rid then map_option f (map_of rows rid) else map_of rows r)"
  by (auto simp: update_row_def update_conv' split: option.split)

text \<open>The row names no session, so a sequence written to it is never read back.\<close>

definition row_without_session :: "session_key \<Rightarrow> gateway_rows \<Rightarrow> bool" where
  "row_without_session k rows \<longleftrightarrow>
     \<not> truthy (Option.bind (map_of rows (discordGatewaySessionRowId k)) gr_sessionId)"

interpretation rows: resume_repository findDiscordGatewayResumeState saveDiscordGatewayResumeState
    updateDiscordGatewaySequence clearDiscordGatewayResumeState recordDiscordGatewayHeartbeatAck
    sk_shardId row_without_session
  by unfold_locales
    (auto simp: row_without_session_def findDiscordGatewayResumeState_def saveDiscordGatewayResumeState_def
      updateDiscordGatewaySequence_def clearDiscordGatewayResumeState_def
      recordDiscordGatewayHeartbeatAck_def map_of_update_row update_conv' row_id_inject Let_def
      split: option.splits bind_splits if_splits)

text \<open>The rows keep what the gateway needs to resume: whatever sequences are written after a
  session is saved, it is found with its own identity and the last of them; after a clear
  nothing is found however many late writes follow; and rows of other bots or shards are never
  affected.\<close>

theorem resume_rows_round_trip:
  assumes "sid \<noteq> []" "url \<noteq> []" "k' \<noteq> k"
  shows "(let saved = saveDiscordGatewayResumeState k sid url q0 n now rows;
              write = (\<lambda>(q, t). updateDiscordGatewaySequence k q t) in
     findDiscordGatewayResumeState k (fold write writes saved) =
       Some \<lparr>re_sessionId = sid, re_resumeGatewayUrl = url,
             re_sequence = last (q0 # map fst writes), re_shardId = sk_shardId k,
             re_shardCount = n\<rparr> \<and>
     findDiscordGatewayResumeState k
       (fold write writes (clearDiscordGatewayResumeState k now e rows)) = None \<and>
     findDiscordGatewayResumeState k' saved = findDiscordGatewayResumeState k' rows \<and>
     findDiscordGatewayResumeState k' (updateDiscordGatewaySequence k q0 now rows) =
       findDiscordGatewayResumeState k' rows)"
  using rows.found_after_writes [OF assms(1,2)] rows.cleared_stays_cleared
    rows.find_other [OF assms(3) [symmetric]]
  by (simp add: Let_def)

theorem resume_rows_round_trip_witness:
  "findDiscordGatewayResumeState \<lparr>sk_tokenFingerprint = ''t'', sk_shardId = 0\<rparr>
     (updateDiscordGatewaySequence \<lparr>sk_tokenFingerprint = ''t'', sk_shardId = 0\<rparr> 9 2
       (saveDiscordGatewayResumeState \<lparr>sk_tokenFingerprint = ''t'', sk_shardId = 0\<rparr>
          ''s'' ''u'' 1 1 1 [])) =
   Some \<lparr>re_sessionId = ''s'', re_resumeGatewayUrl = ''u'', re_sequence = 9, re_shardId = 0,
         re_shardCount = 1\<rparr>"
  using resume_rows_round_trip [where sid = "''s''" and url = "''u''"
      and k = "\<lparr>sk_tokenFingerprint = ''t'', sk_shardId = 0\<rparr>"
      and k' = "\<lparr>sk_tokenFingerprint = ''t'', sk_shardId = 1\<rparr>"
      and writes = "[(9, 2)]" and ?q0.0 = 1 and n = 1 and now = 1 and rows = "[]"]
  by (simp add: Let_def)

subsection \<open>The store\<close>

definition MAX_UNCHECKPOINTED_DISPATCHES_PER_SHARD :: nat where
  "MAX_UNCHECKPOINTED_DISPATCHES_PER_SHARD = 1000"

record session_info =
  gs_sessionId :: string
  gs_resumeURL :: string
  gs_sequence :: int
  gs_shardId :: nat
  gs_shardCount :: nat

record resume_store =
  rs_sessions :: "(nat, session_info option) jsmap"
  rs_loaded :: "nat list"
  rs_durable :: "(nat, int) jsmap"
  rs_acks :: "(nat, int list) jsmap"
  rs_pending :: "(nat, int) jsmap"
  rs_flushTimer :: bool
  rs_activeFlush :: "(nat, int) jsmap option"
  rs_preserveClears :: bool

definition new_resume_store :: resume_store where
  "new_resume_store =
     \<lparr>rs_sessions = [], rs_loaded = [], rs_durable = [], rs_acks = [], rs_pending = [],
      rs_flushTimer = False, rs_activeFlush = None, rs_preserveClears = False\<rparr>"

definition observed_session :: "nat \<Rightarrow> resume_store \<Rightarrow> session_info option" where
  "observed_session shardId s = nullish_or (map_of (rs_sessions s) shardId) None"

definition committedSession :: "nat \<Rightarrow> resume_store \<Rightarrow> session_info option" where
  "committedSession shardId s =
     (case observed_session shardId s of
        None \<Rightarrow> None
      | Some observed \<Rightarrow>
          (let committedSequence =
                 (case (map_of (rs_durable s) shardId, map_of (rs_pending s) shardId) of
                    (None, p) \<Rightarrow> p
                  | (Some d, None) \<Rightarrow> Some d
                  | (Some d, Some p) \<Rightarrow> Some (max d p))
           in map_option (\<lambda>c. observed\<lparr>gs_sequence := min (gs_sequence observed) c\<rparr>)
                committedSequence))"

text \<open>The first read of a shard goes to the repository, whose answer is \<open>persisted\<close>.\<close>

definition retrieve_loaded :: "nat \<Rightarrow> resume_state option \<Rightarrow> resume_store \<Rightarrow> resume_store" where
  "retrieve_loaded shardId persisted s =
     (let session = map_option (\<lambda>p. \<lparr>gs_sessionId = re_sessionId p,
                        gs_resumeURL = re_resumeGatewayUrl p, gs_sequence = re_sequence p,
                        gs_shardId = re_shardId p, gs_shardCount = re_shardCount p\<rparr>) persisted;
          s = s\<lparr>rs_loaded := List.insert shardId (rs_loaded s),
                rs_sessions := AList.update shardId session (rs_sessions s)\<rparr>
      in case session of
           None \<Rightarrow> s
         | Some i \<Rightarrow> s\<lparr>rs_durable := AList.update shardId (gs_sequence i) (rs_durable s)\<rparr>)"

definition retrieve ::
    "(nat \<Rightarrow> resume_state option) \<Rightarrow> nat \<Rightarrow> resume_store
     \<Rightarrow> resume_store \<times> session_info option" where
  "retrieve find_persisted shardId s =
     (let s = (if shardId \<in> set (rs_loaded s) then s
               else retrieve_loaded shardId (find_persisted shardId) s)
      in (s, committedSession shardId s))"

datatype update_request = NoRequest | ClearRow | SaveRow session_info

definition update_begin ::
    "nat \<Rightarrow> session_info option \<Rightarrow> resume_store \<Rightarrow> resume_store \<times> update_request" where
  "update_begin shardId session s =
     (let previous = observed_session shardId s;
          s = s\<lparr>rs_loaded := List.insert shardId (rs_loaded s),
                rs_sessions := AList.update shardId session (rs_sessions s)\<rparr>
      in case session of
           None \<Rightarrow>
             (s\<lparr>rs_pending := AList.delete shardId (rs_pending s),
                rs_durable := AList.delete shardId (rs_durable s),
                rs_acks := AList.delete shardId (rs_acks s)\<rparr>,
              if rs_preserveClears s then NoRequest else ClearRow)
         | Some i \<Rightarrow>
             (if (case previous of
                    None \<Rightarrow> True
                  | Some p \<Rightarrow> gs_sessionId p \<noteq> gs_sessionId i \<or> gs_resumeURL p \<noteq> gs_resumeURL i
                      \<or> gs_shardCount p \<noteq> gs_shardCount i)
              then (s\<lparr>rs_pending := AList.delete shardId (rs_pending s),
                      rs_acks := AList.delete shardId (rs_acks s)\<rparr>, SaveRow i)
              else (s, NoRequest)))"

definition update_saved :: "nat \<Rightarrow> session_info \<Rightarrow> resume_store \<Rightarrow> resume_store" where
  "update_saved shardId session s =
     s\<lparr>rs_durable := AList.update shardId (gs_sequence session) (rs_durable s)\<rparr>"

text \<open>The loop that consumes acknowledgements while the next sequence is among them.\<close>

function drain :: "int \<Rightarrow> int list \<Rightarrow> int \<times> int list" where
  "drain c acks = (if c + 1 \<in> set acks then drain (c + 1) (remove1 (c + 1) acks) else (c, acks))"
  by auto
termination
  by (relation "measure (\<lambda>(c, acks). length acks)")
    (auto simp: length_remove1 dest: length_pos_if_in_set)

declare drain.simps [simp del]

definition scheduleFlush :: "resume_store \<Rightarrow> resume_store" where
  "scheduleFlush s = (if rs_flushTimer s then s else s\<lparr>rs_flushTimer := True\<rparr>)"

definition checkpoint :: "nat \<Rightarrow> resume_store \<Rightarrow> int" where
  "checkpoint shardId s =
     max (nullish_or (map_of (rs_durable s) shardId) (- 1))
         (nullish_or (map_of (rs_pending s) shardId) (- 1))"

definition acknowledgeDispatch :: "nat \<Rightarrow> int \<Rightarrow> resume_store \<Rightarrow> resume_store \<times> bool" where
  "acknowledgeDispatch shardId seqn s =
     (case observed_session shardId s of
        None \<Rightarrow> (s, False)
      | Some observed \<Rightarrow>
          (let acknowledged = min seqn (gs_sequence observed);
               checkpointSequence = checkpoint shardId s
           in if acknowledged \<le> checkpointSequence then (s, True)
              else let acks = nullish_or (map_of (rs_acks s) shardId) []
                   in if length acks \<ge> MAX_UNCHECKPOINTED_DISPATCHES_PER_SHARD
                         \<and> acknowledged \<notin> set acks then (s, False)
                      else let acks = List.insert acknowledged acks;
                               drained = drain checkpointSequence acks;
                               s = s\<lparr>rs_acks := AList.update shardId (snd drained) (rs_acks s)\<rparr>
                           in if fst drained = checkpointSequence then (s, True)
                              else (scheduleFlush (s\<lparr>rs_pending :=
                                      AList.update shardId (fst drained) (rs_pending s)\<rparr>), True)))"

text \<open>
  A flush up to the database writes, which are the second result, and its two continuations. A
  caller that finds a flush under way waits for it and tries again.
\<close>

definition flush_begin :: "resume_store \<Rightarrow> resume_store \<times> (nat, int) jsmap option" where
  "flush_begin s =
     (if rs_activeFlush s \<noteq> None then (s, None)
      else let s = s\<lparr>rs_flushTimer := False\<rparr>
           in if rs_pending s = [] then (s, None)
              else (s\<lparr>rs_pending := [], rs_activeFlush := Some (rs_pending s)\<rparr>,
                    Some (rs_pending s)))"

definition raise_to :: "nat \<times> int \<Rightarrow> (nat, int) jsmap \<Rightarrow> (nat, int) jsmap" where
  "raise_to entry m =
     (let shardId = fst entry; sq = snd entry
      in AList.update shardId (max sq (nullish_or (map_of m shardId) sq)) m)"

definition flush_done :: "(nat, int) jsmap \<Rightarrow> resume_store \<Rightarrow> resume_store" where
  "flush_done pending s =
     s\<lparr>rs_durable := fold raise_to pending (rs_durable s), rs_activeFlush := None\<rparr>"

definition flush_failed :: "(nat, int) jsmap \<Rightarrow> resume_store \<Rightarrow> resume_store" where
  "flush_failed pending s =
     s\<lparr>rs_pending := fold raise_to pending (rs_pending s), rs_activeFlush := None\<rparr>"

definition beginSessionHandoff :: "resume_store \<Rightarrow> resume_store" where
  "beginSessionHandoff s = s\<lparr>rs_preserveClears := True\<rparr>"

definition endSessionHandoff :: "resume_store \<Rightarrow> resume_store" where
  "endSessionHandoff s = s\<lparr>rs_preserveClears := False\<rparr>"

lemma drain_spec:
  "(case drain c acks of (c', acks') \<Rightarrow>
     c \<le> c' \<and> set acks' \<subseteq> set acks \<and> {c<..c'} \<subseteq> set acks)"
proof (induction c acks rule: drain.induct)
  case (1 c acks)
  show ?case
  proof (cases "c + 1 \<in> set acks")
    case True
    obtain c' acks' where d: "drain (c + 1) (remove1 (c + 1) acks) = (c', acks')"
      by (cases "drain (c + 1) (remove1 (c + 1) acks)")
    have "c + 1 \<le> c'" "set acks' \<subseteq> set acks" "{c + 1<..c'} \<subseteq> set acks"
      using 1 [OF True] d set_remove1_subset [of "c + 1" acks] by auto
    moreover have "{c<..c'} \<subseteq> insert (c + 1) {c + 1<..c'}" by auto
    ultimately show ?thesis using True d by (auto simp: drain.simps [of c acks])
  next
    case False
    then show ?thesis by (simp add: drain.simps [of c acks])
  qed
qed

lemma map_of_raise_all:
  "distinct (map fst kvs) \<Longrightarrow>
   map_of (fold raise_to kvs m) k =
     (case map_of kvs k of
        None \<Rightarrow> map_of m k
      | Some q \<Rightarrow> Some (max q (nullish_or (map_of m k) q)))"
proof (induction kvs arbitrary: m)
  case (Cons kv kvs)
  obtain k' q where kv: "kv = (k', q)" by (cases kv)
  have "map_of kvs k' = None" using Cons.prems kv by (auto simp: map_of_eq_None_iff)
  then show ?case
    using Cons kv by (auto simp: raise_to_def update_conv' split: option.split)
qed simp

subsection \<open>A gateway process and its restarts\<close>

text \<open>
  The machine runs the store against its rows. For the specification it keeps, per shard, the
  sequence the session was saved at and the set of sequences acknowledged since. Sessions begin,
  at a sequence that is not negative, and end while no flush is under way; a failed flush and a crash may have written any part of
  what they were writing.
\<close>

record gateway =
  gw_store :: resume_store
  gw_rows :: gateway_rows
  gw_base :: "nat \<Rightarrow> int"
  gw_acked :: "nat \<Rightarrow> int set"

definition shard_key :: "string \<Rightarrow> nat \<Rightarrow> session_key" where
  "shard_key fp sh = \<lparr>sk_tokenFingerprint = fp, sk_shardId = sh\<rparr>"

definition new_gateway :: gateway where
  "new_gateway =
     \<lparr>gw_store = new_resume_store, gw_rows = [], gw_base = (\<lambda>sh. 0), gw_acked = (\<lambda>sh. {})\<rparr>"

definition write_all :: "string \<Rightarrow> ms \<Rightarrow> (nat, int) jsmap \<Rightarrow> gateway_rows \<Rightarrow> gateway_rows" where
  "write_all fp now pending rows =
     fold (\<lambda>(sh, q). updateDiscordGatewaySequence (shard_key fp sh) q now) pending rows"

definition connect_session ::
    "string \<Rightarrow> ms \<Rightarrow> nat \<Rightarrow> session_info \<Rightarrow> gateway \<Rightarrow> gateway" where
  "connect_session fp now sh i g =
     g\<lparr>gw_store := update_saved sh i (fst (update_begin sh (Some i) (gw_store g))),
       gw_rows := saveDiscordGatewayResumeState (shard_key fp sh) (gs_sessionId i)
                    (gs_resumeURL i) (gs_sequence i) (gs_shardCount i) now (gw_rows g),
       gw_base := (gw_base g)(sh := gs_sequence i),
       gw_acked := (gw_acked g)(sh := {})\<rparr>"

definition end_session :: "string \<Rightarrow> ms \<Rightarrow> nat \<Rightarrow> gateway \<Rightarrow> gateway" where
  "end_session fp now sh g =
     (case update_begin sh None (gw_store g) of (s, request) \<Rightarrow>
        g\<lparr>gw_store := s,
          gw_rows := (if request = ClearRow
                      then clearDiscordGatewayResumeState (shard_key fp sh) now None (gw_rows g)
                      else gw_rows g)\<rparr>)"

definition ack_dispatch :: "nat \<Rightarrow> int \<Rightarrow> gateway \<Rightarrow> gateway" where
  "ack_dispatch sh q g =
     g\<lparr>gw_store := fst (acknowledgeDispatch sh q (gw_store g)),
       gw_acked := (case observed_session sh (gw_store g) of
                      None \<Rightarrow> gw_acked g
                    | Some o' \<Rightarrow> (gw_acked g)(sh :=
                        insert (min q (gs_sequence o')) (gw_acked g sh)))\<rparr>"

inductive gateway_step :: "string \<Rightarrow> gateway \<Rightarrow> gateway \<Rightarrow> bool" for fp where
  read: "gateway_step fp g
    (g\<lparr>gw_store := fst (retrieve (\<lambda>sh. findDiscordGatewayResumeState (shard_key fp sh) (gw_rows g))
                          sh (gw_store g))\<rparr>)"
| observe: "update_begin sh (Some i) (gw_store g) = (s, NoRequest) \<Longrightarrow>
    gateway_step fp g (g\<lparr>gw_store := s\<rparr>)"
| connect: "rs_activeFlush (gw_store g) = None \<Longrightarrow> 0 \<le> gs_sequence i \<Longrightarrow>
    snd (update_begin sh (Some i) (gw_store g)) = SaveRow i \<Longrightarrow>
    gateway_step fp g (connect_session fp now sh i g)"
| disconnect: "rs_activeFlush (gw_store g) = None \<Longrightarrow> gateway_step fp g (end_session fp now sh g)"
| acknowledge: "gateway_step fp g (ack_dispatch sh q g)"
| flush: "gateway_step fp g (g\<lparr>gw_store := fst (flush_begin (gw_store g))\<rparr>)"
| flushed: "rs_activeFlush (gw_store g) = Some p \<Longrightarrow>
    gateway_step fp g (g\<lparr>gw_store := flush_done p (gw_store g),
                         gw_rows := write_all fp now p (gw_rows g)\<rparr>)"
| flush_fails: "rs_activeFlush (gw_store g) = Some p \<Longrightarrow>
    gateway_step fp g (g\<lparr>gw_store := scheduleFlush (flush_failed p (gw_store g)),
                         gw_rows := write_all fp now (filter P p) (gw_rows g)\<rparr>)"
| handoff: "gateway_step fp g (g\<lparr>gw_store := beginSessionHandoff (gw_store g)\<rparr>)"
| handoff_ends: "gateway_step fp g (g\<lparr>gw_store := endSessionHandoff (gw_store g)\<rparr>)"
| crash: "gateway_step fp g (g\<lparr>gw_store := new_resume_store,
    gw_rows := write_all fp now (filter P (nullish_or (rs_activeFlush (gw_store g)) []))
                 (gw_rows g)\<rparr>)"

inductive gateway_run :: "string \<Rightarrow> gateway \<Rightarrow> bool" for fp where
  start: "gateway_run fp new_gateway"
| step: "gateway_run fp g \<Longrightarrow> gateway_step fp g g' \<Longrightarrow> gateway_run fp g'"

text \<open>Up to \<open>c\<close>, every dispatch after the session's start has been acknowledged.\<close>

definition covered :: "gateway \<Rightarrow> nat \<Rightarrow> int \<Rightarrow> bool" where
  "covered g sh c \<longleftrightarrow> - 1 \<le> c \<and> {gw_base g sh<..c} \<subseteq> gw_acked g sh"

definition covered_opt :: "gateway \<Rightarrow> nat \<Rightarrow> int option \<Rightarrow> bool" where
  "covered_opt g sh c \<longleftrightarrow> (\<forall>x. c = Some x \<longrightarrow> covered g sh x)"

definition shard_ok :: "string \<Rightarrow> gateway \<Rightarrow> nat \<Rightarrow> bool" where
  "shard_ok fp g sh \<longleftrightarrow>
     covered_opt g sh (map_of (rs_durable (gw_store g)) sh) \<and>
     covered_opt g sh (map_of (rs_pending (gw_store g)) sh) \<and>
     covered_opt g sh (map_of (nullish_or (rs_activeFlush (gw_store g)) []) sh) \<and>
     covered_opt g sh (map_option re_sequence
       (findDiscordGatewayResumeState (shard_key fp sh) (gw_rows g))) \<and>
     set (nullish_or (map_of (rs_acks (gw_store g)) sh) []) \<subseteq> gw_acked g sh \<and>
     (observed_session sh (gw_store g) \<noteq> None \<longrightarrow> map_of (rs_durable (gw_store g)) sh \<noteq> None)"

definition gateway_ok :: "string \<Rightarrow> gateway \<Rightarrow> bool" where
  "gateway_ok fp g \<longleftrightarrow>
     jsmap_ok (rs_pending (gw_store g)) \<and>
     jsmap_ok (nullish_or (rs_activeFlush (gw_store g)) []) \<and> (\<forall>sh. shard_ok fp g sh)"

lemma covered_max: "covered g sh a \<Longrightarrow> covered g sh b \<Longrightarrow> covered g sh (max a b)"
  by (simp add: max_def)

lemma covered_opt_simps [simp]:
  "covered_opt g sh None" "covered_opt g sh (Some x) = covered g sh x"
  by (simp_all add: covered_opt_def)

lemma shard_key_inject [simp]: "shard_key fp a = shard_key fp b \<longleftrightarrow> a = b"
  by (simp add: shard_key_def)

lemma written_sequence:
  "findDiscordGatewayResumeState k (updateDiscordGatewaySequence k q now rows) = Some s \<Longrightarrow>
   re_sequence s = q"
  by (auto simp: findDiscordGatewayResumeState_def updateDiscordGatewaySequence_def
      map_of_update_row split: option.splits if_splits)

text \<open>Writing covered sequences leaves a covered row.\<close>

lemma covered_write_all:
  assumes "\<forall>(s, q) \<in> set p. s = sh \<longrightarrow> covered g sh q"
    and "covered_opt g sh (map_option re_sequence
      (findDiscordGatewayResumeState (shard_key fp sh) rows))"
  shows "covered_opt g sh (map_option re_sequence
      (findDiscordGatewayResumeState (shard_key fp sh) (write_all fp now p rows)))"
  using assms
proof (induction p arbitrary: rows)
  case (Cons sq p)
  obtain s q where sq: "sq = (s, q)" by (cases sq)
  have "covered_opt g sh (map_option re_sequence (findDiscordGatewayResumeState (shard_key fp sh)
      (updateDiscordGatewaySequence (shard_key fp s) q now rows)))"
  proof (cases "s = sh")
    case True
    then show ?thesis
      using Cons.prems(1) sq written_sequence [of "shard_key fp sh" q now rows]
      by (auto simp: covered_opt_def)
  next
    case False
    then show ?thesis using Cons.prems(2) by (simp add: rows.find_other)
  qed
  then show ?case using Cons sq by (simp add: write_all_def)
qed (simp add: write_all_def)

lemma batch_covered:
  "jsmap_ok p \<Longrightarrow> \<forall>sh. covered_opt g sh (map_of p sh) \<Longrightarrow>
   \<forall>(s, q) \<in> set (filter P p). s = sh \<longrightarrow> covered g sh q"
  by (auto simp: covered_opt_def jsmap_values_iff)

lemma covered_raise:
  assumes "jsmap_ok p" "covered_opt g sh (map_of p sh)" "covered_opt g sh (map_of m sh)"
  shows "covered_opt g sh (map_of (fold raise_to p m) sh)"
  using assms map_of_raise_all [of p m sh]
  by (cases "map_of p sh"; cases "map_of m sh") (auto simp: jsmap_ok_def covered_max)

text \<open>The ghost state matters only through \<open>covered\<close> and the acknowledged set.\<close>

lemma covered_same_ghost [simp]:
  "covered (g\<lparr>gw_store := s\<rparr>) sh c = covered g sh c"
  "covered (g\<lparr>gw_rows := r\<rparr>) sh c = covered g sh c"
  "covered_opt (g\<lparr>gw_store := s\<rparr>) sh x = covered_opt g sh x"
  "covered_opt (g\<lparr>gw_rows := r\<rparr>) sh x = covered_opt g sh x"
  by (simp_all add: covered_def covered_opt_def)

lemma shard_ok_store:
  assumes "shard_ok fp g sh"
    and "map_of (rs_durable s) sh = map_of (rs_durable (gw_store g)) sh"
    and "map_of (rs_pending s) sh = map_of (rs_pending (gw_store g)) sh"
    and "rs_activeFlush s = rs_activeFlush (gw_store g)"
    and "map_of (rs_acks s) sh = map_of (rs_acks (gw_store g)) sh"
    and "observed_session sh s \<noteq> None \<longrightarrow> observed_session sh (gw_store g) \<noteq> None"
  shows "shard_ok fp (g\<lparr>gw_store := s\<rparr>) sh"
  using assms by (auto simp: shard_ok_def)

text \<open>What acknowledging a dispatch of an observed session does to the store.\<close>

lemma acknowledge_store:
  fixes s :: resume_store and sh :: nat and q :: int
  defines "s' \<equiv> fst (acknowledgeDispatch sh q s)"
  assumes obs: "observed_session sh s = Some i"
  shows "rs_durable s' = rs_durable s \<and> rs_activeFlush s' = rs_activeFlush s \<and>
    rs_sessions s' = rs_sessions s \<and>
    (\<forall>k. k \<noteq> sh \<longrightarrow> map_of (rs_pending s') k = map_of (rs_pending s) k \<and>
       map_of (rs_acks s') k = map_of (rs_acks s) k) \<and>
    (jsmap_ok (rs_pending s) \<longrightarrow> jsmap_ok (rs_pending s'))"
    and "set (nullish_or (map_of (rs_acks s') sh) []) \<subseteq>
      insert (min q (gs_sequence i)) (set (nullish_or (map_of (rs_acks s) sh) []))"
    and "map_of (rs_pending s') sh = map_of (rs_pending s) sh \<or>
      (\<exists>c. map_of (rs_pending s') sh = Some c \<and> checkpoint sh s \<le> c \<and>
        {checkpoint sh s<..c} \<subseteq>
          insert (min q (gs_sequence i)) (set (nullish_or (map_of (rs_acks s) sh) [])))"
proof -
  let ?acks = "List.insert (min q (gs_sequence i)) (nullish_or (map_of (rs_acks s) sh) [])"
  obtain c acks where d: "drain (checkpoint sh s) ?acks = (c, acks)"
    by (cases "drain (checkpoint sh s) ?acks")
  have spec: "checkpoint sh s \<le> c" "set acks \<subseteq> set ?acks" "{checkpoint sh s<..c} \<subseteq> set ?acks"
    using drain_spec [of "checkpoint sh s" ?acks] d by auto
  have "s' = s \<or> s' = s\<lparr>rs_acks := AList.update sh acks (rs_acks s)\<rparr> \<or>
      s' = scheduleFlush (s\<lparr>rs_acks := AList.update sh acks (rs_acks s),
        rs_pending := AList.update sh c (rs_pending s)\<rparr>)"
    unfolding s'_def acknowledgeDispatch_def Let_def obs option.case d fst_conv snd_conv
    by simp
  then consider "s' = s"
    | "s' = s\<lparr>rs_acks := AList.update sh acks (rs_acks s)\<rparr>"
    | "s' = scheduleFlush (s\<lparr>rs_acks := AList.update sh acks (rs_acks s),
        rs_pending := AList.update sh c (rs_pending s)\<rparr>)"
    by blast
  note cases = this
  show "rs_durable s' = rs_durable s \<and> rs_activeFlush s' = rs_activeFlush s \<and>
    rs_sessions s' = rs_sessions s \<and>
    (\<forall>k. k \<noteq> sh \<longrightarrow> map_of (rs_pending s') k = map_of (rs_pending s) k \<and>
       map_of (rs_acks s') k = map_of (rs_acks s) k) \<and>
    (jsmap_ok (rs_pending s) \<longrightarrow> jsmap_ok (rs_pending s'))"
    using cases by cases (simp_all add: scheduleFlush_def update_conv')
  show "set (nullish_or (map_of (rs_acks s') sh) []) \<subseteq>
      insert (min q (gs_sequence i)) (set (nullish_or (map_of (rs_acks s) sh) []))"
    using cases spec by cases (auto simp: scheduleFlush_def update_conv')
  show "map_of (rs_pending s') sh = map_of (rs_pending s) sh \<or>
      (\<exists>c. map_of (rs_pending s') sh = Some c \<and> checkpoint sh s \<le> c \<and>
        {checkpoint sh s<..c} \<subseteq>
          insert (min q (gs_sequence i)) (set (nullish_or (map_of (rs_acks s) sh) [])))"
    using cases spec by cases (auto simp: scheduleFlush_def update_conv')
qed

lemma checkpoint_covered:
  assumes "shard_ok fp g sh" "observed_session sh (gw_store g) \<noteq> None"
  shows "covered g sh (checkpoint sh (gw_store g))"
proof -
  obtain d where d: "map_of (rs_durable (gw_store g)) sh = Some d" "covered g sh d"
    using assms by (auto simp: shard_ok_def)
  have "max d (- 1) = d" using d(2) by (simp add: covered_def)
  then show ?thesis
    using assms(1) d covered_max
    by (cases "map_of (rs_pending (gw_store g)) sh") (auto simp: checkpoint_def shard_ok_def)
qed

lemma acked_ok:
  assumes ok: "shard_ok fp g k" and obs: "observed_session sh (gw_store g) = Some i"
    and ok_sh: "shard_ok fp g sh"
  shows "shard_ok fp (ack_dispatch sh q g) k"
proof -
  let ?s = "gw_store g" and ?g = "ack_dispatch sh q g"
  note st = acknowledge_store [OF obs, of q]
  have ghost: "gw_base ?g = gw_base g"
      "gw_acked ?g = (gw_acked g)(sh := insert (min q (gs_sequence i)) (gw_acked g sh))"
      "gw_rows ?g = gw_rows g" "gw_store ?g = fst (acknowledgeDispatch sh q ?s)"
    using obs by (simp_all add: ack_dispatch_def)
  have keep: "covered ?g k c" if "covered g k c" for c
    using that by (auto simp: covered_def ghost)
  then have keep_opt: "covered_opt ?g k c" if "covered_opt g k c" for c
    using that by (simp add: covered_opt_def)
  have acks: "set (nullish_or (map_of (rs_acks (gw_store ?g)) k) []) \<subseteq> gw_acked ?g k"
    using ok ok_sh st(1,2) by (cases "k = sh") (auto simp: shard_ok_def ghost)
  have "covered_opt ?g k (map_of (rs_pending (gw_store ?g)) k)"
  proof (cases "map_of (rs_pending (gw_store ?g)) k = map_of (rs_pending ?s) k")
    case True
    then show ?thesis using ok keep_opt by (simp add: shard_ok_def)
  next
    case False
    then have k: "k = sh" using st(1) ghost by metis
    obtain c where c: "map_of (rs_pending (gw_store ?g)) sh = Some c" "checkpoint sh ?s \<le> c"
        "{checkpoint sh ?s<..c} \<subseteq> insert (min q (gs_sequence i))
          (set (nullish_or (map_of (rs_acks ?s) sh) []))"
      using st(3) False k ghost(4) by auto
    have "covered g sh (checkpoint sh ?s)"
      using checkpoint_covered [OF ok_sh] obs by simp
    moreover have "{gw_base g sh<..c} \<subseteq>
        {gw_base g sh<..checkpoint sh ?s} \<union> {checkpoint sh ?s<..c}" by auto
    moreover have "set (nullish_or (map_of (rs_acks ?s) sh) []) \<subseteq> gw_acked g sh"
      using ok_sh by (simp add: shard_ok_def)
    ultimately have "covered ?g sh c"
      using c by (auto simp: covered_def ghost)
    then show ?thesis using k c(1) by simp
  qed
  then show ?thesis
    using ok keep_opt acks st(1)
    by (auto simp: shard_ok_def ghost observed_session_def)
qed

lemma gateway_ok_store:
  assumes "gateway_ok fp g"
    and "rs_pending s = rs_pending (gw_store g)" "rs_activeFlush s = rs_activeFlush (gw_store g)"
    and "rs_durable s = rs_durable (gw_store g)" "rs_acks s = rs_acks (gw_store g)"
    and "\<And>sh. observed_session sh s \<noteq> None \<longrightarrow> observed_session sh (gw_store g) \<noteq> None"
  shows "gateway_ok fp (g\<lparr>gw_store := s\<rparr>)"
  using assms shard_ok_store [of fp g _ s] by (auto simp: gateway_ok_def)

lemma read_ok:
  assumes ok: "gateway_ok fp g"
  shows "gateway_ok fp (g\<lparr>gw_store := fst (retrieve
    (\<lambda>sh. findDiscordGatewayResumeState (shard_key fp sh) (gw_rows g)) sh (gw_store g))\<rparr>)"
proof (cases "sh \<in> set (rs_loaded (gw_store g))")
  case True
  then show ?thesis using ok by (simp add: retrieve_def Let_def)
next
  case False
  let ?found = "findDiscordGatewayResumeState (shard_key fp sh) (gw_rows g)"
  have "shard_ok fp (g\<lparr>gw_store := retrieve_loaded sh ?found (gw_store g)\<rparr>) k" for k
  proof (cases "k = sh")
    case True
    have "shard_ok fp g sh" using ok by (simp add: gateway_ok_def)
    then show ?thesis
      using True
      by (cases ?found)
        (auto simp: shard_ok_def retrieve_loaded_def Let_def observed_session_def update_conv')
  next
    case False
    have "shard_ok fp g k" using ok by (simp add: gateway_ok_def)
    then show ?thesis
      using False
      by (cases ?found)
        (auto simp: shard_ok_def retrieve_loaded_def Let_def observed_session_def update_conv')
  qed
  moreover have "rs_pending (retrieve_loaded sh ?found (gw_store g)) = rs_pending (gw_store g)"
      "rs_activeFlush (retrieve_loaded sh ?found (gw_store g)) = rs_activeFlush (gw_store g)"
    by (simp_all add: retrieve_loaded_def Let_def split: option.split)
  ultimately show ?thesis
    using False ok by (simp add: retrieve_def Let_def gateway_ok_def)
qed

lemma saved_sequence:
  "findDiscordGatewayResumeState k (saveDiscordGatewayResumeState k sid url q n now rows) = Some st
   \<Longrightarrow> re_sequence st = q"
  by (auto simp: findDiscordGatewayResumeState_def saveDiscordGatewayResumeState_def Let_def
      update_conv' split: if_splits)

text \<open>Other shards do not notice a change of one shard's entries, rows and ghost state.\<close>

lemma shard_ok_other:
  assumes "shard_ok fp g k"
    and "gw_base g' k = gw_base g k" "gw_acked g' k = gw_acked g k"
    and "map_of (rs_durable (gw_store g')) k = map_of (rs_durable (gw_store g)) k"
    and "map_of (rs_pending (gw_store g')) k = map_of (rs_pending (gw_store g)) k"
    and "rs_activeFlush (gw_store g') = rs_activeFlush (gw_store g)"
    and "map_of (rs_acks (gw_store g')) k = map_of (rs_acks (gw_store g)) k"
    and "observed_session k (gw_store g') = observed_session k (gw_store g)"
    and "findDiscordGatewayResumeState (shard_key fp k) (gw_rows g') =
      findDiscordGatewayResumeState (shard_key fp k) (gw_rows g)"
  shows "shard_ok fp g' k"
proof -
  have "covered g' k = covered g k"
    using assms by (simp add: covered_def fun_eq_iff)
  then show ?thesis using assms by (simp add: shard_ok_def covered_opt_def)
qed

lemma connect_ok:
  assumes ok: "gateway_ok fp g" and idle: "rs_activeFlush (gw_store g) = None"
    and seq: "0 \<le> gs_sequence i"
    and save: "snd (update_begin sh (Some i) (gw_store g)) = SaveRow i"
  shows "gateway_ok fp (connect_session fp now sh i g)"
proof -
  let ?g = "connect_session fp now sh i g"
  have store: "gw_store ?g = (gw_store g)
      \<lparr>rs_loaded := List.insert sh (rs_loaded (gw_store g)),
       rs_sessions := AList.update sh (Some i) (rs_sessions (gw_store g)),
       rs_pending := AList.delete sh (rs_pending (gw_store g)),
       rs_acks := AList.delete sh (rs_acks (gw_store g)),
       rs_durable := AList.update sh (gs_sequence i) (rs_durable (gw_store g))\<rparr>"
    using save
    by (auto simp: connect_session_def update_begin_def update_saved_def Let_def
        split: if_splits)
  have ghost: "gw_base ?g = (gw_base g)(sh := gs_sequence i)"
      "gw_acked ?g = (gw_acked g)(sh := {})"
    by (simp_all add: connect_session_def)
  have "shard_ok fp ?g k" for k
  proof (cases "k = sh")
    case True
    have cov: "covered ?g sh (gs_sequence i)"
      using seq by (simp add: covered_def connect_session_def)
    then have "covered_opt ?g sh (map_option re_sequence
        (findDiscordGatewayResumeState (shard_key fp sh) (gw_rows ?g)))"
      by (auto simp: covered_opt_def connect_session_def dest!: saved_sequence)
    then show ?thesis
      using True cov idle
      by (simp add: shard_ok_def store observed_session_def update_conv' delete_conv')
  next
    case False
    show ?thesis
    proof (rule shard_ok_other)
      show "shard_ok fp g k" using ok by (simp add: gateway_ok_def)
      show "findDiscordGatewayResumeState (shard_key fp k) (gw_rows ?g) =
          findDiscordGatewayResumeState (shard_key fp k) (gw_rows g)"
        using False by (simp add: connect_session_def rows.find_other)
    qed (use False in \<open>simp_all add: store ghost observed_session_def update_conv'
      delete_conv'\<close>)
  qed
  then show ?thesis using ok idle by (simp add: gateway_ok_def store)
qed

lemma disconnect_ok:
  assumes ok: "gateway_ok fp g" and idle: "rs_activeFlush (gw_store g) = None"
  shows "gateway_ok fp (end_session fp now sh g)"
proof -
  let ?g = "end_session fp now sh g"
  have store: "gw_store ?g = (gw_store g)
      \<lparr>rs_loaded := List.insert sh (rs_loaded (gw_store g)),
       rs_sessions := AList.update sh None (rs_sessions (gw_store g)),
       rs_pending := AList.delete sh (rs_pending (gw_store g)),
       rs_durable := AList.delete sh (rs_durable (gw_store g)),
       rs_acks := AList.delete sh (rs_acks (gw_store g))\<rparr>"
    by (simp add: end_session_def update_begin_def Let_def)
  have ghost: "gw_base ?g = gw_base g" "gw_acked ?g = gw_acked g"
    by (simp_all add: end_session_def update_begin_def Let_def)
  have rows: "gw_rows ?g \<in> {gw_rows g,
      clearDiscordGatewayResumeState (shard_key fp sh) now None (gw_rows g)}"
    by (auto simp: end_session_def update_begin_def Let_def)
  have "shard_ok fp ?g k" for k
  proof (cases "k = sh")
    case True
    have "covered_opt g sh (map_option re_sequence
        (findDiscordGatewayResumeState (shard_key fp sh) (gw_rows ?g)))"
      using rows ok rows.find_none [OF rows.clear_none]
      by (auto simp: gateway_ok_def shard_ok_def)
    then show ?thesis
      using True idle
      by (simp add: shard_ok_def store observed_session_def update_conv' delete_conv'
          covered_opt_def covered_def ghost)
  next
    case False
    show ?thesis
    proof (rule shard_ok_other)
      show "shard_ok fp g k" using ok by (simp add: gateway_ok_def)
      show "findDiscordGatewayResumeState (shard_key fp k) (gw_rows ?g) =
          findDiscordGatewayResumeState (shard_key fp k) (gw_rows g)"
        using rows False by (auto simp: rows.find_other)
    qed (use False in \<open>simp_all add: store ghost observed_session_def update_conv'
      delete_conv'\<close>)
  qed
  then show ?thesis using ok idle by (simp add: gateway_ok_def store)
qed

lemma batch_ok:
  assumes ok: "gateway_ok fp g"
    and p: "nullish_or (rs_activeFlush (gw_store g)) [] = p"
  shows "covered_opt g sh (map_option re_sequence (findDiscordGatewayResumeState
      (shard_key fp sh) (write_all fp now (filter P p) (gw_rows g))))"
    and "jsmap_ok p" "covered_opt g sh (map_of p sh)"
proof -
  show p_ok: "jsmap_ok p" and "covered_opt g sh (map_of p sh)"
    using ok p by (auto simp: gateway_ok_def shard_ok_def)
  have "\<forall>(s, q) \<in> set (filter P p). s = sh \<longrightarrow> covered g sh q"
    using ok p by (intro batch_covered p_ok) (auto simp: gateway_ok_def shard_ok_def)
  then show "covered_opt g sh (map_option re_sequence (findDiscordGatewayResumeState
      (shard_key fp sh) (write_all fp now (filter P p) (gw_rows g))))"
    using ok by (intro covered_write_all) (auto simp: gateway_ok_def shard_ok_def)
qed

lemma jsmap_ok_raise: "jsmap_ok m \<Longrightarrow> jsmap_ok (fold raise_to p m)"
  by (induction p arbitrary: m) (auto simp: raise_to_def Let_def)

lemma gateway_step_ok: "gateway_step fp g g' \<Longrightarrow> gateway_ok fp g \<Longrightarrow> gateway_ok fp g'"
proof (induction rule: gateway_step.induct)
  case (observe sh i g s)
  then show ?case
    by (intro gateway_ok_store)
      (auto simp: update_begin_def Let_def observed_session_def update_conv'
        split: if_splits option.splits)
next
  case (acknowledge g sh q)
  show ?case
  proof (cases "observed_session sh (gw_store g)")
    case None
    then show ?thesis using acknowledge by (simp add: ack_dispatch_def acknowledgeDispatch_def)
  next
    case (Some i)
    have "jsmap_ok (rs_pending (gw_store (ack_dispatch sh q g)))"
      "rs_activeFlush (gw_store (ack_dispatch sh q g)) = rs_activeFlush (gw_store g)"
      using acknowledge acknowledge_store(1) [OF Some, of q]
      by (simp_all add: ack_dispatch_def gateway_ok_def)
    then show ?thesis
      using acknowledge acked_ok [OF _ Some] by (simp add: gateway_ok_def)
  qed
next
  case (flush g)
  then show ?case
    by (auto simp: flush_begin_def Let_def gateway_ok_def shard_ok_def observed_session_def)
next
  case (flushed g p now)
  have active: "nullish_or (rs_activeFlush (gw_store g)) [] = p"
    using flushed(1) by simp
  note b = batch_ok(2,3) [OF flushed(2) active]
  note written = batch_ok(1) [where now = now and P = "\<lambda>x. True", OF flushed(2) active]
  have "covered_opt g sh (map_of (fold raise_to p (rs_durable (gw_store g))) sh)" for sh
    using flushed b by (intro covered_raise) (auto simp: gateway_ok_def shard_ok_def)
  then show ?case
    using flushed written
    by (auto simp: gateway_ok_def shard_ok_def flush_done_def observed_session_def
        map_of_raise_all jsmap_ok_def split: option.splits)
next
  case (flush_fails g p now P)
  have active: "nullish_or (rs_activeFlush (gw_store g)) [] = p"
    using flush_fails(1) by simp
  note b = batch_ok(2,3) [OF flush_fails(2) active]
  note written = batch_ok(1) [where now = now and P = P, OF flush_fails(2) active]
  have "covered_opt g sh (map_of (fold raise_to p (rs_pending (gw_store g))) sh)" for sh
    using flush_fails b by (intro covered_raise) (auto simp: gateway_ok_def shard_ok_def)
  then show ?case
    using flush_fails written
    by (auto simp: gateway_ok_def shard_ok_def flush_failed_def scheduleFlush_def
        observed_session_def jsmap_ok_raise)
next
  case (crash g now P)
  then show ?case
    using batch_ok(1) [where now = now and P = P, OF crash refl]
    by (simp add: gateway_ok_def shard_ok_def new_resume_store_def observed_session_def)
qed (auto intro: read_ok connect_ok disconnect_ok gateway_ok_store
    simp: beginSessionHandoff_def endSessionHandoff_def observed_session_def)

lemma gateway_run_ok: "gateway_run fp g \<Longrightarrow> gateway_ok fp g"
proof (induction rule: gateway_run.induct)
  case start
  then show ?case
    by (simp add: gateway_ok_def shard_ok_def new_gateway_def new_resume_store_def
        observed_session_def findDiscordGatewayResumeState_def)
qed (rule gateway_step_ok)


text \<open>A run with a session, four dispatches of which the third is not acknowledged yet, a flush
  and a crash.\<close>

definition example_session :: "int \<Rightarrow> session_info" where
  "example_session q =
     \<lparr>gs_sessionId = ''s1'', gs_resumeURL = ''u'', gs_sequence = q, gs_shardId = 0,
      gs_shardCount = 1\<rparr>"

definition example_gateway :: gateway where
  "example_gateway =
     (let g = connect_session ''fp'' 0 0 (example_session 1) new_gateway;
          g = g\<lparr>gw_store := fst (update_begin 0 (Some (example_session 5)) (gw_store g))\<rparr>;
          g = ack_dispatch 0 2 g;
          g = ack_dispatch 0 3 g;
          g = ack_dispatch 0 5 g;
          g = g\<lparr>gw_store := fst (flush_begin (gw_store g))\<rparr>
      in g\<lparr>gw_store := flush_done [(0, 3)] (gw_store g),
           gw_rows := write_all ''fp'' 1 [(0, 3)] (gw_rows g)\<rparr>)"

lemma example_gateway_run: "gateway_run ''fp'' example_gateway"
proof -
  let ?g1 = "connect_session ''fp'' 0 0 (example_session 1) new_gateway"
  let ?g2 = "?g1\<lparr>gw_store := fst (update_begin 0 (Some (example_session 5)) (gw_store ?g1))\<rparr>"
  let ?g3 = "ack_dispatch 0 5 (ack_dispatch 0 3 (ack_dispatch 0 2 ?g2))"
  let ?g4 = "?g3\<lparr>gw_store := fst (flush_begin (gw_store ?g3))\<rparr>"
  note step = gateway_run.step
  have g1: "gateway_run ''fp'' ?g1"
    by (rule step [OF gateway_run.start gateway_step.connect])
      (simp_all add: new_gateway_def new_resume_store_def example_session_def update_begin_def
        observed_session_def)
  have "update_begin 0 (Some (example_session 5)) (gw_store ?g1) =
      (fst (update_begin 0 (Some (example_session 5)) (gw_store ?g1)), NoRequest)"
    by (simp add: connect_session_def update_begin_def update_saved_def new_gateway_def
        new_resume_store_def observed_session_def example_session_def Let_def)
  then have g2: "gateway_run ''fp'' ?g2"
    by (rule step [OF g1 gateway_step.observe])
  have "gateway_run ''fp'' ?g3"
    by (rule step [OF step [OF step [OF g2 gateway_step.acknowledge] gateway_step.acknowledge]
          gateway_step.acknowledge])
  then have g4: "gateway_run ''fp'' ?g4"
    by (rule step [OF _ gateway_step.flush])
  have "rs_activeFlush (gw_store ?g4) = Some [(0, 3)]"
    by code_simp
  then show ?thesis
    unfolding example_gateway_def Let_def by (rule step [OF g4 gateway_step.flushed])
qed


text \<open>
  The runs above let a session begin only while no flush is under way. The code does not wait:
  when a new session is saved during a flush of the old one, the flush's completion raises the
  new session's durable sequence to the old session's, and the store then resumes past
  dispatches nobody has acknowledged.
\<close>

definition overtaken_store :: resume_store where
  "overtaken_store =
     (let s = update_saved 0 (example_session 1)
                (fst (update_begin 0 (Some (example_session 1)) new_resume_store));
          s = fst (update_begin 0 (Some (example_session 5)) s);
          s = fold (\<lambda>q s. fst (acknowledgeDispatch 0 q s)) [2, 3, 4, 5] s;
          s = fst (flush_begin s);
          fresh = (example_session 1)\<lparr>gs_sessionId := ''s2''\<rparr>;
          s = update_saved 0 fresh (fst (update_begin 0 (Some fresh) s));
          s = flush_done [(0, 5)] s
      in fst (update_begin 0 (Some (fresh\<lparr>gs_sequence := 4\<rparr>)) s))"

lemma flush_overtakes_a_new_session:
  "committedSession 0 overtaken_store =
     Some ((example_session 4)\<lparr>gs_sessionId := ''s2''\<rparr>)"
  by code_simp

end
