(* ===== verification/Retry.thy ===== *)
theory Retry
  imports Complex_Main Prelude
begin

section \<open>Retries and backoff\<close>

text \<open>
  Four retry policies: the login breaker of the Discord gateway
  (\<open>apps/discord-gateway/src/login-backoff.ts\<close>, driven by the credential poll of \<open>service.ts\<close>), the
  enqueue of an inbound event (\<open>enqueue-retry.ts\<close>), the delay before a model provider is asked
  again (\<open>packages/types/src/inference-provider-retry.ts\<close>), and the web app's plan for
  reconnecting to a sandbox (\<open>sandbox-live-retry-policy.ts\<close>). The first three share the shape of
  their delays, which is the locale \<open>bounded_backoff\<close>. Delays are integers; \<open>2 ** n\<close> is exact in
  the code's doubles and a product beyond their range is above every cap.
\<close>

subsection \<open>A capped exponential delay\<close>

locale bounded_backoff =
  fixes delay :: "nat \<Rightarrow> ms"
    and cap :: ms
  assumes nonneg: "0 \<le> delay n"
    and capped: "delay n \<le> cap"
    and grows: "delay n \<le> delay (Suc n)"
    and doubles: "delay (Suc n) \<le> 2 * delay n"
begin

lemma delay_mono: "m \<le> n \<Longrightarrow> delay m \<le> delay n"
  by (rule lift_Suc_mono_le [of delay]) (rule grows)

lemma total_wait: "sum_list (map delay [0..<n]) \<le> int n * cap"
proof (induction n)
  case (Suc n)
  then show ?case using capped [of n] by (simp add: distrib_right)
qed simp

lemma exponential_bound: "delay n \<le> delay 0 * 2 ^ n"
proof (induction n)
  case (Suc n)
  then show ?case using doubles [of n] by simp
qed simp

end

lemma capped_exponential:
  assumes "0 \<le> (base :: ms)" "0 \<le> cap"
  shows "0 \<le> min (base * 2 ^ n) cap"
    and "min (base * 2 ^ n) cap \<le> cap"
    and "min (base * 2 ^ n) cap \<le> min (base * 2 ^ Suc n) cap"
    and "min (base * 2 ^ Suc n) cap \<le> 2 * min (base * 2 ^ n) cap"
  using assms by (auto simp: min_def)

subsection \<open>The login breaker\<close>

definition DEFAULT_LOGIN_RETRY_BASE_MS :: ms where
  "DEFAULT_LOGIN_RETRY_BASE_MS = 15000"

definition DEFAULT_LOGIN_RETRY_MAX_MS :: ms where
  "DEFAULT_LOGIN_RETRY_MAX_MS = 5 * 60000"

text \<open>\<open>Number(value)\<close> is the argument: a safe integer, or \<open>None\<close> for any other number.\<close>

definition positiveInteger :: "int option \<Rightarrow> int \<Rightarrow> int" where
  "positiveInteger parsed fallback =
     (case parsed of Some n \<Rightarrow> if n > 0 then n else fallback | None \<Rightarrow> fallback)"

record login_env =
  env_LOGIN_RETRY_BASE_MS :: "int option"
  env_LOGIN_RETRY_MAX_MS :: "int option"

definition loginRetryBaseMs :: "login_env \<Rightarrow> ms" where
  "loginRetryBaseMs env = positiveInteger (env_LOGIN_RETRY_BASE_MS env) DEFAULT_LOGIN_RETRY_BASE_MS"

definition loginRetryMaxMs :: "login_env \<Rightarrow> ms" where
  "loginRetryMaxMs env = positiveInteger (env_LOGIN_RETRY_MAX_MS env) DEFAULT_LOGIN_RETRY_MAX_MS"

record backoff_state =
  bo_tokenFingerprint :: string
  bo_attempts :: nat
  bo_delayMs :: ms
  bo_nextAttemptAt :: ms

type_synonym login_backoff = "backoff_state option"

definition same_token :: "string \<Rightarrow> login_backoff \<Rightarrow> bool" where
  "same_token fp b \<longleftrightarrow> map_option bo_tokenFingerprint b = Some fp"

definition canAttempt :: "string \<Rightarrow> ms \<Rightarrow> login_backoff \<Rightarrow> bool" where
  "canAttempt fp now b \<longleftrightarrow> \<not> same_token fp b \<or> bo_nextAttemptAt (the b) \<le> now"

definition login_delay :: "login_env \<Rightarrow> nat \<Rightarrow> ms" where
  "login_delay env n = min (loginRetryBaseMs env * 2 ^ min n 30) (loginRetryMaxMs env)"

definition recordFailure :: "login_env \<Rightarrow> string \<Rightarrow> ms \<Rightarrow> login_backoff \<Rightarrow> login_backoff" where
  "recordFailure env fp now b =
     (let attempts = (if same_token fp b then bo_attempts (the b) + 1 else 1);
          delayMs = login_delay env (attempts - 1)
      in Some \<lparr>bo_tokenFingerprint = fp, bo_attempts = attempts, bo_delayMs = delayMs,
               bo_nextAttemptAt = now + delayMs\<rparr>)"

definition reset :: "string option \<Rightarrow> login_backoff \<Rightarrow> login_backoff" where
  "reset fp b = (case fp of None \<Rightarrow> None | Some f \<Rightarrow> if same_token f b then None else b)"

definition getState :: "string \<Rightarrow> login_backoff \<Rightarrow> backoff_state option" where
  "getState fp b = (if same_token fp b then b else None)"

lemma positiveInteger_pos: "0 < fallback \<Longrightarrow> 0 < positiveInteger p fallback"
  by (auto simp: positiveInteger_def split: option.split)

lemma login_bounds: "0 < loginRetryBaseMs env" "0 < loginRetryMaxMs env"
  by (simp_all add: loginRetryBaseMs_def loginRetryMaxMs_def positiveInteger_pos
      DEFAULT_LOGIN_RETRY_BASE_MS_def DEFAULT_LOGIN_RETRY_MAX_MS_def)

interpretation login: bounded_backoff "login_delay env" "loginRetryMaxMs env" for env
proof
  note pos = less_imp_le [OF login_bounds(1) [of env]] less_imp_le [OF login_bounds(2) [of env]]
  fix n
  show "0 \<le> login_delay env n" "login_delay env n \<le> loginRetryMaxMs env"
    unfolding login_delay_def by (rule capped_exponential [OF pos])+
  have suc: "min (Suc n) 30 = (if n < 30 then Suc (min n 30) else min n 30)" by simp
  show "login_delay env n \<le> login_delay env (Suc n)"
    unfolding login_delay_def suc using capped_exponential(3) [OF pos, of "min n 30"]
    by (cases "n < 30") simp_all
  show "login_delay env (Suc n) \<le> 2 * login_delay env n"
    unfolding login_delay_def suc
    using capped_exponential(4) [OF pos, of "min n 30"] capped_exponential(1) [OF pos, of "min n 30"]
    by (cases "n < 30") simp_all
qed

text \<open>
  One round of the leader's credential poll: what the credential lookup found, whether the
  session asks to be reconnected, whether \<open>connect\<close> would succeed, and the time.
\<close>

record login_poll =
  lp_credentials :: "string option"
  lp_needsReconnect :: bool
  lp_connects :: bool
  lp_now :: ms

record login_session =
  ls_activeFingerprint :: "string option"
  ls_backoff :: login_backoff

text \<open>The second component is the token with which \<open>connect\<close> was called, if it was.\<close>

definition poll_credentials ::
  "login_env \<Rightarrow> login_poll \<Rightarrow> login_session \<Rightarrow> login_session \<times> string option" where
  "poll_credentials env p s0 =
     (let s = (case lp_credentials p of
                 Some fp \<Rightarrow>
                   if ls_activeFingerprint s0 \<noteq> None \<and> lp_needsReconnect p
                   then \<lparr>ls_activeFingerprint = None, ls_backoff = reset (Some fp) (ls_backoff s0)\<rparr>
                   else s0
               | None \<Rightarrow> s0)
      in case lp_credentials p of
           None \<Rightarrow> (\<lparr>ls_activeFingerprint = None, ls_backoff = reset None (ls_backoff s)\<rparr>, None)
         | Some fp \<Rightarrow>
             if Some fp \<noteq> ls_activeFingerprint s \<and> canAttempt fp (lp_now p) (ls_backoff s)
             then if lp_connects p
                  then (\<lparr>ls_activeFingerprint = Some fp, ls_backoff = reset (Some fp) (ls_backoff s)\<rparr>,
                        Some fp)
                  else (\<lparr>ls_activeFingerprint = None,
                         ls_backoff = recordFailure env fp (lp_now p) (ls_backoff s)\<rparr>, Some fp)
             else (s, None))"

definition idle_session :: login_session where
  "idle_session = \<lparr>ls_activeFingerprint = None, ls_backoff = None\<rparr>"

text \<open>The times at which \<open>connect\<close> is called while a token's login keeps failing.\<close>

fun failing_attempts :: "login_env \<Rightarrow> string \<Rightarrow> (ms \<times> bool) list \<Rightarrow> login_session \<Rightarrow> ms list" where
  "failing_attempts env fp [] s = []"
| "failing_attempts env fp ((now, needs) # polls) s =
     (let (s', called) = poll_credentials env
            \<lparr>lp_credentials = Some fp, lp_needsReconnect = needs, lp_connects = False, lp_now = now\<rparr> s
      in (if called = None then [] else [now]) @ failing_attempts env fp polls s')"

fun spaced :: "(nat \<Rightarrow> ms) \<Rightarrow> nat \<Rightarrow> ms list \<Rightarrow> bool" where
  "spaced d n (t # u # ts) \<longleftrightarrow> t + d n \<le> u \<and> spaced d (Suc n) (u # ts)"
| "spaced d n ts \<longleftrightarrow> True"

lemma failing_spaced:
  assumes "ls_activeFingerprint s = None" "ls_backoff s = Some b"
    "bo_tokenFingerprint b = fp" "bo_attempts b = Suc n"
    "bo_nextAttemptAt b = t + login_delay env n"
  shows "spaced (login_delay env) n (t # failing_attempts env fp polls s)"
  using assms
proof (induction polls arbitrary: s b n t)
  case (Cons p polls)
  obtain now needs where p: "p = (now, needs)" by (cases p)
  show ?case
  proof (cases "t + login_delay env n \<le> now")
    case True
    have can: "canAttempt fp now (ls_backoff s)" using Cons.prems True by (simp add: canAttempt_def)
    have "spaced (login_delay env) (Suc n)
        (now # failing_attempts env fp polls
          \<lparr>ls_activeFingerprint = None, ls_backoff = recordFailure env fp now (ls_backoff s)\<rparr>)"
      using Cons.prems
      by (intro Cons.IH, simp, simp add: recordFailure_def same_token_def Let_def, simp_all)
    then show ?thesis
      using Cons.prems can True by (simp add: p poll_credentials_def)
  next
    case False
    then have "\<not> canAttempt fp now (ls_backoff s)"
      using Cons.prems by (simp add: canAttempt_def same_token_def)
    then show ?thesis
      using Cons by (simp add: p poll_credentials_def)
  qed
qed simp

text \<open>While the login of one token keeps failing, the gateway's polls, whenever they happen, call
  \<open>connect\<close> only at times that are at least the breaker's delay apart: the n-th pause is at least
  the base times two to the n-th (the exponent stopping at 30), or the maximum; pauses never
  shrink and at most double.\<close>

theorem login_attempts_are_spaced:
  "spaced (login_delay env) 0 (failing_attempts env fp polls idle_session) \<and>
   login_delay env n \<le> login_delay env (n + k) \<and>
   login_delay env (n + k) \<le> loginRetryMaxMs env \<and>
   login_delay env n \<le> login_delay env 0 * 2 ^ n \<and>
   0 < login_delay env n"
proof -
  have "spaced (login_delay env) 0 (failing_attempts env fp polls idle_session)"
  proof (cases polls)
    case (Cons p rest)
    obtain now needs where p: "p = (now, needs)" by (cases p)
    have "spaced (login_delay env) 0
        (now # failing_attempts env fp rest
          \<lparr>ls_activeFingerprint = None, ls_backoff = recordFailure env fp now None\<rparr>)"
      by (rule failing_spaced, simp, simp add: recordFailure_def same_token_def Let_def, simp_all)
    then show ?thesis
      by (simp add: Cons p poll_credentials_def idle_session_def canAttempt_def same_token_def)
  qed simp
  then show ?thesis
    using login.delay_mono [of n "n + k" env] login.capped [of env "n + k"]
      login.exponential_bound [of env n] login_bounds [of env]
    by (simp add: login_delay_def)
qed

subsection \<open>Enqueueing an inbound event\<close>

definition DEFAULT_MAX_ATTEMPTS :: int where
  "DEFAULT_MAX_ATTEMPTS = 5"

definition DEFAULT_BASE_DELAY_MS :: ms where
  "DEFAULT_BASE_DELAY_MS = 100"

definition DEFAULT_MAX_DELAY_MS :: ms where
  "DEFAULT_MAX_DELAY_MS = 1000"

record enqueue_options =
  eo_maxAttempts :: "int option"
  eo_baseDelayMs :: "int option"
  eo_maxDelayMs :: "int option"

definition eo_attempts :: "enqueue_options \<Rightarrow> nat" where
  "eo_attempts opts = nat (max 1 (nullish_or (eo_maxAttempts opts) DEFAULT_MAX_ATTEMPTS))"

definition eo_base :: "enqueue_options \<Rightarrow> ms" where
  "eo_base opts = max 1 (nullish_or (eo_baseDelayMs opts) DEFAULT_BASE_DELAY_MS)"

definition eo_cap :: "enqueue_options \<Rightarrow> ms" where
  "eo_cap opts = max (eo_base opts) (nullish_or (eo_maxDelayMs opts) DEFAULT_MAX_DELAY_MS)"

text \<open>The pause after the n-th attempt, counting from 0.\<close>

definition enqueue_delay :: "enqueue_options \<Rightarrow> nat \<Rightarrow> ms" where
  "enqueue_delay opts n = min (eo_base opts * 2 ^ n) (eo_cap opts)"

text \<open>
  What the outside answers at each attempt, counting from 0: whether the signal is aborted when
  the attempt starts, what \<open>enqueue\<close> does, and whether the pause after it is cut short by an abort.
\<close>

datatype enqueue_answer = Enqueued bool | EnqueueThrows string

record enqueue_world =
  ew_aborted :: "nat \<Rightarrow> bool"
  ew_enqueue :: "nat \<Rightarrow> enqueue_answer"
  ew_waitAborted :: "nat \<Rightarrow> bool"

datatype enqueue_error = Aborted | AttemptsExhausted nat string

text \<open>The result, the number of \<open>enqueue\<close> calls and the pauses begun.\<close>

type_synonym enqueue_run = "(enqueue_error + bool) \<times> nat \<times> ms list"

function enqueue_loop ::
  "enqueue_options \<Rightarrow> enqueue_world \<Rightarrow> nat \<Rightarrow> string \<Rightarrow> ms list \<Rightarrow> enqueue_run" where
  "enqueue_loop opts w i lastError waits =
     (if i < eo_attempts opts
      then if ew_aborted w i then (Inl Aborted, i, waits)
           else case ew_enqueue w i of
                  Enqueued b \<Rightarrow> (Inr b, Suc i, waits)
                | EnqueueThrows e \<Rightarrow>
                    if Suc i = eo_attempts opts
                    then (Inl (AttemptsExhausted (eo_attempts opts) e), Suc i, waits)
                    else if ew_waitAborted w i
                    then (Inl Aborted, Suc i, waits @ [enqueue_delay opts i])
                    else enqueue_loop opts w (Suc i) e (waits @ [enqueue_delay opts i])
      else (Inl (AttemptsExhausted (eo_attempts opts) lastError), i, waits))"
  by pat_completeness auto
termination
  by (relation "measure (\<lambda>(opts, w, i, e, ds). eo_attempts opts - i)") auto

declare enqueue_loop.simps [simp del]

definition enqueueDiscordInboundWithRetry :: "enqueue_options \<Rightarrow> enqueue_world \<Rightarrow> enqueue_run" where
  "enqueueDiscordInboundWithRetry opts w = enqueue_loop opts w 0 [] []"

lemma eo_bounds: "0 < eo_base opts" "eo_base opts \<le> eo_cap opts" "0 < eo_attempts opts"
  by (simp_all add: eo_base_def eo_cap_def eo_attempts_def)

interpretation inbound: bounded_backoff "enqueue_delay opts" "eo_cap opts" for opts
proof
  have pos: "0 \<le> eo_base opts" "0 \<le> eo_cap opts"
    using eo_bounds [of opts] by auto
  fix n
  show "0 \<le> enqueue_delay opts n" "enqueue_delay opts n \<le> eo_cap opts"
    "enqueue_delay opts n \<le> enqueue_delay opts (Suc n)"
    "enqueue_delay opts (Suc n) \<le> 2 * enqueue_delay opts n"
    unfolding enqueue_delay_def by (rule capped_exponential [OF pos])+
qed

definition enqueue_throws :: "enqueue_world \<Rightarrow> nat \<Rightarrow> bool" where
  "enqueue_throws w k \<longleftrightarrow> (case ew_enqueue w k of EnqueueThrows e \<Rightarrow> True | Enqueued b \<Rightarrow> False)"

text \<open>What the caller may conclude from a finished run: every attempt but the last one threw.\<close>

definition enqueue_outcome :: "enqueue_options \<Rightarrow> enqueue_world \<Rightarrow> enqueue_run \<Rightarrow> bool" where
  "enqueue_outcome opts w r \<longleftrightarrow>
     (let (res, calls, waits) = r in
      calls \<le> eo_attempts opts \<and>
      waits = map (enqueue_delay opts) [0..<length waits] \<and>
      length waits \<le> calls \<and> calls \<le> Suc (length waits) \<and> length waits < eo_attempts opts \<and>
      list_all (enqueue_throws w) [0..<calls - 1] \<and>
      (case res of
         Inr b \<Rightarrow> 0 < calls \<and> ew_enqueue w (calls - 1) = Enqueued b
       | Inl (AttemptsExhausted n e) \<Rightarrow>
           n = eo_attempts opts \<and> calls = n \<and> ew_enqueue w (calls - 1) = EnqueueThrows e
       | Inl Aborted \<Rightarrow>
           list_all (enqueue_throws w) [0..<calls] \<and>
           (ew_aborted w calls \<or> 0 < calls \<and> ew_waitAborted w (calls - 1))))"

lemma enqueue_loop_outcome:
  "i < eo_attempts opts \<Longrightarrow> list_all (enqueue_throws w) [0..<i] \<Longrightarrow>
   waits = map (enqueue_delay opts) [0..<i] \<Longrightarrow>
   enqueue_outcome opts w (enqueue_loop opts w i e waits)"
proof (induction opts w i e waits rule: enqueue_loop.induct)
  case (1 opts w i e waits)
  show ?case
  proof (cases "ew_aborted w i")
    case True
    then show ?thesis
      using 1(2-4) by (subst enqueue_loop.simps) (auto simp: enqueue_outcome_def list_all_iff)
  next
    case live: False
    show ?thesis
    proof (cases "ew_enqueue w i")
      case (Enqueued b)
      then show ?thesis
        using 1(2-4) live by (subst enqueue_loop.simps) (simp add: enqueue_outcome_def)
    next
      case (EnqueueThrows e')
      have throws: "list_all (enqueue_throws w) [0..<Suc i]"
        using 1(3) EnqueueThrows by (simp add: enqueue_throws_def [of w i])
      consider "Suc i = eo_attempts opts" | "Suc i < eo_attempts opts" "ew_waitAborted w i"
        | "Suc i < eo_attempts opts" "\<not> ew_waitAborted w i"
        using 1(2) by linarith
      then show ?thesis
      proof cases
        case 1
        then have "eo_attempts opts - Suc 0 = i" by simp
        then show ?thesis
          using 1 "1.prems" live EnqueueThrows
          by (subst enqueue_loop.simps) (simp add: enqueue_outcome_def)
      next
        case 2
        then show ?thesis
          using "1.prems" live EnqueueThrows throws
          by (subst enqueue_loop.simps) (simp add: enqueue_outcome_def)
      next
        case 3
        have "enqueue_outcome opts w
            (enqueue_loop opts w (Suc i) e' (waits @ [enqueue_delay opts i]))"
          using 3 "1.prems" live EnqueueThrows throws by (intro "1.IH") simp_all
        then show ?thesis
          using 3 "1.prems" live EnqueueThrows by (subst enqueue_loop.simps) simp
      qed
    qed
  qed
qed

text \<open>The retried enqueue always ends, after at most the configured attempts. It returns what
  the first attempt that did not throw returned, a duplicate's false included; it gives up with
  the last error only when every attempt threw, and with an abort only when the signal was
  aborted at the next attempt or during the last pause. The pauses are the capped doubling
  delays in order, one fewer than the attempts at most, so their sum is bounded.\<close>

theorem enqueue_retry_outcome:
  "enqueue_outcome opts w (enqueueDiscordInboundWithRetry opts w) \<and>
   sum_list (snd (snd (enqueueDiscordInboundWithRetry opts w))) \<le>
     (int (eo_attempts opts) - 1) * eo_cap opts"
proof -
  have out: "enqueue_outcome opts w (enqueueDiscordInboundWithRetry opts w)"
    unfolding enqueueDiscordInboundWithRetry_def
    by (rule enqueue_loop_outcome) (simp_all add: eo_bounds)
  obtain res calls waits where r: "enqueueDiscordInboundWithRetry opts w = (res, calls, waits)"
    by (metis prod_cases3)
  have waits: "waits = map (enqueue_delay opts) [0..<length waits]" "length waits < eo_attempts opts"
    using out by (simp_all add: r enqueue_outcome_def)
  have "sum_list waits \<le> int (length waits) * eo_cap opts"
    using inbound.total_wait [of opts "length waits"] waits(1) by simp
  also have "\<dots> \<le> (int (eo_attempts opts) - 1) * eo_cap opts"
    using waits(2) eo_bounds [of opts] by (intro mult_right_mono) auto
  finally show ?thesis using out by (simp add: r)
qed

subsection \<open>Asking a model provider again\<close>

definition INFERENCE_PROVIDER_ERROR_BASE_DELAY_MS :: ms where
  "INFERENCE_PROVIDER_ERROR_BASE_DELAY_MS = 1000"

definition INFERENCE_PROVIDER_ERROR_MAX_DELAY_MS :: ms where
  "INFERENCE_PROVIDER_ERROR_MAX_DELAY_MS = 30000"

definition INFERENCE_PROVIDER_RATE_LIMIT_BASE_DELAY_MS :: ms where
  "INFERENCE_PROVIDER_RATE_LIMIT_BASE_DELAY_MS = 5000"

definition INFERENCE_PROVIDER_RATE_LIMIT_MAX_DELAY_MS :: ms where
  "INFERENCE_PROVIDER_RATE_LIMIT_MAX_DELAY_MS = 60000"

text \<open>
  The response headers found in the error are an argument, read with the language's number and
  date parsers: \<open>retry-after-ms\<close> as a finite number, \<open>retry-after\<close> as a number of seconds and as
  a date. \<open>None\<close> is an absent header or one that does not parse.
\<close>

record response_headers =
  rh_retryAfterMs :: "ms option"
  rh_retryAfterSeconds :: "rat option"
  rh_retryAfterDate :: "ms option"

record inference_options =
  io_headers :: "response_headers option"
  io_attemptNumber :: int
  io_rateLimited :: bool
  io_baseDelayMs :: "ms option"
  io_maxDelayMs :: "ms option"

definition at_least :: "'a \<Rightarrow> 'a option \<Rightarrow> ('a :: linorder) option" where
  "at_least b x = (case x of Some v \<Rightarrow> if v \<ge> b then Some v else None | None \<Rightarrow> None)"

definition header_delay :: "ms \<Rightarrow> response_headers \<Rightarrow> ms option" where
  "header_delay now h =
     nullish (at_least 0 (rh_retryAfterMs h))
       (nullish (map_option (\<lambda>seconds. \<lceil>seconds * 1000\<rceil>) (at_least 0 (rh_retryAfterSeconds h)))
         (at_least 1 (map_option (\<lambda>date. date - now) (rh_retryAfterDate h))))"

definition io_base :: "inference_options \<Rightarrow> ms" where
  "io_base opts = max (if io_rateLimited opts then 0 else 1000)
     (nullish_or (io_baseDelayMs opts)
       (if io_rateLimited opts then INFERENCE_PROVIDER_RATE_LIMIT_BASE_DELAY_MS
        else INFERENCE_PROVIDER_ERROR_BASE_DELAY_MS))"

definition io_cap :: "inference_options \<Rightarrow> ms" where
  "io_cap opts = max (io_base opts)
     (nullish_or (io_maxDelayMs opts)
       (if io_rateLimited opts then INFERENCE_PROVIDER_RATE_LIMIT_MAX_DELAY_MS
        else INFERENCE_PROVIDER_ERROR_MAX_DELAY_MS))"

definition io_backoff :: "inference_options \<Rightarrow> nat \<Rightarrow> ms" where
  "io_backoff opts n = min (io_base opts * 2 ^ n) (io_cap opts)"

definition resolveInferenceProviderRetryDelayMs :: "ms \<Rightarrow> inference_options \<Rightarrow> ms" where
  "resolveInferenceProviderRetryDelayMs now opts =
     (case (if io_rateLimited opts then Option.bind (io_headers opts) (header_delay now) else None) of
        Some d \<Rightarrow> min d (io_cap opts)
      | None \<Rightarrow> io_backoff opts (nat (max 1 (io_attemptNumber opts) - 1)))"

lemma header_delay_nonneg: "header_delay now h = Some d \<Longrightarrow> 0 \<le> d"
proof -
  assume d: "header_delay now h = Some d"
  have some: "at_least b x = Some v \<Longrightarrow> b \<le> v" for b v :: "'a :: linorder" and x
    by (auto simp: at_least_def split: option.splits if_splits)
  have nullish_Some: "nullish x y = Some v \<Longrightarrow> x = Some v \<or> y = Some v" for x y :: "int option" and v
    by (cases x) auto
  have "0 \<le> \<lceil>seconds * 1000\<rceil>" if "0 \<le> seconds" for seconds :: rat
    using that by (simp add: le_ceiling_iff)
  then show ?thesis
    using d unfolding header_delay_def
    by (auto dest!: nullish_Some dest: some)
qed

lemma io_bounds: "0 \<le> io_base opts" "io_base opts \<le> io_cap opts"
  by (auto simp: io_base_def io_cap_def le_max_iff_disj)

interpretation inference: bounded_backoff "io_backoff opts" "io_cap opts" for opts
proof
  have pos: "0 \<le> io_base opts" "0 \<le> io_cap opts"
    using io_bounds [of opts] by auto
  fix n
  show "0 \<le> io_backoff opts n" "io_backoff opts n \<le> io_cap opts"
    "io_backoff opts n \<le> io_backoff opts (Suc n)"
    "io_backoff opts (Suc n) \<le> 2 * io_backoff opts n"
    unfolding io_backoff_def by (rule capped_exponential [OF pos])+
qed

lemma inference_delay_bounds:
  "0 \<le> resolveInferenceProviderRetryDelayMs now opts \<and>
   resolveInferenceProviderRetryDelayMs now opts \<le> io_cap opts \<and>
   (io_rateLimited opts \<or>
    1000 \<le> resolveInferenceProviderRetryDelayMs now opts \<and>
    (io_attemptNumber opts \<le> int n + 1 \<longrightarrow>
     resolveInferenceProviderRetryDelayMs now opts \<le> io_base opts * 2 ^ n))"
proof -
  let ?k = "nat (max 1 (io_attemptNumber opts) - 1)"
  have zero: "io_backoff opts 0 = io_base opts"
    using io_bounds [of opts] by (simp add: io_backoff_def)
  have "1000 \<le> io_backoff opts ?k" if "\<not> io_rateLimited opts"
    using inference.delay_mono [of 0 ?k opts] zero that by (simp add: io_base_def)
  moreover have "io_backoff opts ?k \<le> io_base opts * 2 ^ n" if a: "io_attemptNumber opts \<le> int n + 1"
  proof -
    have "?k \<le> n" using a by linarith
    then show ?thesis
      using inference.delay_mono [of ?k n opts] inference.exponential_bound [of opts n] zero
      by simp
  qed
  ultimately show ?thesis
    using inference.nonneg [of opts ?k] inference.capped [of opts ?k] io_bounds [of opts]
    by (auto simp: resolveInferenceProviderRetryDelayMs_def bind_eq_Some_conv
        dest: header_delay_nonneg split: option.split)
qed

subsection \<open>Reconnecting to a sandbox\<close>

definition INITIAL_CONNECTION_RETRY_DELAY_MS :: ms where
  "INITIAL_CONNECTION_RETRY_DELAY_MS = 1000"

definition MAX_INITIAL_CONNECTION_RETRIES :: nat where
  "MAX_INITIAL_CONNECTION_RETRIES = 2"

definition POST_CONNECT_RETRY_DELAYS_MS :: "ms list" where
  "POST_CONNECT_RETRY_DELAYS_MS = [1000, 2000, 5000]"

record reconnect_state =
  rc_hasConnectedOnce :: bool
  rc_initialConnectionRetryCount :: nat
  rc_postConnectRetryCount :: nat
  rc_hasReportedExhaustion :: bool

datatype reconnect_phase = PhaseInitial | PhaseEstablished

record retry_plan =
  rp_phase :: reconnect_phase
  rp_delayMs :: ms
  rp_attempt :: nat
  rp_maxAttempts :: nat

datatype reconnect_plan =
    PlanRetry retry_plan reconnect_state
  | PlanExhausted reconnect_phase reconnect_state

definition createSandboxReconnectRetryState :: reconnect_state where
  "createSandboxReconnectRetryState =
     \<lparr>rc_hasConnectedOnce = False, rc_initialConnectionRetryCount = 0,
      rc_postConnectRetryCount = 0, rc_hasReportedExhaustion = False\<rparr>"

definition clearSandboxReconnectRetryBudget :: "reconnect_state \<Rightarrow> reconnect_state" where
  "clearSandboxReconnectRetryBudget s =
     s\<lparr>rc_initialConnectionRetryCount := 0, rc_postConnectRetryCount := 0\<rparr>"

definition markSandboxReconnectConnected :: "reconnect_state \<Rightarrow> reconnect_state" where
  "markSandboxReconnectConnected s =
     \<lparr>rc_hasConnectedOnce = True, rc_initialConnectionRetryCount = 0,
      rc_postConnectRetryCount = 0, rc_hasReportedExhaustion = False\<rparr>"

definition markSandboxReconnectExhaustionReported :: "reconnect_state \<Rightarrow> reconnect_state" where
  "markSandboxReconnectExhaustionReported s = s\<lparr>rc_hasReportedExhaustion := True\<rparr>"

definition planSandboxReconnect :: "reconnect_state \<Rightarrow> reconnect_plan" where
  "planSandboxReconnect s =
     (if rc_hasConnectedOnce s
      then let n = rc_postConnectRetryCount s in
        if n < length POST_CONNECT_RETRY_DELAYS_MS
        then PlanRetry
          \<lparr>rp_phase = PhaseEstablished, rp_delayMs = POST_CONNECT_RETRY_DELAYS_MS ! n,
           rp_attempt = n + 1, rp_maxAttempts = length POST_CONNECT_RETRY_DELAYS_MS\<rparr>
          (s\<lparr>rc_postConnectRetryCount := n + 1\<rparr>)
        else PlanExhausted PhaseEstablished s
      else if rc_initialConnectionRetryCount s \<ge> MAX_INITIAL_CONNECTION_RETRIES
      then PlanExhausted PhaseInitial s
      else PlanRetry
        \<lparr>rp_phase = PhaseInitial, rp_delayMs = INITIAL_CONNECTION_RETRY_DELAY_MS,
         rp_attempt = rc_initialConnectionRetryCount s + 1,
         rp_maxAttempts = MAX_INITIAL_CONNECTION_RETRIES\<rparr>
        (s\<lparr>rc_initialConnectionRetryCount := rc_initialConnectionRetryCount s + 1\<rparr>))"

definition next_state :: "reconnect_plan \<Rightarrow> reconnect_state" where
  "next_state p = (case p of PlanRetry r s \<Rightarrow> s | PlanExhausted ph s \<Rightarrow> s)"

text \<open>
  \<open>/\b(401|403)\b|unauthorized|forbidden|invalid(?: |_)?token|token expired|expired token/i\<close>
\<close>

definition occurs :: "string \<Rightarrow> string \<Rightarrow> bool" where
  "occurs p s \<longleftrightarrow> list_ex (\<lambda>i. starts_with p (drop i s)) [0..<Suc (length s)]"

definition regex_word :: "char \<Rightarrow> bool" where
  "regex_word c \<longleftrightarrow> is_digit c \<or> c = CHR ''_'' \<or>
     (let n = of_char c :: nat in 65 \<le> n \<and> n \<le> 90 \<or> 97 \<le> n \<and> n \<le> 122)"

definition occurs_as_word :: "string \<Rightarrow> string \<Rightarrow> bool" where
  "occurs_as_word p s \<longleftrightarrow>
     list_ex (\<lambda>i. starts_with p (drop i s) \<and> (i = 0 \<or> \<not> regex_word (s ! (i - 1))) \<and>
                 (length s \<le> i + length p \<or> \<not> regex_word (s ! (i + length p))))
       [0..<Suc (length s)]"

datatype reconnect_error = ErrorObject string | ErrorText string | OtherError

definition isClearlyTerminalReconnectError :: "reconnect_error \<Rightarrow> bool" where
  "isClearlyTerminalReconnectError e =
     (let message = to_lower (case e of ErrorObject m \<Rightarrow> m | ErrorText m \<Rightarrow> m | OtherError \<Rightarrow> [])
      in occurs_as_word ''401'' message \<or> occurs_as_word ''403'' message \<or>
         list_ex (\<lambda>p. occurs p message)
           [''unauthorized'', ''forbidden'', ''invalidtoken'', ''invalid token'', ''invalid_token'',
            ''token expired'', ''expired token''])"

lemma terminal_reconnect_errors:
  "isClearlyTerminalReconnectError (ErrorText ''HTTP 401: Unauthorized'')"
  "isClearlyTerminalReconnectError (ErrorObject ''invalid_token'')"
  "\<not> isClearlyTerminalReconnectError (ErrorText ''run 4013 closed'')"
  "\<not> isClearlyTerminalReconnectError OtherError"
  by code_simp+

text \<open>What the connection code does with its retry state.\<close>

datatype reconnect_event = EvPlan | EvClear | EvConnected | EvReported

fun reconnect_event_step :: "reconnect_event \<Rightarrow> reconnect_state \<Rightarrow> reconnect_state" where
  "reconnect_event_step EvPlan s = next_state (planSandboxReconnect s)"
| "reconnect_event_step EvClear s = clearSandboxReconnectRetryBudget s"
| "reconnect_event_step EvConnected s = markSandboxReconnectConnected s"
| "reconnect_event_step EvReported s = markSandboxReconnectExhaustionReported s"

text \<open>The plans made while every attempt fails, up to the exhausted one; \<open>None\<close> if the fuel ends.\<close>

fun failing_plans :: "nat \<Rightarrow> reconnect_state \<Rightarrow> retry_plan list option" where
  "failing_plans 0 s = None"
| "failing_plans (Suc fuel) s =
     (case planSandboxReconnect s of
        PlanExhausted ph s' \<Rightarrow> Some []
      | PlanRetry r s' \<Rightarrow> map_option ((#) r) (failing_plans fuel s'))"

definition reconnect_ok :: "reconnect_state \<Rightarrow> bool" where
  "reconnect_ok s \<longleftrightarrow> rc_postConnectRetryCount s \<le> 3 \<and> rc_initialConnectionRetryCount s \<le> 2"

lemmas reconnect_defs =
  planSandboxReconnect_def POST_CONNECT_RETRY_DELAYS_MS_def MAX_INITIAL_CONNECTION_RETRIES_def
  INITIAL_CONNECTION_RETRY_DELAY_MS_def clearSandboxReconnectRetryBudget_def
  markSandboxReconnectConnected_def markSandboxReconnectExhaustionReported_def next_state_def

interpretation reconnect: object_contract reconnect_event_step "\<lambda>ev s. True" reconnect_ok
proof
  fix s ev
  assume "reconnect_ok s"
  then show "reconnect_ok (reconnect_event_step ev s)"
    by (cases ev) (auto simp: reconnect_ok_def reconnect_defs Let_def)
qed

lemma connected_step:
  "rc_hasConnectedOnce (reconnect_event_step ev s) \<longleftrightarrow> ev = EvConnected \<or> rc_hasConnectedOnce s"
  "rc_hasReportedExhaustion (reconnect_event_step ev s) \<longleftrightarrow>
     ev = EvReported \<or> ev \<noteq> EvConnected \<and> rc_hasReportedExhaustion s"
  by (cases ev; auto simp: reconnect_defs Let_def)+

lemma reconnect_history:
  "rc_hasConnectedOnce (fold reconnect_event_step evs createSandboxReconnectRetryState) \<longleftrightarrow>
     EvConnected \<in> set evs"
  "rc_hasReportedExhaustion (fold reconnect_event_step evs createSandboxReconnectRetryState) \<longleftrightarrow>
     EvReported \<in> set (takeWhile (\<lambda>e. e \<noteq> EvConnected) (rev evs))"
  by (induction evs rule: rev_induct)
    (auto simp: connected_step createSandboxReconnectRetryState_def)

lemma failing_plans_established:
  assumes "rc_hasConnectedOnce s" "rc_postConnectRetryCount s \<le> 3"
  shows "map_option (map rp_delayMs) (failing_plans 4 s) =
      Some (drop (rc_postConnectRetryCount s) POST_CONNECT_RETRY_DELAYS_MS)"
proof -
  consider "rc_postConnectRetryCount s = 0" | "rc_postConnectRetryCount s = 1"
    | "rc_postConnectRetryCount s = 2" | "rc_postConnectRetryCount s = 3"
    using assms(2) by linarith
  then show ?thesis
    by cases (simp_all add: assms(1) reconnect_defs Let_def numeral_eq_Suc)
qed

lemma failing_plans_initial:
  assumes "\<not> rc_hasConnectedOnce s" "rc_initialConnectionRetryCount s \<le> 2"
  shows "map_option (map rp_delayMs) (failing_plans 4 s) =
      Some (replicate (2 - rc_initialConnectionRetryCount s) INITIAL_CONNECTION_RETRY_DELAY_MS)"
proof -
  consider "rc_initialConnectionRetryCount s = 0" | "rc_initialConnectionRetryCount s = 1"
    | "rc_initialConnectionRetryCount s = 2"
    using assms(2) by linarith
  then show ?thesis
    by cases (simp_all add: assms(1) reconnect_defs Let_def numeral_eq_Suc)
qed

text \<open>In every state the connection code can reach, retrying a sandbox that stays unreachable
  ends: at most two attempts a second apart before the first connection ever made, and after it
  the attempts still left of one, two and five seconds; clearing the budget restores all of
  them. The exhaustion counts as reported exactly when it was reported since the last connection.\<close>

theorem reconnect_budget:
  "let s = fold reconnect_event_step evs createSandboxReconnectRetryState in
   map_option (map rp_delayMs) (failing_plans 4 s) =
     Some (if EvConnected \<in> set evs
           then drop (rc_postConnectRetryCount s) POST_CONNECT_RETRY_DELAYS_MS
           else replicate (MAX_INITIAL_CONNECTION_RETRIES - rc_initialConnectionRetryCount s)
                  INITIAL_CONNECTION_RETRY_DELAY_MS) \<and>
   map_option (map rp_delayMs) (failing_plans 4 (clearSandboxReconnectRetryBudget s)) =
     Some (if EvConnected \<in> set evs then [1000, 2000, 5000] else [1000, 1000]) \<and>
   (rc_hasReportedExhaustion s \<longleftrightarrow>
      EvReported \<in> set (takeWhile (\<lambda>e. e \<noteq> EvConnected) (rev evs)))"
proof -
  let ?s = "fold reconnect_event_step evs createSandboxReconnectRetryState"
  let ?c = "clearSandboxReconnectRetryBudget ?s"
  have "reconnect_ok ?s"
    by (rule reconnect.run_ok_always) (simp_all add: reconnect_ok_def createSandboxReconnectRetryState_def)
  then have ok: "rc_postConnectRetryCount ?s \<le> 3" "rc_initialConnectionRetryCount ?s \<le> 2"
    by (simp_all add: reconnect_ok_def)
  have clear: "rc_hasConnectedOnce ?c = rc_hasConnectedOnce ?s" "rc_postConnectRetryCount ?c = 0"
      "rc_initialConnectionRetryCount ?c = 0"
    by (simp_all add: clearSandboxReconnectRetryBudget_def)
  show ?thesis
  proof (cases "EvConnected \<in> set evs")
    case True
    then have con: "rc_hasConnectedOnce ?s" by (simp add: reconnect_history)
    show ?thesis
      using True con failing_plans_established [OF con ok(1)] failing_plans_established [of ?c] clear
      by (simp add: Let_def reconnect_history POST_CONNECT_RETRY_DELAYS_MS_def)
  next
    case False
    then have con: "\<not> rc_hasConnectedOnce ?s" by (simp add: reconnect_history)
    show ?thesis
      using False con failing_plans_initial [OF con ok(2)] failing_plans_initial [of ?c] clear
      by (simp add: Let_def reconnect_history MAX_INITIAL_CONNECTION_RETRIES_def
          INITIAL_CONNECTION_RETRY_DELAY_MS_def numeral_2_eq_2)
  qed
qed

end
