(* ===== verification/UrlParser.thy ===== *)
theory UrlParser
  imports Prelude
begin

section \<open>Hosts of the preview proxy\<close>

text \<open>
  \<open>apps/preview-proxy/src/lib/url-parser.ts\<close>: a preview host names a task and a port in its first
  label; a nested host carries the inner hop in front of the outer one, and the inner proxy, which
  knows the outer hop as its suffix, strips it before it parses. An invalid parse is \<open>None\<close>, since
  every invalid result has the same contents.
\<close>

text \<open>\<open>indexOf\<close> of a character cuts a string at its first occurrence.\<close>

definition index_of :: "char \<Rightarrow> string \<Rightarrow> nat option" where
  "index_of c s = find_index ((=) c) s"

lemma index_of_append: "c \<notin> set a \<Longrightarrow> index_of c (a @ c # b) = Some (length a)"
  by (induction a) (auto simp: index_of_def)

lemma index_of_None: "index_of c s = None \<longleftrightarrow> c \<notin> set s"
  by (auto simp: index_of_def find_index_None)

lemma index_of_Some:
  "index_of c s = Some i \<Longrightarrow> \<exists>a b. s = a @ c # b \<and> c \<notin> set a \<and> i = length a"
proof -
  assume i: "index_of c s = Some i"
  then have "c \<in> set s" using index_of_None [of c s] by auto
  then obtain a b where s: "s = a @ c # b" "c \<notin> set a"
    by (meson split_list_first)
  then show ?thesis using i index_of_append [of c a b] by auto
qed

subsection \<open>The parsers\<close>

definition base36 :: "char \<Rightarrow> bool" where
  "base36 c \<longleftrightarrow> is_digit c \<or> (let n = of_char c :: nat in 97 \<le> n \<and> n \<le> 122)"

text \<open>\<open>/^[0-9a-z]{13}$/\<close> and \<open>/^[a-z0-9-]+$/\<close>.\<close>

definition task_id_shape :: "string \<Rightarrow> bool" where
  "task_id_shape s \<longleftrightarrow> length s = 13 \<and> list_all base36 s"

definition port_name_shape :: "string \<Rightarrow> bool" where
  "port_name_shape s \<longleftrightarrow> s \<noteq> [] \<and> list_all (\<lambda>c. base36 c \<or> c = CHR ''-'') s"

record parsed_host =
  ph_portName :: string
  ph_taskId :: string

record parsed_nested_host =
  pn_outerTaskId :: string
  pn_outerPortName :: string
  pn_innerPrefix :: string

definition parseHost :: "string \<Rightarrow> parsed_host option" where
  "parseHost host =
     (case index_of CHR ''.'' host of
        None \<Rightarrow> None
      | Some dotIndex \<Rightarrow>
          let subdomain = take dotIndex host in
          (case index_of CHR ''-'' subdomain of
             None \<Rightarrow> None
           | Some firstHyphen \<Rightarrow>
               let potentialTaskId = take firstHyphen subdomain;
                   portName = drop (firstHyphen + 1) subdomain
               in if task_id_shape potentialTaskId \<and> portName \<noteq> []
                  then if port_name_shape (to_lower portName)
                       then Some \<lparr>ph_portName = to_lower portName, ph_taskId = potentialTaskId\<rparr>
                       else None
                  else None))"

definition ends_with :: "string \<Rightarrow> string \<Rightarrow> bool" where
  "ends_with ending s \<longleftrightarrow> length ending \<le> length s \<and> drop (length s - length ending) s = ending"

definition parseHostWithSuffix :: "string \<Rightarrow> string \<Rightarrow> parsed_host option" where
  "parseHostWithSuffix host suffix =
     (case index_of CHR ''.'' host of
        None \<Rightarrow> None
      | Some dotIndex \<Rightarrow>
          let subdomain = take dotIndex host;
              domain = drop dotIndex host;
              expectedEnding = CHR ''-'' # suffix
          in if \<not> ends_with expectedEnding subdomain then None
             else let stripped = take (length subdomain - length expectedEnding) subdomain
                  in if stripped = [] then None else parseHost (stripped @ domain))"

text \<open>The scan from the last segment to the first.\<close>

fun last_match :: "(string \<Rightarrow> bool) \<Rightarrow> string list \<Rightarrow> nat \<Rightarrow> nat option" where
  "last_match P segs 0 = None"
| "last_match P segs (Suc i) = (if P (segs ! i) then Some i else last_match P segs i)"

definition parseHostNested :: "string \<Rightarrow> parsed_nested_host option" where
  "parseHostNested host =
     (case index_of CHR ''.'' host of
        None \<Rightarrow> None
      | Some dotIndex \<Rightarrow>
          let segments = split_on CHR ''-'' (take dotIndex host) in
          if length segments < 3 then None
          else case last_match task_id_shape segments (length segments) of
                 None \<Rightarrow> None
               | Some matchIndex \<Rightarrow>
                   if matchIndex < 1 then None
                   else let outerPortName = to_lower (join_with CHR ''-'' (drop (matchIndex + 1) segments));
                            innerPrefix = join_with CHR ''-'' (take matchIndex segments)
                        in if outerPortName = [] \<or> \<not> port_name_shape outerPortName then None
                           else if innerPrefix = [] then None
                           else Some \<lparr>pn_outerTaskId = segments ! matchIndex,
                                      pn_outerPortName = outerPortName, pn_innerPrefix = innerPrefix\<rparr>)"

definition stripSuffixFromHost :: "string \<Rightarrow> string \<Rightarrow> string" where
  "stripSuffixFromHost host suffix =
     (case index_of CHR ''.'' host of
        None \<Rightarrow> host
      | Some dotIndex \<Rightarrow>
          let subdomain = take dotIndex host;
              expectedEnding = CHR ''-'' # suffix
          in if ends_with expectedEnding subdomain
             then take (length subdomain - length expectedEnding) subdomain @ drop dotIndex host
             else host)"

definition parseHostForConfig :: "string \<Rightarrow> string option \<Rightarrow> parsed_host option" where
  "parseHostForConfig host suffix =
     (if truthy suffix then parseHostWithSuffix host (the suffix) else parseHost host)"

subsection \<open>What is parsed\<close>

lemma base36_not_sep: "base36 c \<Longrightarrow> c \<noteq> CHR ''-'' \<and> c \<noteq> CHR ''.''"
  by (auto simp: base36_def is_digit_def Let_def)

lemma task_id_no_sep:
  "task_id_shape s \<Longrightarrow> CHR ''-'' \<notin> set s \<and> CHR ''.'' \<notin> set s"
  using base36_not_sep by (auto simp: task_id_shape_def list_all_iff)

lemma task_id_not_Nil: "task_id_shape s \<Longrightarrow> s \<noteq> []"
  by (auto simp: task_id_shape_def)

lemma port_not_Nil: "port_name_shape (to_lower s) \<Longrightarrow> s \<noteq> []"
  by (auto simp: port_name_shape_def to_lower_def)

lemma parseHost_parts:
  assumes "task_id_shape t" "CHR ''.'' \<notin> set port" "port_name_shape (to_lower port)"
  shows "parseHost (t @ CHR ''-'' # port @ CHR ''.'' # domain) =
    Some \<lparr>ph_portName = to_lower port, ph_taskId = t\<rparr>"
proof -
  have "index_of CHR ''.'' ((t @ CHR ''-'' # port) @ CHR ''.'' # domain) =
      Some (length (t @ CHR ''-'' # port))"
    using assms task_id_no_sep by (intro index_of_append) auto
  moreover have "index_of CHR ''-'' (t @ CHR ''-'' # port) = Some (length t)"
    using assms task_id_no_sep by (intro index_of_append) auto
  ultimately show ?thesis
    using assms port_not_Nil [OF assms(3)] by (simp add: parseHost_def Let_def)
qed

text \<open>A host is parsed as a preview host exactly when it is a 13-character lowercase base-36 task
  id, a hyphen, and a port name of letters, digits and hyphens before the first dot; the result
  is that id and the port name in lower case, and every other host is invalid.\<close>

theorem parse_host_exact:
  "parseHost host = Some p \<longleftrightarrow>
   (\<exists>port domain. host = ph_taskId p @ CHR ''-'' # port @ CHR ''.'' # domain \<and>
      task_id_shape (ph_taskId p) \<and> CHR ''.'' \<notin> set port \<and>
      port_name_shape (ph_portName p) \<and> ph_portName p = to_lower port)"
proof
  assume parsed: "parseHost host = Some p"
  then obtain i where "index_of CHR ''.'' host = Some i"
    by (auto simp: parseHost_def split: option.splits)
  then obtain sub domain where host: "host = sub @ CHR ''.'' # domain" "CHR ''.'' \<notin> set sub"
      "index_of CHR ''.'' host = Some (length sub)"
    using index_of_Some by metis
  with parsed obtain j where "index_of CHR ''-'' sub = Some j"
    by (auto simp: parseHost_def Let_def split: option.splits)
  then obtain t port where sub: "sub = t @ CHR ''-'' # port" "CHR ''-'' \<notin> set t"
      "index_of CHR ''-'' sub = Some (length t)"
    using index_of_Some by metis
  have "index_of CHR ''-'' (t @ CHR ''-'' # port) = Some (length t)"
    using sub by simp
  with parsed host sub(1) have "task_id_shape t \<and> port_name_shape (to_lower port) \<and>
      p = \<lparr>ph_portName = to_lower port, ph_taskId = t\<rparr>"
    by (simp add: parseHost_def Let_def split: if_splits)
  with host sub show "\<exists>port domain. host = ph_taskId p @ CHR ''-'' # port @ CHR ''.'' # domain \<and>
      task_id_shape (ph_taskId p) \<and> CHR ''.'' \<notin> set port \<and>
      port_name_shape (ph_portName p) \<and> ph_portName p = to_lower port"
    by (intro exI [of _ port] exI [of _ domain]) auto
next
  assume "\<exists>port domain. host = ph_taskId p @ CHR ''-'' # port @ CHR ''.'' # domain \<and>
      task_id_shape (ph_taskId p) \<and> CHR ''.'' \<notin> set port \<and>
      port_name_shape (ph_portName p) \<and> ph_portName p = to_lower port"
  then show "parseHost host = Some p"
    by (auto simp: parseHost_parts)
qed

lemma last_match_Some:
  "last_match P segs n = Some i \<longleftrightarrow> i < n \<and> P (segs ! i) \<and> (\<forall>j. i < j \<and> j < n \<longrightarrow> \<not> P (segs ! j))"
  by (induction n) (auto simp: less_Suc_eq)

lemma last_match_split:
  "last_match P segs (length segs) = Some i \<longleftrightarrow>
   (\<exists>pre x post. segs = pre @ x # post \<and> length pre = i \<and> P x \<and> list_all (\<lambda>y. \<not> P y) post)"
proof
  assume m: "last_match P segs (length segs) = Some i"
  then have i: "i < length segs" "P (segs ! i)" and
      later: "\<And>j. i < j \<Longrightarrow> j < length segs \<Longrightarrow> \<not> P (segs ! j)"
    by (auto simp: last_match_Some)
  have "list_all (\<lambda>y. \<not> P y) (drop (Suc i) segs)"
    unfolding list_all_length using later by simp
  with i show "\<exists>pre x post. segs = pre @ x # post \<and> length pre = i \<and> P x \<and> list_all (\<lambda>y. \<not> P y) post"
    by (intro exI [of _ "take i segs"] exI [of _ "segs ! i"] exI [of _ "drop (Suc i) segs"])
      (simp add: Cons_nth_drop_Suc)
next
  assume "\<exists>pre x post. segs = pre @ x # post \<and> length pre = i \<and> P x \<and> list_all (\<lambda>y. \<not> P y) post"
  then obtain pre x post where segs: "segs = pre @ x # post" "length pre = i" "P x"
      "list_all (\<lambda>y. \<not> P y) post" by blast
  have "\<not> P (segs ! j)" if "i < j" "j < length segs" for j
    using that segs by (auto simp: nth_append nth_Cons list_all_length split: nat.split)
  then show "last_match P segs (length segs) = Some i"
    unfolding last_match_Some using segs by auto
qed

lemma nested_parts:
  assumes "CHR ''.'' \<notin> set inner" "CHR ''.'' \<notin> set port" "inner \<noteq> []" "task_id_shape outer"
    "port_name_shape (to_lower port)" "list_all (\<lambda>seg. \<not> task_id_shape seg) (split_on CHR ''-'' port)"
  shows "parseHostNested (inner @ CHR ''-'' # outer @ CHR ''-'' # port @ CHR ''.'' # domain) =
    Some \<lparr>pn_outerTaskId = outer, pn_outerPortName = to_lower port, pn_innerPrefix = inner\<rparr>"
proof -
  let ?sub = "inner @ CHR ''-'' # outer @ CHR ''-'' # port"
  let ?segs = "split_on CHR ''-'' inner @ outer # split_on CHR ''-'' port"
  have "index_of CHR ''.'' (?sub @ CHR ''.'' # domain) = Some (length ?sub)"
    using assms task_id_no_sep by (intro index_of_append) auto
  moreover have segs: "split_on CHR ''-'' ?sub = ?segs"
    using task_id_no_sep [OF assms(4)] by (simp add: split_on_append split_plain)
  moreover have "last_match task_id_shape ?segs (length ?segs) = Some (length (split_on CHR ''-'' inner))"
    unfolding last_match_split using assms by blast
  moreover have pos: "0 < length (split_on CHR ''-'' inner)" "0 < length (split_on CHR ''-'' port)"
    by simp_all
  moreover have "\<not> length ?segs < 3"
    using add_mono [OF pos [unfolded Suc_le_eq [symmetric]]] by simp
  moreover have "to_lower port \<noteq> []"
    using port_not_Nil [OF assms(5)] by (simp add: to_lower_def)
  ultimately show ?thesis
    using assms by (simp add: parseHostNested_def Let_def)
qed

lemma nested_parsed:
  assumes "parseHostNested host = Some n"
  shows "\<exists>port domain.
      host = pn_innerPrefix n @ CHR ''-'' # pn_outerTaskId n @ CHR ''-'' # port @ CHR ''.'' # domain \<and>
      CHR ''.'' \<notin> set (pn_innerPrefix n @ port) \<and> pn_innerPrefix n \<noteq> [] \<and>
      task_id_shape (pn_outerTaskId n) \<and> port_name_shape (pn_outerPortName n) \<and>
      pn_outerPortName n = to_lower port \<and>
      list_all (\<lambda>seg. \<not> task_id_shape seg) (split_on CHR ''-'' port)"
proof -
  obtain i where "index_of CHR ''.'' host = Some i"
    using assms by (auto simp: parseHostNested_def split: option.splits)
  then obtain sub domain where host: "host = sub @ CHR ''.'' # domain" "CHR ''.'' \<notin> set sub"
      "index_of CHR ''.'' host = Some (length sub)"
    using index_of_Some by metis
  let ?segs = "split_on CHR ''-'' sub"
  obtain m where m: "last_match task_id_shape ?segs (length ?segs) = Some m"
    using assms host by (auto simp: parseHostNested_def Let_def split: option.splits if_splits)
  then obtain pre x post where segs: "?segs = pre @ x # post" "length pre = m" "task_id_shape x"
      "list_all (\<lambda>y. \<not> task_id_shape y) post"
    unfolding last_match_split by blast
  have n: "pre \<noteq> []" "join_with CHR ''-'' pre \<noteq> []" "post \<noteq> []"
      "port_name_shape (to_lower (join_with CHR ''-'' post))"
      "n = \<lparr>pn_outerTaskId = x, pn_outerPortName = to_lower (join_with CHR ''-'' post),
           pn_innerPrefix = join_with CHR ''-'' pre\<rparr>"
    using assms host m segs
    by (auto simp: parseHostNested_def Let_def to_lower_def split: if_splits)
  have "sub = join_with CHR ''-'' (pre @ x # post)"
    using segs(1) by (metis join_split)
  then have sub: "sub = join_with CHR ''-'' pre @ CHR ''-'' # x @ CHR ''-'' # join_with CHR ''-'' post"
    using n(1,3) by (simp add: join_append join_Cons)
  have "\<forall>seg \<in> set post. CHR ''-'' \<notin> set seg"
    using segs(1) split_no_sep [of _ "CHR ''-''" sub] by auto
  then have "split_on CHR ''-'' (join_with CHR ''-'' post) = post"
    using n(3) by (intro split_join) auto
  then show ?thesis
    using host sub segs n by (intro exI [of _ "join_with CHR ''-'' post"] exI [of _ domain]) auto
qed

text \<open>A host is parsed as nested exactly when its first label is a non-empty inner prefix, a task
  id and a port name, joined by hyphens, where no hyphen-separated segment of the port name is
  itself a task id; the result is these three, the port name in lower case.\<close>

theorem nested_host_exact:
  "parseHostNested host = Some n \<longleftrightarrow>
   (\<exists>port domain.
      host = pn_innerPrefix n @ CHR ''-'' # pn_outerTaskId n @ CHR ''-'' # port @ CHR ''.'' # domain \<and>
      CHR ''.'' \<notin> set (pn_innerPrefix n @ port) \<and> pn_innerPrefix n \<noteq> [] \<and>
      task_id_shape (pn_outerTaskId n) \<and> port_name_shape (pn_outerPortName n) \<and>
      pn_outerPortName n = to_lower port \<and>
      list_all (\<lambda>seg. \<not> task_id_shape seg) (split_on CHR ''-'' port))"
  by (rule iffI [OF nested_parsed]) (auto simp: nested_parts)

lemma ends_with_append: "ends_with e (a @ e)"
  by (simp add: ends_with_def)

lemma strip_parts:
  assumes "CHR ''.'' \<notin> set inner" "CHR ''.'' \<notin> set suffix"
  shows "stripSuffixFromHost (inner @ CHR ''-'' # suffix @ CHR ''.'' # domain) suffix =
    inner @ CHR ''.'' # domain"
    and "inner \<noteq> [] \<Longrightarrow> parseHostWithSuffix (inner @ CHR ''-'' # suffix @ CHR ''.'' # domain) suffix =
      parseHost (inner @ CHR ''.'' # domain)"
proof -
  let ?sub = "inner @ CHR ''-'' # suffix"
  have "index_of CHR ''.'' (?sub @ CHR ''.'' # domain) = Some (length ?sub)"
    using assms by (intro index_of_append) auto
  moreover have "ends_with (CHR ''-'' # suffix) ?sub"
    by (rule ends_with_append)
  ultimately show "stripSuffixFromHost (inner @ CHR ''-'' # suffix @ CHR ''.'' # domain) suffix =
        inner @ CHR ''.'' # domain"
      "inner \<noteq> [] \<Longrightarrow> parseHostWithSuffix (inner @ CHR ''-'' # suffix @ CHR ''.'' # domain) suffix =
        parseHost (inner @ CHR ''.'' # domain)"
    by (simp_all add: stripSuffixFromHost_def parseHostWithSuffix_def Let_def)
qed

text \<open>The two hops of a nested host agree. When the outer proxy has read a lowercase host as
  nested, the inner proxy configured with that outer hop as its suffix parses what the outer hop
  leaves, its forwarding headers carry exactly that host, and the parse is valid whenever the
  inner prefix is a task id and a port name.\<close>

theorem inner_hop_parses_the_rest:
  assumes "parseHostNested host = Some n" "to_lower host = host"
    "suffix = pn_outerTaskId n @ CHR ''-'' # pn_outerPortName n"
  shows "parseHostForConfig host (Some suffix) = parseHost (stripSuffixFromHost host suffix) \<and>
    (\<exists>domain. host = pn_innerPrefix n @ CHR ''-'' # suffix @ CHR ''.'' # domain \<and>
       stripSuffixFromHost host suffix = pn_innerPrefix n @ CHR ''.'' # domain) \<and>
    (if \<exists>t port. pn_innerPrefix n = t @ CHR ''-'' # port \<and> task_id_shape t \<and> port_name_shape port
     then \<exists>t port. parseHostForConfig host (Some suffix) = Some \<lparr>ph_portName = port, ph_taskId = t\<rparr> \<and>
            pn_innerPrefix n = t @ CHR ''-'' # port
     else True)"
proof -
  obtain port domain where host: "host = pn_innerPrefix n @ CHR ''-'' # pn_outerTaskId n @ CHR ''-'' # port @ CHR ''.'' # domain"
      "CHR ''.'' \<notin> set (pn_innerPrefix n @ port)" "pn_innerPrefix n \<noteq> []"
      "task_id_shape (pn_outerTaskId n)" "pn_outerPortName n = to_lower port"
    using nested_parsed [OF assms(1)] by blast
  let ?i = "pn_innerPrefix n"
  have low: "to_lower ?i = ?i" "to_lower port = port"
    using assms(2) by (simp_all add: host(1) to_lower_def)
  have suffix: "suffix = pn_outerTaskId n @ CHR ''-'' # port" "suffix \<noteq> []" "CHR ''.'' \<notin> set suffix"
    using host low assms(3) task_id_no_sep [OF host(4)] by auto
  have h: "host = ?i @ CHR ''-'' # suffix @ CHR ''.'' # domain"
    using host(1) suffix(1) by simp
  have strip: "stripSuffixFromHost host suffix = ?i @ CHR ''.'' # domain"
    unfolding h using host(2) suffix(3) by (intro strip_parts) auto
  have parse: "parseHostForConfig host (Some suffix) = parseHost (?i @ CHR ''.'' # domain)"
    using strip_parts(2) [of ?i suffix domain] host(2,3) suffix h
    by (simp add: parseHostForConfig_def)
  have "\<exists>t q. parseHost (?i @ CHR ''.'' # domain) = Some \<lparr>ph_portName = q, ph_taskId = t\<rparr> \<and>
      ?i = t @ CHR ''-'' # q"
    if tq: "?i = t @ CHR ''-'' # q" "task_id_shape t" "port_name_shape q" for t q
  proof -
    have "to_lower q = q" using low(1) by (simp add: tq(1) to_lower_def)
    then have "parseHost (t @ CHR ''-'' # q @ CHR ''.'' # domain) =
        Some \<lparr>ph_portName = q, ph_taskId = t\<rparr>"
      using parseHost_parts [of t q domain] tq host(2) by simp
    then show ?thesis using tq by auto
  qed
  then show ?thesis using h strip parse by auto
qed

theorem inner_hop_parses_the_rest_witness:
  "parseHostForConfig ''20imtw24sm6hv-web-r4nje6w8ab123-preview.roomote.run''
     (Some ''r4nje6w8ab123-preview'') =
   parseHost (stripSuffixFromHost ''20imtw24sm6hv-web-r4nje6w8ab123-preview.roomote.run''
     ''r4nje6w8ab123-preview'')"
proof -
  let ?host = "''20imtw24sm6hv-web-r4nje6w8ab123-preview.roomote.run''"
  let ?n = "\<lparr>pn_outerTaskId = ''r4nje6w8ab123'', pn_outerPortName = ''preview'',
    pn_innerPrefix = ''20imtw24sm6hv-web''\<rparr>"
  have "parseHostNested ?host = Some ?n" by code_simp
  moreover have "to_lower ?host = ?host" by code_simp
  ultimately show ?thesis
    using inner_hop_parses_the_rest [of ?host ?n "''r4nje6w8ab123-preview''"] by simp
qed

end
