(* ===== verification/InboundQueue.thy ===== *)
theory InboundQueue
  imports JsValue "HOL-Library.Product_Lexorder"
begin

section \<open>The durable inbound queue of the Discord gateway\<close>

text \<open>
  \<open>apps/discord-gateway/src/inbound-queue.ts\<close>: events received from Discord wait in a Redis stream
  until the delivery loop has given them to the API, or moved them to a dead-letter stream. Each
  script is one step. What Redis decides is an argument: the id of a new entry (later than every
  one before it), and how many of the oldest entries an approximate \<open>MAXLEN\<close> removes, which is
  never more than exceed the cap. JSON text is an argument too: \<open>jt_stringify\<close> and \<open>jt_parse\<close>.
  A stream id is the pair of its milliseconds and its sequence number.
\<close>

type_synonym stream_id = "nat \<times> nat"

record json_text =
  jt_stringify :: "jsv \<Rightarrow> string"
  jt_parse :: "string \<Rightarrow> string + jsv"

definition DEDUPE_PREFIX :: string where "DEDUPE_PREFIX = ''discord:gateway:dedupe''"
definition DEDUPE_TTL_SECONDS :: int where "DEDUPE_TTL_SECONDS = 24 * 60 * 60"
definition DEFAULT_INBOUND_MAX_ENTRIES :: nat where "DEFAULT_INBOUND_MAX_ENTRIES = 50000"
definition DEFAULT_DEAD_LETTER_MAX_ENTRIES :: nat where "DEFAULT_DEAD_LETTER_MAX_ENTRIES = 1000"

definition dedupe_ttl :: ms where "dedupe_ttl = DEDUPE_TTL_SECONDS * 1000"

datatype inbound_type = MessageCreate | InteractionCreate | MessageReactionAdd

fun inbound_type_str :: "inbound_type \<Rightarrow> string" where
  "inbound_type_str MessageCreate = ''MESSAGE_CREATE''"
| "inbound_type_str InteractionCreate = ''INTERACTION_CREATE''"
| "inbound_type_str MessageReactionAdd = ''MESSAGE_REACTION_ADD''"

record inbound_envelope =
  ie_eventId :: string
  ie_eventType :: inbound_type
  ie_payload :: jsv
  ie_receivedAt :: string
  ie_interactionDeferred :: "bool option"

text \<open>The value of an envelope; a property that is \<open>undefined\<close> has no text.\<close>

definition envelope_json :: "inbound_envelope \<Rightarrow> jsv" where
  "envelope_json e = JObj
     ([(''eventId'', JStr (ie_eventId e)), (''eventType'', JStr (inbound_type_str (ie_eventType e)))]
      @ (if ie_payload e = JUndefined then [] else [(''payload'', ie_payload e)])
      @ [(''receivedAt'', JStr (ie_receivedAt e))]
      @ (case ie_interactionDeferred e of None \<Rightarrow> []
         | Some b \<Rightarrow> [(''interactionDeferred'', JBool b)]))"

definition dedupe_key :: "inbound_envelope \<Rightarrow> string" where
  "dedupe_key e = DEDUPE_PREFIX @ '':'' @ inbound_type_str (ie_eventType e) @ '':'' @ ie_eventId e"

datatype queue_entry =
    QueuedEvent (entry_id: stream_id) jsv string
  | MalformedEntry (entry_id: stream_id) string string

record dead_letter =
  dl_sourceStreamId :: stream_id
  dl_envelope :: string
  dl_reason :: string
  dl_attempts :: nat
  dl_quarantinedAt :: ms

text \<open>The keys of Redis: the stream with the last id it gave, the attempts hash, the dedupe keys
  with the time each expires, and the entries of the dead-letter stream.\<close>

record inbound_redis =
  ir_stream :: "(stream_id \<times> string list) list"
  ir_lastId :: stream_id
  ir_attempts :: "(stream_id, nat) jsmap"
  ir_dedupe :: "(string, ms) jsmap"
  ir_deadLetters :: "dead_letter list"

definition empty_inbound :: inbound_redis where
  "empty_inbound = \<lparr>ir_stream = [], ir_lastId = (0, 0), ir_attempts = [], ir_dedupe = [],
     ir_deadLetters = []\<rparr>"

abbreviation ids :: "inbound_redis \<Rightarrow> stream_id list" where
  "ids r \<equiv> map fst (ir_stream r)"

subsection \<open>Operations\<close>

text \<open>\<open>XADD\<close> with an approximate cap: \<open>shed\<close> oldest entries go, as far as the cap is exceeded.\<close>

definition capped :: "nat \<Rightarrow> nat \<Rightarrow> 'a list \<Rightarrow> 'a list" where
  "capped maxEntries shed xs = drop (min shed (length xs - maxEntries)) xs"

definition key_exists :: "ms \<Rightarrow> string \<Rightarrow> inbound_redis \<Rightarrow> bool" where
  "key_exists now k r \<longleftrightarrow> (case map_of (ir_dedupe r) k of None \<Rightarrow> False | Some expiry \<Rightarrow> now < expiry)"

definition enqueueInbound ::
    "json_text \<Rightarrow> nat \<Rightarrow> nat \<Rightarrow> stream_id \<Rightarrow> ms \<Rightarrow> inbound_envelope \<Rightarrow> inbound_redis
     \<Rightarrow> inbound_redis \<times> bool" where
  "enqueueInbound json maxEntries shed newId now envelope r =
     (if key_exists now (dedupe_key envelope) r then (r, False)
      else (r\<lparr>ir_stream := capped maxEntries shed
                (ir_stream r @ [(newId, [''envelope'', jt_stringify json (envelope_json envelope)])]),
              ir_lastId := newId,
              ir_dedupe := AList.update (dedupe_key envelope) (now + dedupe_ttl) (ir_dedupe r)\<rparr>,
            True))"

text \<open>\<open>fields[fields.indexOf('envelope') + 1]\<close>.\<close>

fun envelope_field :: "string list \<Rightarrow> string option" where
  "envelope_field [] = None"
| "envelope_field (f # fs) =
     (if f = ''envelope'' then (case fs of [] \<Rightarrow> None | v # vs \<Rightarrow> Some v) else envelope_field fs)"

definition read_entry :: "json_text \<Rightarrow> stream_id \<times> string list \<Rightarrow> queue_entry" where
  "read_entry json entry =
     (let serialized = envelope_field (snd entry) in
      if \<not> truthy serialized
      then MalformedEntry (fst entry) (nullish_or serialized [])
             ''Stream entry is missing its envelope field''
      else (case jt_parse json (the serialized) of
              Inr v \<Rightarrow> QueuedEvent (fst entry) v (the serialized)
            | Inl e \<Rightarrow> MalformedEntry (fst entry) (the serialized)
                (''Envelope is not valid JSON: '' @ e)))"

definition peekInbound :: "json_text \<Rightarrow> nat \<Rightarrow> inbound_redis \<Rightarrow> queue_entry list" where
  "peekInbound json limit r = map (read_entry json) (take limit (ir_stream r))"

definition xdel :: "stream_id \<Rightarrow> inbound_redis \<Rightarrow> inbound_redis" where
  "xdel i r = r\<lparr>ir_stream := filter (\<lambda>(j, f). j \<noteq> i) (ir_stream r),
                ir_attempts := AList.delete i (ir_attempts r)\<rparr>"

definition acknowledgeInbound :: "stream_id \<Rightarrow> inbound_redis \<Rightarrow> inbound_redis" where
  "acknowledgeInbound i r = xdel i r"

definition attempt_count :: "stream_id \<Rightarrow> inbound_redis \<Rightarrow> nat" where
  "attempt_count i r = (case map_of (ir_attempts r) i of None \<Rightarrow> 0 | Some n \<Rightarrow> n)"

definition recordAttempt :: "stream_id \<Rightarrow> inbound_redis \<Rightarrow> inbound_redis \<times> nat" where
  "recordAttempt i r =
     (let n = attempt_count i r + 1 in (r\<lparr>ir_attempts := AList.update i n (ir_attempts r)\<rparr>, n))"

definition quarantineInbound ::
    "nat \<Rightarrow> nat \<Rightarrow> stream_id \<Rightarrow> string \<Rightarrow> string \<Rightarrow> nat \<Rightarrow> ms \<Rightarrow> inbound_redis \<Rightarrow> inbound_redis \<times> bool"
where
  "quarantineInbound deadLetterMaxEntries shed i serialized reason attempts now r =
     (if i \<notin> set (ids r) then (r\<lparr>ir_attempts := AList.delete i (ir_attempts r)\<rparr>, False)
      else (xdel i (r\<lparr>ir_deadLetters := capped deadLetterMaxEntries shed
              (ir_deadLetters r @
                [\<lparr>dl_sourceStreamId = i, dl_envelope = serialized, dl_reason = take 1000 reason,
                  dl_attempts = attempts, dl_quarantinedAt = now\<rparr>])\<rparr>), True))"

definition inbound_depth :: "inbound_redis \<Rightarrow> nat" where
  "inbound_depth r = length (ir_stream r)"

definition deadLetterDepth :: "inbound_redis \<Rightarrow> nat" where
  "deadLetterDepth r = length (ir_deadLetters r)"

definition compareStreamIds :: "stream_id \<Rightarrow> stream_id \<Rightarrow> int" where
  "compareStreamIds left right =
     (let ms = int (fst left) - int (fst right)
      in if ms \<noteq> 0 then ms else int (snd left) - int (snd right))"

text \<open>The three commands of \<open>pruneOrphanedAttempts\<close>: between them other operations can come.\<close>

definition tracked_ids :: "inbound_redis \<Rightarrow> stream_id list" where
  "tracked_ids r = map fst (ir_attempts r)"

definition orphaned_ids :: "stream_id list \<Rightarrow> inbound_redis \<Rightarrow> stream_id list" where
  "orphaned_ids tracked r =
     filter (\<lambda>i. case ids r of [] \<Rightarrow> True | oldest # rest \<Rightarrow> compareStreamIds i oldest < 0) tracked"

definition hdel_attempts :: "stream_id list \<Rightarrow> inbound_redis \<Rightarrow> inbound_redis" where
  "hdel_attempts orphaned r = r\<lparr>ir_attempts := fold AList.delete orphaned (ir_attempts r)\<rparr>"

definition pruneOrphanedAttempts :: "inbound_redis \<Rightarrow> inbound_redis \<times> nat" where
  "pruneOrphanedAttempts r =
     (let orphaned = orphaned_ids (tracked_ids r) r
      in (hdel_attempts orphaned r, length orphaned))"

subsection \<open>What they do\<close>

lemma compareStreamIds_less: "compareStreamIds i j < 0 \<longleftrightarrow> i < j"
  by (cases i; cases j) (auto simp: compareStreamIds_def Let_def less_prod_def')

lemma ids_xdel [simp]: "ids (xdel i r) = filter (\<lambda>j. j \<noteq> i) (ids r)"
  by (simp add: xdel_def filter_map o_def case_prod_unfold)

lemma xdel_fields [simp]:
  "ir_lastId (xdel i r) = ir_lastId r" "ir_dedupe (xdel i r) = ir_dedupe r"
  "ir_deadLetters (xdel i r) = ir_deadLetters r"
  by (simp_all add: xdel_def)

lemma recordAttempt_fields [simp]:
  "ir_stream (fst (recordAttempt i r)) = ir_stream r"
  "ir_lastId (fst (recordAttempt i r)) = ir_lastId r"
  "ir_dedupe (fst (recordAttempt i r)) = ir_dedupe r"
  "ir_deadLetters (fst (recordAttempt i r)) = ir_deadLetters r"
  by (simp_all add: recordAttempt_def Let_def)

lemma attempt_count_recordAttempt:
  "attempt_count j (fst (recordAttempt i r)) = attempt_count j r + (if j = i then 1 else 0)"
  by (simp add: recordAttempt_def Let_def attempt_count_def update_conv')

lemma attempt_count_xdel: "j \<noteq> i \<Longrightarrow> attempt_count j (xdel i r) = attempt_count j r"
  by (simp add: xdel_def attempt_count_def delete_conv')

lemma hdel_attempts_fields [simp]:
  "ir_stream (hdel_attempts js r) = ir_stream r" "ir_lastId (hdel_attempts js r) = ir_lastId r"
  "ir_dedupe (hdel_attempts js r) = ir_dedupe r"
  by (simp_all add: hdel_attempts_def)

lemma map_of_deleted_keys: "i \<notin> set js \<Longrightarrow> map_of (fold AList.delete js m) i = map_of m i"
  by (induction js arbitrary: m) (auto simp: delete_conv')

lemma attempt_count_hdel: "i \<notin> set js \<Longrightarrow> attempt_count i (hdel_attempts js r) = attempt_count i r"
  by (simp add: hdel_attempts_def attempt_count_def map_of_deleted_keys)

text \<open>In a stream in order, an attempt counter is orphaned only when its entry is gone.\<close>

lemma orphaned_is_gone:
  assumes "sorted_wrt (<) (ids r)" "i \<in> set (orphaned_ids tracked r)"
  shows "i \<in> set tracked \<and> i \<notin> set (ids r)"
proof (cases "ids r")
  case (Cons oldest rest)
  then show ?thesis
    using assms by (auto simp: orphaned_ids_def compareStreamIds_less)
qed (use assms in \<open>auto simp: orphaned_ids_def\<close>)

end
