(* ===== verification/DeliveryLoop.thy ===== *)
theory DeliveryLoop
  imports InboundQueue Retry "HOL-Library.Multiset"
begin

section \<open>The delivery loop of the Discord gateway\<close>

text \<open>
  \<open>apps/discord-gateway/src/delivery-loop.ts\<close> with the forwarder of \<open>api-forwarder.ts\<close> and the status
  of \<open>status.ts\<close>. The loop takes a batch of the oldest entries and gives each to the API; it is
  modelled in the steps between its awaits, so that the gateway can add entries, other workers can
  run and the process can crash in between. The answer of the API to a request is an argument of
  the step that waits for it.
\<close>

subsection \<open>The forwarder\<close>

datatype http_answer = Answered nat string | NoAnswer

datatype forward_error = ForwardingError bool nat string | OtherError string

definition RETRYABLE_CLIENT_STATUSES :: "nat list" where
  "RETRYABLE_CLIENT_STATUSES = [401, 403, 404, 405, 408, 425, 429]"

definition isRetryableDiscordApiStatus :: "nat \<Rightarrow> bool" where
  "isRetryableDiscordApiStatus status \<longleftrightarrow> status \<in> set RETRYABLE_CLIENT_STATUSES \<or> status \<ge> 500"

definition response_accepted :: "nat \<Rightarrow> bool" where
  "response_accepted status \<longleftrightarrow> 200 \<le> status \<and> status \<le> 299 \<or> status = 409"

definition forwarding_message :: "nat \<Rightarrow> string \<Rightarrow> string" where
  "forwarding_message status responseText =
     (let detail = join_words (js_words (take 300 responseText))
      in ''Discord API event forwarding failed ('' @ nat_str status @ '')'' @
         (if detail = [] then [] else '': '' @ detail))"

definition forward :: "http_answer \<Rightarrow> forward_error + unit" where
  "forward answer =
     (case answer of
        NoAnswer \<Rightarrow> Inl (OtherError ''fetch failed'')
      | Answered status responseText \<Rightarrow>
          if response_accepted status then Inr ()
          else Inl (ForwardingError (isRetryableDiscordApiStatus status) status
                      (forwarding_message status responseText)))"

subsection \<open>The status store\<close>

record gateway_status =
  gs_ready :: bool
  gs_live :: bool
  gs_leader :: bool
  gs_configured :: bool
  gs_connected :: bool
  gs_forwardingReady :: bool
  gs_queueDepth :: nat
  gs_lastForwardedAt :: "ms option"
  gs_lastError :: "string option"

definition initial_status :: gateway_status where
  "initial_status = \<lparr>gs_ready = False, gs_live = True, gs_leader = False, gs_configured = False,
     gs_connected = False, gs_forwardingReady = False, gs_queueDepth = 0,
     gs_lastForwardedAt = None, gs_lastError = None\<rparr>"

definition update_status :: "(gateway_status \<Rightarrow> gateway_status) \<Rightarrow> gateway_status \<Rightarrow> gateway_status" where
  "update_status patch status =
     (let next = patch status
      in next\<lparr>gs_ready := gs_live next \<and> gs_leader next \<and> gs_configured next \<and> gs_connected next \<and>
                gs_forwardingReady next\<rparr>)"

lemma ready_is_exact:
  "gs_ready (fold update_status (p # ps) status) \<longleftrightarrow>
     (let s = fold update_status (p # ps) status
      in gs_live s \<and> gs_leader s \<and> gs_configured s \<and> gs_connected s \<and> gs_forwardingReady s)"
proof (induction ps arbitrary: p status)
  case (Cons p' ps)
  then show ?case using Cons [of p' "update_status p status"] by simp
qed (simp add: update_status_def Let_def)

subsection \<open>The loop\<close>

definition DEFAULT_MAX_ATTEMPTS :: nat where "DEFAULT_MAX_ATTEMPTS = 8"
definition DEFAULT_MAX_BACKOFF_MS :: ms where "DEFAULT_MAX_BACKOFF_MS = 30000"

record delivery_config =
  dc_pollMs :: ms
  dc_maxAttempts :: nat
  dc_maxBackoffMs :: ms
  dc_maxEntries :: nat
  dc_deadLetterMaxEntries :: nat

definition DELIVERY_INFRASTRUCTURE_STATUSES :: "nat list" where
  "DELIVERY_INFRASTRUCTURE_STATUSES = [401, 403, 404, 405, 408, 425, 429]"

fun isPermanentForwardingError :: "forward_error \<Rightarrow> bool" where
  "isPermanentForwardingError (ForwardingError retryable status m) \<longleftrightarrow> \<not> retryable"
| "isPermanentForwardingError (OtherError m) \<longleftrightarrow> False"

fun isDeliveryInfrastructureError :: "forward_error \<Rightarrow> bool" where
  "isDeliveryInfrastructureError (ForwardingError retryable status m) \<longleftrightarrow>
     status \<ge> 500 \<or> status \<in> set DELIVERY_INFRASTRUCTURE_STATUSES"
| "isDeliveryInfrastructureError (OtherError m) \<longleftrightarrow> True"

fun errorMessage :: "forward_error \<Rightarrow> string" where
  "errorMessage (ForwardingError retryable status m) = m"
| "errorMessage (OtherError m) = m"

text \<open>
  Where a worker is: about to look at the queue; in a batch, with the entries to go and whether a
  retryable failure was seen; waiting for the API; waiting for the acknowledgement.
\<close>

datatype loop_pc =
    Peeking
  | Batch "queue_entry list" bool
  | Forwarding stream_id string nat "queue_entry list" bool
  | Acking stream_id "queue_entry list" bool
  | LoopReturned
  | LoopThrew

record delivery_worker =
  dw_pc :: loop_pc
  dw_failureDelayMs :: ms

definition new_worker :: "delivery_config \<Rightarrow> delivery_worker" where
  "new_worker cfg = \<lparr>dw_pc = Peeking, dw_failureDelayMs = dc_pollMs cfg\<rparr>"

definition peek_step :: "delivery_config \<Rightarrow> json_text \<Rightarrow> delivery_worker \<Rightarrow> inbound_redis \<Rightarrow> delivery_worker"
where
  "peek_step cfg json w r =
     (case peekInbound json 25 r of
        [] \<Rightarrow> w\<lparr>dw_failureDelayMs := dc_pollMs cfg\<rparr>
      | entries \<Rightarrow> w\<lparr>dw_pc := Batch entries False\<rparr>)"

definition batch_end :: "delivery_config \<Rightarrow> bool \<Rightarrow> delivery_worker \<Rightarrow> delivery_worker" where
  "batch_end cfg retryableFailure w =
     w\<lparr>dw_pc := Peeking,
       dw_failureDelayMs := (if retryableFailure
         then min (dw_failureDelayMs w * 2) (dc_maxBackoffMs cfg) else dc_pollMs cfg)\<rparr>"

definition forward_failed ::
    "delivery_config \<Rightarrow> nat \<Rightarrow> ms \<Rightarrow> forward_error \<Rightarrow> stream_id \<Rightarrow> string \<Rightarrow> nat \<Rightarrow> queue_entry list
     \<Rightarrow> bool \<Rightarrow> delivery_worker \<Rightarrow> inbound_redis \<Rightarrow> inbound_redis \<times> delivery_worker" where
  "forward_failed cfg shed now error i serialized attempts entries retryableFailure w r =
     (if isDeliveryInfrastructureError error then (r, w\<lparr>dw_pc := LoopThrew\<rparr>)
      else let permanent = isPermanentForwardingError error in
        if permanent \<or> attempts \<ge> dc_maxAttempts cfg
        then (fst (quarantineInbound (dc_deadLetterMaxEntries cfg) shed i serialized
                ((if permanent then ''Permanent forwarding failure: ''
                  else ''Forwarding attempts exhausted: '') @ errorMessage error) attempts now r),
              w\<lparr>dw_pc := Batch entries retryableFailure\<rparr>)
        else (r, w\<lparr>dw_pc := Batch entries True\<rparr>))"

fun delivery_step ::
    "delivery_config \<Rightarrow> json_text \<Rightarrow> bool \<Rightarrow> http_answer \<Rightarrow> nat \<Rightarrow> ms \<Rightarrow> loop_pc \<Rightarrow> delivery_worker
     \<Rightarrow> inbound_redis \<Rightarrow> inbound_redis \<times> delivery_worker" where
  "delivery_step cfg json aborted answer shed now Peeking w r =
     (r, if aborted then w\<lparr>dw_pc := LoopReturned\<rparr> else peek_step cfg json w r)"
| "delivery_step cfg json aborted answer shed now (Batch [] retryableFailure) w r =
     (r, batch_end cfg retryableFailure w)"
| "delivery_step cfg json aborted answer shed now (Batch (entry # entries) retryableFailure) w r =
     (if aborted then (r, w\<lparr>dw_pc := LoopReturned\<rparr>)
      else case entry of
        MalformedEntry i serialized reason \<Rightarrow>
          (fst (quarantineInbound (dc_deadLetterMaxEntries cfg) shed i serialized reason 0 now r),
           w\<lparr>dw_pc := Batch entries retryableFailure\<rparr>)
      | QueuedEvent i envelope serialized \<Rightarrow>
          (case recordAttempt i r of
             (r', attempts) \<Rightarrow>
               (r', w\<lparr>dw_pc := Forwarding i serialized attempts entries retryableFailure\<rparr>)))"
| "delivery_step cfg json aborted answer shed now
     (Forwarding i serialized attempts entries retryableFailure) w r =
     (case forward answer of
        Inr _ \<Rightarrow> (r, w\<lparr>dw_pc := Acking i entries retryableFailure\<rparr>)
      | Inl error \<Rightarrow>
          forward_failed cfg shed now error i serialized attempts entries retryableFailure w r)"
| "delivery_step cfg json aborted answer shed now (Acking i entries retryableFailure) w r =
     (acknowledgeInbound i r, w\<lparr>dw_pc := Batch entries retryableFailure\<rparr>)"
| "delivery_step cfg json aborted answer shed now LoopReturned w r = (r, w)"
| "delivery_step cfg json aborted answer shed now LoopThrew w r = (r, w)"

subsection \<open>The supervisor\<close>

text \<open>The pause before a restart, after a run of \<open>ranMs\<close> milliseconds that ended in a failure.\<close>

definition restart_pause :: "ms \<Rightarrow> ms \<Rightarrow> ms \<Rightarrow> ms \<Rightarrow> ms" where
  "restart_pause pollMs restartMaxBackoffMs ranMs restartDelayMs =
     (if ranMs > restartMaxBackoffMs * 2 then pollMs else restartDelayMs)"

fun restart_pauses :: "ms \<Rightarrow> ms \<Rightarrow> ms \<Rightarrow> ms list \<Rightarrow> ms list" where
  "restart_pauses pollMs restartMaxBackoffMs restartDelayMs [] = []"
| "restart_pauses pollMs restartMaxBackoffMs restartDelayMs (ranMs # runs) =
     (let pause = restart_pause pollMs restartMaxBackoffMs ranMs restartDelayMs
      in pause # restart_pauses pollMs restartMaxBackoffMs (min (pause * 2) restartMaxBackoffMs) runs)"

text \<open>Failures one soon after the other back off exponentially; a long healthy run starts over.\<close>

lemma restart_pauses_after:
  assumes "0 \<le> pollMs" "pollMs \<le> restartMaxBackoffMs"
    and "list_all (\<lambda>ranMs. ranMs \<le> restartMaxBackoffMs * 2) runs"
  shows "restart_pauses pollMs restartMaxBackoffMs (min (pollMs * 2 ^ n) restartMaxBackoffMs) runs =
    map (\<lambda>k. min (pollMs * 2 ^ (n + k)) restartMaxBackoffMs) [0..<length runs]"
  using assms(3)
proof (induction runs arbitrary: n)
  case (Cons ranMs runs)
  have "min (min (pollMs * 2 ^ n) restartMaxBackoffMs * 2) restartMaxBackoffMs =
      min (pollMs * 2 ^ Suc n) restartMaxBackoffMs"
    using assms(1,2) by (auto simp: min_def)
  then show ?case
    using Cons.prems Cons.IH [of "Suc n"]
    by (simp add: restart_pause_def Let_def map_upt_Suc del: upt_Suc)
qed simp

definition deliveryPollMs :: ms where "deliveryPollMs = 500"

definition delivery_pause :: "nat \<Rightarrow> ms" where
  "delivery_pause n = min (deliveryPollMs * 2 ^ n) DEFAULT_MAX_BACKOFF_MS"

interpretation delivery: bounded_backoff delivery_pause DEFAULT_MAX_BACKOFF_MS
proof
  have base: "0 \<le> deliveryPollMs" "0 \<le> DEFAULT_MAX_BACKOFF_MS"
    by (simp_all add: deliveryPollMs_def DEFAULT_MAX_BACKOFF_MS_def)
  fix n
  show "0 \<le> delivery_pause n" "delivery_pause n \<le> DEFAULT_MAX_BACKOFF_MS"
    "delivery_pause n \<le> delivery_pause (Suc n)" "delivery_pause (Suc n) \<le> 2 * delivery_pause n"
    unfolding delivery_pause_def by (rule capped_exponential [OF base])+
qed

text \<open>The pauses before restarts with the gateway's configuration, and how long they can add up to.\<close>

lemma gateway_restarts:
  assumes "list_all (\<lambda>ranMs. ranMs \<le> DEFAULT_MAX_BACKOFF_MS * 2) runs"
  shows "restart_pauses deliveryPollMs DEFAULT_MAX_BACKOFF_MS deliveryPollMs runs =
      map delivery_pause [0..<length runs]"
    and "sum_list (restart_pauses deliveryPollMs DEFAULT_MAX_BACKOFF_MS deliveryPollMs runs)
      \<le> int (length runs) * DEFAULT_MAX_BACKOFF_MS"
proof -
  have base: "0 \<le> deliveryPollMs" "deliveryPollMs \<le> DEFAULT_MAX_BACKOFF_MS"
    by (simp_all add: deliveryPollMs_def DEFAULT_MAX_BACKOFF_MS_def)
  show pauses: "restart_pauses deliveryPollMs DEFAULT_MAX_BACKOFF_MS deliveryPollMs runs =
      map delivery_pause [0..<length runs]"
    using restart_pauses_after [OF base assms, of 0] base(2)
    by (simp add: delivery_pause_def [abs_def])
  show "sum_list (restart_pauses deliveryPollMs DEFAULT_MAX_BACKOFF_MS deliveryPollMs runs)
      \<le> int (length runs) * DEFAULT_MAX_BACKOFF_MS"
    unfolding pauses by (rule delivery.total_wait)
qed

end
