(* ===== verification/DeliverySystem.thy ===== *)
theory DeliverySystem
  imports DeliveryLoop
begin

section \<open>The gateway, its workers and the queue between them\<close>

text \<open>
  The whole system: the gateway adds events, any number of delivery workers take them to the API
  (a lease keeps them to one, but an old worker may still be unwinding), counters are pruned, and
  a worker can crash and start again at any point. Beside the state the machine keeps a history:
  which events were accepted and when, which attempts were recorded, what the API answered, and
  how each entry left the stream.
\<close>

datatype prune_pc = PruneTracked "stream_id list" | PruneRead "stream_id list" | PruneDone

record delivery_machine =
  dm_redis :: inbound_redis
  dm_workers :: "delivery_worker list"
  dm_prunes :: "prune_pc list"
  dm_clock :: ms
  dm_accepted :: "(stream_id \<times> string \<times> ms) list"
  dm_tries :: "stream_id list"
  dm_answers :: "(stream_id \<times> nat) list"
  dm_acked :: "stream_id list"
  dm_dead :: "stream_id list"
  dm_shed :: "stream_id list"

definition gone :: "stream_id list \<Rightarrow> inbound_redis \<Rightarrow> stream_id list" where
  "gone js r = filter (\<lambda>i. i \<notin> set (ids r)) js"

fun tried :: "loop_pc \<Rightarrow> loop_pc \<Rightarrow> stream_id list" where
  "tried (Batch entries f) (Forwarding i s n es f') = [i]"
| "tried pc pc' = []"

fun answered :: "loop_pc \<Rightarrow> http_answer \<Rightarrow> (stream_id \<times> nat) list" where
  "answered (Forwarding i s n es f) (Answered status responseText) = [(i, status)]"
| "answered pc answer = []"

fun acking :: "loop_pc \<Rightarrow> bool" where
  "acking (Acking i es f) \<longleftrightarrow> True"
| "acking pc \<longleftrightarrow> False"

definition worker_moved ::
    "nat \<Rightarrow> http_answer \<Rightarrow> inbound_redis \<Rightarrow> delivery_worker \<Rightarrow> delivery_machine \<Rightarrow> delivery_machine" where
  "worker_moved k answer r' w' m =
     (let w = dm_workers m ! k; left = gone (ids (dm_redis m)) r'
      in m\<lparr>dm_redis := r', dm_workers := (dm_workers m)[k := w'],
           dm_tries := dm_tries m @ tried (dw_pc w) (dw_pc w'),
           dm_answers := dm_answers m @ answered (dw_pc w) answer,
           dm_acked := dm_acked m @ (if acking (dw_pc w) then left else []),
           dm_dead := dm_dead m @ (if acking (dw_pc w) then [] else left)\<rparr>)"

definition event_added ::
    "stream_id \<Rightarrow> ms \<Rightarrow> inbound_envelope \<Rightarrow> inbound_redis \<Rightarrow> delivery_machine \<Rightarrow> delivery_machine" where
  "event_added newId now envelope r' m =
     m\<lparr>dm_redis := r', dm_clock := now,
       dm_accepted := dm_accepted m @ [(newId, dedupe_key envelope, now)],
       dm_shed := dm_shed m @ gone (ids (dm_redis m) @ [newId]) r'\<rparr>"

text \<open>What JSON promises of a value: its text is not empty and parses to a value.\<close>

definition json_reads :: "json_text \<Rightarrow> jsv \<Rightarrow> bool" where
  "json_reads json v \<longleftrightarrow>
     jt_stringify json v \<noteq> [] \<and> (case jt_parse json (jt_stringify json v) of Inl e \<Rightarrow> False | Inr v' \<Rightarrow> True)"

inductive delivery_moves ::
    "delivery_config \<Rightarrow> json_text \<Rightarrow> delivery_machine \<Rightarrow> delivery_machine \<Rightarrow> bool" for cfg json where
  dv_accepted: "ir_lastId (dm_redis m) < newId \<Longrightarrow> dm_clock m \<le> now \<Longrightarrow>
    json_reads json (envelope_json envelope) \<Longrightarrow>
    enqueueInbound json (dc_maxEntries cfg) shed newId now envelope (dm_redis m) = (r', True) \<Longrightarrow>
    delivery_moves cfg json m (event_added newId now envelope r' m)"
| dv_duplicate: "dm_clock m \<le> now \<Longrightarrow>
    enqueueInbound json (dc_maxEntries cfg) shed newId now envelope (dm_redis m) = (r', False) \<Longrightarrow>
    delivery_moves cfg json m (m\<lparr>dm_redis := r', dm_clock := now\<rparr>)"
| dv_work: "k < length (dm_workers m) \<Longrightarrow>
    delivery_step cfg json aborted answer shed now (dw_pc (dm_workers m ! k)) (dm_workers m ! k)
      (dm_redis m) = (r', w') \<Longrightarrow>
    delivery_moves cfg json m (worker_moved k answer r' w' m)"
| dv_start: "delivery_moves cfg json m (m\<lparr>dm_workers := dm_workers m @ [new_worker cfg]\<rparr>)"
| dv_restart: "delivery_moves cfg json m (m\<lparr>dm_workers := (dm_workers m)[k := new_worker cfg]\<rparr>)"
| dv_prune_begin: "delivery_moves cfg json m
    (m\<lparr>dm_prunes := dm_prunes m @ [PruneTracked (tracked_ids (dm_redis m))]\<rparr>)"
| dv_prune_read: "k < length (dm_prunes m) \<Longrightarrow> dm_prunes m ! k = PruneTracked tracked \<Longrightarrow>
    delivery_moves cfg json m
      (m\<lparr>dm_prunes := (dm_prunes m)[k := PruneRead (orphaned_ids tracked (dm_redis m))]\<rparr>)"
| dv_prune_end: "k < length (dm_prunes m) \<Longrightarrow> dm_prunes m ! k = PruneRead orphaned \<Longrightarrow>
    delivery_moves cfg json m
      (m\<lparr>dm_redis := hdel_attempts orphaned (dm_redis m), dm_prunes := (dm_prunes m)[k := PruneDone]\<rparr>)"

definition empty_delivery :: delivery_machine where
  "empty_delivery = \<lparr>dm_redis = empty_inbound, dm_workers = [], dm_prunes = [], dm_clock = 0,
     dm_accepted = [], dm_tries = [], dm_answers = [], dm_acked = [], dm_dead = [], dm_shed = []\<rparr>"

inductive reachable_delivery :: "delivery_config \<Rightarrow> json_text \<Rightarrow> delivery_machine \<Rightarrow> bool"
  for cfg json where
  rd_start: "reachable_delivery cfg json empty_delivery"
| rd_step: "reachable_delivery cfg json m \<Longrightarrow> delivery_moves cfg json m m' \<Longrightarrow>
    reachable_delivery cfg json m'"

subsection \<open>What every step does to the stream\<close>

text \<open>Entries only leave, or are added with an id later than every one before.\<close>

definition redis_evolves :: "inbound_redis \<Rightarrow> inbound_redis \<Rightarrow> bool" where
  "redis_evolves r r' \<longleftrightarrow> ir_lastId r \<le> ir_lastId r' \<and>
     (\<forall>i \<in> set (ids r'). i \<in> set (ids r) \<or> ir_lastId r < i)"

definition stream_ok :: "json_text \<Rightarrow> inbound_redis \<Rightarrow> bool" where
  "stream_ok json r \<longleftrightarrow> sorted_wrt (<) (ids r) \<and> (\<forall>i \<in> set (ids r). i \<le> ir_lastId r) \<and>
     (\<forall>i \<in> set (tracked_ids r). i \<le> ir_lastId r) \<and>
     (\<forall>entry \<in> set (ir_stream r). is_QueuedEvent (read_entry json entry))"

fun pending :: "loop_pc \<Rightarrow> stream_id list" where
  "pending (Batch entries f) = map entry_id entries"
| "pending (Forwarding i s n entries f) = i # map entry_id entries"
| "pending (Acking i entries f) = i # map entry_id entries"
| "pending pc = []"

fun to_come :: "loop_pc \<Rightarrow> queue_entry list" where
  "to_come (Batch entries f) = entries"
| "to_come (Forwarding i s n entries f) = entries"
| "to_come (Acking i entries f) = entries"
| "to_come pc = []"

fun failure_seen :: "loop_pc \<Rightarrow> bool" where
  "failure_seen (Batch entries f) \<longleftrightarrow> f"
| "failure_seen (Forwarding i s n entries f) \<longleftrightarrow> f"
| "failure_seen (Acking i entries f) \<longleftrightarrow> f"
| "failure_seen pc \<longleftrightarrow> False"

text \<open>A worker's batch is in front of everything else: what is in the stream and not in the batch is
  later than all of it.\<close>

definition front :: "inbound_redis \<Rightarrow> stream_id list \<Rightarrow> bool" where
  "front r js \<longleftrightarrow> sorted_wrt (<) js \<and> (\<forall>j \<in> set js. j \<le> ir_lastId r) \<and>
     (\<forall>i \<in> set (ids r). i \<in> set js \<or> (\<forall>j \<in> set js. j < i))"

definition worker_ok :: "(stream_id \<times> nat) list \<Rightarrow> inbound_redis \<Rightarrow> loop_pc \<Rightarrow> bool" where
  "worker_ok answers r pc \<longleftrightarrow> front r (pending pc) \<and> list_all is_QueuedEvent (to_come pc) \<and>
     \<not> failure_seen pc \<and>
     (case pc of Acking i es f \<Rightarrow> \<exists>status. (i, status) \<in> set answers \<and> response_accepted status
      | _ \<Rightarrow> True)"

fun prune_ok :: "inbound_redis \<Rightarrow> prune_pc \<Rightarrow> bool" where
  "prune_ok r (PruneTracked js) \<longleftrightarrow> (\<forall>j \<in> set js. j \<le> ir_lastId r)"
| "prune_ok r (PruneRead js) \<longleftrightarrow> (\<forall>j \<in> set js. j \<le> ir_lastId r \<and> j \<notin> set (ids r))"
| "prune_ok r PruneDone \<longleftrightarrow> True"

lemma redis_evolves_refl [simp]: "redis_evolves r r"
  by (simp add: redis_evolves_def)

lemma front_evolves: "front r js \<Longrightarrow> redis_evolves r r' \<Longrightarrow> front r' js"
  unfolding front_def redis_evolves_def by (blast intro: le_less_trans order_trans)

lemma front_Nil [simp]: "front r []"
  by (simp add: front_def)

lemma front_tail: "front r (j # js) \<Longrightarrow> j \<notin> set (ids r) \<Longrightarrow> front r js"
  unfolding front_def by auto

lemma worker_ok_evolves:
  "worker_ok answers r pc \<Longrightarrow> redis_evolves r r' \<Longrightarrow> worker_ok (answers @ more_answers) r' pc"
  by (auto simp: worker_ok_def front_evolves split: loop_pc.splits)

lemma prune_ok_evolves: "prune_ok r p \<Longrightarrow> redis_evolves r r' \<Longrightarrow> prune_ok r' p"
  unfolding redis_evolves_def by (cases p) (auto, force+)

subsection \<open>The steps of a worker\<close>

definition refused_for_good :: "nat \<Rightarrow> bool" where
  "refused_for_good status \<longleftrightarrow> \<not> response_accepted status \<and> status < 500 \<and>
     status \<notin> {401, 403, 404, 405, 408, 425, 429}"

text \<open>With the gateway's forwarder an error is either of the delivery path or permanent.\<close>

lemma forward_error_kinds:
  assumes "forward answer = Inl error"
  shows "isDeliveryInfrastructureError error \<and> \<not> isPermanentForwardingError error \<or>
    (\<exists>status responseText. answer = Answered status responseText \<and> refused_for_good status \<and>
       isPermanentForwardingError error \<and> \<not> isDeliveryInfrastructureError error)"
  using assms
  by (auto simp: forward_def isRetryableDiscordApiStatus_def RETRYABLE_CLIENT_STATUSES_def
      DELIVERY_INFRASTRUCTURE_STATUSES_def refused_for_good_def split: http_answer.splits if_splits)

lemma forward_ok:
  "forward answer = Inr u \<longleftrightarrow> (\<exists>status responseText. answer = Answered status responseText \<and>
     response_accepted status)"
  by (cases answer) (auto simp: forward_def)

lemma filter_absent: "i \<notin> set (map fst xs) \<Longrightarrow> filter (\<lambda>(j, x). j \<noteq> i) xs = xs"
  by (induction xs) auto

lemma quarantine_stream:
  "ir_stream (fst (quarantineInbound cap shed i s reason n now r)) =
     filter (\<lambda>(j, f). j \<noteq> i) (ir_stream r)"
  "ir_lastId (fst (quarantineInbound cap shed i s reason n now r)) = ir_lastId r"
  "ir_dedupe (fst (quarantineInbound cap shed i s reason n now r)) = ir_dedupe r"
  using filter_absent [of i "ir_stream r"] by (simp_all add: quarantineInbound_def xdel_def)

lemma thinned_evolves:
  assumes "ir_lastId r' = ir_lastId r" "ir_stream r' = filter P (ir_stream r)"
  shows "redis_evolves r r'"
  using assms by (auto simp: redis_evolves_def)

lemma delivery_step_thins:
  assumes "delivery_step cfg json aborted answer shed now pc w r = (r', w')"
  shows "ir_lastId r' = ir_lastId r \<and> ir_dedupe r' = ir_dedupe r \<and>
    (\<exists>P. ir_stream r' = filter P (ir_stream r))"
proof -
  have same: "\<exists>P. ir_stream r = filter P (ir_stream r)"
    by (rule exI [of _ "\<lambda>e. True"]) simp
  have rec: "recordAttempt i r = (r1, n) \<Longrightarrow> ir_lastId r1 = ir_lastId r \<and> ir_dedupe r1 = ir_dedupe r \<and>
      (\<exists>P. ir_stream r1 = filter P (ir_stream r))" for i r1 n
    using same by (auto simp: recordAttempt_def Let_def)
  show ?thesis
    using assms same
    by (cases "(cfg, json, aborted, answer, shed, now, pc, w, r)" rule: delivery_step.cases)
      (auto simp: forward_failed_def Let_def quarantine_stream acknowledgeInbound_def xdel_def
        split: if_splits queue_entry.splits prod.splits sum.splits dest: rec)
qed

lemma tracked_recordAttempt:
  "set (tracked_ids (fst (recordAttempt i r))) = insert i (set (tracked_ids r))"
  by (simp add: recordAttempt_def Let_def tracked_ids_def dom_map_of_conv_image_fst [symmetric]
      update_conv')

lemma fst_delete: "fst ` set (AList.delete i m) \<subseteq> fst ` set m"
  by (auto simp: AList.delete_eq image_iff)

lemma tracked_quarantine:
  "set (tracked_ids (fst (quarantineInbound cap shed i s reason n now r))) \<subseteq> set (tracked_ids r)"
  using fst_delete [of i "ir_attempts r"]
  by (simp add: quarantineInbound_def xdel_def tracked_ids_def)

lemma tracked_xdel: "set (tracked_ids (xdel i r)) \<subseteq> set (tracked_ids r)"
  using fst_delete [of i "ir_attempts r"] by (simp add: xdel_def tracked_ids_def)

lemma delivery_step_tracked:
  assumes "delivery_step cfg json aborted answer shed now pc w r = (r', w')"
  shows "set (tracked_ids r') \<subseteq> set (tracked_ids r) \<union> set (pending pc)"
proof -
  have rec: "recordAttempt i r = (r1, n) \<Longrightarrow> set (tracked_ids r1) = insert i (set (tracked_ids r))" for i r1 n
    using tracked_recordAttempt [of i r] by simp
  show ?thesis
    using assms tracked_quarantine tracked_xdel
    by (cases "(cfg, json, aborted, answer, shed, now, pc, w, r)" rule: delivery_step.cases)
      (fastforce simp: forward_failed_def Let_def acknowledgeInbound_def
        split: if_splits queue_entry.splits prod.splits sum.splits dest: rec)+
qed

lemma entry_id_read [simp]: "entry_id (read_entry json entry) = fst entry"
  by (simp add: read_entry_def Let_def split: sum.split)

lemma front_prefix:
  assumes "ids r = js @ ks" "sorted_wrt (<) (ids r)" "\<forall>i \<in> set (ids r). i \<le> ir_lastId r"
  shows "front r js"
  using assms(2,3) unfolding front_def assms(1) sorted_wrt_append set_append by blast

lemma front_peek:
  assumes "stream_ok json r"
  shows "front r (map fst (take n (ir_stream r)))"
proof (rule front_prefix)
  show "ids r = map fst (take n (ir_stream r)) @ map fst (drop n (ir_stream r))"
    by (metis append_take_drop_id map_append)
qed (use assms in \<open>unfold stream_ok_def, blast+\<close>)

lemma front_settle:
  "front r' (i # js) \<Longrightarrow> ir_stream r' = filter (\<lambda>(j, x). j \<noteq> i) xs \<Longrightarrow> front r' js"
  by (rule front_tail) auto

lemma worker_ok_step:
  assumes step: "delivery_step cfg json aborted answer shed now pc w r = (r', w')"
    and ok: "worker_ok answers r pc" "stream_ok json r" "dw_pc w = pc"
  shows "worker_ok (answers @ answered pc answer) r' (dw_pc w')"
proof -
  have evolves: "redis_evolves r r'"
    using delivery_step_thins [OF step] thinned_evolves by blast
  then have fr: "front r' (pending pc)"
    using ok(1) front_evolves unfolding worker_ok_def by blast
  show ?thesis
  proof (cases pc)
    case Peeking
    have "list_all is_QueuedEvent (peekInbound json 25 r)"
      using ok(2) by (auto simp: peekInbound_def stream_ok_def list_all_iff dest: in_set_takeD)
    then show ?thesis
      using step Peeking front_peek [OF ok(2), of 25] ok(3)
      by (auto simp: worker_ok_def peek_step_def peekInbound_def o_def split: if_splits list.splits)
  next
    case (Batch entries f)
    show ?thesis
    proof (cases entries)
      case Nil
      then show ?thesis using step Batch by (auto simp: worker_ok_def batch_end_def)
    next
      case (Cons entry es)
      then show ?thesis
        using step Batch fr ok(1)
        by (cases entry) (auto simp: worker_ok_def split: if_splits prod.splits)
    qed
  next
    case (Forwarding i s n es f)
    show ?thesis
    proof (cases "forward answer")
      case (Inr u)
      then obtain status responseText where
        a: "answer = Answered status responseText" "response_accepted status"
        by (auto simp: forward_ok)
      have "dw_pc w' = Acking i es f"
        using step Forwarding Inr by auto
      then show ?thesis
        using a Forwarding fr ok(1) by (auto simp: worker_ok_def)
    next
      case (Inl error)
      show ?thesis
      proof (cases "isDeliveryInfrastructureError error")
        case True
        then show ?thesis
          using step Forwarding Inl by (auto simp: worker_ok_def forward_failed_def)
      next
        case False
        then have "isPermanentForwardingError error"
          using forward_error_kinds [OF Inl] by blast
        then have r': "ir_stream r' = filter (\<lambda>(j, x). j \<noteq> i) (ir_stream r)"
            "dw_pc w' = Batch es f"
          using step Forwarding Inl False
          by (auto simp: forward_failed_def Let_def quarantine_stream dest: arg_cong [of _ _ fst])
        then have "front r' (map entry_id es)"
          using fr Forwarding front_settle by simp
        then show ?thesis
          using r' ok(1) Forwarding by (auto simp: worker_ok_def)
      qed
    qed
  next
    case (Acking i es f)
    then have "front r' (map entry_id es)"
      using fr step by (auto simp: acknowledgeInbound_def intro: front_tail)
    then show ?thesis
      using step Acking ok(1) by (auto simp: worker_ok_def)
  qed (use step ok in \<open>auto simp: worker_ok_def\<close>)
qed

subsection \<open>The system as a whole\<close>

definition system_ok :: "json_text \<Rightarrow> delivery_machine \<Rightarrow> bool" where
  "system_ok json m \<longleftrightarrow> stream_ok json (dm_redis m) \<and>
     (\<forall>w \<in> set (dm_workers m). worker_ok (dm_answers m) (dm_redis m) (dw_pc w)) \<and>
     (\<forall>p \<in> set (dm_prunes m). prune_ok (dm_redis m) p)"

lemma enqueue_effect:
  assumes "enqueueInbound json cap shed newId now envelope r = (r', True)"
  shows "\<exists>n. ir_stream r' = drop n (ir_stream r @
      [(newId, [''envelope'', jt_stringify json (envelope_json envelope)])])"
    and "ir_lastId r' = newId" "ir_attempts r' = ir_attempts r"
    and "\<not> key_exists now (dedupe_key envelope) r"
    and "ir_dedupe r' = AList.update (dedupe_key envelope) (now + dedupe_ttl) (ir_dedupe r)"
  using assms by (auto simp: enqueueInbound_def capped_def split: if_splits)

lemma duplicate_effect:
  "enqueueInbound json cap shed newId now envelope r = (r', False) \<Longrightarrow> r' = r"
  by (auto simp: enqueueInbound_def split: if_splits)

lemma stream_ok_enqueue:
  assumes "enqueueInbound json cap shed newId now envelope r = (r', True)"
    and "stream_ok json r" "ir_lastId r < newId" "json_reads json (envelope_json envelope)"
  shows "stream_ok json r' \<and> redis_evolves r r'"
proof -
  let ?e = "(newId, [''envelope'', jt_stringify json (envelope_json envelope)])"
  obtain n where n: "ir_stream r' = drop n (ir_stream r @ [?e])"
    using enqueue_effect(1) [OF assms(1)] by blast
  have "ids r' = drop n (map fst (ir_stream r @ [?e]))"
    by (simp only: n drop_map)
  then have ids': "ids r' = drop n (ids r @ [newId])"
    by (simp del: drop_append)
  have sub: "set (ids r') \<subseteq> insert newId (set (ids r))"
    unfolding ids' by (auto dest: in_set_dropD)
  have le: "i \<le> ir_lastId r" if "i \<in> set (ids r)" for i
    using assms(2) that unfolding stream_ok_def by blast
  have "i < newId" if "i \<in> set (ids r)" for i
    using le [OF that] assms(3) by (rule le_less_trans)
  then have "sorted_wrt (<) (ids r @ [newId])"
    using assms(2) unfolding stream_ok_def sorted_wrt_append by simp
  then have sorted: "sorted_wrt (<) (ids r')"
    unfolding ids' by (rule sorted_wrt_drop)
  have reads: "is_QueuedEvent (read_entry json ?e)"
    using assms(4) by (auto simp: json_reads_def read_entry_def truthy_iff neq_Nil_conv split: sum.splits)
  have entries: "is_QueuedEvent (read_entry json entry)" if "entry \<in> set (ir_stream r')" for entry
  proof -
    from that have "entry \<in> set (ir_stream r @ [?e])"
      unfolding n by (rule in_set_dropD)
    then show ?thesis using reads assms(2) unfolding stream_ok_def by auto
  qed
  have tracked: "i \<le> newId" if "i \<in> set (tracked_ids r')" for i
    using that assms(2,3) enqueue_effect(3) [OF assms(1)] le_less_trans
    by (fastforce simp: stream_ok_def tracked_ids_def)
  have le': "i \<le> newId" if "i \<in> set (ids r')" for i
  proof (cases "i = newId")
    case False
    then have "i \<in> set (ids r)" using sub that by blast
    then have "i \<le> ir_lastId r" by (rule le)
    then show ?thesis using assms(3) by simp
  qed simp
  have "redis_evolves r r'"
    using sub assms(3) enqueue_effect(2) [OF assms(1)] by (auto simp: redis_evolves_def)
  moreover have "stream_ok json r'"
    unfolding stream_ok_def enqueue_effect(2) [OF assms(1)]
    using sorted le' tracked entries by blast
  ultimately show ?thesis by blast
qed

lemma stream_ok_step:
  assumes "delivery_step cfg json aborted answer shed now pc w r = (r', w')"
    and "stream_ok json r" "worker_ok answers r pc"
  shows "stream_ok json r' \<and> redis_evolves r r'"
proof -
  obtain P where P: "ir_lastId r' = ir_lastId r" "ir_stream r' = filter P (ir_stream r)"
    using delivery_step_thins [OF assms(1)] by blast
  have "set (tracked_ids r') \<subseteq> set (tracked_ids r) \<union> set (pending pc)"
    by (rule delivery_step_tracked [OF assms(1)])
  moreover have "\<forall>i \<in> set (pending pc). i \<le> ir_lastId r"
    using assms(3) unfolding worker_ok_def front_def by blast
  ultimately have "\<forall>i \<in> set (tracked_ids r'). i \<le> ir_lastId r'"
    using assms(2) P(1) unfolding stream_ok_def by (metis UnE subsetD)
  moreover have "sorted_wrt (<) (ids r')"
    using assms(2) sorted_wrt_filter [of "(\<lambda>x y. fst x < fst y)" "ir_stream r" P]
    by (simp add: P(2) stream_ok_def sorted_wrt_map)
  ultimately show ?thesis
    using assms(2) thinned_evolves [OF P] P by (simp add: stream_ok_def)
qed

lemma stream_ok_hdel:
  assumes "stream_ok json r"
  shows "stream_ok json (hdel_attempts js r) \<and> redis_evolves r (hdel_attempts js r)"
proof -
  have "fst ` set (fold AList.delete js a) \<subseteq> fst ` set a" for a :: "(stream_id, nat) jsmap"
  proof (induction js arbitrary: a)
    case (Cons j js)
    show ?case using order_trans [OF Cons fst_delete] by simp
  qed simp
  then have "set (tracked_ids (hdel_attempts js r)) \<subseteq> set (tracked_ids r)"
    by (simp add: tracked_ids_def hdel_attempts_def)
  then have "\<forall>i \<in> set (tracked_ids (hdel_attempts js r)). i \<le> ir_lastId r"
    using assms unfolding stream_ok_def by blast
  then show ?thesis
    using assms by (simp add: stream_ok_def redis_evolves_def)
qed

lemma system_ok_others:
  assumes "system_ok json m" "redis_evolves (dm_redis m) r'"
  shows "w \<in> set (dm_workers m) \<Longrightarrow> worker_ok (dm_answers m @ answers) r' (dw_pc w)"
    and "p \<in> set (dm_prunes m) \<Longrightarrow> prune_ok r' p"
  using assms worker_ok_evolves prune_ok_evolves unfolding system_ok_def by blast+

lemma new_worker_ok [simp]: "worker_ok answers r (dw_pc (new_worker cfg))"
  by (simp add: worker_ok_def new_worker_def)

lemma system_ok_moves:
  assumes "delivery_moves cfg json m m'" "system_ok json m"
  shows "system_ok json m' \<and> redis_evolves (dm_redis m) (dm_redis m')"
  using assms
proof cases
  case (dv_accepted newId now envelope shed r')
  note r' = stream_ok_enqueue [OF dv_accepted(5) _ dv_accepted(2,4)]
  then have "stream_ok json r' \<and> redis_evolves (dm_redis m) r'"
    using assms(2) by (simp add: system_ok_def)
  then show ?thesis
    using system_ok_others(1) [OF assms(2), where r' = r' and answers = "[]"]
      system_ok_others(2) [OF assms(2), where r' = r'] dv_accepted(1)
    by (simp add: system_ok_def event_added_def)
next
  case (dv_duplicate now shed newId envelope r')
  then show ?thesis using assms(2) duplicate_effect by (fastforce simp: system_ok_def)
next
  case (dv_work k aborted answer shed now r' w')
  let ?w = "dm_workers m ! k"
  have w: "?w \<in> set (dm_workers m)" using dv_work(2) by simp
  then have wk: "worker_ok (dm_answers m) (dm_redis m) (dw_pc ?w)"
    using assms(2) by (simp add: system_ok_def)
  have r': "stream_ok json r' \<and> redis_evolves (dm_redis m) r'"
    using stream_ok_step [OF dv_work(3) _ wk] assms(2) by (simp add: system_ok_def)
  then have "worker_ok (dm_answers m @ answered (dw_pc ?w) answer) r' (dw_pc w')"
    using worker_ok_step [OF dv_work(3) wk] assms(2) by (simp add: system_ok_def)
  then show ?thesis
    using r' system_ok_others(1) [OF assms(2), where r' = r' and answers = "answered (dw_pc ?w) answer"]
      system_ok_others(2) [OF assms(2), where r' = r'] dv_work(1)
    by (auto simp: system_ok_def worker_moved_def Let_def dest!: subsetD [OF set_update_subset_insert])
next
  case dv_start
  then show ?thesis using assms(2) by (auto simp: system_ok_def)
next
  case (dv_restart k)
  then show ?thesis
    using assms(2) by (auto simp: system_ok_def dest!: subsetD [OF set_update_subset_insert])
next
  case dv_prune_begin
  then show ?thesis using assms(2) by (auto simp: system_ok_def stream_ok_def)
next
  case (dv_prune_read k tracked)
  have "prune_ok (dm_redis m) (PruneTracked tracked)"
    using dv_prune_read(2,3) assms(2) unfolding system_ok_def by (metis nth_mem)
  moreover have "sorted_wrt (<) (ids (dm_redis m))"
    using assms(2) by (simp add: system_ok_def stream_ok_def)
  ultimately have "prune_ok (dm_redis m) (PruneRead (orphaned_ids tracked (dm_redis m)))"
    using orphaned_is_gone by auto
  then show ?thesis
    using assms(2) dv_prune_read(1)
    by (auto simp: system_ok_def dest!: subsetD [OF set_update_subset_insert])
next
  case (dv_prune_end k orphaned)
  have r': "stream_ok json (hdel_attempts orphaned (dm_redis m)) \<and>
      redis_evolves (dm_redis m) (hdel_attempts orphaned (dm_redis m))"
    by (rule stream_ok_hdel) (use assms(2) in \<open>simp add: system_ok_def\<close>)
  then show ?thesis
    using system_ok_others(1) [OF assms(2), where r' = "hdel_attempts orphaned (dm_redis m)" and answers = "[]"]
      system_ok_others(2) [OF assms(2), where r' = "hdel_attempts orphaned (dm_redis m)"] dv_prune_end(1)
    by (auto simp: system_ok_def dest!: subsetD [OF set_update_subset_insert])
qed

lemma reachable_system_ok: "reachable_delivery cfg json m \<Longrightarrow> system_ok json m"
proof (induction rule: reachable_delivery.induct)
  case rd_start
  then show ?case
    by (simp add: system_ok_def empty_delivery_def empty_inbound_def stream_ok_def tracked_ids_def)
qed (use system_ok_moves in blast)

subsection \<open>No event is overtaken\<close>

text \<open>C20: Events are given to the API in the order they arrived: while a worker is forwarding an event,
  no older event is waiting in the stream, however many workers run, crash and start again while
  the gateway adds events.\<close>

theorem delivery_never_overtakes:
  assumes "reachable_delivery cfg json m" and "w \<in> set (dm_workers m)"
    and "dw_pc w = Forwarding i serialized attempts entries retryableFailure"
  shows "list_all (\<lambda>j. i \<le> j) (ids (dm_redis m))"
proof -
  have "front (dm_redis m) (i # map entry_id entries)"
    using reachable_system_ok [OF assms(1)] assms(2,3) by (fastforce simp: system_ok_def worker_ok_def)
  then show ?thesis
    by (fastforce simp: front_def list_all_iff)
qed

subsection \<open>How an event leaves the stream\<close>

lemma step_departures:
  assumes step: "delivery_step cfg json aborted answer shed now pc w r = (r', w')"
    and ok: "worker_ok answers r pc" and i: "i \<in> set (gone (ids r) r')"
  shows "\<exists>status. (i, status) \<in> set (answers @ answered pc answer) \<and>
    (if acking pc then response_accepted status else refused_for_good status)"
proof -
  have "i \<in> set (ids r)" "i \<notin> set (ids r')"
    using i by (simp_all add: gone_def)
  then have changed: "ids r' \<noteq> ids r"
    by metis
  have only: "i = j" if "ir_stream r' = filter (\<lambda>(k, x). k \<noteq> j) (ir_stream r)" for j
    using i that by (auto simp: gone_def)
  show ?thesis
  proof (cases pc)
    case Peeking
    then show ?thesis using step changed by auto
  next
    case (Batch entries f)
    then show ?thesis
      using step changed ok
      by (cases entries) (auto simp: worker_ok_def recordAttempt_def Let_def split: if_splits queue_entry.splits)
  next
    case (Forwarding j s n es f)
    then obtain error where e: "forward answer = Inl error"
      using step changed by (auto split: sum.splits)
    then have failed: "forward_failed cfg shed now error j s n es f w r = (r', w')"
      using step Forwarding by simp
    then have "\<not> isDeliveryInfrastructureError error"
      using changed by (auto simp: forward_failed_def)
    then obtain status responseText where a: "answer = Answered status responseText"
        "refused_for_good status" "isPermanentForwardingError error"
      using forward_error_kinds [OF e] by blast
    have "r' = fst (quarantineInbound (dc_deadLetterMaxEntries cfg) shed j s
        (''Permanent forwarding failure: '' @ errorMessage error) n now r)"
      using failed a(3) changed by (auto simp: forward_failed_def Let_def split: if_splits)
    then have "i = j"
      using only quarantine_stream(1) by blast
    then show ?thesis using a Forwarding by auto
  next
    case (Acking j es f)
    then have "ir_stream r' = filter (\<lambda>(k, x). k \<noteq> j) (ir_stream r)"
      using step by (auto simp: acknowledgeInbound_def xdel_def)
    then have "i = j" by (rule only)
    then show ?thesis using ok Acking by (auto simp: worker_ok_def)
  qed (use step changed in auto)
qed

definition departures_ok :: "delivery_machine \<Rightarrow> bool" where
  "departures_ok m \<longleftrightarrow>
     (\<forall>i \<in> set (dm_acked m). \<exists>status. (i, status) \<in> set (dm_answers m) \<and> response_accepted status) \<and>
     (\<forall>i \<in> set (dm_dead m). \<exists>status. (i, status) \<in> set (dm_answers m) \<and> refused_for_good status)"

lemma departures_ok_moves:
  assumes "delivery_moves cfg json m m'" "system_ok json m" "departures_ok m"
  shows "departures_ok m'"
  using assms(1)
proof cases
  case (dv_work k aborted answer shed now r' w')
  let ?pc = "dw_pc (dm_workers m ! k)"
  have "worker_ok (dm_answers m) (dm_redis m) ?pc"
    using dv_work(2) assms(2) by (simp add: system_ok_def)
  note left = step_departures [OF dv_work(3) this]
  have acked: "dm_acked m' = dm_acked m @ (if acking ?pc then gone (ids (dm_redis m)) r' else [])"
    and dead: "dm_dead m' = dm_dead m @ (if acking ?pc then [] else gone (ids (dm_redis m)) r')"
    and answers: "dm_answers m' = dm_answers m @ answered ?pc answer"
    by (simp_all add: dv_work(1) worker_moved_def Let_def)
  have kept: "\<exists>status. (i, status) \<in> set (dm_answers m @ answered ?pc answer) \<and> q status"
    if "\<exists>status. (i, status) \<in> set (dm_answers m) \<and> q status" for i q
    using that by auto
  show ?thesis
    unfolding departures_ok_def acked dead answers
    using left assms(3) [unfolded departures_ok_def] kept by (cases "acking ?pc") (simp_all, blast+)
qed (use assms(3) in \<open>simp_all add: departures_ok_def event_added_def\<close>)

lemma reachable_departures: "reachable_delivery cfg json m \<Longrightarrow> departures_ok m"
proof (induction rule: reachable_delivery.induct)
  case rd_start
  then show ?case by (simp add: departures_ok_def empty_delivery_def)
qed (use departures_ok_moves reachable_system_ok in blast)

text \<open>C31: An event leaves the queue only on the API's word: it is acknowledged only if the API answered
  that it took it (or already had it), and moved to the dead letters only if the API itself
  refused it for good; no outage, timeout, rate limit, bad secret or missing route, and no number of
  attempts, ever makes it a dead letter.\<close>

theorem only_refused_events_are_dead_lettered:
  assumes "reachable_delivery cfg json m"
  shows "list_all (\<lambda>i. list_ex (\<lambda>(j, status). j = i \<and> (200 \<le> status \<and> status \<le> 299 \<or> status = 409))
      (dm_answers m)) (dm_acked m) \<and>
    list_all (\<lambda>i. list_ex (\<lambda>(j, status). j = i \<and> status < 500 \<and> \<not> (200 \<le> status \<and> status \<le> 299) \<and>
      status \<notin> {401, 403, 404, 405, 408, 409, 425, 429}) (dm_answers m)) (dm_dead m)"
proof -
  note ok = reachable_departures [OF assms, unfolded departures_ok_def]
  show ?thesis
    using ok by (fastforce simp: list_all_iff list_ex_iff response_accepted_def refused_for_good_def)
qed

subsection \<open>No event is lost or settled twice\<close>

lemma mset_gone:
  assumes "distinct js" "distinct (ids r')" "set (ids r') \<subseteq> set js"
  shows "mset js = mset (ids r') + mset (gone js r')"
proof -
  have "mset js = mset (filter (\<lambda>i. i \<in> set (ids r')) js) + mset (gone js r')"
    unfolding gone_def by (simp add: multiset_partition [symmetric])
  moreover have "mset (filter (\<lambda>i. i \<in> set (ids r')) js) = mset (ids r')"
  proof (rule set_eq_iff_mset_eq_distinct [THEN iffD1])
    show "distinct (filter (\<lambda>i. i \<in> set (ids r')) js)"
      using assms(1) by (rule distinct_filter)
    show "set (filter (\<lambda>i. i \<in> set (ids r')) js) = set (ids r')"
      unfolding set_filter using assms(3) by blast
  qed (rule assms(2))
  ultimately show ?thesis by metis
qed

lemma stream_distinct: "stream_ok json r \<Longrightarrow> distinct (ids r)"
  unfolding stream_ok_def strict_sorted_iff by blast

definition accepted_ids :: "delivery_machine \<Rightarrow> stream_id list" where
  "accepted_ids m = map fst (dm_accepted m)"

definition conserved :: "delivery_machine \<Rightarrow> bool" where
  "conserved m \<longleftrightarrow> distinct (accepted_ids m) \<and>
     (\<forall>i \<in> set (accepted_ids m). i \<le> ir_lastId (dm_redis m)) \<and>
     mset (accepted_ids m) =
       mset (ids (dm_redis m)) + mset (dm_acked m) + mset (dm_dead m) + mset (dm_shed m)"

lemma conserved_moves:
  assumes "delivery_moves cfg json m m'" "system_ok json m" "conserved m"
  shows "conserved m'"
  using assms(1)
proof cases
  case (dv_accepted newId now envelope shed r')
  let ?r = "dm_redis m"
  have ok: "stream_ok json ?r" using assms(2) by (simp add: system_ok_def)
  then have ok': "stream_ok json r'"
    using stream_ok_enqueue [OF dv_accepted(5) _ dv_accepted(2,4)] by blast
  have fresh: "newId \<notin> set js" if "\<forall>i \<in> set js. i \<le> ir_lastId ?r" for js
    using that dv_accepted(2) by (meson leD)
  have new: "newId \<notin> set (ids ?r)" "newId \<notin> set (accepted_ids m)"
    using fresh ok assms(3) unfolding stream_ok_def conserved_def by blast+
  obtain n where "ids r' = map fst (drop n (ir_stream ?r @
      [(newId, [''envelope'', jt_stringify json (envelope_json envelope)])]))"
    using enqueue_effect(1) [OF dv_accepted(5)] by metis
  then have "ids r' = drop n (ids ?r @ [newId])"
    by (simp only: drop_map [symmetric] map_append list.map fst_conv)
  then have "set (ids r') \<subseteq> set (ids ?r @ [newId])"
    by (metis in_set_dropD subsetI)
  moreover have "distinct (ids ?r @ [newId])"
    using stream_distinct [OF ok] new(1) by simp
  ultimately have "mset (ids ?r @ [newId]) = mset (ids r') + mset (gone (ids ?r @ [newId]) r')"
    using mset_gone stream_distinct [OF ok'] by blast
  then have "mset (ids ?r) + {#newId#} = mset (ids r') + mset (gone (ids ?r @ [newId]) r')"
    by simp
  moreover have "i \<le> ir_lastId r'" if "i \<in> set (accepted_ids m)" for i
    using that assms(3) dv_accepted(2) enqueue_effect(2) [OF dv_accepted(5)]
    unfolding conserved_def by (meson less_imp_le order_trans)
  ultimately show ?thesis
    using assms(3) new(2) enqueue_effect(2) [OF dv_accepted(5)] dv_accepted(1)
    by (simp add: conserved_def accepted_ids_def event_added_def ac_simps)
next
  case (dv_duplicate now shed newId envelope r')
  then show ?thesis
    using assms(3) duplicate_effect [OF dv_duplicate(3)] by (simp add: conserved_def accepted_ids_def)
next
  case (dv_work k aborted answer shed now r' w')
  let ?r = "dm_redis m" and ?pc = "dw_pc (dm_workers m ! k)"
  have wk: "worker_ok (dm_answers m) ?r ?pc" and ok: "stream_ok json ?r"
    using dv_work(2) assms(2) by (simp_all add: system_ok_def)
  obtain P where P: "ir_lastId r' = ir_lastId ?r" "ir_stream r' = filter P (ir_stream ?r)"
    using delivery_step_thins [OF dv_work(3)] by blast
  have "stream_ok json r'"
    using stream_ok_step [OF dv_work(3) ok wk] by blast
  moreover have "set (ids r') \<subseteq> set (ids ?r)"
    unfolding P(2) by auto
  ultimately have "mset (ids ?r) = mset (ids r') + mset (gone (ids ?r) r')"
    using stream_distinct [OF ok] stream_distinct by (intro mset_gone)
  then show ?thesis
    using assms(3) dv_work(1) P(1)
    by (simp add: conserved_def accepted_ids_def worker_moved_def Let_def ac_simps)
qed (use assms(3) in \<open>simp_all add: conserved_def accepted_ids_def\<close>)

lemma reachable_conserved: "reachable_delivery cfg json m \<Longrightarrow> conserved m"
proof (induction rule: reachable_delivery.induct)
  case rd_start
  then show ?case
    by (simp add: conserved_def accepted_ids_def empty_delivery_def empty_inbound_def)
qed (use conserved_moves reachable_system_ok in blast)


subsection \<open>An event is accepted once a day\<close>

definition dedupe_ok :: "delivery_machine \<Rightarrow> bool" where
  "dedupe_ok m \<longleftrightarrow>
     (\<forall>(i, k, t) \<in> set (dm_accepted m). \<exists>expiry. map_of (ir_dedupe (dm_redis m)) k = Some expiry \<and>
        t + dedupe_ttl \<le> expiry) \<and>
     sorted_wrt (\<lambda>(i, k, t) (i', k', t'). k = k' \<longrightarrow> t + dedupe_ttl \<le> t') (dm_accepted m)"

lemma dedupe_ok_moves:
  assumes "delivery_moves cfg json m m'" "dedupe_ok m"
  shows "dedupe_ok m'"
  using assms(1)
proof cases
  case (dv_accepted newId now envelope shed r')
  note eff = enqueue_effect [OF dv_accepted(5)]
  have le: "t + dedupe_ttl \<le> now" if "(i, dedupe_key envelope, t) \<in> set (dm_accepted m)" for i t
    using that assms(2) eff(4) by (fastforce simp: dedupe_ok_def key_exists_def)
  have acc: "dm_accepted m' = dm_accepted m @ [(newId, dedupe_key envelope, now)]"
    and red: "ir_dedupe (dm_redis m') =
      AList.update (dedupe_key envelope) (now + dedupe_ttl) (ir_dedupe (dm_redis m))"
    using eff(5) by (simp_all add: dv_accepted(1) event_added_def)
  have "\<exists>expiry. map_of (ir_dedupe (dm_redis m')) k = Some expiry \<and> t + dedupe_ttl \<le> expiry"
    if "(i, k, t) \<in> set (dm_accepted m')" for i k t
  proof (cases "(i, k, t) \<in> set (dm_accepted m)")
    case True
    then obtain expiry where "map_of (ir_dedupe (dm_redis m)) k = Some expiry" "t + dedupe_ttl \<le> expiry"
      using assms(2) unfolding dedupe_ok_def by blast
    moreover have "t \<le> now" if "k = dedupe_key envelope"
      using le [of i t] True that by (simp add: dedupe_ttl_def DEDUPE_TTL_SECONDS_def)
    ultimately show ?thesis by (cases "k = dedupe_key envelope") (simp_all add: red update_conv')
  next
    case False
    then show ?thesis using that by (simp add: acc red update_conv')
  qed
  moreover have "sorted_wrt (\<lambda>(i, k, t) (i', k', t'). k = k' \<longrightarrow> t + dedupe_ttl \<le> t') (dm_accepted m')"
    unfolding acc sorted_wrt_append using assms(2) le unfolding dedupe_ok_def by auto
  ultimately show ?thesis unfolding dedupe_ok_def by blast
next
  case (dv_duplicate now shed newId envelope r')
  then show ?thesis
    using assms(2) duplicate_effect [OF dv_duplicate(3)] by (simp add: dedupe_ok_def)
next
  case (dv_work k aborted answer shed now r' w')
  then show ?thesis
    using assms(2) delivery_step_thins [OF dv_work(3)]
    by (simp add: dedupe_ok_def worker_moved_def Let_def)
qed (use assms(2) in \<open>simp_all add: dedupe_ok_def\<close>)

lemma reachable_dedupe: "reachable_delivery cfg json m \<Longrightarrow> dedupe_ok m"
proof (induction rule: reachable_delivery.induct)
  case rd_start
  then show ?case by (simp add: dedupe_ok_def empty_delivery_def)
qed (use dedupe_ok_moves in blast)

text \<open>C40: Discord may send an event again, but the queue accepts it once: two accepted events of the same
  type and id are at least twenty-four hours apart.\<close>

theorem event_is_accepted_once_a_day:
  assumes "reachable_delivery cfg json m"
  shows "sorted_wrt (\<lambda>(i, k, t) (i', k', t'). k = k' \<longrightarrow> t + 24 * 60 * 60 * 1000 \<le> t') (dm_accepted m)"
  using reachable_dedupe [OF assms] by (simp add: dedupe_ok_def dedupe_ttl_def DEDUPE_TTL_SECONDS_def)

subsection \<open>The attempt counters\<close>

definition attempts_exact :: "delivery_machine \<Rightarrow> bool" where
  "attempts_exact m \<longleftrightarrow>
     (\<forall>i \<in> set (ids (dm_redis m)). attempt_count i (dm_redis m) = count_list (dm_tries m) i) \<and>
     (\<forall>i \<in> set (dm_tries m). i \<le> ir_lastId (dm_redis m))"

lemma attempt_count_quarantine:
  "i \<noteq> j \<Longrightarrow> attempt_count i (fst (quarantineInbound cap shed j s reason n now r)) = attempt_count i r"
  by (simp add: quarantineInbound_def attempt_count_xdel)
    (simp add: attempt_count_def delete_conv' xdel_def)

lemma attempt_count_kept:
  "(i, f) \<in> set (ir_stream (fst (quarantineInbound cap shed j s reason n now r))) \<Longrightarrow>
   attempt_count i (fst (quarantineInbound cap shed j s reason n now r)) = attempt_count i r"
  by (rule attempt_count_quarantine) (auto simp: quarantine_stream)

lemma step_counts:
  assumes step: "delivery_step cfg json aborted answer shed now pc w r = (r', w')"
    and pc: "dw_pc w = pc" and i: "i \<in> set (ids r')"
  shows "attempt_count i r' = attempt_count i r + count_list (tried pc (dw_pc w')) i"
proof -
  have recorded: "recordAttempt j r = (r1, n) \<Longrightarrow>
      attempt_count i r1 = attempt_count i r + (if i = j then 1 else 0)" for j r1 n
    using attempt_count_recordAttempt [of i j r] by simp
  show ?thesis
  proof (cases pc)
    case (Batch entries f)
    then show ?thesis
      using step pc i recorded
      by (cases entries)
        (auto simp: batch_end_def split: if_splits queue_entry.splits prod.splits
          dest: attempt_count_kept)
  next
    case (Forwarding j s n es f)
    show ?thesis
      using step Forwarding i
      by (auto simp: forward_failed_def Let_def split: sum.splits if_splits dest: attempt_count_kept)
  next
    case (Acking j es f)
    then have "r' = xdel j r" "tried pc (dw_pc w') = []"
      using step by (auto simp: acknowledgeInbound_def)
    moreover from this have "i \<noteq> j" using i by auto
    ultimately show ?thesis by (simp add: attempt_count_xdel)
  qed (use step in auto)
qed

lemma tried_pending: "set (tried pc pc') \<subseteq> set (pending pc')"
  by (cases "(pc, pc')" rule: tried.cases) auto

lemma attempts_exact_moves:
  assumes "delivery_moves cfg json m m'" "system_ok json m" "attempts_exact m"
  shows "attempts_exact m'"
  using assms(1)
proof cases
  case (dv_accepted newId now envelope shed r')
  let ?r = "dm_redis m"
  have ok: "stream_ok json ?r" using assms(2) by (simp add: system_ok_def)
  have old: "redis_evolves ?r r'"
    using stream_ok_enqueue [OF dv_accepted(5) ok dv_accepted(2,4)] by blast
  have none: "attempt_count i r' = 0" "count_list (dm_tries m) i = 0" if "ir_lastId ?r < i" for i
  proof -
    have "i \<notin> set (tracked_ids ?r)" "i \<notin> set (dm_tries m)"
      using that ok assms(3) unfolding stream_ok_def attempts_exact_def by (meson leD)+
    then show "attempt_count i r' = 0" "count_list (dm_tries m) i = 0"
      using enqueue_effect(3) [OF dv_accepted(5)]
      by (simp_all add: attempt_count_def tracked_ids_def map_of_eq_None_iff [THEN iffD2] count_list_0_iff)
  qed
  have "attempt_count i r' = count_list (dm_tries m) i" if "i \<in> set (ids r')" for i
  proof (cases "i \<in> set (ids ?r)")
    case True
    then show ?thesis
      using assms(3) enqueue_effect(3) [OF dv_accepted(5)]
      unfolding attempts_exact_def attempt_count_def by metis
  next
    case False
    then have "ir_lastId ?r < i" using old that unfolding redis_evolves_def by blast
    then show ?thesis using none by simp
  qed
  moreover have "i \<le> ir_lastId r'" if "i \<in> set (dm_tries m)" for i
    using that assms(3) old unfolding attempts_exact_def redis_evolves_def by (meson order_trans)
  ultimately show ?thesis
    by (simp add: attempts_exact_def dv_accepted(1) event_added_def)
next
  case (dv_duplicate now shed newId envelope r')
  then show ?thesis
    using assms(3) duplicate_effect [OF dv_duplicate(3)] by (simp add: attempts_exact_def)
next
  case (dv_work k aborted answer shed now r' w')
  let ?r = "dm_redis m" and ?pc = "dw_pc (dm_workers m ! k)"
  have wk: "worker_ok (dm_answers m) ?r ?pc" and ok: "stream_ok json ?r"
    using dv_work(2) assms(2) by (simp_all add: system_ok_def)
  have last: "ir_lastId r' = ir_lastId ?r" and sub: "set (ids r') \<subseteq> set (ids ?r)"
    using delivery_step_thins [OF dv_work(3)] by auto
  have "worker_ok (dm_answers m @ answered ?pc answer) r' (dw_pc w')"
    using worker_ok_step [OF dv_work(3) wk ok] by simp
  then have "\<forall>i \<in> set (pending (dw_pc w')). i \<le> ir_lastId r'"
    unfolding worker_ok_def front_def by blast
  then have tries: "\<forall>i \<in> set (tried ?pc (dw_pc w')). i \<le> ir_lastId r'"
    using tried_pending by blast
  have "attempt_count i r' = count_list (dm_tries m @ tried ?pc (dw_pc w')) i" if "i \<in> set (ids r')" for i
  proof -
    have "i \<in> set (ids ?r)" using that sub by blast
    then have "attempt_count i ?r = count_list (dm_tries m) i"
      using assms(3) unfolding attempts_exact_def by blast
    then show ?thesis
      using step_counts [OF dv_work(3) refl that] by (simp add: count_list_append)
  qed
  then show ?thesis
    using assms(3) tries last
    by (auto simp: attempts_exact_def dv_work(1) worker_moved_def Let_def)
next
  case (dv_prune_end k orphaned)
  have "prune_ok (dm_redis m) (PruneRead orphaned)"
    using dv_prune_end(2,3) assms(2) unfolding system_ok_def by (metis nth_mem)
  then have "attempt_count i (hdel_attempts orphaned (dm_redis m)) = attempt_count i (dm_redis m)"
    if "i \<in> set (ids (dm_redis m))" for i
    using that by (intro attempt_count_hdel) auto
  then show ?thesis
    using assms(3) dv_prune_end(1) by (simp add: attempts_exact_def)
qed (use assms(3) in \<open>simp_all add: attempts_exact_def\<close>)

text \<open>Pruning never touches the counter of an entry that is still in the stream: the attempts counted
  for it are exactly those made.\<close>

theorem live_attempts_are_exact:
  assumes "reachable_delivery cfg json m" and "i \<in> set (ids (dm_redis m))"
  shows "attempt_count i (dm_redis m) = count_list (dm_tries m) i"
proof -
  have "attempts_exact m"
    using assms(1)
  proof (induction rule: reachable_delivery.induct)
    case rd_start
    then show ?case by (simp add: attempts_exact_def empty_delivery_def empty_inbound_def)
  qed (use attempts_exact_moves reachable_system_ok in blast)
  then show ?thesis using assms(2) unfolding attempts_exact_def by blast
qed

subsection \<open>An example\<close>

text \<open>An event is accepted and taken by a worker; the API refuses it for good; a day later it is
  accepted again.\<close>

definition example_json :: json_text where
  "example_json = \<lparr>jt_stringify = (\<lambda>v. ''{}''), jt_parse = (\<lambda>s. Inr JNull)\<rparr>"

definition example_config :: delivery_config where
  "example_config = \<lparr>dc_pollMs = deliveryPollMs, dc_maxAttempts = DEFAULT_MAX_ATTEMPTS,
     dc_maxBackoffMs = DEFAULT_MAX_BACKOFF_MS, dc_maxEntries = DEFAULT_INBOUND_MAX_ENTRIES,
     dc_deadLetterMaxEntries = DEFAULT_DEAD_LETTER_MAX_ENTRIES\<rparr>"

definition example_envelope :: inbound_envelope where
  "example_envelope = \<lparr>ie_eventId = ''e'', ie_eventType = MessageCreate, ie_payload = JNull,
     ie_receivedAt = ''now'', ie_interactionDeferred = None\<rparr>"

definition accept_example :: "stream_id \<Rightarrow> ms \<Rightarrow> delivery_machine \<Rightarrow> delivery_machine" where
  "accept_example i now m = event_added i now example_envelope
     (fst (enqueueInbound example_json (dc_maxEntries example_config) 0 i now example_envelope
        (dm_redis m))) m"

definition work_example :: "http_answer \<Rightarrow> delivery_machine \<Rightarrow> delivery_machine" where
  "work_example answer m =
     (case delivery_step example_config example_json False answer 0 7 (dw_pc (dm_workers m ! 0))
             (dm_workers m ! 0) (dm_redis m) of
        (r', w') \<Rightarrow> worker_moved 0 answer r' w' m)"

lemma accept_reachable:
  assumes "reachable_delivery example_config example_json m" "ir_lastId (dm_redis m) < i"
    "dm_clock m \<le> now" "\<not> key_exists now (dedupe_key example_envelope) (dm_redis m)"
  shows "reachable_delivery example_config example_json (accept_example i now m)"
proof -
  have "enqueueInbound example_json (dc_maxEntries example_config) 0 i now example_envelope (dm_redis m) =
      (fst (enqueueInbound example_json (dc_maxEntries example_config) 0 i now example_envelope (dm_redis m)), True)"
    using assms(4) by (simp add: enqueueInbound_def)
  then show ?thesis
    unfolding accept_example_def using assms
    by (intro rd_step [OF assms(1) dv_accepted]) (simp_all add: json_reads_def example_json_def)
qed

lemma work_reachable:
  "reachable_delivery example_config example_json m \<Longrightarrow> dm_workers m \<noteq> [] \<Longrightarrow>
   reachable_delivery example_config example_json (work_example answer m)"
  unfolding work_example_def by (auto split: prod.split intro: rd_step dv_work)

definition example_forwarding :: delivery_machine where
  "example_forwarding =
     (let m = accept_example (1, 0) 5 empty_delivery
      in work_example NoAnswer (work_example NoAnswer
           (m\<lparr>dm_workers := dm_workers m @ [new_worker example_config]\<rparr>)))"

definition example_refused :: delivery_machine where
  "example_refused = accept_example (2, 0) 86400005 (work_example (Answered 400 ''bad'') example_forwarding)"

lemma example_forwarding_eq:
  "example_forwarding =
     \<lparr>dm_redis = \<lparr>ir_stream = [((1, 0), [''envelope'', ''{}''])], ir_lastId = (1, 0),
                 ir_attempts = [((1, 0), 1)],
                 ir_dedupe = [(dedupe_key example_envelope, 86400005)], ir_deadLetters = []\<rparr>,
      dm_workers = [\<lparr>dw_pc = Forwarding (1, 0) ''{}'' 1 [] False, dw_failureDelayMs = deliveryPollMs\<rparr>],
      dm_prunes = [], dm_clock = 5, dm_accepted = [((1, 0), dedupe_key example_envelope, 5)],
      dm_tries = [(1, 0)], dm_answers = [], dm_acked = [], dm_dead = [], dm_shed = []\<rparr>"
  by (simp add: example_forwarding_def accept_example_def work_example_def event_added_def
      worker_moved_def enqueueInbound_def capped_def key_exists_def empty_delivery_def empty_inbound_def
      new_worker_def peek_step_def peekInbound_def read_entry_def recordAttempt_def attempt_count_def
      gone_def Let_def example_json_def example_config_def dedupe_ttl_def DEDUPE_TTL_SECONDS_def)

lemma example_forwarding_reachable: "reachable_delivery example_config example_json example_forwarding"
proof -
  have "reachable_delivery example_config example_json (accept_example (1, 0) 5 empty_delivery)"
    by (rule accept_reachable [OF rd_start])
      (simp_all add: empty_delivery_def empty_inbound_def key_exists_def)
  then show ?thesis
    unfolding example_forwarding_def Let_def
    by (intro work_reachable rd_step [OF _ dv_start])
      (simp_all add: work_example_def worker_moved_def Let_def split: prod.split)
qed

theorem delivery_never_overtakes_witness:
  "list_all (\<lambda>j. (1, 0) \<le> j) (ids (dm_redis example_forwarding))"
proof -
  have "\<lparr>dw_pc = Forwarding (1, 0) ''{}'' 1 [] False, dw_failureDelayMs = deliveryPollMs\<rparr>
      \<in> set (dm_workers example_forwarding)"
    by (simp add: example_forwarding_eq)
  then show ?thesis
    by (rule delivery_never_overtakes [OF example_forwarding_reachable _ delivery_worker.select_convs(1)])
qed

lemma example_refused_facts:
  "dm_dead example_refused = [(1, 0)]" "ids (dm_redis example_refused) = [(2, 0)]"
  "map fst (dm_accepted example_refused) = [(1, 0), (2, 0)]"
  by (simp_all add: example_refused_def example_forwarding_eq work_example_def forward_def
      response_accepted_def isRetryableDiscordApiStatus_def RETRYABLE_CLIENT_STATUSES_def
      forward_failed_def DELIVERY_INFRASTRUCTURE_STATUSES_def quarantineInbound_def capped_def
      worker_moved_def Let_def gone_def xdel_def accept_example_def event_added_def enqueueInbound_def
      key_exists_def example_config_def DEFAULT_INBOUND_MAX_ENTRIES_def)

lemma example_refused_reachable: "reachable_delivery example_config example_json example_refused"
proof -
  have "reachable_delivery example_config example_json (work_example (Answered 400 ''bad'') example_forwarding)"
    by (rule work_reachable [OF example_forwarding_reachable]) (simp add: example_forwarding_eq)
  then show ?thesis
    unfolding example_refused_def
    by (rule accept_reachable)
      (simp_all add: example_forwarding_eq work_example_def forward_def
      response_accepted_def isRetryableDiscordApiStatus_def RETRYABLE_CLIENT_STATUSES_def
      forward_failed_def DELIVERY_INFRASTRUCTURE_STATUSES_def quarantineInbound_def capped_def
      worker_moved_def Let_def xdel_def key_exists_def)
qed

theorem only_refused_events_are_dead_lettered_witness:
  "\<exists>status. ((1, 0), status) \<in> set (dm_answers example_refused) \<and> status < 500 \<and> status \<noteq> 409"
  using only_refused_events_are_dead_lettered [OF example_refused_reachable]
  by (auto simp: example_refused_facts list_ex_iff)


theorem event_is_accepted_once_a_day_witness:
  "sorted_wrt (\<lambda>(i, k, t) (i', k', t'). k = k' \<longrightarrow> t + 24 * 60 * 60 * 1000 \<le> t')
     (dm_accepted example_refused)"
  by (rule event_is_accepted_once_a_day [OF example_refused_reachable])

end
