(* ===== verification/DeliveryProgress.thy ===== *)
theory DeliveryProgress
  imports DeliverySystem
begin

section \<open>A worker that is left alone empties the queue\<close>

text \<open>
  The run of one worker without interruption: how the loop of \<open>runDeliveryLoop\<close> progresses when the API
  answers. \<open>api\<close> is what it answers to each event; the third component lists the events given to it.
\<close>

fun api_answer :: "(stream_id \<Rightarrow> http_answer) \<Rightarrow> loop_pc \<Rightarrow> http_answer" where
  "api_answer api (Forwarding i s n es f) = api i"
| "api_answer api pc = NoAnswer"

fun api_call :: "loop_pc \<Rightarrow> stream_id list" where
  "api_call (Forwarding i s n es f) = [i]"
| "api_call pc = []"

fun run_delivery ::
    "delivery_config \<Rightarrow> json_text \<Rightarrow> (stream_id \<Rightarrow> http_answer) \<Rightarrow> ms \<Rightarrow> nat
     \<Rightarrow> delivery_worker \<times> inbound_redis \<times> stream_id list
     \<Rightarrow> delivery_worker \<times> inbound_redis \<times> stream_id list" where
  "run_delivery cfg json api now 0 s = s"
| "run_delivery cfg json api now (Suc n) (w, r, calls) =
     (case delivery_step cfg json False (api_answer api (dw_pc w)) 0 now (dw_pc w) w r of
        (r', w') \<Rightarrow> run_delivery cfg json api now n (w', r', calls @ api_call (dw_pc w)))"

definition refuses :: "http_answer \<Rightarrow> bool" where
  "refuses answer \<longleftrightarrow> (\<exists>status t. answer = Answered status t \<and> refused_for_good status)"

definition settles :: "http_answer \<Rightarrow> bool" where
  "settles answer \<longleftrightarrow> (\<exists>status t. answer = Answered status t \<and> response_accepted status) \<or> refuses answer"

lemma run_delivery_add:
  "run_delivery cfg json api now (m + n) s =
     run_delivery cfg json api now n (run_delivery cfg json api now m s)"
proof (induction m arbitrary: s)
  case (Suc m)
  obtain w r calls where "s = (w, r, calls)" by (rule prod_cases3)
  then show ?case using Suc by (simp split: prod.split)
qed simp

lemma capped_0 [simp]: "capped cap 0 xs = xs"
  by (simp add: capped_def)

text \<open>One event at the head of the stream, from its turn in the batch to the next one's.\<close>

lemma one_event:
  assumes pc: "dw_pc w = Batch (read_entry json e # es) False"
    and stream: "ir_stream r = e # rest" "fst e \<notin> fst ` set rest"
    and reads: "is_QueuedEvent (read_entry json e)" and api: "settles (api (fst e))"
  shows "\<exists>n \<le> 3. \<exists>r'. run_delivery cfg json api now n (w, r, calls) =
      (w\<lparr>dw_pc := Batch es False\<rparr>, r', calls @ [fst e]) \<and> ir_stream r' = rest \<and>
      map dl_sourceStreamId (ir_deadLetters r') =
        map dl_sourceStreamId (ir_deadLetters r) @ (if refuses (api (fst e)) then [fst e] else [])"
proof -
  let ?i = "fst e"
  obtain v s where entry: "read_entry json e = QueuedEvent ?i v s"
    using reads entry_id_read [of json e] by (cases "read_entry json e") auto
  have rest: "filter (\<lambda>(j, x). j \<noteq> ?i) (ir_stream r) = rest"
    using stream filter_absent [of ?i rest] by (cases e) simp
  obtain r1 k where rec: "recordAttempt ?i r = (r1, k)" by fastforce
  then have r1: "ir_stream r1 = ir_stream r" "ir_deadLetters r1 = ir_deadLetters r"
    by (auto simp: recordAttempt_def Let_def)
  have first: "run_delivery cfg json api now (Suc n) (w, r, calls) =
      run_delivery cfg json api now n (w\<lparr>dw_pc := Forwarding ?i s k es False\<rparr>, r1, calls)" for n
    by (simp add: pc entry rec)
  show ?thesis
  proof (cases "refuses (api ?i)")
    case True
    then obtain status t where a: "api ?i = Answered status t" "refused_for_good status"
      by (auto simp: refuses_def)
    then obtain error where f: "forward (api ?i) = Inl error"
      by (auto simp: forward_def refused_for_good_def)
    then have kinds: "isPermanentForwardingError error" "\<not> isDeliveryInfrastructureError error"
      using a by (auto simp: forward_def refused_for_good_def isRetryableDiscordApiStatus_def
          RETRYABLE_CLIENT_STATUSES_def DELIVERY_INFRASTRUCTURE_STATUSES_def split: if_splits)
    define r2 where "r2 = fst (quarantineInbound (dc_deadLetterMaxEntries cfg) 0 ?i s
        (''Permanent forwarding failure: '' @ errorMessage error) k now r1)"
    have "run_delivery cfg json api now (Suc 0) (w\<lparr>dw_pc := Forwarding ?i s k es False\<rparr>, r1, calls) =
        (w\<lparr>dw_pc := Batch es False\<rparr>, r2, calls @ [?i])"
      by (simp add: f kinds forward_failed_def Let_def r2_def)
    then have "run_delivery cfg json api now 2 (w, r, calls) =
        (w\<lparr>dw_pc := Batch es False\<rparr>, r2, calls @ [?i])"
      unfolding numeral_2_eq_2 first .
    moreover have "ir_stream r2 = rest"
      unfolding r2_def quarantine_stream r1 rest by (rule refl)
    moreover have "map dl_sourceStreamId (ir_deadLetters r2) =
        map dl_sourceStreamId (ir_deadLetters r) @ [?i]"
      using stream(1) by (simp add: r2_def quarantineInbound_def r1)
    ultimately show ?thesis using True by (intro exI [of _ 2]) auto
  next
    case False
    then have f: "forward (api ?i) = Inr ()"
      using api by (auto simp: settles_def forward_def)
    have "run_delivery cfg json api now (Suc (Suc 0))
          (w\<lparr>dw_pc := Forwarding ?i s k es False\<rparr>, r1, calls) =
        (w\<lparr>dw_pc := Batch es False\<rparr>, xdel ?i r1, calls @ [?i])"
      by (simp add: f acknowledgeInbound_def)
    then have "run_delivery cfg json api now 3 (w, r, calls) =
        (w\<lparr>dw_pc := Batch es False\<rparr>, xdel ?i r1, calls @ [?i])"
      unfolding numeral_3_eq_3 first .
    moreover have "ir_stream (xdel ?i r1) = rest"
      using rest by (simp add: xdel_def r1)
    ultimately show ?thesis using False r1 by (intro exI [of _ 3]) auto
  qed
qed

lemma one_batch:
  assumes "dw_pc w = Batch (map (read_entry json) es) False" "ir_stream r = es @ rest"
    and "distinct (ids r)" "list_all (\<lambda>e. is_QueuedEvent (read_entry json e) \<and> settles (api (fst e))) es"
  shows "\<exists>n \<le> 3 * length es. \<exists>r'. run_delivery cfg json api now n (w, r, calls) =
      (w\<lparr>dw_pc := Batch [] False\<rparr>, r', calls @ map fst es) \<and> ir_stream r' = rest \<and>
      map dl_sourceStreamId (ir_deadLetters r') =
        map dl_sourceStreamId (ir_deadLetters r) @ filter (\<lambda>i. refuses (api i)) (map fst es)"
  using assms
proof (induction es arbitrary: w r calls)
  case Nil
  then show ?case by (auto simp: intro!: exI [of _ 0])
next
  case (Cons e es)
  have head: "dw_pc w = Batch (read_entry json e # map (read_entry json) es) False"
      "ir_stream r = e # (es @ rest)" "fst e \<notin> fst ` set (es @ rest)"
    using Cons.prems by (simp_all add: image_Un)
  obtain n r1 where one: "n \<le> 3" "run_delivery cfg json api now n (w, r, calls) =
      (w\<lparr>dw_pc := Batch (map (read_entry json) es) False\<rparr>, r1, calls @ [fst e])"
      "ir_stream r1 = es @ rest" "map dl_sourceStreamId (ir_deadLetters r1) =
        map dl_sourceStreamId (ir_deadLetters r) @ (if refuses (api (fst e)) then [fst e] else [])"
    using one_event [OF head, of api cfg now calls] Cons.prems(4) by auto
  obtain n' r' where rest: "n' \<le> 3 * length es"
      "run_delivery cfg json api now n'
         (w\<lparr>dw_pc := Batch (map (read_entry json) es) False\<rparr>, r1, calls @ [fst e]) =
       (w\<lparr>dw_pc := Batch [] False\<rparr>, r', (calls @ [fst e]) @ map fst es)" "ir_stream r' = rest"
      "map dl_sourceStreamId (ir_deadLetters r') =
        map dl_sourceStreamId (ir_deadLetters r1) @ filter (\<lambda>i. refuses (api i)) (map fst es)"
    using Cons.IH [of "w\<lparr>dw_pc := Batch (map (read_entry json) es) False\<rparr>" r1 "calls @ [fst e]"]
      Cons.prems one(3) by auto
  have "run_delivery cfg json api now (n + n') (w, r, calls) =
      (w\<lparr>dw_pc := Batch [] False\<rparr>, r', calls @ map fst (e # es))"
    by (simp add: run_delivery_add one(2) rest(2))
  moreover have "n + n' \<le> 3 * length (e # es)"
    using one(1) rest(1) by simp
  ultimately show ?case
    using rest(3,4) one(4) by (intro exI [of _ "n + n'"]) auto
qed

text \<open>A batch of at most twenty-five, and then the next, until the stream is empty.\<close>

lemma all_batches:
  assumes "dw_pc w = Peeking" "distinct (ids r)"
    and "list_all (\<lambda>e. is_QueuedEvent (read_entry json e) \<and> settles (api (fst e))) (ir_stream r)"
  shows "\<exists>n \<le> 5 * length (ir_stream r). \<exists>w' r'. run_delivery cfg json api now n (w, r, calls) =
      (w', r', calls @ ids r) \<and> dw_pc w' = Peeking \<and> ir_stream r' = [] \<and>
      map dl_sourceStreamId (ir_deadLetters r') =
        map dl_sourceStreamId (ir_deadLetters r) @ filter (\<lambda>i. refuses (api i)) (ids r)"
  using assms
proof (induction "length (ir_stream r)" arbitrary: w r calls rule: less_induct)
  case less
  show ?case
  proof (cases "ir_stream r")
    case Nil
    then show ?thesis using less.prems(1) by (auto intro!: exI [of _ 0])
  next
    case (Cons e0 es0)
    define es where "es = take 25 (ir_stream r)"
    define rest where "rest = drop 25 (ir_stream r)"
    have stream: "ir_stream r = es @ rest" by (simp add: es_def rest_def)
    have ne: "1 \<le> length es" using Cons by (simp add: es_def)
    define w0 where "w0 = w\<lparr>dw_pc := Batch (map (read_entry json) es) False\<rparr>"
    have peek: "run_delivery cfg json api now 1 (w, r, calls) = (w0, r, calls)"
      using less.prems(1) Cons by (simp add: peek_step_def peekInbound_def w0_def es_def)
    have "dw_pc w0 = Batch (map (read_entry json) es) False" by (simp add: w0_def)
    then obtain n r1 where batch: "n \<le> 3 * length es"
        "run_delivery cfg json api now n (w0, r, calls) =
          (w0\<lparr>dw_pc := Batch [] False\<rparr>, r1, calls @ map fst es)" "ir_stream r1 = rest"
        "map dl_sourceStreamId (ir_deadLetters r1) =
          map dl_sourceStreamId (ir_deadLetters r) @ filter (\<lambda>i. refuses (api i)) (map fst es)"
      using one_batch [of w0 json es r rest api cfg now calls] stream less.prems(2,3)
      by (auto simp: list_all_append)
    define w1 where "w1 = batch_end cfg False (w0\<lparr>dw_pc := Batch [] False\<rparr>)"
    have finish: "run_delivery cfg json api now 1 (w0\<lparr>dw_pc := Batch [] False\<rparr>, r1, calls @ map fst es) =
        (w1, r1, calls @ map fst es)"
      by (simp add: w1_def)
    have "length (ir_stream r1) < length (ir_stream r)"
      using ne by (simp only: batch(3) stream length_append)
    moreover have "dw_pc w1 = Peeking" "distinct (ids r1)"
        "list_all (\<lambda>e. is_QueuedEvent (read_entry json e) \<and> settles (api (fst e))) (ir_stream r1)"
      using less.prems(2,3) stream by (simp_all add: batch(3) w1_def batch_end_def)
    note less.hyps [OF calculation this, of "calls @ map fst es"]
    then obtain n' w' r' where next_batches:
        "n' \<le> 5 * length rest" "run_delivery cfg json api now n' (w1, r1, calls @ map fst es) =
          (w', r', (calls @ map fst es) @ map fst rest)" "dw_pc w' = Peeking" "ir_stream r' = []"
        "map dl_sourceStreamId (ir_deadLetters r') =
          map dl_sourceStreamId (ir_deadLetters r1) @ filter (\<lambda>i. refuses (api i)) (map fst rest)"
      by (auto simp: batch(3))
    have "run_delivery cfg json api now (1 + n + 1 + n') (w, r, calls) =
        (w', r', calls @ ids r)"
      unfolding run_delivery_add peek batch(2) finish next_batches(2) by (simp add: stream)
    moreover have "1 + n + 1 + n' \<le> 5 * length (ir_stream r)"
      using batch(1) next_batches(1) ne by (simp add: stream)
    ultimately show ?thesis
      using next_batches(3-5) batch(4) by (intro exI [of _ "1 + n + 1 + n'"]) (auto simp: stream)
  qed
qed

text \<open>C30: From every state the gateway can reach, a worker that starts and is left alone empties the
  stream when the API answers: within five steps per waiting event it has given each of them to
  the API exactly once, oldest first, and exactly the refused ones have become dead letters.\<close>

theorem delivery_empties_the_queue:
  assumes "reachable_delivery cfg json m"
    and "list_all (\<lambda>i. settles (api i)) (ids (dm_redis m))"
  shows "\<exists>n \<le> 5 * length (ir_stream (dm_redis m)). \<exists>w' r'.
    run_delivery cfg json api now n (new_worker cfg, dm_redis m, []) = (w', r', ids (dm_redis m)) \<and>
    ir_stream r' = [] \<and>
    map dl_sourceStreamId (ir_deadLetters r') =
      map dl_sourceStreamId (ir_deadLetters (dm_redis m)) @ filter (\<lambda>i. refuses (api i)) (ids (dm_redis m))"
proof -
  have ok: "stream_ok json (dm_redis m)"
    using reachable_system_ok [OF assms(1)] by (simp add: system_ok_def)
  have "list_all (\<lambda>e. is_QueuedEvent (read_entry json e) \<and> settles (api (fst e))) (ir_stream (dm_redis m))"
    using ok assms(2) by (auto simp: stream_ok_def list_all_iff)
  from all_batches [OF _ stream_distinct [OF ok] this, of "new_worker cfg" cfg now "[]"]
  show ?thesis by (auto simp: new_worker_def)
qed

theorem delivery_empties_the_queue_witness:
  "\<exists>n \<le> 5. \<exists>w' r'. run_delivery example_config example_json (\<lambda>i. Answered 200 []) 9 n
      (new_worker example_config, dm_redis example_forwarding, []) = (w', r', [(1, 0)]) \<and> ir_stream r' = []"
proof -
  have "list_all (\<lambda>i. settles (Answered 200 [])) (ids (dm_redis example_forwarding))"
    by (simp add: example_forwarding_eq settles_def response_accepted_def)
  from delivery_empties_the_queue [OF example_forwarding_reachable this, of 9]
  show ?thesis by (auto simp: example_forwarding_eq)
qed

end
