(* ===== verification/CustomAutomations.thy ===== *)
theory CustomAutomations
  imports RunWhen Workspace TaskVocabulary Tables JsValue
begin

section \<open>Custom automations\<close>

text \<open>
  \<open>packages/db/src/lib/custom-automations.ts\<close>: the rows of user-defined automations, what may be
  written to them, their webhook tokens, and the launch claim. A claim stores its time as the
  fencing token of the launch; the outcome of a run is recorded under that token, and moves the
  time of the last run, from which the next launch is computed. The cipher of stored tokens is the
  pair of arguments \<open>enc\<close> and \<open>dec\<close>.
\<close>

subsection \<open>Rows\<close>

definition CUSTOM_AUTOMATION_NAME_MAX_LENGTH :: nat where
  "CUSTOM_AUTOMATION_NAME_MAX_LENGTH = 100"

definition CUSTOM_AUTOMATION_PROMPT_MAX_LENGTH :: nat where
  "CUSTOM_AUTOMATION_PROMPT_MAX_LENGTH = 16000"

definition CUSTOM_AUTOMATION_LAUNCH_CRITERIA_MAX_LENGTH :: nat where
  "CUSTOM_AUTOMATION_LAUNCH_CRITERIA_MAX_LENGTH = 4000"

definition CUSTOM_AUTOMATION_CRON_MAX_LENGTH :: nat where
  "CUSTOM_AUTOMATION_CRON_MAX_LENGTH = 200"

definition CUSTOM_AUTOMATION_MODEL_MAX_LENGTH :: nat where
  "CUSTOM_AUTOMATION_MODEL_MAX_LENGTH = 200"

definition CUSTOM_AUTOMATION_LAUNCH_STALE_CLAIM_MS :: ms where
  "CUSTOM_AUTOMATION_LAUNCH_STALE_CLAIM_MS = 10 * 60 * 1000"

definition SCHEDULE_ONLY_BACKGROUND_AUTOMATION_FREQUENCIES :: "string list" where
  "SCHEDULE_ONLY_BACKGROUND_AUTOMATION_FREQUENCIES =
     [''off'', ''on_demand'', ''every_hour'', ''every_6_hours'', ''daily'', ''weekly'']"

definition isScheduleOnlyBackgroundAutomationFrequency :: "string \<Rightarrow> bool" where
  "isScheduleOnlyBackgroundAutomationFrequency s \<longleftrightarrow>
     s \<in> set SCHEDULE_ONLY_BACKGROUND_AUTOMATION_FREQUENCIES"

datatype execution_mode = SandboxTask | FastMode

datatype result_priority = PriorityNormal | PriorityHigh | PriorityCritical

record automation_target =
  at_provider :: "string option"
  at_targetKind :: "string option"
  at_externalRef :: "string option"
  at_metadata :: jsv

definition isConfiguredAutomationTarget :: "automation_target \<Rightarrow> bool" where
  "isConfiguredAutomationTarget target \<longleftrightarrow>
     truthy (at_provider target) \<and> truthy (at_targetKind target) \<and> truthy (at_externalRef target)"

record automation_row =
  au_name :: string
  au_prompt :: string
  au_webhookSecret :: "string option"
  au_launchCriteria :: "string option"
  au_runWhen :: "run_when option"
  au_resultPriority :: result_priority
  au_enabled :: bool
  au_scheduleMode :: string
  au_cronExpression :: "string option"
  au_model :: "string option"
  au_reasoningEffort :: "reasoning_effort option"
  au_environmentId :: "string option"
  au_allRepositories :: bool
  au_noRepositories :: bool
  au_executionMode :: execution_mode
  au_target :: automation_target
  au_createdByUserId :: "string option"
  au_lastRunAt :: "ms option"
  au_lastSucceededAt :: "ms option"
  au_lastFailedAt :: "ms option"
  au_lastError :: "string option"
  au_lastLaunchedTaskId :: "string option"
  au_launchClaimedAt :: "ms option"
  au_createdAt :: ms
  au_updatedAt :: ms

type_synonym automations = "automation_row table"

subsection \<open>What may be written\<close>

text \<open>An input; \<open>None\<close> of an optional field is \<open>undefined\<close>, \<open>Some None\<close> is \<open>null\<close>.\<close>

record automation_input =
  ai_name :: string
  ai_prompt :: string
  ai_enabled :: bool
  ai_resultPriority :: "result_priority option"
  ai_scheduleMode :: string
  ai_cronExpression :: "string option"
  ai_model :: "string option"
  ai_reasoningEffort :: "reasoning_effort option"
  ai_environmentId :: string
  ai_target :: automation_target
  ai_runWhen :: "run_when option option"
  ai_launchCriteria :: "string option option"
  ai_createdByUserId :: "string option"

datatype automation_error =
    NameRequired | NameTooLong | PromptRequired | PromptTooLong | LaunchCriteriaTooLong
  | InvalidScheduleMode string | CronRequired | CronNotAllowed | CronTooLong
  | ModelTooLong | ModelFormat | EffortNeedsModel | InvalidRunWhen
  | EnvironmentRequired | IncompleteDestination
  | EnvironmentNotFound | AutomationNotFound

record automation_write =
  aw_name :: string
  aw_prompt :: string
  aw_cronExpression :: "string option"
  aw_model :: "string option"
  aw_reasoningEffort :: "reasoning_effort option"
  aw_launchCriteria :: "string option option"
  aw_runWhen :: "run_when option option"

definition getExecutionTarget :: "string \<Rightarrow> execution_mode \<times> bool \<times> bool" where
  "getExecutionTarget environmentId =
     (if environmentId = FAST_EXECUTION then (FastMode, False, False)
      else (SandboxTask, environmentId = ALL_REPOSITORIES, environmentId = NO_REPOSITORIES))"

text \<open>A run of white space becomes one space.\<close>

fun collapse_spaces :: "string \<Rightarrow> string" where
  "collapse_spaces [] = []"
| "collapse_spaces (c # cs) =
     (if js_space c
      then (let rest = collapse_spaces cs in
            if rest \<noteq> [] \<and> hd rest = CHR '' '' then rest else CHR '' '' # rest)
      else c # collapse_spaces cs)"

definition normalizeName :: "string \<Rightarrow> string" where
  "normalizeName name = collapse_spaces (trim name)"

definition nonempty_trim :: "string option \<Rightarrow> string option" where
  "nonempty_trim s =
     (case s of None \<Rightarrow> None | Some t \<Rightarrow> if trim t = [] then None else Some (trim t))"

text \<open>\<open>/^[^/\s]+\/.+$/u\<close>: a provider, a slash, and the rest of one line.\<close>

definition line_end :: "char \<Rightarrow> bool" where
  "line_end c \<longleftrightarrow> of_char c \<in> {10, 13 :: nat}"

definition provider_model_format :: "string \<Rightarrow> bool" where
  "provider_model_format s \<longleftrightarrow>
     (let provider = takeWhile (\<lambda>c. c \<noteq> CHR ''/'' \<and> \<not> js_space c) s;
          rest = dropWhile (\<lambda>c. c \<noteq> CHR ''/'' \<and> \<not> js_space c) s in
      provider \<noteq> [] \<and>
      rest \<noteq> [] \<and> hd rest = CHR ''/'' \<and> tl rest \<noteq> [] \<and> \<not> list_ex line_end (tl rest))"

text \<open>What \<open>customAutomationRunWhenSchema.parse\<close> returns: the texts are trimmed.\<close>

fun trimmed_condition :: "run_condition \<Rightarrow> run_condition" where
  "trimmed_condition (YesNo i ask yes no m) = YesNo i (trim ask) (trim yes) (trim no) m"
| "trimmed_condition (Score i ask levels m c) =
     Score i (trim ask) (map (\<lambda>l. l\<lparr>sl_description := trim (sl_description l)\<rparr>) levels) m c"
| "trimmed_condition (Choice i ask options oneOf c) =
     Choice i (trim ask) (map (\<lambda>(k, d). (k, trim d)) options) oneOf c"

definition parse_run_when :: "run_when \<Rightarrow> automation_error + run_when" where
  "parse_run_when gate =
     (if customAutomationRunWhenSchema_ok gate
      then Inr (gate\<lparr>rw_all := map_option (map trimmed_condition) (rw_all gate),
                     rw_any := map_option (map trimmed_condition) (rw_any gate)\<rparr>)
      else Inl InvalidRunWhen)"

definition parse_optional_run_when ::
    "run_when option option \<Rightarrow> automation_error + run_when option option" where
  "parse_optional_run_when gate =
     (case gate of
        Some (Some g) \<Rightarrow> (case parse_run_when g of Inl e \<Rightarrow> Inl e | Inr g' \<Rightarrow> Inr (Some (Some g')))
      | _ \<Rightarrow> Inr gate)"

definition assertValidWriteInput :: "automation_input \<Rightarrow> automation_error + automation_write" where
  "assertValidWriteInput input =
     (let name = normalizeName (ai_name input);
          prompt = trim (ai_prompt input);
          launchCriteria = map_option nonempty_trim (ai_launchCriteria input);
          mode = ai_scheduleMode input;
          cron = nonempty_trim (ai_cronExpression input);
          model = nonempty_trim (ai_model input);
          effort = ai_reasoningEffort input;
          target = ai_target input;
          longer = (\<lambda>s n. case s of None \<Rightarrow> False | Some t \<Rightarrow> length t > (n :: nat)) in
      if name = [] then Inl NameRequired
      else if length name > CUSTOM_AUTOMATION_NAME_MAX_LENGTH then Inl NameTooLong
      else if prompt = [] then Inl PromptRequired
      else if length prompt > CUSTOM_AUTOMATION_PROMPT_MAX_LENGTH then Inl PromptTooLong
      else if longer (case launchCriteria of None \<Rightarrow> None | Some c \<Rightarrow> c)
                CUSTOM_AUTOMATION_LAUNCH_CRITERIA_MAX_LENGTH then Inl LaunchCriteriaTooLong
      else if mode \<noteq> ''cron'' \<and> mode \<noteq> ''on_demand'' \<and>
              \<not> isScheduleOnlyBackgroundAutomationFrequency mode then Inl (InvalidScheduleMode mode)
      else if mode = ''cron'' \<and> cron = None then Inl CronRequired
      else if mode \<noteq> ''cron'' \<and> cron \<noteq> None then Inl CronNotAllowed
      else if longer cron CUSTOM_AUTOMATION_CRON_MAX_LENGTH then Inl CronTooLong
      else if longer model CUSTOM_AUTOMATION_MODEL_MAX_LENGTH then Inl ModelTooLong
      else if (case model of None \<Rightarrow> False | Some m \<Rightarrow> \<not> provider_model_format m)
           then Inl ModelFormat
      else if effort \<noteq> None \<and> model = None then Inl EffortNeedsModel
      else case parse_optional_run_when (ai_runWhen input) of
        Inl e \<Rightarrow> Inl e
      | Inr runWhen \<Rightarrow>
      if ai_environmentId input = [] then Inl EnvironmentRequired
      else if (truthy (at_provider target) \<or> truthy (at_targetKind target) \<or>
               truthy (at_externalRef target)) \<and> \<not> isConfiguredAutomationTarget target
           then Inl IncompleteDestination
      else Inr \<lparr>aw_name = name, aw_prompt = prompt, aw_cronExpression = cron, aw_model = model,
                aw_reasoningEffort = effort, aw_launchCriteria = launchCriteria,
                aw_runWhen = runWhen\<rparr>)"

subsection \<open>Writing rows\<close>

text \<open>
  \<open>environments\<close> is the set of ids of the table of environments. A sandbox automation names one of
  them, or one of the two sentinels that the flags of the row stand for.
\<close>

definition target_environment :: "string set \<Rightarrow> string \<Rightarrow> automation_error + string option" where
  "target_environment environments environmentId =
     (case getExecutionTarget environmentId of
        (mode, allRepositories, noRepositories) \<Rightarrow>
          if allRepositories \<or> noRepositories \<or> mode = FastMode then Inr None
          else if environmentId \<in> environments then Inr (Some environmentId)
          else Inl EnvironmentNotFound)"

definition new_automation ::
    "automation_input \<Rightarrow> automation_write \<Rightarrow> string option \<Rightarrow> ms \<Rightarrow> automation_row" where
  "new_automation input w environment now =
     (case getExecutionTarget (ai_environmentId input) of
        (mode, allRepositories, noRepositories) \<Rightarrow>
          \<lparr>au_name = aw_name w, au_prompt = aw_prompt w, au_webhookSecret = None,
           au_launchCriteria = (case aw_launchCriteria w of None \<Rightarrow> None | Some c \<Rightarrow> c),
           au_runWhen = (case aw_runWhen w of None \<Rightarrow> None | Some g \<Rightarrow> g),
           au_resultPriority = nullish_or (ai_resultPriority input) PriorityNormal,
           au_enabled = ai_enabled input, au_scheduleMode = ai_scheduleMode input,
           au_cronExpression = aw_cronExpression w, au_model = aw_model w,
           au_reasoningEffort = aw_reasoningEffort w, au_environmentId = environment,
           au_allRepositories = allRepositories, au_noRepositories = noRepositories,
           au_executionMode = mode, au_target = ai_target input,
           au_createdByUserId = ai_createdByUserId input, au_lastRunAt = None,
           au_lastSucceededAt = None, au_lastFailedAt = None, au_lastError = None,
           au_lastLaunchedTaskId = None, au_launchClaimedAt = None, au_createdAt = now,
           au_updatedAt = now\<rparr>)"

definition createCustomAutomation ::
    "string set \<Rightarrow> automation_input \<Rightarrow> string \<Rightarrow> ms \<Rightarrow> automations \<Rightarrow> automation_error + automations"
  where
  "createCustomAutomation environments input newId now t =
     (case assertValidWriteInput input of
        Inl e \<Rightarrow> Inl e
      | Inr w \<Rightarrow>
        (case target_environment environments (ai_environmentId input) of
           Inl e \<Rightarrow> Inl e
         | Inr environment \<Rightarrow> Inr (insert_row newId (new_automation input w environment now) t)))"

text \<open>Switching an automation off also takes back its webhook.\<close>

definition written_row ::
    "automation_input \<Rightarrow> automation_write \<Rightarrow> string option \<Rightarrow> ms \<Rightarrow> automation_row \<Rightarrow> automation_row"
  where
  "written_row input w environment now row =
     (case getExecutionTarget (ai_environmentId input) of
        (mode, allRepositories, noRepositories) \<Rightarrow>
          row\<lparr>au_name := aw_name w, au_prompt := aw_prompt w,
              au_launchCriteria :=
                (case aw_launchCriteria w of None \<Rightarrow> au_launchCriteria row | Some c \<Rightarrow> c),
              au_runWhen := (case aw_runWhen w of None \<Rightarrow> au_runWhen row | Some g \<Rightarrow> g),
              au_enabled := ai_enabled input,
              au_resultPriority := nullish_or (ai_resultPriority input) (au_resultPriority row),
              au_scheduleMode := ai_scheduleMode input,
              au_cronExpression := aw_cronExpression w, au_model := aw_model w,
              au_reasoningEffort := aw_reasoningEffort w, au_environmentId := environment,
              au_allRepositories := allRepositories, au_noRepositories := noRepositories,
              au_executionMode := mode, au_target := ai_target input,
              au_webhookSecret := (if ai_enabled input then au_webhookSecret row else None),
              au_updatedAt := now\<rparr>)"

definition updateCustomAutomation ::
    "string set \<Rightarrow> string \<Rightarrow> automation_input \<Rightarrow> ms \<Rightarrow> automations \<Rightarrow> automation_error + automations"
  where
  "updateCustomAutomation environments i input now t =
     (case assertValidWriteInput input of
        Inl e \<Rightarrow> Inl e
      | Inr w \<Rightarrow>
        (case map_of t i of
           None \<Rightarrow> Inl AutomationNotFound
         | Some existing \<Rightarrow>
           (case target_environment environments (ai_environmentId input) of
              Inl e \<Rightarrow> Inl e
            | Inr environment \<Rightarrow>
                Inr (fst (update_where i (\<lambda>row. True) (written_row input w environment now) t)))))"

definition deleteCustomAutomation :: "string \<Rightarrow> automations \<Rightarrow> automations" where
  "deleteCustomAutomation i t = AList.delete i t"

definition listEnabledCustomAutomations :: "automations \<Rightarrow> (string \<times> automation_row) list" where
  "listEnabledCustomAutomations t =
     sort_key (\<lambda>(i, row). au_createdAt row) (select_rows au_enabled t)"

subsection \<open>Webhook tokens\<close>

definition stored_token :: "(string \<Rightarrow> string) \<Rightarrow> automation_row \<Rightarrow> string option" where
  "stored_token dec row =
     (if truthy (au_webhookSecret row) then map_option dec (au_webhookSecret row) else None)"

definition setCustomAutomationWebhookToken ::
    "(string \<Rightarrow> string) \<Rightarrow> string \<Rightarrow> string option \<Rightarrow> ms \<Rightarrow> automations \<Rightarrow> automations \<times> bool" where
  "setCustomAutomationWebhookToken enc i token now t =
     (case update_where i (\<lambda>row. True)
             (\<lambda>row. row\<lparr>au_webhookSecret := map_option enc token, au_updatedAt := now\<rparr>) t of
        (t', updated) \<Rightarrow> (t', updated \<noteq> None))"

definition ensureCustomAutomationWebhookToken ::
    "(string \<Rightarrow> string) \<Rightarrow> (string \<Rightarrow> string) \<Rightarrow> string \<Rightarrow> string \<Rightarrow> ms \<Rightarrow> automations
     \<Rightarrow> automations \<times> string option" where
  "ensureCustomAutomationWebhookToken enc dec i token now t =
     (case update_where i (\<lambda>row. au_enabled row \<and> au_webhookSecret row = None)
             (\<lambda>row. row\<lparr>au_webhookSecret := Some (enc token), au_updatedAt := now\<rparr>) t of
        (t', inserted) \<Rightarrow>
          (case inserted of
             Some row \<Rightarrow>
               if truthy (au_webhookSecret row) then (t', stored_token dec row)
               else (t', case map_of t' i of
                           Some r \<Rightarrow> if au_enabled r then stored_token dec r else None
                         | None \<Rightarrow> None)
           | None \<Rightarrow>
               (t', case map_of t' i of
                      Some r \<Rightarrow> if au_enabled r then stored_token dec r else None
                    | None \<Rightarrow> None)))"

definition rotateCustomAutomationWebhookToken ::
    "(string \<Rightarrow> string) \<Rightarrow> (string \<Rightarrow> string) \<Rightarrow> string \<Rightarrow> string \<Rightarrow> ms \<Rightarrow> automations
     \<Rightarrow> automations \<times> string option" where
  "rotateCustomAutomationWebhookToken enc dec i token now t =
     (case update_where i (\<lambda>row. au_enabled row \<and> au_webhookSecret row \<noteq> None)
             (\<lambda>row. row\<lparr>au_webhookSecret := Some (enc token), au_updatedAt := now\<rparr>) t of
        (t', None) \<Rightarrow> (t', None)
      | (t', Some row) \<Rightarrow> (t', stored_token dec row))"

subsection \<open>The launch claim\<close>

datatype run_outcome = RunSucceeded | RunFailed "string option" | RunSkipped

datatype run_at = RunAtNow | RunAt ms | RunAtSkip

record outcome_params =
  op_outcome :: run_outcome
  op_at :: "ms option"
  op_lastLaunchedTaskId :: "string option option"
  op_lastRunAt :: run_at
  op_launchClaimedAt :: "ms option"

text \<open>\<open>GREATEST\<close> of a nullable column and a time.\<close>

definition greatest :: "ms option \<Rightarrow> ms \<Rightarrow> ms" where
  "greatest column t = (case column of None \<Rightarrow> t | Some c \<Rightarrow> max c t)"

definition requested_run_at :: "run_at \<Rightarrow> ms \<Rightarrow> ms option" where
  "requested_run_at r stamp = (case r of RunAtNow \<Rightarrow> Some stamp | RunAt t \<Rightarrow> Some t | RunAtSkip \<Rightarrow> None)"

definition outcome_row :: "outcome_params \<Rightarrow> ms \<Rightarrow> automation_row \<Rightarrow> automation_row" where
  "outcome_row params now row =
     (let stamp = nullish_or (op_at params) now;
          claimed = op_launchClaimedAt params \<noteq> None;
          row1 = row\<lparr>au_updatedAt := stamp,
                     au_launchClaimedAt := (if claimed then None else au_launchClaimedAt row),
                     au_lastLaunchedTaskId :=
                       (case op_lastLaunchedTaskId params of
                          Some task \<Rightarrow> if claimed then task else au_lastLaunchedTaskId row
                        | None \<Rightarrow> au_lastLaunchedTaskId row)\<rparr>;
          row2 = (case op_outcome params of
                    RunFailed error \<Rightarrow>
                      row1\<lparr>au_lastFailedAt := Some stamp,
                           au_lastError :=
                             Some (nullish_or (nonempty_trim error) ''Custom automation run failed.'')\<rparr>
                  | RunSucceeded \<Rightarrow> row1\<lparr>au_lastError := None, au_lastSucceededAt := Some stamp\<rparr>
                  | RunSkipped \<Rightarrow> row1\<lparr>au_lastError := None\<rparr>) in
      case requested_run_at (op_lastRunAt params) stamp of
        None \<Rightarrow> row2
      | Some t \<Rightarrow> row2\<lparr>au_lastRunAt := Some (greatest (au_lastRunAt row) t)\<rparr>)"

definition recordCustomAutomationRunOutcome ::
    "string \<Rightarrow> outcome_params \<Rightarrow> ms \<Rightarrow> automations \<Rightarrow> automations \<times> bool" where
  "recordCustomAutomationRunOutcome i params now t =
     (case update_where i
             (\<lambda>row. case op_launchClaimedAt params of
                      None \<Rightarrow> True
                    | Some claim \<Rightarrow> au_launchClaimedAt row = Some claim)
             (outcome_row params now) t of
        (t', updated) \<Rightarrow> (t', updated \<noteq> None))"

definition launchable :: "ms option \<Rightarrow> ms \<Rightarrow> automation_row \<Rightarrow> bool" where
  "launchable expectedLastRunAt now row \<longleftrightarrow>
     (case au_launchClaimedAt row of
        None \<Rightarrow> True
      | Some claim \<Rightarrow> claim < now - CUSTOM_AUTOMATION_LAUNCH_STALE_CLAIM_MS) \<and>
     au_lastRunAt row = expectedLastRunAt"

definition tryClaimCustomAutomationLaunch ::
    "string \<Rightarrow> ms option \<Rightarrow> ms \<Rightarrow> automations \<Rightarrow> automations \<times> ms option" where
  "tryClaimCustomAutomationLaunch i expectedLastRunAt now t =
     (case update_where i (launchable expectedLastRunAt now)
             (\<lambda>row. row\<lparr>au_launchClaimedAt := Some now, au_updatedAt := now\<rparr>) t of
        (t', claimed) \<Rightarrow> (t', Option.bind claimed au_launchClaimedAt))"

definition releaseCustomAutomationLaunchClaim ::
    "string \<Rightarrow> ms \<Rightarrow> ms \<Rightarrow> automations \<Rightarrow> automations" where
  "releaseCustomAutomationLaunchClaim i claim now t =
     fst (update_where i (\<lambda>row. au_launchClaimedAt row = Some claim)
            (\<lambda>row. row\<lparr>au_launchClaimedAt := None, au_updatedAt := now\<rparr>) t)"

definition getCustomAutomationFrequency :: "automation_row \<Rightarrow> string" where
  "getCustomAutomationFrequency row =
     (if \<not> au_enabled row then ''off''
      else if isScheduleOnlyBackgroundAutomationFrequency (au_scheduleMode row)
           then au_scheduleMode row
      else ''off'')"

text \<open>\<open>task_active\<close> tells which tasks have the state \<open>active\<close>.\<close>

definition isCustomAutomationPreviousRunActive ::
    "(string \<Rightarrow> bool) \<Rightarrow> automation_row \<Rightarrow> bool" where
  "isCustomAutomationPreviousRunActive task_active row =
     (case au_lastLaunchedTaskId row of
        None \<Rightarrow> False | Some task \<Rightarrow> task \<noteq> [] \<and> task_active task)"

subsection \<open>What a stored row satisfies\<close>

definition automation_ok :: "automation_row \<Rightarrow> bool" where
  "automation_ok row \<longleftrightarrow>
     normalizeName (au_name row) = au_name row \<and> au_name row \<noteq> [] \<and>
     length (au_name row) \<le> CUSTOM_AUTOMATION_NAME_MAX_LENGTH \<and>
     trim (au_prompt row) = au_prompt row \<and> au_prompt row \<noteq> [] \<and>
     length (au_prompt row) \<le> CUSTOM_AUTOMATION_PROMPT_MAX_LENGTH \<and>
     (au_scheduleMode row = ''cron'' \<longleftrightarrow> au_cronExpression row \<noteq> None) \<and>
     (\<forall>m. au_model row = Some m \<longrightarrow> provider_model_format m) \<and>
     (au_reasoningEffort row \<noteq> None \<longrightarrow> au_model row \<noteq> None) \<and>
     (\<forall>g. au_runWhen row = Some g \<longrightarrow> customAutomationRunWhenSchema_ok g) \<and>
     (au_environmentId row \<noteq> None \<longrightarrow>
        au_executionMode row = SandboxTask \<and> \<not> au_allRepositories row \<and> \<not> au_noRepositories row) \<and>
     \<not> (au_allRepositories row \<and> au_noRepositories row)"

lemma collapse_spaces_Nil [simp]: "collapse_spaces s = [] \<longleftrightarrow> s = []"
  by (cases s) (auto simp: Let_def)

lemma collapse_spaces_hd:
  "s \<noteq> [] \<Longrightarrow> \<not> js_space (hd s) \<Longrightarrow> hd (collapse_spaces s) = hd s"
  by (cases s) auto

lemma collapse_spaces_last:
  "s \<noteq> [] \<Longrightarrow> \<not> js_space (last s) \<Longrightarrow> last (collapse_spaces s) = last s"
  by (induction s) (auto simp: Let_def)

lemma collapse_spaces_idem [simp]: "collapse_spaces (collapse_spaces s) = collapse_spaces s"
proof (induction s)
  case (Cons c cs)
  have "js_space (CHR '' '')" by (simp add: js_space_def)
  with Cons show ?case by (cases "collapse_spaces cs") (auto simp: Let_def)
qed simp

lemma trim_fix:
  assumes "s = [] \<or> \<not> js_space (hd s) \<and> \<not> js_space (last s)"
  shows "trim s = s"
  using assms by (auto simp: trim_def trim_start_fix hd_rev)

text \<open>A normalized name is normalized.\<close>

lemma normalizeName_idem [simp]: "normalizeName (normalizeName name) = normalizeName name"
proof -
  have "trim (collapse_spaces (trim name)) = collapse_spaces (trim name)"
    by (rule trim_fix)
      (use collapse_spaces_hd [of "trim name"] collapse_spaces_last [of "trim name"]
           hd_trim [of name] last_trim [of name] in auto)
  then show ?thesis by (simp add: normalizeName_def)
qed

lemma text_ok_trim [simp]: "text_ok (trim s) = text_ok s"
  by (simp add: text_ok_def)

lemma condition_ok_trimmed: "condition_ok c \<Longrightarrow> condition_ok (trimmed_condition c)"
  by (cases c) (auto simp: comp_def split_def)

lemma rc_id_trimmed [simp]: "rc_id (trimmed_condition c) = rc_id c"
  by (cases c) auto

lemma parse_run_when_ok:
  assumes parsed: "parse_run_when gate = Inr gate'"
  shows "customAutomationRunWhenSchema_ok gate'"
proof -
  have ok: "customAutomationRunWhenSchema_ok gate"
    and gate': "gate' = gate\<lparr>rw_all := map_option (map trimmed_condition) (rw_all gate),
                             rw_any := map_option (map trimmed_condition) (rw_any gate)\<rparr>"
    using parsed by (auto simp: parse_run_when_def split: if_splits)
  have groups: "group_ok (map_option (map trimmed_condition) g)" if "group_ok g" for g
    using that by (auto simp: group_ok_def condition_ok_trimmed split: option.splits)
  have conditions: "getConditions gate' = map trimmed_condition (getConditions gate)"
    unfolding gate' by (cases "rw_all gate"; cases "rw_any gate") (simp_all add: getConditions_def)
  have fields: "rw_all gate' = map_option (map trimmed_condition) (rw_all gate)"
    "rw_any gate' = map_option (map trimmed_condition) (rw_any gate)"
    using gate' by simp_all
  show ?thesis
    using ok groups [of "rw_all gate"] groups [of "rw_any gate"]
    by (simp add: customAutomationRunWhenSchema_ok_def Let_def conditions comp_def fields)
qed

text \<open>What the validator lets through is normalized and within its limits.\<close>

lemma assertValid_name:
  assumes "assertValidWriteInput input = Inr w"
  shows "normalizeName (aw_name w) = aw_name w \<and> aw_name w \<noteq> [] \<and>
         length (aw_name w) \<le> CUSTOM_AUTOMATION_NAME_MAX_LENGTH"
  using assms by (auto simp: assertValidWriteInput_def Let_def split: if_splits sum.splits)

lemma assertValid_prompt:
  assumes "assertValidWriteInput input = Inr w"
  shows "trim (aw_prompt w) = aw_prompt w \<and> aw_prompt w \<noteq> [] \<and>
         length (aw_prompt w) \<le> CUSTOM_AUTOMATION_PROMPT_MAX_LENGTH"
  using assms by (auto simp: assertValidWriteInput_def Let_def split: if_splits sum.splits)

lemma assertValid_cron:
  assumes "assertValidWriteInput input = Inr w"
  shows "ai_scheduleMode input = ''cron'' \<longleftrightarrow> aw_cronExpression w \<noteq> None"
  using assms by (auto simp: assertValidWriteInput_def Let_def split: if_splits sum.splits)

lemma assertValid_model:
  assumes "assertValidWriteInput input = Inr w"
  shows "(\<forall>m. aw_model w = Some m \<longrightarrow> provider_model_format m) \<and>
         (aw_reasoningEffort w \<noteq> None \<longrightarrow> aw_model w \<noteq> None)"
  using assms by (auto simp: assertValidWriteInput_def Let_def split: if_splits sum.splits)

lemma assertValid_gate:
  assumes "assertValidWriteInput input = Inr w" "aw_runWhen w = Some (Some g)"
  shows "customAutomationRunWhenSchema_ok g"
proof -
  have "parse_optional_run_when (ai_runWhen input) = Inr (aw_runWhen w)"
    using assms(1) by (auto simp: assertValidWriteInput_def Let_def split: if_splits sum.splits)
  with assms(2) show ?thesis
    by (auto simp: parse_optional_run_when_def parse_run_when_ok
             split: option.splits sum.splits)
qed

lemmas assertValid_facts = assertValid_name assertValid_prompt assertValid_cron assertValid_model

lemma target_environment_ok:
  "target_environment environments e = Inr environment \<Longrightarrow>
   getExecutionTarget e = (mode, allR, noR) \<Longrightarrow>
   (environment \<noteq> None \<longrightarrow> mode = SandboxTask \<and> \<not> allR \<and> \<not> noR) \<and> \<not> (allR \<and> noR)"
  by (auto simp: target_environment_def getExecutionTarget_def ALL_REPOSITORIES_def
        NO_REPOSITORIES_def split: if_splits)

subsection \<open>Launchers\<close>

text \<open>
  The table, the clock and the claims that have been won, each with the last run its launcher had
  read. A launch settles its claim with the time of its occurrence, which is not before the claim;
  an outcome without a claim (a run that failed before it claimed, a webhook run) names any time.
  Ids of rows are not used twice, and a launch does not fall in the millisecond of the last run.
\<close>

record automation_machine =
  am_rows :: automations
  am_clock :: ms
  am_claims :: "(string \<times> ms option \<times> ms) list"

definition claim_log ::
    "string \<Rightarrow> ms option \<Rightarrow> ms option \<Rightarrow> (string \<times> ms option \<times> ms) list" where
  "claim_log i expected claimed = (case claimed of None \<Rightarrow> [] | Some c \<Rightarrow> [(i, expected, c)])"

inductive automation_step ::
    "string set \<Rightarrow> (string \<Rightarrow> string) \<Rightarrow> (string \<Rightarrow> string) \<Rightarrow>
     automation_machine \<Rightarrow> automation_machine \<Rightarrow> bool"
  for environments enc dec where
  create:
    "createCustomAutomation environments input i now (am_rows m) = Inr t \<Longrightarrow>
     map_of (am_rows m) i = None \<Longrightarrow> i \<notin> fst ` set (am_claims m) \<Longrightarrow>
     automation_step environments enc dec m (m\<lparr>am_rows := t\<rparr>)"
| update:
    "updateCustomAutomation environments i input now (am_rows m) = Inr t \<Longrightarrow>
     automation_step environments enc dec m (m\<lparr>am_rows := t\<rparr>)"
| delete:
    "automation_step environments enc dec m (m\<lparr>am_rows := deleteCustomAutomation i (am_rows m)\<rparr>)"
| set_token:
    "automation_step environments enc dec m
       (m\<lparr>am_rows := fst (setCustomAutomationWebhookToken enc i token now (am_rows m))\<rparr>)"
| ensure_token:
    "automation_step environments enc dec m
       (m\<lparr>am_rows := fst (ensureCustomAutomationWebhookToken enc dec i secret now (am_rows m))\<rparr>)"
| rotate_token:
    "automation_step environments enc dec m
       (m\<lparr>am_rows := fst (rotateCustomAutomationWebhookToken enc dec i secret now (am_rows m))\<rparr>)"
| claim:
    "tryClaimCustomAutomationLaunch i expected now (am_rows m) = (t, claimed) \<Longrightarrow>
     am_clock m \<le> now \<Longrightarrow> (case expected of None \<Rightarrow> True | Some seen \<Rightarrow> seen < now) \<Longrightarrow>
     automation_step environments enc dec m
       (m\<lparr>am_rows := t, am_clock := now, am_claims := am_claims m @ claim_log i expected claimed\<rparr>)"
| outcome:
    "(case op_launchClaimedAt params of
        None \<Rightarrow> True | Some c \<Rightarrow> (\<exists>t. op_lastRunAt params = RunAt t \<and> c \<le> t)) \<Longrightarrow>
     automation_step environments enc dec m
       (m\<lparr>am_rows := fst (recordCustomAutomationRunOutcome i params now (am_rows m))\<rparr>)"

inductive reachable_automations ::
    "string set \<Rightarrow> (string \<Rightarrow> string) \<Rightarrow> (string \<Rightarrow> string) \<Rightarrow> automation_machine \<Rightarrow> bool"
  for environments enc dec where
  empty: "reachable_automations environments enc dec
            \<lparr>am_rows = [], am_clock = now, am_claims = []\<rparr>"
| step: "reachable_automations environments enc dec m \<Longrightarrow>
         automation_step environments enc dec m m' \<Longrightarrow>
         reachable_automations environments enc dec m'"

subsection \<open>Every stored automation is one the validator admits\<close>

lemma automation_ok_frame:
  assumes "automation_ok row"
    "au_name row' = au_name row" "au_prompt row' = au_prompt row"
    "au_scheduleMode row' = au_scheduleMode row" "au_cronExpression row' = au_cronExpression row"
    "au_model row' = au_model row" "au_reasoningEffort row' = au_reasoningEffort row"
    "au_runWhen row' = au_runWhen row" "au_environmentId row' = au_environmentId row"
    "au_executionMode row' = au_executionMode row"
    "au_allRepositories row' = au_allRepositories row"
    "au_noRepositories row' = au_noRepositories row"
  shows "automation_ok row'"
  using assms unfolding automation_ok_def by simp

lemma outcome_row_frame:
  "au_name (outcome_row params now row) = au_name row"
  "au_prompt (outcome_row params now row) = au_prompt row"
  "au_scheduleMode (outcome_row params now row) = au_scheduleMode row"
  "au_cronExpression (outcome_row params now row) = au_cronExpression row"
  "au_model (outcome_row params now row) = au_model row"
  "au_reasoningEffort (outcome_row params now row) = au_reasoningEffort row"
  "au_runWhen (outcome_row params now row) = au_runWhen row"
  "au_environmentId (outcome_row params now row) = au_environmentId row"
  "au_executionMode (outcome_row params now row) = au_executionMode row"
  "au_allRepositories (outcome_row params now row) = au_allRepositories row"
  "au_noRepositories (outcome_row params now row) = au_noRepositories row"
  by (simp_all add: outcome_row_def Let_def split: option.split run_outcome.split)

lemma written_row_ok:
  assumes valid: "assertValidWriteInput input = Inr w"
    and environment: "target_environment environments (ai_environmentId input) = Inr environment"
    and row: "automation_ok row"
  shows "automation_ok (written_row input w environment now row)"
proof -
  obtain mode allR noR where mode: "getExecutionTarget (ai_environmentId input) = (mode, allR, noR)"
    by (cases "getExecutionTarget (ai_environmentId input)") auto
  have gate: "customAutomationRunWhenSchema_ok g"
    if "(case aw_runWhen w of None \<Rightarrow> au_runWhen row | Some g \<Rightarrow> g) = Some g" for g
    using that assertValid_gate [OF valid] row
    by (auto simp: automation_ok_def split: option.splits)
  show ?thesis
    using assertValid_facts [OF valid] target_environment_ok [OF environment mode] gate
    by (simp add: automation_ok_def written_row_def mode)
qed

lemma created_row_ok:
  assumes "createCustomAutomation environments input i now t = Inr t'"
  shows "\<exists>row. t' = insert_row i row t \<and> automation_ok row \<and>
               au_launchClaimedAt row = None \<and> au_lastRunAt row = None"
proof -
  obtain w environment where valid: "assertValidWriteInput input = Inr w"
    and environment: "target_environment environments (ai_environmentId input) = Inr environment"
    using assms by (auto simp: createCustomAutomation_def split: sum.splits)
  obtain mode allR noR where mode: "getExecutionTarget (ai_environmentId input) = (mode, allR, noR)"
    by (cases "getExecutionTarget (ai_environmentId input)") auto
  have gate: "customAutomationRunWhenSchema_ok g"
    if "(case aw_runWhen w of None \<Rightarrow> None | Some g \<Rightarrow> g) = Some g" for g
    using that assertValid_gate [OF valid] by (auto split: option.splits)
  have "automation_ok (new_automation input w environment now)"
    using assertValid_facts [OF valid] target_environment_ok [OF environment mode] gate
    by (simp add: automation_ok_def new_automation_def mode)
  moreover have "t' = insert_row i (new_automation input w environment now) t"
    using assms by (simp add: createCustomAutomation_def valid environment)
  ultimately show ?thesis by (auto simp: new_automation_def mode)
qed

lemma updated_rows:
  assumes "updateCustomAutomation environments i input now t = Inr t'"
  shows "\<exists>f. t' = fst (update_where i (\<lambda>row. True) f t) \<and>
             (\<forall>row. au_launchClaimedAt (f row) = au_launchClaimedAt row \<and>
                    au_lastRunAt (f row) = au_lastRunAt row) \<and>
             (\<forall>row. automation_ok row \<longrightarrow> automation_ok (f row))"
proof -
  obtain w environment where valid: "assertValidWriteInput input = Inr w"
    and environment: "target_environment environments (ai_environmentId input) = Inr environment"
    and t': "t' = fst (update_where i (\<lambda>row. True) (written_row input w environment now) t)"
    using assms by (auto simp: updateCustomAutomation_def split: sum.splits option.splits)
  obtain mode allR noR where mode: "getExecutionTarget (ai_environmentId input) = (mode, allR, noR)"
    by (cases "getExecutionTarget (ai_environmentId input)") auto
  show ?thesis
    using t' written_row_ok [OF valid environment]
    by (intro exI [of _ "written_row input w environment now"])
      (auto simp: written_row_def mode)
qed

text \<open>The statements on a token touch nothing else.\<close>

lemma fst_ensure_token:
  "fst (ensureCustomAutomationWebhookToken enc dec i secret now t) =
     fst (update_where i (\<lambda>row. au_enabled row \<and> au_webhookSecret row = None)
            (\<lambda>row. row\<lparr>au_webhookSecret := Some (enc secret), au_updatedAt := now\<rparr>) t)"
  by (simp add: ensureCustomAutomationWebhookToken_def split: prod.split option.split)

lemma fst_rotate_token:
  "fst (rotateCustomAutomationWebhookToken enc dec i secret now t) =
     fst (update_where i (\<lambda>row. au_enabled row \<and> au_webhookSecret row \<noteq> None)
            (\<lambda>row. row\<lparr>au_webhookSecret := Some (enc secret), au_updatedAt := now\<rparr>) t)"
  by (simp add: rotateCustomAutomationWebhookToken_def split: prod.split option.split)

lemma fst_set_token:
  "fst (setCustomAutomationWebhookToken enc i token now t) =
     fst (update_where i (\<lambda>row. True)
            (\<lambda>row. row\<lparr>au_webhookSecret := map_option enc token, au_updatedAt := now\<rparr>) t)"
  by (simp add: setCustomAutomationWebhookToken_def split: prod.split)

lemma fst_outcome:
  "fst (recordCustomAutomationRunOutcome i params now t) =
     fst (update_where i
            (\<lambda>row. case op_launchClaimedAt params of
                     None \<Rightarrow> True | Some c \<Rightarrow> au_launchClaimedAt row = Some c)
            (outcome_row params now) t)"
  by (simp add: recordCustomAutomationRunOutcome_def split: prod.split)

lemma fst_claim:
  "fst (tryClaimCustomAutomationLaunch i expected now t) =
     fst (update_where i (launchable expected now)
            (\<lambda>row. row\<lparr>au_launchClaimedAt := Some now, au_updatedAt := now\<rparr>) t)"
  by (simp add: tryClaimCustomAutomationLaunch_def split: prod.split)

lemmas token_statements = fst_ensure_token fst_rotate_token fst_set_token

lemma automation_step_rows_ok:
  assumes "automation_step environments enc dec m m'" "rows_all automation_ok (am_rows m)"
  shows "rows_all automation_ok (am_rows m')"
  using assms
proof cases
  case (create input i now t)
  with assms(2) created_row_ok [OF create(2)] show ?thesis by (auto intro: rows_all_insert_row)
next
  case (update i input now t)
  with assms(2) updated_rows [OF update(2)] show ?thesis by (auto intro: rows_all_update_where)
next
  case (delete i)
  with assms(2) show ?thesis
    by (simp add: rows_all_def row_all_def deleteCustomAutomation_def delete_conv')
next
  case (claim i expected now t claimed)
  then have t: "t = fst (tryClaimCustomAutomationLaunch i expected now (am_rows m))" by simp
  show ?thesis
    using claim(1) assms(2) unfolding t fst_claim
    by (auto intro!: rows_all_update_where intro: automation_ok_frame)
qed (auto simp: token_statements fst_outcome outcome_row_frame
          intro!: rows_all_update_where intro: automation_ok_frame)

text \<open>C37: Whatever is created, updated, claimed and settled, every stored automation is one the
  validator admits: a normalized non-empty name within its limit, a prompt within its limit, a cron
  expression exactly when it is scheduled by cron, a model of the form provider/model, a reasoning
  effort only with a model, launch criteria that satisfy their schema, and an environment only
  without the sentinels and only for a sandbox task.
\<close>

theorem stored_automations_are_valid:
  assumes "reachable_automations environments enc dec m" "map_of (am_rows m) i = Some row"
  shows "automation_ok row"
proof -
  have "rows_all automation_ok (am_rows m)"
    using assms(1) by induction (auto intro: automation_step_rows_ok)
  then show ?thesis using assms(2) by (rule rows_allD)
qed

subsection \<open>An occurrence is launched once\<close>

text \<open>
  The launches of one occurrence, that is, of one value of the last run. While the row still shows
  that value, it carries the claim of the last of them.
\<close>

definition passed :: "ms option \<Rightarrow> automation_row \<Rightarrow> bool" where
  "passed expected row \<longleftrightarrow>
     (case au_lastRunAt row of
        None \<Rightarrow> False | Some l \<Rightarrow> (case expected of None \<Rightarrow> True | Some e \<Rightarrow> e < l))"

definition held :: "ms option \<Rightarrow> ms \<Rightarrow> automation_row \<Rightarrow> bool" where
  "held expected c row \<longleftrightarrow>
     au_lastRunAt row = expected \<and> (\<exists>c'. au_launchClaimedAt row = Some c' \<and> c \<le> c')"

definition claim_time_ok :: "ms option \<Rightarrow> ms \<Rightarrow> bool" where
  "claim_time_ok expected c \<longleftrightarrow> (case expected of None \<Rightarrow> True | Some e \<Rightarrow> e < c)"

definition claim_row_ok :: "ms option \<Rightarrow> ms \<Rightarrow> automation_row \<Rightarrow> bool" where
  "claim_row_ok expected c row \<longleftrightarrow>
     claim_time_ok expected c \<and> (passed expected row \<or> held expected c row)"

definition spaced_claims :: "(string \<times> ms option \<times> ms) list \<Rightarrow> bool" where
  "spaced_claims claims \<longleftrightarrow>
     (\<forall>j k i expected c c'. j < k \<and> k < length claims \<and> claims ! j = (i, expected, c) \<and>
        claims ! k = (i, expected, c') \<longrightarrow> c' - c > CUSTOM_AUTOMATION_LAUNCH_STALE_CLAIM_MS)"

definition claims_ok :: "automation_machine \<Rightarrow> bool" where
  "claims_ok m \<longleftrightarrow>
     spaced_claims (am_claims m) \<and>
     (\<forall>(i, expected, c) \<in> set (am_claims m). row_all i (claim_row_ok expected c) (am_rows m))"

lemma claims_okD:
  "claims_ok m \<Longrightarrow> (i, expected, c) \<in> set (am_claims m) \<Longrightarrow> map_of (am_rows m) i = Some row \<Longrightarrow>
   claim_row_ok expected c row"
  by (auto simp: claims_ok_def row_all_def)

lemma claim_row_ok_frame:
  "claim_row_ok expected c row \<Longrightarrow> au_lastRunAt row' = au_lastRunAt row \<Longrightarrow>
   au_launchClaimedAt row' = au_launchClaimedAt row \<Longrightarrow> claim_row_ok expected c row'"
  by (auto simp: claim_row_ok_def passed_def held_def)

text \<open>Rows change in ways that keep what the claims rest on.\<close>

lemma claims_ok_rows:
  assumes "claims_ok m"
    "\<And>i row' expected c. (i, expected, c) \<in> set (am_claims m) \<Longrightarrow> map_of t i = Some row' \<Longrightarrow>
       \<exists>row. map_of (am_rows m) i = Some row \<and>
             (claim_row_ok expected c row \<longrightarrow> claim_row_ok expected c row')"
  shows "claims_ok (m\<lparr>am_rows := t\<rparr>)"
proof -
  have "row_all i (claim_row_ok expected c) t" if "(i, expected, c) \<in> set (am_claims m)" for i expected c
    unfolding row_all_def using assms(2) [OF that] claims_okD [OF assms(1) that] by blast
  with assms(1) show ?thesis by (auto simp: claims_ok_def)
qed

lemma claims_ok_update_where:
  assumes "claims_ok m"
    "\<And>row expected c. p row \<Longrightarrow> claim_row_ok expected c row \<Longrightarrow> claim_row_ok expected c (f row)"
  shows "claims_ok (m\<lparr>am_rows := fst (update_where i p f (am_rows m))\<rparr>)"
  by (rule claims_ok_rows [OF assms(1)])
    (use assms(2) in \<open>auto simp: table_ops split: if_splits\<close>)

text \<open>An outcome moves the last run past the occurrence of its claim.\<close>

lemma outcome_row_times:
  "au_launchClaimedAt (outcome_row params now row) =
     (if op_launchClaimedAt params = None then au_launchClaimedAt row else None)"
  "au_lastRunAt (outcome_row params now row) =
     (case requested_run_at (op_lastRunAt params) (nullish_or (op_at params) now) of
        None \<Rightarrow> au_lastRunAt row | Some t \<Rightarrow> Some (greatest (au_lastRunAt row) t))"
  by (cases "requested_run_at (op_lastRunAt params) (nullish_or (op_at params) now)";
      cases "op_outcome params"; simp add: outcome_row_def Let_def)+

lemma passed_later:
  "passed expected row \<Longrightarrow> au_lastRunAt row' = Some (greatest (au_lastRunAt row) t) \<Longrightarrow>
   passed expected row'"
  by (auto simp: passed_def greatest_def split: option.splits)

lemma claim_row_ok_unclaimed_outcome:
  assumes "op_launchClaimedAt params = None" "claim_row_ok expected c row"
  shows "claim_row_ok expected c (outcome_row params now row)"
proof (cases "requested_run_at (op_lastRunAt params) (nullish_or (op_at params) now)")
  case None
  with assms show ?thesis by (auto intro: claim_row_ok_frame simp: outcome_row_times)
next
  case (Some t)
  then have later: "au_lastRunAt (outcome_row params now row) = Some (greatest (au_lastRunAt row) t)"
    by (simp add: outcome_row_times)
  show ?thesis
  proof (cases "passed expected row")
    case True
    then show ?thesis using passed_later [OF True later] assms(2) by (simp add: claim_row_ok_def)
  next
    case False
    with assms(2) have "held expected c row" "claim_time_ok expected c"
      by (simp_all add: claim_row_ok_def)
    with assms(1) later show ?thesis
      by (cases expected) (auto simp: claim_row_ok_def held_def passed_def greatest_def outcome_row_times max_def)
  qed
qed

lemma claim_row_ok_settled:
  assumes "op_launchClaimedAt params = Some c0" "op_lastRunAt params = RunAt t" "c0 \<le> t"
    "au_launchClaimedAt row = Some c0" "claim_row_ok expected c row"
  shows "claim_row_ok expected c (outcome_row params now row)"
proof -
  have later: "au_lastRunAt (outcome_row params now row) = Some (greatest (au_lastRunAt row) t)"
    using assms(2) by (simp add: outcome_row_times requested_run_at_def)
  have "passed expected (outcome_row params now row)" if held: "held expected c row"
  proof -
    have "c \<le> t" using held assms(3,4) by (auto simp: held_def)
    then show ?thesis using assms(5) later
      by (auto simp: claim_row_ok_def claim_time_ok_def passed_def greatest_def split: option.splits)
  qed
  then show ?thesis using assms(5) passed_later [OF _ later] by (auto simp: claim_row_ok_def)
qed

lemma claims_ok_claim:
  assumes ok: "claims_ok m"
    and claim: "tryClaimCustomAutomationLaunch i expected now (am_rows m) = (t, claimed)"
    and time: "claim_time_ok expected now"
  shows "claims_ok (m\<lparr>am_rows := t, am_clock := now,
                      am_claims := am_claims m @ claim_log i expected claimed\<rparr>)"
proof (cases "\<exists>row. map_of (am_rows m) i = Some row \<and> launchable expected now row")
  case False
  then have "update_where i (launchable expected now)
      (\<lambda>row. row\<lparr>au_launchClaimedAt := Some now, au_updatedAt := now\<rparr>) (am_rows m) = (am_rows m, None)"
    by (intro update_where_None [THEN iffD2]) blast
  with claim have "t = am_rows m" "claimed = None" by (auto simp: tryClaimCustomAutomationLaunch_def)
  with ok show ?thesis by (simp add: claims_ok_def claim_log_def)
next
  case True
  then obtain row where row: "map_of (am_rows m) i = Some row" and free: "launchable expected now row"
    by blast
  let ?row = "row\<lparr>au_launchClaimedAt := Some now, au_updatedAt := now\<rparr>"
  have t: "t = AList.update i ?row (am_rows m)" and claimed: "claimed = Some now"
    using claim row free by (auto simp: tryClaimCustomAutomationLaunch_def update_where_def)
  have gap: "now - c > CUSTOM_AUTOMATION_LAUNCH_STALE_CLAIM_MS"
    if "(i, expected, c) \<in> set (am_claims m)" for c
    using claims_okD [OF ok that row] free
    by (auto simp: claim_row_ok_def launchable_def passed_def held_def split: option.splits)
  have stay: "claim_row_ok e c ?row" if "(i, e, c) \<in> set (am_claims m)" for e c
  proof -
    have old: "claim_row_ok e c row" using claims_okD [OF ok that row] .
    have "c \<le> now" if "held e c row"
      using that gap [of c] free old \<open>(i, e, c) \<in> set (am_claims m)\<close>
      by (auto simp: launchable_def held_def CUSTOM_AUTOMATION_LAUNCH_STALE_CLAIM_MS_def)
    with old show ?thesis by (auto simp: claim_row_ok_def passed_def held_def)
  qed
  have "spaced_claims (am_claims m @ [(i, expected, now)])"
    using ok gap unfolding claims_ok_def spaced_claims_def
    by (auto simp: nth_append less_Suc_eq) (metis nth_mem)
  moreover have "row_all j (claim_row_ok e c) t" if "(j, e, c) \<in> set (am_claims m)" for j e c
    using stay [of e c] that claims_okD [OF ok that] by (auto simp: row_all_def t update_conv')
  moreover have "row_all i (claim_row_ok expected now) t"
    using free time by (auto simp: row_all_def t update_conv' claim_row_ok_def held_def launchable_def)
  ultimately show ?thesis by (auto simp: claims_ok_def claim_log_def claimed)
qed

lemma automation_step_claims_ok:
  assumes "automation_step environments enc dec m m'" "claims_ok m"
  shows "claims_ok m'"
  using assms(1)
proof cases
  case (create input i now t)
  then obtain row where t: "t = insert_row i row (am_rows m)"
    using created_row_ok by blast
  have other: "map_of t j = map_of (am_rows m) j" if "(j, e, c) \<in> set (am_claims m)" for j e c
  proof -
    have "j \<noteq> i" using create(4) that by force
    then show ?thesis by (simp add: t table_ops)
  qed
  show ?thesis
    unfolding create(1) by (rule claims_ok_rows [OF assms(2)]) (use other in auto)
next
  case (update i input now t)
  then obtain f where t: "t = fst (update_where i (\<lambda>row. True) f (am_rows m))"
    and f: "\<And>row. au_launchClaimedAt (f row) = au_launchClaimedAt row"
      "\<And>row. au_lastRunAt (f row) = au_lastRunAt row"
    using updated_rows by blast
  show ?thesis
    unfolding update(1) t
    by (rule claims_ok_update_where [OF assms(2)]) (auto intro: claim_row_ok_frame simp: f)
next
  case (delete i)
  show ?thesis
    unfolding delete deleteCustomAutomation_def
    by (rule claims_ok_rows [OF assms(2)]) (auto simp: delete_conv' split: if_splits)
next
  case (claim i expected now t claimed)
  have "claim_time_ok expected now" using claim(4) by (simp add: claim_time_ok_def)
  then show ?thesis unfolding claim(1) by (rule claims_ok_claim [OF assms(2) claim(2)])
next
  case (outcome params i now)
  show ?thesis
    unfolding outcome(1) fst_outcome
  proof (rule claims_ok_update_where [OF assms(2)])
    fix row expected c
    assume current: "case op_launchClaimedAt params of
        None \<Rightarrow> True | Some c \<Rightarrow> au_launchClaimedAt row = Some c"
      and ok: "claim_row_ok expected c row"
    show "claim_row_ok expected c (outcome_row params now row)"
    proof (cases "op_launchClaimedAt params")
      case None
      then show ?thesis using ok by (rule claim_row_ok_unclaimed_outcome)
    next
      case (Some c0)
      then obtain t where "op_lastRunAt params = RunAt t" "c0 \<le> t" using outcome(2) by auto
      then show ?thesis using claim_row_ok_settled [OF Some] current ok Some by simp
    qed
  qed
qed (auto simp: token_statements intro!: claims_ok_update_where [OF assms(2)]
          intro: claim_row_ok_frame)


subsection \<open>A concrete run\<close>

definition example_input :: automation_input where
  "example_input = \<lparr>ai_name = '' Nightly  audit'', ai_prompt = ''Audit.'', ai_enabled = True,
     ai_resultPriority = None, ai_scheduleMode = ''daily'', ai_cronExpression = None,
     ai_model = Some ''a/b'', ai_reasoningEffort = Some High, ai_environmentId = FAST_EXECUTION,
     ai_target = \<lparr>at_provider = None, at_targetKind = None, at_externalRef = None,
                  at_metadata = JNull\<rparr>,
     ai_runWhen = None, ai_launchCriteria = Some (Some '' ''), ai_createdByUserId = Some ''u''\<rparr>"

definition example_write :: automation_write where
  "example_write = \<lparr>aw_name = ''Nightly audit'', aw_prompt = ''Audit.'', aw_cronExpression = None,
     aw_model = Some ''a/b'', aw_reasoningEffort = Some High, aw_launchCriteria = Some None,
     aw_runWhen = None\<rparr>"

definition example_automation :: automation_row where
  "example_automation = new_automation example_input example_write None 0"

definition example_automations :: automation_machine where
  "example_automations =
     \<lparr>am_rows = [(''a'', example_automation\<lparr>au_launchClaimedAt := Some 700000, au_updatedAt := 700000\<rparr>)],
      am_clock = 700000, am_claims = [(''a'', None, 1000), (''a'', None, 700000)]\<rparr>"

lemma example_valid: "assertValidWriteInput example_input = Inr example_write"
  by code_simp

lemma example_environment: "target_environment {} (ai_environmentId example_input) = Inr None"
  by (simp add: target_environment_def getExecutionTarget_def example_input_def)

lemma example_automation_free:
  "au_launchClaimedAt example_automation = None" "au_lastRunAt example_automation = None"
  by (simp_all add: example_automation_def new_automation_def getExecutionTarget_def example_input_def)

lemma example_automations_reachable: "reachable_automations {} id id example_automations"
proof -
  let ?m0 = "\<lparr>am_rows = [], am_clock = 0, am_claims = []\<rparr> :: automation_machine"
  let ?m1 = "?m0\<lparr>am_rows := [(''a'', example_automation)]\<rparr>"
  let ?t2 = "[(''a'', example_automation\<lparr>au_launchClaimedAt := Some 1000, au_updatedAt := 1000\<rparr>)]"
  let ?m2 = "?m1\<lparr>am_rows := ?t2, am_clock := 1000,
                 am_claims := am_claims ?m1 @ claim_log ''a'' None (Some 1000)\<rparr>"
  have "reachable_automations {} id id ?m0" by (rule reachable_automations.empty)
  moreover have "automation_step {} id id ?m0 ?m1"
    by (rule automation_step.create [where input = example_input and i = "''a''" and now = 0])
      (simp_all add: createCustomAutomation_def example_valid example_environment
        example_automation_def insert_row_def)
  moreover have "automation_step {} id id ?m1 ?m2"
    by (rule automation_step.claim)
      (simp_all add: tryClaimCustomAutomationLaunch_def update_where_def launchable_def
        example_automation_free)
  moreover have "automation_step {} id id ?m2
      (?m2\<lparr>am_rows := am_rows example_automations, am_clock := 700000,
           am_claims := am_claims ?m2 @ claim_log ''a'' None (Some 700000)\<rparr>)"
    by (rule automation_step.claim)
      (simp_all add: tryClaimCustomAutomationLaunch_def update_where_def launchable_def
        example_automation_free example_automations_def CUSTOM_AUTOMATION_LAUNCH_STALE_CLAIM_MS_def)
  ultimately have "reachable_automations {} id id
      (?m2\<lparr>am_rows := am_rows example_automations, am_clock := 700000,
           am_claims := am_claims ?m2 @ claim_log ''a'' None (Some 700000)\<rparr>)"
    by (meson reachable_automations.step)
  then show ?thesis by (simp add: example_automations_def claim_log_def)
qed

theorem stored_automations_are_valid_witness:
  "automation_ok (example_automation\<lparr>au_launchClaimedAt := Some 700000, au_updatedAt := 700000\<rparr>)"
  by (rule stored_automations_are_valid [OF example_automations_reachable])
    (simp add: example_automations_def)


end
