(* ===== verification/EventKeys.thy ===== *)
theory EventKeys
  imports JsValue
begin

section \<open>Events of a session's inbox and their keys\<close>

text \<open>
  An event that enters a conversation is a JSON document. Before it is stored it loses the NUL
  characters a database column cannot hold (\<open>fast-agent-parent-event-json.ts\<close>), and its key is
  the digest of the session, of a seed built from its type and ids, and, for the run of an
  automation, of the claim it was launched under (\<open>buildFastAgentParentEventKey\<close>,
  \<open>buildEventClientMessageSeed\<close>). The digest is the argument \<open>sha\<close>.
\<close>

subsection \<open>Documents without NUL\<close>

definition NUL :: char where
  "NUL = CHR 0x00"

definition strip_nul :: "string \<Rightarrow> string" where
  "strip_nul s = filter (\<lambda>c. c \<noteq> NUL) s"

text \<open>Two keys that collapse make it throw (\<open>None\<close>).\<close>

fun sanitizeJson :: "jsv \<Rightarrow> jsv option"
  and sanitize_items :: "jsv list \<Rightarrow> jsv list option"
  and sanitize_entries :: "(string \<times> jsv) list \<Rightarrow> (string \<times> jsv) list option" where
  "sanitizeJson (JStr s) = Some (JStr (strip_nul s))"
| "sanitizeJson (JArr xs) = map_option JArr (sanitize_items xs)"
| "sanitizeJson (JObj kvs) =
     (if distinct (map (\<lambda>(k, v). strip_nul k) kvs) then map_option JObj (sanitize_entries kvs)
      else None)"
| "sanitizeJson v = Some v"
| "sanitize_items [] = Some []"
| "sanitize_items (x # xs) =
     (case (sanitizeJson x, sanitize_items xs) of
        (Some y, Some ys) \<Rightarrow> Some (y # ys) | _ \<Rightarrow> None)"
| "sanitize_entries [] = Some []"
| "sanitize_entries ((k, v) # kvs) =
     (case (sanitizeJson v, sanitize_entries kvs) of
        (Some w, Some ws) \<Rightarrow> Some ((strip_nul k, w) # ws) | _ \<Rightarrow> None)"

fun nul_free :: "jsv \<Rightarrow> bool"
  and nul_free_items :: "jsv list \<Rightarrow> bool"
  and nul_free_entries :: "(string \<times> jsv) list \<Rightarrow> bool" where
  "nul_free (JStr s) \<longleftrightarrow> NUL \<notin> set s"
| "nul_free (JArr xs) \<longleftrightarrow> nul_free_items xs"
| "nul_free (JObj kvs) \<longleftrightarrow> distinct (map fst kvs) \<and> nul_free_entries kvs"
| "nul_free v \<longleftrightarrow> True"
| "nul_free_items [] \<longleftrightarrow> True"
| "nul_free_items (x # xs) \<longleftrightarrow> nul_free x \<and> nul_free_items xs"
| "nul_free_entries [] \<longleftrightarrow> True"
| "nul_free_entries ((k, v) # kvs) \<longleftrightarrow> NUL \<notin> set k \<and> nul_free v \<and> nul_free_entries kvs"

lemma strip_nul_free [simp]: "NUL \<notin> set (strip_nul s)"
  by (simp add: strip_nul_def)

lemma strip_nul_fix [simp]: "NUL \<notin> set s \<Longrightarrow> strip_nul s = s"
  by (auto simp: strip_nul_def filter_id_conv)

lemma sanitize_entries_keys:
  "sanitize_entries kvs = Some ws \<Longrightarrow> map fst ws = map (\<lambda>(k, v). strip_nul k) kvs"
  by (induction kvs arbitrary: ws) (auto split: option.splits)

lemma sanitize_nul_free:
  "sanitizeJson v = Some w \<Longrightarrow> nul_free w"
  "sanitize_items xs = Some ys \<Longrightarrow> nul_free_items ys"
  "sanitize_entries kvs = Some ws \<Longrightarrow> nul_free_entries ws"
  by (induction v and xs and kvs arbitrary: w and ys and ws
      rule: sanitizeJson_sanitize_items_sanitize_entries.induct)
    (auto simp: sanitize_entries_keys split: option.splits if_splits)

lemma nul_free_keys: "nul_free_entries kvs \<Longrightarrow> map (\<lambda>(k, v). strip_nul k) kvs = map fst kvs"
  by (induction kvs) (auto simp del: map_eq_conv)

lemma sanitize_fix:
  "nul_free v \<Longrightarrow> sanitizeJson v = Some v"
  "nul_free_items xs \<Longrightarrow> sanitize_items xs = Some xs"
  "nul_free_entries kvs \<Longrightarrow> sanitize_entries kvs = Some kvs"
  by (induction v and xs and kvs rule: nul_free_nul_free_items_nul_free_entries.induct)
    (auto simp: nul_free_keys)

lemma nul_free_prop: "nul_free v \<Longrightarrow> nul_free (get_prop v k)"
proof (cases v)
  case (JObj kvs)
  assume "nul_free v"
  then have "nul_free_entries kvs" using JObj by simp
  then have "nul_free w" if "map_of kvs k = Some w" for w
    using that by (induction kvs) (auto split: if_splits)
  then show ?thesis using JObj by (auto split: option.split)
qed auto

subsection \<open>Events\<close>

definition event_string :: "jsv \<Rightarrow> string \<Rightarrow> string option" where
  "event_string e k = asString (get_prop e k)"

definition event_type :: "jsv \<Rightarrow> string option" where
  "event_type e = event_string e ''type''"

text \<open>\<open>isFastAgentParentEvent\<close>: an object whose type is a string.\<close>

definition isFastAgentParentEvent :: "jsv \<Rightarrow> bool" where
  "isFastAgentParentEvent v \<longleftrightarrow> is_object v \<and> event_type v \<noteq> None"

text \<open>A value in a template literal; the items of an array are joined by commas.\<close>

fun template_text :: "jsv \<Rightarrow> string"
  and template_item :: "jsv \<Rightarrow> string"
  and template_items :: "jsv list \<Rightarrow> string list" where
  "template_text (JStr s) = s"
| "template_text (JNum n) = (if n < 0 then CHR ''-'' # nat_str (nat (- n)) else nat_str (nat n))"
| "template_text (JBool b) = (if b then ''true'' else ''false'')"
| "template_text JNull = ''null''"
| "template_text JUndefined = ''undefined''"
| "template_text (JArr xs) = join_with (CHR '','') (template_items xs)"
| "template_text (JObj kvs) = ''[object Object]''"
| "template_item v = (if v = JNull \<or> v = JUndefined then [] else template_text v)"
| "template_items [] = []"
| "template_items (x # xs) = template_item x # template_items xs"

definition event_text :: "jsv \<Rightarrow> string \<Rightarrow> string" where
  "event_text e k = template_text (get_prop e k)"

text \<open>The prefix of each type and the fields that follow it, joined by colons.\<close>

definition seed_table :: "(string \<times> (string \<times> (jsv \<Rightarrow> string))) list" where
  "seed_table =
     [(''human_follow_up'', ''fast-parent-human-follow-up:'', \<lambda>e. event_text e ''eventId''),
      (''automation_triggered'', ''fast-parent-automation:'', \<lambda>e. event_text e ''eventId''),
      (''scheduled_wakeup'', ''fast-parent-wakeup:'', \<lambda>e. event_text e ''eventId''),
      (''child_message'', ''fast-parent-child-message:'', \<lambda>e. event_text e ''messageId''),
      (''task_activity'', ''fast-parent-task-activity:'',
        \<lambda>e. event_text e ''runId'' @ '':'' @ event_text e ''throughTs''),
      (''artifact_published'', ''fast-parent-artifact:'',
        \<lambda>e. event_text (get_prop e ''artifact'') ''id'' @ '':v'' @
             event_text (get_prop e ''artifact'') ''version''),
      (''pull_request_opened'', ''fast-parent-pr-opened:'',
        \<lambda>e. event_text e ''taskId'' @ '':'' @ event_text (get_prop e ''pullRequest'') ''url''),
      (''pull_request_feedback'', ''fast-parent-pr-feedback:'', \<lambda>e. event_text e ''feedbackId''),
      (''pull_request_status_changed'', ''fast-parent-pr-status:'',
        \<lambda>e. event_text e ''taskId'' @ '':'' @ event_text (get_prop e ''pullRequest'') ''url'' @ '':'' @
             event_text e ''status''),
      (''pull_request_conflict_detected'', ''fast-parent-pr-conflict:'',
        \<lambda>e. event_text e ''taskId'' @ '':'' @ event_text (get_prop e ''pullRequest'') ''url'' @ '':'' @
             event_text e ''conflictDetectedAt''),
      (''task_settled'', ''fast-parent-settle:'', \<lambda>e. event_text e ''runId''),
      (''task_turn_provider_error'', ''fast-parent-task-turn-provider-error:'',
        \<lambda>e. event_text e ''runId'' @ '':'' @ event_text e ''messageTs''),
      (''task_model_fallback'', ''fast-parent-task-model-fallback:'',
        \<lambda>e. event_text e ''runId'' @ '':'' @ event_text e ''messageTs'')]"

text \<open>No value for a type that is not one of these.\<close>

definition buildEventClientMessageSeed :: "jsv \<Rightarrow> string option" where
  "buildEventClientMessageSeed e =
     (case Option.bind (event_type e) (map_of seed_table) of
        None \<Rightarrow> None | Some (prefix, rest) \<Rightarrow> Some (prefix @ rest e))"

record fast_parent =
  fp_sessionId :: string
  fp_surface :: string
  fp_workspaceId :: string
  fp_conversationId :: string

definition sanitized_parent :: "fast_parent \<Rightarrow> fast_parent" where
  "sanitized_parent p =
     \<lparr>fp_sessionId = strip_nul (fp_sessionId p), fp_surface = strip_nul (fp_surface p),
      fp_workspaceId = strip_nul (fp_workspaceId p),
      fp_conversationId = strip_nul (fp_conversationId p)\<rparr>"

text \<open>The claim of an automation's launch, when the event names one.\<close>

definition launch_claim :: "jsv \<Rightarrow> string option" where
  "launch_claim e =
     (if event_type e = Some ''automation_triggered'' \<and> truthy (event_string e ''launchClaimedAt'')
      then event_string e ''launchClaimedAt'' else None)"

definition key_text :: "string \<Rightarrow> string \<Rightarrow> string option \<Rightarrow> string" where
  "key_text sessionId seed claim =
     sessionId @ NUL # seed @ (case claim of None \<Rightarrow> [] | Some c \<Rightarrow> NUL # c)"

definition buildFastAgentParentEventKey ::
    "(string \<Rightarrow> string) \<Rightarrow> fast_parent \<Rightarrow> jsv \<Rightarrow> string option" where
  "buildFastAgentParentEventKey sha parent e =
     map_option (\<lambda>seed. sha (key_text (fp_sessionId parent) seed (launch_claim e)))
       (buildEventClientMessageSeed e)"

record event_admission =
  ad_parent :: fast_parent
  ad_event :: jsv
  ad_eventKey :: string

definition normalizeFastAgentParentEvent ::
    "(string \<Rightarrow> string) \<Rightarrow> fast_parent \<Rightarrow> jsv \<Rightarrow> event_admission option" where
  "normalizeFastAgentParentEvent sha parent e =
     (case sanitizeJson e of
        None \<Rightarrow> None
      | Some event \<Rightarrow>
          map_option (\<lambda>key. \<lparr>ad_parent = sanitized_parent parent, ad_event = event, ad_eventKey = key\<rparr>)
            (buildFastAgentParentEventKey sha (sanitized_parent parent) event))"

subsection \<open>What a key identifies\<close>

text \<open>No prefix of the table begins another.\<close>

lemma seed_prefixes:
  "list_all (\<lambda>(t, p, _). list_all (\<lambda>(t', p', _).
      t = t' \<or> \<not> starts_with p p' \<and> \<not> starts_with p' p) seed_table) seed_table"
  by (simp add: seed_table_def starts_with_def)

lemma seed_fields:
  "buildEventClientMessageSeed e = Some seed \<longleftrightarrow>
     (\<exists>t prefix rest. event_type e = Some t \<and> map_of seed_table t = Some (prefix, rest) \<and>
        seed = prefix @ rest e)"
  by (cases "event_type e") (auto simp: buildEventClientMessageSeed_def split: option.splits)

lemma seed_determines_type:
  assumes "buildEventClientMessageSeed e = Some seed" "buildEventClientMessageSeed e' = Some seed"
  shows "event_type e = event_type e'"
proof -
  obtain t p r where t: "event_type e = Some t" "(t, p, r) \<in> set seed_table" "seed = p @ r e"
    using assms(1) by (auto simp: seed_fields dest: map_of_SomeD)
  obtain t' p' r' where t': "event_type e' = Some t'" "(t', p', r') \<in> set seed_table" "seed = p' @ r' e'"
    using assms(2) by (auto simp: seed_fields dest: map_of_SomeD)
  have "starts_with p p' \<or> starts_with p' p"
    using t(3) t'(3) by (auto simp: starts_with_iff append_eq_append_conv2)
  then have "t = t'" using seed_prefixes t(2) t'(2) by (fastforce simp: list_all_iff)
  then show ?thesis using t(1) t'(1) by simp
qed

lemma nul_free_string: "nul_free v \<Longrightarrow> v = JStr s \<Longrightarrow> NUL \<notin> set s"
  by simp

lemma nul_digits: "NUL \<notin> set (nat_str n)"
  using nat_str_digits [of n] by (auto simp: is_digit_def NUL_def Let_def)

lemma nul_free_join: "list_all (\<lambda>s. NUL \<notin> set s) ss \<Longrightarrow> NUL \<notin> set (join_with (CHR '','') ss)"
  by (induction "CHR '',''" ss rule: join_with.induct) (auto simp: NUL_def)

lemma nul_free_template:
  "nul_free v \<Longrightarrow> NUL \<notin> set (template_text v)"
  "nul_free v \<Longrightarrow> NUL \<notin> set (template_item v)"
  "nul_free_items xs \<Longrightarrow> list_all (\<lambda>s. NUL \<notin> set s) (template_items xs)"
  by (induction v and v and xs rule: template_text_template_item_template_items.induct)
    (auto simp: nul_digits nul_free_join, auto simp: NUL_def)

lemma nul_free_text: "nul_free e \<Longrightarrow> NUL \<notin> set (event_text e k)"
  by (simp add: event_text_def nul_free_template nul_free_prop)

lemma nul_free_seed:
  assumes "nul_free e" "buildEventClientMessageSeed e = Some seed"
  shows "NUL \<notin> set seed"
proof -
  obtain t p r where row: "(t, p, r) \<in> set seed_table" and seed: "seed = p @ r e"
    using assms(2) by (auto simp: seed_fields dest: map_of_SomeD)
  have "list_all (\<lambda>(t, p, r). NUL \<notin> set p \<and> NUL \<notin> set (r e)) seed_table"
    using nul_free_text [OF assms(1)]
      nul_free_text [OF nul_free_prop [OF assms(1), of "''artifact''"]]
      nul_free_text [OF nul_free_prop [OF assms(1), of "''pullRequest''"]]
    by (simp add: seed_table_def NUL_def)
  then show ?thesis using row seed by (fastforce simp: list_all_iff)
qed

lemma nul_free_claim: "nul_free e \<Longrightarrow> launch_claim e = Some c \<Longrightarrow> NUL \<notin> set c"
  using nul_free_prop [of e "''launchClaimedAt''"]
  by (auto simp: launch_claim_def event_string_def split: if_splits)

lemma cut_at_NUL:
  assumes "NUL \<notin> set a" "NUL \<notin> set b"
  shows "a @ NUL # x = b @ NUL # y \<longleftrightarrow> a = b \<and> x = y"
proof
  have cut: "takeWhile (\<lambda>c. c \<noteq> NUL) (s @ NUL # z) = s" if "NUL \<notin> set s" for s z
    using that by (subst takeWhile_append2) auto
  assume eq: "a @ NUL # x = b @ NUL # y"
  then have "a = b" using cut [OF assms(1), of x] cut [OF assms(2), of y] by simp
  with eq show "a = b \<and> x = y" by simp
qed simp

lemma key_text_inject:
  assumes "NUL \<notin> set i" "NUL \<notin> set i'" "NUL \<notin> set s" "NUL \<notin> set s'"
  shows "key_text i s c = key_text i' s' c' \<longleftrightarrow> i = i' \<and> s = s' \<and> c = c'"
proof -
  have plain: "s \<noteq> s' @ NUL # d" "s @ NUL # d \<noteq> s'" for d using assms(3,4) by auto
  show ?thesis
    using plain
    by (cases c; cases c')
      (simp_all add: key_text_def cut_at_NUL [OF assms(1,2)] cut_at_NUL [OF assms(3,4)])
qed

text \<open>C38: What is stored of an admitted event holds no NUL character, and its key identifies it: if the
  digest does not collide, two admissions with the same key are of the same session, have the same
  type and the same seed of ids, and are of the same claim of a launch.
\<close>

theorem event_key_identifies_the_event:
  assumes "normalizeFastAgentParentEvent sha parent e = Some a"
    "normalizeFastAgentParentEvent sha parent' e' = Some a'"
    "inj sha" "ad_eventKey a = ad_eventKey a'"
  shows "nul_free (ad_event a) \<and>
     fp_sessionId (ad_parent a) = fp_sessionId (ad_parent a') \<and>
     event_type (ad_event a) = event_type (ad_event a') \<and>
     buildEventClientMessageSeed (ad_event a) = buildEventClientMessageSeed (ad_event a') \<and>
     launch_claim (ad_event a) = launch_claim (ad_event a')"
proof -
  have fields: "\<exists>seed. buildEventClientMessageSeed (ad_event b) = Some seed \<and> nul_free (ad_event b) \<and>
      NUL \<notin> set seed \<and> NUL \<notin> set (fp_sessionId (ad_parent b)) \<and>
      ad_eventKey b = sha (key_text (fp_sessionId (ad_parent b)) seed (launch_claim (ad_event b)))"
    if normal: "normalizeFastAgentParentEvent sha p v = Some b" for p v b
  proof -
    from normal obtain event seed where event: "sanitizeJson v = Some event"
      and seed: "buildEventClientMessageSeed event = Some seed"
      and b: "b = \<lparr>ad_parent = sanitized_parent p, ad_event = event,
                   ad_eventKey = sha (key_text (fp_sessionId (sanitized_parent p)) seed
                                        (launch_claim event))\<rparr>"
      by (auto simp: normalizeFastAgentParentEvent_def buildFastAgentParentEventKey_def
               split: option.splits)
    show ?thesis
      using sanitize_nul_free(1) [OF event] nul_free_seed [OF sanitize_nul_free(1) [OF event] seed]
      by (simp add: b seed sanitized_parent_def)
  qed
  obtain seed where a: "buildEventClientMessageSeed (ad_event a) = Some seed" "nul_free (ad_event a)"
    "NUL \<notin> set seed" "NUL \<notin> set (fp_sessionId (ad_parent a))"
    "ad_eventKey a = sha (key_text (fp_sessionId (ad_parent a)) seed (launch_claim (ad_event a)))"
    using fields [OF assms(1)] by blast
  obtain seed' where a': "buildEventClientMessageSeed (ad_event a') = Some seed'"
    "NUL \<notin> set seed'" "NUL \<notin> set (fp_sessionId (ad_parent a'))"
    "ad_eventKey a' = sha (key_text (fp_sessionId (ad_parent a')) seed' (launch_claim (ad_event a')))"
    using fields [OF assms(2)] by blast
  have "key_text (fp_sessionId (ad_parent a)) seed (launch_claim (ad_event a)) =
        key_text (fp_sessionId (ad_parent a')) seed' (launch_claim (ad_event a'))"
    using assms(3,4) a(5) a'(4) by (simp add: inj_eq)
  then have "fp_sessionId (ad_parent a) = fp_sessionId (ad_parent a')" "seed = seed'"
    "launch_claim (ad_event a) = launch_claim (ad_event a')"
    using key_text_inject [OF a(4) a'(3) a(3) a'(2)] by auto
  then show ?thesis using a a' seed_determines_type [of "ad_event a" seed "ad_event a'"] by simp
qed

definition example_parent :: "string \<Rightarrow> fast_parent" where
  "example_parent session =
     \<lparr>fp_sessionId = session, fp_surface = ''web'', fp_workspaceId = ''w'', fp_conversationId = ''c''\<rparr>"

definition example_settled :: "string \<Rightarrow> jsv" where
  "example_settled note =
     JObj [(''type'', JStr ''task_settled''), (''runId'', JNum 7), (''note'', JStr note)]"

definition example_admission :: event_admission where
  "example_admission =
     \<lparr>ad_parent = example_parent ''s'', ad_event = example_settled ''ab'',
      ad_eventKey = key_text ''s'' ''fast-parent-settle:7'' None\<rparr>"

lemma example_normalized:
  "normalizeFastAgentParentEvent (\<lambda>s. s) (example_parent ''s'') (example_settled ''ab'') =
     Some example_admission"
  "normalizeFastAgentParentEvent (\<lambda>s. s) (example_parent [CHR ''s'', NUL])
     (example_settled [CHR ''a'', NUL, CHR ''b'']) = Some example_admission"
  by code_simp+

theorem event_key_identifies_the_event_witness:
  "nul_free (example_settled ''ab'')"
proof -
  have "inj (\<lambda>s :: string. s)" by simp
  then show ?thesis
    using event_key_identifies_the_event [OF example_normalized(2,1)]
    by (simp add: example_admission_def)
qed

end
