(* ===== verification/SessionInbox.thy ===== *)
theory SessionInbox
  imports EventKeys RunLifecycle Tables Retry
    "HOL-Library.Product_Lexorder" "HOL-Library.List_Lexorder" "HOL-Library.Char_ord"
begin

section \<open>The inbox of a session\<close>

text \<open>
  The table \<open>fast_agent_parent_events\<close>: the events that wait for a conversation's agent. This theory
  has its rows and every statement the sources make on them: admission and delivery by the queue
  (\<open>fast-agent-parent-event-queue.ts\<close>), turns that a process admits and runs itself
  (\<open>fast-agent-human-follow-up.ts\<close>, \<open>fast-agent-conversation-repository.ts\<close>), messages steered into a
  running turn, artifacts (\<open>notify-fast-agent-parent.ts\<close>), and the queued messages of the web page
  (\<open>fast-sessions.ts\<close>).
\<close>

subsection \<open>Rows\<close>

record inbox_row =
  ib_conversationId :: string
  ib_eventKey :: string
  ib_parent :: fast_parent
  ib_event :: jsv
  ib_retryTaskStartRunId :: "nat option"
  ib_attempts :: nat
  ib_lastError :: "string option"
  ib_deliveredAt :: "ms option"
  ib_discardedAt :: "ms option"
  ib_inline :: bool
  ib_claimedUntil :: "ms option"
  ib_retryAt :: "ms option"
  ib_inferenceRetries :: nat
  ib_createdAt :: ms
  ib_updatedAt :: ms

type_synonym inbox = "inbox_row table"

definition unsettled :: "inbox_row \<Rightarrow> bool" where
  "unsettled row \<longleftrightarrow> ib_deliveredAt row = None \<and> ib_discardedAt row = None"

text \<open>A comparison with a null column holds of no row.\<close>

definition before :: "ms option \<Rightarrow> ms \<Rightarrow> bool" where
  "before column now \<longleftrightarrow> (case column of None \<Rightarrow> False | Some t \<Rightarrow> t < now)"

definition after :: "ms option \<Rightarrow> ms \<Rightarrow> bool" where
  "after column now \<longleftrightarrow> (case column of None \<Rightarrow> False | Some t \<Rightarrow> now < t)"

definition up_to :: "ms option \<Rightarrow> ms \<Rightarrow> bool" where
  "up_to column now \<longleftrightarrow> (case column of None \<Rightarrow> False | Some t \<Rightarrow> t \<le> now)"

definition unclaimed :: "ms \<Rightarrow> inbox_row \<Rightarrow> bool" where
  "unclaimed now row \<longleftrightarrow> ib_claimedUntil row = None \<or> before (ib_claimedUntil row) now"

subsection \<open>Admission\<close>

definition FAST_AGENT_DURABLE_TURN_CLAIM_MS :: ms where
  "FAST_AGENT_DURABLE_TURN_CLAIM_MS = 15 * 60 * 1000"

definition new_event :: "event_admission \<Rightarrow> nat option \<Rightarrow> bool \<Rightarrow> ms option \<Rightarrow> ms \<Rightarrow> inbox_row" where
  "new_event a retryRun inlined claimedUntil now =
     \<lparr>ib_conversationId = fp_sessionId (ad_parent a), ib_eventKey = ad_eventKey a,
      ib_parent = ad_parent a, ib_event = ad_event a, ib_retryTaskStartRunId = retryRun,
      ib_attempts = 0, ib_lastError = None, ib_deliveredAt = None, ib_discardedAt = None,
      ib_inline = inlined, ib_claimedUntil = claimedUntil, ib_retryAt = None,
      ib_inferenceRetries = 0, ib_createdAt = now, ib_updatedAt = now\<rparr>"

definition find_event :: "string \<Rightarrow> inbox \<Rightarrow> (string \<times> inbox_row) option" where
  "find_event key t = List.find (\<lambda>(i, row). ib_eventKey row = key) t"

text \<open>\<open>insert ... on conflict (event_key) do nothing\<close>, and whether it inserted.\<close>

definition insert_event :: "string \<Rightarrow> inbox_row \<Rightarrow> inbox \<Rightarrow> inbox \<times> bool" where
  "insert_event newId row t =
     (case find_event (ib_eventKey row) t of
        None \<Rightarrow> (insert_row newId row t, True) | Some _ \<Rightarrow> (t, False))"

definition enqueueFastAgentParentEvent_row ::
    "event_admission \<Rightarrow> nat option \<Rightarrow> string \<Rightarrow> ms \<Rightarrow> inbox \<Rightarrow> inbox" where
  "enqueueFastAgentParentEvent_row a retryRun newId now t =
     fst (insert_event newId (new_event a retryRun False None now) t)"

text \<open>The opening of a pull request is admitted while its run has not exited.\<close>

definition enqueueFastAgentParentEventForRun ::
    "event_admission \<Rightarrow> run_status option \<Rightarrow> string \<Rightarrow> ms \<Rightarrow> inbox \<Rightarrow> inbox \<times> bool" where
  "enqueueFastAgentParentEventForRun a run newId now t =
     (case run of
        None \<Rightarrow> (t, False)
      | Some status \<Rightarrow>
          if status \<in> set exitedRunStatuses then (t, False)
          else (fst (insert_event newId (new_event a None False None now) t), True))"

text \<open>A publication keeps the hold of an owner of the older protocol.\<close>

definition publish_artifact_event ::
    "event_admission \<Rightarrow> ms option \<Rightarrow> string \<Rightarrow> ms \<Rightarrow> inbox \<Rightarrow> inbox" where
  "publish_artifact_event a retryAt newId now t =
     (case find_event (ad_eventKey a) t of
        None \<Rightarrow> insert_row newId (new_event a None False retryAt now) t
      | Some (i, _) \<Rightarrow>
          fst (update_where i unsettled
                 (\<lambda>row. row\<lparr>ib_claimedUntil := retryAt, ib_updatedAt := now\<rparr>) t))"

subsection \<open>Turns a process admits and runs itself\<close>

definition supersedesPendingTurns :: "jsv \<Rightarrow> bool" where
  "supersedesPendingTurns event \<longleftrightarrow>
     get_prop event ''input'' = JUndefined \<and> event_string event ''turnSource'' \<noteq> Some ''platform_event''"

definition superseded :: "ms \<Rightarrow> inbox_row \<Rightarrow> inbox_row" where
  "superseded now row =
     row\<lparr>ib_discardedAt := Some now, ib_lastError := Some ''Superseded by a newer human message.'',
         ib_updatedAt := now\<rparr>"

datatype inline_admission = AdmittedTurn string string bool | SettledTurn

text \<open>
  One transaction: the row, the claim of a turn that is resumed, and the end of the older turns of
  the conversation. \<open>AdmittedTurn id key resumed\<close>.
\<close>

definition admitFastAgentInlineHumanTurn ::
    "event_admission \<Rightarrow> string \<Rightarrow> ms \<Rightarrow> inbox \<Rightarrow> inbox \<times> inline_admission" where
  "admitFastAgentInlineHumanTurn a newId now t =
     (let claim = now + FAST_AGENT_DURABLE_TURN_CLAIM_MS;
          inserted = insert_event newId (new_event a None True (Some claim) now) t in
      case find_event (ad_eventKey a) (fst inserted) of
        None \<Rightarrow> (t, SettledTurn)
      | Some (i, row) \<Rightarrow>
          if \<not> unsettled row then (fst inserted, SettledTurn)
          else
            let resumed = (\<not> snd inserted \<and> ib_inline row);
                t1 = (if resumed
                      then fst (update_where i (\<lambda>row. True)
                             (\<lambda>row. row\<lparr>ib_claimedUntil := Some claim, ib_updatedAt := now\<rparr>)
                             (fst inserted))
                      else fst inserted);
                t2 = (if supersedesPendingTurns (ad_event a) \<and>
                         get_prop (ad_event a) ''allowSilentAmbientReply'' \<noteq> JBool True
                      then fst (update_all
                             (\<lambda>row. ib_conversationId row = fp_sessionId (ad_parent a) \<and>
                                    ib_inline row \<and> ib_eventKey row \<noteq> ad_eventKey a \<and> unsettled row)
                             (superseded now) t1)
                      else t1) in
            (t2, AdmittedTurn i (ad_eventKey a) resumed))"

text \<open>The surface takes an admitted follow-up back.\<close>

definition withdraw_admission :: "string \<Rightarrow> ms \<Rightarrow> inbox \<Rightarrow> inbox" where
  "withdraw_admission key now t =
     fst (update_all (\<lambda>row. ib_eventKey row = key \<and> unsettled row)
            (\<lambda>row. row\<lparr>ib_discardedAt := Some now,
                       ib_lastError := Some ''Fast human follow-up admission was withdrawn.'',
                       ib_updatedAt := now\<rparr>) t)"

definition renewFastAgentDurableTurnClaim :: "string \<Rightarrow> ms \<Rightarrow> inbox \<Rightarrow> inbox \<times> bool" where
  "renewFastAgentDurableTurnClaim i now t =
     (case update_where i unsettled
             (\<lambda>row. row\<lparr>ib_claimedUntil := Some (now + FAST_AGENT_DURABLE_TURN_CLAIM_MS),
                        ib_updatedAt := now\<rparr>) t of
        (t', row) \<Rightarrow> (t', row \<noteq> None))"

definition releaseFastAgentDurableTurnClaim :: "string \<Rightarrow> ms \<Rightarrow> inbox \<Rightarrow> inbox \<times> bool" where
  "releaseFastAgentDurableTurnClaim i now t =
     (case update_where i unsettled
             (\<lambda>row. row\<lparr>ib_claimedUntil := None, ib_updatedAt := now\<rparr>) t of
        (t', row) \<Rightarrow> (t', row \<noteq> None))"

definition revokeFastAgentDurableTurnReplay ::
    "string \<Rightarrow> string \<Rightarrow> ms \<Rightarrow> inbox \<Rightarrow> inbox \<times> bool" where
  "revokeFastAgentDurableTurnReplay i reason now t =
     (case update_where i unsettled
             (\<lambda>row. row\<lparr>ib_discardedAt := Some now, ib_lastError := Some reason,
                        ib_updatedAt := now\<rparr>) t of
        (t', row) \<Rightarrow> (t', row \<noteq> None))"

definition scheduleFastAgentDurableTurnRetry ::
    "string \<Rightarrow> ms \<Rightarrow> nat \<Rightarrow> string \<Rightarrow> ms \<Rightarrow> inbox \<Rightarrow> inbox \<times> bool" where
  "scheduleFastAgentDurableTurnRetry i retryAt inferenceRetries reason now t =
     (case update_where i unsettled
             (\<lambda>row. row\<lparr>ib_claimedUntil := None, ib_retryAt := Some retryAt,
                        ib_inferenceRetries := inferenceRetries, ib_lastError := Some reason,
                        ib_updatedAt := now\<rparr>) t of
        (t', row) \<Rightarrow> (t', row \<noteq> None))"

definition markFastAgentDurableTurnDelivered :: "string \<Rightarrow> ms \<Rightarrow> inbox \<Rightarrow> inbox \<times> bool" where
  "markFastAgentDurableTurnDelivered i now t =
     (case update_where i unsettled
             (\<lambda>row. row\<lparr>ib_deliveredAt := Some now, ib_lastError := None, ib_updatedAt := now\<rparr>) t of
        (t', row) \<Rightarrow> (t', row \<noteq> None))"

subsection \<open>Messages steered into a running turn\<close>

definition FAST_AGENT_HUMAN_STEER_CLAIM_MS :: ms where
  "FAST_AGENT_HUMAN_STEER_CLAIM_MS = 2 * 60 * 1000"

definition inbox_order :: "string \<times> inbox_row \<Rightarrow> ms \<times> string" where
  "inbox_order = (\<lambda>(i, row). (ib_createdAt row, i))"

definition getPendingFastAgentHumanFollowUps ::
    "nat \<Rightarrow> string \<Rightarrow> string option \<Rightarrow> ms \<Rightarrow> inbox \<Rightarrow> (string \<times> inbox_row) list" where
  "getPendingFastAgentHumanFollowUps limit conversationId excluded now t =
     take limit (sort_key inbox_order
       (select_rows (\<lambda>row. ib_conversationId row = conversationId \<and> unsettled row \<and>
            unclaimed now row \<and> \<not> ib_inline row \<and>
            event_type (ib_event row) = Some ''human_follow_up'' \<and>
            (case excluded of None \<Rightarrow> True
             | Some eventId \<Rightarrow> event_string (ib_event row) ''eventId'' \<noteq> None \<and>
                              event_string (ib_event row) ''eventId'' \<noteq> Some eventId)) t))"

definition claimFastAgentHumanFollowUpSteers ::
    "string list \<Rightarrow> ms \<Rightarrow> inbox \<Rightarrow> inbox \<times> string list" where
  "claimFastAgentHumanFollowUpSteers ids now t =
     update_ids ids (\<lambda>row. \<not> ib_inline row \<and> unsettled row \<and> unclaimed now row)
       (\<lambda>row. row\<lparr>ib_claimedUntil := Some (now + FAST_AGENT_HUMAN_STEER_CLAIM_MS),
                  ib_updatedAt := now\<rparr>) t"

definition releaseFastAgentHumanFollowUpSteerClaims :: "string list \<Rightarrow> ms \<Rightarrow> inbox \<Rightarrow> inbox" where
  "releaseFastAgentHumanFollowUpSteerClaims ids now t =
     fst (update_ids ids (\<lambda>row. \<not> ib_inline row \<and> ib_deliveredAt row = None)
            (\<lambda>row. row\<lparr>ib_claimedUntil := None, ib_updatedAt := now\<rparr>) t)"

definition markFastAgentHumanFollowUpsDelivered :: "string list \<Rightarrow> ms \<Rightarrow> inbox \<Rightarrow> inbox" where
  "markFastAgentHumanFollowUpsDelivered ids now t =
     fst (update_ids ids unsettled
            (\<lambda>row. row\<lparr>ib_deliveredAt := Some now, ib_lastError := None, ib_updatedAt := now\<rparr>) t)"

text \<open>A message the running turn cannot read is discarded, whatever its state.\<close>

definition discard_unreadable_follow_up :: "string \<Rightarrow> ms \<Rightarrow> inbox \<Rightarrow> inbox" where
  "discard_unreadable_follow_up i now t =
     fst (update_where i (\<lambda>row. True)
            (\<lambda>row. row\<lparr>ib_discardedAt := Some now,
                       ib_lastError := Some ''Queued Fast human follow-up was invalid.'',
                       ib_updatedAt := now\<rparr>) t)"

subsection \<open>What the queue delivers next\<close>

definition FAST_AGENT_PARENT_EVENT_MAX_ATTEMPTS :: nat where
  "FAST_AGENT_PARENT_EVENT_MAX_ATTEMPTS = 20"

definition FAST_AGENT_PARENT_EVENT_MAX_AGE_MS :: ms where
  "FAST_AGENT_PARENT_EVENT_MAX_AGE_MS = 3 * 24 * 60 * 60 * 1000"

definition RETRY_BACKOFF_BASE_MS :: ms where
  "RETRY_BACKOFF_BASE_MS = 30000"

definition RETRY_BACKOFF_MAX_MS :: ms where
  "RETRY_BACKOFF_MAX_MS = 2 * 60 * 60 * 1000"

definition getFastAgentParentEventRetryDelayMs :: "int \<Rightarrow> ms" where
  "getFastAgentParentEventRetryDelayMs attempts =
     (let exponent = max 0 (min (attempts - 1) 20) in
      min (RETRY_BACKOFF_BASE_MS * 2 ^ nat exponent) RETRY_BACKOFF_MAX_MS)"

definition pendingPredicate :: "string option \<Rightarrow> ms \<Rightarrow> inbox_row \<Rightarrow> bool" where
  "pendingPredicate conversationId now row \<longleftrightarrow>
     (case conversationId of
        None \<Rightarrow> True | Some c \<Rightarrow> if c = [] then True else ib_conversationId row = c) \<and>
     unsettled row \<and> unclaimed now row \<and>
     (ib_retryAt row = None \<or> up_to (ib_retryAt row) now)"

definition scheduledRetryPredicate :: "ms \<Rightarrow> inbox_row \<Rightarrow> bool" where
  "scheduledRetryPredicate now row \<longleftrightarrow> unsettled row \<and> after (ib_retryAt row) now"

definition parkedHeadPredicate :: "ms \<Rightarrow> inbox_row \<Rightarrow> bool" where
  "parkedHeadPredicate now row \<longleftrightarrow>
     unsettled row \<and> \<not> ib_inline row \<and> after (ib_retryAt row) now"

text \<open>
  \<open>getNextPendingEvent\<close> is two queries, each with a clock reading of its own: the oldest pending row,
  and the rows that hold it.
\<close>

definition oldest_pending :: "string \<Rightarrow> ms \<Rightarrow> inbox \<Rightarrow> (string \<times> inbox_row) option" where
  "oldest_pending conversationId now t =
     (case sort_key inbox_order (select_rows (pendingPredicate (Some conversationId) now) t) of
        [] \<Rightarrow> None | next # _ \<Rightarrow> Some next)"

definition held_back :: "string \<Rightarrow> string \<times> inbox_row \<Rightarrow> ms \<Rightarrow> inbox \<Rightarrow> bool" where
  "held_back conversationId next now t =
     (case next of
        (i, row) \<Rightarrow>
          list_ex (\<lambda>(j, head). ib_conversationId head = conversationId \<and>
                     parkedHeadPredicate now head \<and> ib_createdAt head \<le> ib_createdAt row \<and> j \<noteq> i) t)"

definition getNextPendingEvent :: "string \<Rightarrow> ms \<Rightarrow> ms \<Rightarrow> inbox \<Rightarrow> (string \<times> inbox_row) option" where
  "getNextPendingEvent conversationId now now' t =
     (case oldest_pending conversationId now t of
        None \<Rightarrow> None
      | Some next \<Rightarrow> if held_back conversationId next now' t then None else Some next)"

datatype abandon_reason = TooManyAttempts nat | TooOld nat

definition getAbandonReason :: "ms \<Rightarrow> inbox_row \<Rightarrow> abandon_reason option" where
  "getAbandonReason now row =
     (if ib_attempts row \<ge> FAST_AGENT_PARENT_EVENT_MAX_ATTEMPTS
      then Some (TooManyAttempts (ib_attempts row))
      else if ib_attempts row > 0 \<and> now - ib_createdAt row > FAST_AGENT_PARENT_EVENT_MAX_AGE_MS
      then Some (TooOld (ib_attempts row))
      else None)"

definition abandon_message :: "abandon_reason \<Rightarrow> string" where
  "abandon_message r =
     (case r of
        TooManyAttempts n \<Rightarrow> ''Gave up after '' @ nat_str n @ '' delivery attempts.''
      | TooOld n \<Rightarrow> ''Gave up after '' @ nat_str n @ '' delivery attempts over more than 72 hours.'')"

definition abandon_error :: "abandon_reason \<Rightarrow> inbox_row \<Rightarrow> string" where
  "abandon_error r row =
     (if truthy (ib_lastError row)
      then abandon_message r @ '' Last error: '' @ nullish_or (ib_lastError row) []
      else abandon_message r)"

subsection \<open>The queue's statements\<close>

definition isStillPending :: "string \<Rightarrow> inbox \<Rightarrow> bool" where
  "isStillPending i t = (case map_of t i of None \<Rightarrow> False | Some row \<Rightarrow> unsettled row)"

definition markDelivered :: "string \<Rightarrow> ms \<Rightarrow> inbox \<Rightarrow> inbox" where
  "markDelivered i now t =
     fst (update_where i (\<lambda>row. True)
            (\<lambda>row. row\<lparr>ib_deliveredAt := Some now, ib_lastError := None, ib_updatedAt := now\<rparr>) t)"

definition markDiscarded :: "string \<Rightarrow> string \<Rightarrow> ms \<Rightarrow> inbox \<Rightarrow> inbox" where
  "markDiscarded i error now t =
     fst (update_where i (\<lambda>row. True)
            (\<lambda>row. row\<lparr>ib_discardedAt := Some now, ib_lastError := Some error,
                       ib_updatedAt := now\<rparr>) t)"

definition hold_artifact_event :: "string \<Rightarrow> ms \<Rightarrow> ms \<Rightarrow> inbox \<Rightarrow> inbox" where
  "hold_artifact_event i retryAt now t =
     fst (update_where i (\<lambda>row. True)
            (\<lambda>row. row\<lparr>ib_claimedUntil := Some retryAt, ib_updatedAt := now\<rparr>) t)"

text \<open>\<open>inlined\<close> is the admission of the row as it was read.\<close>

definition start_attempt :: "string \<Rightarrow> bool \<Rightarrow> ms \<Rightarrow> inbox \<Rightarrow> inbox \<times> bool" where
  "start_attempt i inlined now t =
     (case update_where i unsettled
             (\<lambda>row. row\<lparr>ib_attempts := ib_attempts row + 1, ib_lastError := None,
                        ib_retryAt := (if inlined then ib_retryAt row else None),
                        ib_updatedAt := now\<rparr>) t of
        (t', row) \<Rightarrow> (t', row \<noteq> None))"

definition note_inline_error :: "string \<Rightarrow> string \<Rightarrow> ms \<Rightarrow> inbox \<Rightarrow> inbox" where
  "note_inline_error i error now t =
     fst (update_where i (\<lambda>row. True)
            (\<lambda>row. row\<lparr>ib_lastError := Some error, ib_updatedAt := now\<rparr>) t)"

definition park_event :: "string \<Rightarrow> string \<Rightarrow> ms \<Rightarrow> ms \<Rightarrow> inbox \<Rightarrow> inbox" where
  "park_event i error retryAt now t =
     fst (update_where i (\<lambda>row. True)
            (\<lambda>row. row\<lparr>ib_lastError := Some error, ib_retryAt := Some retryAt,
                       ib_updatedAt := now\<rparr>) t)"

subsection \<open>Jobs, the recovery sweep and the health check\<close>

text \<open>A job of the queue names a row by its conversation and key; a delayed one has its time.\<close>

record inbox_job =
  ij_jobId :: string
  ij_conversationId :: string
  ij_eventKey :: string
  ij_runAt :: ms

definition add_job :: "inbox_job \<Rightarrow> inbox_job list \<Rightarrow> inbox_job list" where
  "add_job job jobs = (if ij_jobId job \<in> ij_jobId ` set jobs then jobs else jobs @ [job])"

definition addWakeupJob :: "string \<Rightarrow> string \<Rightarrow> ms \<Rightarrow> inbox_job list \<Rightarrow> inbox_job list" where
  "addWakeupJob conversationId eventKey now jobs =
     add_job \<lparr>ij_jobId = eventKey, ij_conversationId = conversationId, ij_eventKey = eventKey,
              ij_runAt = now\<rparr> jobs"

definition wakeFastAgentParentEventAfterRelease ::
    "string \<Rightarrow> string \<Rightarrow> ms \<Rightarrow> inbox_job list \<Rightarrow> inbox_job list" where
  "wakeFastAgentParentEventAfterRelease conversationId eventKey now jobs =
     add_job \<lparr>ij_jobId = eventKey @ ''-release-'' @ template_text (JNum now),
              ij_conversationId = conversationId, ij_eventKey = eventKey, ij_runAt = now\<rparr> jobs"

definition wakeFastAgentParentEventAt ::
    "string \<Rightarrow> string \<Rightarrow> ms \<Rightarrow> ms \<Rightarrow> inbox_job list \<Rightarrow> inbox_job list" where
  "wakeFastAgentParentEventAt conversationId eventKey retryAt now jobs =
     add_job \<lparr>ij_jobId = eventKey @ ''-retry-'' @ template_text (JNum retryAt),
              ij_conversationId = conversationId, ij_eventKey = eventKey,
              ij_runAt = now + max 0 (retryAt - now)\<rparr> jobs"

definition recoverPendingFastAgentParentEvents ::
    "ms \<Rightarrow> inbox \<Rightarrow> inbox_job list \<Rightarrow> inbox_job list \<times> nat" where
  "recoverPendingFastAgentParentEvents now t jobs =
     (let rows = sort_key inbox_order (select_rows (pendingPredicate None now) t);
          woken = fold (\<lambda>(i, row). addWakeupJob (ib_conversationId row) (ib_eventKey row) now) rows jobs;
          scheduled = select_rows (scheduledRetryPredicate now) t in
      (fold (\<lambda>(i, row). wakeFastAgentParentEventAt (ib_conversationId row) (ib_eventKey row)
               (case ib_retryAt row of None \<Rightarrow> now | Some retryAt \<Rightarrow> retryAt) now) scheduled woken,
       length rows))"

definition queueEligibleSince :: "inbox_row \<Rightarrow> ms" where
  "queueEligibleSince row =
     max (max (ib_createdAt row) (ib_updatedAt row))
       (max (nullish_or (ib_claimedUntil row) (ib_createdAt row))
            (nullish_or (ib_retryAt row) (ib_createdAt row)))"

definition overdue :: "ms \<Rightarrow> ms \<Rightarrow> inbox \<Rightarrow> string \<times> inbox_row \<Rightarrow> bool" where
  "overdue olderThan now t entry =
     (case entry of
        (i, row) \<Rightarrow>
          pendingPredicate None now row \<and> queueEligibleSince row < olderThan \<and>
          \<not> list_ex (\<lambda>(j, head). ib_conversationId head = ib_conversationId row \<and> j \<noteq> i \<and>
                unsettled head \<and> \<not> ib_inline head \<and> after (ib_retryAt head) now \<and>
                ib_createdAt head \<le> ib_createdAt row) t)"

definition countOverdueQueuedFastAgentParentEvents :: "ms \<Rightarrow> ms \<Rightarrow> inbox \<Rightarrow> nat" where
  "countOverdueQueuedFastAgentParentEvents olderThan now t =
     length (filter (overdue olderThan now t) t)"

subsection \<open>The queued messages of the web page\<close>

definition fastSessionQueuedFollowUp :: "string \<Rightarrow> inbox_row \<Rightarrow> bool" where
  "fastSessionQueuedFollowUp sessionId row \<longleftrightarrow>
     ib_conversationId row = sessionId \<and> unsettled row \<and> \<not> ib_inline row \<and>
     event_type (ib_event row) = Some ''human_follow_up'' \<and>
     get_prop (ib_event row) ''webFollowUp'' \<in> {JBool True, JStr ''true''}"

definition hasFastSessionQueuedMessages :: "string \<Rightarrow> inbox \<Rightarrow> bool" where
  "hasFastSessionQueuedMessages sessionId t \<longleftrightarrow>
     list_ex (\<lambda>(i, row). fastSessionQueuedFollowUp sessionId row) t"

definition queued_messages :: "string \<Rightarrow> inbox \<Rightarrow> (string \<times> inbox_row) list" where
  "queued_messages sessionId t =
     sort_key inbox_order (select_rows (fastSessionQueuedFollowUp sessionId) t)"

datatype withdrawal = Withdrawn | NotQueued | ForbiddenWithdrawal

datatype steer_reservation = Reserved string string ms | NotQueuedForSteer | NotFirst

definition json_text :: "jsv \<Rightarrow> string \<Rightarrow> string option" where
  "json_text e k =
     (case get_prop e k of JUndefined \<Rightarrow> None | JNull \<Rightarrow> None | v \<Rightarrow> Some (template_text v))"

text \<open>\<open>persisted\<close> tells which message ids are in the transcript of the session.\<close>

definition reserveFastSessionQueuedMessageForSteer ::
    "string \<Rightarrow> string \<Rightarrow> (string \<Rightarrow> bool) \<Rightarrow> ms \<Rightarrow> inbox \<Rightarrow> inbox \<times> steer_reservation" where
  "reserveFastSessionQueuedMessageForSteer sessionId clientMessageId persisted now t =
     (case queued_messages sessionId t of
        [] \<Rightarrow> (t, NotQueuedForSteer)
      | (i, oldest) # _ \<Rightarrow>
          if json_text (ib_event oldest) ''currentMessageId'' \<noteq> Some clientMessageId
          then (t, NotFirst)
          else (case update_where i
                       (\<lambda>row. ib_attempts row = 0 \<and> ib_claimedUntil row = None \<and> unsettled row \<and>
                              \<not> ib_inline row \<and> \<not> persisted (clientMessageId @ '':user''))
                       (\<lambda>row. row\<lparr>ib_claimedUntil := Some (now + 30000), ib_updatedAt := now\<rparr>) t of
                  (t', None) \<Rightarrow> (t', NotQueuedForSteer)
                | (t', Some row) \<Rightarrow> (t', Reserved i (ib_eventKey oldest) (now + 30000))))"

definition releaseFastSessionQueuedMessageSteerReservation ::
    "string \<Rightarrow> ms \<Rightarrow> ms \<Rightarrow> inbox \<Rightarrow> inbox" where
  "releaseFastSessionQueuedMessageSteerReservation i token now t =
     fst (update_where i (\<lambda>row. ib_claimedUntil row = Some token \<and> unsettled row)
            (\<lambda>row. row\<lparr>ib_claimedUntil := None, ib_updatedAt := now\<rparr>) t)"

definition withdrawable ::
    "string \<Rightarrow> string \<Rightarrow> (string \<Rightarrow> bool) \<Rightarrow> ms \<Rightarrow> inbox_row \<Rightarrow> bool" where
  "withdrawable sessionId clientMessageId persisted now row \<longleftrightarrow>
     fastSessionQueuedFollowUp sessionId row \<and>
     json_text (ib_event row) ''currentMessageId'' = Some clientMessageId \<and>
     (ib_attempts row = 0 \<or> after (ib_retryAt row) now) \<and>
     ib_claimedUntil row = None \<and> \<not> persisted (clientMessageId @ '':user'')"

text \<open>\<open>picked\<close> is the row the first query answers, one of those that match.\<close>

definition withdrawFastSessionQueuedMessage ::
    "string \<Rightarrow> string \<Rightarrow> string \<Rightarrow> string option \<Rightarrow> (string \<Rightarrow> bool) \<Rightarrow> ms \<Rightarrow> inbox
     \<Rightarrow> inbox \<times> withdrawal" where
  "withdrawFastSessionQueuedMessage sessionId clientMessageId userId picked persisted now t =
     (case Option.bind picked (map_of t) of
        None \<Rightarrow> (t, NotQueued)
      | Some queued \<Rightarrow>
          if \<not> (fastSessionQueuedFollowUp sessionId queued \<and>
                json_text (ib_event queued) ''currentMessageId'' = Some clientMessageId)
          then (t, NotQueued)
          else if json_text (ib_event queued) ''userId'' \<noteq> Some userId then (t, ForbiddenWithdrawal)
          else (case update_where (the picked)
                       (withdrawable sessionId clientMessageId persisted now)
                       (\<lambda>row. row\<lparr>ib_discardedAt := Some now,
                                  ib_lastError := Some ''Withdrawn by its sender before delivery.'',
                                  ib_updatedAt := now\<rparr>) t of
                  (t', None) \<Rightarrow> (t', NotQueued)
                | (t', Some row) \<Rightarrow> (t', Withdrawn)))"

subsection \<open>The delay before a next attempt\<close>

lemma retry_delay_exponential:
  "getFastAgentParentEventRetryDelayMs (int n + 1) =
     min (RETRY_BACKOFF_BASE_MS * 2 ^ n) RETRY_BACKOFF_MAX_MS"
proof (cases "n \<le> 20")
  case True
  then show ?thesis by (simp add: getFastAgentParentEventRetryDelayMs_def Let_def)
next
  case False
  then have "(2 :: int) ^ 20 \<le> 2 ^ n" by (intro power_increasing) auto
  then have "RETRY_BACKOFF_MAX_MS \<le> RETRY_BACKOFF_BASE_MS * 2 ^ n"
    by (simp add: RETRY_BACKOFF_BASE_MS_def RETRY_BACKOFF_MAX_MS_def)
  with False show ?thesis
    by (simp add: getFastAgentParentEventRetryDelayMs_def Let_def RETRY_BACKOFF_BASE_MS_def
        RETRY_BACKOFF_MAX_MS_def)
qed

interpretation attempts: bounded_backoff
  "\<lambda>n. getFastAgentParentEventRetryDelayMs (int n + 1)" RETRY_BACKOFF_MAX_MS
proof
  have bounds: "0 \<le> RETRY_BACKOFF_BASE_MS" "0 \<le> RETRY_BACKOFF_MAX_MS"
    by (simp_all add: RETRY_BACKOFF_BASE_MS_def RETRY_BACKOFF_MAX_MS_def)
  fix n
  show "0 \<le> getFastAgentParentEventRetryDelayMs (int n + 1)"
    "getFastAgentParentEventRetryDelayMs (int n + 1) \<le> RETRY_BACKOFF_MAX_MS"
    unfolding retry_delay_exponential using capped_exponential [OF bounds] by auto
  show "getFastAgentParentEventRetryDelayMs (int n + 1)
          \<le> getFastAgentParentEventRetryDelayMs (int (Suc n) + 1)"
    "getFastAgentParentEventRetryDelayMs (int (Suc n) + 1)
          \<le> 2 * getFastAgentParentEventRetryDelayMs (int n + 1)"
    unfolding retry_delay_exponential using capped_exponential [OF bounds] by auto
qed

text \<open>The twenty attempts of an event that never succeeds span a little more than a day.\<close>

lemma attempts_span_a_day:
  "sum_list (map (\<lambda>n. getFastAgentParentEventRetryDelayMs (int n + 1))
      [0..<FAST_AGENT_PARENT_EVENT_MAX_ATTEMPTS]) = 94050 * 1000"
  unfolding retry_delay_exponential FAST_AGENT_PARENT_EVENT_MAX_ATTEMPTS_def
  by (simp add: RETRY_BACKOFF_BASE_MS_def RETRY_BACKOFF_MAX_MS_def upt_conv_Cons)

subsection \<open>What the queries answer\<close>

lemma hd_sort_key:
  assumes "xs \<noteq> []"
  shows "hd (sort_key f xs) \<in> set xs" "x \<in> set xs \<Longrightarrow> f (hd (sort_key f xs)) \<le> f x"
proof -
  have "set (sort_key f xs) = set xs" by simp
  then obtain y ys where ys: "sort_key f xs = y # ys" using assms by (cases "sort_key f xs") auto
  have elems: "set (y # ys) = set xs" by (metis set_sort ys)
  have "sorted (map f (y # ys))" by (metis sorted_sort_key ys)
  then show "hd (sort_key f xs) \<in> set xs" "x \<in> set xs \<Longrightarrow> f (hd (sort_key f xs)) \<le> f x"
    using elems by (auto simp: ys)
qed

text \<open>The oldest pending row: pending, and no pending row of its conversation is older.\<close>

lemma oldest_pending_Some:
  assumes "jsmap_ok t" "oldest_pending c now t = Some (i, row)"
  shows "map_of t i = Some row" "pendingPredicate (Some c) now row"
    "map_of t j = Some row' \<Longrightarrow> pendingPredicate (Some c) now row' \<Longrightarrow>
       (ib_createdAt row, i) \<le> (ib_createdAt row', j)"
proof -
  let ?rows = "select_rows (pendingPredicate (Some c) now) t"
  obtain rest where sorted: "sort_key inbox_order ?rows = (i, row) # rest"
    using assms(2) by (auto simp: oldest_pending_def split: list.splits)
  then have ne: "?rows \<noteq> []" by auto
  have "(i, row) \<in> set ?rows" using hd_sort_key(1) [OF ne, of inbox_order] by (simp add: sorted)
  then show "map_of t i = Some row" "pendingPredicate (Some c) now row"
    using assms(1) by (auto simp: set_select_rows)
  assume "map_of t j = Some row'" "pendingPredicate (Some c) now row'"
  then have "(j, row') \<in> set ?rows" using assms(1) by (simp add: set_select_rows)
  then show "(ib_createdAt row, i) \<le> (ib_createdAt row', j)"
    using hd_sort_key(2) [OF ne, of "(j, row')" inbox_order] unfolding sorted
    by (simp add: inbox_order_def)
qed

lemma oldest_pending_None:
  assumes "jsmap_ok t" "oldest_pending c now t = None" "map_of t j = Some row"
  shows "\<not> pendingPredicate (Some c) now row"
proof
  assume "pendingPredicate (Some c) now row"
  then have "(j, row) \<in> set (select_rows (pendingPredicate (Some c) now) t)"
    using assms(1,3) by (simp add: set_select_rows)
  then have "sort_key inbox_order (select_rows (pendingPredicate (Some c) now) t) \<noteq> []"
    by (metis empty_iff list.set(1) set_sort)
  with assms(2) show False by (auto simp: oldest_pending_def split: list.splits)
qed

lemma held_back_iff:
  assumes "jsmap_ok t"
  shows "held_back c (i, row) now t \<longleftrightarrow>
     (\<exists>j head. map_of t j = Some head \<and> ib_conversationId head = c \<and> parkedHeadPredicate now head \<and>
        ib_createdAt head \<le> ib_createdAt row \<and> j \<noteq> i)"
  using assms by (auto simp: held_back_def list_ex_iff jsmap_values_iff) blast

text \<open>The health check counts only what the queue owes. If it reports an overdue event at some
  moment, then the event's conversation has an event that a drain would deliver at that moment:
  neither a parked event nor one that is held behind a parked event is ever counted.
\<close>

theorem overdue_event_is_deliverable:
  assumes table: "jsmap_ok t"
    and sessions: "\<And>i row. map_of t i = Some row \<Longrightarrow> ib_conversationId row \<noteq> []"
    and count: "countOverdueQueuedFastAgentParentEvents olderThan now t > 0"
  shows "\<exists>i row next. map_of t i = Some row \<and> overdue olderThan now t (i, row) \<and>
           getNextPendingEvent (ib_conversationId row) now now t = Some next"
proof -
  obtain i row where row: "map_of t i = Some row" and over: "overdue olderThan now t (i, row)"
    using count table
    by (auto simp: countOverdueQueuedFastAgentParentEvents_def filter_empty_conv jsmap_values_iff)
  let ?c = "ib_conversationId row"
  have pending: "pendingPredicate (Some ?c) now row"
    using over by (simp add: overdue_def pendingPredicate_def)
  then obtain k first where oldest: "oldest_pending ?c now t = Some (k, first)"
    using oldest_pending_None [OF table _ row] by (cases "oldest_pending ?c now t") auto
  have older: "ib_createdAt first \<le> ib_createdAt row"
    using oldest_pending_Some(3) [OF table oldest row pending] by (auto simp: less_eq_prod_simp)
  have "\<not> held_back ?c (k, first) now t"
  proof
    assume "held_back ?c (k, first) now t"
    then obtain j head where head: "map_of t j = Some head" "ib_conversationId head = ?c"
        "parkedHeadPredicate now head" "ib_createdAt head \<le> ib_createdAt first"
      by (auto simp: held_back_iff [OF table])
    have "j \<noteq> i" using head(1,3) row pending
      by (auto simp: parkedHeadPredicate_def pendingPredicate_def after_def up_to_def split: option.splits)
    moreover have "(j, head) \<in> set t" using head(1) by (rule map_of_SomeD)
    ultimately show False
      using over head older by (auto simp: overdue_def list_ex_iff parkedHeadPredicate_def)
  qed
  then have "getNextPendingEvent ?c now now t = Some (k, first)"
    using oldest by (simp add: getNextPendingEvent_def)
  then show ?thesis using row over by blast
qed

text \<open>
  The two clock readings of \<open>getNextPendingEvent\<close> matter: a parked event whose time comes between
  them is not pending for the first query and no longer parked for the second, and the event
  behind it is answered.
\<close>

definition race_row :: "string \<Rightarrow> ms \<Rightarrow> ms option \<Rightarrow> inbox_row" where
  "race_row key created retryAt =
     (new_event (example_admission\<lparr>ad_eventKey := key\<rparr>) None False None created)
       \<lparr>ib_attempts := (if retryAt = None then 0 else 1), ib_retryAt := retryAt\<rparr>"

definition race_inbox :: inbox where
  "race_inbox = [(''first'', race_row ''k1'' 1000 (Some 31000)), (''second'', race_row ''k2'' 2000 None)]"

lemma retry_due_between_the_queries:
  "getNextPendingEvent ''s'' 31000 31000 race_inbox = Some (''first'', race_row ''k1'' 1000 (Some 31000))"
  "getNextPendingEvent ''s'' 30999 30999 race_inbox = None"
  "getNextPendingEvent ''s'' 30999 31000 race_inbox = Some (''second'', race_row ''k2'' 2000 None)"
  by code_simp+

theorem overdue_event_is_deliverable_witness:
  "\<exists>i row next. map_of race_inbox i = Some row \<and> overdue 50000 60000 race_inbox (i, row) \<and>
     getNextPendingEvent (ib_conversationId row) 60000 60000 race_inbox = Some next"
proof (rule overdue_event_is_deliverable)
  show "jsmap_ok race_inbox" by (simp add: race_inbox_def jsmap_ok_def)
  show "ib_conversationId row \<noteq> []" if "map_of race_inbox i = Some row" for i row
    using that by (auto simp: race_inbox_def race_row_def new_event_def example_admission_def
        example_parent_def split: if_splits)
  show "countOverdueQueuedFastAgentParentEvents 50000 60000 race_inbox > 0" by code_simp
qed

end
