(* ===== verification/InboxDrain.thy ===== *)
theory InboxDrain
  imports SessionInbox SessionWakeups CustomAutomations
begin

section \<open>Draining an inbox\<close>

text \<open>
  \<open>drainFastAgentParentEvents\<close>: a worker that delivers the pending events of one conversation in the
  order of their creation, under the conversation's turn lock. It settles what cannot be read and
  what has been tried too often, asks for the artifact's claim, counts the attempt, delivers, and
  records the outcome with the automation or the wakeup the event came from before it settles the
  row. Each query and each statement is a step of its own, since other processes work on the same
  rows in between. The reading of dates is the argument \<open>parse\<close>; a statement that fails is not
  modelled apart from the crash of the whole worker.
\<close>

subsection \<open>The database the drain works on\<close>

record inbox_db =
  in_rows :: inbox
  in_wakeups :: wakeups
  in_automations :: automations
  in_results :: "(nat, js_record) jsmap"
  in_jobs :: "inbox_job list"
  in_locks :: "(string, nat) jsmap"

definition buildFastAgentTurnLockKey :: "fast_parent \<Rightarrow> string" where
  "buildFastAgentTurnLockKey p =
     ''fast-agent:conversation-lock:'' @ fp_surface p @ '':'' @ fp_workspaceId p @ '':'' @
     fp_conversationId p"

subsection \<open>The claim of an artifact's notification\<close>

text \<open>
  \<open>artifact-notification-claim.ts\<close>, \<open>fast-agent-delivery-claim.ts\<close>: the marker in a run's result. It is
  free, queued, a lease \<open>delivering:<ms>\<close> of the older protocol, or the sign that the delivery is over.
\<close>

definition DELIVERY_LEASE_MS :: ms where
  "DELIVERY_LEASE_MS = 15 * 60 * 1000"

text \<open>The claim reads the digits after the first colon, the expiry all that follows it.\<close>

definition lease_start :: "string \<Rightarrow> ms option" where
  "lease_start digits =
     (if digits \<noteq> [] \<and> list_all is_digit digits then Some (int (digits_val digits)) else None)"

definition lease_text :: "jsv \<Rightarrow> string option" where
  "lease_text marker =
     (case asString marker of
        None \<Rightarrow> None
      | Some s \<Rightarrow> if starts_with ''delivering:'' s then Some (drop 11 s) else None)"

definition getDeliveryClaimExpiry :: "jsv \<Rightarrow> ms option" where
  "getDeliveryClaimExpiry marker =
     map_option (\<lambda>t. t + DELIVERY_LEASE_MS + 1) (Option.bind (lease_text marker) lease_start)"

definition buildDeliveryClaimPredicate :: "jsv \<Rightarrow> ms \<Rightarrow> bool" where
  "buildDeliveryClaimPredicate marker now \<longleftrightarrow>
     marker = JUndefined \<or>
     (case Option.bind (lease_text marker) (\<lambda>s. lease_start (takeWhile (\<lambda>c. c \<noteq> CHR '':'') s)) of
        None \<Rightarrow> False | Some t \<Rightarrow> t < now - DELIVERY_LEASE_MS)"

datatype artifact_claim = ArtifactQueued | ArtifactDelivered | ArtifactInProgress ms | ArtifactChanged

definition claimArtifactNotificationDelivery ::
    "nat \<Rightarrow> string \<Rightarrow> ms \<Rightarrow> (nat, js_record) jsmap \<Rightarrow> (nat, js_record) jsmap \<times> artifact_claim" where
  "claimArtifactNotificationDelivery runId artifactId now results =
     (case map_of results runId of
        None \<Rightarrow> (results, ArtifactDelivered)
      | Some result \<Rightarrow>
          let key = ''fastAgentArtifact:'' @ artifactId; marker = rec_get result key in
          if buildDeliveryClaimPredicate marker now
          then (AList.update runId (rec_set key (JStr ''queued'') result) results, ArtifactQueued)
          else if marker = JNull then (results, ArtifactChanged)
          else if marker = JStr ''queued'' then (results, ArtifactQueued)
          else case getDeliveryClaimExpiry marker of
                 Some retryAt \<Rightarrow> (results, ArtifactInProgress retryAt)
               | None \<Rightarrow> (results, ArtifactDelivered))"

subsection \<open>Outcomes\<close>

text \<open>The launch an automation's event settles: automation, claim and time of the run.\<close>

record automation_identity =
  id_automation :: string
  id_lastRunAt :: ms
  id_launchClaimedAt :: "ms option"

definition getAutomationOutcomeIdentity ::
    "(string \<Rightarrow> ms option) \<Rightarrow> ms \<Rightarrow> jsv \<Rightarrow> automation_identity option" where
  "getAutomationOutcomeIdentity parse now event =
     (let automationId = event_text event ''automationId'';
          eventId = event_text event ''eventId'';
          prefix = automationId @ '':'';
          webhook = (event_string event ''trigger'' = Some ''webhook'');
          rest = drop (length prefix) eventId in
      if event_type event \<noteq> Some ''automation_triggered'' then None
      else if \<not> starts_with prefix eventId then None
      else if webhook \<and> \<not> starts_with (prefix @ ''webhook:'') eventId then None
      else
        case (if truthy (event_string event ''occurrenceAt'')
              then Option.bind (event_string event ''occurrenceAt'') parse
              else if webhook then Some now else parse rest) of
          None \<Rightarrow> None
        | Some occurrenceAt \<Rightarrow>
            if webhook
            then Some \<lparr>id_automation = automationId, id_lastRunAt = occurrenceAt,
                       id_launchClaimedAt = None\<rparr>
            else
              (case parse (nullish_or (event_string event ''launchClaimedAt'') rest) of
                 None \<Rightarrow> None
               | Some claim \<Rightarrow>
                   Some \<lparr>id_automation = automationId, id_lastRunAt = occurrenceAt,
                         id_launchClaimedAt = Some claim\<rparr>))"

text \<open>What settles a row: the delivery, or an error for which it is given up.\<close>

datatype settling = AsDelivered | AsDiscarded string

definition finalizeAutomationLaunch ::
    "(string \<Rightarrow> ms option) \<Rightarrow> ms \<Rightarrow> jsv \<Rightarrow> settling \<Rightarrow> automations \<Rightarrow> automations" where
  "finalizeAutomationLaunch parse now event settling t =
     (case getAutomationOutcomeIdentity parse now event of
        None \<Rightarrow> t
      | Some identity \<Rightarrow>
          fst (recordCustomAutomationRunOutcome (id_automation identity)
                 \<lparr>op_outcome = (case settling of AsDelivered \<Rightarrow> RunSucceeded
                                | AsDiscarded error \<Rightarrow> RunFailed (Some error)),
                  op_at = None, op_lastLaunchedTaskId = None,
                  op_lastRunAt = RunAt (id_lastRunAt identity),
                  op_launchClaimedAt = id_launchClaimedAt identity\<rparr> now t))"

definition wakeup_of :: "jsv \<Rightarrow> string option" where
  "wakeup_of event =
     (if event_type event = Some ''scheduled_wakeup'' then Some (event_text event ''wakeupId'')
      else None)"

definition wakeup_outcome :: "settling \<Rightarrow> turn_outcome" where
  "wakeup_outcome settling =
     (case settling of AsDelivered \<Rightarrow> TurnSucceeded | AsDiscarded error \<Rightarrow> TurnFailed (Some error))"

subsection \<open>The drain\<close>

text \<open>
  How a delivery ends: it returns, it says that the turn scheduled its own retry, or it throws, and
  then it tells whether the reply was posted, whether no retry can succeed, and whether the
  inference failure is a terminal one.
\<close>

datatype delivery =
    DeliveryOk
  | DeliveryRetryScheduled
  | DeliveryFailed (df_replyPosted: bool) (df_permanent: bool) (df_terminal: bool) (df_message: string)

datatype drain_end = Drained | ParentBusy | DrainThrew string

text \<open>
  The places of the loop. \<open>Held now next\<close> is between the two queries, the first of them made at \<open>now\<close>.
\<close>

datatype drain_pc =
    FirstLook
  | FirstHeld "string \<times> inbox_row"
  | TakeLock "string \<times> inbox_row"
  | Look
  | Held ms "string \<times> inbox_row"
  | Examine string inbox_row
  | Deliver string inbox_row
  | FinishAutomation string inbox_row settling
  | FinishWakeup string inbox_row settling
  | RetireWakeup string inbox_row settling
  | Mark string inbox_row settling
  | Recheck string inbox_row
  | Unlock drain_end
  | DrainEnded drain_end

record drain =
  dr_conversation :: string
  dr_token :: nat
  dr_lockKey :: string
  dr_pc :: drain_pc

text \<open>What follows a delivery; a row that was admitted inline settles itself.\<close>

definition after_delivery ::
    "ms \<Rightarrow> string \<Rightarrow> inbox_row \<Rightarrow> delivery \<Rightarrow> string \<Rightarrow> inbox_db \<Rightarrow> inbox_db \<times> drain_pc" where
  "after_delivery now i row outcome conversation db =
     (case outcome of
        DeliveryOk \<Rightarrow>
          (db, if ib_inline row then Recheck i row else FinishAutomation i row AsDelivered)
      | DeliveryRetryScheduled \<Rightarrow> (db, Unlock Drained)
      | DeliveryFailed replyPosted permanent terminal error \<Rightarrow>
          if replyPosted then (db, FinishAutomation i row AsDelivered)
          else if permanent \<or> terminal then (db, FinishAutomation i row (AsDiscarded error))
          else if ib_inline row
          then (db\<lparr>in_rows := note_inline_error i error now (in_rows db)\<rparr>, Unlock (DrainThrew error))
          else
            let retryAt = now + getFastAgentParentEventRetryDelayMs (int (ib_attempts row) + 1) in
            (db\<lparr>in_rows := park_event i error retryAt now (in_rows db),
                in_jobs := wakeFastAgentParentEventAt conversation (ib_eventKey row) retryAt now
                             (in_jobs db)\<rparr>, Unlock Drained))"

text \<open>The event that was read: invalid, given up, waiting for its artifact, or attempted.\<close>

definition examine ::
    "ms \<Rightarrow> string \<Rightarrow> inbox_row \<Rightarrow> string \<Rightarrow> inbox_db \<Rightarrow> inbox_db \<times> drain_pc" where
  "examine now i row conversation db =
     (if fp_sessionId (ib_parent row) \<noteq> conversation \<or> \<not> isFastAgentParentEvent (ib_event row)
      then (db\<lparr>in_rows := markDiscarded i ''Queued Fast parent event was invalid.'' now (in_rows db)\<rparr>,
            Look)
      else
        case getAbandonReason now row of
          Some r \<Rightarrow> (db, FinishAutomation i row (AsDiscarded (abandon_error r row)))
        | None \<Rightarrow>
            let event = ib_event row;
                artifact = (event_type event = Some ''artifact_published'');
                claim = claimArtifactNotificationDelivery
                          (case get_prop event ''runId'' of JNum n \<Rightarrow> nat n | _ \<Rightarrow> 0)
                          (event_text (get_prop event ''artifact'') ''id'') now (in_results db);
                db1 = (if artifact then db\<lparr>in_results := fst claim\<rparr> else db) in
            if artifact \<and> snd claim = ArtifactDelivered
            then (db1\<lparr>in_rows := markDelivered i now (in_rows db1)\<rparr>, Look)
            else if artifact \<and> snd claim = ArtifactChanged
            then (db1, Unlock (DrainThrew ''Artifact notification ownership changed; retry confirmation.''))
            else
              case (if artifact then snd claim else ArtifactQueued) of
                ArtifactInProgress retryAt \<Rightarrow>
                  (db1\<lparr>in_rows := hold_artifact_event i retryAt now (in_rows db1),
                       in_jobs := wakeFastAgentParentEventAt conversation (ib_eventKey row) retryAt now
                                    (in_jobs db1)\<rparr>, Unlock Drained)
              | _ \<Rightarrow>
                  (case start_attempt i (ib_inline row) now (in_rows db1) of
                     (rows, started) \<Rightarrow>
                       (db1\<lparr>in_rows := rows\<rparr>, if started then Deliver i row else Look)))"

definition drain_step ::
    "(string \<Rightarrow> ms option) \<Rightarrow> ms \<Rightarrow> delivery \<Rightarrow> drain \<Rightarrow> inbox_db \<Rightarrow> inbox_db \<times> drain" where
  "drain_step parse now outcome d db =
     (let c = dr_conversation d; go = (\<lambda>pc. d\<lparr>dr_pc := pc\<rparr>) in
      case dr_pc d of
        FirstLook \<Rightarrow>
          (db, go (case oldest_pending c now (in_rows db) of
                     None \<Rightarrow> DrainEnded Drained | Some next \<Rightarrow> FirstHeld next))
      | FirstHeld next \<Rightarrow>
          (db, go (if held_back c next now (in_rows db) then DrainEnded Drained else TakeLock next))
      | TakeLock (i, row) \<Rightarrow>
          if fp_sessionId (ib_parent row) \<noteq> c
          then (db\<lparr>in_rows := markDiscarded i ''Queued parent identity did not match.'' now (in_rows db)\<rparr>,
                go FirstLook)
          else
            let key = buildFastAgentTurnLockKey (ib_parent row) in
            if map_of (in_locks db) key = None
            then (db\<lparr>in_locks := AList.update key (dr_token d) (in_locks db)\<rparr>,
                  d\<lparr>dr_lockKey := key, dr_pc := Look\<rparr>)
            else (db, go (DrainEnded ParentBusy))
      | Look \<Rightarrow>
          (db, go (case oldest_pending c now (in_rows db) of
                     None \<Rightarrow> Unlock Drained | Some next \<Rightarrow> Held now next))
      | Held seen (i, row) \<Rightarrow>
          (db, go (if held_back c (i, row) now (in_rows db) then Unlock Drained else Examine i row))
      | Examine i row \<Rightarrow> (case examine now i row c db of (db', pc) \<Rightarrow> (db', go pc))
      | Deliver i row \<Rightarrow> (case after_delivery now i row outcome c db of (db', pc) \<Rightarrow> (db', go pc))
      | FinishAutomation i row settling \<Rightarrow>
          (db\<lparr>in_automations :=
                finalizeAutomationLaunch parse now (ib_event row) settling (in_automations db)\<rparr>,
           go (FinishWakeup i row settling))
      | FinishWakeup i row settling \<Rightarrow>
          (case wakeup_of (ib_event row) of
             None \<Rightarrow> (db, go (Mark i row settling))
           | Some w \<Rightarrow>
               (case record_count w (wakeup_outcome settling) now (in_wakeups db) of
                  (wakeups, found) \<Rightarrow>
                    (db\<lparr>in_wakeups := wakeups\<rparr>,
                     go (case found of
                           None \<Rightarrow> Mark i row settling
                         | Some wakeup \<Rightarrow>
                             if settling = AsDelivered \<or> \<not> must_retire wakeup
                             then Mark i row settling else RetireWakeup i row settling))))
      | RetireWakeup i row settling \<Rightarrow>
          (db\<lparr>in_wakeups := fst (retire_wakeup (event_text (ib_event row) ''wakeupId'') now
                                   (in_wakeups db))\<rparr>, go (Mark i row settling))
      | Mark i row settling \<Rightarrow>
          (db\<lparr>in_rows := (case settling of
                AsDelivered \<Rightarrow> markDelivered i now (in_rows db)
              | AsDiscarded error \<Rightarrow> markDiscarded i error now (in_rows db))\<rparr>, go Look)
      | Recheck i row \<Rightarrow> (db, go (if isStillPending i (in_rows db) then Unlock Drained else Look))
      | Unlock end_ \<Rightarrow>
          (db\<lparr>in_locks :=
                (if map_of (in_locks db) (dr_lockKey d) = Some (dr_token d)
                 then AList.delete (dr_lockKey d) (in_locks db) else in_locks db)\<rparr>,
           go (DrainEnded end_))
      | DrainEnded end_ \<Rightarrow> (db, d))"

text \<open>A job of the queue starts a drain of its conversation.\<close>

definition new_drain :: "string \<Rightarrow> nat \<Rightarrow> drain" where
  "new_drain conversation token =
     \<lparr>dr_conversation = conversation, dr_token = token, dr_lockKey = [], dr_pc = FirstLook\<rparr>"

text \<open>Another owner of the lock, when it releases it, wakes the queue for the next row.\<close>

definition wakeFastAgentParentEventsOnTurnRelease ::
    "string \<Rightarrow> ms \<Rightarrow> ms \<Rightarrow> inbox_db \<Rightarrow> inbox_db" where
  "wakeFastAgentParentEventsOnTurnRelease conversation now now' db =
     (case getNextPendingEvent conversation now now' (in_rows db) of
        None \<Rightarrow> db
      | Some (i, row) \<Rightarrow>
          db\<lparr>in_jobs := wakeFastAgentParentEventAfterRelease conversation (ib_eventKey row) now'
                          (in_jobs db)\<rparr>)"

end
