(* ===== verification/InboxSystem.thy ===== *)
theory InboxSystem
  imports InboxDrain
begin

section \<open>Everyone who works on an inbox\<close>

text \<open>
  Any number of drains beside the turns that processes admit and run themselves, the messages
  steered into a running turn, publications of artifacts, the queued messages of the web page, and
  crashes. A lock of a live owner is lost only in runs with \<open>lapses\<close>; runs with \<open>races\<close> may see
  a retry come due between the two queries of a drain's look.
\<close>

subsection \<open>The system\<close>

datatype inbox_log = Started string | Counted string settling

text \<open>
  Turns that run in a process of their own are \<open>(token, lock key, durable row)\<close>; steers are the rows
  an owner of a lock is delivering into its turn. The last three fields are a history: the rows that
  ever carried a claim, the rows their senders withdrew, the attempts and outcomes of the drains.
\<close>

record inbox_system =
  is_db :: inbox_db
  is_clock :: ms
  is_drains :: "drain list"
  is_turns :: "(nat \<times> string \<times> string option) list"
  is_steers :: "(nat \<times> string) list"
  is_reservations :: "(string \<times> ms) list"
  is_prompts :: "(string \<times> string) list"
  is_touched :: "string list"
  is_withdrawn :: "string list"
  is_log :: "inbox_log list"

definition is_rows :: "inbox_system \<Rightarrow> inbox" where
  "is_rows s = in_rows (is_db s)"

definition set_rows :: "inbox \<Rightarrow> inbox_system \<Rightarrow> inbox_system" where
  "set_rows t s = s\<lparr>is_db := (is_db s)\<lparr>in_rows := t\<rparr>\<rparr>"

text \<open>What other components do to the tables they share with the drain.\<close>

datatype inbox_op =
    OpEnqueue event_admission "nat option" string
  | OpEnqueueForRun event_admission "run_status option" string
  | OpPublishArtifact event_admission "ms option" string
  | OpAdmitInline event_admission string
  | OpWithdrawAdmission string
  | OpRenewTurn string
  | OpReleaseTurn string
  | OpRevokeTurn string string
  | OpScheduleTurnRetry string ms nat string
  | OpTurnDelivered string
  | OpClaimSteers nat "string list"
  | OpPersistPrompt string string
  | OpSteersDelivered "string list"
  | OpReleaseSteers nat "string list"
  | OpDiscardUnreadable string
  | OpReserve string string
  | OpReleaseReservation string ms
  | OpWithdraw string string string string
  | OpTurnReleased string ms
  | OpRecover
  | OpOtherTables wakeups automations "(nat, js_record) jsmap" "inbox_job list"

definition persisted_in :: "string \<Rightarrow> inbox_system \<Rightarrow> string \<Rightarrow> bool" where
  "persisted_in conversation s eventId \<longleftrightarrow> (conversation, eventId) \<in> set (is_prompts s)"

fun inbox_op_step :: "ms \<Rightarrow> inbox_op \<Rightarrow> inbox_system \<Rightarrow> inbox_system" where
  "inbox_op_step now (OpEnqueue a retryRun newId) s =
     set_rows (enqueueFastAgentParentEvent_row a retryRun newId now (is_rows s)) s"
| "inbox_op_step now (OpEnqueueForRun a run newId) s =
     set_rows (fst (enqueueFastAgentParentEventForRun a run newId now (is_rows s))) s"
| "inbox_op_step now (OpPublishArtifact a retryAt newId) s =
     set_rows (publish_artifact_event a retryAt newId now (is_rows s)) s"
| "inbox_op_step now (OpAdmitInline a newId) s =
     set_rows (fst (admitFastAgentInlineHumanTurn a newId now (is_rows s))) s"
| "inbox_op_step now (OpWithdrawAdmission key) s =
     set_rows (withdraw_admission key now (is_rows s)) s"
| "inbox_op_step now (OpRenewTurn i) s =
     set_rows (fst (renewFastAgentDurableTurnClaim i now (is_rows s))) s"
| "inbox_op_step now (OpReleaseTurn i) s =
     set_rows (fst (releaseFastAgentDurableTurnClaim i now (is_rows s))) s"
| "inbox_op_step now (OpRevokeTurn i reason) s =
     set_rows (fst (revokeFastAgentDurableTurnReplay i reason now (is_rows s))) s"
| "inbox_op_step now (OpScheduleTurnRetry i retryAt retries reason) s =
     set_rows (fst (scheduleFastAgentDurableTurnRetry i retryAt retries reason now (is_rows s))) s"
| "inbox_op_step now (OpTurnDelivered i) s =
     set_rows (fst (markFastAgentDurableTurnDelivered i now (is_rows s))) s"
| "inbox_op_step now (OpClaimSteers token ids) s =
     (case claimFastAgentHumanFollowUpSteers ids now (is_rows s) of
        (t, claimed) \<Rightarrow>
          set_rows t s\<lparr>is_steers := is_steers s @ map (\<lambda>i. (token, i)) claimed\<rparr>)"
| "inbox_op_step now (OpPersistPrompt conversation eventId) s =
     s\<lparr>is_prompts := (conversation, eventId) # is_prompts s\<rparr>"
| "inbox_op_step now (OpSteersDelivered ids) s =
     set_rows (markFastAgentHumanFollowUpsDelivered ids now (is_rows s)) s"
| "inbox_op_step now (OpReleaseSteers token ids) s =
     set_rows (releaseFastAgentHumanFollowUpSteerClaims ids now (is_rows s)) s
       \<lparr>is_steers := filter (\<lambda>(tok, i). \<not> (tok = token \<and> i \<in> set ids)) (is_steers s)\<rparr>"
| "inbox_op_step now (OpDiscardUnreadable i) s =
     set_rows (discard_unreadable_follow_up i now (is_rows s)) s"
| "inbox_op_step now (OpReserve sessionId clientMessageId) s =
     (case reserveFastSessionQueuedMessageForSteer sessionId clientMessageId
             (persisted_in sessionId s) now (is_rows s) of
        (t, Reserved i key token) \<Rightarrow>
          set_rows t s\<lparr>is_reservations := (i, token) # is_reservations s\<rparr>
      | (t, _) \<Rightarrow> set_rows t s)"
| "inbox_op_step now (OpReleaseReservation i token) s =
     set_rows (releaseFastSessionQueuedMessageSteerReservation i token now (is_rows s)) s"
| "inbox_op_step now (OpWithdraw sessionId clientMessageId userId picked) s =
     (case withdrawFastSessionQueuedMessage sessionId clientMessageId userId (Some picked)
             (persisted_in sessionId s) now (is_rows s) of
        (t, Withdrawn) \<Rightarrow> set_rows t s\<lparr>is_withdrawn := picked # is_withdrawn s\<rparr>
      | (t, _) \<Rightarrow> set_rows t s)"
| "inbox_op_step now (OpTurnReleased conversation later) s =
     s\<lparr>is_db := wakeFastAgentParentEventsOnTurnRelease conversation now later (is_db s)\<rparr>"
| "inbox_op_step now OpRecover s =
     s\<lparr>is_db := (is_db s)\<lparr>in_jobs :=
        fst (recoverPendingFastAgentParentEvents now (is_rows s) (in_jobs (is_db s)))\<rparr>\<rparr>"
| "inbox_op_step now (OpOtherTables wakeups automations results jobs) s =
     s\<lparr>is_db := (is_db s)\<lparr>in_wakeups := wakeups, in_automations := automations,
                            in_results := results, in_jobs := jobs\<rparr>\<rparr>"

subsection \<open>When an operation is made\<close>

text \<open>
  An admission has a fresh row id, and its parent is the conversation's: the conversation's lock
  key is a function of its id. A turn writes to the row it was admitted with, if that is not an
  inline row only while it runs; who steers owns the lock of the rows, and does not steer its own row;
  a reservation is released with the token it was made with.
\<close>

definition fresh_row :: "(string \<Rightarrow> string) \<Rightarrow> event_admission \<Rightarrow> string \<Rightarrow> inbox_system \<Rightarrow> bool" where
  "fresh_row key_of a newId s \<longleftrightarrow>
     map_of (is_rows s) newId = None \<and>
     buildFastAgentTurnLockKey (ad_parent a) = key_of (fp_sessionId (ad_parent a))"

definition turn_may_write :: "string \<Rightarrow> inbox_system \<Rightarrow> bool" where
  "turn_may_write i s \<longleftrightarrow>
     (\<forall>row. map_of (is_rows s) i = Some row \<longrightarrow>
        ib_inline row \<or> (\<exists>token key. (token, key, Some i) \<in> set (is_turns s)))"

definition delivers_row :: "nat \<Rightarrow> string \<Rightarrow> inbox_system \<Rightarrow> bool" where
  "delivers_row token i s \<longleftrightarrow>
     (\<exists>d \<in> set (is_drains s). dr_token d = token \<and> (\<exists>row. dr_pc d = Deliver i row))"

definition may_steer :: "(string \<Rightarrow> string) \<Rightarrow> nat \<Rightarrow> string \<Rightarrow> inbox_system \<Rightarrow> bool" where
  "may_steer key_of token i s \<longleftrightarrow>
     (\<forall>row. map_of (is_rows s) i = Some row \<longrightarrow>
        (\<exists>own. (token, key_of (ib_conversationId row), own) \<in> set (is_turns s) \<and> own \<noteq> Some i) \<or>
        (\<exists>d \<in> set (is_drains s). dr_token d = token \<and> dr_conversation d = ib_conversationId row \<and>
           (\<exists>j r. dr_pc d = Deliver j r \<and> j \<noteq> i)))"

fun op_allowed :: "(string \<Rightarrow> string) \<Rightarrow> inbox_op \<Rightarrow> inbox_system \<Rightarrow> bool" where
  "op_allowed key_of (OpEnqueue a retryRun newId) s \<longleftrightarrow> fresh_row key_of a newId s"
| "op_allowed key_of (OpEnqueueForRun a run newId) s \<longleftrightarrow> fresh_row key_of a newId s"
| "op_allowed key_of (OpPublishArtifact a retryAt newId) s \<longleftrightarrow> fresh_row key_of a newId s \<and>
     (\<forall>i row. find_event (ad_eventKey a) (is_rows s) = Some (i, row) \<longrightarrow>
        event_type (ib_event row) = Some ''artifact_published'')"
| "op_allowed key_of (OpAdmitInline a newId) s \<longleftrightarrow> fresh_row key_of a newId s"
| "op_allowed key_of (OpRenewTurn i) s \<longleftrightarrow> turn_may_write i s"
| "op_allowed key_of (OpReleaseTurn i) s \<longleftrightarrow> turn_may_write i s"
| "op_allowed key_of (OpRevokeTurn i reason) s \<longleftrightarrow> turn_may_write i s"
| "op_allowed key_of (OpScheduleTurnRetry i retryAt retries reason) s \<longleftrightarrow> turn_may_write i s"
| "op_allowed key_of (OpTurnDelivered i) s \<longleftrightarrow> turn_may_write i s"
| "op_allowed key_of (OpClaimSteers token ids) s \<longleftrightarrow>
     (\<forall>i \<in> set ids. may_steer key_of token i s \<and>
        (\<forall>row. map_of (is_rows s) i = Some row \<longrightarrow>
           event_type (ib_event row) = Some ''human_follow_up''))"
| "op_allowed key_of (OpReleaseSteers token ids) s \<longleftrightarrow> (\<forall>i \<in> set ids. (token, i) \<in> set (is_steers s))"
| "op_allowed key_of (OpReleaseReservation i token) s \<longleftrightarrow> (i, token) \<in> set (is_reservations s)"
| "op_allowed key_of _ s \<longleftrightarrow> True"

subsection \<open>Steps\<close>

definition step_log :: "drain_pc \<Rightarrow> drain_pc \<Rightarrow> inbox_log list" where
  "step_log pc pc' =
     (case pc of
        Examine i row \<Rightarrow> (case pc' of Deliver j r \<Rightarrow> [Started i] | _ \<Rightarrow> [])
      | FinishWakeup i row settling \<Rightarrow> [Counted i settling]
      | _ \<Rightarrow> [])"

definition used_tokens :: "inbox_system \<Rightarrow> nat set" where
  "used_tokens s = dr_token ` set (is_drains s) \<union> fst ` set (is_turns s) \<union>
     snd ` set (in_locks (is_db s)) \<union> fst ` set (is_steers s)"

text \<open>A retry of the conversation that comes due between two clock readings.\<close>

definition due_between :: "string \<Rightarrow> ms \<Rightarrow> ms \<Rightarrow> inbox \<Rightarrow> bool" where
  "due_between conversation seen now t \<longleftrightarrow>
     list_ex (\<lambda>(i, row). ib_conversationId row = conversation \<and> unsettled row \<and>
        \<not> ib_inline row \<and> after (ib_retryAt row) seen \<and> up_to (ib_retryAt row) now) t"

inductive inbox_step ::
    "bool \<Rightarrow> bool \<Rightarrow> (string \<Rightarrow> ms option) \<Rightarrow> (string \<Rightarrow> string) \<Rightarrow> inbox_system \<Rightarrow> inbox_system \<Rightarrow> bool"
  for lapses races parse key_of where
  operation:
    "is_clock s \<le> now \<Longrightarrow> op_allowed key_of op s \<Longrightarrow>
     inbox_step lapses races parse key_of s (inbox_op_step now op s\<lparr>is_clock := now\<rparr>)"
| start_drain:
    "token \<notin> used_tokens s \<Longrightarrow> conversation \<noteq> [] \<Longrightarrow>
     inbox_step lapses races parse key_of s
       (s\<lparr>is_drains := is_drains s @ [new_drain conversation token]\<rparr>)"
| drain:
    "is_clock s \<le> now \<Longrightarrow> n < length (is_drains s) \<Longrightarrow> is_drains s ! n = d \<Longrightarrow>
     drain_step parse now outcome d (is_db s) = (db, d') \<Longrightarrow>
     (\<forall>i row. dr_pc d = Deliver i row \<longrightarrow> dr_token d \<notin> fst ` set (is_steers s)) \<Longrightarrow>
     (races \<or> (\<forall>seen next. dr_pc d = Held seen next \<longrightarrow>
        \<not> due_between (dr_conversation d) seen now (is_rows s))) \<Longrightarrow>
     inbox_step lapses races parse key_of s
       (s\<lparr>is_db := db, is_clock := now, is_drains := (is_drains s)[n := d'],
          is_log := is_log s @ step_log (dr_pc d) (dr_pc d')\<rparr>)"
| drain_gone:
    "d \<in> set (is_drains s) \<Longrightarrow>
     inbox_step lapses races parse key_of s
       (s\<lparr>is_drains := filter (\<lambda>e. dr_token e \<noteq> dr_token d) (is_drains s),
          is_steers := filter (\<lambda>(tok, i). tok \<noteq> dr_token d) (is_steers s)\<rparr>)"
| turn_begins:
    "token \<notin> used_tokens s \<Longrightarrow> map_of (in_locks (is_db s)) (key_of conversation) = None \<Longrightarrow>
     inbox_step lapses races parse key_of s
       (s\<lparr>is_db := (is_db s)\<lparr>in_locks :=
             AList.update (key_of conversation) token (in_locks (is_db s))\<rparr>,
          is_turns := (token, key_of conversation, None) # is_turns s\<rparr>)"
| turn_takes_row:
    "is_turns s = first @ (token, key, own) # rest \<Longrightarrow> map_of (is_rows s) i = Some row \<Longrightarrow>
     key = key_of (ib_conversationId row) \<Longrightarrow> (token, i) \<notin> set (is_steers s) \<Longrightarrow>
     inbox_step lapses races parse key_of s
       (s\<lparr>is_turns := first @ (token, key, Some i) # rest\<rparr>)"
| turn_ends:
    "(token, key, own) \<in> set (is_turns s) \<Longrightarrow> token \<notin> fst ` set (is_steers s) \<Longrightarrow>
     inbox_step lapses races parse key_of s
       (s\<lparr>is_db := (is_db s)\<lparr>in_locks :=
             (if map_of (in_locks (is_db s)) key = Some token
              then AList.delete key (in_locks (is_db s)) else in_locks (is_db s))\<rparr>,
          is_turns := filter (\<lambda>(tok, k, own'). tok \<noteq> token) (is_turns s)\<rparr>)"
| turn_crashes:
    "(token, key, own) \<in> set (is_turns s) \<Longrightarrow>
     inbox_step lapses races parse key_of s
       (s\<lparr>is_turns := filter (\<lambda>(tok, k, own'). tok \<noteq> token) (is_turns s),
          is_steers := filter (\<lambda>(tok, i). tok \<noteq> token) (is_steers s)\<rparr>)"
| lock_expires:
    "map_of (in_locks (is_db s)) key = Some token \<Longrightarrow>
     lapses \<or> token \<notin> dr_token ` set (is_drains s) \<union> fst ` set (is_turns s) \<Longrightarrow>
     inbox_step lapses races parse key_of s
       (s\<lparr>is_db := (is_db s)\<lparr>in_locks := AList.delete key (in_locks (is_db s))\<rparr>\<rparr>)"

text \<open>Every row that carries a claim is noted.\<close>

definition observed :: "inbox_system \<Rightarrow> inbox_system" where
  "observed s =
     s\<lparr>is_touched := is_touched s @
          map fst (filter (\<lambda>(i, row). ib_claimedUntil row \<noteq> None) (is_rows s))\<rparr>"

definition empty_inbox :: "ms \<Rightarrow> inbox_system" where
  "empty_inbox now =
     \<lparr>is_db = \<lparr>in_rows = [], in_wakeups = [], in_automations = [], in_results = [], in_jobs = [],
               in_locks = []\<rparr>,
      is_clock = now, is_drains = [], is_turns = [], is_steers = [], is_reservations = [],
      is_prompts = [], is_touched = [], is_withdrawn = [], is_log = []\<rparr>"

inductive reachable_inbox ::
    "bool \<Rightarrow> bool \<Rightarrow> (string \<Rightarrow> ms option) \<Rightarrow> (string \<Rightarrow> string) \<Rightarrow> inbox_system \<Rightarrow> bool"
  for lapses races parse key_of where
  empty: "reachable_inbox lapses races parse key_of (empty_inbox now)"
| step: "reachable_inbox lapses races parse key_of s \<Longrightarrow>
         inbox_step lapses races parse key_of s s' \<Longrightarrow>
         reachable_inbox lapses races parse key_of (observed s')"

end
