(* ===== verification/InboxRows.thy ===== *)
theory InboxRows
  imports InboxSystem
begin

section \<open>How the rows of an inbox change\<close>

text \<open>
  What each operation of \<open>InboxSystem\<close> and each step of a drain does to each row: which fields it may
  change, of which rows, and who may have changed them. The proofs of \<open>InboxSafety\<close> rest on these two
  descriptions instead of the statements.
\<close>

subsection \<open>How one row can change\<close>

definition same_event :: "inbox_row \<Rightarrow> inbox_row \<Rightarrow> bool" where
  "same_event r r' \<longleftrightarrow>
     ib_conversationId r' = ib_conversationId r \<and> ib_eventKey r' = ib_eventKey r \<and>
     ib_parent r' = ib_parent r \<and> ib_event r' = ib_event r \<and> ib_inline r' = ib_inline r \<and>
     ib_createdAt r' = ib_createdAt r"

text \<open>Its identity stays, a settled row stays settled and an attempt stays counted.\<close>

definition row_moves :: "inbox_row \<Rightarrow> inbox_row \<Rightarrow> bool" where
  "row_moves r r' \<longleftrightarrow>
     same_event r r' \<and> (ib_deliveredAt r \<noteq> None \<longrightarrow> ib_deliveredAt r' \<noteq> None) \<and>
     (ib_discardedAt r \<noteq> None \<longrightarrow> ib_discardedAt r' \<noteq> None) \<and> ib_attempts r \<le> ib_attempts r'"

lemma row_moves_refl [simp]: "row_moves r r"
  by (simp add: row_moves_def same_event_def)

lemma row_moves_trans: "row_moves r r' \<Longrightarrow> row_moves r' r'' \<Longrightarrow> row_moves r r''"
  by (auto simp: row_moves_def same_event_def)

lemma row_moves_fields:
  "row_moves r r' \<Longrightarrow> ib_conversationId r' = ib_conversationId r"
  "row_moves r r' \<Longrightarrow> ib_parent r' = ib_parent r"
  "row_moves r r' \<Longrightarrow> ib_event r' = ib_event r"
  "row_moves r r' \<Longrightarrow> ib_inline r' = ib_inline r"
  "row_moves r r' \<Longrightarrow> ib_createdAt r' = ib_createdAt r"
  "row_moves r r' \<Longrightarrow> unsettled r' \<Longrightarrow> unsettled r"
  by (auto simp: row_moves_def same_event_def unsettled_def)

text \<open>A row that was not there is new.\<close>

definition newborn :: "(string \<Rightarrow> string) \<Rightarrow> ms \<Rightarrow> inbox_row \<Rightarrow> bool" where
  "newborn key_of now r \<longleftrightarrow>
     ib_attempts r = 0 \<and> ib_retryAt r = None \<and> unsettled r \<and> ib_createdAt r = now \<and>
     ib_conversationId r = fp_sessionId (ib_parent r) \<and>
     buildFastAgentTurnLockKey (ib_parent r) = key_of (ib_conversationId r)"

text \<open>
  An operation keeps the attempts of a row. It keeps the retry time, unless the row is one whose
  turn may write to it. It takes a claim from a row in four ways only, and gives one in four.
\<close>

definition op_row :: "ms \<Rightarrow> inbox_op \<Rightarrow> string \<Rightarrow> inbox_system \<Rightarrow> inbox_row \<Rightarrow> inbox_row \<Rightarrow> bool" where
  "op_row now op i s r r' \<longleftrightarrow>
     row_moves r r' \<and> ib_attempts r' = ib_attempts r \<and>
     (ib_discardedAt r \<noteq> None \<longrightarrow> ib_deliveredAt r' = ib_deliveredAt r) \<and>
     (ib_retryAt r' = ib_retryAt r \<or> turn_may_write i s) \<and>
     (ib_claimedUntil r' = ib_claimedUntil r \<or> turn_may_write i s \<or>
      event_type (ib_event r) = Some ''artifact_published'' \<or>
      (\<exists>token ids. op = OpReleaseSteers token ids \<and> i \<in> set ids) \<or>
      (\<exists>token. op = OpReleaseReservation i token \<and> ib_claimedUntil r = Some token) \<or>
      (\<exists>session message. op = OpReserve session message \<and> ib_claimedUntil r = None) \<or>
      (\<exists>token ids. op = OpClaimSteers token ids \<and> unclaimed now r \<and>
         ib_claimedUntil r' = Some (now + FAST_AGENT_HUMAN_STEER_CLAIM_MS)))"

lemma op_rowI:
  "row_moves r r' \<Longrightarrow> ib_attempts r' = ib_attempts r \<Longrightarrow> ib_retryAt r' = ib_retryAt r \<Longrightarrow>
   (ib_discardedAt r \<noteq> None \<Longrightarrow> ib_deliveredAt r' = ib_deliveredAt r) \<Longrightarrow>
   ib_claimedUntil r' = ib_claimedUntil r \<Longrightarrow> op_row now op i s r r'"
  by (simp add: op_row_def)

lemma op_row_turn:
  "row_moves r r' \<Longrightarrow> ib_attempts r' = ib_attempts r \<Longrightarrow>
   (ib_discardedAt r \<noteq> None \<Longrightarrow> ib_deliveredAt r' = ib_deliveredAt r) \<Longrightarrow> turn_may_write i s \<Longrightarrow>
   op_row now op i s r r'"
  by (simp add: op_row_def)

lemma op_row_refl [simp]: "op_row now op i s r r"
  by (simp add: op_row_def)

lemma inline_may_write: "map_of (is_rows s) i = Some r \<Longrightarrow> ib_inline r \<Longrightarrow> turn_may_write i s"
  by (simp add: turn_may_write_def)

definition op_rows :: "(string \<Rightarrow> string) \<Rightarrow> ms \<Rightarrow> inbox_op \<Rightarrow> inbox_system \<Rightarrow> inbox \<Rightarrow> bool" where
  "op_rows key_of now op s t \<longleftrightarrow>
     (\<forall>i. case map_of (is_rows s) i of
            Some r \<Rightarrow> (\<exists>r'. map_of t i = Some r' \<and> op_row now op i s r r')
          | None \<Rightarrow> (\<forall>r'. map_of t i = Some r' \<longrightarrow> newborn key_of now r'))"

lemma op_rows_new:
  "op_rows key_of now op s t \<Longrightarrow> map_of (is_rows s) i = None \<Longrightarrow> map_of t i = Some r' \<Longrightarrow>
   newborn key_of now r'"
  unfolding op_rows_def by (drule spec [of _ i]) simp

lemma op_rows_old:
  "op_rows key_of now op s t \<Longrightarrow> map_of (is_rows s) i = Some r \<Longrightarrow>
   \<exists>r'. map_of t i = Some r' \<and> op_row now op i s r r'"
  unfolding op_rows_def by (drule spec [of _ i]) simp

lemma op_rows_refl [simp]: "op_rows key_of now op s (is_rows s)"
  by (auto simp: op_rows_def split: option.split)

lemma op_rows_update_where:
  assumes "\<And>r. map_of (is_rows s) i = Some r \<Longrightarrow> p r \<Longrightarrow> op_row now op i s r (f r)"
  shows "op_rows key_of now op s (fst (update_where i p f (is_rows s)))"
  using assms by (auto simp: op_rows_def table_ops split: option.split)

lemma op_rows_update_all:
  assumes "\<And>i r. map_of (is_rows s) i = Some r \<Longrightarrow> p r \<Longrightarrow> op_row now op i s r (f r)"
  shows "op_rows key_of now op s (fst (update_all p f (is_rows s)))"
  using assms by (auto simp: op_rows_def table_ops split: option.split)

lemma op_rows_update_ids:
  assumes "\<And>i r. i \<in> set ids \<Longrightarrow> map_of (is_rows s) i = Some r \<Longrightarrow> p r \<Longrightarrow> op_row now op i s r (f r)"
  shows "op_rows key_of now op s (fst (update_ids ids p f (is_rows s)))"
  using assms by (auto simp: op_rows_def table_ops split: option.split)

lemma newborn_event:
  "fresh_row key_of a newId s \<Longrightarrow> newborn key_of now (new_event a retryRun inlined claim now)"
  by (simp add: newborn_def new_event_def unsettled_def fresh_row_def)

lemma op_rows_insert:
  assumes "fresh_row key_of a newId s"
  shows "op_rows key_of now op s (insert_row newId (new_event a retryRun inlined claim now) (is_rows s))"
  using assms newborn_event [OF assms]
  by (auto simp: op_rows_def table_ops fresh_row_def split: option.split)

lemma op_rows_insert_event:
  assumes "fresh_row key_of a newId s"
  shows "op_rows key_of now op s
           (fst (insert_event newId (new_event a retryRun inlined claim now) (is_rows s)))"
  using op_rows_insert [OF assms] by (simp add: insert_event_def split: option.split)

text \<open>Two statements of one transaction, the second on rows that are inline.\<close>

lemma op_rows_inline:
  assumes "op_rows key_of now op s t"
    "\<And>i r r'. map_of t i = Some r' \<Longrightarrow> map_of (is_rows s) i = Some r \<Longrightarrow> p i r' \<Longrightarrow>
       ib_inline r' \<and> row_moves r' (f r') \<and> ib_attempts (f r') = ib_attempts r' \<and>
       ib_deliveredAt (f r') = ib_deliveredAt r'"
    "\<And>i r'. map_of t i = Some r' \<Longrightarrow> map_of (is_rows s) i = None \<Longrightarrow> p i r' \<Longrightarrow> f r' = r'"
    "\<And>i. map_of t' i = map_option (\<lambda>r. if p i r then f r else r) (map_of t i)"
  shows "op_rows key_of now op s t'"
  unfolding op_rows_def
proof (intro allI)
  fix i
  show "case map_of (is_rows s) i of
      None \<Rightarrow> \<forall>r'. map_of t' i = Some r' \<longrightarrow> newborn key_of now r'
    | Some r \<Rightarrow> \<exists>r'. map_of t' i = Some r' \<and> op_row now op i s r r'"
  proof (cases "map_of (is_rows s) i")
    case None
    have "newborn key_of now r''" if t': "map_of t' i = Some r''" for r''
    proof -
      obtain r' where r': "map_of t i = Some r'" "r'' = (if p i r' then f r' else r')"
        using t' assms(4) by auto
      then have "r'' = r'" using assms(3) [OF r'(1) None] by auto
      then show ?thesis using op_rows_new [OF assms(1) None r'(1)] by simp
    qed
    with None show ?thesis by simp
  next
    case (Some r)
    then obtain r' where r': "map_of t i = Some r'" "op_row now op i s r r'"
      using op_rows_old [OF assms(1)] by blast
    show ?thesis
    proof (cases "p i r'")
      case False
      with Some r' assms(4) show ?thesis by simp
    next
      case True
      have moved: "row_moves r' (f r')" "ib_inline r'" "ib_attempts (f r') = ib_attempts r'"
        "ib_deliveredAt (f r') = ib_deliveredAt r'"
        using assms(2) [OF r'(1) Some True] by auto
      have "turn_may_write i s"
        using inline_may_write [OF Some] moved(2) r'(2) row_moves_fields(4)
        by (auto simp: op_row_def)
      then have "op_row now op i s r (f r')"
        using moved r'(2) row_moves_trans by (auto simp: op_row_def)
      with Some r' True assms(4) show ?thesis by simp
    qed
  qed
qed

lemma is_rows_set_rows [simp]: "is_rows (set_rows t s) = t"
  by (simp add: is_rows_def set_rows_def)

lemma find_event_Some:
  assumes "find_event key t = Some (i, row)"
  shows "(i, row) \<in> set t" "ib_eventKey row = key"
  using assms nth_mem by (fastforce simp: find_event_def find_Some_iff)+

lemma map_of_updated_inbox:
  "map_of (fst (update_where k (\<lambda>row. True) f t)) i =
     map_option (\<lambda>r. if i = k then f r else r) (map_of t i)"
  by (cases "map_of t i") (auto simp: table_ops)

text \<open>The row a publication or a turn finds is the row of its id.\<close>

lemma find_event_row:
  "jsmap_ok t \<Longrightarrow> find_event key t = Some (i, row) \<Longrightarrow> map_of t i = Some row"
  using find_event_Some(1) [of key t i row] by (simp add: jsmap_values_iff)

lemmas moves_simps = row_moves_def same_event_def unsettled_def

lemma op_rows_publish:
  assumes table: "jsmap_ok (is_rows s)"
    and allowed: "op_allowed key_of (OpPublishArtifact a retryAt newId) s"
  shows "op_rows key_of now (OpPublishArtifact a retryAt newId) s
           (publish_artifact_event a retryAt newId now (is_rows s))"
proof (cases "find_event (ad_eventKey a) (is_rows s)")
  case None
  with allowed show ?thesis by (simp add: publish_artifact_event_def op_rows_insert)
next
  case (Some entry)
  obtain i row where entry: "entry = (i, row)" by (cases entry) auto
  have "event_type (ib_event row) = Some ''artifact_published''"
    using allowed Some entry by simp
  moreover have "map_of (is_rows s) i = Some row" using find_event_row [OF table] Some entry by simp
  ultimately show ?thesis
    by (auto simp: publish_artifact_event_def Some entry op_row_def moves_simps
        intro!: op_rows_update_where)
qed

lemma map_of_insert_event:
  "map_of (fst (insert_event newId row t)) i =
     (if i = newId \<and> find_event (ib_eventKey row) t = None then Some row else map_of t i)"
  by (auto simp: insert_event_def table_ops split: option.split)

lemma jsmap_ok_insert_event [simp]: "jsmap_ok t \<Longrightarrow> jsmap_ok (fst (insert_event newId row t))"
  by (simp add: insert_event_def split: option.split)

lemma map_option_SomeE:
  assumes "map_option f z = Some y" obtains x where "z = Some x" "y = f x"
  using assms by (cases z) auto

lemma op_rows_admit:
  assumes table: "jsmap_ok (is_rows s)" and allowed: "fresh_row key_of a newId s"
  shows "op_rows key_of now op s (fst (admitFastAgentInlineHumanTurn a newId now (is_rows s)))"
proof -
  let ?claim = "now + FAST_AGENT_DURABLE_TURN_CLAIM_MS"
  let ?new = "new_event a None True (Some ?claim) now"
  let ?ins = "insert_event newId ?new (is_rows s)"
  let ?take = "\<lambda>row :: inbox_row. row\<lparr>ib_claimedUntil := Some ?claim, ib_updatedAt := now\<rparr>"
  let ?older = "\<lambda>row. ib_conversationId row = fp_sessionId (ad_parent a) \<and> ib_inline row \<and>
                  ib_eventKey row \<noteq> ad_eventKey a \<and> unsettled row"
  have inserted: "op_rows key_of now op s (fst ?ins)"
    by (rule op_rows_insert_event [OF allowed])
  have only_new: "i = newId \<and> r' = ?new"
    if "map_of (fst ?ins) i = Some r'" "map_of (is_rows s) i = None" for i r'
    using that by (simp add: map_of_insert_event split: if_splits)
  have taken: "op_rows key_of now op s (fst (update_where i (\<lambda>row. True) ?take (fst ?ins)))"
    if "\<not> snd ?ins" "map_of (fst ?ins) i = Some row" "ib_inline row" for i row
  proof (rule op_rows_inline [OF inserted, where p = "\<lambda>j r. j = i" and f = ?take])
    have old: "fst ?ins = is_rows s" using that(1) by (simp add: insert_event_def split: option.splits)
    show "ib_inline r' \<and> row_moves r' (?take r') \<and> ib_attempts (?take r') = ib_attempts r' \<and>
          ib_deliveredAt (?take r') = ib_deliveredAt r'"
      if "map_of (fst ?ins) j = Some r'" "map_of (is_rows s) j = Some r" "j = i" for j r r'
      using that \<open>map_of (fst ?ins) i = Some row\<close> \<open>ib_inline row\<close> by (simp add: moves_simps)
    show "?take r' = r'"
      if "map_of (fst ?ins) j = Some r'" "map_of (is_rows s) j = None" "j = i" for j r'
      using that old by simp
  qed (rule map_of_updated_inbox)
  have ended: "op_rows key_of now op s (fst (update_all ?older (superseded now) t))"
    if t: "op_rows key_of now op s t"
      and new: "\<And>i r'. map_of t i = Some r' \<Longrightarrow> map_of (is_rows s) i = None \<Longrightarrow>
                  ib_eventKey r' = ad_eventKey a" for t
  proof (rule op_rows_inline [OF t, where p = "\<lambda>j r. ?older r" and f = "superseded now"])
    show "ib_inline r' \<and> row_moves r' (superseded now r') \<and>
          ib_attempts (superseded now r') = ib_attempts r' \<and>
          ib_deliveredAt (superseded now r') = ib_deliveredAt r'" if "?older r'" for r'
      using that by (simp add: moves_simps superseded_def)
    show "superseded now r' = r'"
      if "map_of t i = Some r'" "map_of (is_rows s) i = None" "?older r'" for i r'
      using new that by blast
  qed (simp add: table_ops)
  show ?thesis
  proof (cases "find_event (ad_eventKey a) (fst ?ins)")
    case None
    then show ?thesis by (simp add: admitFastAgentInlineHumanTurn_def Let_def)
  next
    case (Some entry)
    obtain i row where entry: "entry = (i, row)" by (cases entry) auto
    have row: "map_of (fst ?ins) i = Some row"
      using find_event_row [of "fst ?ins"] table Some entry by simp
    let ?resumed = "\<not> snd ?ins \<and> ib_inline row"
    let ?t1 = "if ?resumed then fst (update_where i (\<lambda>row. True) ?take (fst ?ins)) else fst ?ins"
    have t1: "op_rows key_of now op s ?t1" using inserted taken [OF _ row] by auto
    have new: "ib_eventKey r' = ad_eventKey a"
      if "map_of ?t1 j = Some r'" "map_of (is_rows s) j = None" for j r'
    proof -
      note found = that(1)
      define g where "g = (\<lambda>r. if ?resumed \<and> j = i then ?take r else r)"
      have eq: "map_of ?t1 j = map_option g (map_of (fst ?ins) j)"
        by (cases "map_of (fst ?ins) j"; cases "j = i"; simp add: map_of_updated_inbox g_def)
      obtain r where r: "map_of (fst ?ins) j = Some r" "r' = g r"
        using map_option_SomeE [OF found [unfolded eq]] by blast
      have "r = ?new" using only_new [OF r(1) that(2)] by simp
      then show ?thesis using r(2) by (simp add: g_def new_event_def)
    qed
    show ?thesis
      using t1 ended [OF t1 new] inserted
      by (simp add: admitFastAgentInlineHumanTurn_def Let_def Some entry)
  qed
qed

lemma fst_case_pair [simp]: "fst (case p of (t, r) \<Rightarrow> (t, g r)) = fst p"
  by (cases p) simp

lemma reserve_rows:
  "fst (reserveFastSessionQueuedMessageForSteer session message persisted now t) = t \<or>
   (\<exists>i. fst (reserveFastSessionQueuedMessageForSteer session message persisted now t) =
        fst (update_where i
          (\<lambda>row. ib_attempts row = 0 \<and> ib_claimedUntil row = None \<and> unsettled row \<and>
                 \<not> ib_inline row \<and> \<not> persisted (message @ '':user''))
          (\<lambda>row. row\<lparr>ib_claimedUntil := Some (now + 30000), ib_updatedAt := now\<rparr>) t))"
proof (cases "queued_messages session t")
  case Nil
  then show ?thesis by (simp add: reserveFastSessionQueuedMessageForSteer_def)
next
  case (Cons entry rest)
  obtain i oldest where entry: "entry = (i, oldest)" by (cases entry) auto
  show ?thesis
  proof (cases "json_text (ib_event oldest) ''currentMessageId'' = Some message")
    case True
    then show ?thesis
      by (intro disjI2 exI [of _ i])
        (simp add: reserveFastSessionQueuedMessageForSteer_def Cons entry split: prod.split option.split)
  qed (simp add: reserveFastSessionQueuedMessageForSteer_def Cons entry)
qed

lemma withdraw_rows:
  "fst (withdrawFastSessionQueuedMessage session message user picked persisted now t) = t \<or>
   fst (withdrawFastSessionQueuedMessage session message user picked persisted now t) =
     fst (update_where (the picked) (withdrawable session message persisted now)
       (\<lambda>row. row\<lparr>ib_discardedAt := Some now,
                  ib_lastError := Some ''Withdrawn by its sender before delivery.'',
                  ib_updatedAt := now\<rparr>) t)"
  by (auto simp: withdrawFastSessionQueuedMessage_def split: option.split prod.split)

lemma is_rows_reserve:
  "is_rows (inbox_op_step now (OpReserve session message) s) =
     fst (reserveFastSessionQueuedMessageForSteer session message (persisted_in session s) now (is_rows s))"
  by (simp add: is_rows_def set_rows_def split: prod.split steer_reservation.split)

lemma is_rows_withdraw:
  "is_rows (inbox_op_step now (OpWithdraw session message user picked) s) =
     fst (withdrawFastSessionQueuedMessage session message user (Some picked)
            (persisted_in session s) now (is_rows s))"
  by (simp add: is_rows_def set_rows_def split: prod.split withdrawal.split)

text \<open>What every operation does to every row.\<close>

lemma op_rows_step:
  assumes table: "jsmap_ok (is_rows s)" and allowed: "op_allowed key_of op s"
  shows "op_rows key_of now op s (is_rows (inbox_op_step now op s))"
proof (cases op)
  case (OpEnqueue a retryRun newId)
  with allowed show ?thesis
    by (simp add: enqueueFastAgentParentEvent_row_def op_rows_insert_event)
next
  case (OpEnqueueForRun a run newId)
  with allowed show ?thesis
    by (simp add: enqueueFastAgentParentEventForRun_def op_rows_insert_event split: option.split)
next
  case (OpPublishArtifact a retryAt newId)
  with op_rows_publish [OF table] allowed show ?thesis by simp
next
  case (OpAdmitInline a newId)
  with op_rows_admit [OF table] allowed show ?thesis by simp
next
  case (OpWithdrawAdmission key)
  then show ?thesis
    by (auto simp: withdraw_admission_def moves_simps intro!: op_rows_update_all op_rowI)
next
  case (OpRenewTurn i)
  with allowed show ?thesis
    by (auto simp: renewFastAgentDurableTurnClaim_def moves_simps
        intro!: op_rows_update_where op_row_turn)
next
  case (OpReleaseTurn i)
  with allowed show ?thesis
    by (auto simp: releaseFastAgentDurableTurnClaim_def moves_simps
        intro!: op_rows_update_where op_row_turn)
next
  case (OpRevokeTurn i reason)
  with allowed show ?thesis
    by (auto simp: revokeFastAgentDurableTurnReplay_def moves_simps
        intro!: op_rows_update_where op_row_turn)
next
  case (OpScheduleTurnRetry i retryAt retries reason)
  with allowed show ?thesis
    by (auto simp: scheduleFastAgentDurableTurnRetry_def moves_simps
        intro!: op_rows_update_where op_row_turn)
next
  case (OpTurnDelivered i)
  with allowed show ?thesis
    by (auto simp: markFastAgentDurableTurnDelivered_def moves_simps
        intro!: op_rows_update_where op_row_turn)
next
  case (OpClaimSteers token ids)
  have "is_rows (inbox_op_step now op s) = fst (claimFastAgentHumanFollowUpSteers ids now (is_rows s))"
    by (simp add: OpClaimSteers is_rows_def set_rows_def split: prod.split)
  then show ?thesis
    unfolding OpClaimSteers
    by (auto simp: claimFastAgentHumanFollowUpSteers_def op_row_def moves_simps
        intro!: op_rows_update_ids)
next
  case (OpReleaseSteers token ids)
  have "is_rows (inbox_op_step now op s) = releaseFastAgentHumanFollowUpSteerClaims ids now (is_rows s)"
    by (simp add: OpReleaseSteers is_rows_def set_rows_def)
  then show ?thesis
    unfolding OpReleaseSteers
    by (auto simp: releaseFastAgentHumanFollowUpSteerClaims_def op_row_def moves_simps
        intro!: op_rows_update_ids)
next
  case (OpPersistPrompt conversation eventId)
  then show ?thesis by (simp add: is_rows_def) (simp add: is_rows_def [symmetric])
next
  case (OpTurnReleased conversation later)
  have "is_rows (inbox_op_step now op s) = is_rows s"
    by (simp add: OpTurnReleased is_rows_def wakeFastAgentParentEventsOnTurnRelease_def
        split: option.split prod.split)
  then show ?thesis by simp
next
  case OpRecover
  then show ?thesis by (simp add: is_rows_def) (simp add: is_rows_def [symmetric])
next
  case (OpOtherTables w a r j)
  then show ?thesis by (simp add: is_rows_def) (simp add: is_rows_def [symmetric])
next
  case (OpDiscardUnreadable i)
  then show ?thesis
    by (auto simp: discard_unreadable_follow_up_def moves_simps intro!: op_rows_update_where op_rowI)
next
  case (OpSteersDelivered ids)
  then show ?thesis
    by (auto simp: markFastAgentHumanFollowUpsDelivered_def moves_simps
        intro!: op_rows_update_ids op_rowI)
next
  case (OpReleaseReservation i token)
  then show ?thesis
    by (auto simp: releaseFastSessionQueuedMessageSteerReservation_def op_row_def moves_simps
        intro!: op_rows_update_where)
next
  case (OpReserve session message)
  then show ?thesis
    unfolding OpReserve is_rows_reserve
    using reserve_rows [of session message "persisted_in session s" now "is_rows s"]
    by (auto simp: op_row_def moves_simps intro!: op_rows_update_where)
next
  case (OpWithdraw session message user picked)
  then show ?thesis
    unfolding OpWithdraw is_rows_withdraw
    using withdraw_rows [of session message user "Some picked" "persisted_in session s" now "is_rows s"]
    by (auto simp: moves_simps intro!: op_rows_update_where op_rowI)
qed

subsection \<open>The row a drain works on\<close>

fun pc_row :: "drain_pc \<Rightarrow> (string \<times> inbox_row) option" where
  "pc_row (Held seen next) = Some next"
| "pc_row (Examine i row) = Some (i, row)"
| "pc_row (Deliver i row) = Some (i, row)"
| "pc_row (FinishAutomation i row settling) = Some (i, row)"
| "pc_row (FinishWakeup i row settling) = Some (i, row)"
| "pc_row (RetireWakeup i row settling) = Some (i, row)"
| "pc_row (Mark i row settling) = Some (i, row)"
| "pc_row (Recheck i row) = Some (i, row)"
| "pc_row _ = None"

text \<open>The row that is being delivered, or was and is about to be marked.\<close>

fun in_flight :: "drain_pc \<Rightarrow> string option" where
  "in_flight (Deliver i row) = Some i"
| "in_flight (FinishAutomation i row settling) = (if settling = AsDelivered then Some i else None)"
| "in_flight (FinishWakeup i row settling) = (if settling = AsDelivered then Some i else None)"
| "in_flight (RetireWakeup i row settling) = (if settling = AsDelivered then Some i else None)"
| "in_flight (Mark i row settling) = (if settling = AsDelivered then Some i else None)"
| "in_flight _ = None"

lemma in_flight_row: "in_flight pc = Some i \<Longrightarrow> \<exists>row. pc_row pc = Some (i, row)"
  by (cases pc) (auto split: if_splits)

definition is_artifact :: "inbox_row \<Rightarrow> bool" where
  "is_artifact row \<longleftrightarrow> event_type (ib_event row) = Some ''artifact_published''"

text \<open>
  A step of a drain changes no other row's attempts or retry time, and counts an attempt only of an
  unsettled row that has some left. It claims only rows of artifacts, and marks delivered only those
  and the row in flight.
\<close>

definition drain_row :: "drain_pc \<Rightarrow> string \<Rightarrow> inbox_row \<Rightarrow> inbox_row \<Rightarrow> bool" where
  "drain_row pc i r r' \<longleftrightarrow>
     row_moves r r' \<and> (is_artifact r \<or> ib_claimedUntil r' = ib_claimedUntil r) \<and>
     (is_artifact r \<or> in_flight pc = Some i \<or> ib_deliveredAt r' = ib_deliveredAt r) \<and>
     ((ib_attempts r' = ib_attempts r \<and>
       (ib_retryAt r' = ib_retryAt r \<or> (\<exists>row. pc_row pc = Some (i, row)))) \<or>
      (\<exists>row. pc = Examine i row \<and> ib_attempts row < FAST_AGENT_PARENT_EVENT_MAX_ATTEMPTS \<and>
         unsettled r \<and> ib_attempts r' = ib_attempts r + 1))"

lemma drain_row_refl [simp]: "drain_row pc i r r"
  by (simp add: drain_row_def)

definition drain_rows :: "drain_pc \<Rightarrow> inbox \<Rightarrow> inbox \<Rightarrow> bool" where
  "drain_rows pc t t' \<longleftrightarrow>
     (\<forall>i. case map_of t i of
            Some r \<Rightarrow> (\<exists>r'. map_of t' i = Some r' \<and> drain_row pc i r r')
          | None \<Rightarrow> map_of t' i = None)"

lemma drain_rows_refl [simp]: "drain_rows pc t t"
  by (simp add: drain_rows_def split: option.split)

lemma drain_rows_update:
  assumes "\<And>r. map_of t i = Some r \<Longrightarrow> p r \<Longrightarrow> drain_row pc i r (f r)"
  shows "drain_rows pc t (fst (update_where i p f t))"
  using assms by (auto simp: drain_rows_def table_ops split: option.split)

lemma drain_rows_new: "drain_rows pc t t' \<Longrightarrow> map_of t i = None \<Longrightarrow> map_of t' i = None"
  unfolding drain_rows_def by (drule spec [of _ i]) simp

lemma drain_rows_old:
  "drain_rows pc t t' \<Longrightarrow> map_of t i = Some r \<Longrightarrow> \<exists>r'. map_of t' i = Some r' \<and> drain_row pc i r r'"
  unfolding drain_rows_def by (drule spec [of _ i]) simp

lemmas row_statements =
  markDelivered_def markDiscarded_def hold_artifact_event_def start_attempt_def note_inline_error_def
  park_event_def

lemma fst_start_attempt:
  "fst (start_attempt i inlined now t) =
     fst (update_where i unsettled
       (\<lambda>row. row\<lparr>ib_attempts := ib_attempts row + 1, ib_lastError := None,
                  ib_retryAt := (if inlined then ib_retryAt row else None),
                  ib_updatedAt := now\<rparr>) t)"
  by (simp add: start_attempt_def)

text \<open>The results of a look at an event.\<close>

lemma examine_cases:
  assumes "examine now i row c db = (db', pc)"
  obtains (invalid) error where
      "in_rows db' = markDiscarded i error now (in_rows db)" "pc = Look"
  | (abandoned) error where "in_rows db' = in_rows db" "pc = FinishAutomation i row (AsDiscarded error)"
  | (delivered) "in_rows db' = markDelivered i now (in_rows db)" "is_artifact row" "pc = Look"
  | (changed) error where "in_rows db' = in_rows db" "pc = Unlock error"
  | (claimed) retryAt where
      "in_rows db' = hold_artifact_event i retryAt now (in_rows db)" "is_artifact row"
      "pc = Unlock Drained"
  | (attempted) "in_rows db' = fst (start_attempt i (ib_inline row) now (in_rows db))"
      "getAbandonReason now row = None" "fp_sessionId (ib_parent row) = c"
      "pc = (if snd (start_attempt i (ib_inline row) now (in_rows db)) then Deliver i row else Look)"
proof (cases "fp_sessionId (ib_parent row) \<noteq> c \<or> \<not> isFastAgentParentEvent (ib_event row)")
  case True
  with assms show ?thesis by (auto simp: examine_def intro: invalid)
next
  case valid: False
  show ?thesis
  proof (cases "getAbandonReason now row")
    case (Some r)
    with valid assms show ?thesis by (auto simp: examine_def intro: abandoned)
  next
    case None
    let ?event = "ib_event row"
    let ?claim = "claimArtifactNotificationDelivery
        (case get_prop ?event ''runId'' of JNum n \<Rightarrow> nat n | _ \<Rightarrow> 0)
        (event_text (get_prop ?event ''artifact'') ''id'') now (in_results db)"
    have attempt: thesis
      if "(case start_attempt i (ib_inline row) now (in_rows db) of
             (rows, started) \<Rightarrow>
               (db1\<lparr>in_rows := rows\<rparr>, if started then Deliver i row else Look)) = (db', pc)"
      for db1
      using that valid None by (intro attempted) (auto split: prod.splits)
    show ?thesis
    proof (cases "is_artifact row")
      case False
      have "(case start_attempt i (ib_inline row) now (in_rows db) of
             (rows, started) \<Rightarrow>
               (db\<lparr>in_rows := rows\<rparr>, if started then Deliver i row else Look)) = (db', pc)"
        using assms valid None False
        by (simp add: examine_def Let_def is_artifact_def split: prod.splits)
      then show ?thesis by (rule attempt)
    next
      case True
      show ?thesis
      proof (cases "snd ?claim")
        case ArtifactQueued
        let ?db1 = "db\<lparr>in_results := fst ?claim\<rparr>"
        have "(case start_attempt i (ib_inline row) now (in_rows db) of
             (rows, started) \<Rightarrow>
               (?db1\<lparr>in_rows := rows\<rparr>, if started then Deliver i row else Look)) = (db', pc)"
          using assms valid None True ArtifactQueued
          by (simp add: examine_def Let_def is_artifact_def split: prod.splits)
        then show ?thesis by (rule attempt)
      next
        case ArtifactDelivered
        with assms valid None True show ?thesis
          by (intro delivered) (auto simp: examine_def Let_def is_artifact_def)
      next
        case (ArtifactInProgress retryAt)
        with assms valid None True show ?thesis
          by (intro claimed [of retryAt]) (auto simp: examine_def Let_def is_artifact_def)
      next
        case ArtifactChanged
        with assms valid None True show ?thesis
          by (intro changed) (auto simp: examine_def Let_def is_artifact_def)
      qed
    qed
  qed
qed

lemma attempts_left:
  "getAbandonReason now row = None \<Longrightarrow> ib_attempts row < FAST_AGENT_PARENT_EVENT_MAX_ATTEMPTS"
  by (simp add: getAbandonReason_def split: if_splits)

lemma drain_rows_mark:
  "drain_rows pc t (markDiscarded i error now t)"
  "in_flight pc = Some i \<Longrightarrow> drain_rows pc t (markDelivered i now t)"
  by (auto simp: row_statements drain_row_def moves_simps dest: in_flight_row
      intro!: drain_rows_update)

lemma drain_rows_examine:
  assumes "examine now i row c db = (db', pc)"
    and seen: "\<And>r. map_of (in_rows db) i = Some r \<Longrightarrow> ib_event r = ib_event row"
  shows "drain_rows (Examine i row) (in_rows db) (in_rows db')"
  using assms(1)
proof (cases rule: examine_cases)
  case (delivered)
  then show ?thesis
    using seen by (auto simp: row_statements drain_row_def moves_simps is_artifact_def
        intro!: drain_rows_update)
next
  case (claimed retryAt)
  then show ?thesis
    using seen by (auto simp: row_statements drain_row_def moves_simps is_artifact_def
        intro!: drain_rows_update)
next
  case attempted
  then show ?thesis
    by (auto simp: fst_start_attempt drain_row_def moves_simps attempts_left intro!: drain_rows_update)
qed (simp_all add: drain_rows_mark)

lemma drain_rows_after_delivery:
  assumes "after_delivery now i row outcome c db = (db', pc)"
  shows "drain_rows (Deliver i row) (in_rows db) (in_rows db')"
  using assms
  by (cases outcome)
    (auto simp: after_delivery_def row_statements drain_row_def moves_simps Let_def
      split: if_splits intro!: drain_rows_update)

lemma drain_rows_step:
  assumes step: "drain_step parse now outcome d db = (db', d')"
    and seen: "\<And>i row r. pc_row (dr_pc d) = Some (i, row) \<Longrightarrow> map_of (in_rows db) i = Some r \<Longrightarrow>
                 ib_event r = ib_event row"
  shows "drain_rows (dr_pc d) (in_rows db) (in_rows db')"
proof (cases "dr_pc d")
  case (Examine i row)
  obtain db1 pc where looked: "examine now i row (dr_conversation d) db = (db1, pc)"
    by (rule prod.exhaust)
  then have "db1 = db'" using step Examine by (simp add: drain_step_def Let_def)
  moreover have "ib_event r = ib_event row" if "map_of (in_rows db) i = Some r" for r
    by (rule seen [OF _ that]) (simp add: Examine)
  ultimately show ?thesis using drain_rows_examine [OF looked] Examine by simp
next
  case (Deliver i row)
  obtain db1 pc where ended: "after_delivery now i row outcome (dr_conversation d) db = (db1, pc)"
    by (rule prod.exhaust)
  then have "db1 = db'" using step Deliver by (simp add: drain_step_def Let_def)
  then show ?thesis using drain_rows_after_delivery [OF ended] Deliver by simp
next
  case (TakeLock found)
  with step show ?thesis
    by (cases found) (auto simp: drain_step_def Let_def drain_rows_mark split: if_splits)
next
  case (Mark i row settling)
  with step show ?thesis
    by (cases settling) (auto simp: drain_step_def Let_def drain_rows_mark)
next
  case (Held seen found)
  with step show ?thesis by (cases found) (auto simp: drain_step_def Let_def)
next
  case (FinishWakeup i row settling)
  with step show ?thesis
    by (auto simp: drain_step_def Let_def split: option.splits prod.splits)
qed (use step in \<open>auto simp: drain_step_def Let_def split: option.splits\<close>)

lemma jsmap_ok_examine:
  "examine now i row c db = (db', pc) \<Longrightarrow> jsmap_ok (in_rows db) \<Longrightarrow> jsmap_ok (in_rows db')"
  by (erule examine_cases) (simp_all add: row_statements fst_start_attempt)

lemma jsmap_ok_after_delivery:
  "after_delivery now i row outcome c db = (db', pc) \<Longrightarrow> jsmap_ok (in_rows db) \<Longrightarrow>
   jsmap_ok (in_rows db')"
  by (cases outcome) (auto simp: after_delivery_def row_statements Let_def split: if_splits)

lemma jsmap_ok_drain_step:
  assumes step: "drain_step parse now outcome d db = (db', d')" and table: "jsmap_ok (in_rows db)"
  shows "jsmap_ok (in_rows db')"
proof (cases "dr_pc d")
  case (Examine i row)
  obtain db1 pc where looked: "examine now i row (dr_conversation d) db = (db1, pc)"
    by (rule prod.exhaust)
  then have "db1 = db'" using step Examine by (simp add: drain_step_def Let_def)
  then show ?thesis using jsmap_ok_examine [OF looked table] by simp
next
  case (Deliver i row)
  obtain db1 pc where ended: "after_delivery now i row outcome (dr_conversation d) db = (db1, pc)"
    by (rule prod.exhaust)
  then have "db1 = db'" using step Deliver by (simp add: drain_step_def Let_def)
  then show ?thesis using jsmap_ok_after_delivery [OF ended table] by simp
next
  case (TakeLock found)
  with step table show ?thesis
    by (cases found) (auto simp: drain_step_def Let_def row_statements split: if_splits)
next
  case (Mark i row settling)
  with step table show ?thesis
    by (cases settling) (auto simp: drain_step_def Let_def row_statements)
next
  case (Held seen found)
  with step table show ?thesis by (cases found) (auto simp: drain_step_def Let_def)
next
  case (FinishWakeup i row settling)
  with step table show ?thesis
    by (auto simp: drain_step_def Let_def split: option.splits prod.splits)
qed (use step table in \<open>auto simp: drain_step_def Let_def split: option.splits\<close>)

end
