(* ===== verification/InboxSafety.thy ===== *)
theory InboxSafety
  imports InboxRows
begin

section \<open>What no interleaving can do to an inbox\<close>

text \<open>
  The invariant of \<open>InboxSystem\<close>: a drain that works and a turn that runs hold the lock of their
  conversation, so that nobody else touches the row a drain has read, apart from settling it. It
  bounds the attempts of an event. The example runs at the end serve the other theories too.
\<close>

subsection \<open>The invariant\<close>

fun active :: "drain_pc \<Rightarrow> bool" where
  "active FirstLook \<longleftrightarrow> False"
| "active (FirstHeld found) \<longleftrightarrow> False"
| "active (TakeLock found) \<longleftrightarrow> False"
| "active (DrainEnded ended) \<longleftrightarrow> False"
| "active pc \<longleftrightarrow> True"

lemma pc_row_active: "pc_row pc = Some entry \<Longrightarrow> active pc"
  by (cases pc) auto

definition parent_ok :: "(string \<Rightarrow> string) \<Rightarrow> inbox_row \<Rightarrow> bool" where
  "parent_ok key_of row \<longleftrightarrow>
     ib_conversationId row = fp_sessionId (ib_parent row) \<and>
     buildFastAgentTurnLockKey (ib_parent row) = key_of (ib_conversationId row)"

definition row_ok :: "(string \<Rightarrow> string) \<Rightarrow> ms \<Rightarrow> inbox_row \<Rightarrow> bool" where
  "row_ok key_of now row \<longleftrightarrow>
     parent_ok key_of row \<and> ib_createdAt row \<le> now \<and>
     ib_attempts row \<le> FAST_AGENT_PARENT_EVENT_MAX_ATTEMPTS"

text \<open>
  The row a drain has read is still that row. Until the attempt starts its attempts are as read;
  while it is in flight it has been attempted and, if it was queued, has no retry time.
\<close>

definition stage_ok :: "drain_pc \<Rightarrow> string \<Rightarrow> inbox_row \<Rightarrow> inbox_row \<Rightarrow> bool" where
  "stage_ok pc i row r \<longleftrightarrow>
     row_moves row r \<and>
     (pc = Examine i row \<or> (\<exists>seen. pc = Held seen (i, row)) \<longrightarrow> ib_attempts r = ib_attempts row) \<and>
     (in_flight pc = Some i \<longrightarrow> 1 \<le> ib_attempts r \<and> (ib_inline r \<or> ib_retryAt r = None))"

definition drain_ok :: "(string \<Rightarrow> string) \<Rightarrow> inbox \<Rightarrow> drain \<Rightarrow> bool" where
  "drain_ok key_of t d \<longleftrightarrow>
     dr_conversation d \<noteq> [] \<and>
     (\<forall>i row. dr_pc d = FirstHeld (i, row) \<or> dr_pc d = TakeLock (i, row) \<longrightarrow> parent_ok key_of row) \<and>
     (\<forall>i row. pc_row (dr_pc d) = Some (i, row) \<longrightarrow>
        ib_conversationId row = dr_conversation d \<and>
        (\<exists>r. map_of t i = Some r \<and> stage_ok (dr_pc d) i row r))"

definition holds_lock :: "(string \<Rightarrow> string) \<Rightarrow> (string, nat) jsmap \<Rightarrow> drain \<Rightarrow> bool" where
  "holds_lock key_of locks d \<longleftrightarrow>
     (active (dr_pc d) \<longrightarrow> dr_lockKey d = key_of (dr_conversation d) \<and>
        map_of locks (dr_lockKey d) = Some (dr_token d))"

definition turn_ok ::
    "(string \<Rightarrow> string) \<Rightarrow> inbox \<Rightarrow> (string, nat) jsmap \<Rightarrow> nat \<times> string \<times> string option \<Rightarrow> bool" where
  "turn_ok key_of t locks turn \<longleftrightarrow>
     (case turn of
        (token, key, own) \<Rightarrow>
          map_of locks key = Some token \<and>
          (\<forall>i. own = Some i \<longrightarrow>
             (\<exists>row. map_of t i = Some row \<and> key = key_of (ib_conversationId row))))"

definition inbox_ok :: "(string \<Rightarrow> string) \<Rightarrow> inbox_system \<Rightarrow> bool" where
  "inbox_ok key_of s \<longleftrightarrow>
     jsmap_ok (is_rows s) \<and>
     (\<forall>i row. map_of (is_rows s) i = Some row \<longrightarrow> row_ok key_of (is_clock s) row) \<and>
     (\<forall>d \<in> set (is_drains s). holds_lock key_of (in_locks (is_db s)) d \<and> drain_ok key_of (is_rows s) d) \<and>
     (\<forall>turn \<in> set (is_turns s). turn_ok key_of (is_rows s) (in_locks (is_db s)) turn) \<and>
     distinct (map dr_token (is_drains s) @ map fst (is_turns s))"

lemma inbox_okD:
  assumes "inbox_ok key_of s"
  shows "jsmap_ok (is_rows s)"
    "map_of (is_rows s) i = Some row \<Longrightarrow> row_ok key_of (is_clock s) row"
    "d \<in> set (is_drains s) \<Longrightarrow> holds_lock key_of (in_locks (is_db s)) d"
    "d \<in> set (is_drains s) \<Longrightarrow> drain_ok key_of (is_rows s) d"
    "turn \<in> set (is_turns s) \<Longrightarrow> turn_ok key_of (is_rows s) (in_locks (is_db s)) turn"
    "distinct (map dr_token (is_drains s) @ map fst (is_turns s))"
  using assms by (auto simp: inbox_ok_def)

lemma inbox_okI:
  assumes "jsmap_ok (is_rows s)"
    "\<And>i row. map_of (is_rows s) i = Some row \<Longrightarrow> row_ok key_of (is_clock s) row"
    "\<And>d. d \<in> set (is_drains s) \<Longrightarrow> holds_lock key_of (in_locks (is_db s)) d"
    "\<And>d. d \<in> set (is_drains s) \<Longrightarrow> drain_ok key_of (is_rows s) d"
    "\<And>turn. turn \<in> set (is_turns s) \<Longrightarrow> turn_ok key_of (is_rows s) (in_locks (is_db s)) turn"
    "distinct (map dr_token (is_drains s) @ map fst (is_turns s))"
  shows "inbox_ok key_of s"
  using assms by (auto simp: inbox_ok_def)

subsection \<open>The lock excludes\<close>

lemma same_token:
  assumes "inbox_ok key_of s" "d \<in> set (is_drains s)" "e \<in> set (is_drains s)"
    "dr_token d = dr_token e"
  shows "d = e"
  using inbox_okD(6) [OF assms(1)] assms(2-4) by (auto simp: distinct_map inj_on_def)

lemma same_turn:
  assumes "inbox_ok key_of s" "(token, key, own) \<in> set (is_turns s)"
    "(token, key', own') \<in> set (is_turns s)"
  shows "key' = key \<and> own' = own"
  using inbox_okD(6) [OF assms(1)] assms(2,3) by (force simp: distinct_map inj_on_def)

lemma turn_is_no_drain:
  assumes "inbox_ok key_of s" "d \<in> set (is_drains s)" "(token, key, own) \<in> set (is_turns s)"
  shows "dr_token d \<noteq> token"
  using inbox_okD(6) [OF assms(1)] assms(2,3) by force

lemma one_active_drain:
  assumes "inbox_ok key_of s" "d \<in> set (is_drains s)" "e \<in> set (is_drains s)"
    "active (dr_pc d)" "active (dr_pc e)" "dr_conversation d = dr_conversation e"
  shows "d = e"
  using inbox_okD(3) [OF assms(1,2)] inbox_okD(3) [OF assms(1,3)] assms
  by (auto simp: holds_lock_def intro: same_token)

lemma no_turn_beside_drain:
  assumes "inbox_ok key_of s" "d \<in> set (is_drains s)" "active (dr_pc d)"
    "(token, key_of (dr_conversation d), own) \<in> set (is_turns s)"
  shows False
  using inbox_okD(3) [OF assms(1,2)] inbox_okD(5) [OF assms(1,4)] assms(3)
    turn_is_no_drain [OF assms(1,2,4)]
  by (auto simp: holds_lock_def turn_ok_def)

lemma one_turn:
  assumes "inbox_ok key_of s" "(token, key, own) \<in> set (is_turns s)"
    "(token', key, own') \<in> set (is_turns s)"
  shows "token' = token \<and> own' = own"
proof -
  have "token' = token"
    using inbox_okD(5) [OF assms(1,2)] inbox_okD(5) [OF assms(1,3)] by (simp add: turn_ok_def)
  with assms show ?thesis using same_turn [OF assms(1,2), of key own'] by simp
qed

lemma writer_is_inline_or_turn:
  assumes ok: "inbox_ok key_of s" and row: "map_of (is_rows s) i = Some row"
    and allowed: "turn_may_write i s" and queued: "\<not> ib_inline row"
  obtains token where "(token, key_of (ib_conversationId row), Some i) \<in> set (is_turns s)"
proof -
  obtain token key where turn: "(token, key, Some i) \<in> set (is_turns s)"
    using allowed row queued by (auto simp: turn_may_write_def)
  then have "key = key_of (ib_conversationId row)"
    using inbox_okD(5) [OF ok turn] row by (auto simp: turn_ok_def)
  with turn show ?thesis by (intro that) simp
qed

subsection \<open>Nobody disturbs the row of an active drain\<close>

definition quiet :: "inbox_row \<Rightarrow> inbox_row \<Rightarrow> bool" where
  "quiet r r' \<longleftrightarrow>
     row_moves r r' \<and> ib_attempts r' = ib_attempts r \<and> (ib_inline r \<or> ib_retryAt r' = ib_retryAt r)"

definition undisturbed :: "string \<Rightarrow> inbox \<Rightarrow> inbox \<Rightarrow> bool" where
  "undisturbed c t t' \<longleftrightarrow>
     (\<forall>i r. map_of t i = Some r \<longrightarrow> ib_conversationId r = c \<longrightarrow>
        (\<exists>r'. map_of t' i = Some r' \<and> quiet r r'))"

lemma undisturbed_refl [simp]: "undisturbed c t t"
  by (simp add: undisturbed_def quiet_def)

lemma stage_ok_quiet: "stage_ok pc i row r \<Longrightarrow> quiet r r' \<Longrightarrow> stage_ok pc i row r'"
  using row_moves_trans [of row r r'] row_moves_fields(4) [of r r']
  by (auto simp: stage_ok_def quiet_def)

lemma stage_ok_conversation:
  "stage_ok pc i row r \<Longrightarrow> ib_conversationId r = ib_conversationId row"
  by (simp add: stage_ok_def row_moves_fields)

lemma drain_ok_frame:
  assumes "drain_ok key_of t d" "active (dr_pc d) \<Longrightarrow> undisturbed (dr_conversation d) t t'"
  shows "drain_ok key_of t' d"
  unfolding drain_ok_def
proof (intro conjI allI impI)
  show "dr_conversation d \<noteq> []" using assms(1) by (simp add: drain_ok_def)
next
  fix i row
  assume "dr_pc d = FirstHeld (i, row) \<or> dr_pc d = TakeLock (i, row)"
  then show "parent_ok key_of row" using assms(1) by (auto simp: drain_ok_def)
next
  fix i row
  assume seen: "pc_row (dr_pc d) = Some (i, row)"
  then show "ib_conversationId row = dr_conversation d" using assms(1) by (auto simp: drain_ok_def)
  obtain r where r: "map_of t i = Some r" "stage_ok (dr_pc d) i row r"
    using assms(1) seen by (auto simp: drain_ok_def)
  have "ib_conversationId r = dr_conversation d"
    using stage_ok_conversation [OF r(2)] assms(1) seen by (auto simp: drain_ok_def)
  then obtain r' where "map_of t' i = Some r'" "quiet r r'"
    using assms(2) [OF pc_row_active [OF seen]] r(1) by (auto simp: undisturbed_def)
  then show "\<exists>r'. map_of t' i = Some r' \<and> stage_ok (dr_pc d) i row r'"
    using stage_ok_quiet [OF r(2)] by blast
qed

lemma undisturbed_op:
  assumes ok: "inbox_ok key_of s" and d: "d \<in> set (is_drains s)" "active (dr_pc d)"
    and rows: "op_rows key_of now op s t'"
  shows "undisturbed (dr_conversation d) (is_rows s) t'"
  unfolding undisturbed_def
proof (intro allI impI)
  fix i r
  assume r: "map_of (is_rows s) i = Some r" and conversation: "ib_conversationId r = dr_conversation d"
  obtain r' where r': "map_of t' i = Some r'" "op_row now op i s r r'"
    using op_rows_old [OF rows r] by blast
  have "ib_inline r" if "turn_may_write i s"
    using writer_is_inline_or_turn [OF ok r that] no_turn_beside_drain [OF ok d] conversation by metis
  then show "\<exists>r'. map_of t' i = Some r' \<and> quiet r r'"
    using r' by (auto simp: op_row_def quiet_def)
qed

lemma undisturbed_drain:
  assumes ok: "inbox_ok key_of s" and d: "d \<in> set (is_drains s)" and e: "e \<in> set (is_drains s)"
    and active: "active (dr_pc e)" and other: "d \<noteq> e"
    and rows: "drain_rows (dr_pc d) (is_rows s) t'"
  shows "undisturbed (dr_conversation e) (is_rows s) t'"
  unfolding undisturbed_def
proof (intro allI impI)
  fix i r
  assume r: "map_of (is_rows s) i = Some r" and conversation: "ib_conversationId r = dr_conversation e"
  obtain r' where r': "map_of t' i = Some r'" "drain_row (dr_pc d) i r r'"
    using drain_rows_old [OF rows r] by blast
  have elsewhere: "pc_row (dr_pc d) \<noteq> Some (i, row)" for row
  proof
    assume at_row: "pc_row (dr_pc d) = Some (i, row)"
    then have "ib_conversationId r = dr_conversation d"
      using inbox_okD(4) [OF ok d] r stage_ok_conversation by (fastforce simp: drain_ok_def)
    then show False
      using one_active_drain [OF ok d e pc_row_active [OF at_row] active] conversation other by simp
  qed
  have "dr_pc d \<noteq> Examine i row" for row using elsewhere [of row] by auto
  then show "\<exists>r'. map_of t' i = Some r' \<and> quiet r r'"
    using r' elsewhere by (auto simp: drain_row_def quiet_def)
qed

subsection \<open>An operation\<close>

lemma op_fields [simp]:
  "is_drains (inbox_op_step now op s) = is_drains s"
  "is_turns (inbox_op_step now op s) = is_turns s"
  "in_locks (is_db (inbox_op_step now op s)) = in_locks (is_db s)"
  "is_log (inbox_op_step now op s) = is_log s"
  "is_touched (inbox_op_step now op s) = is_touched s"
  by (cases op; simp add: set_rows_def wakeFastAgentParentEventsOnTurnRelease_def
      split: prod.split steer_reservation.split withdrawal.split option.split)+

lemma jsmap_ok_op:
  assumes "jsmap_ok (is_rows s)" "op_allowed key_of op s"
  shows "jsmap_ok (is_rows (inbox_op_step now op s))"
proof (cases op)
  case (OpPublishArtifact a retryAt newId)
  with assms show ?thesis
    by (auto simp: publish_artifact_event_def fresh_row_def split: option.split)
next
  case (OpAdmitInline a newId)
  with assms show ?thesis
    by (auto simp: admitFastAgentInlineHumanTurn_def Let_def split: option.split)
next
  case (OpReserve session message)
  with assms show ?thesis
    using reserve_rows [of session message "persisted_in session s" now "is_rows s"]
    unfolding OpReserve is_rows_reserve by auto
next
  case (OpWithdraw session message user picked)
  with assms show ?thesis
    using withdraw_rows [of session message user "Some picked" "persisted_in session s" now "is_rows s"]
    unfolding OpWithdraw is_rows_withdraw by auto
next
  case (OpClaimSteers token ids)
  have "is_rows (inbox_op_step now op s) = fst (claimFastAgentHumanFollowUpSteers ids now (is_rows s))"
    by (simp add: OpClaimSteers is_rows_def set_rows_def split: prod.split)
  with assms show ?thesis by (simp add: claimFastAgentHumanFollowUpSteers_def)
next
  case (OpReleaseSteers token ids)
  have "is_rows (inbox_op_step now op s) = releaseFastAgentHumanFollowUpSteerClaims ids now (is_rows s)"
    by (simp add: OpReleaseSteers is_rows_def set_rows_def)
  with assms show ?thesis by (simp add: releaseFastAgentHumanFollowUpSteerClaims_def)
next
  case (OpTurnReleased conversation later)
  have "is_rows (inbox_op_step now op s) = is_rows s"
    by (simp add: OpTurnReleased is_rows_def wakeFastAgentParentEventsOnTurnRelease_def
        split: option.split prod.split)
  with assms show ?thesis by simp
next
  case (OpPersistPrompt conversation eventId)
  with assms show ?thesis by (simp add: is_rows_def)
next
  case OpRecover
  with assms show ?thesis by (simp add: is_rows_def)
next
  case (OpOtherTables w a r j)
  with assms show ?thesis by (simp add: is_rows_def)
qed (use assms in \<open>simp_all add: enqueueFastAgentParentEvent_row_def
      enqueueFastAgentParentEventForRun_def withdraw_admission_def renewFastAgentDurableTurnClaim_def
      releaseFastAgentDurableTurnClaim_def revokeFastAgentDurableTurnReplay_def
      scheduleFastAgentDurableTurnRetry_def markFastAgentDurableTurnDelivered_def
      markFastAgentHumanFollowUpsDelivered_def discard_unreadable_follow_up_def
      releaseFastSessionQueuedMessageSteerReservation_def split: option.split\<close>)

lemma row_ok_op:
  assumes ok: "inbox_ok key_of s" and time: "is_clock s \<le> now"
    and rows: "op_rows key_of now op s t'" and row: "map_of t' i = Some r'"
  shows "row_ok key_of now r'"
proof (cases "map_of (is_rows s) i")
  case None
  then show ?thesis
    using op_rows_new [OF rows None row] by (simp add: newborn_def row_ok_def parent_ok_def)
next
  case (Some r)
  then obtain r'' where "map_of t' i = Some r''" "op_row now op i s r r''"
    using op_rows_old [OF rows] by blast
  then have "row_moves r r'" "ib_attempts r' = ib_attempts r" using row by (auto simp: op_row_def)
  then show ?thesis
    using inbox_okD(2) [OF ok Some] time by (auto simp: row_ok_def parent_ok_def row_moves_fields)
qed

lemma turn_ok_moves:
  assumes "turn_ok key_of t locks turn"
    "\<And>i r. map_of t i = Some r \<Longrightarrow> \<exists>r'. map_of t' i = Some r' \<and> row_moves r r'"
  shows "turn_ok key_of t' locks turn"
proof -
  obtain token key own where turn: "turn = (token, key, own)" by (cases turn) auto
  have "\<exists>row. map_of t' i = Some row \<and> key = key_of (ib_conversationId row)" if own: "own = Some i" for i
  proof -
    obtain r where r: "map_of t i = Some r" "key = key_of (ib_conversationId r)"
      using assms(1) turn own by (auto simp: turn_ok_def)
    obtain r' where "map_of t' i = Some r'" "row_moves r r'" using assms(2) [OF r(1)] by blast
    then show ?thesis using r(2) row_moves_fields(1) by auto
  qed
  then show ?thesis using assms(1) by (simp add: turn_ok_def turn)
qed

lemma inbox_ok_op:
  assumes ok: "inbox_ok key_of s" and time: "is_clock s \<le> now" and allowed: "op_allowed key_of op s"
  shows "inbox_ok key_of (inbox_op_step now op s\<lparr>is_clock := now\<rparr>)"
proof -
  let ?t = "is_rows (inbox_op_step now op s)"
  have rows: "op_rows key_of now op s ?t" by (rule op_rows_step [OF inbox_okD(1) [OF ok] allowed])
  have same: "is_rows (inbox_op_step now op s\<lparr>is_clock := now\<rparr>) = ?t" by (simp add: is_rows_def)
  show ?thesis
  proof (rule inbox_okI, unfold same)
    show "jsmap_ok ?t" by (rule jsmap_ok_op [OF inbox_okD(1) [OF ok] allowed])
  next
    fix i row
    assume "map_of ?t i = Some row"
    then show "row_ok key_of (is_clock (inbox_op_step now op s\<lparr>is_clock := now\<rparr>)) row"
      using row_ok_op [OF ok time rows] by simp
  next
    fix d
    assume "d \<in> set (is_drains (inbox_op_step now op s\<lparr>is_clock := now\<rparr>))"
    then have d: "d \<in> set (is_drains s)" by simp
    show "holds_lock key_of (in_locks (is_db (inbox_op_step now op s\<lparr>is_clock := now\<rparr>))) d"
      using inbox_okD(3) [OF ok d] by simp
    show "drain_ok key_of ?t d"
      using drain_ok_frame [OF inbox_okD(4) [OF ok d]] undisturbed_op [OF ok d _ rows] by blast
  next
    fix turn
    assume "turn \<in> set (is_turns (inbox_op_step now op s\<lparr>is_clock := now\<rparr>))"
    then have "turn_ok key_of (is_rows s) (in_locks (is_db s)) turn" using inbox_okD(5) [OF ok] by simp
    moreover have "\<exists>r'. map_of ?t i = Some r' \<and> row_moves r r'" if "map_of (is_rows s) i = Some r" for i r
      using op_rows_old [OF rows that] by (auto simp: op_row_def)
    ultimately show "turn_ok key_of ?t (in_locks (is_db (inbox_op_step now op s\<lparr>is_clock := now\<rparr>))) turn"
      using turn_ok_moves by simp
  qed (use inbox_okD(6) [OF ok] in simp)
qed

subsection \<open>A step of a drain\<close>

lemma examine_locks: "examine now i row c db = (db', pc) \<Longrightarrow> in_locks db' = in_locks db"
  by (auto simp: examine_def Let_def split: if_splits option.splits artifact_claim.splits prod.splits)

lemma after_delivery_locks:
  "after_delivery now i row outcome c db = (db', pc) \<Longrightarrow> in_locks db' = in_locks db"
  by (cases outcome) (auto simp: after_delivery_def Let_def split: if_splits)

text \<open>It keeps the identity of the drain; it takes a free lock, or gives its own back.\<close>

definition lock_step :: "(string, nat) jsmap \<Rightarrow> (string, nat) jsmap \<Rightarrow> drain \<Rightarrow> drain \<Rightarrow> bool" where
  "lock_step locks locks' d d' \<longleftrightarrow>
     dr_token d' = dr_token d \<and> dr_conversation d' = dr_conversation d \<and>
     (locks' = locks \<and> dr_lockKey d' = dr_lockKey d \<and> (active (dr_pc d') \<longrightarrow> active (dr_pc d)) \<or>
      (\<exists>i row. dr_pc d = TakeLock (i, row) \<and> fp_sessionId (ib_parent row) = dr_conversation d \<and>
         dr_lockKey d' = buildFastAgentTurnLockKey (ib_parent row) \<and>
         map_of locks (dr_lockKey d') = None \<and>
         locks' = AList.update (dr_lockKey d') (dr_token d) locks) \<or>
      (map_of locks (dr_lockKey d) = Some (dr_token d) \<and> \<not> active (dr_pc d') \<and>
         locks' = AList.delete (dr_lockKey d) locks))"

lemma drain_lock_step:
  assumes step: "drain_step parse now outcome d db = (db', d')"
  shows "lock_step (in_locks db) (in_locks db') d d'"
proof (cases "dr_pc d")
  case (Examine i row)
  obtain db1 pc where looked: "examine now i row (dr_conversation d) db = (db1, pc)"
    by (rule prod.exhaust)
  then show ?thesis
    using step Examine examine_locks [OF looked] by (auto simp: drain_step_def Let_def lock_step_def)
next
  case (Deliver i row)
  obtain db1 pc where ended: "after_delivery now i row outcome (dr_conversation d) db = (db1, pc)"
    by (rule prod.exhaust)
  then show ?thesis
    using step Deliver after_delivery_locks [OF ended]
    by (auto simp: drain_step_def Let_def lock_step_def)
next
  case (TakeLock found)
  with step show ?thesis
    by (cases found) (auto simp: drain_step_def Let_def lock_step_def split: if_splits)
next
  case (Held seen found)
  with step show ?thesis
    by (cases found) (auto simp: drain_step_def Let_def lock_step_def)
next
  case (FinishWakeup i row settling)
  with step show ?thesis
    by (auto simp: drain_step_def Let_def lock_step_def split: option.splits prod.splits)
qed (use step in \<open>auto simp: drain_step_def Let_def lock_step_def split: option.splits if_splits\<close>)

lemma lock_kept:
  assumes "lock_step locks locks' d d'" "map_of locks key = Some token" "token \<noteq> dr_token d"
  shows "map_of locks' key = Some token"
  using assms by (auto simp: lock_step_def delete_conv update_conv)

text \<open>The drain still describes its row.\<close>

lemma snd_start_attempt:
  "snd (start_attempt i inlined now t) \<longleftrightarrow> (\<exists>r. map_of t i = Some r \<and> unsettled r)"
  by (auto simp: start_attempt_def update_where_def split: option.split)

lemma fresh_look:
  assumes "jsmap_ok t" "oldest_pending c now t = Some (i, row)" "c \<noteq> []"
  shows "map_of t i = Some row" "ib_conversationId row = c"
  using oldest_pending_Some(1,2) [OF assms(1,2)] assms(3) by (auto simp: pendingPredicate_def)

lemma drain_ok_row:
  assumes "drain_ok key_of t d" "pc_row (dr_pc d) = Some (i, row)"
  obtains r where "map_of t i = Some r" "stage_ok (dr_pc d) i row r"
    "ib_conversationId row = dr_conversation d" "ib_event r = ib_event row"
  using assms row_moves_fields(3) by (fastforce simp: drain_ok_def stage_ok_def)

lemma drain_okI:
  assumes "dr_conversation d \<noteq> []"
    "\<And>i row. dr_pc d = FirstHeld (i, row) \<or> dr_pc d = TakeLock (i, row) \<Longrightarrow> parent_ok key_of row"
    "\<And>i row. pc_row (dr_pc d) = Some (i, row) \<Longrightarrow> ib_conversationId row = dr_conversation d \<and>
        (\<exists>r. map_of t i = Some r \<and> stage_ok (dr_pc d) i row r)"
  shows "drain_ok key_of t d"
  using assms by (auto simp: drain_ok_def)

lemma stage_ok_next:
  "stage_ok pc i row r \<Longrightarrow> in_flight pc' = Some i \<longrightarrow> in_flight pc = Some i \<Longrightarrow>
   pc' \<noteq> Examine i row \<Longrightarrow> (\<And>seen. pc' \<noteq> Held seen (i, row)) \<Longrightarrow> stage_ok pc' i row r"
  by (auto simp: stage_ok_def)

lemma drain_ok_examine:
  assumes looked: "examine now i row (dr_conversation d) db = (db', pc)"
    and ok: "drain_ok key_of (in_rows db) d" and pc: "dr_pc d = Examine i row"
  shows "drain_ok key_of (in_rows db') (d\<lparr>dr_pc := pc\<rparr>)"
proof -
  have conversation: "dr_conversation d \<noteq> []" using ok by (simp add: drain_ok_def)
  obtain r where r: "map_of (in_rows db) i = Some r" "stage_ok (Examine i row) i row r"
      "ib_conversationId row = dr_conversation d"
    using drain_ok_row [OF ok, of i row] pc by auto
  show ?thesis
    using looked
  proof (cases rule: examine_cases)
    case (abandoned error)
    then show ?thesis
      using r conversation by (auto intro!: drain_okI elim!: stage_ok_next)
  next
    case attempted
    show ?thesis
    proof (cases "snd (start_attempt i (ib_inline row) now (in_rows db))")
      case True
      then have "\<exists>r'. map_of (in_rows db') i = Some r' \<and> stage_ok (Deliver i row) i row r'"
        using r attempted(1)
        by (auto simp: fst_start_attempt snd_start_attempt table_ops stage_ok_def moves_simps)
      then show ?thesis using True attempted r(3) conversation by (auto intro!: drain_okI)
    next
      case False
      with attempted conversation show ?thesis by (auto intro!: drain_okI)
    qed
  qed (use conversation in \<open>auto intro!: drain_okI\<close>)
qed

lemma after_delivery_cases:
  assumes "after_delivery now i row outcome c db = (db', pc)"
  obtains (recheck) "in_rows db' = in_rows db" "pc = Recheck i row"
  | (finish) settling where "in_rows db' = in_rows db" "pc = FinishAutomation i row settling"
  | (leave) ended where "pc = Unlock ended"
  using assms by (cases outcome) (auto simp: after_delivery_def Let_def split: if_splits)

lemma drain_ok_after_delivery:
  assumes ended: "after_delivery now i row outcome (dr_conversation d) db = (db', pc)"
    and ok: "drain_ok key_of (in_rows db) d" and pc: "dr_pc d = Deliver i row"
  shows "drain_ok key_of (in_rows db') (d\<lparr>dr_pc := pc\<rparr>)"
proof -
  have conversation: "dr_conversation d \<noteq> []" using ok by (simp add: drain_ok_def)
  obtain r where r: "map_of (in_rows db) i = Some r" "stage_ok (Deliver i row) i row r"
      "ib_conversationId row = dr_conversation d"
    using drain_ok_row [OF ok, of i row] pc by auto
  show ?thesis
    using ended
    by (cases rule: after_delivery_cases)
      (use r conversation in \<open>auto intro!: drain_okI elim!: stage_ok_next split: if_splits\<close>)
qed

text \<open>The places that write no row keep what is known of it.\<close>

lemma drain_ok_next:
  assumes "drain_ok key_of t d" "pc_row (dr_pc d) = Some (i, row)"
    "pc_row pc = Some (i, row) \<or> pc_row pc = None" "in_flight pc = Some i \<longrightarrow> in_flight (dr_pc d) = Some i"
    "pc = Examine i row \<longrightarrow> (\<exists>seen. dr_pc d = Held seen (i, row))"
    "\<And>seen found. pc \<noteq> Held seen found" "\<And>found. pc \<noteq> FirstHeld found" "\<And>found. pc \<noteq> TakeLock found"
  shows "drain_ok key_of t (d\<lparr>dr_pc := pc\<rparr>)"
proof -
  obtain r where "map_of t i = Some r" "stage_ok (dr_pc d) i row r" "ib_conversationId row = dr_conversation d"
    using drain_ok_row [OF assms(1,2)] by metis
  then show ?thesis
    using assms by (intro drain_okI) (auto simp: stage_ok_def drain_ok_def)
qed

lemma drain_ok_step:
  assumes step: "drain_step parse now outcome d db = (db', d')"
    and ok: "drain_ok key_of (in_rows db) d" and table: "jsmap_ok (in_rows db)"
    and rows: "\<And>i row. map_of (in_rows db) i = Some row \<Longrightarrow> parent_ok key_of row"
  shows "drain_ok key_of (in_rows db') d'"
proof (cases "dr_pc d")
  case FirstLook
  show ?thesis
  proof (cases "oldest_pending (dr_conversation d) now (in_rows db)")
    case None
    with step FirstLook ok show ?thesis by (auto simp: drain_step_def drain_ok_def)
  next
    case (Some entry)
    then obtain i row where entry: "entry = (i, row)" by (cases entry) auto
    have "map_of (in_rows db) i = Some row"
      using fresh_look(1) [OF table] Some ok by (simp add: entry drain_ok_def)
    then show ?thesis
      using step FirstLook Some ok rows by (auto simp: drain_step_def drain_ok_def entry)
  qed
next
  case (FirstHeld found)
  with step ok show ?thesis by (cases found) (auto simp: drain_step_def drain_ok_def split: if_splits)
next
  case (TakeLock found)
  with step ok show ?thesis
    by (cases found) (auto simp: drain_step_def Let_def drain_ok_def split: if_splits)
next
  case Look
  show ?thesis
  proof (cases "oldest_pending (dr_conversation d) now (in_rows db)")
    case None
    with step Look ok show ?thesis by (auto simp: drain_step_def drain_ok_def)
  next
    case (Some entry)
    then obtain i row where entry: "entry = (i, row)" by (cases entry) auto
    have "map_of (in_rows db) i = Some row" "ib_conversationId row = dr_conversation d"
      using fresh_look [OF table] Some ok by (simp_all add: entry drain_ok_def)
    then show ?thesis
      using step Look Some ok by (auto simp: drain_step_def drain_ok_def entry stage_ok_def)
  qed
next
  case (Held seen found)
  obtain i row where found: "found = (i, row)" by (cases found) auto
  have "drain_ok key_of (in_rows db) (d\<lparr>dr_pc := pc\<rparr>)" if "pc = Examine i row \<or> pc = Unlock Drained" for pc
    using that by (intro drain_ok_next [OF ok]) (auto simp: Held found)
  then show ?thesis using step Held by (auto simp: drain_step_def found)
next
  case (Examine i row)
  obtain db1 pc where looked: "examine now i row (dr_conversation d) db = (db1, pc)"
    by (rule prod.exhaust)
  then have "db1 = db'" "d' = d\<lparr>dr_pc := pc\<rparr>" using step Examine by (auto simp: drain_step_def Let_def)
  then show ?thesis using drain_ok_examine [OF looked ok Examine] by simp
next
  case (Deliver i row)
  obtain db1 pc where ended: "after_delivery now i row outcome (dr_conversation d) db = (db1, pc)"
    by (rule prod.exhaust)
  then have "db1 = db'" "d' = d\<lparr>dr_pc := pc\<rparr>" using step Deliver by (auto simp: drain_step_def Let_def)
  then show ?thesis using drain_ok_after_delivery [OF ended ok Deliver] by simp
next
  case (FinishAutomation i row settling)
  have "drain_ok key_of (in_rows db) (d\<lparr>dr_pc := FinishWakeup i row settling\<rparr>)"
    by (rule drain_ok_next [OF ok, of i row]) (auto simp: FinishAutomation)
  then show ?thesis using step FinishAutomation by (auto simp: drain_step_def Let_def)
next
  case (FinishWakeup i row settling)
  have "drain_ok key_of (in_rows db) (d\<lparr>dr_pc := pc\<rparr>)"
    if "pc = Mark i row settling \<or> pc = RetireWakeup i row settling" for pc
    using that by (intro drain_ok_next [OF ok, of i row]) (auto simp: FinishWakeup)
  moreover have "in_rows db' = in_rows db \<and>
      (d' = d\<lparr>dr_pc := Mark i row settling\<rparr> \<or> d' = d\<lparr>dr_pc := RetireWakeup i row settling\<rparr>)"
    using step FinishWakeup
    by (simp add: drain_step_def Let_def split: option.splits prod.splits if_splits) auto
  ultimately show ?thesis by auto
next
  case (RetireWakeup i row settling)
  have "drain_ok key_of (in_rows db) (d\<lparr>dr_pc := Mark i row settling\<rparr>)"
    by (rule drain_ok_next [OF ok, of i row]) (auto simp: RetireWakeup)
  then show ?thesis using step RetireWakeup by (auto simp: drain_step_def Let_def)
next
  case (Mark i row settling)
  with step ok show ?thesis
    by (cases settling) (auto simp: drain_step_def Let_def drain_ok_def)
next
  case (Recheck i row)
  with step ok show ?thesis by (auto simp: drain_step_def drain_ok_def split: if_splits)
next
  case (Unlock ended)
  with step ok show ?thesis by (auto simp: drain_step_def drain_ok_def)
next
  case (DrainEnded ended)
  with step ok show ?thesis by (auto simp: drain_step_def)
qed

lemma nth_update_cases:
  assumes "e \<in> set (xs[n := y])"
  obtains "e = y" | m where "m < length xs" "m \<noteq> n" "e = xs ! m"
proof -
  obtain m where "m < length xs" "e = xs[n := y] ! m" using assms by (auto simp: in_set_conv_nth)
  then show ?thesis using that by (cases "m = n") auto
qed

lemma map_update_same: "n < length xs \<Longrightarrow> f y = f (xs ! n) \<Longrightarrow> map f (xs[n := y]) = map f xs"
  by (metis list_update_id map_update)

lemma row_ok_drain:
  assumes ok: "inbox_ok key_of s" and time: "is_clock s \<le> now" and d: "d \<in> set (is_drains s)"
    and rows: "drain_rows (dr_pc d) (is_rows s) t'" and row: "map_of t' i = Some r'"
  shows "row_ok key_of now r'"
proof -
  obtain r where r: "map_of (is_rows s) i = Some r"
    using drain_rows_new [OF rows] row by (cases "map_of (is_rows s) i") auto
  then have moved: "drain_row (dr_pc d) i r r'" using drain_rows_old [OF rows r] row by auto
  have "ib_attempts r' \<le> FAST_AGENT_PARENT_EVENT_MAX_ATTEMPTS"
  proof (cases "ib_attempts r' = ib_attempts r")
    case True
    then show ?thesis using inbox_okD(2) [OF ok r] by (simp add: row_ok_def)
  next
    case False
    then obtain row where at_row: "dr_pc d = Examine i row"
        "ib_attempts row < FAST_AGENT_PARENT_EVENT_MAX_ATTEMPTS" "ib_attempts r' = ib_attempts r + 1"
      using moved by (auto simp: drain_row_def)
    moreover obtain r'' where "map_of (is_rows s) i = Some r''" "stage_ok (dr_pc d) i row r''"
      using drain_ok_row [OF inbox_okD(4) [OF ok d], of i row] at_row(1) by auto
    ultimately show ?thesis using r by (auto simp: stage_ok_def)
  qed
  then show ?thesis
    using moved inbox_okD(2) [OF ok r] time
    by (auto simp: row_ok_def parent_ok_def drain_row_def row_moves_fields)
qed

lemma holds_lock_step:
  assumes step: "lock_step locks locks' d d'" and holds: "holds_lock key_of locks d"
    and ok: "drain_ok key_of t d"
  shows "holds_lock key_of locks' d'"
proof -
  have "buildFastAgentTurnLockKey (ib_parent row) = key_of (dr_conversation d)"
    if "dr_pc d = TakeLock (i, row)" "fp_sessionId (ib_parent row) = dr_conversation d" for i row
    using that ok by (auto simp: drain_ok_def parent_ok_def)
  then show ?thesis
    using step holds by (auto simp: lock_step_def holds_lock_def update_conv)
qed

lemma other_drain:
  assumes "inbox_ok key_of s" "n < length (is_drains s)" "m < length (is_drains s)" "m \<noteq> n"
  shows "is_drains s ! m \<noteq> is_drains s ! n" "dr_token (is_drains s ! m) \<noteq> dr_token (is_drains s ! n)"
proof -
  have "distinct (map dr_token (is_drains s))" using inbox_okD(6) [OF assms(1)] by simp
  then show "dr_token (is_drains s ! m) \<noteq> dr_token (is_drains s ! n)"
    using assms(2-4) nth_eq_iff_index_eq [of "map dr_token (is_drains s)" m n] by auto
  then show "is_drains s ! m \<noteq> is_drains s ! n" by auto
qed

lemma drain_rows_moves:
  assumes "drain_rows pc t t'" "map_of t i = Some r"
  shows "\<exists>r'. map_of t' i = Some r' \<and> row_moves r r'"
  using drain_rows_old [OF assms] by (auto simp: drain_row_def)

lemma system_drain_rows:
  assumes ok: "inbox_ok key_of s" and d: "d \<in> set (is_drains s)"
    and step: "drain_step parse now outcome d (is_db s) = (db, d')"
  shows "drain_rows (dr_pc d) (is_rows s) (in_rows db)"
  unfolding is_rows_def
proof (rule drain_rows_step [OF step])
  fix i row r
  assume at_row: "pc_row (dr_pc d) = Some (i, row)" "map_of (in_rows (is_db s)) i = Some r"
  show "ib_event r = ib_event row"
    by (rule drain_ok_row [OF inbox_okD(4) [OF ok d] at_row(1)]) (use at_row(2) in \<open>simp add: is_rows_def\<close>)
qed

lemma inbox_ok_drain:
  assumes ok: "inbox_ok key_of s" and time: "is_clock s \<le> now"
    and n: "n < length (is_drains s)" "is_drains s ! n = d"
    and step: "drain_step parse now outcome d (is_db s) = (db, d')"
  shows "inbox_ok key_of (s\<lparr>is_db := db, is_clock := now, is_drains := (is_drains s)[n := d'],
                            is_log := history\<rparr>)" (is "inbox_ok key_of ?s'")
proof -
  have d: "d \<in> set (is_drains s)" using n by auto
  have lock: "lock_step (in_locks (is_db s)) (in_locks db) d d'" by (rule drain_lock_step [OF step])
  have rows: "drain_rows (dr_pc d) (is_rows s) (in_rows db)" by (rule system_drain_rows [OF ok d step])
  have table: "jsmap_ok (in_rows (is_db s))" using inbox_okD(1) [OF ok] by (simp add: is_rows_def)
  have same: "is_rows ?s' = in_rows db" by (simp add: is_rows_def)
  show ?thesis
  proof (rule inbox_okI, unfold same)
    show "jsmap_ok (in_rows db)" by (rule jsmap_ok_drain_step [OF step table])
  next
    fix i row
    assume "map_of (in_rows db) i = Some row"
    then show "row_ok key_of (is_clock ?s') row" using row_ok_drain [OF ok time d rows] by simp
  next
    fix e
    assume "e \<in> set (is_drains ?s')"
    then have e: "e \<in> set ((is_drains s)[n := d'])" by simp
    show "holds_lock key_of (in_locks (is_db ?s')) e"
      using e
    proof (cases rule: nth_update_cases)
      case 1
      then show ?thesis
        using holds_lock_step [OF lock inbox_okD(3) [OF ok d] inbox_okD(4) [OF ok d]] by simp
    next
      case (2 m)
      then show ?thesis
        using inbox_okD(3) [OF ok, of e] other_drain(2) [OF ok n(1) 2(1,2)] lock_kept [OF lock] n(2)
        by (auto simp: holds_lock_def)
    qed
    show "drain_ok key_of (in_rows db) e"
      using e
    proof (cases rule: nth_update_cases)
      case 1
      have "parent_ok key_of row" if "map_of (in_rows (is_db s)) i = Some row" for i row
        using inbox_okD(2) [OF ok, of i row] that by (simp add: is_rows_def row_ok_def)
      with 1 show ?thesis
        using drain_ok_step [OF step _ table] inbox_okD(4) [OF ok d] by (simp add: is_rows_def)
    next
      case (2 m)
      then have e: "e \<in> set (is_drains s)" "d \<noteq> e" using other_drain(1) [OF ok n(1) 2(1,2)] n(2) by auto
      show ?thesis
        using drain_ok_frame [OF inbox_okD(4) [OF ok e(1)]] undisturbed_drain [OF ok d e(1) _ e(2) rows]
        by blast
    qed
  next
    fix turn
    assume "turn \<in> set (is_turns ?s')"
    then have turn: "turn \<in> set (is_turns s)" by simp
    obtain token key own where parts: "turn = (token, key, own)" by (cases turn) auto
    have "token \<noteq> dr_token d" using turn_is_no_drain [OF ok d] turn parts by blast
    then have "turn_ok key_of (is_rows s) (in_locks db) turn"
      using inbox_okD(5) [OF ok turn] lock_kept [OF lock] by (auto simp: turn_ok_def parts)
    then show "turn_ok key_of (in_rows db) (in_locks (is_db ?s')) turn"
      using turn_ok_moves drain_rows_moves [OF rows] by simp
  next
    have "dr_token d' = dr_token (is_drains s ! n)" using lock n(2) by (simp add: lock_step_def)
    then show "distinct (map dr_token (is_drains ?s') @ map fst (is_turns ?s'))"
      using inbox_okD(6) [OF ok] map_update_same [OF n(1), of dr_token d'] by simp
  qed
qed

subsection \<open>The other steps\<close>

lemma distinct_map_filter_append:
  "distinct (map f xs @ map g ys) \<Longrightarrow> distinct (map f (filter p xs) @ map g (filter q ys))"
  by (auto simp: distinct_map_filter)

lemma token_unused:
  assumes "token \<notin> used_tokens s"
  shows "token \<notin> dr_token ` set (is_drains s)" "token \<notin> fst ` set (is_turns s)"
    "map_of (in_locks (is_db s)) key \<noteq> Some token" "(token, i) \<notin> set (is_steers s)"
proof -
  have unused: "token \<notin> snd ` set (in_locks (is_db s))" "token \<notin> fst ` set (is_steers s)"
    and free: "token \<notin> dr_token ` set (is_drains s)" "token \<notin> fst ` set (is_turns s)"
    using assms by (simp_all add: used_tokens_def)
  then show "token \<notin> dr_token ` set (is_drains s)" "token \<notin> fst ` set (is_turns s)" by simp_all
  show "map_of (in_locks (is_db s)) key \<noteq> Some token"
    using unused(1) map_of_SomeD by (metis image_eqI snd_conv)
  show "(token, i) \<notin> set (is_steers s)" using unused(2) by (metis fst_conv image_eqI)
qed

lemma locks_change:
  assumes ok: "inbox_ok key_of s" and rows: "is_rows s' = is_rows s" and time: "is_clock s' = is_clock s"
    and drains: "set (is_drains s') \<subseteq> set (is_drains s)"
    and turns: "\<And>token key own. (token, key, own) \<in> set (is_turns s') \<Longrightarrow>
        (token, key, own) \<in> set (is_turns s) \<or> turn_ok key_of (is_rows s) (in_locks (is_db s')) (token, key, own)"
    and kept: "\<And>key token. map_of (in_locks (is_db s)) key = Some token \<Longrightarrow>
        token \<in> dr_token ` set (is_drains s') \<union> fst ` set (is_turns s') \<Longrightarrow>
        map_of (in_locks (is_db s')) key = Some token"
    and tokens: "distinct (map dr_token (is_drains s') @ map fst (is_turns s'))"
  shows "inbox_ok key_of s'"
proof (rule inbox_okI, unfold rows time)
  fix d
  assume d: "d \<in> set (is_drains s')"
  then have "d \<in> set (is_drains s)" using drains by auto
  then have held: "holds_lock key_of (in_locks (is_db s)) d" by (rule inbox_okD(3) [OF ok])
  show "drain_ok key_of (is_rows s) d" by (rule inbox_okD(4) [OF ok]) (rule \<open>d \<in> set (is_drains s)\<close>)
  show "holds_lock key_of (in_locks (is_db s')) d"
    using held kept [of "dr_lockKey d" "dr_token d"] d unfolding holds_lock_def by (metis UnI1 imageI)
next
  fix turn
  assume turn: "turn \<in> set (is_turns s')"
  obtain token key own where parts: "turn = (token, key, own)" by (cases turn) auto
  have running: "token \<in> fst ` set (is_turns s')" using turn parts by force
  have "turn_ok key_of (is_rows s) (in_locks (is_db s')) turn" if "turn \<in> set (is_turns s)"
    using inbox_okD(5) [OF ok that] kept [of key token] running unfolding turn_ok_def parts by simp
  then show "turn_ok key_of (is_rows s) (in_locks (is_db s')) turn"
    using turns [of token key own] turn parts by blast
qed (use inbox_okD(1,2) [OF ok] tokens in auto)

lemma inbox_ok_start:
  assumes ok: "inbox_ok key_of s" and fresh: "token \<notin> used_tokens s" and conversation: "conversation \<noteq> []"
  shows "inbox_ok key_of (s\<lparr>is_drains := is_drains s @ [new_drain conversation token]\<rparr>)"
proof (rule inbox_okI)
  fix d
  assume "d \<in> set (is_drains (s\<lparr>is_drains := is_drains s @ [new_drain conversation token]\<rparr>))"
  then have "d \<in> set (is_drains s) \<or> d = new_drain conversation token" by auto
  then show "holds_lock key_of (in_locks (is_db (s\<lparr>is_drains := is_drains s @ [new_drain conversation token]\<rparr>))) d"
    "drain_ok key_of (is_rows (s\<lparr>is_drains := is_drains s @ [new_drain conversation token]\<rparr>)) d"
    using inbox_okD(3,4) [OF ok] conversation
    by (auto simp: holds_lock_def drain_ok_def new_drain_def is_rows_def)
next
  show "distinct (map dr_token (is_drains (s\<lparr>is_drains := is_drains s @ [new_drain conversation token]\<rparr>)) @
      map fst (is_turns (s\<lparr>is_drains := is_drains s @ [new_drain conversation token]\<rparr>)))"
    using inbox_okD(6) [OF ok] token_unused(1,2) [OF fresh] by (auto simp: new_drain_def)
qed (use inbox_okD(1,2,5) [OF ok] in \<open>auto simp: is_rows_def\<close>)

lemma inbox_ok_gone:
  assumes ok: "inbox_ok key_of s"
  shows "inbox_ok key_of (s\<lparr>is_drains := filter p (is_drains s), is_steers := steers\<rparr>)"
proof (rule locks_change [OF ok])
  show "distinct (map dr_token (is_drains (s\<lparr>is_drains := filter p (is_drains s), is_steers := steers\<rparr>)) @
      map fst (is_turns (s\<lparr>is_drains := filter p (is_drains s), is_steers := steers\<rparr>)))"
    using distinct_map_filter_append [OF inbox_okD(6) [OF ok], of p "\<lambda>x. True"] by simp
qed (auto simp: is_rows_def)

lemma inbox_ok_turns_gone:
  assumes ok: "inbox_ok key_of s"
  shows "inbox_ok key_of (s\<lparr>is_turns := filter p (is_turns s), is_steers := steers\<rparr>)"
proof (rule locks_change [OF ok])
  show "distinct (map dr_token (is_drains (s\<lparr>is_turns := filter p (is_turns s), is_steers := steers\<rparr>)) @
      map fst (is_turns (s\<lparr>is_turns := filter p (is_turns s), is_steers := steers\<rparr>)))"
    using distinct_map_filter_append [OF inbox_okD(6) [OF ok], of "\<lambda>x. True" p] by simp
qed (auto simp: is_rows_def)

lemma inbox_ok_turn_begins:
  assumes ok: "inbox_ok key_of s" and fresh: "token \<notin> used_tokens s"
    and free: "map_of (in_locks (is_db s)) key = None"
  shows "inbox_ok key_of (s\<lparr>is_db := (is_db s)\<lparr>in_locks := AList.update key token (in_locks (is_db s))\<rparr>,
                            is_turns := (token, key, None) # is_turns s\<rparr>)" (is "inbox_ok key_of ?s'")
proof (rule locks_change [OF ok])
  show "distinct (map dr_token (is_drains ?s') @ map fst (is_turns ?s'))"
    using inbox_okD(6) [OF ok] token_unused(1,2) [OF fresh] by auto
qed (use free in \<open>auto simp: is_rows_def turn_ok_def update_conv\<close>)

lemma inbox_ok_takes_row:
  assumes ok: "inbox_ok key_of s" and turns: "is_turns s = first @ (token, key, own) # rest"
    and row: "map_of (is_rows s) i = Some row" and key: "key = key_of (ib_conversationId row)"
  shows "inbox_ok key_of (s\<lparr>is_turns := first @ (token, key, Some i) # rest\<rparr>)" (is "inbox_ok key_of ?s'")
proof (rule locks_change [OF ok])
  fix token' key' own'
  assume "(token', key', own') \<in> set (is_turns ?s')"
  moreover have "turn_ok key_of (is_rows s) (in_locks (is_db s)) (token, key, own)"
    by (rule inbox_okD(5) [OF ok]) (simp add: turns)
  ultimately show "(token', key', own') \<in> set (is_turns s) \<or>
      turn_ok key_of (is_rows s) (in_locks (is_db ?s')) (token', key', own')"
    using row key by (auto simp: turns turn_ok_def)
next
  show "distinct (map dr_token (is_drains ?s') @ map fst (is_turns ?s'))"
    using inbox_okD(6) [OF ok] by (simp add: turns)
qed (auto simp: is_rows_def)

text \<open>Nobody else loses a lock when one is given back or expires.\<close>

lemma inbox_ok_unlock:
  assumes ok: "inbox_ok key_of s"
    and turns: "set ts \<subseteq> set (is_turns s)" "distinct (map dr_token (is_drains s) @ map fst ts)"
    and unheld: "\<And>token. map_of (in_locks (is_db s)) key = Some token \<Longrightarrow>
        token \<notin> dr_token ` set (is_drains s) \<union> fst ` set ts"
  shows "inbox_ok key_of (s\<lparr>is_db := (is_db s)\<lparr>in_locks := AList.delete key (in_locks (is_db s))\<rparr>,
                            is_turns := ts\<rparr>)"
  by (rule locks_change [OF ok]) (use turns unheld in \<open>auto simp: is_rows_def delete_conv\<close>)

lemma inbox_ok_turn_ends:
  assumes ok: "inbox_ok key_of s" and turn: "(token, key, own) \<in> set (is_turns s)"
  shows "inbox_ok key_of (s\<lparr>is_db := (is_db s)\<lparr>in_locks :=
             (if map_of (in_locks (is_db s)) key = Some token
              then AList.delete key (in_locks (is_db s)) else in_locks (is_db s))\<rparr>,
          is_turns := filter (\<lambda>(tok, k, own'). tok \<noteq> token) (is_turns s)\<rparr>)"
proof -
  let ?ts = "filter (\<lambda>(tok, k, own'). tok \<noteq> token) (is_turns s)"
  have held: "map_of (in_locks (is_db s)) key = Some token"
    using inbox_okD(5) [OF ok turn] by (simp add: turn_ok_def)
  have "token \<notin> dr_token ` set (is_drains s)" using turn_is_no_drain [OF ok _ turn] by auto
  moreover have "distinct (map dr_token (is_drains s) @ map fst ?ts)"
    using distinct_map_filter_append [OF inbox_okD(6) [OF ok], of "\<lambda>x. True"] by simp
  moreover have "token \<notin> fst ` set ?ts" by auto
  ultimately have "inbox_ok key_of (s\<lparr>is_db := (is_db s)\<lparr>in_locks :=
      AList.delete key (in_locks (is_db s))\<rparr>, is_turns := ?ts\<rparr>)"
    using held by (intro inbox_ok_unlock [OF ok]) auto
  then show ?thesis using held by simp
qed

lemma inbox_ok_expires:
  assumes ok: "inbox_ok key_of s" and held: "map_of (in_locks (is_db s)) key = Some token"
    and dead: "token \<notin> dr_token ` set (is_drains s) \<union> fst ` set (is_turns s)"
  shows "inbox_ok key_of (s\<lparr>is_db := (is_db s)\<lparr>in_locks := AList.delete key (in_locks (is_db s))\<rparr>\<rparr>)"
  using inbox_ok_unlock [OF ok, of "is_turns s" key] inbox_okD(6) [OF ok] held dead by simp

lemma inbox_ok_observed [simp]: "inbox_ok key_of (observed s) \<longleftrightarrow> inbox_ok key_of s"
  by (simp add: inbox_ok_def observed_def is_rows_def)

lemma inbox_ok_step:
  assumes "inbox_step False races parse key_of s s'" "inbox_ok key_of s"
  shows "inbox_ok key_of s'"
  using assms
proof cases
  case (operation now op)
  with assms(2) show ?thesis using inbox_ok_op by blast
next
  case (drain now n d outcome db d')
  with assms(2) show ?thesis using inbox_ok_drain by blast
next
  case (start_drain token conversation)
  with assms(2) show ?thesis using inbox_ok_start by blast
next
  case (drain_gone d)
  with assms(2) show ?thesis using inbox_ok_gone by blast
next
  case (turn_begins token conversation)
  with assms(2) show ?thesis using inbox_ok_turn_begins by blast
next
  case (turn_takes_row first token key own rest i row)
  with assms(2) show ?thesis using inbox_ok_takes_row by blast
next
  case (turn_ends token key own)
  with assms(2) show ?thesis using inbox_ok_turn_ends by blast
next
  case (turn_crashes token key own)
  with assms(2) show ?thesis using inbox_ok_turns_gone by blast
next
  case (lock_expires key token)
  with assms(2) show ?thesis using inbox_ok_expires by blast
qed

theorem reachable_inbox_ok: "reachable_inbox False races parse key_of s \<Longrightarrow> inbox_ok key_of s"
proof (induction rule: reachable_inbox.induct)
  case (empty now)
  then show ?case by (simp add: inbox_ok_def empty_inbox_def is_rows_def)
next
  case (step s s')
  then show ?case using inbox_ok_step by simp
qed

subsection \<open>The attempts of an event\<close>


subsection \<open>Example runs\<close>

text \<open>A drain that works alone, in an inbox without parked events.\<close>

definition drain_once ::
    "(string \<Rightarrow> ms option) \<Rightarrow> ms \<Rightarrow> delivery \<Rightarrow> inbox_system \<Rightarrow> inbox_system option" where
  "drain_once parse now outcome s =
     (case is_drains s of
        d # ds \<Rightarrow>
          if is_clock s \<le> now \<and> is_steers s = [] \<and>
             list_all (\<lambda>(i, row). ib_retryAt row = None) (is_rows s)
          then (case drain_step parse now outcome d (is_db s) of
                  (db, d') \<Rightarrow>
                    Some (observed (s\<lparr>is_db := db, is_clock := now, is_drains := d' # ds,
                                     is_log := is_log s @ step_log (dr_pc d) (dr_pc d')\<rparr>)))
          else None
      | [] \<Rightarrow> None)"

primrec drain_run ::
    "(string \<Rightarrow> ms option) \<Rightarrow> ms \<Rightarrow> delivery \<Rightarrow> nat \<Rightarrow> inbox_system \<Rightarrow> inbox_system option" where
  "drain_run parse now outcome 0 s = Some s"
| "drain_run parse now outcome (Suc n) s =
     Option.bind (drain_once parse now outcome s) (drain_run parse now outcome n)"

lemma drain_once_reachable:
  assumes reach: "reachable_inbox lapses races parse key_of s" and once: "drain_once parse now outcome s = Some s'"
  shows "reachable_inbox lapses races parse key_of s'"
proof -
  obtain d ds where drains: "is_drains s = d # ds"
    using once by (auto simp: drain_once_def split: list.splits)
  obtain db d' where step: "drain_step parse now outcome d (is_db s) = (db, d')" by (rule prod.exhaust)
  have ready: "is_clock s \<le> now" "is_steers s = []" "list_all (\<lambda>(i, row). ib_retryAt row = None) (is_rows s)"
    and s': "s' = observed (s\<lparr>is_db := db, is_clock := now, is_drains := (is_drains s)[0 := d'],
                  is_log := is_log s @ step_log (dr_pc d) (dr_pc d')\<rparr>)"
    using once by (auto simp: drain_once_def drains step split: if_splits)
  have "\<not> due_between c seen now (is_rows s)" for c seen
    using ready(3) by (auto simp: due_between_def list_all_iff list_ex_iff after_def)
  then have "inbox_step lapses races parse key_of s
      (s\<lparr>is_db := db, is_clock := now, is_drains := (is_drains s)[0 := d'],
         is_log := is_log s @ step_log (dr_pc d) (dr_pc d')\<rparr>)"
    using ready(1,2) step by (intro inbox_step.drain) (auto simp: drains)
  then show ?thesis unfolding s' by (rule reachable_inbox.step [OF reach])
qed

lemma drain_run_reachable:
  "reachable_inbox lapses races parse key_of s \<Longrightarrow> drain_run parse now outcome n s = Some s' \<Longrightarrow>
   reachable_inbox lapses races parse key_of s'"
  by (induction n arbitrary: s) (auto simp: bind_eq_Some_conv dest: drain_once_reachable)

lemma op_reachable:
  "reachable_inbox lapses races parse key_of s \<Longrightarrow> is_clock s \<le> now \<Longrightarrow> op_allowed key_of op s \<Longrightarrow>
   reachable_inbox lapses races parse key_of (observed (inbox_op_step now op s\<lparr>is_clock := now\<rparr>))"
  by (blast intro: reachable_inbox.step inbox_step.operation)

definition example_message :: "string \<Rightarrow> event_admission" where
  "example_message i =
     \<lparr>ad_parent = example_parent ''s'',
      ad_event = JObj [(''type'', JStr ''human_follow_up''), (''eventId'', JStr i),
                       (''currentMessageId'', JStr i), (''userId'', JStr ''u''),
                       (''webFollowUp'', JBool True)],
      ad_eventKey = i\<rparr>"

definition example_key :: "string \<Rightarrow> string" where
  "example_key c = buildFastAgentTurnLockKey (example_parent c)"

definition example_queued :: inbox_system where
  "example_queued =
     (let s1 = observed (inbox_op_step 1000 (OpEnqueue (example_message ''a'') None ''1'') (empty_inbox 0)
                          \<lparr>is_clock := 1000\<rparr>);
          s2 = observed (inbox_op_step 2000 (OpEnqueue (example_message ''b'') None ''2'') s1
                          \<lparr>is_clock := 2000\<rparr>) in
      observed (s2\<lparr>is_drains := is_drains s2 @ [new_drain ''s'' 7]\<rparr>))"

text \<open>The first message is delivered, and the drain is about to attempt the second.\<close>

definition example_second :: inbox_system where
  "example_second = the (drain_run (\<lambda>s. None) 3000 DeliveryOk 12 example_queued)"

lemma example_queued_reachable: "reachable_inbox lapses races parse example_key example_queued"
proof -
  let ?s1 = "observed (inbox_op_step 1000 (OpEnqueue (example_message ''a'') None ''1'') (empty_inbox 0)
                          \<lparr>is_clock := 1000\<rparr>)"
  let ?s2 = "observed (inbox_op_step 2000 (OpEnqueue (example_message ''b'') None ''2'') ?s1
                          \<lparr>is_clock := 2000\<rparr>)"
  have "reachable_inbox lapses races parse example_key ?s1"
    by (rule op_reachable [OF reachable_inbox.empty])
      (simp_all add: empty_inbox_def fresh_row_def is_rows_def example_key_def example_message_def
        example_parent_def)
  then have "reachable_inbox lapses races parse example_key ?s2"
    by (rule op_reachable)
      (simp_all add: observed_def fresh_row_def is_rows_def set_rows_def empty_inbox_def
        enqueueFastAgentParentEvent_row_def insert_event_def find_event_def insert_row_def
        example_key_def example_message_def example_parent_def)
  moreover have "7 \<notin> used_tokens ?s2" by (simp add: used_tokens_def observed_def set_rows_def empty_inbox_def)
  ultimately show ?thesis
    unfolding example_queued_def Let_def
    by (blast intro: reachable_inbox.step inbox_step.start_drain)
qed

lemma example_second_run: "drain_run (\<lambda>s. None) 3000 DeliveryOk 12 example_queued = Some example_second"
proof -
  have "drain_run (\<lambda>s. None) 3000 DeliveryOk 12 example_queued \<noteq> None" by code_simp
  then show ?thesis by (simp add: example_second_def)
qed

lemma example_second_reachable: "reachable_inbox lapses races (\<lambda>s. None) example_key example_second"
  by (rule drain_run_reachable [OF example_queued_reachable example_second_run])


end
