(* ===== verification/InboxDelivery.thy ===== *)
theory InboxDelivery
  imports InboxSafety
begin

section \<open>Withdrawn messages\<close>

text \<open>
  A message that its sender withdrew on the web page is not delivered: neither by a drain nor by a
  turn that steers it. What makes it so is that the drain counts the attempt and a turn takes its
  claim before the agent sees the message, and a withdrawal looks at both.
\<close>

subsection \<open>Who steers a message\<close>

definition steer_owner :: "(string \<Rightarrow> string) \<Rightarrow> inbox_system \<Rightarrow> nat \<Rightarrow> string \<Rightarrow> string \<Rightarrow> bool" where
  "steer_owner key_of s token i c \<longleftrightarrow>
     (\<exists>own. (token, key_of c, own) \<in> set (is_turns s) \<and> own \<noteq> Some i) \<or>
     (\<exists>d \<in> set (is_drains s). dr_token d = token \<and> dr_conversation d = c \<and>
        (\<exists>j r. dr_pc d = Deliver j r \<and> j \<noteq> i))"

lemma owner_cases:
  assumes "steer_owner key_of s token i c"
  obtains (turn) own where "(token, key_of c, own) \<in> set (is_turns s)" "own \<noteq> Some i"
  | (drain) d j r where "d \<in> set (is_drains s)" "dr_token d = token" "dr_conversation d = c"
      "dr_pc d = Deliver j r" "j \<noteq> i"
  using assms by (auto simp: steer_owner_def)

lemma owner_turnI: "(token, key_of c, own) \<in> set (is_turns s) \<Longrightarrow> own \<noteq> Some i \<Longrightarrow> steer_owner key_of s token i c"
  by (auto simp: steer_owner_def)

lemma owner_drainI:
  "d \<in> set (is_drains s) \<Longrightarrow> dr_token d = token \<Longrightarrow> dr_conversation d = c \<Longrightarrow> dr_pc d = Deliver j r \<Longrightarrow>
   j \<noteq> i \<Longrightarrow> steer_owner key_of s token i c"
  by (auto simp: steer_owner_def)

lemma owner_beside_turn:
  assumes ok: "inbox_ok key_of s" and owner: "steer_owner key_of s token i c"
    and turn: "(token', key_of c, own') \<in> set (is_turns s)"
  shows "token' = token \<and> own' \<noteq> Some i"
  using owner
proof (cases rule: owner_cases)
  case (turn own)
  then show ?thesis using one_turn [OF ok turn(1) assms(3)] by simp
next
  case (drain d j r)
  then show ?thesis using no_turn_beside_drain [OF ok drain(1)] assms(3) by auto
qed

lemma owner_beside_drain:
  assumes ok: "inbox_ok key_of s" and owner: "steer_owner key_of s token i c"
    and d: "d \<in> set (is_drains s)" "active (dr_pc d)" "dr_conversation d = c"
  shows "dr_token d = token \<and> (\<exists>j r. dr_pc d = Deliver j r \<and> j \<noteq> i)"
  using owner
proof (cases rule: owner_cases)
  case (turn own)
  then show ?thesis using no_turn_beside_drain [OF ok d(1,2)] d(3) by auto
next
  case (drain e j r)
  have "e = d" by (rule one_active_drain [OF ok drain(1) d(1)]) (simp_all add: drain d)
  then show ?thesis using drain by auto
qed

lemma one_owner:
  assumes ok: "inbox_ok key_of s"
    and "steer_owner key_of s token i c" "steer_owner key_of s token' i' c"
  shows "token' = token"
  using assms(3)
proof (cases rule: owner_cases)
  case (turn own)
  then show ?thesis using owner_beside_turn [OF ok assms(2)] by blast
next
  case (drain d j r)
  then show ?thesis using owner_beside_drain [OF ok assms(2) drain(1)] by auto
qed

subsection \<open>The claim of a steered message\<close>

definition steered_ok :: "(string \<Rightarrow> string) \<Rightarrow> inbox_system \<Rightarrow> nat \<Rightarrow> string \<Rightarrow> inbox_row \<Rightarrow> bool" where
  "steered_ok key_of s token i r \<longleftrightarrow>
     \<not> ib_inline r \<and> event_type (ib_event r) = Some ''human_follow_up'' \<and>
     steer_owner key_of s token i (ib_conversationId r) \<and>
     (unsettled r \<longrightarrow> (\<exists>c. ib_claimedUntil r = Some c \<and> (i, c) \<notin> set (is_reservations s)))"

definition steers_ok :: "(string \<Rightarrow> string) \<Rightarrow> inbox_system \<Rightarrow> bool" where
  "steers_ok key_of s \<longleftrightarrow>
     (\<forall>(i, c) \<in> set (is_reservations s). c \<le> is_clock s + 30000) \<and>
     (\<forall>(token, i) \<in> set (is_steers s).
        \<exists>r. map_of (is_rows s) i = Some r \<and> steered_ok key_of s token i r)"

lemma steers_okD:
  assumes "steers_ok key_of s"
  shows "(i, c) \<in> set (is_reservations s) \<Longrightarrow> c \<le> is_clock s + 30000"
    "(token, i) \<in> set (is_steers s) \<Longrightarrow>
       \<exists>r. map_of (is_rows s) i = Some r \<and> steered_ok key_of s token i r"
  using assms by (auto simp: steers_ok_def)

lemma steers_okI:
  assumes "\<And>i c. (i, c) \<in> set (is_reservations s) \<Longrightarrow> c \<le> is_clock s + 30000"
    "\<And>token i. (token, i) \<in> set (is_steers s) \<Longrightarrow>
       \<exists>r. map_of (is_rows s) i = Some r \<and> steered_ok key_of s token i r"
  shows "steers_ok key_of s"
  using assms by (auto simp: steers_ok_def)

lemma reserved_row:
  assumes "reserveFastSessionQueuedMessageForSteer session message persisted now t = (t', Reserved i key token)"
  shows "token = now + 30000" "\<exists>r. map_of t i = Some r \<and> ib_claimedUntil r = None"
proof -
  obtain j oldest rest where queued: "queued_messages session t = (j, oldest) # rest"
    using assms by (auto simp: reserveFastSessionQueuedMessageForSteer_def split: list.splits)
  let ?p = "\<lambda>row. ib_attempts row = 0 \<and> ib_claimedUntil row = None \<and> unsettled row \<and>
                  \<not> ib_inline row \<and> \<not> persisted (message @ '':user'')"
  let ?f = "\<lambda>row :: inbox_row. row\<lparr>ib_claimedUntil := Some (now + 30000), ib_updatedAt := now\<rparr>"
  have "j = i \<and> token = now + 30000 \<and> (\<exists>row. snd (update_where i ?p ?f t) = Some row)"
    using assms queued
    by (auto simp: reserveFastSessionQueuedMessageForSteer_def split: if_splits prod.splits option.splits)
  then show "token = now + 30000" "\<exists>r. map_of t i = Some r \<and> ib_claimedUntil r = None"
    by (auto simp: snd_update_where)
qed

text \<open>What an operation adds to the reservations and to the steers.\<close>

lemma reservations_op:
  assumes "(i, c) \<in> set (is_reservations (inbox_op_step now op s))"
  obtains "(i, c) \<in> set (is_reservations s)"
  | r where "c = now + 30000" "map_of (is_rows s) i = Some r" "ib_claimedUntil r = None"
proof (cases op)
  case (OpReserve session message)
  obtain t' answer where reserved:
    "reserveFastSessionQueuedMessageForSteer session message (persisted_in session s) now (is_rows s) =
       (t', answer)"
    by (rule prod.exhaust)
  show ?thesis
  proof (cases answer)
    case (Reserved j key token)
    then show ?thesis
      using assms OpReserve reserved reserved_row [of session message "persisted_in session s" now
          "is_rows s" t' j key token] that
      by (auto simp: set_rows_def)
  qed (use assms OpReserve reserved that in \<open>auto simp: set_rows_def\<close>)
qed (use assms that in \<open>auto simp: set_rows_def wakeFastAgentParentEventsOnTurnRelease_def
      split: prod.splits withdrawal.splits option.splits\<close>)

lemma steers_op:
  assumes table: "jsmap_ok (is_rows s)"
    and "(token, i) \<in> set (is_steers (inbox_op_step now op s))"
  obtains (old) "(token, i) \<in> set (is_steers s)" "\<And>ids. op = OpReleaseSteers token ids \<Longrightarrow> i \<notin> set ids"
  | (new) ids r where "op = OpClaimSteers token ids" "i \<in> set ids" "map_of (is_rows s) i = Some r"
      "\<not> ib_inline r" "unsettled r" "unclaimed now r"
      "map_of (is_rows (inbox_op_step now op s)) i =
         Some (r\<lparr>ib_claimedUntil := Some (now + FAST_AGENT_HUMAN_STEER_CLAIM_MS), ib_updatedAt := now\<rparr>)"
proof (cases op)
  case (OpClaimSteers token' ids)
  obtain t' claimed where claim: "claimFastAgentHumanFollowUpSteers ids now (is_rows s) = (t', claimed)"
    by (rule prod.exhaust)
  have rows: "is_rows (inbox_op_step now op s) = t'"
    by (simp add: OpClaimSteers claim) (simp add: is_rows_def set_rows_def)
  show ?thesis
  proof (cases "(token, i) \<in> set (is_steers s)")
    case True
    then show ?thesis using OpClaimSteers by (intro old) auto
  next
    case False
    then have claimed: "token' = token" "i \<in> set claimed"
      using assms(2) by (auto simp: OpClaimSteers claim)
    then obtain r where "i \<in> set ids" "map_of (is_rows s) i = Some r" "\<not> ib_inline r" "unsettled r"
        "unclaimed now r"
      using claim snd_update_ids [OF table] unfolding claimFastAgentHumanFollowUpSteers_def
      by (metis (no_types, lifting) snd_conv)
    moreover from this have "map_of t' i =
        Some (r\<lparr>ib_claimedUntil := Some (now + FAST_AGENT_HUMAN_STEER_CLAIM_MS), ib_updatedAt := now\<rparr>)"
      using arg_cong [OF claim, of fst, symmetric]
      by (simp add: claimFastAgentHumanFollowUpSteers_def table_ops)
    ultimately show ?thesis using OpClaimSteers claimed(1) rows by (intro new) auto
  qed
next
  case (OpReserve session message)
  with assms that(1) show ?thesis
    by (auto simp: set_rows_def split: prod.splits steer_reservation.splits)
qed (use assms that(1) in \<open>auto simp: set_rows_def wakeFastAgentParentEventsOnTurnRelease_def
      split: prod.splits withdrawal.splits option.splits\<close>)

subsection \<open>The claim stays\<close>

text \<open>No operation takes the claim of a message that is being steered.\<close>

lemma steer_claim_op:
  assumes ok: "inbox_ok key_of s" and steers: "steers_ok key_of s" and time: "is_clock s \<le> now"
    and allowed: "op_allowed key_of op s" and steer: "(token, i) \<in> set (is_steers s)"
    and kept: "\<And>ids. op = OpReleaseSteers token ids \<Longrightarrow> i \<notin> set ids"
    and r: "map_of (is_rows s) i = Some r" "steered_ok key_of s token i r" "unsettled r"
    and r': "op_row now op i s r r'"
  obtains c where "ib_claimedUntil r' = Some c" "(i, c) \<notin> set (is_reservations s)"
proof -
  obtain c where c: "ib_claimedUntil r = Some c" "(i, c) \<notin> set (is_reservations s)"
    using r(2,3) by (auto simp: steered_ok_def)
  have owner: "steer_owner key_of s token i (ib_conversationId r)" and queued: "\<not> ib_inline r"
    and kind: "event_type (ib_event r) = Some ''human_follow_up''"
    using r(2) by (simp_all add: steered_ok_def)
  have no_turn: "\<not> turn_may_write i s"
    using writer_is_inline_or_turn [OF ok r(1) _ queued] owner_beside_turn [OF ok owner] by metis
  have no_release: "i \<notin> set ids" if op: "op = OpReleaseSteers token' ids" for token' ids
  proof
    assume i: "i \<in> set ids"
    then have "(token', i) \<in> set (is_steers s)" using allowed op by simp
    then have "steer_owner key_of s token' i (ib_conversationId r)"
      using steers_okD(2) [OF steers] r(1) by (fastforce simp: steered_ok_def)
    then have "token' = token" using one_owner [OF ok owner] by blast
    then show False using kept op i by blast
  qed
  have no_reservation: "op \<noteq> OpReleaseReservation i c" using allowed c(2) by auto
  consider "ib_claimedUntil r' = ib_claimedUntil r" |
    "ib_claimedUntil r' = Some (now + FAST_AGENT_HUMAN_STEER_CLAIM_MS)"
    using r' no_turn no_release no_reservation c(1) kind by (auto simp: op_row_def)
  then show thesis
  proof cases
    case 1
    then show ?thesis using c that by simp
  next
    case 2
    have "(i, now + FAST_AGENT_HUMAN_STEER_CLAIM_MS) \<notin> set (is_reservations s)"
      using steers_okD(1) [OF steers] time by (fastforce simp: FAST_AGENT_HUMAN_STEER_CLAIM_MS_def)
    with 2 show ?thesis using that by simp
  qed
qed

lemma steer_owner_fields:
  "is_turns s' = is_turns s \<Longrightarrow> is_drains s' = is_drains s \<Longrightarrow>
   steer_owner key_of s' token i c = steer_owner key_of s token i c"
  by (simp add: steer_owner_def)

lemma steers_ok_op:
  assumes ok: "inbox_ok key_of s" and steers: "steers_ok key_of s" and time: "is_clock s \<le> now"
    and allowed: "op_allowed key_of op s"
  shows "steers_ok key_of (inbox_op_step now op s\<lparr>is_clock := now\<rparr>)" (is "steers_ok key_of ?s'")
proof (rule steers_okI)
  fix i c
  assume "(i, c) \<in> set (is_reservations ?s')"
  then have "(i, c) \<in> set (is_reservations (inbox_op_step now op s))" by simp
  then show "c \<le> is_clock ?s' + 30000"
    using steers_okD(1) [OF steers] time by (cases rule: reservations_op) fastforce+
next
  fix token i
  assume "(token, i) \<in> set (is_steers ?s')"
  then have steer: "(token, i) \<in> set (is_steers (inbox_op_step now op s))" by simp
  have same: "is_rows ?s' = is_rows (inbox_op_step now op s)" by (simp add: is_rows_def)
  have owners: "steer_owner key_of ?s' token i c = steer_owner key_of s token i c" for c
    by (rule steer_owner_fields) simp_all
  have rows: "op_rows key_of now op s (is_rows (inbox_op_step now op s))"
    by (rule op_rows_step [OF inbox_okD(1) [OF ok] allowed])
  show "\<exists>r. map_of (is_rows ?s') i = Some r \<and> steered_ok key_of ?s' token i r"
    using inbox_okD(1) [OF ok] steer
  proof (cases rule: steers_op)
    case old
    obtain r where r: "map_of (is_rows s) i = Some r" "steered_ok key_of s token i r"
      using steers_okD(2) [OF steers old(1)] by blast
    obtain r' where r': "map_of (is_rows (inbox_op_step now op s)) i = Some r'" "op_row now op i s r r'"
      using op_rows_old [OF rows r(1)] by blast
    have moved: "row_moves r r'" using r'(2) by (simp add: op_row_def)
    have "\<exists>c. ib_claimedUntil r' = Some c \<and> (i, c) \<notin> set (is_reservations (inbox_op_step now op s))"
      if "unsettled r'"
    proof -
      have open_: "unsettled r" using row_moves_fields(6) [OF moved that] .
      obtain c where c: "ib_claimedUntil r' = Some c" "(i, c) \<notin> set (is_reservations s)"
        using steer_claim_op [OF ok steers time allowed old(1) old(2) r open_ r'(2)] by blast
      have "ib_claimedUntil r \<noteq> None" using r(2) open_ by (auto simp: steered_ok_def)
      then have "(i, c) \<notin> set (is_reservations (inbox_op_step now op s))"
        using c(2) r(1) by (auto elim!: reservations_op)
      with c(1) show ?thesis by blast
    qed
    then have "steered_ok key_of ?s' token i r'"
      using r(2) moved by (simp add: steered_ok_def row_moves_fields owners)
    then show ?thesis using r'(1) same by simp
  next
    case (new ids r)
    let ?r = "r\<lparr>ib_claimedUntil := Some (now + FAST_AGENT_HUMAN_STEER_CLAIM_MS), ib_updatedAt := now\<rparr>"
    have "(i, now + FAST_AGENT_HUMAN_STEER_CLAIM_MS) \<notin> set (is_reservations s)"
      using steers_okD(1) [OF steers] time by (fastforce simp: FAST_AGENT_HUMAN_STEER_CLAIM_MS_def)
    moreover have "is_reservations (inbox_op_step now op s) = is_reservations s"
      by (simp add: new(1) set_rows_def split: prod.split)
    moreover have "event_type (ib_event r) = Some ''human_follow_up''"
        "steer_owner key_of s token i (ib_conversationId r)"
      using allowed new(1-3) by (auto simp: may_steer_def steer_owner_def)
    ultimately have "steered_ok key_of ?s' token i ?r"
      using new(4) by (simp add: steered_ok_def owners)
    then show ?thesis using new(7) same by simp
  qed
qed

lemma owner_mono:
  assumes "steer_owner key_of s token i c"
    "\<And>key own. (token, key, own) \<in> set (is_turns s) \<Longrightarrow> (token, key, own) \<in> set (is_turns s')"
    "\<And>d. d \<in> set (is_drains s) \<Longrightarrow> dr_token d = token \<Longrightarrow> d \<in> set (is_drains s')"
  shows "steer_owner key_of s' token i c"
  using assms(1)
proof (cases rule: owner_cases)
  case (turn own)
  then show ?thesis using assms(2) by (intro owner_turnI) auto
next
  case (drain d j r)
  then show ?thesis using assms(3) by (intro owner_drainI [OF _ drain(2-5)]) auto
qed

lemma steers_ok_frame:
  assumes steers: "steers_ok key_of s" and "is_rows s' = is_rows s" "is_clock s' = is_clock s"
    "is_reservations s' = is_reservations s" "set (is_steers s') \<subseteq> set (is_steers s)"
    and owner: "\<And>token i c. (token, i) \<in> set (is_steers s') \<Longrightarrow> steer_owner key_of s token i c \<Longrightarrow>
        steer_owner key_of s' token i c"
  shows "steers_ok key_of s'"
proof (rule steers_okI)
  fix token i
  assume steer: "(token, i) \<in> set (is_steers s')"
  then obtain r where "map_of (is_rows s) i = Some r" "steered_ok key_of s token i r"
    using assms(5) steers_okD(2) [OF steers] by blast
  then show "\<exists>r. map_of (is_rows s') i = Some r \<and> steered_ok key_of s' token i r"
    using owner [OF steer] assms(2,4) by (auto simp: steered_ok_def)
qed (use assms(3,4) steers_okD(1) [OF steers] in auto)

lemma steers_ok_drain:
  assumes ok: "inbox_ok key_of s" and steers: "steers_ok key_of s" and time: "is_clock s \<le> now"
    and n: "n < length (is_drains s)" "is_drains s ! n = d"
    and step: "drain_step parse now outcome d (is_db s) = (db, d')"
    and idle: "\<forall>i row. dr_pc d = Deliver i row \<longrightarrow> dr_token d \<notin> fst ` set (is_steers s)"
  shows "steers_ok key_of (s\<lparr>is_db := db, is_clock := now, is_drains := (is_drains s)[n := d'],
                             is_log := history\<rparr>)" (is "steers_ok key_of ?s'")
proof (rule steers_okI)
  fix i c
  assume "(i, c) \<in> set (is_reservations ?s')"
  then show "c \<le> is_clock ?s' + 30000" using steers_okD(1) [OF steers] time by fastforce
next
  fix token i
  assume "(token, i) \<in> set (is_steers ?s')"
  then have steer: "(token, i) \<in> set (is_steers s)" by simp
  then obtain r where r: "map_of (is_rows s) i = Some r" "steered_ok key_of s token i r"
    using steers_okD(2) [OF steers] by blast
  have d: "d \<in> set (is_drains s)" using n by auto
  have rows: "drain_rows (dr_pc d) (is_rows s) (in_rows db)" by (rule system_drain_rows [OF ok d step])
  obtain r' where r': "map_of (in_rows db) i = Some r'" "drain_row (dr_pc d) i r r'"
    using drain_rows_old [OF rows r(1)] by blast
  have moved: "row_moves r r'" using r'(2) by (simp add: drain_row_def)
  have "ib_claimedUntil r' = ib_claimedUntil r"
    using r(2) r'(2) by (auto simp: steered_ok_def drain_row_def is_artifact_def)
  moreover have "steer_owner key_of ?s' token i c" if "steer_owner key_of s token i c" for c
    using that
  proof (cases rule: owner_cases)
    case (turn own)
    then show ?thesis by (intro owner_turnI) simp_all
  next
    case (drain e j row)
    have "e \<noteq> d" using idle drain steer by (force simp: image_iff)
    then have "e \<in> set ((is_drains s)[n := d'])"
      using drain(1) n by (auto simp: in_set_conv_nth nth_list_update)
    then show ?thesis by (intro owner_drainI [OF _ drain(2-5)]) simp
  qed
  ultimately have "steered_ok key_of ?s' token i r'"
    using r(2) moved row_moves_fields(6) [OF moved] by (simp add: steered_ok_def row_moves_fields)
  then show "\<exists>r. map_of (is_rows ?s') i = Some r \<and> steered_ok key_of ?s' token i r"
    using r'(1) by (simp add: is_rows_def)
qed

lemma steers_ok_observed [simp]: "steers_ok key_of (observed s) \<longleftrightarrow> steers_ok key_of s"
  by (simp add: steers_ok_def observed_def is_rows_def steered_ok_def steer_owner_def)

lemma steers_ok_step:
  assumes step: "inbox_step False races parse key_of s s'" and ok: "inbox_ok key_of s"
    and steers: "steers_ok key_of s"
  shows "steers_ok key_of s'"
  using step
proof cases
  case (operation now op)
  with ok steers show ?thesis using steers_ok_op by blast
next
  case (drain now n d outcome db d')
  with ok steers show ?thesis using steers_ok_drain by blast
next
  case (start_drain token conversation)
  then show ?thesis
    by (auto intro!: steers_ok_frame [OF steers] simp: is_rows_def elim!: owner_mono)
next
  case (drain_gone d)
  then show ?thesis
    by (auto intro!: steers_ok_frame [OF steers] simp: is_rows_def elim!: owner_mono)
next
  case (turn_begins token conversation)
  then show ?thesis
    by (auto intro!: steers_ok_frame [OF steers] simp: is_rows_def elim!: owner_mono)
next
  case (turn_takes_row first token key own rest j row)
  show ?thesis
  proof (rule steers_ok_frame [OF steers])
    fix token' i c
    assume steer: "(token', i) \<in> set (is_steers s')" and owner: "steer_owner key_of s token' i c"
    from owner show "steer_owner key_of s' token' i c"
    proof (cases rule: owner_cases)
      case (turn own')
      then have "(token', key_of c, own') \<in> set (is_turns s') \<or> token' = token \<and> key_of c = key"
        by (auto simp: turn_takes_row)
      then show ?thesis
      proof
        assume "token' = token \<and> key_of c = key"
        moreover have "j \<noteq> i" if "token' = token" using steer turn_takes_row that by auto
        ultimately show ?thesis
          by (intro owner_turnI [of _ _ _ "Some j"]) (auto simp: turn_takes_row)
      qed (use turn(2) in \<open>auto intro: owner_turnI\<close>)
    next
      case (drain e j' r)
      then show ?thesis by (intro owner_drainI [OF _ drain(2-5)]) (simp add: turn_takes_row)
    qed
  qed (simp_all add: turn_takes_row is_rows_def)
next
  case (turn_ends token key own)
  then show ?thesis
    by (force intro!: steers_ok_frame [OF steers] simp: is_rows_def elim!: owner_mono)
next
  case (turn_crashes token key own)
  then show ?thesis
    by (auto intro!: steers_ok_frame [OF steers] simp: is_rows_def elim!: owner_mono)
next
  case (lock_expires key token)
  then show ?thesis
    by (auto intro!: steers_ok_frame [OF steers] simp: is_rows_def elim!: owner_mono)
qed

subsection \<open>Withdrawn messages\<close>

definition withdrawn_ok :: "inbox_system \<Rightarrow> bool" where
  "withdrawn_ok s \<longleftrightarrow>
     (\<forall>i \<in> set (is_withdrawn s). \<exists>r. map_of (is_rows s) i = Some r \<and>
        ib_discardedAt r \<noteq> None \<and> ib_deliveredAt r = None \<and>
        event_type (ib_event r) = Some ''human_follow_up'' \<and>
        (\<forall>d \<in> set (is_drains s). in_flight (dr_pc d) \<noteq> Some i) \<and> i \<notin> snd ` set (is_steers s))"

lemma withdrawn_okD:
  assumes "withdrawn_ok s" "i \<in> set (is_withdrawn s)"
  obtains r where "map_of (is_rows s) i = Some r" "ib_discardedAt r \<noteq> None" "ib_deliveredAt r = None"
    "event_type (ib_event r) = Some ''human_follow_up''"
    "i \<notin> snd ` set (is_steers s)" "\<And>d. d \<in> set (is_drains s) \<Longrightarrow> in_flight (dr_pc d) \<noteq> Some i"
  using assms by (auto simp: withdrawn_ok_def)

lemma withdrawn_op:
  assumes "i \<in> set (is_withdrawn (inbox_op_step now op s))"
  obtains (old) "i \<in> set (is_withdrawn s)"
  | (new) session message user r r' where "op = OpWithdraw session message user i"
      "map_of (is_rows s) i = Some r" "withdrawable session message (persisted_in session s) now r"
      "map_of (is_rows (inbox_op_step now op s)) i = Some r'"
      "ib_discardedAt r' \<noteq> None" "ib_deliveredAt r' = None" "ib_event r' = ib_event r"
proof (cases op)
  case (OpWithdraw session message user picked)
  let ?p = "withdrawable session message (persisted_in session s) now"
  let ?f = "\<lambda>row :: inbox_row. row\<lparr>ib_discardedAt := Some now,
              ib_lastError := Some ''Withdrawn by its sender before delivery.'', ib_updatedAt := now\<rparr>"
  obtain t' answer where withdrawal:
    "withdrawFastSessionQueuedMessage session message user (Some picked) (persisted_in session s) now
       (is_rows s) = (t', answer)"
    by (rule prod.exhaust)
  show ?thesis
  proof (cases "answer = Withdrawn \<and> i = picked")
    case True
    have rows: "is_rows (inbox_op_step now op s) = t'"
      by (simp add: OpWithdraw withdrawal True)
        (simp add: is_rows_def set_rows_def)
    obtain row where row: "snd (update_where picked ?p ?f (is_rows s)) = Some row"
        "t' = fst (update_where picked ?p ?f (is_rows s))"
      using withdrawal True
      by (auto simp: withdrawFastSessionQueuedMessage_def split: if_splits prod.splits option.splits)
    then obtain r where r: "map_of (is_rows s) picked = Some r" "?p r" by (auto simp: snd_update_where)
    then have "map_of t' i = Some (?f r)" using row(2) True by (simp add: table_ops)
    moreover have "ib_deliveredAt r = None"
      using r(2) by (simp add: withdrawable_def fastSessionQueuedFollowUp_def unsettled_def)
    ultimately show ?thesis
      using r True OpWithdraw rows by (intro new [of session message user r "?f r"]) simp_all
  next
    case False
    then have "i \<in> set (is_withdrawn s)"
      using assms OpWithdraw withdrawal
      by (cases answer) (auto simp: set_rows_def)
    then show ?thesis by (rule old)
  qed
next
  case (OpReserve session message)
  with assms old show ?thesis
    by (auto simp: set_rows_def split: prod.splits steer_reservation.splits)
qed (use assms old in \<open>auto simp: set_rows_def wakeFastAgentParentEventsOnTurnRelease_def
      split: prod.splits option.splits\<close>)

text \<open>What can be withdrawn is not in flight and is not being steered.\<close>

lemma withdrawable_is_idle:
  assumes ok: "inbox_ok key_of s" and steers: "steers_ok key_of s"
    and r: "map_of (is_rows s) i = Some r" "withdrawable session message persisted now r"
  shows "i \<notin> snd ` set (is_steers s)" "d \<in> set (is_drains s) \<Longrightarrow> in_flight (dr_pc d) \<noteq> Some i"
proof -
  have idle: "unsettled r" "\<not> ib_inline r" "ib_claimedUntil r = None"
      "ib_attempts r = 0 \<or> after (ib_retryAt r) now"
    using r(2) by (simp_all add: withdrawable_def fastSessionQueuedFollowUp_def)
  show "i \<notin> snd ` set (is_steers s)"
  proof
    assume "i \<in> snd ` set (is_steers s)"
    then obtain token where "(token, i) \<in> set (is_steers s)" by auto
    then show False using steers_okD(2) [OF steers] r(1) idle by (fastforce simp: steered_ok_def)
  qed
  assume d: "d \<in> set (is_drains s)"
  show "in_flight (dr_pc d) \<noteq> Some i"
  proof
    assume flight: "in_flight (dr_pc d) = Some i"
    then obtain row where "pc_row (dr_pc d) = Some (i, row)" using in_flight_row by blast
    then obtain r' where "map_of (is_rows s) i = Some r'" "stage_ok (dr_pc d) i row r'"
      by (rule drain_ok_row [OF inbox_okD(4) [OF ok d]])
    then show False using r(1) idle flight by (auto simp: stage_ok_def after_def)
  qed
qed

lemma withdrawn_ok_op:
  assumes ok: "inbox_ok key_of s" and steers: "steers_ok key_of s" and withdrawn: "withdrawn_ok s"
    and allowed: "op_allowed key_of op s"
  shows "withdrawn_ok (inbox_op_step now op s\<lparr>is_clock := now\<rparr>)"
  unfolding withdrawn_ok_def
proof
  fix i
  let ?s' = "inbox_op_step now op s\<lparr>is_clock := now\<rparr>"
  assume "i \<in> set (is_withdrawn ?s')"
  then have i: "i \<in> set (is_withdrawn (inbox_op_step now op s))" by simp
  have same: "is_rows ?s' = is_rows (inbox_op_step now op s)" by (simp add: is_rows_def)
  have table: "jsmap_ok (is_rows s)" by (rule inbox_okD(1) [OF ok])
  have rows: "op_rows key_of now op s (is_rows (inbox_op_step now op s))"
    by (rule op_rows_step [OF table allowed])
  show "\<exists>r. map_of (is_rows ?s') i = Some r \<and>
        ib_discardedAt r \<noteq> None \<and> ib_deliveredAt r = None \<and>
        event_type (ib_event r) = Some ''human_follow_up'' \<and>
        (\<forall>d \<in> set (is_drains ?s'). in_flight (dr_pc d) \<noteq> Some i) \<and> i \<notin> snd ` set (is_steers ?s')"
    using i
  proof (cases rule: withdrawn_op)
    case old
    obtain r where r: "map_of (is_rows s) i = Some r" "ib_discardedAt r \<noteq> None" "ib_deliveredAt r = None"
        "event_type (ib_event r) = Some ''human_follow_up''" "i \<notin> snd ` set (is_steers s)"
      and idle: "\<And>d. d \<in> set (is_drains s) \<Longrightarrow> in_flight (dr_pc d) \<noteq> Some i"
      using withdrawn_okD [OF withdrawn old] by metis
    obtain r' where r': "map_of (is_rows (inbox_op_step now op s)) i = Some r'" "op_row now op i s r r'"
      using op_rows_old [OF rows r(1)] by blast
    have moved: "row_moves r r'" using r'(2) by (simp add: op_row_def)
    have "(token, i) \<notin> set (is_steers (inbox_op_step now op s))" for token
    proof
      assume "(token, i) \<in> set (is_steers (inbox_op_step now op s))"
      with table show False
        by (cases rule: steers_op) (use r in \<open>force simp: unsettled_def\<close>)+
    qed
    then have "i \<notin> snd ` set (is_steers (inbox_op_step now op s))" by auto
    moreover have "ib_discardedAt r' \<noteq> None" "ib_deliveredAt r' = None" "ib_event r' = ib_event r"
      using r(2,3) r'(2) moved row_moves_fields(3) [OF moved] unfolding op_row_def row_moves_def by simp_all
    ultimately show ?thesis
      using r(4) idle r'(1) same by (intro exI [of _ r']) simp
  next
    case (new session message user r r')
    have "event_type (ib_event r) = Some ''human_follow_up''"
      using new(3) by (simp add: withdrawable_def fastSessionQueuedFollowUp_def)
    moreover have "is_steers (inbox_op_step now op s) = is_steers s"
      by (simp add: new(1) set_rows_def split: prod.split withdrawal.split)
    ultimately show ?thesis
      using new(4-7) withdrawable_is_idle [OF ok steers new(2,3)] same
      by (intro exI [of _ r']) simp
  qed
qed

lemma in_flight_step:
  assumes step: "drain_step parse now outcome d db = (db', d')" and flight: "in_flight (dr_pc d') = Some i"
  shows "in_flight (dr_pc d) = Some i \<or> (\<exists>r. map_of (in_rows db) i = Some r \<and> unsettled r)"
proof (cases "dr_pc d")
  case (Examine j row)
  obtain db1 pc where looked: "examine now j row (dr_conversation d) db = (db1, pc)"
    by (rule prod.exhaust)
  then have pc: "dr_pc d' = pc" using step Examine by (auto simp: drain_step_def Let_def)
  from looked show ?thesis
    by (cases rule: examine_cases) (use flight pc in \<open>auto simp: snd_start_attempt split: if_splits\<close>)
next
  case (Deliver j row)
  obtain db1 pc where ended: "after_delivery now j row outcome (dr_conversation d) db = (db1, pc)"
    by (rule prod.exhaust)
  then have pc: "dr_pc d' = pc" using step Deliver by (auto simp: drain_step_def Let_def)
  from ended show ?thesis
    by (cases rule: after_delivery_cases) (use flight pc Deliver in \<open>auto split: if_splits\<close>)
next
  case (TakeLock found)
  with step flight show ?thesis by (cases found) (auto simp: drain_step_def Let_def split: if_splits)
next
  case (Held seen found)
  with step flight show ?thesis by (cases found) (auto simp: drain_step_def split: if_splits)
next
  case (FinishWakeup j row settling)
  have "dr_pc d' = Mark j row settling \<or> dr_pc d' = RetireWakeup j row settling"
    using step FinishWakeup
    by (auto simp: drain_step_def Let_def split: option.splits prod.splits if_splits)
  with flight FinishWakeup show ?thesis by auto
qed (use step flight in \<open>auto simp: drain_step_def Let_def split: option.splits if_splits\<close>)

lemma withdrawn_ok_drain:
  assumes ok: "inbox_ok key_of s" and withdrawn: "withdrawn_ok s"
    and n: "n < length (is_drains s)" "is_drains s ! n = d"
    and step: "drain_step parse now outcome d (is_db s) = (db, d')"
  shows "withdrawn_ok (s\<lparr>is_db := db, is_clock := now, is_drains := (is_drains s)[n := d'],
                         is_log := history\<rparr>)" (is "withdrawn_ok ?s'")
  unfolding withdrawn_ok_def
proof
  fix i
  assume "i \<in> set (is_withdrawn ?s')"
  then have i: "i \<in> set (is_withdrawn s)" by simp
  obtain r where r: "map_of (is_rows s) i = Some r" "ib_discardedAt r \<noteq> None" "ib_deliveredAt r = None"
      "event_type (ib_event r) = Some ''human_follow_up''" "i \<notin> snd ` set (is_steers s)"
    and idle: "\<And>d. d \<in> set (is_drains s) \<Longrightarrow> in_flight (dr_pc d) \<noteq> Some i"
    using withdrawn_okD [OF withdrawn i] by metis
  have d: "d \<in> set (is_drains s)" using n by auto
  obtain r' where r': "map_of (in_rows db) i = Some r'" "drain_row (dr_pc d) i r r'"
    using drain_rows_old [OF system_drain_rows [OF ok d step] r(1)] by blast
  have moved: "row_moves r r'" using r'(2) by (simp add: drain_row_def)
  have "in_flight (dr_pc d') \<noteq> Some i"
  proof
    assume "in_flight (dr_pc d') = Some i"
    then obtain r'' where "map_of (is_rows s) i = Some r''" "unsettled r''"
      using in_flight_step [OF step] idle [OF d] by (auto simp: is_rows_def)
    then show False using r(1,2) by (simp add: unsettled_def)
  qed
  moreover have "in_flight (dr_pc e) \<noteq> Some i" if "e \<in> set ((is_drains s)[n := d'])" "e \<noteq> d'" for e
    using that idle set_update_subset_insert [of "is_drains s" n d'] by auto
  ultimately have "\<forall>e \<in> set (is_drains ?s'). in_flight (dr_pc e) \<noteq> Some i" by auto
  moreover have "ib_deliveredAt r' = None" "ib_discardedAt r' \<noteq> None"
    using r'(2) r(2-4) idle [OF d] by (auto simp: drain_row_def is_artifact_def row_moves_def)
  ultimately show "\<exists>r. map_of (is_rows ?s') i = Some r \<and>
        ib_discardedAt r \<noteq> None \<and> ib_deliveredAt r = None \<and>
        event_type (ib_event r) = Some ''human_follow_up'' \<and>
        (\<forall>d \<in> set (is_drains ?s'). in_flight (dr_pc d) \<noteq> Some i) \<and> i \<notin> snd ` set (is_steers ?s')"
    using r(4,5) r'(1) row_moves_fields(3) [OF moved]
    by (intro exI [of _ r']) (simp add: is_rows_def)
qed

lemma withdrawn_ok_frame:
  assumes "withdrawn_ok s" "is_rows s' = is_rows s" "is_withdrawn s' = is_withdrawn s"
    "\<And>d. d \<in> set (is_drains s') \<Longrightarrow> d \<in> set (is_drains s) \<or> in_flight (dr_pc d) = None"
    "set (is_steers s') \<subseteq> set (is_steers s)"
  shows "withdrawn_ok s'"
  unfolding withdrawn_ok_def
proof
  fix i
  assume "i \<in> set (is_withdrawn s')"
  then have i: "i \<in> set (is_withdrawn s)" using assms(3) by simp
  obtain r where r: "map_of (is_rows s) i = Some r" "ib_discardedAt r \<noteq> None" "ib_deliveredAt r = None"
      "event_type (ib_event r) = Some ''human_follow_up''" "i \<notin> snd ` set (is_steers s)"
    and idle: "\<And>d. d \<in> set (is_drains s) \<Longrightarrow> in_flight (dr_pc d) \<noteq> Some i"
    using withdrawn_okD [OF assms(1) i] by metis
  have "in_flight (dr_pc d) \<noteq> Some i" if "d \<in> set (is_drains s')" for d
    using assms(4) [OF that] idle by auto
  with r show "\<exists>r. map_of (is_rows s') i = Some r \<and>
        ib_discardedAt r \<noteq> None \<and> ib_deliveredAt r = None \<and>
        event_type (ib_event r) = Some ''human_follow_up'' \<and>
        (\<forall>d \<in> set (is_drains s'). in_flight (dr_pc d) \<noteq> Some i) \<and> i \<notin> snd ` set (is_steers s')"
    using assms(2,5) by (intro exI [of _ r]) auto
qed

lemma withdrawn_ok_step:
  assumes step: "inbox_step False races parse key_of s s'" and ok: "inbox_ok key_of s"
    and steers: "steers_ok key_of s" and withdrawn: "withdrawn_ok s"
  shows "withdrawn_ok s'"
  using step
proof cases
  case (operation now op)
  with ok steers withdrawn show ?thesis using withdrawn_ok_op by blast
next
  case (drain now n d outcome db d')
  with ok withdrawn show ?thesis using withdrawn_ok_drain by blast
qed (auto intro!: withdrawn_ok_frame [OF withdrawn] simp: is_rows_def new_drain_def)

lemma withdrawn_ok_observed [simp]: "withdrawn_ok (observed s) \<longleftrightarrow> withdrawn_ok s"
  by (simp add: withdrawn_ok_def observed_def is_rows_def)

lemma reachable_withdrawn_ok:
  "reachable_inbox False races parse key_of s \<Longrightarrow> steers_ok key_of s \<and> withdrawn_ok s"
proof (induction rule: reachable_inbox.induct)
  case (empty now)
  then show ?case by (simp add: steers_ok_def withdrawn_ok_def empty_inbox_def)
next
  case (step s s')
  then show ?case using steers_ok_step withdrawn_ok_step reachable_inbox_ok by simp
qed


text \<open>The second message is withdrawn when the drain has read it and is about to attempt it.\<close>

definition example_withdrawal :: inbox_system where
  "example_withdrawal =
     observed (inbox_op_step 4000 (OpWithdraw ''s'' ''b'' ''u'' ''2'') example_second\<lparr>is_clock := 4000\<rparr>)"

definition example_withdrawn :: inbox_system where
  "example_withdrawn = the (drain_run (\<lambda>s. None) 5000 DeliveryOk 1 example_withdrawal)"

lemma example_withdrawn_reachable: "reachable_inbox lapses races (\<lambda>s. None) example_key example_withdrawn"
proof -
  have "is_clock example_second \<le> 4000" by code_simp
  then have "reachable_inbox lapses races (\<lambda>s. None) example_key example_withdrawal"
    unfolding example_withdrawal_def by (rule op_reachable [OF example_second_reachable]) simp
  moreover have "drain_run (\<lambda>s. None) 5000 DeliveryOk 1 example_withdrawal \<noteq> None" by code_simp
  then have "drain_run (\<lambda>s. None) 5000 DeliveryOk 1 example_withdrawal = Some example_withdrawn"
    by (simp add: example_withdrawn_def)
  ultimately show ?thesis by (rule drain_run_reachable)
qed


text \<open>
  The two paths that look at a withdrawal are not the only ones. A message that is queued and is
  delivered again to a process that finds the conversation idle is admitted as that process's own turn,
  on the queued row, without a claim and without an attempt: the withdrawal still succeeds.
\<close>

lemma redelivered_message_can_be_withdrawn:
  "let t = enqueueFastAgentParentEvent_row (example_message ''a'') None ''1'' 1000 [];
       (t', admission) = admitFastAgentInlineHumanTurn (example_message ''a'') ''2'' 2000 t in
   admission = AdmittedTurn ''1'' ''a'' False \<and>
   snd (withdrawFastSessionQueuedMessage ''s'' ''a'' ''u'' (Some ''1'') (\<lambda>id. False) 3000 t') = Withdrawn"
  by code_simp

end
