(* ===== verification/InboxOrder.thy ===== *)
theory InboxOrder
  imports InboxSafety
begin

section \<open>Events start in order\<close>

text \<open>
  A drain attempts the events of a conversation in the order of their creation. It looks for the
  oldest pending row and then for parked ones that hold it, in two queries; the order holds in runs
  in which no retry comes due between the two. Two kinds of rows are not held to it, as the code has
  it: rows that were admitted inline, and rows a running turn, a reservation or a hold of an
  artifact has claimed at some time.
\<close>

subsection \<open>Rows that are owed an attempt\<close>

definition owed :: "inbox_system \<Rightarrow> string \<Rightarrow> ms \<Rightarrow> string \<Rightarrow> inbox_row \<Rightarrow> bool" where
  "owed s c created i r \<longleftrightarrow>
     map_of (is_rows s) i = Some r \<and> ib_conversationId r = c \<and> ib_createdAt r < created \<and>
     \<not> ib_inline r \<and> i \<notin> set (is_touched s) \<and> unsettled r"

definition order_ok :: "inbox_system \<Rightarrow> bool" where
  "order_ok s \<longleftrightarrow>
     (\<forall>d \<in> set (is_drains s). \<forall>seen j row i r. dr_pc d = Held seen (j, row) \<longrightarrow>
        owed s (dr_conversation d) (ib_createdAt row) i r \<longrightarrow> after (ib_retryAt r) seen) \<and>
     (\<forall>d \<in> set (is_drains s). \<forall>j row i r. dr_pc d = Examine j row \<longrightarrow>
        \<not> owed s (dr_conversation d) (ib_createdAt row) i r) \<and>
     (\<forall>j. Started j \<in> set (is_log s) \<longrightarrow>
        (\<exists>row. map_of (is_rows s) j = Some row \<and>
           (\<forall>i r. \<not> owed s (ib_conversationId row) (ib_createdAt row) i r)))"

lemma order_okD:
  assumes "order_ok s"
  shows "d \<in> set (is_drains s) \<Longrightarrow> dr_pc d = Held seen (j, row) \<Longrightarrow>
      owed s (dr_conversation d) (ib_createdAt row) i r \<Longrightarrow> after (ib_retryAt r) seen"
    "d \<in> set (is_drains s) \<Longrightarrow> dr_pc d = Examine j row \<Longrightarrow>
      \<not> owed s (dr_conversation d) (ib_createdAt row) i r"
    "Started j \<in> set (is_log s) \<Longrightarrow> \<exists>row. map_of (is_rows s) j = Some row \<and>
           (\<forall>i r. \<not> owed s (ib_conversationId row) (ib_createdAt row) i r)"
  using assms unfolding order_ok_def by blast+

lemma order_okI:
  assumes "\<And>d seen j row i r. d \<in> set (is_drains s) \<Longrightarrow> dr_pc d = Held seen (j, row) \<Longrightarrow>
      owed s (dr_conversation d) (ib_createdAt row) i r \<Longrightarrow> after (ib_retryAt r) seen"
    "\<And>d j row i r. d \<in> set (is_drains s) \<Longrightarrow> dr_pc d = Examine j row \<Longrightarrow>
      owed s (dr_conversation d) (ib_createdAt row) i r \<Longrightarrow> False"
    "\<And>j. Started j \<in> set (is_log s) \<Longrightarrow> \<exists>row. map_of (is_rows s) j = Some row \<and>
           (\<forall>i r. \<not> owed s (ib_conversationId row) (ib_createdAt row) i r)"
  shows "order_ok s"
  using assms unfolding order_ok_def by blast

subsection \<open>How a step changes the rows\<close>

text \<open>Old rows move, new ones are not older than the clock, and who has a claim is noted for ever.\<close>

definition evolves :: "inbox_system \<Rightarrow> inbox_system \<Rightarrow> bool" where
  "evolves s s' \<longleftrightarrow>
     (\<forall>i r. map_of (is_rows s) i = Some r \<longrightarrow> (\<exists>r'. map_of (is_rows s') i = Some r' \<and> row_moves r r')) \<and>
     (\<forall>i r'. map_of (is_rows s') i = Some r' \<longrightarrow> map_of (is_rows s) i = None \<longrightarrow>
        is_clock s \<le> ib_createdAt r') \<and>
     set (is_touched s) \<subseteq> set (is_touched s')"

lemma evolves_row:
  "evolves s s' \<Longrightarrow> map_of (is_rows s) i = Some r \<Longrightarrow> \<exists>r'. map_of (is_rows s') i = Some r' \<and> row_moves r r'"
  unfolding evolves_def by blast

lemma owed_back:
  assumes evolves: "evolves s s'" and owed: "owed s' c created i r'" and created: "created \<le> is_clock s"
  obtains r where "owed s c created i r" "row_moves r r'"
proof (cases "map_of (is_rows s) i")
  case None
  then show ?thesis
    using evolves owed created by (fastforce simp: evolves_def owed_def)
next
  case (Some r)
  then obtain r'' where "map_of (is_rows s') i = Some r''" "row_moves r r''"
    using evolves_row [OF evolves] by blast
  then have moved: "row_moves r r'" using owed by (simp add: owed_def)
  then have "owed s c created i r"
    using owed Some evolves row_moves_fields(6) [OF moved]
    by (auto simp: owed_def evolves_def row_moves_fields)
  then show ?thesis using moved that by blast
qed

lemma evolves_same: "is_rows s' = is_rows s \<Longrightarrow> is_touched s' = is_touched s \<Longrightarrow> evolves s s'"
  by (simp add: evolves_def)

lemma evolves_op:
  assumes ok: "inbox_ok key_of s" and time: "is_clock s \<le> now" and allowed: "op_allowed key_of op s"
  shows "evolves s (inbox_op_step now op s\<lparr>is_clock := now\<rparr>)"
proof -
  let ?s' = "inbox_op_step now op s\<lparr>is_clock := now\<rparr>"
  have rows: "op_rows key_of now op s (is_rows ?s')"
    using op_rows_step [OF inbox_okD(1) [OF ok] allowed] by (simp add: is_rows_def)
  have "\<exists>r'. map_of (is_rows ?s') i = Some r' \<and> row_moves r r'" if "map_of (is_rows s) i = Some r" for i r
    using op_rows_old [OF rows that] by (auto simp: op_row_def)
  moreover have "is_clock s \<le> ib_createdAt r'"
    if "map_of (is_rows ?s') i = Some r'" "map_of (is_rows s) i = None" for i r'
    using op_rows_new [OF rows that(2,1)] time by (simp add: newborn_def)
  ultimately show ?thesis by (simp add: evolves_def)
qed

lemma evolves_drain:
  assumes ok: "inbox_ok key_of s" and d: "d \<in> set (is_drains s)"
    and step: "drain_step parse now outcome d (is_db s) = (db, d')"
    and s': "is_rows s' = in_rows db" "is_touched s' = is_touched s"
  shows "evolves s s'"
  using system_drain_rows [OF ok d step] drain_rows_moves drain_rows_new s'
  by (fastforce simp: evolves_def)

lemma evolves_observed: "evolves s s' \<Longrightarrow> evolves s (observed s')"
  by (auto simp: evolves_def observed_def is_rows_def)

lemma evolves_step:
  assumes "inbox_step lapses races parse key_of s s'" "inbox_ok key_of s"
  shows "evolves s s'"
  using assms(1)
proof cases
  case (operation now op)
  then show ?thesis using evolves_op [OF assms(2)] by blast
next
  case (drain now n d outcome db d')
  then have "d \<in> set (is_drains s)" by auto
  then show ?thesis
    using evolves_drain [OF assms(2) _ drain(5)] drain(1) by (simp add: is_rows_def)
qed (auto intro!: evolves_same simp: is_rows_def)

subsection \<open>Where a drain looks and attempts\<close>

lemma drain_examine:
  assumes "drain_step parse now outcome d db = (db', d')" "dr_pc d = Examine i row"
  shows "examine now i row (dr_conversation d) db = (db', dr_pc d')"
proof -
  obtain db1 pc where "examine now i row (dr_conversation d) db = (db1, pc)" by (rule prod.exhaust)
  with assms show ?thesis by (auto simp: drain_step_def Let_def)
qed

lemma drain_after_delivery:
  assumes "drain_step parse now outcome d db = (db', d')" "dr_pc d = Deliver i row"
  shows "after_delivery now i row outcome (dr_conversation d) db = (db', dr_pc d')"
proof -
  obtain db1 pc where "after_delivery now i row outcome (dr_conversation d) db = (db1, pc)"
    by (rule prod.exhaust)
  with assms show ?thesis by (auto simp: drain_step_def Let_def)
qed

lemma finish_wakeup_next:
  "drain_step parse now outcome d db = (db', d') \<Longrightarrow> dr_pc d = FinishWakeup i row settling \<Longrightarrow>
   dr_pc d' = Mark i row settling \<or> dr_pc d' = RetireWakeup i row settling"
  by (auto simp: drain_step_def Let_def split: option.splits prod.splits if_splits)

lemma held_from_look:
  assumes step: "drain_step parse now outcome d db = (db', d')" and pc: "dr_pc d' = Held seen found"
  shows "dr_pc d = Look \<and> db' = db \<and> seen = now \<and>
    oldest_pending (dr_conversation d) now (in_rows db) = Some found"
proof (cases "dr_pc d")
  case (Examine i row)
  from drain_examine [OF step Examine] show ?thesis
    by (cases rule: examine_cases) (use pc in \<open>auto split: if_splits\<close>)
next
  case (Deliver i row)
  from drain_after_delivery [OF step Deliver] show ?thesis
    by (cases rule: after_delivery_cases) (use pc in auto)
next
  case (TakeLock entry)
  with step pc show ?thesis by (cases entry) (auto simp: drain_step_def Let_def split: if_splits)
next
  case (Held seen' entry)
  with step pc show ?thesis by (cases entry) (auto simp: drain_step_def split: if_splits)
next
  case (FinishWakeup i row settling)
  with finish_wakeup_next [OF step] pc show ?thesis by auto
qed (use step pc in \<open>auto simp: drain_step_def Let_def split: option.splits if_splits\<close>)

lemma examine_from_held:
  assumes step: "drain_step parse now outcome d db = (db', d')" and pc: "dr_pc d' = Examine j row"
  shows "\<exists>seen. dr_pc d = Held seen (j, row) \<and> db' = db \<and>
    \<not> held_back (dr_conversation d) (j, row) now (in_rows db)"
proof (cases "dr_pc d")
  case (Examine i row')
  from drain_examine [OF step Examine] show ?thesis
    by (cases rule: examine_cases) (use pc in \<open>auto split: if_splits\<close>)
next
  case (Deliver i row')
  from drain_after_delivery [OF step Deliver] show ?thesis
    by (cases rule: after_delivery_cases) (use pc in auto)
next
  case (TakeLock entry)
  with step pc show ?thesis by (cases entry) (auto simp: drain_step_def Let_def split: if_splits)
next
  case (Held seen' entry)
  with step pc show ?thesis by (cases entry) (auto simp: drain_step_def split: if_splits)
next
  case (FinishWakeup i row' settling)
  with finish_wakeup_next [OF step] pc show ?thesis by auto
qed (use step pc in \<open>auto simp: drain_step_def Let_def split: option.splits if_splits\<close>)

subsection \<open>The order is kept\<close>

lemma seen_created:
  assumes ok: "inbox_ok key_of s" and d: "d \<in> set (is_drains s)" "pc_row (dr_pc d) = Some (j, row)"
  shows "ib_createdAt row \<le> is_clock s"
proof -
  obtain r where r: "map_of (is_rows s) j = Some r" "stage_ok (dr_pc d) j row r"
    by (rule drain_ok_row [OF inbox_okD(4) [OF ok d(1)] d(2)])
  then have "ib_createdAt r = ib_createdAt row" by (simp add: stage_ok_def row_moves_fields)
  then show ?thesis using inbox_okD(2) [OF ok r(1)] by (simp add: row_ok_def)
qed

lemma order_kept:
  assumes evolves: "evolves s s'" and ok: "inbox_ok key_of s" and order: "order_ok s"
    and e: "e \<in> set (is_drains s)"
    and undisturbed: "active (dr_pc e) \<Longrightarrow> undisturbed (dr_conversation e) (is_rows s) (is_rows s')"
    and owed: "owed s' (dr_conversation e) (ib_createdAt row) i r'"
  shows "dr_pc e = Held seen (j, row) \<Longrightarrow> after (ib_retryAt r') seen"
    "dr_pc e = Examine j row \<Longrightarrow> False"
proof -
  have earlier: "\<exists>r. owed s (dr_conversation e) (ib_createdAt row) i r \<and> row_moves r r'"
    if "pc_row (dr_pc e) = Some (j, row)"
    using owed_back [OF evolves owed seen_created [OF ok e that]] by blast
  show False if pc: "dr_pc e = Examine j row"
    using earlier order_okD(2) [OF order e pc] pc by auto
  assume pc: "dr_pc e = Held seen (j, row)"
  then obtain r where r: "owed s (dr_conversation e) (ib_createdAt row) i r" using earlier by auto
  then have "\<exists>r''. map_of (is_rows s') i = Some r'' \<and> quiet r r''"
    using undisturbed pc unfolding undisturbed_def owed_def by simp
  then have "ib_retryAt r' = ib_retryAt r" using owed r by (auto simp: quiet_def owed_def)
  then show "after (ib_retryAt r') seen" using order_okD(1) [OF order e pc r] by simp
qed

definition claims_noted :: "inbox_system \<Rightarrow> bool" where
  "claims_noted s \<longleftrightarrow>
     (\<forall>i r. map_of (is_rows s) i = Some r \<longrightarrow> ib_claimedUntil r \<noteq> None \<longrightarrow> i \<in> set (is_touched s))"

text \<open>The first query: whoever is owed an attempt and is older than what it finds is parked.\<close>

lemma look_finds_oldest:
  assumes ok: "inbox_ok key_of s" and noted: "claims_noted s"
    and look: "oldest_pending c now (is_rows s) = Some (j, row)"
    and owed: "owed s c (ib_createdAt row) i r"
  shows "after (ib_retryAt r) now"
proof (rule ccontr)
  assume "\<not> after (ib_retryAt r) now"
  then have "ib_retryAt r = None \<or> up_to (ib_retryAt r) now"
    by (auto simp: after_def up_to_def split: option.splits)
  moreover have "ib_claimedUntil r = None"
    using noted owed unfolding claims_noted_def owed_def by blast
  ultimately have "pendingPredicate (Some c) now r"
    using owed by (simp add: pendingPredicate_def owed_def unclaimed_def)
  moreover have "map_of (is_rows s) i = Some r" using owed by (simp add: owed_def)
  ultimately have "(ib_createdAt row, j) \<le> (ib_createdAt r, i)"
    using oldest_pending_Some(3) [OF inbox_okD(1) [OF ok] look] by blast
  moreover have "ib_createdAt r < ib_createdAt row" using owed by (simp add: owed_def)
  ultimately show False by (auto simp: less_eq_prod_simp)
qed

text \<open>The second query: whoever is still parked holds it.\<close>

lemma held_finds_parked:
  assumes ok: "inbox_ok key_of s" and owed: "owed s c (ib_createdAt row) i r"
    and parked: "after (ib_retryAt r) seen" and no_race: "\<not> due_between c seen now (is_rows s)"
    and j: "map_of (is_rows s) j = Some r'" "ib_createdAt r' = ib_createdAt row"
  shows "held_back c (j, row) now (is_rows s)"
proof -
  have i: "map_of (is_rows s) i = Some r" "ib_conversationId r = c" "unsettled r" "\<not> ib_inline r"
      "ib_createdAt r < ib_createdAt row"
    using owed by (simp_all add: owed_def)
  have "(i, r) \<in> set (is_rows s)" using i(1) by (rule map_of_SomeD)
  then have "\<not> up_to (ib_retryAt r) now"
    using no_race i parked by (auto simp: due_between_def list_ex_iff)
  then have "after (ib_retryAt r) now" using parked by (auto simp: after_def up_to_def split: option.splits)
  moreover have "i \<noteq> j" using i j by auto
  ultimately show ?thesis
    unfolding held_back_iff [OF inbox_okD(1) [OF ok]] parkedHeadPredicate_def
    using i by (intro exI [of _ i] exI [of _ r]) simp
qed

lemma order_stepping:
  assumes ok: "inbox_ok key_of s" and noted: "claims_noted s" and order: "order_ok s"
    and d: "d \<in> set (is_drains s)"
    and step: "drain_step parse now outcome d (is_db s) = (db, d')"
    and no_race: "\<And>seen found. dr_pc d = Held seen found \<Longrightarrow>
        \<not> due_between (dr_conversation d) seen now (is_rows s)"
    and s': "is_rows s' = in_rows db" "is_touched s' = is_touched s"
    and owed: "owed s' (dr_conversation d') (ib_createdAt row) i r'"
  shows "dr_pc d' = Held seen (j, row) \<Longrightarrow> after (ib_retryAt r') seen"
    "dr_pc d' = Examine j row \<Longrightarrow> False"
proof -
  have same: "dr_conversation d' = dr_conversation d"
    using drain_lock_step [OF step] by (simp add: lock_step_def)
  {
    assume pc: "dr_pc d' = Held seen (j, row)"
    have "dr_pc d = Look \<and> db = is_db s \<and> seen = now \<and>
        oldest_pending (dr_conversation d) now (in_rows (is_db s)) = Some (j, row)"
      using step pc by (rule held_from_look)
    moreover from this have "owed s (dr_conversation d) (ib_createdAt row) i r'"
      using owed same s' by (simp add: owed_def is_rows_def)
    ultimately show "after (ib_retryAt r') seen"
      using look_finds_oldest [OF ok noted, of "dr_conversation d" now j row i r']
      by (simp add: is_rows_def)
  next
    assume pc: "dr_pc d' = Examine j row"
    obtain seen where held: "dr_pc d = Held seen (j, row)" "db = is_db s"
        "\<not> held_back (dr_conversation d) (j, row) now (is_rows s)"
      using examine_from_held [OF step pc] by (auto simp: is_rows_def)
    then have was_owed: "owed s (dr_conversation d) (ib_createdAt row) i r'"
      using owed same s' by (simp add: owed_def is_rows_def)
    obtain r where "map_of (is_rows s) j = Some r" "stage_ok (dr_pc d) j row r"
      by (rule drain_ok_row [OF inbox_okD(4) [OF ok d], of j row]) (use held(1) in auto)
    then have "held_back (dr_conversation d) (j, row) now (is_rows s)"
      using held_finds_parked [OF ok was_owed order_okD(1) [OF order d held(1) was_owed] no_race [OF held(1)]]
      by (simp add: stage_ok_def row_moves_fields)
    with held(3) show False by simp
  }
qed

lemma order_log:
  assumes evolves: "evolves s s'" and ok: "inbox_ok key_of s"
    and row: "map_of (is_rows s) j = Some row"
    and none: "\<And>i r. \<not> owed s (ib_conversationId row) (ib_createdAt row) i r"
  shows "\<exists>row. map_of (is_rows s') j = Some row \<and>
    (\<forall>i r. \<not> owed s' (ib_conversationId row) (ib_createdAt row) i r)"
proof -
  obtain row' where row': "map_of (is_rows s') j = Some row'" "row_moves row row'"
    using evolves_row [OF evolves row] by blast
  have created: "ib_createdAt row \<le> is_clock s" using inbox_okD(2) [OF ok row] by (simp add: row_ok_def)
  have "\<not> owed s' (ib_conversationId row) (ib_createdAt row) i r" for i r
    using owed_back [OF evolves _ created] none by blast
  then show ?thesis using row' by (intro exI [of _ row']) (simp add: row_moves_fields)
qed

lemma started_from_examine:
  assumes "Started j \<in> set (step_log pc pc')"
  obtains row where "pc = Examine j row"
  using assms by (auto simp: step_log_def split: drain_pc.splits)

lemma order_ok_frame:
  assumes evolves: "evolves s s'" and ok: "inbox_ok key_of s" and order: "order_ok s"
    and drains: "\<And>e. e \<in> set (is_drains s') \<Longrightarrow> dr_pc e \<noteq> FirstLook \<Longrightarrow> e \<in> set (is_drains s)"
    and undisturbed: "\<And>e. e \<in> set (is_drains s) \<Longrightarrow> active (dr_pc e) \<Longrightarrow>
        undisturbed (dr_conversation e) (is_rows s) (is_rows s')"
    and log: "is_log s' = is_log s"
  shows "order_ok s'"
proof (rule order_okI)
  fix e seen j row i r
  assume e: "e \<in> set (is_drains s')" and pc: "dr_pc e = Held seen (j, row)"
    and owed: "owed s' (dr_conversation e) (ib_createdAt row) i r"
  then have old: "e \<in> set (is_drains s)" using drains by simp
  show "after (ib_retryAt r) seen"
    by (rule order_kept(1) [OF evolves ok order old undisturbed owed pc]) (use old in auto)
next
  fix e j row i r
  assume e: "e \<in> set (is_drains s')" and pc: "dr_pc e = Examine j row"
    and owed: "owed s' (dr_conversation e) (ib_createdAt row) i r"
  then have old: "e \<in> set (is_drains s)" using drains by simp
  show False
    by (rule order_kept(2) [OF evolves ok order old undisturbed owed pc]) (use old in auto)
next
  fix j
  assume "Started j \<in> set (is_log s')"
  then obtain row where "map_of (is_rows s) j = Some row"
      "\<And>i r. \<not> owed s (ib_conversationId row) (ib_createdAt row) i r"
    using order_okD(3) [OF order] log by metis
  then show "\<exists>row. map_of (is_rows s') j = Some row \<and>
      (\<forall>i r. \<not> owed s' (ib_conversationId row) (ib_createdAt row) i r)"
    by (rule order_log [OF evolves ok])
qed

lemma order_ok_drain:
  assumes ok: "inbox_ok key_of s" and noted: "claims_noted s" and order: "order_ok s"
    and n: "n < length (is_drains s)" "is_drains s ! n = d"
    and step: "drain_step parse now outcome d (is_db s) = (db, d')"
    and no_race: "\<And>seen found. dr_pc d = Held seen found \<Longrightarrow>
        \<not> due_between (dr_conversation d) seen now (is_rows s)"
  shows "order_ok (s\<lparr>is_db := db, is_clock := now, is_drains := (is_drains s)[n := d'],
                     is_log := is_log s @ step_log (dr_pc d) (dr_pc d')\<rparr>)" (is "order_ok ?s'")
proof -
  have d: "d \<in> set (is_drains s)" using n by auto
  have same: "is_rows ?s' = in_rows db" "is_touched ?s' = is_touched s" by (simp_all add: is_rows_def)
  have evolves: "evolves s ?s'" by (rule evolves_drain [OF ok d step same])
  have rows: "drain_rows (dr_pc d) (is_rows s) (is_rows ?s')"
    using system_drain_rows [OF ok d step] by (simp add: same)
  have other: "e \<in> set (is_drains s) \<and>
      (active (dr_pc e) \<longrightarrow> undisturbed (dr_conversation e) (is_rows s) (is_rows ?s'))"
    if m: "m < length (is_drains s)" "m \<noteq> n" "e = is_drains s ! m" for m e
  proof -
    have "e \<in> set (is_drains s)" "d \<noteq> e" using m other_drain(1) [OF ok n(1) m(1,2)] n(2) by auto
    then show ?thesis using undisturbed_drain [OF ok d _ _ _ rows] by blast
  qed
  show ?thesis
  proof (rule order_okI)
    fix e seen j row i r
    assume "e \<in> set (is_drains ?s')" and pc: "dr_pc e = Held seen (j, row)"
      and owed: "owed ?s' (dr_conversation e) (ib_createdAt row) i r"
    then have "e \<in> set ((is_drains s)[n := d'])" by simp
    then show "after (ib_retryAt r) seen"
    proof (cases rule: nth_update_cases)
      case 1
      show ?thesis
        by (rule order_stepping(1) [OF ok noted order d step no_race same])
          (use owed pc 1 in auto)
    next
      case (2 m)
      with other [OF 2] show ?thesis using order_kept(1) [OF evolves ok order _ _ owed pc] by blast
    qed
  next
    fix e j row i r
    assume "e \<in> set (is_drains ?s')" and pc: "dr_pc e = Examine j row"
      and owed: "owed ?s' (dr_conversation e) (ib_createdAt row) i r"
    then have "e \<in> set ((is_drains s)[n := d'])" by simp
    then show False
    proof (cases rule: nth_update_cases)
      case 1
      show ?thesis
        by (rule order_stepping(2) [OF ok noted order d step no_race same])
          (use owed pc 1 in auto)
    next
      case (2 m)
      with other [OF 2] show ?thesis using order_kept(2) [OF evolves ok order _ _ owed pc] by blast
    qed
  next
    fix j
    assume "Started j \<in> set (is_log ?s')"
    then consider "Started j \<in> set (is_log s)" | "Started j \<in> set (step_log (dr_pc d) (dr_pc d'))"
      by auto
    then have "\<exists>row. map_of (is_rows s) j = Some row \<and>
        (\<forall>i r. \<not> owed s (ib_conversationId row) (ib_createdAt row) i r)"
    proof cases
      case 1
      then show ?thesis by (rule order_okD(3) [OF order])
    next
      case 2
      then obtain row where pc: "dr_pc d = Examine j row" by (rule started_from_examine)
      obtain r where r: "map_of (is_rows s) j = Some r" "stage_ok (dr_pc d) j row r"
          "ib_conversationId row = dr_conversation d"
        by (rule drain_ok_row [OF inbox_okD(4) [OF ok d], of j row]) (use pc in auto)
      then have "row_moves row r" by (simp add: stage_ok_def)
      then have "ib_conversationId r = dr_conversation d" "ib_createdAt r = ib_createdAt row"
        using r(3) by (simp_all add: row_moves_fields)
      then show ?thesis using r(1) order_okD(2) [OF order d pc] by (intro exI [of _ r]) simp
    qed
    then show "\<exists>row. map_of (is_rows ?s') j = Some row \<and>
        (\<forall>i r. \<not> owed ?s' (ib_conversationId row) (ib_createdAt row) i r)"
      using order_log [OF evolves ok] by blast
  qed
qed

lemma order_ok_step:
  assumes step: "inbox_step False False parse key_of s s'" and ok: "inbox_ok key_of s"
    and noted: "claims_noted s" and order: "order_ok s"
  shows "order_ok s'"
  using step
proof cases
  case (operation now op)
  have evolves: "evolves s s'" by (rule evolves_step [OF step ok])
  have "op_rows key_of now op s (is_rows s')"
    using op_rows_step [OF inbox_okD(1) [OF ok] operation(3)] operation(1) by (simp add: is_rows_def)
  then show ?thesis
    using undisturbed_op [OF ok] by (intro order_ok_frame [OF evolves ok order]) (auto simp: operation(1))
next
  case (drain now n d outcome db d')
  then show ?thesis using order_ok_drain [OF ok noted order] by auto
qed (rule order_ok_frame [OF evolves_step [OF step ok] ok order];
    auto simp: is_rows_def new_drain_def)+

lemma owed_observed: "owed (observed s) c created i r \<Longrightarrow> owed s c created i r"
  by (simp add: owed_def observed_def is_rows_def)

lemma observed_fields [simp]:
  "is_drains (observed s) = is_drains s" "is_log (observed s) = is_log s" "is_rows (observed s) = is_rows s"
  by (simp_all add: observed_def is_rows_def)

lemma order_ok_observed:
  assumes order: "order_ok s"
  shows "order_ok (observed s)"
proof (rule order_okI)
  fix d seen j row i r
  assume "d \<in> set (is_drains (observed s))" "dr_pc d = Held seen (j, row)"
    "owed (observed s) (dr_conversation d) (ib_createdAt row) i r"
  then show "after (ib_retryAt r) seen"
    using order_okD(1) [OF order _ _ owed_observed] by simp
next
  fix d j row i r
  assume "d \<in> set (is_drains (observed s))" "dr_pc d = Examine j row"
    "owed (observed s) (dr_conversation d) (ib_createdAt row) i r"
  then show False
    using order_okD(2) [OF order] owed_observed by (metis observed_fields(1))
next
  fix j
  assume "Started j \<in> set (is_log (observed s))"
  then have "Started j \<in> set (is_log s)" by simp
  then show "\<exists>row. map_of (is_rows (observed s)) j = Some row \<and>
      (\<forall>i r. \<not> owed (observed s) (ib_conversationId row) (ib_createdAt row) i r)"
    using order_okD(3) [OF order] owed_observed by (metis observed_fields(3))
qed

lemma claims_noted_observed: "jsmap_ok (is_rows s) \<Longrightarrow> claims_noted (observed s)"
  by (force simp: claims_noted_def observed_def is_rows_def jsmap_values_iff image_iff)

lemma reachable_order_ok:
  "reachable_inbox False False parse key_of s \<Longrightarrow> claims_noted s \<and> order_ok s"
proof (induction rule: reachable_inbox.induct)
  case (empty now)
  then show ?case by (simp add: claims_noted_def order_ok_def empty_inbox_def is_rows_def)
next
  case (step s s')
  have ok: "inbox_ok key_of s" by (rule reachable_inbox_ok) (rule step)
  then have "order_ok s'" using order_ok_step step by blast
  moreover have "jsmap_ok (is_rows s')" using inbox_okD(1) [OF inbox_ok_step [OF step(2) ok]] .
  ultimately show ?case using order_ok_observed claims_noted_observed by blast
qed

text \<open>C9: A drain attempts the events of a conversation in the order of their creation, in every run in which
  no live owner loses the conversation's lock and no retry comes due between the two queries of a
  look: once the attempt of an event has started, every older event of its conversation is settled
  that was queued (not admitted inline) and that no turn, reservation or hold ever claimed.\<close>

theorem events_start_in_order:
  assumes "reachable_inbox False False parse key_of s" "Started j \<in> set (is_log s)"
    "map_of (is_rows s) j = Some row" "map_of (is_rows s) i = Some r"
    "ib_conversationId r = ib_conversationId row" "ib_createdAt r < ib_createdAt row"
    "\<not> ib_inline r" "i \<notin> set (is_touched s)"
  shows "\<not> unsettled r"
  using order_okD(3) [of s j] reachable_order_ok [OF assms(1)] assms(2-) by (auto simp: owed_def)

definition example_started :: inbox_system where
  "example_started = the (drain_run (\<lambda>s. None) 4000 DeliveryOk 1 example_second)"

lemma example_started_reachable: "reachable_inbox lapses races (\<lambda>s. None) example_key example_started"
proof -
  have "drain_run (\<lambda>s. None) 4000 DeliveryOk 1 example_second \<noteq> None" by code_simp
  then have "drain_run (\<lambda>s. None) 4000 DeliveryOk 1 example_second = Some example_started"
    by (simp add: example_started_def)
  then show ?thesis by (rule drain_run_reachable [OF example_second_reachable])
qed

theorem events_start_in_order_witness:
  "\<not> unsettled (the (map_of (is_rows example_started) ''1''))"
proof (rule events_start_in_order [OF example_started_reachable, of "''2''"])
  show "Started ''2'' \<in> set (is_log example_started)" by code_simp
  have rows: "map_of (is_rows example_started) ''1'' \<noteq> None" "map_of (is_rows example_started) ''2'' \<noteq> None"
    by code_simp+
  from rows(1) show "map_of (is_rows example_started) ''1'' = Some (the (map_of (is_rows example_started) ''1''))"
    by simp
  from rows(2) show "map_of (is_rows example_started) ''2'' = Some (the (map_of (is_rows example_started) ''2''))"
    by simp
  show "''1'' \<notin> set (is_touched example_started)" by code_simp
qed code_simp+

end
