(* ===== verification/StatusJudgments.thy ===== *)
theory StatusJudgments
  imports Complex_Main Tables "HOL-Library.Product_Lexorder" "HOL-Library.List_Lexorder" "HOL-Library.Char_ord"
begin

section \<open>Judging whether a session is done\<close>

text \<open>
  The requests to judge a session's status, the verdicts and the webhook that announces a
  finished session: \<open>packages/db/src/lib/session-status-judgments.ts\<close>,
  \<open>packages/cloud-agents/src/server/fast-agent/session-status-judgment.ts\<close> and
  \<open>packages/sdk/src/server/lib/session-done-webhooks.ts\<close>. What the judge answers is an argument,
  and so are the queries that describe the session to it. Confidences are rationals, or \<open>None\<close>
  where JavaScript has a number that is not finite.
\<close>

subsection \<open>The rows\<close>

datatype judgment_state =
    JAwaitingSettlement
  | JPending
  | JProcessing
  | JApplied
  | JIgnored
  | JFailed
  | JStale

datatype judgment_kind = FastTurn | TaskTerminal

datatype judgment_outcome = OutOpen | OutDone | OutBlocked | OutNeedsInput | OutUnclear

definition SESSION_STATUS_JUDGMENT_OUTCOMES :: "judgment_outcome list" where
  "SESSION_STATUS_JUDGMENT_OUTCOMES = [OutOpen, OutDone, OutBlocked, OutNeedsInput, OutUnclear]"

type_synonym probabilities = "(judgment_outcome \<times> rat option) list"

record judgment_row =
  jg_sessionId :: string
  jg_sourceEventId :: string
  jg_generation :: nat
  jg_sourceKind :: judgment_kind
  jg_state :: judgment_state
  jg_outcome :: "judgment_outcome option"
  jg_confidence :: "rat option"
  jg_probabilities :: "probabilities option"
  jg_attempts :: nat
  jg_claimedAt :: "ms option"
  jg_settledAt :: "ms option"
  jg_judgedAt :: "ms option"
  jg_errorCode :: "string option"
  jg_createdAt :: ms
  jg_updatedAt :: ms

datatype delivery_status = DPending | DDelivered | DFailed | DSkipped

record webhook_delivery =
  wd_sessionId :: string
  wd_judgmentId :: string
  wd_status :: delivery_status
  wd_leaseToken :: "nat option"
  wd_leaseExpiresAt :: "ms option"
  wd_attempts :: nat
  wd_nextAttemptAt :: ms
  wd_lastError :: "string option"
  wd_deliveredAt :: "ms option"
  wd_createdAt :: ms

record webhook_settings =
  ws_enabled :: bool
  ws_url :: "string option"
  ws_secret :: "string option"

text \<open>The ids of the sessions, the requests, the deliveries, and the settings' one row.\<close>

record judgment_db =
  jd_sessions :: "string list"
  jd_rows :: "judgment_row table"
  jd_deliveries :: "webhook_delivery table"
  jd_settings :: "webhook_settings option"

definition CLAIM_LEASE_MS :: ms where
  "CLAIM_LEASE_MS = 2 * 60 * 1000"

definition MAX_SESSION_STATUS_JUDGMENT_ATTEMPTS :: nat where
  "MAX_SESSION_STATUS_JUDGMENT_ATTEMPTS = 5"

text \<open>The states of a request that is still to be judged.\<close>

definition live_judgment :: "judgment_row \<Rightarrow> bool" where
  "live_judgment row \<longleftrightarrow> jg_state row \<in> {JAwaitingSettlement, JPending, JProcessing}"

text \<open>\<open>select max(generation) where session_id = s\<close>.\<close>

definition latest_generation :: "string \<Rightarrow> judgment_row table \<Rightarrow> nat option" where
  "latest_generation s t =
     (case map (\<lambda>(k, row). jg_generation row) (select_rows (\<lambda>row. jg_sessionId row = s) t) of
        [] \<Rightarrow> None
      | g # gs \<Rightarrow> Some (foldl max g gs))"

definition superseded :: "ms \<Rightarrow> judgment_row \<Rightarrow> judgment_row" where
  "superseded now row =
     row\<lparr>jg_state := JStale, jg_claimedAt := None, jg_errorCode := Some ''superseded'',
         jg_updatedAt := now\<rparr>"

subsection \<open>Requests\<close>

text \<open>The new row's id \<open>i\<close> is random.\<close>

definition createSessionStatusJudgmentRequest ::
    "ms \<Rightarrow> string \<Rightarrow> string \<Rightarrow> string \<Rightarrow> judgment_kind \<Rightarrow> judgment_state \<Rightarrow> judgment_db \<Rightarrow>
     judgment_db \<times> judgment_row option" where
  "createSessionStatusJudgmentRequest now i sessionId sourceEventId kind st db =
     (if sessionId \<notin> set (jd_sessions db) then (db, None)
      else case select_rows (\<lambda>row. jg_sessionId row = sessionId \<and> jg_sourceEventId row = sourceEventId)
                  (jd_rows db) of
        (k, existing) # _ \<Rightarrow> (db, Some existing)
      | [] \<Rightarrow>
          (let generation = nullish_or (latest_generation sessionId (jd_rows db)) 0 + 1;
               rows = fst (update_all (\<lambda>row. jg_sessionId row = sessionId \<and> live_judgment row)
                             (superseded now) (jd_rows db));
               created = \<lparr>jg_sessionId = sessionId, jg_sourceEventId = sourceEventId,
                  jg_generation = generation, jg_sourceKind = kind, jg_state = st,
                  jg_outcome = None, jg_confidence = None, jg_probabilities = None,
                  jg_attempts = 0, jg_claimedAt = None, jg_settledAt = None, jg_judgedAt = None,
                  jg_errorCode = None, jg_createdAt = now, jg_updatedAt = now\<rparr>
           in (db\<lparr>jd_rows := insert_row i created rows\<rparr>, Some created)))"

definition settled :: "ms \<Rightarrow> bool \<Rightarrow> judgment_row \<Rightarrow> judgment_row" where
  "settled now visible row =
     row\<lparr>jg_state := (if visible then JPending else JIgnored), jg_settledAt := Some now,
         jg_errorCode := (if visible then None else Some ''no_visible_reply''),
         jg_updatedAt := now\<rparr>"

definition settleSessionStatusJudgmentTurn ::
    "ms \<Rightarrow> string \<Rightarrow> string \<Rightarrow> string \<Rightarrow> bool \<Rightarrow> judgment_db \<Rightarrow> judgment_db" where
  "settleSessionStatusJudgmentTurn now i sessionId sourceEventId visible db =
     (case update_all (\<lambda>row. jg_sessionId row = sessionId \<and> jg_sourceEventId row = sourceEventId \<and>
                         jg_state row = JAwaitingSettlement)
             (settled now visible) (jd_rows db) of
        (rows, request # _) \<Rightarrow> db\<lparr>jd_rows := rows\<rparr>
      | (rows, []) \<Rightarrow>
          if \<not> visible then db
          else fst (createSessionStatusJudgmentRequest now i sessionId sourceEventId FastTurn
                      JPending db))"

subsection \<open>Claims\<close>

definition claimable_judgment :: "ms \<Rightarrow> string list option \<Rightarrow> judgment_row \<Rightarrow> bool" where
  "claimable_judgment now sessionIds row \<longleftrightarrow>
     (jg_state row = JPending \<or>
      jg_state row = JProcessing \<and>
        (case jg_claimedAt row of None \<Rightarrow> False | Some t \<Rightarrow> t < now - CLAIM_LEASE_MS)) \<and>
     (case sessionIds of None \<Rightarrow> True | Some ids \<Rightarrow> jg_sessionId row \<in> set ids)"

text \<open>The loop over the candidates: the rows, and what has been claimed.\<close>

fun claim_candidates ::
    "ms \<Rightarrow> (string \<times> judgment_row) list \<Rightarrow> judgment_row table \<Rightarrow> judgment_row table \<times> (string \<times> judgment_row) list" where
  "claim_candidates now [] t = (t, [])"
| "claim_candidates now ((k, candidate) # candidates) t =
     (if latest_generation (jg_sessionId candidate) t \<noteq> Some (jg_generation candidate)
      then claim_candidates now candidates (fst (update_where k (\<lambda>_. True) (superseded now) t))
      else
        let (t', updated) =
              update_where k (\<lambda>_. True)
                (\<lambda>row. row\<lparr>jg_state := JProcessing, jg_attempts := jg_attempts candidate + 1,
                   jg_claimedAt := Some now, jg_errorCode := None, jg_updatedAt := now\<rparr>) t;
            (t'', claimed) = claim_candidates now candidates t'
        in (t'', (case updated of None \<Rightarrow> [] | Some row \<Rightarrow> [(k, row)]) @ claimed))"

definition claimSessionStatusJudgmentRequests ::
    "ms \<Rightarrow> nat \<Rightarrow> string list option \<Rightarrow> judgment_db \<Rightarrow> judgment_db \<times> (string \<times> judgment_row) list" where
  "claimSessionStatusJudgmentRequests now limit sessionIds db =
     (if sessionIds = Some [] then (db, [])
      else
        let candidates = take limit
              (sort_key (\<lambda>(k, row). (jg_createdAt row, k))
                 (select_rows (claimable_judgment now sessionIds) (jd_rows db)));
            (rows, claimed) = claim_candidates now candidates (jd_rows db)
        in (db\<lparr>jd_rows := rows\<rparr>, claimed))"

subsection \<open>Verdicts\<close>

record verdict =
  vd_id :: string
  vd_sessionId :: string
  vd_generation :: nat
  vd_applied :: bool
  vd_outcome :: "judgment_outcome option"
  vd_confidence :: "rat option"
  vd_probabilities :: "probabilities option"
  vd_errorCode :: "string option"
  vd_emitDoneWebhook :: bool

datatype completion = CompletedApplied | CompletedIgnored | CompletedStale | CompletedMissing

definition judged :: "ms \<Rightarrow> verdict \<Rightarrow> judgment_row \<Rightarrow> judgment_row" where
  "judged now v row =
     row\<lparr>jg_state := (if vd_applied v then JApplied else JIgnored), jg_outcome := vd_outcome v,
         jg_confidence := vd_confidence v, jg_probabilities := vd_probabilities v,
         jg_claimedAt := None, jg_judgedAt := (if vd_applied v then Some now else None),
         jg_errorCode := vd_errorCode v, jg_updatedAt := now\<rparr>"

definition webhook_ready :: "webhook_settings option \<Rightarrow> bool" where
  "webhook_ready settings \<longleftrightarrow>
     (case settings of None \<Rightarrow> False
      | Some ws \<Rightarrow> ws_enabled ws \<and> truthy (ws_url ws) \<and> truthy (ws_secret ws))"

text \<open>\<open>insert ... on conflict (judgment_id) do nothing\<close>, the new row's id being \<open>d\<close>.\<close>

definition insert_delivery ::
    "ms \<Rightarrow> string \<Rightarrow> string \<Rightarrow> string \<Rightarrow> webhook_delivery table \<Rightarrow> webhook_delivery table" where
  "insert_delivery now d sessionId judgmentId t =
     (if select_rows (\<lambda>row. wd_judgmentId row = judgmentId) t \<noteq> [] then t
      else insert_row d \<lparr>wd_sessionId = sessionId, wd_judgmentId = judgmentId,
             wd_status = DPending, wd_leaseToken = None, wd_leaseExpiresAt = None, wd_attempts = 0,
             wd_nextAttemptAt = now, wd_lastError = None, wd_deliveredAt = None,
             wd_createdAt = now\<rparr> t)"

definition completeSessionStatusJudgment ::
    "ms \<Rightarrow> string \<Rightarrow> verdict \<Rightarrow> judgment_db \<Rightarrow> judgment_db \<times> completion" where
  "completeSessionStatusJudgment now d v db =
     (if vd_sessionId v \<notin> set (jd_sessions db) then (db, CompletedMissing)
      else if latest_generation (vd_sessionId v) (jd_rows db) \<noteq> Some (vd_generation v)
      then (db\<lparr>jd_rows := fst (update_where (vd_id v) (\<lambda>_. True) (superseded now) (jd_rows db))\<rparr>,
            CompletedStale)
      else
        case update_where (vd_id v) (\<lambda>row. jg_state row = JProcessing) (judged now v) (jd_rows db) of
          (rows, None) \<Rightarrow> (db, CompletedMissing)
        | (rows, Some updated) \<Rightarrow>
            (db\<lparr>jd_rows := rows,
                jd_deliveries :=
                  (if vd_applied v \<and> vd_outcome v = Some OutDone \<and> vd_emitDoneWebhook v \<and>
                      webhook_ready (jd_settings db)
                   then insert_delivery now d (vd_sessionId v) (vd_id v) (jd_deliveries db)
                   else jd_deliveries db)\<rparr>,
             if vd_applied v then CompletedApplied else CompletedIgnored))"

definition retryOrFailSessionStatusJudgment ::
    "ms \<Rightarrow> string \<Rightarrow> nat \<Rightarrow> string \<Rightarrow> judgment_db \<Rightarrow> judgment_db" where
  "retryOrFailSessionStatusJudgment now i attempts errorCode db =
     db\<lparr>jd_rows := fst (update_where i (\<lambda>row. jg_state row = JProcessing)
          (\<lambda>row. row\<lparr>jg_state := (if attempts \<ge> MAX_SESSION_STATUS_JUDGMENT_ATTEMPTS then JFailed
                                   else JPending),
              jg_claimedAt := None, jg_errorCode := Some errorCode, jg_updatedAt := now\<rparr>)
          (jd_rows db))\<rparr>"

definition HISTORY_MS :: ms where
  "HISTORY_MS = 30 * 24 * 60 * 60 * 1000"

text \<open>Deleting a request deletes the deliveries that refer to it (\<open>onDelete: 'cascade'\<close>).\<close>

definition prunable_judgment :: "ms \<Rightarrow> judgment_row table \<Rightarrow> judgment_row \<Rightarrow> bool" where
  "prunable_judgment now t row \<longleftrightarrow>
     jg_state row \<in> {JApplied, JIgnored, JFailed, JStale} \<and> jg_createdAt row < now - HISTORY_MS \<and>
     (\<exists>(k, newer) \<in> set t. jg_sessionId newer = jg_sessionId row \<and>
        jg_generation newer > jg_generation row)"

definition pruneSessionStatusJudgmentHistory ::
    "ms \<Rightarrow> nat \<Rightarrow> judgment_db \<Rightarrow> judgment_db \<times> nat" where
  "pruneSessionStatusJudgmentHistory now limit db =
     (let gone = map fst (take limit (sort_key (\<lambda>(k, row). (jg_createdAt row, k))
                   (select_rows (prunable_judgment now (jd_rows db)) (jd_rows db))))
      in (db\<lparr>jd_rows := filter (\<lambda>(k, row). k \<notin> set gone) (jd_rows db),
             jd_deliveries := filter (\<lambda>(d, row). wd_judgmentId row \<notin> set gone) (jd_deliveries db)\<rparr>,
          length gone))"

subsection \<open>The judge\<close>

definition SESSION_STATUS_INACTIVITY_MS :: ms where
  "SESSION_STATUS_INACTIVITY_MS = 4 * 24 * 60 * 60 * 1000"

fun confidenceThreshold :: "judgment_outcome \<Rightarrow> rat" where
  "confidenceThreshold OutOpen = 7 / 10"
| "confidenceThreshold OutDone = 9 / 10"
| "confidenceThreshold OutBlocked = 85 / 100"
| "confidenceThreshold OutNeedsInput = 85 / 100"
| "confidenceThreshold OutUnclear = 1"

datatype owner_kind = OwnerUser | OwnerAutomation | OwnerSystem

datatype work_state = WorkActive | WorkSettled | WorkWaitingForUser

text \<open>What \<open>loadJudgmentState\<close> reads of a session, but the texts for the judge.\<close>

record judgment_snapshot =
  sn_evaluationTime :: ms
  sn_latestVisibleUserMessageAt :: "ms option"
  sn_manualStatusChangedAt :: "ms option"
  sn_ownerKind :: owner_kind
  sn_reviewHandoff :: bool
  sn_goalStatus :: "string option"
  sn_respondingUntil :: "ms option"
  sn_hasActiveTask :: bool
  sn_pendingUserInput :: bool

definition live_turn :: "ms \<Rightarrow> judgment_snapshot \<Rightarrow> bool" where
  "live_turn now sn \<longleftrightarrow> (case sn_respondingUntil sn of None \<Rightarrow> False | Some t \<Rightarrow> t > now)"

definition goal_still_active :: "judgment_snapshot \<Rightarrow> bool" where
  "goal_still_active sn \<longleftrightarrow> sn_goalStatus sn = Some ''active''"

text \<open>The work state is computed while the snapshot is loaded, at its evaluation time.\<close>

definition roomote_work_state :: "judgment_snapshot \<Rightarrow> work_state" where
  "roomote_work_state sn =
     (if sn_pendingUserInput sn then WorkWaitingForUser
      else if live_turn (sn_evaluationTime sn) sn \<or> sn_hasActiveTask sn \<or> goal_still_active sn
      then WorkActive
      else WorkSettled)"

definition resolveAuthoritativeSessionStatusJudgment ::
    "judgment_snapshot \<Rightarrow> judgment_outcome option" where
  "resolveAuthoritativeSessionStatusJudgment sn =
     (if sn_ownerKind sn = OwnerAutomation \<and> roomote_work_state sn = WorkSettled \<and>
         sn_reviewHandoff sn
      then Some OutNeedsInput else None)"

datatype precedence = ByManual | ByInactivity

definition resolveSessionStatusJudgmentPrecedence :: "judgment_snapshot \<Rightarrow> precedence option" where
  "resolveSessionStatusJudgmentPrecedence sn =
     (case (sn_manualStatusChangedAt sn, sn_latestVisibleUserMessageAt sn) of
        (Some manual, None) \<Rightarrow> Some ByManual
      | (None, None) \<Rightarrow> None
      | (manual, Some user) \<Rightarrow>
          if (case manual of None \<Rightarrow> False | Some m \<Rightarrow> user \<le> m) then Some ByManual
          else if sn_evaluationTime sn - user \<ge> SESSION_STATUS_INACTIVITY_MS then Some ByInactivity
          else None)"

record judge_answer =
  ja_choice :: judgment_outcome
  ja_confidence :: "rat option"
  ja_probabilities :: probabilities

definition finite_probability :: "rat option \<Rightarrow> bool" where
  "finite_probability p \<longleftrightarrow> (case p of None \<Rightarrow> False | Some q \<Rightarrow> 0 \<le> q \<and> q \<le> 1)"

definition chooseApplicableSessionStatusJudgment :: "judge_answer \<Rightarrow> judge_answer option" where
  "chooseApplicableSessionStatusJudgment answer =
     (if ja_choice answer \<notin> set SESSION_STATUS_JUDGMENT_OUTCOMES \<or>
         (case ja_confidence answer of None \<Rightarrow> True
          | Some c \<Rightarrow> c < confidenceThreshold (ja_choice answer)) \<or>
         \<not> list_all (\<lambda>(out, p). finite_probability p) (ja_probabilities answer)
      then None
      else if ja_choice answer = OutUnclear then None
      else Some answer)"

text \<open>
  What a worker decides on a claimed request, \<open>now\<close> being when it reads the clock: the snapshot
  is \<open>None\<close> where the session is gone, the answer where no judge is configured.
\<close>

definition judge_request ::
    "ms \<Rightarrow> judgment_snapshot option \<Rightarrow> judge_answer option \<Rightarrow> string \<Rightarrow> judgment_row \<Rightarrow> verdict" where
  "judge_request now snapshot answer i request =
     (let conclude = (\<lambda>applied out confidence probs code emit.
            \<lparr>vd_id = i, vd_sessionId = jg_sessionId request,
             vd_generation = jg_generation request, vd_applied = applied, vd_outcome = out,
             vd_confidence = confidence, vd_probabilities = probs, vd_errorCode = code,
             vd_emitDoneWebhook = emit\<rparr>)
      in case snapshot of
        None \<Rightarrow> conclude False None None None (Some ''session_missing'') True
      | Some sn \<Rightarrow>
          (case resolveSessionStatusJudgmentPrecedence sn of
             Some ByManual \<Rightarrow> conclude False None None None (Some ''manual_status'') True
           | Some ByInactivity \<Rightarrow>
               (let liveWork = live_turn now sn \<or> sn_hasActiveTask sn \<or> goal_still_active sn
                in conclude (\<not> liveWork) (Some OutDone) (Some 1) (Some [(OutDone, Some 1)])
                     (if liveWork then Some ''live_work'' else None) False)
           | None \<Rightarrow>
               (case resolveAuthoritativeSessionStatusJudgment sn of
                  Some out \<Rightarrow> conclude True (Some out) (Some 1) (Some [(out, Some 1)]) None True
                | None \<Rightarrow>
                    (case answer of
                       None \<Rightarrow> conclude False None None None (Some ''judgment_unconfigured'') True
                     | Some a \<Rightarrow>
                         (case chooseApplicableSessionStatusJudgment a of
                            None \<Rightarrow>
                              conclude False (Some (ja_choice a)) (ja_confidence a)
                                (Some (ja_probabilities a)) (Some ''low_confidence'') True
                          | Some decision \<Rightarrow>
                              (let held = ja_choice decision = OutDone \<and>
                                     (live_turn now sn \<or> sn_hasActiveTask sn \<or>
                                      goal_still_active sn \<or> sn_pendingUserInput sn)
                               in conclude (\<not> held) (Some (ja_choice decision))
                                    (ja_confidence decision) (Some (ja_probabilities decision))
                                    (if held then Some ''live_work'' else None) True))))))"

subsection \<open>The webhook\<close>

definition DELIVERY_LEASE_MS :: ms where
  "DELIVERY_LEASE_MS = 2 * 60 * 1000"

definition MAX_DELIVERY_ATTEMPTS :: nat where
  "MAX_DELIVERY_ATTEMPTS = 5"

definition MAX_RETRY_DELAY_MS :: ms where
  "MAX_RETRY_DELAY_MS = 60 * 60 * 1000"

definition retryDelayMs :: "nat \<Rightarrow> ms" where
  "retryDelayMs attempts = min MAX_RETRY_DELAY_MS (60000 * 2 ^ (attempts - 1))"

definition due_delivery :: "ms \<Rightarrow> webhook_delivery \<Rightarrow> bool" where
  "due_delivery now row \<longleftrightarrow>
     wd_status row = DPending \<and> wd_nextAttemptAt row \<le> now \<and>
     (case wd_leaseExpiresAt row of None \<Rightarrow> True | Some t \<Rightarrow> t < now)"

text \<open>The transaction that claims one delivery; \<open>token\<close> is the new lease's random token.\<close>

definition claimDueDelivery ::
    "ms \<Rightarrow> nat \<Rightarrow> judgment_db \<Rightarrow> judgment_db \<times> (string \<times> webhook_delivery) option" where
  "claimDueDelivery now token db =
     (case sort_key (\<lambda>(d, row). wd_nextAttemptAt row)
             (select_rows (due_delivery now) (jd_deliveries db)) of
        [] \<Rightarrow> (db, None)
      | (d, row) # _ \<Rightarrow>
          (case update_where d (\<lambda>_. True)
                  (\<lambda>row. row\<lparr>wd_leaseToken := Some token,
                     wd_leaseExpiresAt := Some (now + DELIVERY_LEASE_MS)\<rparr>) (jd_deliveries db) of
             (rows, claimed) \<Rightarrow>
               (db\<lparr>jd_deliveries := rows\<rparr>, map_option (\<lambda>row. (d, row)) claimed)))"

definition finishDelivery ::
    "string \<Rightarrow> nat \<Rightarrow> (webhook_delivery \<Rightarrow> webhook_delivery) \<Rightarrow> judgment_db \<Rightarrow> judgment_db" where
  "finishDelivery d token values db =
     db\<lparr>jd_deliveries := fst (update_where d (\<lambda>row. wd_leaseToken row = Some token)
          (\<lambda>row. (values row)\<lparr>wd_leaseToken := None, wd_leaseExpiresAt := None\<rparr>)
          (jd_deliveries db))\<rparr>"

definition shouldRetryStatus :: "nat \<Rightarrow> bool" where
  "shouldRetryStatus status \<longleftrightarrow> status = 408 \<or> status = 425 \<or> status = 429 \<or> status \<ge> 500"

text \<open>What the endpoint did: a status, a refusal by the outbound policy, or another error.\<close>

datatype post_result = HttpStatus nat | PolicyViolation | PostFailed string

text \<open>
  What \<open>drainSessionDoneWebhookDeliveries\<close> makes of a delivery it has claimed: without settings,
  or without the event, it is skipped and nothing is sent.
\<close>

definition delivery_outcome ::
    "ms \<Rightarrow> webhook_settings option \<Rightarrow> bool \<Rightarrow> post_result \<Rightarrow> webhook_delivery \<Rightarrow>
     webhook_delivery \<Rightarrow> webhook_delivery" where
  "delivery_outcome now settings eventExists posted claim row =
     (if \<not> webhook_ready settings
      then row\<lparr>wd_status := DSkipped,
               wd_lastError := Some ''Completion webhook is disabled or incomplete.''\<rparr>
      else if \<not> eventExists
      then row\<lparr>wd_status := DSkipped, wd_lastError := Some ''Completion event no longer exists.''\<rparr>
      else
        let attempts = wd_attempts claim + 1;
            close = (\<lambda>retry message. row\<lparr>wd_status := (if retry then DPending else DFailed),
              wd_attempts := attempts,
              wd_nextAttemptAt :=
                (if retry then now + retryDelayMs attempts else wd_nextAttemptAt claim),
              wd_lastError := Some message\<rparr>)
        in case posted of
          HttpStatus status \<Rightarrow>
            if 200 \<le> status \<and> status < 300
            then row\<lparr>wd_status := DDelivered, wd_attempts := attempts, wd_deliveredAt := Some now,
                     wd_lastError := None\<rparr>
            else close (shouldRetryStatus status \<and> attempts < MAX_DELIVERY_ATTEMPTS)
                   (''Webhook endpoint returned HTTP '' @ nat_str status @ ''.'')
        | PolicyViolation \<Rightarrow> close False ''Webhook URL was rejected by outbound request policy.''
        | PostFailed message \<Rightarrow> close (attempts < MAX_DELIVERY_ATTEMPTS) (take 2000 message))"

subsection \<open>Everybody at work\<close>

text \<open>
  The judging workers, each with a request it has claimed; the senders, each with a delivery, the
  token of its lease and the time of its claim; and, for the properties only, the applied verdicts
  with what they were based on, and the ids ever given out. A worker judges what it read at some
  time, and a sender reads the settings and the event, and gets an answer, at some time; whatever
  those were.
\<close>

record judge_system =
  jy_db :: judgment_db
  jy_now :: ms
  jy_judging :: "(string \<times> judgment_row) list"
  jy_sending :: "(string \<times> webhook_delivery \<times> nat \<times> ms) list"
  jy_verdicts :: "(ms \<times> string \<times> judgment_snapshot option \<times> judge_answer option) list"
  jy_ids :: "string list"
  jy_tokens :: "nat list"

inductive judge_step :: "judge_system \<Rightarrow> judge_system \<Rightarrow> bool" where
  js_time: "jy_now s \<le> t \<Longrightarrow> judge_step s (s\<lparr>jy_now := t\<rparr>)"
| js_session:
    "judge_step s (s\<lparr>jy_db := (jy_db s)\<lparr>jd_sessions := sessionId # jd_sessions (jy_db s)\<rparr>\<rparr>)"
| js_settings: "judge_step s (s\<lparr>jy_db := (jy_db s)\<lparr>jd_settings := settings\<rparr>\<rparr>)"
| js_request:
    "i \<notin> set (jy_ids s) \<Longrightarrow> st = JAwaitingSettlement \<or> st = JPending \<Longrightarrow>
     createSessionStatusJudgmentRequest (jy_now s) i sessionId sourceEventId kind st (jy_db s) =
       (db, row) \<Longrightarrow>
     judge_step s (s\<lparr>jy_db := db, jy_ids := i # jy_ids s\<rparr>)"
| js_settle:
    "i \<notin> set (jy_ids s) \<Longrightarrow>
     judge_step s (s\<lparr>jy_db := settleSessionStatusJudgmentTurn (jy_now s) i sessionId sourceEventId
                       visible (jy_db s),
                     jy_ids := i # jy_ids s\<rparr>)"
| js_claim:
    "claimSessionStatusJudgmentRequests (jy_now s) limit sessionIds (jy_db s) = (db, claimed) \<Longrightarrow>
     judge_step s (s\<lparr>jy_db := db, jy_judging := claimed @ jy_judging s\<rparr>)"
| js_judge:
    "(i, request) \<in> set (jy_judging s) \<Longrightarrow> d \<notin> set (jy_ids s) \<Longrightarrow>
     completeSessionStatusJudgment (jy_now s) d (judge_request t snapshot answer i request)
       (jy_db s) = (db, completion) \<Longrightarrow>
     judge_step s
       (s\<lparr>jy_db := db, jy_judging := remove1 (i, request) (jy_judging s),
          jy_ids := d # jy_ids s,
          jy_verdicts := (if completion = CompletedApplied
             then (t, i, snapshot, answer) # jy_verdicts s else jy_verdicts s)\<rparr>)"
| js_fail:
    "(i, request) \<in> set (jy_judging s) \<Longrightarrow>
     judge_step s
       (s\<lparr>jy_db := retryOrFailSessionStatusJudgment (jy_now s) i (jg_attempts request) errorCode
                     (jy_db s),
          jy_judging := remove1 (i, request) (jy_judging s)\<rparr>)"
| js_judge_dies: "judge_step s (s\<lparr>jy_judging := remove1 job (jy_judging s)\<rparr>)"
| js_prune:
    "judge_step s
       (s\<lparr>jy_db := fst (pruneSessionStatusJudgmentHistory (jy_now s) limit (jy_db s))\<rparr>)"
| js_send:
    "token \<notin> set (jy_tokens s) \<Longrightarrow>
     claimDueDelivery (jy_now s) token (jy_db s) = (db, Some (d, row)) \<Longrightarrow>
     judge_step s
       (s\<lparr>jy_db := db, jy_sending := (d, row, token, jy_now s) # jy_sending s,
          jy_tokens := token # jy_tokens s\<rparr>)"
| js_sent:
    "(d, row, token, t) \<in> set (jy_sending s) \<Longrightarrow>
     judge_step s
       (s\<lparr>jy_db := finishDelivery d token
            (delivery_outcome now settings eventExists posted row) (jy_db s),
          jy_sending := remove1 (d, row, token, t) (jy_sending s)\<rparr>)"
| js_sender_dies: "judge_step s (s\<lparr>jy_sending := remove1 claim (jy_sending s)\<rparr>)"

definition judge_start :: "ms \<Rightarrow> judge_system" where
  "judge_start now =
     \<lparr>jy_db = \<lparr>jd_sessions = [], jd_rows = [], jd_deliveries = [], jd_settings = None\<rparr>,
      jy_now = now, jy_judging = [], jy_sending = [], jy_verdicts = [], jy_ids = [],
      jy_tokens = []\<rparr>"

inductive judge_reachable :: "judge_system \<Rightarrow> bool" where
  start: "judge_reachable (judge_start now)"
| step: "judge_reachable s \<Longrightarrow> judge_step s t \<Longrightarrow> judge_reachable t"

end
