(* ===== verification/JudgmentSafety.thy ===== *)
theory JudgmentSafety
  imports StatusJudgments
begin

section \<open>What no interleaving can do to a session's judgments\<close>

text \<open>
  The invariants of the judging system of \<open>StatusJudgments\<close>: a session's live request is its
  newest, an announcement rests on a verdict, and the senders of the webhook are a lease apart.
\<close>

subsection \<open>The newest request of a session\<close>

lemma foldl_max: "foldl max (a :: nat) xs = Max (set (a # xs))"
proof (induction xs arbitrary: a)
  case (Cons x xs)
  show ?case unfolding foldl_Cons Cons.IH by (simp add: Max_insert2 flip: Max.insert_remove)
    (cases xs; simp add: max.assoc)
qed simp

lemma latest_generation_None:
  assumes "jsmap_ok t"
  shows "latest_generation s t = None \<longleftrightarrow> (\<forall>k r. map_of t k = Some r \<longrightarrow> jg_sessionId r \<noteq> s)"
proof (cases "select_rows (\<lambda>row. jg_sessionId row = s) t")
  case Nil
  then show ?thesis
    using set_select_rows [OF assms, of _ _ "\<lambda>row. jg_sessionId row = s"]
    by (auto simp: latest_generation_def)
next
  case (Cons x xs)
  obtain k r where x: "x = (k, r)" by (cases x)
  then have "map_of t k = Some r" "jg_sessionId r = s"
    using set_select_rows [OF assms, of k r "\<lambda>row. jg_sessionId row = s"] Cons by simp_all
  then show ?thesis using Cons by (auto simp: latest_generation_def x)
qed

lemma latest_generation_Some:
  assumes "jsmap_ok t" "latest_generation s t = Some g" "map_of t k = Some r" "jg_sessionId r = s"
  shows "jg_generation r \<le> g"
proof -
  let ?gs = "map (\<lambda>(k, row). jg_generation row) (select_rows (\<lambda>row. jg_sessionId row = s) t)"
  have "jg_generation r \<in> set ?gs"
    using assms by (force simp: select_rows_def jsmap_values_iff)
  moreover obtain x xs where "?gs = x # xs" "g = foldl max x xs"
    using assms(2) unfolding latest_generation_def by (cases ?gs) auto
  ultimately show ?thesis unfolding foldl_max by (metis List.finite_set Max_ge)
qed

definition newest :: "judgment_row table \<Rightarrow> bool" where
  "newest t \<longleftrightarrow>
     (\<forall>k r k' r'. map_of t k = Some r \<longrightarrow> map_of t k' = Some r' \<longrightarrow>
        jg_sessionId r' = jg_sessionId r \<longrightarrow> k' \<noteq> k \<longrightarrow>
        jg_generation r' \<noteq> jg_generation r \<and>
        (live_judgment r \<longrightarrow> jg_generation r' < jg_generation r))"

text \<open>No row is added and none comes back to life.\<close>

definition carries_on :: "judgment_row table \<Rightarrow> judgment_row table \<Rightarrow> bool" where
  "carries_on t t' \<longleftrightarrow>
     (\<forall>k r'. map_of t' k = Some r' \<longrightarrow>
        (\<exists>r. map_of t k = Some r \<and> jg_sessionId r' = jg_sessionId r \<and>
             jg_generation r' = jg_generation r \<and> (live_judgment r' \<longrightarrow> live_judgment r)))"

lemma carries_on_refl: "carries_on t t"
  by (auto simp: carries_on_def)

lemma carries_on_trans: "carries_on t t' \<Longrightarrow> carries_on t' t'' \<Longrightarrow> carries_on t t''"
  unfolding carries_on_def by metis

lemma newest_carries_on:
  assumes "newest t" "carries_on t t'"
  shows "newest t'"
  unfolding newest_def
proof (intro allI impI)
  fix k r k' r'
  assume r: "map_of t' k = Some r" "map_of t' k' = Some r'" "jg_sessionId r' = jg_sessionId r"
    "k' \<noteq> k"
  obtain q where q: "map_of t k = Some q" "jg_sessionId r = jg_sessionId q"
    "jg_generation r = jg_generation q" "live_judgment r \<longrightarrow> live_judgment q"
    using assms(2) r(1) unfolding carries_on_def by blast
  obtain q' where q': "map_of t k' = Some q'" "jg_sessionId r' = jg_sessionId q'"
    "jg_generation r' = jg_generation q'"
    using assms(2) r(2) unfolding carries_on_def by blast
  have "jg_generation q' \<noteq> jg_generation q \<and> (live_judgment q \<longrightarrow> jg_generation q' < jg_generation q)"
    using assms(1) q(1) q'(1) r(3,4) q(2) q'(2) unfolding newest_def by metis
  then show "jg_generation r' \<noteq> jg_generation r \<and>
      (live_judgment r \<longrightarrow> jg_generation r' < jg_generation r)"
    using q(3,4) q'(3) by simp
qed

lemma carries_on_update_where:
  assumes "\<And>r. map_of t k = Some r \<Longrightarrow> p r \<Longrightarrow> jg_sessionId (f r) = jg_sessionId r \<and>
     jg_generation (f r) = jg_generation r \<and> (live_judgment (f r) \<longrightarrow> live_judgment r)"
  shows "carries_on t (fst (update_where k p f t))"
  using assms by (auto simp: carries_on_def table_ops)

lemma carries_on_update_all:
  assumes "\<And>r. p r \<Longrightarrow> jg_sessionId (f r) = jg_sessionId r \<and>
     jg_generation (f r) = jg_generation r \<and> (live_judgment (f r) \<longrightarrow> live_judgment r)"
  shows "carries_on t (fst (update_all p f t))"
  unfolding carries_on_def
proof (intro allI impI)
  fix k r'
  assume "map_of (fst (update_all p f t)) k = Some r'"
  then obtain r where "map_of t k = Some r" "r' = (if p r then f r else r)"
    by (cases "map_of t k") (simp_all add: map_of_update_all)
  then show "\<exists>r. map_of t k = Some r \<and> jg_sessionId r' = jg_sessionId r \<and>
      jg_generation r' = jg_generation r \<and> (live_judgment r' \<longrightarrow> live_judgment r)"
    using assms [of r] by simp
qed

lemma carries_on_filter:
  assumes "jsmap_ok t"
  shows "jsmap_ok (filter (\<lambda>(k, row). q k) t)" "carries_on t (filter (\<lambda>(k, row). q k) t)"
proof -
  show ok: "jsmap_ok (filter (\<lambda>(k, row). q k) t)"
    using assms unfolding jsmap_ok_def by (rule distinct_map_filter)
  show "carries_on t (filter (\<lambda>(k, row). q k) t)"
    unfolding carries_on_def jsmap_values_iff [OF ok, symmetric]
      jsmap_values_iff [OF assms, symmetric] by auto
qed

lemma superseded_simps [simp]:
  "jg_sessionId (superseded now r) = jg_sessionId r"
  "jg_generation (superseded now r) = jg_generation r"
  "jg_sourceEventId (superseded now r) = jg_sourceEventId r"
  "\<not> live_judgment (superseded now r)"
  by (simp_all add: superseded_def live_judgment_def)

lemma settled_carries: "jg_state r = JAwaitingSettlement \<Longrightarrow>
   jg_sessionId (settled now v r) = jg_sessionId r \<and> jg_generation (settled now v r) = jg_generation r \<and>
   (live_judgment (settled now v r) \<longrightarrow> live_judgment r)"
  by (simp add: settled_def live_judgment_def)

lemma create_keeps:
  assumes "createSessionStatusJudgmentRequest now i sessionId sourceEventId kind st db = (db', row)"
    "jsmap_ok (jd_rows db)" "newest (jd_rows db)" "map_of (jd_rows db) i = None"
  shows "jsmap_ok (jd_rows db')" "newest (jd_rows db')" "jd_deliveries db' = jd_deliveries db"
    "\<And>k. k \<noteq> i \<Longrightarrow> map_of (jd_rows db) k = None \<Longrightarrow> map_of (jd_rows db') k = None"
proof -
  let ?q = "\<lambda>row. jg_sessionId row = sessionId \<and> live_judgment row"
  let ?t = "fst (update_all ?q (superseded now) (jd_rows db))"
  let ?g = "nullish_or (latest_generation sessionId (jd_rows db)) 0 + 1"
  consider "db' = db"
    | created where "db' = db\<lparr>jd_rows := insert_row i created ?t\<rparr>"
      "jg_sessionId created = sessionId" "jg_generation created = ?g"
    using assms(1) unfolding createSessionStatusJudgmentRequest_def
    by (auto simp: Let_def split: if_splits list.splits prod.splits)
  note cs = this
  show "jsmap_ok (jd_rows db')" "jd_deliveries db' = jd_deliveries db"
    using cs assms(2) by (cases; simp)+
  show "map_of (jd_rows db') k = None" if "k \<noteq> i" "map_of (jd_rows db) k = None" for k
    using cs that by cases (simp_all add: table_ops)
  show "newest (jd_rows db')"
  proof (cases rule: cs)
    case 1 then show ?thesis using assms(3) by simp
  next
    case (2 created)
    have old: "newest ?t"
      by (rule newest_carries_on [OF assms(3) carries_on_update_all]) simp
    have below: "jg_generation r < ?g" and dead: "\<not> live_judgment r"
      if "map_of ?t k = Some r" "jg_sessionId r = sessionId" for k r
    proof -
      note found = that(1)
      obtain r0 where r0: "map_of (jd_rows db) k = Some r0"
        "r = (if ?q r0 then superseded now r0 else r0)"
        using found by (cases "map_of (jd_rows db) k") (simp_all add: map_of_update_all)
      then have same: "jg_sessionId r0 = sessionId" "jg_generation r = jg_generation r0"
        using that(2) by (auto split: if_splits)
      obtain g where g: "latest_generation sessionId (jd_rows db) = Some g"
        using latest_generation_None [OF assms(2)] r0(1) same(1) by fastforce
      then show "jg_generation r < ?g"
        using latest_generation_Some [OF assms(2) g r0(1) same(1)] same(2) by simp
      show "\<not> live_judgment r" using r0(2) same(1) by (auto split: if_splits)
    qed
    show ?thesis
      unfolding newest_def
    proof (intro allI impI)
      fix k r k' r'
      assume r: "map_of (jd_rows db') k = Some r" "map_of (jd_rows db') k' = Some r'"
        "jg_sessionId r' = jg_sessionId r" "k' \<noteq> k"
      have at: "map_of (jd_rows db') j = (if j = i then Some created else map_of ?t j)" for j
        unfolding 2(1) by (simp add: map_of_insert_row)
      have "k = i \<and> map_of ?t k' = Some r' \<and> r = created \<or>
          k' = i \<and> map_of ?t k = Some r \<and> r' = created \<or>
          map_of ?t k = Some r \<and> map_of ?t k' = Some r'"
        using r unfolding at by (simp split: if_splits)
      then consider "map_of ?t k' = Some r'" "r = created"
        | "map_of ?t k = Some r" "r' = created"
        | "map_of ?t k = Some r" "map_of ?t k' = Some r'"
        by blast
      then show "jg_generation r' \<noteq> jg_generation r \<and>
          (live_judgment r \<longrightarrow> jg_generation r' < jg_generation r)"
      proof cases
        case 1
        then show ?thesis using below [of k' r'] r(3) 2(2,3) by simp
      next
        case c: 2
        then show ?thesis using below [of k r] dead [of k r] r(3) 2(2,3) by simp
      next
        case 3
        then show ?thesis using old r(3,4) unfolding newest_def by blast
      qed
    qed
  qed
qed

subsection \<open>What the transactions keep\<close>

lemma carries_on_None: "carries_on t t' \<Longrightarrow> map_of t k = None \<Longrightarrow> map_of t' k = None"
  unfolding carries_on_def by (metis option.exhaust option.distinct(1))

lemma claim_candidates_keeps:
  assumes "jsmap_ok t" "distinct (map fst cs)"
    "\<And>k c. (k, c) \<in> set cs \<Longrightarrow> map_of t k = Some c \<and> live_judgment c"
  shows "jsmap_ok (fst (claim_candidates now cs t)) \<and> carries_on t (fst (claim_candidates now cs t))"
  using assms
proof (induction now cs t rule: claim_candidates.induct)
  case (2 now k c cs t)
  let ?claim = "\<lambda>row. row\<lparr>jg_state := JProcessing, jg_attempts := jg_attempts c + 1,
    jg_claimedAt := Some now, jg_errorCode := None, jg_updatedAt := now\<rparr>"
  have step: "jsmap_ok (fst (claim_candidates now cs t')) \<and>
      carries_on t (fst (claim_candidates now cs t'))"
    if t': "t' = fst (update_where k (\<lambda>_. True) f t)"
      and f: "jg_sessionId (f c) = jg_sessionId c" "jg_generation (f c) = jg_generation c"
      and IH: "jsmap_ok t' \<Longrightarrow> distinct (map fst cs) \<Longrightarrow>
        (\<And>k c. (k, c) \<in> set cs \<Longrightarrow> map_of t' k = Some c \<and> live_judgment c) \<Longrightarrow>
        jsmap_ok (fst (claim_candidates now cs t')) \<and>
        carries_on t' (fst (claim_candidates now cs t'))" for f t'
  proof -
    have here: "map_of t k = Some c" "live_judgment c" using "2.prems"(3) by auto
    have first: "carries_on t t'"
      unfolding t' by (rule carries_on_update_where) (simp add: here f)
    have "map_of t' j = Some d \<and> live_judgment d" if "(j, d) \<in> set cs" for j d
    proof -
      have "j \<noteq> k" using that "2.prems"(2) by force
      then show ?thesis using "2.prems"(3) [of j d] that by (simp add: t' table_ops)
    qed
    then have "jsmap_ok (fst (claim_candidates now cs t')) \<and>
        carries_on t' (fst (claim_candidates now cs t'))"
      using "2.prems"(1,2) by (intro IH) (simp_all add: t')
    then show ?thesis using carries_on_trans [OF first] by blast
  qed
  show ?case
  proof (cases "latest_generation (jg_sessionId c) t \<noteq> Some (jg_generation c)")
    case True
    have "jsmap_ok (fst (claim_candidates now cs (fst (update_where k (\<lambda>_. True) (superseded now) t)))) \<and>
        carries_on t (fst (claim_candidates now cs (fst (update_where k (\<lambda>_. True) (superseded now) t))))"
      by (rule step [OF refl]) (use "2.IH"(1) [OF True] in simp_all)
    then show ?thesis using True by simp
  next
    case False
    obtain t' updated where u: "update_where k (\<lambda>_. True) ?claim t = (t', updated)"
      by (rule prod.exhaust)
    have "jsmap_ok (fst (claim_candidates now cs t')) \<and> carries_on t (fst (claim_candidates now cs t'))"
      by (rule step [of t' ?claim]) (use u "2.IH"(2) [OF False u [symmetric] refl] in simp_all)
    then show ?thesis using False u by (cases "claim_candidates now cs t'") simp
  qed
qed (simp add: carries_on_refl)

lemma distinct_keys_take_sort:
  assumes "jsmap_ok t"
  shows "distinct (map fst (take n (sort_key f (filter p t))))"
proof -
  have "distinct (map fst (filter p t))"
    using assms unfolding jsmap_ok_def by (rule distinct_map_filter)
  then have "distinct (map fst (sort_key f (filter p t)))"
    by (simp add: distinct_map)
  then show ?thesis by (simp only: distinct_take flip: take_map)
qed

lemma claim_keeps:
  assumes "claimSessionStatusJudgmentRequests now limit sessionIds db = (db', claimed)"
    "jsmap_ok (jd_rows db)"
  shows "jsmap_ok (jd_rows db')" "carries_on (jd_rows db) (jd_rows db')"
    "jd_deliveries db' = jd_deliveries db"
proof -
  let ?cs = "take limit (sort_key (\<lambda>(k, row). (jg_createdAt row, k))
     (select_rows (claimable_judgment now sessionIds) (jd_rows db)))"
  have *: "db' = db \<or> db' = db\<lparr>jd_rows := fst (claim_candidates now ?cs (jd_rows db))\<rparr>"
    using assms(1) unfolding claimSessionStatusJudgmentRequests_def
    by (auto simp: Let_def split: if_splits prod.splits)
  have "jsmap_ok (fst (claim_candidates now ?cs (jd_rows db))) \<and>
      carries_on (jd_rows db) (fst (claim_candidates now ?cs (jd_rows db)))"
  proof (rule claim_candidates_keeps [OF assms(2)])
    show "distinct (map fst ?cs)"
      unfolding select_rows_def by (rule distinct_keys_take_sort [OF assms(2)])
    fix k c
    assume "(k, c) \<in> set ?cs"
    then have "(k, c) \<in> set (select_rows (claimable_judgment now sessionIds) (jd_rows db))"
      using set_take_subset by fastforce
    then show "map_of (jd_rows db) k = Some c \<and> live_judgment c"
      unfolding set_select_rows [OF assms(2)] by (auto simp: claimable_judgment_def live_judgment_def)
  qed
  then show "jsmap_ok (jd_rows db')" "carries_on (jd_rows db) (jd_rows db')"
    "jd_deliveries db' = jd_deliveries db"
    using * assms(2) carries_on_refl by auto
qed

lemma complete_keeps:
  assumes "completeSessionStatusJudgment now d v db = (db', completion)" "jsmap_ok (jd_rows db)"
  shows "jsmap_ok (jd_rows db')" "carries_on (jd_rows db) (jd_rows db')"
    "jd_deliveries db' = jd_deliveries db \<or>
     completion = CompletedApplied \<and> vd_applied v \<and> vd_outcome v = Some OutDone \<and>
     vd_emitDoneWebhook v \<and>
     jd_deliveries db' = insert_delivery now d (vd_sessionId v) (vd_id v) (jd_deliveries db)"
proof -
  let ?stale = "fst (update_where (vd_id v) (\<lambda>_. True) (superseded now) (jd_rows db))"
  let ?new = "fst (update_where (vd_id v) (\<lambda>row. jg_state row = JProcessing) (judged now v) (jd_rows db))"
  have cases: "jd_rows db' \<in> {jd_rows db, ?stale, ?new}"
    using assms(1) unfolding completeSessionStatusJudgment_def
    by (auto split: if_splits option.splits prod.splits)
  have "carries_on (jd_rows db) ?stale" by (rule carries_on_update_where) simp
  moreover have "carries_on (jd_rows db) ?new"
    by (rule carries_on_update_where) (simp add: judged_def live_judgment_def)
  ultimately show "jsmap_ok (jd_rows db')" "carries_on (jd_rows db) (jd_rows db')"
    using cases assms(2) carries_on_refl by auto
  show "jd_deliveries db' = jd_deliveries db \<or>
     completion = CompletedApplied \<and> vd_applied v \<and> vd_outcome v = Some OutDone \<and>
     vd_emitDoneWebhook v \<and>
     jd_deliveries db' = insert_delivery now d (vd_sessionId v) (vd_id v) (jd_deliveries db)"
    using assms(1) unfolding completeSessionStatusJudgment_def
    by (auto split: if_splits option.splits prod.splits)
qed

lemma retry_keeps:
  assumes "jsmap_ok (jd_rows db)"
  shows "jsmap_ok (jd_rows (retryOrFailSessionStatusJudgment now i n code db))"
    "carries_on (jd_rows db) (jd_rows (retryOrFailSessionStatusJudgment now i n code db))"
    "jd_deliveries (retryOrFailSessionStatusJudgment now i n code db) = jd_deliveries db"
  using assms unfolding retryOrFailSessionStatusJudgment_def
  by (auto intro!: carries_on_update_where simp: live_judgment_def)

lemma prune_keeps:
  assumes "jsmap_ok (jd_rows db)"
  obtains gone where
    "carries_on (jd_rows db) (jd_rows (fst (pruneSessionStatusJudgmentHistory now limit db)))"
    "jsmap_ok (jd_rows (fst (pruneSessionStatusJudgmentHistory now limit db)))"
    "jd_deliveries (fst (pruneSessionStatusJudgmentHistory now limit db)) =
       filter (\<lambda>(d, row). wd_judgmentId row \<notin> gone) (jd_deliveries db)"
  unfolding pruneSessionStatusJudgmentHistory_def Let_def fst_conv
  using carries_on_filter [OF assms] by auto

lemma settle_keeps:
  assumes "jsmap_ok (jd_rows db)" "newest (jd_rows db)" "map_of (jd_rows db) i = None"
    "db' = settleSessionStatusJudgmentTurn now i sessionId sourceEventId visible db"
  shows "jsmap_ok (jd_rows db')" "newest (jd_rows db')" "jd_deliveries db' = jd_deliveries db"
    "\<And>k. k \<noteq> i \<Longrightarrow> map_of (jd_rows db) k = None \<Longrightarrow> map_of (jd_rows db') k = None"
proof -
  let ?p = "\<lambda>row. jg_sessionId row = sessionId \<and> jg_sourceEventId row = sourceEventId \<and>
    jg_state row = JAwaitingSettlement"
  let ?t = "fst (update_all ?p (settled now visible) (jd_rows db))"
  obtain rows ks where u: "update_all ?p (settled now visible) (jd_rows db) = (rows, ks)"
    by (rule prod.exhaust)
  have on: "carries_on (jd_rows db) ?t"
    by (rule carries_on_update_all) (simp add: settled_carries)
  obtain created row where c: "createSessionStatusJudgmentRequest now i sessionId sourceEventId
      FastTurn JPending db = (created, row)"
    by (rule prod.exhaust)
  consider "db' = db" | "db' = db\<lparr>jd_rows := ?t\<rparr>" | "db' = created"
    using assms(4) unfolding settleSessionStatusJudgmentTurn_def u by (auto simp: u c split: list.splits if_splits)
  then show "jsmap_ok (jd_rows db')" "newest (jd_rows db')" "jd_deliveries db' = jd_deliveries db"
    "\<And>k. k \<noteq> i \<Longrightarrow> map_of (jd_rows db) k = None \<Longrightarrow> map_of (jd_rows db') k = None"
    using create_keeps [OF c assms(1,2,3)] assms(1,2) newest_carries_on [OF assms(2) on]
      carries_on_None [OF on]
    by (cases; simp)+
qed

text \<open>A verdict that is applied as done and announced is a confident one, with nothing going on.\<close>

definition done_verdict :: "ms \<Rightarrow> judgment_snapshot option \<Rightarrow> judge_answer option \<Rightarrow> bool" where
  "done_verdict t snapshot answer \<longleftrightarrow>
     (\<exists>sn a c. snapshot = Some sn \<and> answer = Some a \<and>
        resolveSessionStatusJudgmentPrecedence sn = None \<and> \<not> live_turn t sn \<and>
        \<not> sn_hasActiveTask sn \<and> \<not> goal_still_active sn \<and> \<not> sn_pendingUserInput sn \<and>
        ja_choice a = OutDone \<and> ja_confidence a = Some c \<and> 9 / 10 \<le> c)"

lemma judge_request_fixed [simp]:
  "vd_id (judge_request t snapshot answer i request) = i"
  "vd_sessionId (judge_request t snapshot answer i request) = jg_sessionId request"
  "vd_generation (judge_request t snapshot answer i request) = jg_generation request"
  by (auto simp: judge_request_def Let_def split: option.split precedence.split)

lemma authoritative_is_not_done: "resolveAuthoritativeSessionStatusJudgment sn \<noteq> Some OutDone"
  by (simp add: resolveAuthoritativeSessionStatusJudgment_def)

lemma choose_done:
  assumes "chooseApplicableSessionStatusJudgment a = Some b" "ja_choice b = OutDone"
  shows "a = b \<and> (\<exists>c. ja_confidence b = Some c \<and> 9 / 10 \<le> c)"
  using assms by (auto simp: chooseApplicableSessionStatusJudgment_def split: if_splits option.splits)

lemma judge_request_done:
  assumes "vd_applied (judge_request t snapshot answer i request)"
    "vd_outcome (judge_request t snapshot answer i request) = Some OutDone"
    "vd_emitDoneWebhook (judge_request t snapshot answer i request)"
  shows "done_verdict t snapshot answer"
  using assms choose_done authoritative_is_not_done
  by (auto simp: judge_request_def done_verdict_def Let_def
      split: option.splits precedence.splits if_splits)

subsection \<open>What holds in every run\<close>

definition requests_ok :: "judge_system \<Rightarrow> bool" where
  "requests_ok s \<longleftrightarrow>
     jsmap_ok (jd_rows (jy_db s)) \<and> newest (jd_rows (jy_db s)) \<and>
     (\<forall>i. i \<notin> set (jy_ids s) \<longrightarrow> map_of (jd_rows (jy_db s)) i = None)"

definition deliveries_ok :: "judge_system \<Rightarrow> bool" where
  "deliveries_ok s \<longleftrightarrow>
     jsmap_ok (jd_deliveries (jy_db s)) \<and>
     (\<forall>d. d \<notin> set (jy_ids s) \<longrightarrow> map_of (jd_deliveries (jy_db s)) d = None) \<and>
     (\<forall>d w. map_of (jd_deliveries (jy_db s)) d = Some w \<longrightarrow>
        (\<exists>t snapshot answer. (t, wd_judgmentId w, snapshot, answer) \<in> set (jy_verdicts s) \<and>
           done_verdict t snapshot answer))"

text \<open>A sender holds the lease of its delivery, or its lease has run out and somebody's else began.\<close>

fun sender_ok ::
    "judge_system \<Rightarrow> string \<times> webhook_delivery \<times> nat \<times> ms \<Rightarrow> bool" where
  "sender_ok s (d, row, token, c) \<longleftrightarrow>
     c \<le> jy_now s \<and> token \<in> set (jy_tokens s) \<and> d \<in> set (jy_ids s) \<and>
     (\<forall>w. map_of (jd_deliveries (jy_db s)) d = Some w \<longrightarrow>
        wd_leaseToken w = Some token \<and> wd_leaseExpiresAt w = Some (c + DELIVERY_LEASE_MS) \<or>
        wd_leaseToken w \<noteq> Some token \<and> c + DELIVERY_LEASE_MS < jy_now s)"

fun spaced :: "string \<times> webhook_delivery \<times> nat \<times> ms \<Rightarrow> string \<times> webhook_delivery \<times> nat \<times> ms \<Rightarrow> bool" where
  "spaced (d, row, token, c) (d', row', token', c') \<longleftrightarrow>
     token' \<noteq> token \<and> (d' = d \<longrightarrow> c' + DELIVERY_LEASE_MS < c)"

definition senders_ok :: "judge_system \<Rightarrow> bool" where
  "senders_ok s \<longleftrightarrow> (\<forall>x \<in> set (jy_sending s). sender_ok s x) \<and> sorted_wrt spaced (jy_sending s)"

lemma sorted_wrt_remove1: "sorted_wrt P xs \<Longrightarrow> sorted_wrt P (remove1 x xs)"
  by (induction xs) (auto dest: notin_set_remove1 set_remove1_subset [THEN subsetD])

lemma other_senders:
  assumes "sorted_wrt spaced xs" "(d, row, token, c) \<in> set xs"
    "(d', row', token', c') \<in> set (remove1 (d, row, token, c) xs)"
  shows "token' \<noteq> token \<and> (d' = d \<longrightarrow> c' + DELIVERY_LEASE_MS < c \<or> c + DELIVERY_LEASE_MS < c')"
  using assms
proof (induction xs)
  case (Cons x xs)
  have first: "spaced x y" if "y \<in> set xs" for y using Cons.prems(1) that by simp
  show ?case
  proof (cases "x = (d, row, token, c)")
    case True
    then have "(d', row', token', c') \<in> set xs" using Cons.prems(3) by simp
    from first [OF this] show ?thesis by (simp add: True)
  next
    case not_it: False
    then have in_tail: "(d, row, token, c) \<in> set xs" using Cons.prems(2) by auto
    show ?thesis
    proof (cases "x = (d', row', token', c')")
      case True
      have "token \<noteq> token' \<and> (d = d' \<longrightarrow> c + DELIVERY_LEASE_MS < c')"
        using first [OF in_tail] unfolding True spaced.simps .
      then show ?thesis by auto
    next
      case False
      have "(d', row', token', c') \<in> set (x # remove1 (d, row, token, c) xs)"
        using Cons.prems(3) unfolding remove1.simps if_not_P [OF not_it [symmetric]] .
      then have "(d', row', token', c') \<in> set (remove1 (d, row, token, c) xs)"
        using False by (metis set_ConsD)
      moreover have "sorted_wrt spaced xs" using Cons.prems(1) by (simp only: sorted_wrt.simps)
      ultimately show ?thesis using Cons.IH in_tail by blast
    qed
  qed
qed simp

lemma requests_step:
  assumes "judge_step s s'" "requests_ok s"
  shows "requests_ok s'"
proof -
  have ok: "jsmap_ok (jd_rows (jy_db s))" "newest (jd_rows (jy_db s))"
    "\<And>i. i \<notin> set (jy_ids s) \<Longrightarrow> map_of (jd_rows (jy_db s)) i = None"
    using assms(2) by (auto simp: requests_ok_def)
  have on: "requests_ok s'" if "jsmap_ok (jd_rows (jy_db s'))"
      "carries_on (jd_rows (jy_db s)) (jd_rows (jy_db s'))" "set (jy_ids s) \<subseteq> set (jy_ids s')"
    using that ok newest_carries_on [OF ok(2) that(2)] carries_on_None [OF that(2)]
    unfolding requests_ok_def by blast
  show ?thesis
    using assms(1)
  proof cases
    case (js_request i st sessionId sourceEventId kind db row)
    note kept = create_keeps [OF js_request(4) ok(1,2) ok(3) [OF js_request(2)]]
    show ?thesis
      unfolding requests_ok_def js_request(1) using kept ok(3) by auto
  next
    case (js_settle i sessionId sourceEventId visible)
    note kept = settle_keeps [OF ok(1,2) ok(3) [OF js_settle(2)] refl]
    show ?thesis
      unfolding requests_ok_def js_settle(1) using kept ok(3) by auto
  next
    case (js_claim limit sessionIds db claimed)
    show ?thesis
      using claim_keeps(1,2) [OF js_claim(2) ok(1)] by (intro on) (simp_all add: js_claim(1))
  next
    case (js_judge i request d t snapshot answer db completion)
    show ?thesis
      using complete_keeps(1,2) [OF js_judge(4) ok(1)] by (intro on) (auto simp: js_judge(1))
  next
    case (js_fail i request errorCode)
    show ?thesis using retry_keeps(1,2) [OF ok(1)] by (intro on) (simp_all add: js_fail(1))
  next
    case (js_prune limit)
    obtain gone where "carries_on (jd_rows (jy_db s)) (jd_rows (jy_db s'))" "jsmap_ok (jd_rows (jy_db s'))"
      by (rule prune_keeps [OF ok(1)]) (simp add: js_prune)
    then show ?thesis by (intro on) (simp_all add: js_prune)
  next
    case (js_send token db d row)
    have "jd_rows db = jd_rows (jy_db s)"
      using js_send(3) unfolding claimDueDelivery_def by (auto split: list.splits prod.splits)
    then show ?thesis using ok carries_on_refl by (intro on) (simp_all add: js_send(1))
  next
    case (js_sent d row token t now settings eventExists posted)
    then show ?thesis
      using ok carries_on_refl by (intro on) (simp_all add: finishDelivery_def)
  qed (use ok carries_on_refl in \<open>intro on; simp\<close>)+
qed

text \<open>What a step does to the deliveries.\<close>

inductive deliveries_change :: "judge_system \<Rightarrow> judge_system \<Rightarrow> bool" for s s' where
  dc_same: "jd_deliveries (jy_db s') = jd_deliveries (jy_db s) \<Longrightarrow>
     set (jy_sending s') \<subseteq> set (jy_sending s) \<Longrightarrow>
     sorted_wrt spaced (jy_sending s) \<longrightarrow> sorted_wrt spaced (jy_sending s') \<Longrightarrow>
     deliveries_change s s'"
| dc_new: "jd_deliveries (jy_db s') = insert_delivery (jy_now s) d sessionId i (jd_deliveries (jy_db s)) \<Longrightarrow>
     d \<notin> set (jy_ids s) \<Longrightarrow> d \<in> set (jy_ids s') \<Longrightarrow>
     (t, i, snapshot, answer) \<in> set (jy_verdicts s') \<Longrightarrow> done_verdict t snapshot answer \<Longrightarrow>
     jy_sending s' = jy_sending s \<Longrightarrow> deliveries_change s s'"
| dc_gone: "jd_deliveries (jy_db s') =
       filter (\<lambda>(d, row). wd_judgmentId row \<notin> gone) (jd_deliveries (jy_db s)) \<Longrightarrow>
     jy_sending s' = jy_sending s \<Longrightarrow> deliveries_change s s'"
| dc_send: "map_of (jd_deliveries (jy_db s)) d = Some w \<Longrightarrow> due_delivery (jy_now s) w \<Longrightarrow>
     jd_deliveries (jy_db s') = fst (update_where d (\<lambda>_. True)
       (\<lambda>row. row\<lparr>wd_leaseToken := Some token,
          wd_leaseExpiresAt := Some (jy_now s + DELIVERY_LEASE_MS)\<rparr>) (jd_deliveries (jy_db s))) \<Longrightarrow>
     token \<notin> set (jy_tokens s) \<Longrightarrow> token \<in> set (jy_tokens s') \<Longrightarrow>
     jy_sending s' = (d, row, token, jy_now s) # jy_sending s \<Longrightarrow> deliveries_change s s'"
| dc_sent: "(d, row, token, t) \<in> set (jy_sending s) \<Longrightarrow>
     jd_deliveries (jy_db s') = fst (update_where d (\<lambda>row. wd_leaseToken row = Some token)
       (\<lambda>row. (values row)\<lparr>wd_leaseToken := None, wd_leaseExpiresAt := None\<rparr>)
       (jd_deliveries (jy_db s))) \<Longrightarrow>
     (\<And>w. wd_judgmentId (values w) = wd_judgmentId w) \<Longrightarrow>
     jy_sending s' = remove1 (d, row, token, t) (jy_sending s) \<Longrightarrow> deliveries_change s s'"

lemma claimDueDelivery_row:
  assumes "claimDueDelivery now token db = (db', Some (d, row))" "jsmap_ok (jd_deliveries db)"
  shows "\<exists>w. map_of (jd_deliveries db) d = Some w \<and> due_delivery now w"
    "jd_deliveries db' = fst (update_where d (\<lambda>_. True)
       (\<lambda>row. row\<lparr>wd_leaseToken := Some token,
          wd_leaseExpiresAt := Some (now + DELIVERY_LEASE_MS)\<rparr>) (jd_deliveries db))"
proof -
  let ?xs = "sort_key (\<lambda>(d, row). wd_nextAttemptAt row) (select_rows (due_delivery now) (jd_deliveries db))"
  obtain e w xs where xs: "?xs = (e, w) # xs"
    using assms(1) unfolding claimDueDelivery_def by (auto split: list.splits)
  have e: "e = d" and
    d: "jd_deliveries db' = fst (update_where d (\<lambda>_. True)
       (\<lambda>row. row\<lparr>wd_leaseToken := Some token,
          wd_leaseExpiresAt := Some (now + DELIVERY_LEASE_MS)\<rparr>) (jd_deliveries db))"
    using assms(1) unfolding claimDueDelivery_def xs by (auto split: prod.splits)
  have "(e, w) \<in> set ?xs" unfolding xs by simp
  then show "\<exists>w. map_of (jd_deliveries db) d = Some w \<and> due_delivery now w"
    using e by (simp add: set_select_rows [OF assms(2)])
  show "jd_deliveries db' = fst (update_where d (\<lambda>_. True)
       (\<lambda>row. row\<lparr>wd_leaseToken := Some token,
          wd_leaseExpiresAt := Some (now + DELIVERY_LEASE_MS)\<rparr>) (jd_deliveries db))"
    by (rule d)
qed

lemma delivery_outcome_fixed [simp]:
  "wd_judgmentId (delivery_outcome now settings e posted claim w) = wd_judgmentId w"
  by (auto simp: delivery_outcome_def Let_def split: post_result.split)

lemma step_deliveries:
  assumes "judge_step s s'" "requests_ok s" "deliveries_ok s"
  shows "deliveries_change s s'"
proof -
  have rows: "jsmap_ok (jd_rows (jy_db s))" "newest (jd_rows (jy_db s))"
    "\<And>i. i \<notin> set (jy_ids s) \<Longrightarrow> map_of (jd_rows (jy_db s)) i = None"
    and dels: "jsmap_ok (jd_deliveries (jy_db s))"
    using assms(2,3) by (auto simp: requests_ok_def deliveries_ok_def)
  show ?thesis
    using assms(1)
  proof cases
    case (js_request i st sessionId sourceEventId kind db row)
    show ?thesis
      using create_keeps(3) [OF js_request(4) rows(1,2) rows(3) [OF js_request(2)]]
      by (intro dc_same) (simp_all add: js_request(1))
  next
    case (js_settle i sessionId sourceEventId visible)
    show ?thesis
      using settle_keeps(3) [OF rows(1,2) rows(3) [OF js_settle(2)] refl]
      by (intro dc_same) (simp_all add: js_settle(1))
  next
    case (js_claim limit sessionIds db claimed)
    show ?thesis
      using claim_keeps(3) [OF js_claim(2) rows(1)] by (intro dc_same) (simp_all add: js_claim(1))
  next
    case (js_judge i request d t snapshot answer db completion)
    from complete_keeps(3) [OF js_judge(4) rows(1)] show ?thesis
    proof (elim disjE conjE)
      assume "jd_deliveries db = jd_deliveries (jy_db s)"
      then show ?thesis by (intro dc_same) (simp_all add: js_judge(1))
    next
      let ?v = "judge_request t snapshot answer i request"
      assume *: "completion = CompletedApplied" "vd_applied ?v" "vd_outcome ?v = Some OutDone"
        "vd_emitDoneWebhook ?v"
        "jd_deliveries db = insert_delivery (jy_now s) d (vd_sessionId ?v) (vd_id ?v)
           (jd_deliveries (jy_db s))"
      show ?thesis
        by (rule dc_new [of _ _ d "jg_sessionId request" i t snapshot answer])
          (use * judge_request_done [OF *(2-4)] js_judge(3) in \<open>simp_all add: js_judge(1)\<close>)
    qed
  next
    case (js_prune limit)
    obtain gone where "jd_deliveries (jy_db s') =
        filter (\<lambda>(d, row). wd_judgmentId row \<notin> gone) (jd_deliveries (jy_db s))"
      by (rule prune_keeps [OF rows(1)]) (simp add: js_prune)
    then show ?thesis by (rule dc_gone) (simp add: js_prune)
  next
    case (js_send token db d row)
    obtain w where "map_of (jd_deliveries (jy_db s)) d = Some w" "due_delivery (jy_now s) w"
      using claimDueDelivery_row(1) [OF js_send(3) dels] by blast
    then show ?thesis
      by (rule dc_send [of _ d w _ token row])
        (use js_send(2) claimDueDelivery_row(2) [OF js_send(3) dels] in \<open>simp_all add: js_send(1)\<close>)
  next
    case (js_sent d row token t now settings eventExists posted)
    show ?thesis
      by (rule dc_sent [of d row token t _ _ "delivery_outcome now settings eventExists posted row"])
        (use js_sent(2) in \<open>simp_all add: js_sent(1) finishDelivery_def\<close>)
  next
    case (js_fail i request errorCode)
    show ?thesis by (rule dc_same) (simp_all add: js_fail(1) retryOrFailSessionStatusJudgment_def)
  next
    case (js_sender_dies claim)
    show ?thesis
      by (rule dc_same) (simp_all add: js_sender_dies(1) sorted_wrt_remove1 set_remove1_subset)
  qed (rule dc_same; simp)+
qed

lemma step_monotone:
  assumes "judge_step s s'"
  shows "jy_now s \<le> jy_now s'" "set (jy_ids s) \<subseteq> set (jy_ids s')"
    "set (jy_tokens s) \<subseteq> set (jy_tokens s')" "set (jy_verdicts s) \<subseteq> set (jy_verdicts s')"
  using assms by (cases; auto)+

lemma deliveries_step:
  assumes "judge_step s s'" "requests_ok s" "deliveries_ok s"
  shows "deliveries_ok s'"
proof -
  let ?t = "jd_deliveries (jy_db s)" and ?t' = "jd_deliveries (jy_db s')"
  have ok: "jsmap_ok ?t" "\<And>d. d \<notin> set (jy_ids s) \<Longrightarrow> map_of ?t d = None"
    "\<And>d w. map_of ?t d = Some w \<Longrightarrow> \<exists>t snapshot answer.
       (t, wd_judgmentId w, snapshot, answer) \<in> set (jy_verdicts s) \<and> done_verdict t snapshot answer"
    using assms(3) unfolding deliveries_ok_def by blast+
  note up = step_monotone [OF assms(1)]
  have on: "deliveries_ok s'" if "jsmap_ok ?t'"
    "\<And>d w'. map_of ?t' d = Some w' \<Longrightarrow>
       (\<exists>w. map_of ?t d = Some w \<and> wd_judgmentId w' = wd_judgmentId w) \<or>
       d \<in> set (jy_ids s') \<and>
       (\<exists>t snapshot answer. (t, wd_judgmentId w', snapshot, answer) \<in> set (jy_verdicts s') \<and>
          done_verdict t snapshot answer)"
    unfolding deliveries_ok_def
  proof (intro conjI allI impI)
    show "jsmap_ok ?t'" by (rule that(1))
    show "map_of ?t' d = None" if "d \<notin> set (jy_ids s')" for d
    proof (rule ccontr)
      assume "map_of ?t' d \<noteq> None"
      then obtain w' where w': "map_of ?t' d = Some w'" by blast
      have "map_of ?t d = None" using ok(2) up(2) that by blast
      then show False using \<open>\<And>d w'. map_of ?t' d = Some w' \<Longrightarrow> _ d w'\<close> [OF w'] that by simp
    qed
    show "\<exists>t snapshot answer. (t, wd_judgmentId w', snapshot, answer) \<in> set (jy_verdicts s') \<and>
        done_verdict t snapshot answer" if "map_of ?t' d = Some w'" for d w'
      using \<open>\<And>d w'. map_of ?t' d = Some w' \<Longrightarrow> _ d w'\<close> [OF that] ok(3) up(4) by fastforce
  qed
  from step_deliveries [OF assms] show ?thesis
  proof cases
    case dc_same
    then show ?thesis using ok(1) by (intro on) auto
  next
    case (dc_new d sessionId i t snapshot answer)
    show ?thesis
    proof (rule on)
      show "jsmap_ok ?t'" using ok(1) by (simp add: dc_new(1) insert_delivery_def)
      fix e w'
      assume "map_of ?t' e = Some w'"
      then have "map_of ?t e = Some w' \<or> e = d \<and> wd_judgmentId w' = i"
        by (auto simp: dc_new(1) insert_delivery_def table_ops split: if_splits)
      then show "(\<exists>w. map_of ?t e = Some w \<and> wd_judgmentId w' = wd_judgmentId w) \<or>
          e \<in> set (jy_ids s') \<and>
          (\<exists>t snapshot answer. (t, wd_judgmentId w', snapshot, answer) \<in> set (jy_verdicts s') \<and>
             done_verdict t snapshot answer)"
        using dc_new(3,4,5) by blast
    qed
  next
    case (dc_gone gone)
    have ok': "jsmap_ok ?t'"
      using ok(1) unfolding jsmap_ok_def dc_gone(1) by (rule distinct_map_filter)
    have "map_of ?t d = Some w'" if "map_of ?t' d = Some w'" for d w'
    proof -
      have "(d, w') \<in> set ?t'" using that by (simp only: jsmap_values_iff [OF ok'])
      then have "(d, w') \<in> set ?t" by (simp add: dc_gone(1))
      then show ?thesis by (simp only: jsmap_values_iff [OF ok(1)])
    qed
    then show ?thesis using ok' by (intro on) auto
  next
    case (dc_send d w token row)
    show ?thesis
      by (rule on) (use ok(1) in \<open>auto simp: dc_send(3) table_ops split: if_splits\<close>)
  next
    case (dc_sent d row token t change)
    show ?thesis
      by (rule on) (use ok(1) dc_sent(3) in \<open>auto simp: dc_sent(2) table_ops split: if_splits\<close>)
  qed
qed

lemma senders_step:
  assumes "judge_step s s'" "requests_ok s" "deliveries_ok s" "senders_ok s"
  shows "senders_ok s'"
proof -
  let ?t = "jd_deliveries (jy_db s)" and ?t' = "jd_deliveries (jy_db s')"
  note up = step_monotone [OF assms(1)]
  have fresh: "map_of ?t d = None" if "d \<notin> set (jy_ids s)" for d
    using assms(3) that by (simp add: deliveries_ok_def)
  have keys: "jsmap_ok ?t" using assms(3) by (simp add: deliveries_ok_def)
  have ok: "sender_ok s x" if "x \<in> set (jy_sending s)" for x
    using assms(4) that by (simp add: senders_ok_def)
  have apart: "sorted_wrt spaced (jy_sending s)" using assms(4) by (simp add: senders_ok_def)
  have on: "sender_ok s' (d, row, token, c)" if "(d, row, token, c) \<in> set (jy_sending s)"
    "\<And>w. map_of ?t' d = Some w \<Longrightarrow>
       (\<exists>w0. map_of ?t d = Some w0 \<and> wd_leaseToken w = wd_leaseToken w0 \<and>
          wd_leaseExpiresAt w = wd_leaseExpiresAt w0) \<or>
       wd_leaseToken w \<noteq> Some token \<and> c + DELIVERY_LEASE_MS < jy_now s'" for d row token c
    using ok [OF that(1)] that(2) up(1-3) by fastforce
  from step_deliveries [OF assms(1-3)] show ?thesis
  proof cases
    case dc_same
    have "sender_ok s' x" if "x \<in> set (jy_sending s')" for x
    proof -
      obtain d row token c where x: "x = (d, row, token, c)" by (rule prod_cases4)
      show ?thesis unfolding x using that dc_same(1,2) by (intro on) (auto simp: x)
    qed
    then show ?thesis using apart dc_same(3) by (simp add: senders_ok_def)
  next
    case (dc_new e sessionId i t snapshot answer)
    have "sender_ok s' (d, row, token, c)" if "(d, row, token, c) \<in> set (jy_sending s)" for d row token c
    proof (rule on [OF that])
      fix w
      assume w: "map_of ?t' d = Some w"
      have "d \<noteq> e" using ok [OF that] dc_new(2) by auto
      then have "map_of ?t d = Some w"
        using w by (auto simp: dc_new(1) insert_delivery_def table_ops split: if_splits)
      then show "(\<exists>w0. map_of ?t d = Some w0 \<and> wd_leaseToken w = wd_leaseToken w0 \<and>
          wd_leaseExpiresAt w = wd_leaseExpiresAt w0) \<or>
          wd_leaseToken w \<noteq> Some token \<and> c + DELIVERY_LEASE_MS < jy_now s'" by simp
    qed
    then show ?thesis using apart by (auto simp: senders_ok_def dc_new(6))
  next
    case (dc_gone gone)
    have ok': "jsmap_ok ?t'" using keys unfolding jsmap_ok_def dc_gone(1) by (rule distinct_map_filter)
    have "map_of ?t d = Some w" if "map_of ?t' d = Some w" for d w
      using that unfolding jsmap_values_iff [OF ok', symmetric] jsmap_values_iff [OF keys, symmetric]
      by (simp add: dc_gone(1))
    then have "sender_ok s' (d, row, token, c)" if "(d, row, token, c) \<in> set (jy_sending s)" for d row token c
      by (intro on [OF that]) blast
    then show ?thesis using apart by (auto simp: senders_ok_def dc_gone(2))
  next
    case (dc_send e w0 token0 row0)
    have late: "c + DELIVERY_LEASE_MS < jy_now s" if "(e, row, token, c) \<in> set (jy_sending s)" for row token c
      using ok [OF that] dc_send(1,2) by (auto simp: due_delivery_def)
    have "sender_ok s' (d, row, token, c)" if "(d, row, token, c) \<in> set (jy_sending s)" for d row token c
    proof (rule on [OF that])
      fix w
      assume w: "map_of ?t' d = Some w"
      show "(\<exists>w0. map_of ?t d = Some w0 \<and> wd_leaseToken w = wd_leaseToken w0 \<and>
          wd_leaseExpiresAt w = wd_leaseExpiresAt w0) \<or>
          wd_leaseToken w \<noteq> Some token \<and> c + DELIVERY_LEASE_MS < jy_now s'"
      proof (cases "d = e")
        case True
        have "token \<noteq> token0" using ok [OF that] dc_send(4) by auto
        moreover have "c + DELIVERY_LEASE_MS < jy_now s'"
          using late [of row token c] that True up(1) by simp
        moreover have "wd_leaseToken w = Some token0"
          using w True by (auto simp: dc_send(1,3) table_ops)
        ultimately show ?thesis by simp
      next
        case False
        then show ?thesis using w by (simp add: dc_send(3) table_ops)
      qed
    qed
    moreover have "sender_ok s' (e, row0, token0, jy_now s)"
    proof -
      have "e \<in> set (jy_ids s)" using fresh dc_send(1) by fastforce
      then show ?thesis using up(1,2) dc_send(1,5) by (auto simp: dc_send(3) table_ops)
    qed
    moreover have "spaced (e, row0, token0, jy_now s) x" if x: "x \<in> set (jy_sending s)" for x
      using late x ok [OF x] dc_send(4) by (cases x) auto
    ultimately show ?thesis using apart by (auto simp: senders_ok_def dc_send(6))
  next
    case (dc_sent e row0 token0 t0 change)
    have here: "sender_ok s (e, row0, token0, t0)" by (rule ok [OF dc_sent(1)])
    have "sender_ok s' (d, row, token, c)" if "(d, row, token, c) \<in> set (jy_sending s')" for d row token c
    proof -
      have x: "(d, row, token, c) \<in> set (jy_sending s)"
        using that set_remove1_subset unfolding dc_sent(4) by fast
      have other: "token \<noteq> token0"
        using other_senders [OF apart dc_sent(1)] that unfolding dc_sent(4) by blast
      show ?thesis
      proof (rule on [OF x])
        fix w
        assume w: "map_of ?t' d = Some w"
        show "(\<exists>w0. map_of ?t d = Some w0 \<and> wd_leaseToken w = wd_leaseToken w0 \<and>
            wd_leaseExpiresAt w = wd_leaseExpiresAt w0) \<or>
            wd_leaseToken w \<noteq> Some token \<and> c + DELIVERY_LEASE_MS < jy_now s'"
        proof (cases "d = e \<and> (\<exists>w0. map_of ?t e = Some w0 \<and> wd_leaseToken w0 = Some token0)")
          case True
          then obtain w0 where w0: "map_of ?t d = Some w0" "wd_leaseToken w0 = Some token0" by blast
          then have "c + DELIVERY_LEASE_MS < jy_now s" using ok [OF x] other by auto
          moreover have "wd_leaseToken w = None"
            using w w0 True by (auto simp: dc_sent(2) table_ops)
          ultimately show ?thesis using up(1) by simp
        next
          case False
          then have "map_of ?t d = Some w"
            using w by (auto simp: dc_sent(2) table_ops split: if_splits)
          then show ?thesis by simp
        qed
      qed
    qed
    then show ?thesis
      using apart by (auto simp: senders_ok_def dc_sent(4) sorted_wrt_remove1)
  qed
qed

lemma judge_reachable_ok:
  "judge_reachable s \<Longrightarrow> requests_ok s \<and> deliveries_ok s \<and> senders_ok s"
proof (induction rule: judge_reachable.induct)
  case (start now)
  show ?case
    by (simp add: judge_start_def requests_ok_def deliveries_ok_def senders_ok_def newest_def)
next
  case (step s t)
  then show ?case using requests_step deliveries_step senders_step by blast
qed


subsection \<open>Properties\<close>

text \<open>C11: A session has at most one request that is still to be judged, and it is its newest:
  whatever turns, tasks and reconcile ticks ask for, and however workers claim, judge, retry and
  die, every other request of the session is of a smaller generation. So a verdict is never given
  on a request that a later event has overtaken.\<close>

theorem live_request_is_the_newest:
  assumes "judge_reachable s" "map_of (jd_rows (jy_db s)) i = Some request" "live_judgment request"
    "map_of (jd_rows (jy_db s)) j = Some other" "jg_sessionId other = jg_sessionId request" "j \<noteq> i"
  shows "jg_generation other < jg_generation request"
  using judge_reachable_ok [OF assms(1)] assms(2-6) unfolding requests_ok_def newest_def by blast

text \<open>C12: A session is announced as done only on a confident verdict with nothing going on:
  every delivery of the webhook stands for a request that a worker judged at a moment when its
  snapshot had no live turn, no active task, no active goal and no pending question for the user,
  when neither a manual status nor inactivity took precedence, and when the judge chose done with
  a confidence of at least 0.9.\<close>

theorem announced_session_was_judged_done:
  assumes "judge_reachable s" "map_of (jd_deliveries (jy_db s)) d = Some delivery"
  shows "\<exists>t snapshot answer.
    (t, wd_judgmentId delivery, snapshot, answer) \<in> set (jy_verdicts s) \<and>
    done_verdict t snapshot answer"
  using judge_reachable_ok [OF assms(1)] assms(2) unfolding deliveries_ok_def by blast

text \<open>C13: Two senders never work on the same delivery at once: if two of them hold it, the one
  that claimed it first did so more than the lease of two minutes before the other, however many
  senders run, finish late or die.\<close>

theorem webhook_claims_are_a_lease_apart:
  assumes "judge_reachable s" "(d, row, token, c) \<in> set (jy_sending s)"
    "(d, row', token', c') \<in> set (jy_sending s)" "token' \<noteq> token" "c \<le> c'"
  shows "c + DELIVERY_LEASE_MS < c'"
proof -
  have "sorted_wrt spaced (jy_sending s)"
    using judge_reachable_ok [OF assms(1)] by (simp add: senders_ok_def)
  moreover have "(d, row', token', c') \<in> set (remove1 (d, row, token, c) (jy_sending s))"
    using assms(3,4) by simp
  ultimately have "c' + DELIVERY_LEASE_MS < c \<or> c + DELIVERY_LEASE_MS < c'"
    using other_senders [OF _ assms(2)] by blast
  then show ?thesis using assms(5) by (simp add: DELIVERY_LEASE_MS_def)
qed

subsection \<open>An example\<close>

definition example_snapshot :: judgment_snapshot where
  "example_snapshot =
     \<lparr>sn_evaluationTime = 5000, sn_latestVisibleUserMessageAt = Some 1000,
      sn_manualStatusChangedAt = None, sn_ownerKind = OwnerUser, sn_reviewHandoff = False,
      sn_goalStatus = None, sn_respondingUntil = Some 4000, sn_hasActiveTask = False,
      sn_pendingUserInput = False\<rparr>"

definition example_answer :: judge_answer where
  "example_answer =
     \<lparr>ja_choice = OutDone, ja_confidence = Some (19 / 20),
      ja_probabilities = [(OutDone, Some (19 / 20)), (OutOpen, Some (1 / 20))]\<rparr>"

text \<open>Two events of a session; the second is judged, and its announcement claimed twice.\<close>

definition example_asked :: judge_system where
  "example_asked =
     (let settings = \<lparr>ws_enabled = True, ws_url = Some ''u'', ws_secret = Some ''k''\<rparr>;
          db0 = \<lparr>jd_sessions = [''s''], jd_rows = [], jd_deliveries = [], jd_settings = Some settings\<rparr>;
          db1 = fst (createSessionStatusJudgmentRequest 0 ''a'' ''s'' ''turn:1'' FastTurn JPending db0);
          db2 = fst (createSessionStatusJudgmentRequest 0 ''b'' ''s'' ''turn:2'' FastTurn JPending db1)
      in (judge_start 0)\<lparr>jy_db := db2, jy_ids := [''b'', ''a'']\<rparr>)"

definition example_request :: judgment_row where
  "example_request = the (map_of (snd (claimSessionStatusJudgmentRequests 0 4 None
     (jy_db example_asked))) ''b'')"

definition example_announced :: judge_system where
  "example_announced =
     example_asked\<lparr>jy_db := fst (completeSessionStatusJudgment 0 ''d''
          (judge_request 5000 (Some example_snapshot) (Some example_answer) ''b'' example_request)
          (fst (claimSessionStatusJudgmentRequests 0 4 None (jy_db example_asked)))),
        jy_judging := [], jy_ids := ''d'' # jy_ids example_asked,
        jy_verdicts := [(5000, ''b'', Some example_snapshot, Some example_answer)]\<rparr>"

definition example_delivery :: webhook_delivery where
  "example_delivery = the (map_of (jd_deliveries (jy_db example_announced)) ''d'')"

lemma reachable_request:
  "judge_reachable s \<Longrightarrow> i \<notin> set (jy_ids s) \<Longrightarrow> st = JAwaitingSettlement \<or> st = JPending \<Longrightarrow>
   judge_reachable (s\<lparr>jy_db := fst (createSessionStatusJudgmentRequest (jy_now s) i sessionId
      sourceEventId kind st (jy_db s)), jy_ids := i # jy_ids s\<rparr>)"
  by (erule judge_reachable.step, erule js_request [OF _ _ prod.collapse [symmetric]])

lemma example_asked_reachable: "judge_reachable example_asked"
proof -
  let ?settings = "Some \<lparr>ws_enabled = True, ws_url = Some ''u'', ws_secret = Some ''k''\<rparr>"
  let ?s1 = "(judge_start 0)\<lparr>jy_db := (jy_db (judge_start 0))\<lparr>jd_sessions :=
     ''s'' # jd_sessions (jy_db (judge_start 0))\<rparr>\<rparr>"
  have "judge_reachable ?s1" by (rule judge_reachable.step [OF judge_reachable.start js_session])
  then have "judge_reachable (?s1\<lparr>jy_db := (jy_db ?s1)\<lparr>jd_settings := ?settings\<rparr>\<rparr>)"
    by (rule judge_reachable.step [OF _ js_settings])
  from reachable_request [OF reachable_request [OF this, of "''a''" JPending "''s''" "''turn:1''" FastTurn],
      of "''b''" JPending "''s''" "''turn:2''" FastTurn]
  show ?thesis by (simp add: example_asked_def judge_start_def)
qed

lemma example_rows:
  "map_of (jd_rows (jy_db example_asked)) ''b'' \<noteq> None"
  "map_of (jd_rows (jy_db example_asked)) ''a'' \<noteq> None"
  "live_judgment (the (map_of (jd_rows (jy_db example_asked)) ''b''))"
  "jg_sessionId (the (map_of (jd_rows (jy_db example_asked)) ''a'')) =
   jg_sessionId (the (map_of (jd_rows (jy_db example_asked)) ''b''))"
  by code_simp+

lemma example_claimed:
  "snd (claimSessionStatusJudgmentRequests 0 4 None (jy_db example_asked)) = [(''b'', example_request)]"
  by code_simp

lemma example_completed:
  "snd (completeSessionStatusJudgment 0 ''d''
     (judge_request 5000 (Some example_snapshot) (Some example_answer) ''b'' example_request)
     (fst (claimSessionStatusJudgmentRequests 0 4 None (jy_db example_asked)))) = CompletedApplied"
  by code_simp

lemma example_announced_reachable: "judge_reachable example_announced"
proof -
  let ?db = "fst (claimSessionStatusJudgmentRequests 0 4 None (jy_db example_asked))"
  have now: "jy_now example_asked = 0" "jy_judging example_asked = []" "jy_verdicts example_asked = []"
    "''d'' \<notin> set (jy_ids example_asked)"
    by (simp_all add: example_asked_def judge_start_def Let_def)
  have claimed: "claimSessionStatusJudgmentRequests (jy_now example_asked) 4 None (jy_db example_asked) =
      (?db, [(''b'', example_request)])"
    by (simp add: prod_eq_iff example_claimed now)
  have "judge_reachable (example_asked\<lparr>jy_db := ?db,
      jy_judging := [(''b'', example_request)] @ jy_judging example_asked\<rparr>)"
    by (rule judge_reachable.step [OF example_asked_reachable js_claim [OF claimed]])
  from judge_reachable.step [OF this js_judge [of "''b''" example_request _ "''d''" 5000
      "Some example_snapshot" "Some example_answer", OF _ _ prod.collapse [symmetric]]]
  show ?thesis
    using now example_completed by (simp add: example_announced_def)
qed

lemma example_delivery_exists:
  "map_of (jd_deliveries (jy_db example_announced)) ''d'' \<noteq> None"
  by code_simp

text \<open>The sender that claims the delivery, and another one after the lease has run out.\<close>

definition example_claim :: "ms \<Rightarrow> nat \<Rightarrow> judgment_db \<Rightarrow> webhook_delivery" where
  "example_claim now token db = snd (the (snd (claimDueDelivery now token db)))"

definition example_db1 :: judgment_db where
  "example_db1 = fst (claimDueDelivery 0 7 (jy_db example_announced))"

definition example_twice :: judge_system where
  "example_twice = example_announced
     \<lparr>jy_now := 120001, jy_db := fst (claimDueDelivery 120001 8 example_db1),
      jy_sending := [(''d'', example_claim 120001 8 example_db1, 8, 120001),
                     (''d'', example_claim 0 7 (jy_db example_announced), 7, 0)],
      jy_tokens := [8, 7]\<rparr>"

lemma example_claims:
  "claimDueDelivery 0 7 (jy_db example_announced) =
     (example_db1, Some (''d'', example_claim 0 7 (jy_db example_announced)))"
  "claimDueDelivery 120001 8 example_db1 =
     (fst (claimDueDelivery 120001 8 example_db1), Some (''d'', example_claim 120001 8 example_db1))"
  by code_simp+

lemma example_twice_reachable: "judge_reachable example_twice"
proof -
  have start: "jy_now example_announced = 0" "jy_sending example_announced = []"
    "jy_tokens example_announced = []"
    by (simp_all add: example_announced_def example_asked_def judge_start_def Let_def)
  let ?s1 = "example_announced\<lparr>jy_db := example_db1,
    jy_sending := (''d'', example_claim 0 7 (jy_db example_announced), 7, jy_now example_announced) #
      jy_sending example_announced,
    jy_tokens := 7 # jy_tokens example_announced\<rparr>"
  have "judge_reachable ?s1"
    by (rule judge_reachable.step [OF example_announced_reachable js_send])
      (simp_all add: start example_claims(1))
  then have "judge_reachable (?s1\<lparr>jy_now := 120001\<rparr>)"
    by (rule judge_reachable.step [OF _ js_time]) (simp add: start)
  from judge_reachable.step [OF this js_send [of 8 _ "fst (claimDueDelivery 120001 8 example_db1)"
      "''d''" "example_claim 120001 8 example_db1"]]
  show ?thesis using example_claims(2) by (simp add: start example_twice_def)
qed

theorem live_request_is_the_newest_witness:
  "jg_generation (the (map_of (jd_rows (jy_db example_asked)) ''a'')) <
   jg_generation (the (map_of (jd_rows (jy_db example_asked)) ''b''))"
  by (rule live_request_is_the_newest [OF example_asked_reachable, of "''b''" _ "''a''"])
    (use example_rows in auto)

theorem announced_session_was_judged_done_witness:
  "\<exists>t snapshot answer.
     (t, wd_judgmentId example_delivery, snapshot, answer) \<in> set (jy_verdicts example_announced) \<and>
     done_verdict t snapshot answer"
  by (rule announced_session_was_judged_done [OF example_announced_reachable, of "''d''"])
    (use example_delivery_exists in \<open>auto simp: example_delivery_def\<close>)

theorem webhook_claims_are_a_lease_apart_witness: "0 + DELIVERY_LEASE_MS < (120001 :: ms)"
  by (rule webhook_claims_are_a_lease_apart [OF example_twice_reachable, of "''d''"
      "example_claim 0 7 (jy_db example_announced)" 7 0 "example_claim 120001 8 example_db1" 8])
    (simp_all add: example_twice_def)

end
