(* ===== verification/TaskState.thy ===== *)
theory TaskState
  imports RunLifecycle TaskPayload StatusJudgments
begin

section \<open>The state of a task and its runs\<close>

text \<open>
  The rows of \<open>task_runs\<close> and \<open>tasks\<close>, the derivation of a task's state from its runs
  (\<open>packages/db/src/lib/sync-task-state.ts\<close>), and the shape of the transactions that write a run's
  status: a guarded statement on the run's row and then, for most of them, the derivation. The
  lemmas say what the derivation picks, and that such a transaction leaves every task of the
  database with the state its runs give it (\<open>states_ok\<close>).
\<close>

subsection \<open>The rows\<close>

record run_row =
  rn_taskId :: string
  rn_resume :: bool
  rn_sourceRunId :: "nat option"
  rn_status :: run_status
  rn_taskPhase :: "string option"
  rn_error :: "string option"
  rn_errorCode :: "string option"
  rn_machineId :: "string option"
  rn_sandboxServerUrl :: "string option"
  rn_snapshotId :: "string option"
  rn_createdAt :: ms
  rn_dequeuedAt :: "ms option"
  rn_provisionStartedAt :: "ms option"
  rn_provisionReadyAt :: "ms option"
  rn_startedAt :: "ms option"
  rn_workerHeartbeatAt :: "ms option"
  rn_completedAt :: "ms option"
  rn_canceledAt :: "ms option"
  rn_cancelRequestedAt :: "ms option"
  rn_sleepAt :: "ms option"
  rn_sleepRequestedAt :: "ms option"
  rn_snapshotRequestedAt :: "ms option"
  rn_snapshotCreatedAt :: "ms option"
  rn_snapshotFailedAt :: "ms option"

datatype task_state = TaskActive | TaskCompleted | TaskFailed | TaskCanceled

fun task_state_str :: "task_state \<Rightarrow> string" where
  "task_state_str TaskActive = ''active''"
| "task_state_str TaskCompleted = ''completed''"
| "task_state_str TaskFailed = ''failed''"
| "task_state_str TaskCanceled = ''canceled''"

record task_row =
  tk_state :: task_state
  tk_updatedAt :: ms

text \<open>A lifecycle event of a run, with the stage its details name.\<close>

record run_event =
  ev_runId :: nat
  ev_eventType :: string
  ev_stage :: string

text \<open>
  The tables: runs by id; tasks; when the window of a run's parallel count ended, by run; events;
  which session each task belongs to; the judgments of sessions.
\<close>

record run_db =
  rd_runs :: "(nat, run_row) jsmap"
  rd_tasks :: "task_row table"
  rd_parallel :: "(nat, ms option) jsmap"
  rd_events :: "run_event list"
  rd_sessionTasks :: "(string \<times> string) list"
  rd_judgments :: judgment_db

definition run_exited :: "run_row \<Rightarrow> bool" where
  "run_exited row \<longleftrightarrow> rn_status row \<in> set exitedRunStatuses"

subsection \<open>The state of a task\<close>

definition NON_TERMINAL_RUN_STATUSES :: "run_status list" where
  "NON_TERMINAL_RUN_STATUSES =
     [Pending, Dequeued, Processing, Preparing, Spawning, Connecting, Running, Idle]"

record state_run =
  sr_id :: nat
  sr_status :: run_status
  sr_startedAt :: "ms option"

definition selectTaskStateRun :: "state_run list \<Rightarrow> state_run option" where
  "selectTaskStateRun runs =
     (if runs = [] \<or> (\<exists>run \<in> set runs. sr_status run \<in> set NON_TERMINAL_RUN_STATUSES) then None
      else
        let progressRuns = filter (\<lambda>run. sr_startedAt run \<noteq> None \<or> sr_status run = Completed) runs
        in case (if progressRuns \<noteq> [] then progressRuns else runs) of
             [] \<Rightarrow> None
           | first # rest \<Rightarrow>
               Some (foldl (\<lambda>latest run. if sr_id run > sr_id latest then run else latest) first rest))"

fun terminalRunStatusToTaskState :: "run_status \<Rightarrow> task_state" where
  "terminalRunStatusToTaskState Failed = TaskFailed"
| "terminalRunStatusToTaskState Canceled = TaskCanceled"
| "terminalRunStatusToTaskState _ = TaskCompleted"

definition deriveTaskStateFromRuns :: "state_run list \<Rightarrow> task_state option" where
  "deriveTaskStateFromRuns runs =
     (if runs = [] then None
      else case selectTaskStateRun runs of
        None \<Rightarrow> Some TaskActive
      | Some chosen \<Rightarrow> Some (terminalRunStatusToTaskState (sr_status chosen)))"

text \<open>\<open>select id, status, started_at from task_runs where task_id = taskId\<close>.\<close>

definition state_runs :: "string \<Rightarrow> (nat, run_row) jsmap \<Rightarrow> state_run list" where
  "state_runs taskId runs =
     map (\<lambda>(i, row). \<lparr>sr_id = i, sr_status = rn_status row, sr_startedAt = rn_startedAt row\<rparr>)
       (select_rows (\<lambda>row. rn_taskId row = taskId) runs)"

definition getSessionForTask :: "string \<Rightarrow> run_db \<Rightarrow> string option" where
  "getSessionForTask taskId db =
     (case filter (\<lambda>(task, session). task = taskId \<and> session \<in> set (jd_sessions (rd_judgments db)))
             (rd_sessionTasks db) of
        [] \<Rightarrow> None
      | (task, session) # _ \<Rightarrow> Some session)"

text \<open>
  The statements of a transaction that has changed a run of the task. The activity the session is
  touched with is not modelled; \<open>j\<close> is the random id of the judgment request this may create.
\<close>

definition syncTaskStateFromRuns :: "ms \<Rightarrow> string \<Rightarrow> string \<Rightarrow> run_db \<Rightarrow> run_db" where
  "syncTaskStateFromRuns now j taskId db =
     (let runs = state_runs taskId (rd_runs db)
      in case deriveTaskStateFromRuns runs of
           None \<Rightarrow> db
         | Some nextState \<Rightarrow>
             (case update_where taskId (\<lambda>task. tk_state task \<noteq> nextState)
                     (\<lambda>task. task\<lparr>tk_state := nextState, tk_updatedAt := now\<rparr>) (rd_tasks db) of
                (tasks, updatedTask) \<Rightarrow>
                  (case (updatedTask, getSessionForTask taskId db, selectTaskStateRun runs) of
                     (Some task, Some session, Some terminalRun) \<Rightarrow>
                       if nextState \<noteq> TaskActive
                       then db\<lparr>rd_tasks := tasks,
                               rd_judgments := fst (createSessionStatusJudgmentRequest now j session
                                 (''task-run:'' @ nat_str (sr_id terminalRun) @ '':'' @
                                  task_state_str nextState)
                                 TaskTerminal JPending (rd_judgments db))\<rparr>
                       else db\<lparr>rd_tasks := tasks\<rparr>
                   | _ \<Rightarrow> db\<lparr>rd_tasks := tasks\<rparr>)))"

definition markTaskStartParallelCountEndedAt :: "ms \<Rightarrow> nat \<Rightarrow> run_db \<Rightarrow> run_db" where
  "markTaskStartParallelCountEndedAt endedAt runId db =
     db\<lparr>rd_parallel := fst (update_where runId (\<lambda>ended. ended = None) (\<lambda>_. Some endedAt)
          (rd_parallel db))\<rparr>"

definition recordTaskRunLifecycleEvent :: "nat \<Rightarrow> string \<Rightarrow> string \<Rightarrow> run_db \<Rightarrow> run_db" where
  "recordTaskRunLifecycleEvent runId eventType stage db =
     db\<lparr>rd_events := rd_events db @ [\<lparr>ev_runId = runId, ev_eventType = eventType, ev_stage = stage\<rparr>]\<rparr>"

text \<open>
  What the writers below have in common: one statement on the run's row, and if it found a row,
  the state of the row's task, in the same transaction.
\<close>

definition write_run ::
    "ms \<Rightarrow> string \<Rightarrow> nat \<Rightarrow> (run_row \<Rightarrow> bool) \<Rightarrow> (run_row \<Rightarrow> run_row) \<Rightarrow> run_db \<Rightarrow>
     run_db \<times> run_row option" where
  "write_run now j runId guard set_row db =
     (case update_where runId guard set_row (rd_runs db) of
        (runs, None) \<Rightarrow> (db, None)
      | (runs, Some row) \<Rightarrow>
          (syncTaskStateFromRuns now j (rn_taskId row) (db\<lparr>rd_runs := runs\<rparr>), Some row))"

text \<open>The statements that leave the task's state alone.\<close>

definition update_run ::
    "nat \<Rightarrow> (run_row \<Rightarrow> bool) \<Rightarrow> (run_row \<Rightarrow> run_row) \<Rightarrow> run_db \<Rightarrow> run_db \<times> run_row option" where
  "update_run runId guard set_row db =
     (case update_where runId guard set_row (rd_runs db) of
        (runs, row) \<Rightarrow> (db\<lparr>rd_runs := runs\<rparr>, row))"

subsection \<open>The derivation\<close>

text \<open>A task with a run that is not over is active; otherwise its state is that of one of its runs.\<close>

lemma derive_None: "deriveTaskStateFromRuns runs = None \<longleftrightarrow> runs = []"
  by (simp add: deriveTaskStateFromRuns_def split: option.split)

lemma derive_active:
  "\<exists>run \<in> set runs. sr_status run \<in> set NON_TERMINAL_RUN_STATUSES \<Longrightarrow>
   deriveTaskStateFromRuns runs = Some TaskActive"
  by (auto simp: deriveTaskStateFromRuns_def selectTaskStateRun_def)

lemma foldl_latest:
  "foldl (\<lambda>latest run. if sr_id run > sr_id latest then run else latest) r rs \<in> set (r # rs) \<and>
   (\<forall>q \<in> set (r # rs). sr_id q \<le>
      sr_id (foldl (\<lambda>latest run. if sr_id run > sr_id latest then run else latest) r rs))"
proof (induction rs arbitrary: r)
  case (Cons q rs)
  show ?case
  proof (cases "sr_id q > sr_id r")
    case True
    then show ?thesis using Cons.IH [of q] by auto
  next
    case False
    then show ?thesis using Cons.IH [of r] by auto
  qed
qed simp

lemma terminal_status: "s \<notin> set NON_TERMINAL_RUN_STATUSES \<longleftrightarrow> s \<in> set exitedRunStatuses"
  by (cases s) (simp_all add: NON_TERMINAL_RUN_STATUSES_def exitedRunStatuses_def)

lemma terminal_task_state:
  "s \<in> set exitedRunStatuses \<Longrightarrow>
   (terminalRunStatusToTaskState s = TaskCompleted \<longleftrightarrow> s = Completed) \<and>
   terminalRunStatusToTaskState s \<noteq> TaskActive"
  by (cases s) (simp_all add: exitedRunStatuses_def)

lemma selected_run:
  assumes "selectTaskStateRun runs = Some run"
  shows "run \<in> set runs" "\<forall>q \<in> set runs. sr_status q \<in> set exitedRunStatuses"
    "(\<exists>q \<in> set runs. sr_status q = Completed) \<Longrightarrow>
      sr_startedAt run \<noteq> None \<or> sr_status run = Completed"
    "\<forall>q \<in> set runs. (sr_startedAt q \<noteq> None \<or> sr_status q = Completed) \<longrightarrow> sr_id q \<le> sr_id run"
proof -
  let ?p = "filter (\<lambda>run. sr_startedAt run \<noteq> None \<or> sr_status run = Completed) runs"
  let ?c = "if ?p \<noteq> [] then ?p else runs"
  obtain r rs where c: "?c = r # rs"
    "run = foldl (\<lambda>latest run. if sr_id run > sr_id latest then run else latest) r rs"
    using assms unfolding selectTaskStateRun_def Let_def by (auto split: if_splits list.splits)
  have run: "run \<in> set ?c" "\<forall>q \<in> set ?c. sr_id q \<le> sr_id run"
    using foldl_latest [of r rs] unfolding c(1) c(2) [symmetric] by blast+
  show "run \<in> set runs" using run(1) by (auto split: if_splits)
  show "\<forall>q \<in> set runs. sr_status q \<in> set exitedRunStatuses"
    using assms unfolding selectTaskStateRun_def by (auto simp: terminal_status split: if_splits)
  show "sr_startedAt run \<noteq> None \<or> sr_status run = Completed"
    if "\<exists>q \<in> set runs. sr_status q = Completed"
  proof -
    have "?p \<noteq> []" using that by (auto simp: filter_empty_conv)
    then show ?thesis using run(1) by (auto split: if_splits)
  qed
  show "\<forall>q \<in> set runs. (sr_startedAt q \<noteq> None \<or> sr_status q = Completed) \<longrightarrow> sr_id q \<le> sr_id run"
  proof (intro ballI impI)
    fix q
    assume "q \<in> set runs" "sr_startedAt q \<noteq> None \<or> sr_status q = Completed"
    then have q: "q \<in> set ?p" by simp
    have "?p \<noteq> []" using length_pos_if_in_set [OF q] by (metis length_greater_0_conv)
    then have c_eq: "?c = ?p" by (rule if_P)
    show "sr_id q \<le> sr_id run" by (rule bspec [OF run(2) [unfolded c_eq] q])
  qed
qed

text \<open>
  A task counts as completed exactly when all its runs are over and the newest of those that got
  anywhere completed: a resume that fails before it starts does not undo a completed task.
\<close>

lemma derived_completed_stays:
  assumes "run \<in> set runs" "sr_status run = Completed"
    "\<And>q. q \<in> set runs \<Longrightarrow> sr_status q \<in> set exitedRunStatuses"
    "\<And>q. q \<in> set runs \<Longrightarrow> sr_id q > sr_id run \<Longrightarrow> sr_startedAt q = None"
    "\<And>q. q \<in> set runs \<Longrightarrow> sr_id q = sr_id run \<Longrightarrow> q = run"
  shows "deriveTaskStateFromRuns runs = Some TaskCompleted"
proof -
  have none: "selectTaskStateRun runs \<noteq> None"
    using assms(1,3) unfolding selectTaskStateRun_def Let_def
    by (auto simp: terminal_status split: list.split)
  then obtain q where q: "selectTaskStateRun runs = Some q" by blast
  note s = selected_run [OF q]
  have "sr_id run \<le> sr_id q" using s(4) assms(1,2) by blast
  moreover have "sr_startedAt q \<noteq> None \<or> sr_status q = Completed" using s(3) assms(1,2) by blast
  ultimately have "sr_status q = Completed"
    using assms(2,4,5) s(1) by (metis le_neq_implies_less)
  then show ?thesis using assms(1) q by (auto simp: deriveTaskStateFromRuns_def)
qed

subsection \<open>One task's state\<close>

definition state_run_of :: "nat \<Rightarrow> run_row \<Rightarrow> state_run" where
  "state_run_of i row = \<lparr>sr_id = i, sr_status = rn_status row, sr_startedAt = rn_startedAt row\<rparr>"

lemma state_runs_map:
  assumes "\<And>k r. (k, r) \<in> set runs \<Longrightarrow> rn_taskId (h k r) = rn_taskId r"
  shows "state_runs t (map (\<lambda>(k, r). (k, h k r)) runs) =
    map (\<lambda>(k, r). state_run_of k (h k r)) (select_rows (\<lambda>r. rn_taskId r = t) runs)"
  using assms by (induction runs) (auto simp: state_runs_def select_rows_def state_run_of_def)

lemma state_runs_alt:
  "state_runs t runs = map (\<lambda>(k, r). state_run_of k r) (select_rows (\<lambda>r. rn_taskId r = t) runs)"
  by (simp add: state_runs_def state_run_of_def)

lemma state_runs_cong:
  assumes "\<And>k r. (k, r) \<in> set runs \<Longrightarrow> rn_taskId (h k r) = rn_taskId r"
    "\<And>k r. (k, r) \<in> set runs \<Longrightarrow> rn_taskId r = t \<Longrightarrow>
       rn_status (h k r) = rn_status r \<and> rn_startedAt (h k r) = rn_startedAt r"
  shows "state_runs t (map (\<lambda>(k, r). (k, h k r)) runs) = state_runs t runs"
proof -
  have "state_runs t (map (\<lambda>(k, r). (k, h k r)) runs) =
      map (\<lambda>(k, r). state_run_of k (h k r)) (select_rows (\<lambda>r. rn_taskId r = t) runs)"
    by (rule state_runs_map [OF assms(1)])
  also have "\<dots> = state_runs t runs"
    unfolding state_runs_alt
    by (rule map_cong [OF refl]) (use assms(2) in \<open>auto simp: select_rows_def state_run_of_def\<close>)
  finally show ?thesis .
qed

definition fresh_state :: "run_db \<Rightarrow> string \<Rightarrow> bool" where
  "fresh_state db t \<longleftrightarrow>
     (\<forall>row. map_of (rd_tasks db) t = Some row \<longrightarrow> state_runs t (rd_runs db) \<noteq> [] \<longrightarrow>
        deriveTaskStateFromRuns (state_runs t (rd_runs db)) = Some (tk_state row))"

definition tables_ok :: "run_db \<Rightarrow> bool" where
  "tables_ok db \<longleftrightarrow> jsmap_ok (rd_runs db) \<and> jsmap_ok (rd_tasks db)"

lemma sync_fields [simp]:
  "rd_runs (syncTaskStateFromRuns now j t db) = rd_runs db"
  "rd_events (syncTaskStateFromRuns now j t db) = rd_events db"
  "rd_parallel (syncTaskStateFromRuns now j t db) = rd_parallel db"
  by (simp_all add: syncTaskStateFromRuns_def Let_def split: option.split prod.split)

lemma sync_tasks:
  "rd_tasks (syncTaskStateFromRuns now j t db) =
     (case deriveTaskStateFromRuns (state_runs t (rd_runs db)) of
        None \<Rightarrow> rd_tasks db
      | Some nextState \<Rightarrow> fst (update_where t (\<lambda>task. tk_state task \<noteq> nextState)
          (\<lambda>task. task\<lparr>tk_state := nextState, tk_updatedAt := now\<rparr>) (rd_tasks db)))"
proof (cases "deriveTaskStateFromRuns (state_runs t (rd_runs db))")
  case (Some nextState)
  obtain tasks updated where u: "update_where t (\<lambda>task. tk_state task \<noteq> nextState)
      (\<lambda>task. task\<lparr>tk_state := nextState, tk_updatedAt := now\<rparr>) (rd_tasks db) = (tasks, updated)"
    by (rule prod.exhaust)
  have "rd_tasks (syncTaskStateFromRuns now j t db) = tasks"
    by (cases updated; cases "getSessionForTask t db";
        cases "selectTaskStateRun (state_runs t (rd_runs db))")
      (simp_all add: syncTaskStateFromRuns_def Some u Let_def)
  then show ?thesis by (simp add: Some u)
qed (simp add: syncTaskStateFromRuns_def)

lemma sync_tables [simp]: "tables_ok db \<Longrightarrow> tables_ok (syncTaskStateFromRuns now j t db)"
  by (simp add: tables_ok_def sync_tasks split: option.split)

lemma sync_fresh: "fresh_state (syncTaskStateFromRuns now j t db) t"
  by (auto simp: fresh_state_def sync_tasks table_ops derive_None split: option.splits if_splits)

lemma sync_other: "t' \<noteq> t \<Longrightarrow> fresh_state (syncTaskStateFromRuns now j t db) t' = fresh_state db t'"
  by (auto simp: fresh_state_def sync_tasks table_ops split: option.splits)

lemma fresh_cong:
  "rd_runs db' = rd_runs db \<Longrightarrow> rd_tasks db' = rd_tasks db \<Longrightarrow> fresh_state db' t = fresh_state db t"
  by (simp add: fresh_state_def)

lemma mark_fields [simp]:
  "rd_runs (markTaskStartParallelCountEndedAt now i db) = rd_runs db"
  "rd_tasks (markTaskStartParallelCountEndedAt now i db) = rd_tasks db"
  "rd_events (markTaskStartParallelCountEndedAt now i db) = rd_events db"
  by (simp_all add: markTaskStartParallelCountEndedAt_def)

lemma event_fields [simp]:
  "rd_runs (recordTaskRunLifecycleEvent i ty st db) = rd_runs db"
  "rd_tasks (recordTaskRunLifecycleEvent i ty st db) = rd_tasks db"
  "rd_events (recordTaskRunLifecycleEvent i ty st db) =
     rd_events db @ [\<lparr>ev_runId = i, ev_eventType = ty, ev_stage = st\<rparr>]"
  by (simp_all add: recordTaskRunLifecycleEvent_def)

definition states_ok :: "run_db \<Rightarrow> bool" where
  "states_ok db \<longleftrightarrow> tables_ok db \<and> (\<forall>t. fresh_state db t)"

lemma states_ok_cong:
  "rd_runs db' = rd_runs db \<Longrightarrow> rd_tasks db' = rd_tasks db \<Longrightarrow> states_ok db' = states_ok db"
  by (simp only: states_ok_def tables_ok_def fresh_state_def)

lemma states_ok_mark [simp]: "states_ok (markTaskStartParallelCountEndedAt now i db) = states_ok db"
  by (rule states_ok_cong) simp_all

lemma states_ok_event [simp]: "states_ok (recordTaskRunLifecycleEvent i ty st db) = states_ok db"
  by (rule states_ok_cong) simp_all

text \<open>A change of rows of one task, followed by the derivation for that task.\<close>

lemma states_ok_sync:
  assumes "tables_ok db'" "\<And>t'. t' \<noteq> t \<Longrightarrow> fresh_state db' t'"
  shows "states_ok (syncTaskStateFromRuns now j t db')"
  unfolding states_ok_def
proof (intro conjI allI)
  show "tables_ok (syncTaskStateFromRuns now j t db')" using assms(1) by simp
  show "fresh_state (syncTaskStateFromRuns now j t db') t'" for t'
    using sync_fresh sync_other assms(2) by (cases "t' = t") auto
qed

lemma update_run_runs: "rd_runs (fst (update_run i p f db)) = fst (update_where i p f (rd_runs db))"
  by (cases "update_where i p f (rd_runs db)") (simp add: update_run_def)

lemma snd_update_run: "snd (update_run i p f db) = snd (update_where i p f (rd_runs db))"
  by (cases "update_where i p f (rd_runs db)") (simp add: update_run_def)

lemma runs_of_update:
  "tables_ok db \<Longrightarrow> rd_runs (fst (update_run i p f db)) =
     map (\<lambda>(k, r). (k, if k = i \<and> p r then f r else r)) (rd_runs db)"
  by (simp add: update_run_runs tables_ok_def update_where_as_map)

lemma update_run_fields [simp]:
  "rd_tasks (fst (update_run i p f db)) = rd_tasks db"
  "rd_events (fst (update_run i p f db)) = rd_events db"
  by (simp_all add: update_run_def split: prod.split)

lemma map_of_update_run:
  "map_of (rd_runs (fst (update_run i p f db))) k =
     (if k = i \<and> (\<exists>row. map_of (rd_runs db) i = Some row \<and> p row)
      then map_option f (map_of (rd_runs db) i) else map_of (rd_runs db) k)"
  by (simp only: update_run_runs map_of_update_where)

lemma update_run_tables: "tables_ok db \<Longrightarrow> tables_ok (fst (update_run i p f db))"
  by (simp add: tables_ok_def update_run_runs)

lemma update_run_other:
  assumes "tables_ok db" "fresh_state db t'" "\<And>row. rn_taskId (f row) = rn_taskId row"
    "\<And>row. map_of (rd_runs db) i = Some row \<Longrightarrow> p row \<Longrightarrow> rn_taskId row \<noteq> t'"
  shows "fresh_state (fst (update_run i p f db)) t'"
proof -
  have "jsmap_ok (rd_runs db)" using assms(1) by (simp add: tables_ok_def)
  then have "state_runs t' (rd_runs (fst (update_run i p f db))) = state_runs t' (rd_runs db)"
    unfolding runs_of_update [OF assms(1)]
    by (intro state_runs_cong) (use assms(3,4) in \<open>auto simp: jsmap_values_iff\<close>)
  then show ?thesis using assms(2) by (simp add: fresh_state_def)
qed

lemma write_run_states:
  assumes "states_ok db" "\<And>row. rn_taskId (f row) = rn_taskId row"
  shows "states_ok (fst (write_run now j i p f db))"
proof (cases "snd (update_where i p f (rd_runs db))")
  case None
  then show ?thesis using assms(1) by (simp add: write_run_def split: prod.split option.split) auto
next
  case (Some row)
  have tables: "tables_ok db" using assms(1) by (simp add: states_ok_def)
  obtain old where old: "map_of (rd_runs db) i = Some old" "p old" "row = f old"
    using Some by (auto simp: snd_update_where)
  have "fst (write_run now j i p f db) =
      syncTaskStateFromRuns now j (rn_taskId row) (fst (update_run i p f db))"
    using Some by (auto simp: write_run_def update_run_def split: prod.split option.split)
  moreover have "states_ok (syncTaskStateFromRuns now j (rn_taskId row) (fst (update_run i p f db)))"
  proof (rule states_ok_sync [OF update_run_tables [OF tables]])
    fix t'
    assume "t' \<noteq> rn_taskId row"
    then show "fresh_state (fst (update_run i p f db)) t'"
      using assms old by (intro update_run_other [OF tables]) (auto simp: states_ok_def)
  qed
  ultimately show ?thesis by simp
qed

text \<open>An update that keeps a live run alive, or what the state is derived from as it is.\<close>

lemma update_run_states:
  assumes "states_ok db" "\<And>row. rn_taskId (f row) = rn_taskId row"
    "\<And>row. map_of (rd_runs db) i = Some row \<Longrightarrow> p row \<Longrightarrow>
       rn_status (f row) = rn_status row \<and> rn_startedAt (f row) = rn_startedAt row \<or>
       \<not> run_exited row \<and> \<not> run_exited (f row)"
  shows "states_ok (fst (update_run i p f db))"
  unfolding states_ok_def
proof (intro conjI allI)
  have tables: "tables_ok db" and keys: "jsmap_ok (rd_runs db)"
    using assms(1) by (simp_all add: states_ok_def tables_ok_def)
  show "tables_ok (fst (update_run i p f db))" by (rule update_run_tables [OF tables])
  fix t
  have fresh: "fresh_state db t" using assms(1) by (simp add: states_ok_def)
  show "fresh_state (fst (update_run i p f db)) t"
  proof (cases "\<exists>row. map_of (rd_runs db) i = Some row \<and> p row \<and> rn_taskId row = t \<and>
      \<not> run_exited row \<and> \<not> run_exited (f row)")
    case True
    then obtain row where row: "map_of (rd_runs db) i = Some row" "p row" "rn_taskId row = t"
      "\<not> run_exited row" "\<not> run_exited (f row)" by blast
    have live: "deriveTaskStateFromRuns (state_runs t runs) = Some TaskActive \<and> state_runs t runs \<noteq> []"
      if "jsmap_ok runs" "map_of runs i = Some r" "rn_taskId r = t" "\<not> run_exited r" for runs r
    proof -
      have "(i, r) \<in> set (select_rows (\<lambda>r. rn_taskId r = t) runs)"
        using that by (simp add: set_select_rows)
      then have "state_run_of i r \<in> set (state_runs t runs)" unfolding state_runs_alt by force
      moreover have "sr_status (state_run_of i r) \<in> set NON_TERMINAL_RUN_STATUSES"
        using that(4) terminal_status by (auto simp: run_exited_def state_run_of_def)
      ultimately show ?thesis using derive_active by fastforce
    qed
    have "deriveTaskStateFromRuns (state_runs t (rd_runs (fst (update_run i p f db)))) = Some TaskActive"
      by (rule conjunct1, rule live [of _ "f row"])
        (use update_run_tables [OF tables, of i p f] row assms(2) in
          \<open>simp_all add: tables_ok_def map_of_update_run\<close>)
    moreover have "deriveTaskStateFromRuns (state_runs t (rd_runs db)) = Some TaskActive"
      "state_runs t (rd_runs db) \<noteq> []"
      using live [OF keys row(1,3,4)] by blast+
    ultimately show ?thesis using fresh by (auto simp: fresh_state_def)
  next
    case False
    have "state_runs t (rd_runs (fst (update_run i p f db))) = state_runs t (rd_runs db)"
      unfolding runs_of_update [OF tables]
      by (rule state_runs_cong)
        (use False assms(2,3) keys in \<open>auto simp: jsmap_values_iff\<close>)
    then show ?thesis using fresh by (simp add: fresh_state_def)
  qed
qed

end
