(* ===== verification/RunWriters.thy ===== *)
theory RunWriters
  imports TaskState
begin

section \<open>Creating and stopping runs\<close>

text \<open>
  The writers of a run's status outside the sandbox: the launches, retries and resumes of
  \<open>packages/cloud-agents/src/server/task-run-queue.ts\<close> and its cancels of queued runs, and the stops
  and cancels of \<open>packages/db/src/lib/cancel-task-run.ts\<close>,
  \<open>packages/sdk/src/server/lib/task-runs/stop-task-run.ts\<close>, \<open>apps/api\<close>, \<open>apps/web\<close> and
  \<open>packages/linear\<close>. Each transaction is one step. Notifications, the queue in Redis and the calls of
  the sandbox are outside.
\<close>

subsection \<open>Creating runs\<close>

text \<open>The columns an enqueue gives a run; the rest are null.\<close>

record launch_options =
  lo_initialStatus :: "run_status option"
  lo_initialTaskPhase :: "string option"
  lo_initialError :: "string option"

definition new_run :: "ms \<Rightarrow> string \<Rightarrow> bool \<Rightarrow> nat option \<Rightarrow> launch_options \<Rightarrow> run_row" where
  "new_run now taskId resume source options =
     \<lparr>rn_taskId = taskId, rn_resume = resume, rn_sourceRunId = source,
      rn_status = nullish_or (lo_initialStatus options) Pending,
      rn_taskPhase = lo_initialTaskPhase options, rn_error = lo_initialError options,
      rn_errorCode = None, rn_machineId = None, rn_sandboxServerUrl = None, rn_snapshotId = None,
      rn_createdAt = now,
      rn_dequeuedAt = (if lo_initialStatus options = Some Dequeued then Some now else None),
      rn_provisionStartedAt = None, rn_provisionReadyAt = None, rn_startedAt = None,
      rn_workerHeartbeatAt = None, rn_completedAt = None, rn_canceledAt = None,
      rn_cancelRequestedAt = None, rn_sleepAt = None, rn_sleepRequestedAt = None,
      rn_snapshotRequestedAt = None, rn_snapshotCreatedAt = None, rn_snapshotFailedAt = None\<rparr>"

definition insert_run :: "nat \<Rightarrow> run_row \<Rightarrow> run_db \<Rightarrow> run_db" where
  "insert_run i row db = db\<lparr>rd_runs := insert_row i row (rd_runs db)\<rparr>"

text \<open>A launch: of a new task, which starts active, or of a task that is there (\<open>existingTask\<close>).\<close>

definition enqueueTask ::
    "ms \<Rightarrow> string \<Rightarrow> nat \<Rightarrow> string \<Rightarrow> bool \<Rightarrow> nat option \<Rightarrow> launch_options \<Rightarrow> run_db \<Rightarrow> run_db" where
  "enqueueTask now j i taskId existingTask source options db =
     (if existingTask
      then syncTaskStateFromRuns now j taskId
             (insert_run i (new_run now taskId False source options) db)
      else insert_run i (new_run now taskId False source options)
             (db\<lparr>rd_tasks := insert_row taskId \<lparr>tk_state = TaskActive, tk_updatedAt = now\<rparr>
                   (rd_tasks db)\<rparr>))"

datatype retry_result = RetryExists nat | RetryCreated nat | RetryRefused string

text \<open>The transaction of \<open>retryFailedTaskStart\<close>, on the run \<open>source\<close> of the task.\<close>

definition retryFailedTaskStart ::
    "ms \<Rightarrow> string \<Rightarrow> nat \<Rightarrow> string \<Rightarrow> nat \<Rightarrow> launch_options \<Rightarrow> run_db \<Rightarrow> run_db \<times> retry_result" where
  "retryFailedTaskStart now j i taskId source options db =
     (case select_rows (\<lambda>row. rn_taskId row = taskId \<and> rn_sourceRunId row = Some source \<and>
                          \<not> rn_resume row \<and> rn_status row \<in> set activeRunStatuses) (rd_runs db) of
        (k, existingRetry) # _ \<Rightarrow> (db, RetryExists k)
      | [] \<Rightarrow>
          if select_rows (\<lambda>row. rn_taskId row = taskId \<and> rn_status row \<in> set activeRunStatuses)
               (rd_runs db) \<noteq> []
          then (db, RetryRefused ''This task already has an active run.'')
          else if \<not> row_is source (\<lambda>row. rn_status row = Failed) (rd_runs db)
          then (db, RetryRefused ''Only failed task starts can be retried.'')
          else (syncTaskStateFromRuns now j taskId
                  (insert_run i (new_run now taskId False (Some source) options) db),
                RetryCreated i))"

definition enqueueSnapshotResume ::
    "ms \<Rightarrow> string \<Rightarrow> nat \<Rightarrow> nat \<Rightarrow> launch_options \<Rightarrow> run_db \<Rightarrow> run_db \<times> nat option" where
  "enqueueSnapshotResume now j i source options db =
     (case map_of (rd_runs db) source of
        None \<Rightarrow> (db, None)
      | Some sourceRun \<Rightarrow>
          if select_rows (\<lambda>row. rn_sourceRunId row = Some source \<and> rn_resume row \<and>
               rn_canceledAt row = None) (rd_runs db) \<noteq> []
          then (db, None)
          else (syncTaskStateFromRuns now j (rn_taskId sourceRun)
                  (insert_run i (new_run now (rn_taskId sourceRun) True (Some source) options) db),
                Some i))"

definition canceled_before_queue :: "ms \<Rightarrow> string \<Rightarrow> run_row \<Rightarrow> run_row" where
  "canceled_before_queue endedAt message row =
     row\<lparr>rn_status := Canceled, rn_canceledAt := Some endedAt, rn_error := Some message\<rparr>"

definition cancelTaskRunBeforeQueue ::
    "ms \<Rightarrow> string \<Rightarrow> nat \<Rightarrow> string \<Rightarrow> run_db \<Rightarrow> run_db \<times> bool" where
  "cancelTaskRunBeforeQueue now j runId message db =
     (case write_run now j runId (\<lambda>row. rn_status row = Pending)
             (canceled_before_queue now message) db of
        (db', row) \<Rightarrow> (db', row \<noteq> None))"

text \<open>
  The runs the queue evicted, in one transaction: all rows first, then each task's state. The ids
  of the judgment requests are those of \<open>js\<close>, one for each run.
\<close>

fun sync_canceled :: "ms \<Rightarrow> string list \<Rightarrow> nat list \<Rightarrow> run_db \<Rightarrow> run_db" where
  "sync_canceled now js [] db = db"
| "sync_canceled now js (i # is) db =
     (case map_of (rd_runs db) i of
        None \<Rightarrow> sync_canceled now (tl js) is db
      | Some row \<Rightarrow>
          sync_canceled now (tl js) is
            (markTaskStartParallelCountEndedAt now i
               (syncTaskStateFromRuns now (hd js) (rn_taskId row) db)))"

definition cancelEvictedTaskRuns ::
    "ms \<Rightarrow> string list \<Rightarrow> nat list \<Rightarrow> string \<Rightarrow> run_db \<Rightarrow> run_db \<times> nat list" where
  "cancelEvictedTaskRuns now js entries message db =
     (case update_ids entries (\<lambda>row. rn_status row = Pending) (canceled_before_queue now message)
             (rd_runs db) of
        (runs, canceled) \<Rightarrow> (sync_canceled now js canceled (db\<lparr>rd_runs := runs\<rparr>), canceled))"

subsection \<open>Stopping a run\<close>

definition cancelTaskRunDirect ::
    "ms \<Rightarrow> string \<Rightarrow> nat \<Rightarrow> string option \<Rightarrow> run_db \<Rightarrow> run_db \<times> bool" where
  "cancelTaskRunDirect now j runId error db =
     (case write_run now j runId (\<lambda>row. rn_sandboxServerUrl row = None \<and> \<not> run_exited row)
             (\<lambda>row. row\<lparr>rn_status := Canceled, rn_cancelRequestedAt := Some now,
                rn_canceledAt := Some now,
                rn_error := (if truthy error then error else rn_error row)\<rparr>) db of
        (db', None) \<Rightarrow> (db', False)
      | (db', Some row) \<Rightarrow> (markTaskStartParallelCountEndedAt now runId db', True))"

definition markCancelRequested :: "ms \<Rightarrow> nat \<Rightarrow> run_db \<Rightarrow> run_db" where
  "markCancelRequested now runId db =
     fst (update_run runId (\<lambda>row. rn_cancelRequestedAt row = None)
            (\<lambda>row. row\<lparr>rn_cancelRequestedAt := Some now\<rparr>) db)"

datatype stop_result =
    SandboxStop
  | DirectCancel
  | StopNotFound
  | StopNotActive run_status
  | StopNoSandbox
  | StopSandboxError

datatype stop_resolution =
    ResolvedNotFound
  | ResolvedTerminal run_status
  | ResolvedNoSandbox
  | ResolvedSandbox

definition resolveStopTaskRun :: "run_row option \<Rightarrow> stop_resolution" where
  "resolveStopTaskRun run =
     (case run of
        None \<Rightarrow> ResolvedNotFound
      | Some row \<Rightarrow>
          if run_exited row then ResolvedTerminal (rn_status row)
          else if \<not> truthy (rn_sandboxServerUrl row) then ResolvedNoSandbox
          else ResolvedSandbox)"

fun stopTaskResolutionToResult :: "stop_resolution \<Rightarrow> stop_result" where
  "stopTaskResolutionToResult ResolvedNotFound = StopNotFound"
| "stopTaskResolutionToResult (ResolvedTerminal status) = StopNotActive status"
| "stopTaskResolutionToResult ResolvedNoSandbox = StopNoSandbox"
| "stopTaskResolutionToResult ResolvedSandbox = SandboxStop"

text \<open>\<open>accepted\<close>: whether the sandbox took the request.\<close>

definition stopTaskSandboxRun :: "ms \<Rightarrow> bool \<Rightarrow> bool \<Rightarrow> nat \<Rightarrow> run_db \<Rightarrow> run_db \<times> stop_result" where
  "stopTaskSandboxRun now terminate accepted runId db =
     ((if terminate then markCancelRequested now runId db else db),
      if accepted then SandboxStop else StopSandboxError)"

text \<open>
  The caller read \<open>run\<close> some time before; what the others do before the row is read again, before
  the direct cancel and before the last read is \<open>e1\<close>, \<open>e2\<close> and \<open>e3\<close>.
\<close>

definition stopTaskRun ::
    "ms \<Rightarrow> string \<Rightarrow> (run_db \<Rightarrow> run_db) \<Rightarrow> (run_db \<Rightarrow> run_db) \<Rightarrow> (run_db \<Rightarrow> run_db) \<Rightarrow> bool \<Rightarrow> bool \<Rightarrow>
     bool \<Rightarrow> nat \<Rightarrow> run_row \<Rightarrow> run_db \<Rightarrow> run_db \<times> stop_result" where
  "stopTaskRun now j e1 e2 e3 allowDirectCancel terminate accepted runId run db =
     (case resolveStopTaskRun (Some run) of
        ResolvedTerminal status \<Rightarrow> (db, StopNotActive status)
      | ResolvedSandbox \<Rightarrow> stopTaskSandboxRun now terminate accepted runId db
      | _ \<Rightarrow>
          let db1 = e1 db; refreshed = resolveStopTaskRun (map_of (rd_runs db1) runId)
          in if refreshed = ResolvedSandbox then stopTaskSandboxRun now terminate accepted runId db1
             else if \<not> allowDirectCancel then (db1, stopTaskResolutionToResult refreshed)
             else if refreshed \<noteq> ResolvedNoSandbox
             then (db1, stopTaskResolutionToResult refreshed)
             else
               (case cancelTaskRunDirect now j runId None (e2 db1) of
                  (db2, True) \<Rightarrow> (db2, DirectCancel)
                | (db2, False) \<Rightarrow>
                    let db3 = e3 db2; raced = resolveStopTaskRun (map_of (rd_runs db3) runId)
                    in if raced = ResolvedSandbox
                       then stopTaskSandboxRun now terminate accepted runId db3
                       else (db3, stopTaskResolutionToResult raced)))"

text \<open>The API's cancel of a task: \<open>runId\<close> is its latest run, read before.\<close>

definition cancelTask :: "ms \<Rightarrow> string \<Rightarrow> nat \<Rightarrow> run_db \<Rightarrow> run_db \<times> bool" where
  "cancelTask now j runId db =
     (case write_run now j runId (\<lambda>row. rn_status row \<in> set activeRunStatuses)
             (\<lambda>row. row\<lparr>rn_status := Canceled, rn_cancelRequestedAt := Some now,
                rn_canceledAt := Some now\<rparr>) db of
        (db', None) \<Rightarrow> (db', False)
      | (db', Some row) \<Rightarrow> (markTaskStartParallelCountEndedAt now runId db', True))"

text \<open>Three cancels that do not derive the task's state: from Linear, from the web page, and of an
  environment's definition task, whose runs were read before.\<close>

definition cancelLinearTaskRun :: "ms \<Rightarrow> nat \<Rightarrow> run_db \<Rightarrow> run_db \<times> bool" where
  "cancelLinearTaskRun now runId db =
     (case update_run runId (\<lambda>row. \<not> run_exited row)
             (\<lambda>row. row\<lparr>rn_status := Canceled, rn_canceledAt := Some now,
                rn_error := Some ''Canceled by user via stop signal''\<rparr>) db of
        (db', None) \<Rightarrow> (db', False)
      | (db', Some row) \<Rightarrow> (markTaskStartParallelCountEndedAt now runId db', True))"

definition cancelTaskRunCommand :: "ms \<Rightarrow> nat \<Rightarrow> run_db \<Rightarrow> run_db \<times> bool" where
  "cancelTaskRunCommand now runId db =
     (case update_run runId (\<lambda>row. rn_status row \<in> set activeRunStatuses)
             (\<lambda>row. row\<lparr>rn_status := Canceled, rn_canceledAt := Some now\<rparr>) db of
        (db', None) \<Rightarrow> (db', False)
      | (db', Some row) \<Rightarrow> (markTaskStartParallelCountEndedAt now runId db', True))"

definition active_run_ids :: "string \<Rightarrow> run_db \<Rightarrow> nat list" where
  "active_run_ids taskId db =
     map fst (select_rows (\<lambda>row. rn_taskId row = taskId \<and> \<not> run_exited row) (rd_runs db))"

definition cancelEnvironmentDefinitionTask :: "ms \<Rightarrow> nat list \<Rightarrow> run_db \<Rightarrow> run_db" where
  "cancelEnvironmentDefinitionTask now activeRunIds db =
     (case update_ids activeRunIds (\<lambda>_. True)
             (\<lambda>row. row\<lparr>rn_status := Canceled, rn_canceledAt := Some now\<rparr>) (rd_runs db) of
        (runs, canceled) \<Rightarrow>
          foldl (\<lambda>db i. markTaskStartParallelCountEndedAt now i db) (db\<lparr>rd_runs := runs\<rparr>) canceled)"

end
