(* ===== verification/RunWorkers.thy ===== *)
theory RunWorkers
  imports RunWriters
begin

section \<open>Dispatching, working on and finishing runs\<close>

text \<open>
  The other writers of a run: \<open>finishRun\<close> and the progress of the worker
  (\<open>packages/sdk/src/server/lib/task-runs\<close>), the controller (\<open>apps/controller/src/BaseController.ts\<close>,
  \<open>orphaned-task-runs.ts\<close>), and the sweeps of \<open>apps/bullmq\<close> (\<open>sleep-check.ts\<close>, \<open>jobs/snapshot.ts\<close>). An
  operation that reads a run and writes it later takes the row it has read as an argument.
\<close>

subsection \<open>Finishing a run\<close>

text \<open>
  \<open>finishRun\<close> reads the run, and later writes it: \<open>seen\<close> is the row it read. A stop that had been
  requested when it read turns a failure into a cancel.
\<close>

definition finish_status :: "run_row \<Rightarrow> run_status \<Rightarrow> run_status" where
  "finish_status seen status =
     (if status = Failed \<and> rn_cancelRequestedAt seen \<noteq> None then Canceled else status)"

definition finish_row ::
    "ms \<Rightarrow> run_row \<Rightarrow> run_status \<Rightarrow> string option \<Rightarrow> string option \<Rightarrow> run_row \<Rightarrow> run_row" where
  "finish_row now seen status error errorCode row =
     row\<lparr>rn_status := status,
         rn_taskPhase := (if status = Idle then rn_taskPhase seen else None),
         rn_sleepAt := (if status = Idle then rn_sleepAt seen else None),
         rn_error := nullish (stripRunErrorMarkers error) (rn_error row),
         rn_errorCode := errorCode,
         rn_canceledAt := (if status = Canceled then Some now else rn_canceledAt seen),
         rn_completedAt := (if status = Canceled then None else Some now)\<rparr>"

fun finish_event_type :: "run_status \<Rightarrow> string" where
  "finish_event_type Completed = ''completed''"
| "finish_event_type Failed = ''failed''"
| "finish_event_type _ = ''decision''"

definition finish_write ::
    "ms \<Rightarrow> string \<Rightarrow> nat \<Rightarrow> run_row \<Rightarrow> run_status \<Rightarrow> string option \<Rightarrow> string option \<Rightarrow> run_db \<Rightarrow> run_db"
  where
  "finish_write now j i seen status error errorCode db =
     (let final = finish_status seen status;
          (db1, row) = update_run i (\<lambda>_. True) (finish_row now seen final error errorCode) db
      in recordTaskRunLifecycleEvent i (finish_event_type final) ''finish_task_run''
           (markTaskStartParallelCountEndedAt now i
              (syncTaskStateFromRuns now j (rn_taskId seen) db1)))"

definition finishRun ::
    "ms \<Rightarrow> string \<Rightarrow> nat \<Rightarrow> run_status \<Rightarrow> string option \<Rightarrow> string option \<Rightarrow> run_db \<Rightarrow> run_db" where
  "finishRun now j i status error errorCode db =
     (case map_of (rd_runs db) i of
        None \<Rightarrow> db
      | Some seen \<Rightarrow> finish_write now j i seen status error errorCode db)"

subsection \<open>The controller\<close>

definition SECOND :: ms where "SECOND = 1000"

definition MINUTE :: ms where "MINUTE = 60 * SECOND"

definition HOUR :: ms where "HOUR = 60 * MINUTE"

text \<open>\<open>packages/types/src/sandbox-spawn.ts\<close>: how long a launch may take.\<close>

definition SANDBOX_PHASE_MAX_RETRIES :: nat where "SANDBOX_PHASE_MAX_RETRIES = 3"

definition SANDBOX_PHASE_INITIAL_RETRY_DELAY_MS :: ms where
  "SANDBOX_PHASE_INITIAL_RETRY_DELAY_MS = 2000"

definition SANDBOX_CREATE_ATTEMPT_TIMEOUT_MS :: ms where
  "SANDBOX_CREATE_ATTEMPT_TIMEOUT_MS = 30000"

definition SANDBOX_WRITE_FILES_TIMEOUT_MS :: ms where
  "SANDBOX_WRITE_FILES_TIMEOUT_MS = 60000"

definition SANDBOX_INSTALL_TIMEOUT_MS :: ms where "SANDBOX_INSTALL_TIMEOUT_MS = 60000"

definition SANDBOX_MAX_WORKER_LAUNCH_TIMEOUT_MS :: ms where
  "SANDBOX_MAX_WORKER_LAUNCH_TIMEOUT_MS = max 20000 120000"

definition SANDBOX_SPAWN_MAX_ATTEMPTS :: nat where "SANDBOX_SPAWN_MAX_ATTEMPTS = 2"

definition SANDBOX_SPAWN_RETRY_DELAY_MS :: ms where "SANDBOX_SPAWN_RETRY_DELAY_MS = 5000"

definition SANDBOX_ORPHAN_SCAN_INTERVAL_MS :: ms where
  "SANDBOX_ORPHAN_SCAN_INTERVAL_MS = 30000"

definition WORKER_BOOTSTRAP_CLAIM_TIMEOUT_MS :: ms where
  "WORKER_BOOTSTRAP_CLAIM_TIMEOUT_MS = 2 * MINUTE"

definition getExponentialBackoffTotalMs :: "nat \<Rightarrow> ms \<Rightarrow> ms" where
  "getExponentialBackoffTotalMs retryCount initialDelayMs =
     sum_list (map (\<lambda>attempt. initialDelayMs * 2 ^ (attempt - 1)) [1..<retryCount])"

definition SANDBOX_CREATE_PHASE_MAX_DURATION_MS :: ms where
  "SANDBOX_CREATE_PHASE_MAX_DURATION_MS =
     int SANDBOX_PHASE_MAX_RETRIES * SANDBOX_CREATE_ATTEMPT_TIMEOUT_MS +
     getExponentialBackoffTotalMs SANDBOX_PHASE_MAX_RETRIES SANDBOX_PHASE_INITIAL_RETRY_DELAY_MS"

definition SANDBOX_WRITE_PHASE_MAX_DURATION_MS :: ms where
  "SANDBOX_WRITE_PHASE_MAX_DURATION_MS =
     int SANDBOX_PHASE_MAX_RETRIES * SANDBOX_WRITE_FILES_TIMEOUT_MS +
     getExponentialBackoffTotalMs SANDBOX_PHASE_MAX_RETRIES SANDBOX_PHASE_INITIAL_RETRY_DELAY_MS"

definition SANDBOX_SPAWN_ATTEMPT_MAX_DURATION_MS :: ms where
  "SANDBOX_SPAWN_ATTEMPT_MAX_DURATION_MS =
     SANDBOX_CREATE_PHASE_MAX_DURATION_MS + SANDBOX_WRITE_PHASE_MAX_DURATION_MS +
     SANDBOX_INSTALL_TIMEOUT_MS + SANDBOX_MAX_WORKER_LAUNCH_TIMEOUT_MS"

definition SANDBOX_SPAWN_MAX_DURATION_MS :: ms where
  "SANDBOX_SPAWN_MAX_DURATION_MS =
     int SANDBOX_SPAWN_MAX_ATTEMPTS * SANDBOX_SPAWN_ATTEMPT_MAX_DURATION_MS +
     (int SANDBOX_SPAWN_MAX_ATTEMPTS - 1) * SANDBOX_SPAWN_RETRY_DELAY_MS"

definition ORPHANED_PENDING_THRESHOLD_MS :: ms where
  "ORPHANED_PENDING_THRESHOLD_MS = 5 * MINUTE"

definition ORPHANED_AFTER_DEQUEUE_THRESHOLD_MS :: ms where
  "ORPHANED_AFTER_DEQUEUE_THRESHOLD_MS =
     SANDBOX_SPAWN_MAX_DURATION_MS + SANDBOX_ORPHAN_SCAN_INTERVAL_MS"

text \<open>
  The dequeue of a run by the controller, which has read it as \<open>seen\<close>: whether the dispatch is
  refused at once, the guarded update, and the second read after an update that found no row.
\<close>

definition dispatch_refused :: "run_row \<Rightarrow> bool" where
  "dispatch_refused seen \<longleftrightarrow>
     rn_cancelRequestedAt seen \<noteq> None \<or> rn_canceledAt seen \<noteq> None \<or> run_exited seen"

definition dispatch_write :: "ms \<Rightarrow> nat \<Rightarrow> run_row \<Rightarrow> run_db \<Rightarrow> run_db \<times> bool" where
  "dispatch_write now i seen db =
     (case update_run i
             (\<lambda>row. rn_status row = rn_status seen \<and> rn_cancelRequestedAt row = None \<and>
                rn_canceledAt row = None)
             (\<lambda>row. row\<lparr>rn_status := Dequeued, rn_dequeuedAt := Some now\<rparr>) db of
        (db', None) \<Rightarrow> (db', False)
      | (db', Some row) \<Rightarrow> (recordTaskRunLifecycleEvent i ''decision'' ''controller_dequeue'' db', True))"

datatype dispatch_result = Dispatched | DispatchSkipped | DispatchFailed

definition dispatch_verdict :: "nat \<Rightarrow> run_row \<Rightarrow> run_db \<Rightarrow> dispatch_result" where
  "dispatch_verdict i seen db =
     (case map_of (rd_runs db) i of
        None \<Rightarrow> DispatchSkipped
      | Some latestRun \<Rightarrow>
          if rn_cancelRequestedAt latestRun \<noteq> None \<or> rn_canceledAt latestRun \<noteq> None \<or>
             rn_status latestRun = Canceled \<or> rn_status latestRun \<noteq> rn_status seen
          then DispatchSkipped
          else DispatchFailed)"

text \<open>
  \<open>readOnly\<close>: the deployment may not run anything. A dispatch that fails ends the run
  (\<open>handleSpawnTaskRunError\<close>); \<open>e\<close> is what happens before the second read.
\<close>

definition controllerDequeueTaskRun ::
    "ms \<Rightarrow> string \<Rightarrow> bool \<Rightarrow> (run_db \<Rightarrow> run_db) \<Rightarrow> nat \<Rightarrow> run_row \<Rightarrow> run_db \<Rightarrow> run_db \<times> dispatch_result"
  where
  "controllerDequeueTaskRun now j readOnly e i seen db =
     (if dispatch_refused seen then (db, DispatchSkipped)
      else if (rn_status seen = Pending \<or> rn_status seen = Dequeued) \<and> readOnly
      then (finishRun now j i Failed (Some ''read only'') (Some ''deployment_read_only'') db,
            DispatchSkipped)
      else
        case dispatch_write now i seen db of
          (db', True) \<Rightarrow> (db', Dispatched)
        | (db', False) \<Rightarrow> (e db', dispatch_verdict i seen (e db')))"

text \<open>The orphan scan.\<close>

definition orphaned_run :: "ms \<Rightarrow> run_row \<Rightarrow> bool" where
  "orphaned_run now row \<longleftrightarrow>
     rn_cancelRequestedAt row = None \<and> rn_canceledAt row = None \<and>
     (rn_status row = Pending \<and> rn_taskPhase row \<noteq> Some ''waiting_for_sandbox_provider'' \<and>
        rn_createdAt row < now - ORPHANED_PENDING_THRESHOLD_MS \<and> rn_createdAt row > now - 24 * HOUR \<or>
      rn_status row = Dequeued \<and>
        (case rn_dequeuedAt row of None \<Rightarrow> False
         | Some t \<Rightarrow> t < now - ORPHANED_AFTER_DEQUEUE_THRESHOLD_MS))"

definition claimOrphanedTaskRun :: "ms \<Rightarrow> run_db \<Rightarrow> run_db \<times> nat option" where
  "claimOrphanedTaskRun now db =
     (case sort_key (\<lambda>(i, row). rn_createdAt row) (select_rows (orphaned_run now) (rd_runs db)) of
        [] \<Rightarrow> (db, None)
      | (i, candidate) # _ \<Rightarrow>
          (fst (update_run i (\<lambda>_. True)
             (\<lambda>row. row\<lparr>rn_status := Dequeued, rn_dequeuedAt := Some now\<rparr>) db), Some i))"

text \<open>A worker that exits before it claimed its run: one fresh sandbox, then failure.\<close>

definition unclaimed_run :: "run_row \<Rightarrow> bool" where
  "unclaimed_run row \<longleftrightarrow>
     rn_status row = Dequeued \<and> rn_startedAt row = None \<and> rn_workerHeartbeatAt row = None \<and>
     rn_canceledAt row = None"

definition restarted :: "nat \<Rightarrow> run_db \<Rightarrow> bool" where
  "restarted i db \<longleftrightarrow>
     (\<exists>ev \<in> set (rd_events db). ev_runId ev = i \<and> ev_stage ev = ''worker_bootstrap_restart'')"

definition claimWorkerBootstrapRestart :: "nat \<Rightarrow> run_db \<Rightarrow> run_db \<times> bool" where
  "claimWorkerBootstrapRestart i db =
     (if \<not> row_is i unclaimed_run (rd_runs db) then (db, False)
      else if restarted i db then (db, False)
      else
        (recordTaskRunLifecycleEvent i ''decision'' ''worker_bootstrap_restart''
           (fst (update_run i (\<lambda>_. True)
              (\<lambda>row. row\<lparr>rn_status := Pending, rn_dequeuedAt := None, rn_machineId := None,
                 rn_sandboxServerUrl := None, rn_provisionStartedAt := None,
                 rn_provisionReadyAt := None\<rparr>) db)), True))"

text \<open>The claim of a failure; \<open>finishRun\<close> follows, as a step of its own, if it was won.\<close>

definition claimWorkerBootstrapFailure ::
    "ms \<Rightarrow> string \<Rightarrow> nat \<Rightarrow> string \<Rightarrow> run_db \<Rightarrow> run_db \<times> bool" where
  "claimWorkerBootstrapFailure now j i errorMessage db =
     (case write_run now j i unclaimed_run
             (\<lambda>row. row\<lparr>rn_status := Failed, rn_error := Some errorMessage,
                rn_completedAt := Some now\<rparr>) db of
        (db', row) \<Rightarrow> (db', row \<noteq> None))"

datatype exit_disposition = ExitRestart | ExitFailed | ExitIgnored

definition handleWorkerExitBeforeStart ::
    "ms \<Rightarrow> string \<Rightarrow> nat \<Rightarrow> string \<Rightarrow> run_db \<Rightarrow> run_db \<times> exit_disposition" where
  "handleWorkerExitBeforeStart now j i errorMessage db =
     (case claimWorkerBootstrapRestart i db of
        (db', True) \<Rightarrow> (db', ExitRestart)
      | (db', False) \<Rightarrow>
          (case claimWorkerBootstrapFailure now j i errorMessage db' of
             (db'', claimed) \<Rightarrow> (db'', if claimed then ExitFailed else ExitIgnored)))"

text \<open>The runs the bootstrap watchdog tries to claim as failed.\<close>

definition overdue_bootstrap :: "ms \<Rightarrow> run_row \<Rightarrow> bool" where
  "overdue_bootstrap now row \<longleftrightarrow>
     unclaimed_run row \<and>
     (case rn_provisionReadyAt row of None \<Rightarrow> False
      | Some t \<Rightarrow> t < now - WORKER_BOOTSTRAP_CLAIM_TIMEOUT_MS)"

definition findPersistedWorkerBootstrapRestarts :: "run_db \<Rightarrow> nat list" where
  "findPersistedWorkerBootstrapRestarts db =
     map fst (sort_key (\<lambda>(i, row). rn_createdAt row)
       (filter (\<lambda>(i, row). rn_status row = Pending \<and> rn_startedAt row = None \<and>
            rn_canceledAt row = None \<and> restarted i db) (rd_runs db)))"

text \<open>What a provider's launch writes.\<close>

definition updateTaskRunMachine :: "nat \<Rightarrow> string \<Rightarrow> string option \<Rightarrow> run_db \<Rightarrow> run_db" where
  "updateTaskRunMachine i machineId sandboxServerUrl db =
     fst (update_run i (\<lambda>_. True)
            (\<lambda>row. row\<lparr>rn_machineId := Some machineId,
               rn_sandboxServerUrl := nullish sandboxServerUrl (rn_sandboxServerUrl row)\<rparr>) db)"

definition clearTaskRunMachine :: "nat \<Rightarrow> run_db \<Rightarrow> run_db" where
  "clearTaskRunMachine i db =
     fst (update_run i (\<lambda>_. True)
            (\<lambda>row. row\<lparr>rn_machineId := None, rn_sandboxServerUrl := None\<rparr>) db)"

subsection \<open>The worker\<close>

definition claimJobById :: "nat \<Rightarrow> run_db \<Rightarrow> run_db \<times> run_row option" where
  "claimJobById i db =
     update_run i (\<lambda>row. rn_status row = Dequeued) (\<lambda>row. row\<lparr>rn_status := Processing\<rparr>) db"

definition cancelTaskRun :: "ms \<Rightarrow> string \<Rightarrow> nat \<Rightarrow> string \<Rightarrow> run_db \<Rightarrow> run_db" where
  "cancelTaskRun now j i error db =
     markTaskStartParallelCountEndedAt now i
       (fst (write_run now j i (\<lambda>_. True)
          (\<lambda>row. row\<lparr>rn_status := Canceled, rn_canceledAt := Some now, rn_error := Some error\<rparr>) db))"

text \<open>
  The transaction in which a worker dequeues its run, \<open>valid\<close> being whether the run's
  specification parses.
\<close>

definition workerDequeueTaskRun ::
    "ms \<Rightarrow> string \<Rightarrow> bool \<Rightarrow> nat \<Rightarrow> run_db \<Rightarrow> run_db \<times> bool" where
  "workerDequeueTaskRun now j valid i db =
     (case claimJobById i db of
        (db', None) \<Rightarrow> (db', False)
      | (db', Some taskRun) \<Rightarrow>
          if \<not> valid then (cancelTaskRun now j i ''Task run is not valid.'' db', False)
          else (recordTaskRunLifecycleEvent i ''started'' ''worker_bootstrap''
                  (fst (update_run i (\<lambda>_. True) (\<lambda>row. row\<lparr>rn_startedAt := Some now\<rparr>) db')), True))"

text \<open>Before a worker could claim it; the lock and the notifications are outside.\<close>

definition cancelAndReleaseTaskRun :: "ms \<Rightarrow> string \<Rightarrow> nat \<Rightarrow> string \<Rightarrow> run_db \<Rightarrow> run_db" where
  "cancelAndReleaseTaskRun now j i errorMessage db = cancelTaskRun now j i errorMessage db"

text \<open>The progress a worker reports; the update has no guard.\<close>

definition updateTaskRun ::
    "nat \<Rightarrow> run_status option \<Rightarrow> run_db \<Rightarrow> run_db" where
  "updateTaskRun i status db =
     fst (update_run i (\<lambda>_. True) (\<lambda>row. row\<lparr>rn_status := nullish_or status (rn_status row)\<rparr>) db)"

definition shouldApplyRuntimeStateUpdate :: "run_row \<Rightarrow> string option \<Rightarrow> ms option \<Rightarrow> bool" where
  "shouldApplyRuntimeStateUpdate current taskPhase sleepAt \<longleftrightarrow>
     taskPhase = Some ''shutting_down'' \<or> sleepAt = None \<or> rn_taskPhase current \<noteq> taskPhase \<or>
     rn_sleepAt current = None \<or> the sleepAt \<ge> the (rn_sleepAt current)"

text \<open>The row \<open>current\<close> is read before.\<close>

definition updateTaskRunRuntimeState ::
    "nat \<Rightarrow> run_row \<Rightarrow> string option \<Rightarrow> ms option \<Rightarrow> run_db \<Rightarrow> run_db" where
  "updateTaskRunRuntimeState i current taskPhase sleepAt db =
     (if shouldApplyRuntimeStateUpdate current taskPhase sleepAt
      then fst (update_run i (\<lambda>_. True)
             (\<lambda>row. row\<lparr>rn_taskPhase := taskPhase, rn_sleepAt := sleepAt\<rparr>) db)
      else db)"

definition touchTaskRunHeartbeat :: "nat \<Rightarrow> ms \<Rightarrow> run_db \<Rightarrow> run_db" where
  "touchTaskRunHeartbeat i heartbeatAt db =
     fst (update_run i (\<lambda>_. True) (\<lambda>row. row\<lparr>rn_workerHeartbeatAt := Some heartbeatAt\<rparr>) db)"

datatype milestone = ProvisionStarted | ProvisionReady

definition stampTaskRunMilestone :: "nat \<Rightarrow> milestone \<Rightarrow> ms \<Rightarrow> run_db \<Rightarrow> run_db" where
  "stampTaskRunMilestone i field t db =
     (case field of
        ProvisionStarted \<Rightarrow>
          fst (update_run i (\<lambda>row. rn_provisionStartedAt row = None)
                 (\<lambda>row. row\<lparr>rn_provisionStartedAt := Some t\<rparr>) db)
      | ProvisionReady \<Rightarrow>
          fst (update_run i (\<lambda>row. rn_provisionReadyAt row = None)
                 (\<lambda>row. row\<lparr>rn_provisionReadyAt := Some t\<rparr>) db))"

subsection \<open>The sweeps\<close>

definition NEVER_STARTED_THRESHOLD_MS :: ms where
  "NEVER_STARTED_THRESHOLD_MS = ORPHANED_AFTER_DEQUEUE_THRESHOLD_MS"

definition NEVER_STARTED_CLAIM_LEASE_MS :: ms where
  "NEVER_STARTED_CLAIM_LEASE_MS = 10 * 60 * 1000"

definition BOOTING_NO_HEARTBEAT_STATUSES :: "run_status list" where
  "BOOTING_NO_HEARTBEAT_STATUSES = [Processing, Preparing, Spawning, Connecting]"

definition neverStartedClaimAvailable :: "ms \<Rightarrow> run_row \<Rightarrow> bool" where
  "neverStartedClaimAvailable now row \<longleftrightarrow>
     (case rn_sleepRequestedAt row of None \<Rightarrow> True
      | Some t \<Rightarrow> t \<le> now - NEVER_STARTED_CLAIM_LEASE_MS)"

definition neverStartedSince :: "ms \<Rightarrow> run_row \<Rightarrow> bool" where
  "neverStartedSince cutoff row \<longleftrightarrow>
     rn_startedAt row = None \<and>
     (case rn_dequeuedAt row of None \<Rightarrow> False
      | Some dequeued \<Rightarrow>
          (case rn_provisionReadyAt row of Some ready \<Rightarrow> ready \<le> cutoff
           | None \<Rightarrow> dequeued \<le> cutoff))"

definition neverStartedWithoutInstanceEligible :: "ms \<Rightarrow> run_row \<Rightarrow> bool" where
  "neverStartedWithoutInstanceEligible now row \<longleftrightarrow>
     rn_status row \<in> set BOOTING_NO_HEARTBEAT_STATUSES \<and> rn_machineId row = None \<and>
     rn_workerHeartbeatAt row = None \<and> rn_completedAt row = None \<and> rn_canceledAt row = None \<and>
     neverStartedClaimAvailable now row \<and>
     rn_taskPhase row \<noteq> Some ''waiting_for_sandbox_provider'' \<and>
     neverStartedSince (now - NEVER_STARTED_THRESHOLD_MS) row"

text \<open>\<open>managed\<close>: whether the run's provider is one the sleep check manages.\<close>

definition neverStartedWithInstanceEligible :: "bool \<Rightarrow> ms \<Rightarrow> run_row \<Rightarrow> bool" where
  "neverStartedWithInstanceEligible managed now row \<longleftrightarrow>
     rn_status row \<in> set BOOTING_NO_HEARTBEAT_STATUSES \<and> rn_machineId row \<noteq> None \<and>
     rn_snapshotId row = None \<and> rn_snapshotRequestedAt row = None \<and> managed \<and>
     rn_workerHeartbeatAt row = None \<and> rn_completedAt row = None \<and> rn_canceledAt row = None \<and>
     neverStartedClaimAvailable now row \<and>
     neverStartedSince (now - NEVER_STARTED_THRESHOLD_MS) row"

definition claimNeverStartedRun :: "bool \<Rightarrow> ms \<Rightarrow> nat \<Rightarrow> run_row \<Rightarrow> run_db \<Rightarrow> run_db \<times> bool" where
  "claimNeverStartedRun managed now i job db =
     (case update_run i
             (\<lambda>row. rn_status row = rn_status job \<and>
                (case rn_machineId job of
                   None \<Rightarrow> neverStartedWithoutInstanceEligible now row
                 | Some machine \<Rightarrow>
                     rn_machineId row = Some machine \<and>
                     neverStartedWithInstanceEligible managed now row))
             (\<lambda>row. row\<lparr>rn_sleepRequestedAt := Some now\<rparr>) db of
        (db', row) \<Rightarrow> (db', row \<noteq> None))"

definition resolveSweptJobFinalStatus :: "nat \<Rightarrow> run_db \<Rightarrow> run_status" where
  "resolveSweptJobFinalStatus i db =
     (case map_of (rd_runs db) i of
        None \<Rightarrow> Failed
      | Some job \<Rightarrow> if rn_cancelRequestedAt job \<noteq> None then Canceled else Failed)"

text \<open>The claims of a sleep: for a snapshot, and of an instance that cannot be resumed.\<close>

definition sleep_unclaimed :: "run_row \<Rightarrow> bool" where
  "sleep_unclaimed row \<longleftrightarrow>
     rn_sleepRequestedAt row = None \<and> rn_snapshotRequestedAt row = None \<and> rn_snapshotId row = None"

text \<open>\<open>activity\<close>: whether the task's activity is still the expected one.\<close>

definition claimSnapshotSlot ::
    "ms \<Rightarrow> bool \<Rightarrow> nat \<Rightarrow> run_status \<Rightarrow> run_db \<Rightarrow> run_db \<times> bool" where
  "claimSnapshotSlot now activity i status db =
     (case update_run i (\<lambda>row. rn_status row = status \<and> sleep_unclaimed row \<and> activity)
             (\<lambda>row. row\<lparr>rn_sleepRequestedAt := Some now, rn_snapshotRequestedAt := Some now\<rparr>) db of
        (db', row) \<Rightarrow> (db', row \<noteq> None))"

definition claimStandby :: "ms \<Rightarrow> bool \<Rightarrow> nat \<Rightarrow> run_status \<Rightarrow> run_db \<Rightarrow> run_db \<times> bool" where
  "claimStandby now activity i status db =
     (case update_run i (\<lambda>row. rn_status row = status \<and> sleep_unclaimed row \<and> activity)
             (\<lambda>row. row\<lparr>rn_sleepRequestedAt := Some now\<rparr>) db of
        (db', row) \<Rightarrow> (db', row \<noteq> None))"

definition claimShutdown :: "ms \<Rightarrow> nat \<Rightarrow> run_db \<Rightarrow> run_db \<times> bool" where
  "claimShutdown now i db =
     (case update_run i sleep_unclaimed (\<lambda>row. row\<lparr>rn_sleepRequestedAt := Some now\<rparr>) db of
        (db', row) \<Rightarrow> (db', row \<noteq> None))"

text \<open>The ends of a sleep: on standby, shut down, with a snapshot.\<close>

definition completeStandby :: "ms \<Rightarrow> string \<Rightarrow> nat \<Rightarrow> string \<Rightarrow> run_db \<Rightarrow> run_db" where
  "completeStandby now j i resumeHandle db =
     markTaskStartParallelCountEndedAt now i
       (fst (write_run now j i (\<lambda>_. True)
          (\<lambda>row. row\<lparr>rn_snapshotId := Some resumeHandle, rn_snapshotCreatedAt := Some now,
             rn_snapshotFailedAt := None, rn_sleepAt := None, rn_taskPhase := None,
             rn_status := Completed, rn_completedAt := Some now\<rparr>) db))"

definition completeShutdown :: "ms \<Rightarrow> string \<Rightarrow> nat \<Rightarrow> run_db \<Rightarrow> run_db" where
  "completeShutdown now j i db =
     markTaskStartParallelCountEndedAt now i
       (fst (write_run now j i (\<lambda>_. True)
          (\<lambda>row. row\<lparr>rn_sleepAt := None, rn_taskPhase := None, rn_status := Completed,
             rn_completedAt := Some now\<rparr>) db))"

text \<open>
  The snapshot job has read the run as \<open>seen\<close>, for the instance it snapshots; \<open>expected\<close> is the
  snapshot it knew of. The state of the task is derived only where the payload's flag
  \<open>__completeTaskOnSnapshot\<close> (\<open>shouldComplete\<close>) is set.
\<close>

definition completeSnapshot ::
    "ms \<Rightarrow> string \<Rightarrow> bool \<Rightarrow> nat \<Rightarrow> run_row \<Rightarrow> string \<Rightarrow> string option \<Rightarrow> string \<Rightarrow> ms \<Rightarrow> run_db \<Rightarrow>
     run_db \<times> bool" where
  "completeSnapshot now j shouldComplete i seen instanceId expected snapshotId createdAt db =
     (let guard = (\<lambda>row. rn_status row = rn_status seen \<and> rn_machineId row = Some instanceId \<and>
            rn_snapshotId row = expected);
          set_row = (\<lambda>row. row\<lparr>rn_snapshotId := Some snapshotId, rn_snapshotCreatedAt := Some createdAt,
            rn_snapshotFailedAt := None, rn_sleepAt := None, rn_taskPhase := None,
            rn_status := Completed, rn_completedAt := Some now\<rparr>)
      in case (if shouldComplete then write_run now j i guard set_row db
               else update_run i guard set_row db) of
           (db', None) \<Rightarrow> (db', False)
         | (db', Some row) \<Rightarrow> (markTaskStartParallelCountEndedAt now i db', True))"

definition settleUnresumable ::
    "ms \<Rightarrow> string \<Rightarrow> nat \<Rightarrow> run_row \<Rightarrow> string \<Rightarrow> string \<Rightarrow> run_db \<Rightarrow> run_db \<times> bool" where
  "settleUnresumable now j i seen instanceId errorMessage db =
     (if run_exited seen \<or> truthy (rn_snapshotId seen) \<or> rn_machineId seen \<noteq> Some instanceId
      then (db, False)
      else
        case write_run now j i
               (\<lambda>row. rn_status row = rn_status seen \<and> rn_machineId row = Some instanceId \<and>
                  rn_snapshotId row = None)
               (\<lambda>row. row\<lparr>rn_status := (if rn_status seen = Idle then Completed else Failed),
                  rn_error := Some errorMessage, rn_completedAt := Some now\<rparr>) db of
          (db', row) \<Rightarrow> (db', row \<noteq> None))"

end
