(* ===== verification/RunSystem.thy ===== *)
theory RunSystem
  imports RunWorkers
begin

section \<open>Everybody who writes runs, interleaved\<close>

text \<open>
  The step relation of the database with all writers of \<open>RunWriters\<close> and \<open>RunWorkers\<close>, in any order
  and any number, and the sample the witnesses use.
\<close>

subsection \<open>Everybody at work\<close>

text \<open>
  The database, and the calls of \<open>finishRun\<close> that have read their run and not yet written it. Times
  and random ids are whatever they are; a controller dispatches whatever it has read and does not
  refuse; a worker reports the statuses \<open>WORKER_STATUSES\<close>.

  The statements that write other columns of a run only, such as those that give back the claim of a
  sleep or store a snapshot's id, are the one rule \<open>ru_other\<close>.

  In a \<open>routed\<close> system every change of a run that ends it derives the task's state: the cancels from
  Linear, of the web page and of an environment, and the completion of a snapshot without the flag,
  do not take place, and no worker reports progress of a run that has ended.

  In a system with \<open>fresh\<close> entries the queue in Redis hands out only runs that are read as pending or
  dequeued. The code does not check this; it relies on the lock of the run's scope, and on the orphan
  scan, which removes the entry of a run it recovers.
\<close>

definition WORKER_STATUSES :: "run_status list" where
  "WORKER_STATUSES = [Preparing, Spawning, Connecting, Running]"

record run_system =
  ru_db :: run_db
  ru_finishing :: "(nat \<times> run_row \<times> run_status) list"

definition on_db :: "run_db \<Rightarrow> run_system \<Rightarrow> run_system" where
  "on_db db s = s\<lparr>ru_db := db\<rparr>"

inductive runs_step :: "bool \<Rightarrow> bool \<Rightarrow> run_system \<Rightarrow> run_system \<Rightarrow> bool" for routed fresh where
  ru_launch:
    "map_of (rd_runs (ru_db s)) i = None \<Longrightarrow> lo_initialStatus options \<in> {None, Some Pending, Some Dequeued} \<Longrightarrow>
     existing \<or> (\<forall>k row. map_of (rd_runs (ru_db s)) k = Some row \<longrightarrow> rn_taskId row \<noteq> taskId) \<Longrightarrow>
     runs_step routed fresh s (on_db (enqueueTask now j i taskId existing source options (ru_db s)) s)"
| ru_retry:
    "map_of (rd_runs (ru_db s)) i = None \<Longrightarrow> lo_initialStatus options \<in> {None, Some Pending, Some Dequeued} \<Longrightarrow>
     runs_step routed fresh s
       (on_db (fst (retryFailedTaskStart now j i taskId first options (ru_db s))) s)"
| ru_resume:
    "map_of (rd_runs (ru_db s)) i = None \<Longrightarrow> lo_initialStatus options \<in> {None, Some Pending, Some Dequeued} \<Longrightarrow>
     runs_step routed fresh s (on_db (fst (enqueueSnapshotResume now j i first options (ru_db s))) s)"
| ru_enqueue_failed:
    "runs_step routed fresh s (on_db (fst (cancelTaskRunBeforeQueue now j i message (ru_db s))) s)"
| ru_evicted:
    "runs_step routed fresh s (on_db (fst (cancelEvictedTaskRuns now js entries message (ru_db s))) s)"
| ru_cancel_direct:
    "runs_step routed fresh s (on_db (fst (cancelTaskRunDirect now j i error (ru_db s))) s)"
| ru_stop_request: "runs_step routed fresh s (on_db (markCancelRequested now i (ru_db s)) s)"
| ru_cancel: "runs_step routed fresh s (on_db (fst (cancelTask now j i (ru_db s))) s)"
| ru_cancel_linear:
    "\<not> routed \<Longrightarrow> runs_step routed fresh s (on_db (fst (cancelLinearTaskRun now i (ru_db s))) s)"
| ru_cancel_command:
    "\<not> routed \<Longrightarrow> runs_step routed fresh s (on_db (fst (cancelTaskRunCommand now i (ru_db s))) s)"
| ru_cancel_environment:
    "\<not> routed \<Longrightarrow> runs_step routed fresh s (on_db (cancelEnvironmentDefinitionTask now activeRunIds (ru_db s)) s)"
| ru_finish_read:
    "map_of (rd_runs (ru_db s)) i = Some seen \<Longrightarrow> status \<in> set doneRunStatuses \<Longrightarrow>
     runs_step routed fresh s (s\<lparr>ru_finishing := (i, seen, status) # ru_finishing s\<rparr>)"
| ru_finish_write:
    "(i, seen, status) \<in> set (ru_finishing s) \<Longrightarrow>
     runs_step routed fresh s
       (s\<lparr>ru_db := finish_write now j i seen status error errorCode (ru_db s),
          ru_finishing := remove1 (i, seen, status) (ru_finishing s)\<rparr>)"
| ru_finish_dies: "runs_step routed fresh s (s\<lparr>ru_finishing := remove1 call (ru_finishing s)\<rparr>)"
| ru_dispatch:
    "\<not> dispatch_refused seen \<Longrightarrow>
     fresh \<longrightarrow> rn_status seen = Pending \<or> rn_status seen = Dequeued \<Longrightarrow>
     runs_step routed fresh s (on_db (fst (dispatch_write now i seen (ru_db s))) s)"
| ru_orphan: "runs_step routed fresh s (on_db (fst (claimOrphanedTaskRun now (ru_db s))) s)"
| ru_restart: "runs_step routed fresh s (on_db (fst (claimWorkerBootstrapRestart i (ru_db s))) s)"
| ru_bootstrap_failed:
    "runs_step routed fresh s (on_db (fst (claimWorkerBootstrapFailure now j i message (ru_db s))) s)"
| ru_machine: "runs_step routed fresh s (on_db (updateTaskRunMachine i machine url (ru_db s)) s)"
| ru_clear_machine: "runs_step routed fresh s (on_db (clearTaskRunMachine i (ru_db s)) s)"
| ru_worker:
    "runs_step routed fresh s (on_db (fst (workerDequeueTaskRun now j valid i (ru_db s))) s)"
| ru_release: "runs_step routed fresh s (on_db (cancelAndReleaseTaskRun now j i message (ru_db s)) s)"
| ru_progress:
    "status \<in> set WORKER_STATUSES \<Longrightarrow>
     routed \<longrightarrow> row_all i (\<lambda>row. \<not> run_exited row) (rd_runs (ru_db s)) \<Longrightarrow>
     runs_step routed fresh s (on_db (updateTaskRun i (Some status) (ru_db s)) s)"
| ru_phase:
    "runs_step routed fresh s (on_db (updateTaskRunRuntimeState i seen taskPhase sleepAt (ru_db s)) s)"
| ru_heartbeat: "runs_step routed fresh s (on_db (touchTaskRunHeartbeat i now (ru_db s)) s)"
| ru_milestone: "runs_step routed fresh s (on_db (stampTaskRunMilestone i field now (ru_db s)) s)"
| ru_never_started:
    "runs_step routed fresh s (on_db (fst (claimNeverStartedRun managed now i job (ru_db s))) s)"
| ru_snapshot_slot:
    "runs_step routed fresh s (on_db (fst (claimSnapshotSlot now activity i status (ru_db s))) s)"
| ru_standby: "runs_step routed fresh s (on_db (fst (claimStandby now activity i status (ru_db s))) s)"
| ru_shutdown: "runs_step routed fresh s (on_db (fst (claimShutdown now i (ru_db s))) s)"
| ru_standby_done: "runs_step routed fresh s (on_db (completeStandby now j i handle (ru_db s)) s)"
| ru_shutdown_done: "runs_step routed fresh s (on_db (completeShutdown now j i (ru_db s)) s)"
| ru_snapshot_done:
    "routed \<longrightarrow> shouldComplete \<Longrightarrow>
     runs_step routed fresh s
       (on_db (fst (completeSnapshot now j shouldComplete i seen instanceId expected snapshotId
                 createdAt (ru_db s))) s)"
| ru_unresumable:
    "runs_step routed fresh s
       (on_db (fst (settleUnresumable now j i seen instanceId message (ru_db s))) s)"
| ru_other:
    "(\<And>row. rn_taskId (f row) = rn_taskId row \<and> rn_status (f row) = rn_status row \<and>
       rn_startedAt (f row) = rn_startedAt row) \<Longrightarrow>
     runs_step routed fresh s (on_db (fst (update_run i p f (ru_db s))) s)"

definition run_start :: "judgment_db \<Rightarrow> (string \<times> string) list \<Rightarrow> run_system" where
  "run_start judgments sessionTasks =
     \<lparr>ru_db = \<lparr>rd_runs = [], rd_tasks = [], rd_parallel = [], rd_events = [],
                rd_sessionTasks = sessionTasks, rd_judgments = judgments\<rparr>,
      ru_finishing = []\<rparr>"

inductive run_reachable :: "bool \<Rightarrow> bool \<Rightarrow> run_system \<Rightarrow> bool" for routed fresh where
  ru_start: "run_reachable routed fresh (run_start judgments sessionTasks)"
| ru_next: "run_reachable routed fresh s \<Longrightarrow> runs_step routed fresh s t \<Longrightarrow> run_reachable routed fresh t"

text \<open>How often a worker has started the run.\<close>

definition worker_starts :: "nat \<Rightarrow> run_db \<Rightarrow> nat" where
  "worker_starts i db =
     length (filter (\<lambda>ev. ev_runId ev = i \<and> ev_stage ev = ''worker_bootstrap'') (rd_events db))"

subsection \<open>A sample\<close>

text \<open>
  Run 7 of a task is dispatched, started by its worker and completed; run 8, a resume from its
  snapshot, is canceled before it starts.
\<close>

definition plain_launch :: launch_options where
  "plain_launch = \<lparr>lo_initialStatus = None, lo_initialTaskPhase = None, lo_initialError = None\<rparr>"

definition sample_start :: run_system where
  "sample_start =
     run_start \<lparr>jd_sessions = [], jd_rows = [], jd_deliveries = [], jd_settings = None\<rparr> []"

definition sample_row :: "run_system \<Rightarrow> run_row" where
  "sample_row s = the (map_of (rd_runs (ru_db s)) 7)"

definition sample_launched :: run_system where
  "sample_launched =
     on_db (enqueueTask 100 ''j'' 7 ''t'' False None plain_launch (ru_db sample_start)) sample_start"

definition sample_dispatched :: run_system where
  "sample_dispatched =
     on_db (fst (dispatch_write 200 7 (sample_row sample_launched) (ru_db sample_launched)))
       sample_launched"

definition sample_started :: run_system where
  "sample_started =
     on_db (fst (workerDequeueTaskRun 300 ''j'' True 7 (ru_db sample_dispatched))) sample_dispatched"

definition sample_finishing :: run_system where
  "sample_finishing =
     sample_started\<lparr>ru_finishing := (7, sample_row sample_started, Completed) # ru_finishing sample_started\<rparr>"

definition sample_finished :: run_system where
  "sample_finished =
     sample_finishing
       \<lparr>ru_db := finish_write 400 ''j'' 7 (sample_row sample_started) Completed None None
                  (ru_db sample_finishing),
        ru_finishing := remove1 (7, sample_row sample_started, Completed) (ru_finishing sample_finishing)\<rparr>"

definition sample_resumed :: run_system where
  "sample_resumed =
     on_db (fst (enqueueSnapshotResume 500 ''j'' 8 7 plain_launch (ru_db sample_finished))) sample_finished"

definition sample_canceled :: run_system where
  "sample_canceled = on_db (fst (cancelTask 600 ''j'' 8 (ru_db sample_resumed))) sample_resumed"

lemma sample_launched_reachable: "run_reachable routed fresh sample_launched"
  unfolding sample_launched_def
  by (rule ru_next [OF ru_start [of routed fresh "\<lparr>jd_sessions = [], jd_rows = [], jd_deliveries = [],
      jd_settings = None\<rparr>" "[]", folded sample_start_def]], rule ru_launch)
    (simp_all add: sample_start_def run_start_def plain_launch_def)

lemma sample_dispatched_reachable: "run_reachable routed fresh sample_dispatched"
  unfolding sample_dispatched_def
  by (rule ru_next [OF sample_launched_reachable], rule ru_dispatch) (code_simp, rule impI, code_simp)

lemma sample_started_reachable: "run_reachable routed fresh sample_started"
  unfolding sample_started_def by (rule ru_next [OF sample_dispatched_reachable], rule ru_worker)

lemma sample_finished_reachable: "run_reachable routed fresh sample_finished"
proof -
  have "runs_step routed fresh sample_started sample_finishing"
    unfolding sample_finishing_def by (rule ru_finish_read; code_simp)
  moreover have "runs_step routed fresh sample_finishing sample_finished"
    unfolding sample_finished_def by (rule ru_finish_write) (simp add: sample_finishing_def)
  ultimately show ?thesis using sample_started_reachable by (blast intro: ru_next)
qed

lemma sample_resumes: "(runs_step routed fresh)\<^sup>*\<^sup>* sample_finished sample_canceled"
proof -
  have "runs_step routed fresh sample_finished sample_resumed"
    unfolding sample_resumed_def by (rule ru_resume; code_simp)
  moreover have "runs_step routed fresh sample_resumed sample_canceled"
    unfolding sample_canceled_def by (rule ru_cancel)
  ultimately show ?thesis by (meson rtranclp.simps)
qed

lemma run_steps_reachable: "(runs_step routed fresh)\<^sup>*\<^sup>* s t \<Longrightarrow> run_reachable routed fresh s \<Longrightarrow> run_reachable routed fresh t"
  by (induction rule: rtranclp_induct) (auto intro: ru_next)

lemmas sample_canceled_reachable = run_steps_reachable [OF sample_resumes sample_finished_reachable]

text \<open>
  What the fresh entries are for: a stale entry of a run that is at work is dispatched, which puts the
  run back to the queue, and a second worker starts it.
\<close>

definition sample_stale :: run_system where
  "sample_stale =
     on_db (fst (dispatch_write 320 7 (sample_row sample_started) (ru_db sample_started))) sample_started"

definition sample_twice :: run_system where
  "sample_twice = on_db (fst (workerDequeueTaskRun 340 ''j'' True 7 (ru_db sample_stale))) sample_stale"

lemma stale_entry_starts_a_run_twice:
  "run_reachable True False sample_twice \<and> worker_starts 7 (ru_db sample_twice) = 2"
proof
  have "run_reachable True False sample_stale"
    unfolding sample_stale_def
    by (rule ru_next [OF sample_started_reachable], rule ru_dispatch) (code_simp, simp)
  then show "run_reachable True False sample_twice"
    unfolding sample_twice_def by (rule ru_next) (rule ru_worker)
  show "worker_starts 7 (ru_db sample_twice) = 2" by code_simp
qed

end
