(* ===== verification/RunEffects.thy ===== *)
theory RunEffects
  imports RunSystem
begin

section \<open>What each writer of a run does\<close>

text \<open>
  For every writer: it keeps all runs and, if it is routed through the derivation, the tasks'
  states (\<open>derives\<close>); and it does not put a run back to the queue once a worker has it, or once it
  has ended (\<open>begins\<close>).
\<close>

subsection \<open>The states of tasks are derived\<close>

lemma states_ok_tables: "states_ok db \<Longrightarrow> tables_ok db"
  by (simp add: states_ok_def)

lemma state_runs_insert:
  assumes "map_of (rd_runs db) i = None"
  shows "state_runs t (rd_runs (insert_run i row db)) =
    state_runs t (rd_runs db) @ (if rn_taskId row = t then [state_run_of i row] else [])"
  using assms by (simp add: insert_run_def insert_fresh_row state_runs_alt select_rows_def)

lemma insert_run_tables:
  "tables_ok db \<Longrightarrow> tables_ok (insert_run i row db)"
  by (simp add: tables_ok_def insert_run_def)

lemma insert_run_other:
  assumes "map_of (rd_runs db) i = None" "fresh_state db t" "rn_taskId row \<noteq> t"
  shows "fresh_state (insert_run i row db) t"
  using assms(2,3) unfolding fresh_state_def state_runs_insert [OF assms(1)]
  by (simp add: insert_run_def)

lemma insert_run_sync:
  assumes "states_ok db" "map_of (rd_runs db) i = None" "rn_taskId row = t"
  shows "states_ok (syncTaskStateFromRuns now j t (insert_run i row db))"
proof (rule states_ok_sync [OF insert_run_tables [OF states_ok_tables [OF assms(1)]]])
  fix t'
  assume "t' \<noteq> t"
  then show "fresh_state (insert_run i row db) t'"
    using assms by (intro insert_run_other) (auto simp: states_ok_def)
qed

lemma new_run_simps [simp]:
  "rn_taskId (new_run now t r src st) = t"
  "rn_startedAt (new_run now t r src st) = None"
  "rn_status (new_run now t r src st) = nullish_or (lo_initialStatus st) Pending"
  by (simp_all add: new_run_def)

lemma enqueue_states:
  assumes "states_ok db" "map_of (rd_runs db) i = None" "lo_initialStatus st \<in> {None, Some Pending, Some Dequeued}"
    "existing \<or> (\<forall>k row. map_of (rd_runs db) k = Some row \<longrightarrow> rn_taskId row \<noteq> t)"
  shows "states_ok (enqueueTask now j i t existing src st db)"
proof (cases existing)
  case True
  then show ?thesis using insert_run_sync [OF assms(1,2)] by (simp add: enqueueTask_def)
next
  case False
  let ?new = "new_run now t False src st"
  let ?db = "db\<lparr>rd_tasks := insert_row t \<lparr>tk_state = TaskActive, tk_updatedAt = now\<rparr> (rd_tasks db)\<rparr>"
  have tables: "tables_ok db" by (rule states_ok_tables [OF assms(1)])
  have none: "state_runs t (rd_runs db) = []"
  proof -
    have "rn_taskId row \<noteq> t" if "(k, row) \<in> set (rd_runs db)" for k row
      using False assms(4) tables that by (simp add: tables_ok_def jsmap_values_iff)
    then have "select_rows (\<lambda>r. rn_taskId r = t) (rd_runs db) = []"
      by (auto simp: select_rows_def filter_empty_conv)
    then show ?thesis by (simp add: state_runs_alt)
  qed
  have "states_ok (insert_run i ?new ?db)"
    unfolding states_ok_def
  proof (intro conjI allI)
    show "tables_ok (insert_run i ?new ?db)"
      using tables by (intro insert_run_tables) (simp add: tables_ok_def)
    fix t'
    show "fresh_state (insert_run i ?new ?db) t'"
    proof (cases "t' = t")
      case True
      have "state_runs t (rd_runs (insert_run i ?new ?db)) = [state_run_of i ?new]"
        using state_runs_insert [of ?db i t ?new] assms(2) none by simp
      moreover have "deriveTaskStateFromRuns [state_run_of i ?new] = Some TaskActive"
        by (rule derive_active)
          (use assms(3) in \<open>auto simp: state_run_of_def NON_TERMINAL_RUN_STATUSES_def\<close>)
      ultimately show ?thesis
        by (auto simp: fresh_state_def True insert_run_def table_ops)
    next
      case False
      have "fresh_state db t'" using assms(1) by (simp add: states_ok_def)
      then have "fresh_state ?db t'" using False by (simp add: fresh_state_def table_ops)
      then show ?thesis using assms(2) False by (intro insert_run_other) auto
    qed
  qed
  then show ?thesis using False by (simp add: enqueueTask_def)
qed

lemma sync_canceled_states:
  assumes "tables_ok db"
    "\<And>t. fresh_state db t \<or> (\<exists>i \<in> set is. \<exists>row. map_of (rd_runs db) i = Some row \<and> rn_taskId row = t)"
  shows "states_ok (sync_canceled now js is db)"
  using assms
proof (induction now js "is" db rule: sync_canceled.induct)
  case (1 now js db)
  then show ?case by (simp add: states_ok_def)
next
  case (2 now js i "is" db)
  show ?case
  proof (cases "map_of (rd_runs db) i")
    case None
    have "states_ok (sync_canceled now (tl js) is db)"
      by (rule "2.IH"(1) [OF None "2.prems"(1)]) (use "2.prems"(2) None in fastforce)
    then show ?thesis using None by simp
  next
    case (Some row)
    let ?db = "markTaskStartParallelCountEndedAt now i
      (syncTaskStateFromRuns now (hd js) (rn_taskId row) db)"
    have fresh: "fresh_state ?db t = fresh_state (syncTaskStateFromRuns now (hd js) (rn_taskId row) db) t" for t
      by (rule fresh_cong) simp_all
    have "states_ok (sync_canceled now (tl js) is ?db)"
    proof (rule "2.IH"(2) [OF Some])
      show "tables_ok ?db" using "2.prems"(1) sync_tables by (simp add: tables_ok_def sync_tasks split: option.split)
      fix t
      show "fresh_state ?db t \<or>
          (\<exists>i \<in> set is. \<exists>row. map_of (rd_runs ?db) i = Some row \<and> rn_taskId row = t)"
      proof (cases "t = rn_taskId row")
        case True
        then show ?thesis using sync_fresh by (simp add: fresh)
      next
        case False
        then show ?thesis using "2.prems"(2) [of t] Some by (auto simp: fresh sync_other)
      qed
    qed
    then show ?thesis using Some by simp
  qed
qed

lemma canceled_before_queue_taskId [simp]:
  "rn_taskId (canceled_before_queue now message row) = rn_taskId row"
  by (simp add: canceled_before_queue_def)

lemma evicted_states:
  assumes "states_ok db"
  shows "states_ok (fst (cancelEvictedTaskRuns now js entries message db))"
proof -
  let ?p = "\<lambda>row. rn_status row = Pending" and ?f = "canceled_before_queue now message"
  have tables: "tables_ok db" and keys: "jsmap_ok (rd_runs db)"
    using states_ok_tables [OF assms] by (simp_all add: tables_ok_def)
  obtain runs canceled where u: "update_ids entries ?p ?f (rd_runs db) = (runs, canceled)"
    by (rule prod.exhaust)
  have runs: "runs = map (\<lambda>(k, r). (k, if k \<in> set entries \<and> ?p r then ?f r else r)) (rd_runs db)"
    using u by (simp add: update_ids_def)
  have rows: "map_of runs k = map_option (\<lambda>r. if k \<in> set entries \<and> ?p r then ?f r else r)
      (map_of (rd_runs db) k)" for k
    using map_of_update_ids [of entries ?p ?f "rd_runs db" k] by (simp add: u)
  have "states_ok (sync_canceled now js canceled (db\<lparr>rd_runs := runs\<rparr>))"
  proof (rule sync_canceled_states)
    show "tables_ok (db\<lparr>rd_runs := runs\<rparr>)"
      using tables jsmap_ok_update_ids [of entries ?p ?f "rd_runs db"] by (simp add: tables_ok_def u)
    fix t
    show "fresh_state (db\<lparr>rd_runs := runs\<rparr>) t \<or>
        (\<exists>i \<in> set canceled. \<exists>row. map_of (rd_runs (db\<lparr>rd_runs := runs\<rparr>)) i = Some row \<and>
           rn_taskId row = t)"
    proof (cases "\<exists>i r. map_of (rd_runs db) i = Some r \<and> i \<in> set entries \<and> ?p r \<and> rn_taskId r = t")
      case True
      then obtain i r where r: "map_of (rd_runs db) i = Some r" "i \<in> set entries" "?p r" "rn_taskId r = t"
        by blast
      have "i \<in> set canceled"
        using snd_update_ids [OF keys, of i entries ?p ?f] r u by simp
      moreover have "map_of runs i = Some (?f r)" using r by (simp add: rows)
      ultimately show ?thesis using r(4) by (intro disjI2 bexI [of _ i] exI [of _ "?f r"]) simp_all
    next
      case False
      have "state_runs t runs = state_runs t (rd_runs db)"
        unfolding runs by (rule state_runs_cong) (use False in \<open>auto simp: jsmap_values_iff [OF keys]\<close>)
      then show ?thesis using assms by (simp add: states_ok_def fresh_state_def)
    qed
  qed
  then show ?thesis by (simp add: cancelEvictedTaskRuns_def u)
qed

lemma finish_row_taskId [simp]: "rn_taskId (finish_row now seen st e c row) = rn_taskId row"
  by (simp add: finish_row_def)

lemma finish_write_states:
  assumes "states_ok db" "map_of (rd_runs db) i = Some row" "rn_taskId row = rn_taskId seen"
  shows "states_ok (finish_write now j i seen st e c db)"
proof -
  obtain db1 r where u: "update_run i (\<lambda>_. True) (finish_row now seen (finish_status seen st) e c) db = (db1, r)"
    by (rule prod.exhaust)
  have "states_ok (syncTaskStateFromRuns now j (rn_taskId seen)
     (fst (update_run i (\<lambda>_. True) (finish_row now seen (finish_status seen st) e c) db)))"
  proof (rule states_ok_sync [OF update_run_tables [OF states_ok_tables [OF assms(1)]]])
    fix t'
    assume "t' \<noteq> rn_taskId seen"
    then show "fresh_state (fst (update_run i (\<lambda>_. True)
        (finish_row now seen (finish_status seen st) e c) db)) t'"
      using assms by (intro update_run_other [OF states_ok_tables [OF assms(1)]]) (auto simp: states_ok_def)
  qed
  then show ?thesis by (simp add: finish_write_def u)
qed

subsection \<open>No run is lost\<close>

definition keeps_runs :: "run_db \<Rightarrow> run_db \<Rightarrow> bool" where
  "keeps_runs db db' \<longleftrightarrow>
     (\<forall>i row. map_of (rd_runs db) i = Some row \<longrightarrow>
        (\<exists>row'. map_of (rd_runs db') i = Some row' \<and> rn_taskId row' = rn_taskId row))"

lemma keeps_refl: "rd_runs db' = rd_runs db \<Longrightarrow> keeps_runs db db'"
  by (simp add: keeps_runs_def)

lemma keeps_trans: "keeps_runs db db1 \<Longrightarrow> keeps_runs db1 db2 \<Longrightarrow> keeps_runs db db2"
  unfolding keeps_runs_def by metis

lemma keeps_cong: "rd_runs db2 = rd_runs db1 \<Longrightarrow> keeps_runs db db2 = keeps_runs db db1"
  by (simp add: keeps_runs_def)

lemma keeps_update_run:
  "(\<And>row. rn_taskId (f row) = rn_taskId row) \<Longrightarrow> keeps_runs db (fst (update_run i p f db))"
  by (auto simp: keeps_runs_def map_of_update_run)

lemma write_run_runs: "rd_runs (fst (write_run now j i p f db)) = rd_runs (fst (update_run i p f db))"
  by (auto simp: write_run_def update_run_def update_where_def split: option.split prod.split if_splits)

lemma snd_write_run: "snd (write_run now j i p f db) = snd (update_run i p f db)"
  by (auto simp: write_run_def update_run_def split: option.split prod.split)

lemma write_run_events [simp]: "rd_events (fst (write_run now j i p f db)) = rd_events db"
  by (auto simp: write_run_def split: option.split prod.split)

lemma keeps_write_run:
  "(\<And>row. rn_taskId (f row) = rn_taskId row) \<Longrightarrow> keeps_runs db (fst (write_run now j i p f db))"
  using keeps_update_run by (simp add: keeps_cong [OF write_run_runs])

lemma keeps_insert_run: "map_of (rd_runs db) i = None \<Longrightarrow> keeps_runs db (insert_run i row db)"
  by (auto simp: keeps_runs_def insert_run_def map_of_insert_row)

lemma sync_canceled_fields:
  "rd_runs (sync_canceled now js is db) = rd_runs db"
  "rd_events (sync_canceled now js is db) = rd_events db"
  by (induction now js "is" db rule: sync_canceled.induct) (simp_all split: option.split)

text \<open>The operations that are one statement on the run, whatever else they do.\<close>

lemma fst_case_option:
  "fst (case x of None \<Rightarrow> (a, b) | Some r \<Rightarrow> (f r, c r)) = (case x of None \<Rightarrow> a | Some r \<Rightarrow> f r)"
  by (simp split: option.split)

lemma write_runs:
  "fst (cancelTaskRunBeforeQueue now j i m db) =
     fst (write_run now j i (\<lambda>row. rn_status row = Pending) (canceled_before_queue now m) db)"
  "fst (claimWorkerBootstrapFailure now j i m db) =
     fst (write_run now j i unclaimed_run (\<lambda>row. row\<lparr>rn_status := Failed, rn_error := Some m,
       rn_completedAt := Some now\<rparr>) db)"
  by (simp_all add: cancelTaskRunBeforeQueue_def claimWorkerBootstrapFailure_def split: prod.split)

text \<open>A step that keeps every run, and every task's state derived.\<close>

definition derives :: "run_db \<Rightarrow> run_db \<Rightarrow> bool" where
  "derives db db' \<longleftrightarrow> keeps_runs db db' \<and> (states_ok db \<longrightarrow> states_ok db')"

lemma derives_same: "rd_runs db' = rd_runs db \<Longrightarrow> rd_tasks db' = rd_tasks db \<Longrightarrow> derives db db'"
  using keeps_refl [of db' db] states_ok_cong [of db' db] by (simp add: derives_def)

lemma derives_trans: "derives db db1 \<Longrightarrow> derives db1 db2 \<Longrightarrow> derives db db2"
  unfolding derives_def by (blast intro: keeps_trans)

lemma derives_mark [simp]:
  "derives db (markTaskStartParallelCountEndedAt now i db') = derives db db'"
  by (simp add: derives_def keeps_cong [OF mark_fields(1)])

lemma derives_event [simp]: "derives db (recordTaskRunLifecycleEvent i ty st db') = derives db db'"
  by (simp add: derives_def keeps_cong [OF event_fields(1)])

lemma derives_write:
  "(\<And>row. rn_taskId (f row) = rn_taskId row) \<Longrightarrow> derives db (fst (write_run now j i p f db))"
  unfolding derives_def by (blast intro: keeps_write_run write_run_states)

lemma derives_write_pair:
  "write_run now j i p f db = (db', r) \<Longrightarrow> (\<And>row. rn_taskId (f row) = rn_taskId row) \<Longrightarrow> derives db db'"
  using derives_write [of f db now j i p] by simp

lemma derives_update:
  assumes "\<And>row. rn_taskId (f row) = rn_taskId row"
    "\<And>row. map_of (rd_runs db) i = Some row \<Longrightarrow> p row \<Longrightarrow>
       rn_status (f row) = rn_status row \<and> rn_startedAt (f row) = rn_startedAt row \<or>
       \<not> run_exited row \<and> \<not> run_exited (f row)"
  shows "derives db (fst (update_run i p f db))"
  unfolding derives_def using keeps_update_run [of f] update_run_states [of db f i p] assms by blast

lemma derives_update_pair:
  assumes "update_run i p f db = (db', r)" "\<And>row. rn_taskId (f row) = rn_taskId row"
    "\<And>row. map_of (rd_runs db) i = Some row \<Longrightarrow> p row \<Longrightarrow>
       rn_status (f row) = rn_status row \<and> rn_startedAt (f row) = rn_startedAt row \<or>
       \<not> run_exited row \<and> \<not> run_exited (f row)"
  shows "derives db db'"
  using derives_update [of f db i p] assms by simp

lemma derives_insert:
  assumes "map_of (rd_runs db) i = None" "rn_taskId row = t"
  shows "derives db (syncTaskStateFromRuns now j t (insert_run i row db))"
  unfolding derives_def
  using keeps_insert_run [OF assms(1), of row] insert_run_sync [OF _ assms]
  by (simp add: keeps_cong [OF sync_fields(1)])

lemmas live_simps = run_exited_def exitedRunStatuses_def

subsection \<open>Every routed step derives\<close>

lemma enqueue_derives:
  assumes "map_of (rd_runs db) i = None" "lo_initialStatus st \<in> {None, Some Pending, Some Dequeued}"
    "existing \<or> (\<forall>k row. map_of (rd_runs db) k = Some row \<longrightarrow> rn_taskId row \<noteq> t)"
  shows "derives db (enqueueTask now j i t existing src st db)"
  using enqueue_states [OF _ assms] assms(1)
  by (auto simp: derives_def enqueueTask_def keeps_runs_def insert_run_def map_of_insert_row)

lemma retry_derives:
  "map_of (rd_runs db) i = None \<Longrightarrow> derives db (fst (retryFailedTaskStart now j i t src st db))"
  by (auto simp: retryFailedTaskStart_def derives_same derives_insert split: list.split)

lemma resume_derives:
  "map_of (rd_runs db) i = None \<Longrightarrow> derives db (fst (enqueueSnapshotResume now j i src st db))"
  by (auto simp: enqueueSnapshotResume_def derives_same derives_insert split: option.split)

lemma evicted_derives: "derives db (fst (cancelEvictedTaskRuns now js entries m db))"
proof -
  obtain runs canceled where u: "update_ids entries (\<lambda>row. rn_status row = Pending)
      (canceled_before_queue now m) (rd_runs db) = (runs, canceled)"
    by (rule prod.exhaust)
  have "keeps_runs db (fst (cancelEvictedTaskRuns now js entries m db))"
    using map_of_update_ids [of entries "\<lambda>row. rn_status row = Pending"
        "canceled_before_queue now m" "rd_runs db"]
    by (auto simp: keeps_runs_def cancelEvictedTaskRuns_def sync_canceled_fields u)
  then show ?thesis using evicted_states by (simp add: derives_def)
qed

lemma finish_write_runs:
  "rd_runs (finish_write now j i seen st e c db) =
     rd_runs (fst (update_run i (\<lambda>_. True) (finish_row now seen (finish_status seen st) e c) db))"
  by (simp add: finish_write_def Let_def split: prod.split)

lemma finish_derives:
  assumes "map_of (rd_runs db) i = Some row" "rn_taskId row = rn_taskId seen"
  shows "derives db (finish_write now j i seen st e c db)"
proof -
  have "keeps_runs db (finish_write now j i seen st e c db)"
    using keeps_update_run [of "finish_row now seen (finish_status seen st) e c" db i "\<lambda>_. True"]
    by (simp add: keeps_cong [OF finish_write_runs])
  then show ?thesis using finish_write_states [OF _ assms] by (simp add: derives_def)
qed

lemma cancel_derives:
  "derives db (fst (cancelTaskRunDirect now j i e db))"
  "derives db (fst (cancelTask now j i db))"
  "derives db (fst (cancelTaskRunBeforeQueue now j i m db))"
  "derives db (fst (claimWorkerBootstrapFailure now j i m db))"
  "derives db (cancelTaskRun now j i m db)"
  "derives db (completeStandby now j i h db)"
  "derives db (completeShutdown now j i db)"
  by (auto simp: cancelTaskRunDirect_def cancelTask_def write_runs cancelTaskRun_def
      completeStandby_def completeShutdown_def intro!: derives_write dest: derives_write_pair
      split: prod.split option.split)

lemma snapshot_derives: "derives db (fst (completeSnapshot now j True i seen m ex sn t db))"
  by (auto simp: completeSnapshot_def Let_def dest!: derives_write_pair split: prod.split option.split)

lemma settle_derives: "derives db (fst (settleUnresumable now j i seen m e db))"
  by (auto simp: settleUnresumable_def derives_same dest!: derives_write_pair split: prod.split)

lemma orphan_derives:
  assumes "tables_ok db"
  shows "derives db (fst (claimOrphanedTaskRun now db))"
proof (cases "sort_key (\<lambda>(i, row). rn_createdAt row) (select_rows (orphaned_run now) (rd_runs db))")
  case Nil
  then show ?thesis by (simp add: claimOrphanedTaskRun_def derives_same)
next
  case (Cons x rest)
  obtain i row where x: "x = (i, row)" by (cases x)
  have row: "map_of (rd_runs db) i = Some row" "orphaned_run now row"
    using select_first [of "rd_runs db"] assms Cons by (auto simp: x tables_ok_def)
  have "derives db (fst (update_run i (\<lambda>_. True)
      (\<lambda>row. row\<lparr>rn_status := Dequeued, rn_dequeuedAt := Some now\<rparr>) db))"
    by (rule derives_update) (use row in \<open>auto simp: orphaned_run_def live_simps\<close>)
  then show ?thesis by (simp add: claimOrphanedTaskRun_def Cons x)
qed

lemma restart_derives: "derives db (fst (claimWorkerBootstrapRestart i db))"
  by (auto simp: claimWorkerBootstrapRestart_def derives_same row_is_def unclaimed_run_def live_simps
      intro!: derives_update)

lemma dispatch_derives:
  assumes "\<not> dispatch_refused seen"
  shows "derives db (fst (dispatch_write now i seen db))"
  using assms
  by (auto simp: dispatch_refused_def dispatch_write_def live_simps elim!: derives_update_pair split: prod.split option.split)

lemma claim_row:
  assumes "claimJobById i db = (db', Some taskRun)"
  shows "\<exists>row. map_of (rd_runs db') i = Some row \<and> rn_status row = Processing"
proof -
  have "db' = fst (claimJobById i db)" "snd (claimJobById i db) = Some taskRun" using assms by simp_all
  then show ?thesis
    unfolding claimJobById_def snd_update_run by (auto simp: map_of_update_run snd_update_where)
qed

lemma worker_derives: "derives db (fst (workerDequeueTaskRun now j valid i db))"
proof (cases "claimJobById i db")
  case (Pair db' claimed)
  have claim: "derives db db'"
    using Pair unfolding claimJobById_def by (rule derives_update_pair) (auto simp: live_simps)
  show ?thesis
  proof (cases claimed)
    case None
    then show ?thesis using claim by (simp add: workerDequeueTaskRun_def Pair)
  next
    case (Some taskRun)
    have "derives db' (fst (update_run i (\<lambda>_. True) (\<lambda>row. row\<lparr>rn_startedAt := Some now\<rparr>) db'))"
      by (rule derives_update) (use claim_row Pair Some in \<open>force simp: live_simps\<close>)+
    then show ?thesis
      using claim cancel_derives(5) by (auto simp: workerDequeueTaskRun_def Pair Some intro: derives_trans)
  qed
qed

lemma quiet_derives:
  "derives db (markCancelRequested now i db)"
  "derives db (updateTaskRunMachine i m u db)"
  "derives db (clearTaskRunMachine i db)"
  "derives db (updateTaskRunRuntimeState i seen ph sl db)"
  "derives db (touchTaskRunHeartbeat i now db)"
  "derives db (stampTaskRunMilestone i field now db)"
  "derives db (fst (claimNeverStartedRun managed now i job db))"
  "derives db (fst (claimSnapshotSlot now act i st db))"
  "derives db (fst (claimStandby now act i st db))"
  "derives db (fst (claimShutdown now i db))"
  by (auto simp: markCancelRequested_def updateTaskRunMachine_def clearTaskRunMachine_def
      updateTaskRunRuntimeState_def touchTaskRunHeartbeat_def stampTaskRunMilestone_def
      claimNeverStartedRun_def claimSnapshotSlot_def claimStandby_def claimShutdown_def derives_same
      intro!: derives_update elim!: derives_update_pair split: milestone.split prod.split)

lemma progress_derives:
  assumes "st \<in> set WORKER_STATUSES" "row_all i (\<lambda>row. \<not> run_exited row) (rd_runs db)"
  shows "derives db (updateTaskRun i (Some st) db)"
  unfolding updateTaskRun_def
  by (rule derives_update) (use assms in \<open>auto simp: row_all_def WORKER_STATUSES_def live_simps\<close>)

subsection \<open>A run is started once\<close>

definition settled_run :: "run_db \<Rightarrow> nat \<Rightarrow> bool" where
  "settled_run db i \<longleftrightarrow>
     (\<exists>row. map_of (rd_runs db) i = Some row \<and> rn_status row \<noteq> Pending \<and> rn_status row \<noteq> Dequeued)"

definition begins :: "run_db \<Rightarrow> run_db \<Rightarrow> bool" where
  "begins db db' \<longleftrightarrow>
     (\<forall>i. (settled_run db i \<longrightarrow> settled_run db' i) \<and>
        (worker_starts i db' = worker_starts i db \<or>
         \<not> settled_run db i \<and> settled_run db' i \<and> worker_starts i db' = Suc (worker_starts i db)))"

lemma begins_same: "rd_runs db' = rd_runs db \<Longrightarrow> rd_events db' = rd_events db \<Longrightarrow> begins db db'"
  by (simp add: begins_def settled_run_def worker_starts_def)

lemma begins_cong:
  "rd_runs db2 = rd_runs db1 \<Longrightarrow> rd_events db2 = rd_events db1 \<Longrightarrow> begins db db2 = begins db db1"
  by (simp add: begins_def settled_run_def worker_starts_def)

lemma begins_trans:
  assumes "begins db db1" "begins db1 db2"
  shows "begins db db2"
  unfolding begins_def
proof
  fix i
  show "(settled_run db i \<longrightarrow> settled_run db2 i) \<and>
        (worker_starts i db2 = worker_starts i db \<or>
         \<not> settled_run db i \<and> settled_run db2 i \<and> worker_starts i db2 = Suc (worker_starts i db))"
    using assms [unfolded begins_def, THEN spec, of i] by auto
qed

lemma begins_mark [simp]: "begins db (markTaskStartParallelCountEndedAt now i db') = begins db db'"
  by (rule begins_cong) simp_all

lemma begins_event [simp]:
  "st \<noteq> ''worker_bootstrap'' \<Longrightarrow>
   begins db (recordTaskRunLifecycleEvent i ty st db') = begins db db'"
  by (simp add: begins_def settled_run_def worker_starts_def)

lemma begins_sync [simp]: "begins db (syncTaskStateFromRuns now j t db') = begins db db'"
  by (rule begins_cong) simp_all

lemma begins_update:
  assumes "\<And>row. map_of (rd_runs db) i = Some row \<Longrightarrow> p row \<Longrightarrow>
     rn_status row \<noteq> Pending \<Longrightarrow> rn_status row \<noteq> Dequeued \<Longrightarrow>
     rn_status (f row) \<noteq> Pending \<and> rn_status (f row) \<noteq> Dequeued"
  shows "begins db (fst (update_run i p f db))"
  using assms by (auto simp: begins_def settled_run_def worker_starts_def map_of_update_run)

lemma begins_write:
  assumes "\<And>row. map_of (rd_runs db) i = Some row \<Longrightarrow> p row \<Longrightarrow>
     rn_status row \<noteq> Pending \<Longrightarrow> rn_status row \<noteq> Dequeued \<Longrightarrow>
     rn_status (f row) \<noteq> Pending \<and> rn_status (f row) \<noteq> Dequeued"
  shows "begins db (fst (write_run now j i p f db))"
  using begins_update [of db i p f] assms
    begins_cong [OF write_run_runs, of now j i p f db] by simp

lemma begins_update_pair:
  assumes "update_run i p f db = (db', r)"
    "\<And>row. map_of (rd_runs db) i = Some row \<Longrightarrow> p row \<Longrightarrow>
     rn_status row \<noteq> Pending \<Longrightarrow> rn_status row \<noteq> Dequeued \<Longrightarrow>
     rn_status (f row) \<noteq> Pending \<and> rn_status (f row) \<noteq> Dequeued"
  shows "begins db db'"
  using begins_update [of db i p f] assms by simp

lemma begins_write_pair:
  assumes "write_run now j i p f db = (db', r)"
    "\<And>row. map_of (rd_runs db) i = Some row \<Longrightarrow> p row \<Longrightarrow>
     rn_status row \<noteq> Pending \<Longrightarrow> rn_status row \<noteq> Dequeued \<Longrightarrow>
     rn_status (f row) \<noteq> Pending \<and> rn_status (f row) \<noteq> Dequeued"
  shows "begins db db'"
  using begins_write [of db i p f now j] assms by simp

lemma begins_insert:
  assumes "map_of (rd_runs db) i = None"
  shows "begins db (insert_run i row db)"
  using assms
  by (auto simp: begins_def settled_run_def worker_starts_def insert_run_def map_of_insert_row)

lemma launch_begins:
  assumes "map_of (rd_runs db) i = None"
  shows "begins db (enqueueTask now j i t existing src st db)"
    "begins db (fst (retryFailedTaskStart now j i t first st db))"
    "begins db (fst (enqueueSnapshotResume now j i first st db))"
proof -
  show "begins db (enqueueTask now j i t existing src st db)"
  proof (cases existing)
    case False
    have "begins db (insert_run i (new_run now t False src st) db)" using assms by (rule begins_insert)
    then show ?thesis
      using False by (simp add: enqueueTask_def begins_def settled_run_def worker_starts_def insert_run_def)
  qed (use assms in \<open>simp add: enqueueTask_def begins_insert\<close>)
  show "begins db (fst (retryFailedTaskStart now j i t first st db))"
    using assms by (auto simp: retryFailedTaskStart_def begins_same begins_insert split: list.split)
  show "begins db (fst (enqueueSnapshotResume now j i first st db))"
    using assms by (auto simp: enqueueSnapshotResume_def begins_same begins_insert split: option.split)
qed

lemma update_ids_begins:
  assumes "\<And>row. p row \<Longrightarrow> rn_status row \<noteq> Pending \<Longrightarrow> rn_status row \<noteq> Dequeued \<Longrightarrow>
     rn_status (f row) \<noteq> Pending \<and> rn_status (f row) \<noteq> Dequeued"
  shows "begins db (db\<lparr>rd_runs := fst (update_ids is p f (rd_runs db))\<rparr>)"
  unfolding begins_def
proof (intro allI conjI impI disjI1)
  fix i
  assume "settled_run db i"
  then obtain row where row: "map_of (rd_runs db) i = Some row" "rn_status row \<noteq> Pending"
    "rn_status row \<noteq> Dequeued" unfolding settled_run_def by blast
  then show "settled_run (db\<lparr>rd_runs := fst (update_ids is p f (rd_runs db))\<rparr>) i"
    using assms [of row] by (simp add: settled_run_def map_of_update_ids)
qed (simp add: worker_starts_def)

lemma foldl_mark_fields:
  "rd_runs (foldl (\<lambda>db i. markTaskStartParallelCountEndedAt now i db) db is) = rd_runs db"
  "rd_events (foldl (\<lambda>db i. markTaskStartParallelCountEndedAt now i db) db is) = rd_events db"
  by (induction "is" arbitrary: db) simp_all

lemma many_begins:
  "begins db (fst (cancelEvictedTaskRuns now js entries m db))"
  "begins db (cancelEnvironmentDefinitionTask now entries db)"
proof -
  show "begins db (fst (cancelEvictedTaskRuns now js entries m db))"
    using update_ids_begins [of "\<lambda>row. rn_status row = Pending" "canceled_before_queue now m" db entries]
    by (auto simp: cancelEvictedTaskRuns_def begins_cong [OF sync_canceled_fields]
        canceled_before_queue_def split: prod.split)
  show "begins db (cancelEnvironmentDefinitionTask now entries db)"
    using update_ids_begins [of "\<lambda>_. True"
        "\<lambda>row. row\<lparr>rn_status := Canceled, rn_canceledAt := Some now\<rparr>" db entries]
    by (auto simp: cancelEnvironmentDefinitionTask_def begins_cong [OF foldl_mark_fields]
        split: prod.split)
qed

lemma cancel_begins:
  "begins db (fst (cancelTaskRunBeforeQueue now j i m db))"
  "begins db (fst (cancelTaskRunDirect now j i e db))"
  "begins db (fst (cancelTask now j i db))"
  "begins db (fst (cancelLinearTaskRun now i db))"
  "begins db (fst (cancelTaskRunCommand now i db))"
  "begins db (fst (claimWorkerBootstrapFailure now j i m db))"
  "begins db (cancelTaskRun now j i m db)"
  "begins db (completeStandby now j i h db)"
  "begins db (completeShutdown now j i db)"
  by (auto simp: cancelTaskRunDirect_def cancelTask_def write_runs cancelTaskRun_def
      canceled_before_queue_def cancelLinearTaskRun_def cancelTaskRunCommand_def
      completeStandby_def completeShutdown_def intro!: begins_write
      dest!: begins_write_pair begins_update_pair split: prod.split option.split)

lemma snapshot_begins:
  "begins db (fst (completeSnapshot now j sc i seen m ex sn t db))"
  "begins db (fst (settleUnresumable now j i seen m e db))"
  by (auto simp: completeSnapshot_def settleUnresumable_def Let_def begins_same
      dest!: begins_write_pair begins_update_pair split: prod.split option.split if_splits)

lemma quiet_begins:
  "begins db (markCancelRequested now i db)"
  "begins db (updateTaskRunMachine i m u db)"
  "begins db (clearTaskRunMachine i db)"
  "begins db (updateTaskRunRuntimeState i seen ph sl db)"
  "begins db (touchTaskRunHeartbeat i now db)"
  "begins db (stampTaskRunMilestone i field now db)"
  "begins db (fst (claimNeverStartedRun managed now i job db))"
  "begins db (fst (claimSnapshotSlot now act i st db))"
  "begins db (fst (claimStandby now act i st db))"
  "begins db (fst (claimShutdown now i db))"
  by (auto simp: markCancelRequested_def updateTaskRunMachine_def clearTaskRunMachine_def
      updateTaskRunRuntimeState_def touchTaskRunHeartbeat_def stampTaskRunMilestone_def
      claimNeverStartedRun_def claimSnapshotSlot_def claimStandby_def claimShutdown_def begins_same
      intro!: begins_update elim!: begins_update_pair split: milestone.split prod.split)

lemma progress_begins: "st \<in> set WORKER_STATUSES \<Longrightarrow> begins db (updateTaskRun i (Some st) db)"
  unfolding updateTaskRun_def by (rule begins_update) (auto simp: WORKER_STATUSES_def)

lemma finish_begins:
  assumes "st \<in> set doneRunStatuses"
  shows "begins db (finish_write now j i seen st e c db)"
proof -
  have "finish_status seen st \<noteq> Pending" "finish_status seen st \<noteq> Dequeued"
    using assms by (auto simp: finish_status_def doneRunStatuses_def)
  then have "begins db (fst (update_run i (\<lambda>_. True) (finish_row now seen (finish_status seen st) e c) db))"
    by (intro begins_update) (simp add: finish_row_def)
  moreover obtain db1 r where
    "update_run i (\<lambda>_. True) (finish_row now seen (finish_status seen st) e c) db = (db1, r)"
    by (rule prod.exhaust)
  ultimately show ?thesis by (simp add: finish_write_def Let_def)
qed

lemma orphan_begins:
  assumes "tables_ok db"
  shows "begins db (fst (claimOrphanedTaskRun now db))"
proof (cases "sort_key (\<lambda>(i, row). rn_createdAt row) (select_rows (orphaned_run now) (rd_runs db))")
  case Nil
  then show ?thesis by (simp add: claimOrphanedTaskRun_def begins_same)
next
  case (Cons x rest)
  obtain i row where x: "x = (i, row)" by (cases x)
  have row: "map_of (rd_runs db) i = Some row" "orphaned_run now row"
    using select_first [of "rd_runs db"] assms Cons by (auto simp: x tables_ok_def)
  have "begins db (fst (update_run i (\<lambda>_. True)
      (\<lambda>row. row\<lparr>rn_status := Dequeued, rn_dequeuedAt := Some now\<rparr>) db))"
    by (rule begins_update) (use row in \<open>auto simp: orphaned_run_def\<close>)
  then show ?thesis by (simp add: claimOrphanedTaskRun_def Cons x)
qed

lemma restart_begins: "begins db (fst (claimWorkerBootstrapRestart i db))"
  by (auto simp: claimWorkerBootstrapRestart_def begins_same row_is_def unclaimed_run_def
      intro!: begins_update)

lemma dispatch_begins:
  assumes "rn_status seen = Pending \<or> rn_status seen = Dequeued"
  shows "begins db (fst (dispatch_write now i seen db))"
  using assms
  by (auto simp: dispatch_write_def elim!: begins_update_pair split: prod.split option.split)

lemma claim_unsettled:
  assumes "claimJobById i db = (db', Some taskRun)"
  shows "\<not> settled_run db i" "settled_run db' i"
proof -
  have "db' = fst (claimJobById i db)" "snd (claimJobById i db) = Some taskRun" using assms by simp_all
  then show "\<not> settled_run db i" "settled_run db' i"
    unfolding claimJobById_def snd_update_run
    by (auto simp: settled_run_def map_of_update_run snd_update_where)
qed

lemma worker_begins: "begins db (fst (workerDequeueTaskRun now j valid i db))"
proof (cases "claimJobById i db")
  case (Pair db' claimed)
  have claim: "begins db db'" "rd_events db' = rd_events db"
    using Pair update_run_fields(2) [of i _ _ db] unfolding claimJobById_def
    by (auto elim: begins_update_pair) (metis fst_conv update_run_fields(2))
  show ?thesis
  proof (cases claimed)
    case None
    then show ?thesis using claim by (simp add: workerDequeueTaskRun_def Pair)
  next
    case (Some taskRun)
    note un = claim_unsettled [OF Pair [unfolded Some]]
    let ?db2 = "fst (update_run i (\<lambda>_. True) (\<lambda>row. row\<lparr>rn_startedAt := Some now\<rparr>) db')"
    have two: "begins db' ?db2" by (rule begins_update) simp
    then have "begins db ?db2" using claim(1) begins_trans by blast
    moreover have "settled_run ?db2 i" using two un(2) by (simp add: begins_def)
    ultimately have "begins db (recordTaskRunLifecycleEvent i ''started'' ''worker_bootstrap'' ?db2)"
      using un(1) claim(2) by (auto simp: begins_def settled_run_def worker_starts_def)
    moreover have "begins db (cancelTaskRun now j i ''Task run is not valid.'' db')"
      using claim(1) cancel_begins(7) begins_trans by blast
    ultimately show ?thesis by (simp add: workerDequeueTaskRun_def Pair Some)
  qed
qed

subsection \<open>Keys\<close>

lemma tables_cong [simp]:
  "tables_ok (markTaskStartParallelCountEndedAt now i db) = tables_ok db"
  "tables_ok (recordTaskRunLifecycleEvent i ty st db) = tables_ok db"
  by (simp_all add: tables_ok_def)

lemma fst_write_run:
  "fst (write_run now j i p f db) =
     (case snd (update_run i p f db) of None \<Rightarrow> db
      | Some row \<Rightarrow> syncTaskStateFromRuns now j (rn_taskId row) (fst (update_run i p f db)))"
  by (simp add: write_run_def update_run_def split: option.split prod.split)

lemma write_run_tables: "tables_ok db \<Longrightarrow> tables_ok (fst (write_run now j i p f db))"
  by (simp add: fst_write_run update_run_tables split: option.split)

lemma tables_pairs:
  "update_run i p f db = (db', r) \<Longrightarrow> tables_ok db \<Longrightarrow> tables_ok db'"
  "write_run now j i p f db = (db', r) \<Longrightarrow> tables_ok db \<Longrightarrow> tables_ok db'"
  using update_run_tables [of db i p f] write_run_tables [of db now j i p f] by simp_all

lemma launch_tables:
  assumes "tables_ok db"
  shows "tables_ok (enqueueTask now j i t existing src st db)"
    "tables_ok (fst (retryFailedTaskStart now j i t first st db))"
    "tables_ok (fst (enqueueSnapshotResume now j i first st db))"
proof -
  have "tables_ok (db\<lparr>rd_tasks := insert_row t \<lparr>tk_state = TaskActive, tk_updatedAt = now\<rparr> (rd_tasks db)\<rparr>)"
    using assms by (simp add: tables_ok_def)
  then show "tables_ok (enqueueTask now j i t existing src st db)"
    using assms by (simp add: enqueueTask_def insert_run_tables)
  show "tables_ok (fst (retryFailedTaskStart now j i t first st db))"
    using assms by (auto simp: retryFailedTaskStart_def insert_run_tables split: list.split)
  show "tables_ok (fst (enqueueSnapshotResume now j i first st db))"
    using assms by (auto simp: enqueueSnapshotResume_def insert_run_tables split: option.split)
qed

lemma sync_canceled_tables: "tables_ok db \<Longrightarrow> tables_ok (sync_canceled now js is db)"
  by (induction now js "is" db rule: sync_canceled.induct) (simp_all split: option.split)

lemma many_tables:
  assumes "tables_ok db"
  shows "tables_ok (fst (cancelEvictedTaskRuns now js entries m db))"
    "tables_ok (cancelEnvironmentDefinitionTask now entries db)"
proof -
  have rows: "tables_ok (db\<lparr>rd_runs := fst (update_ids entries p f (rd_runs db))\<rparr>)" for p f
    using assms by (simp add: tables_ok_def)
  show "tables_ok (fst (cancelEvictedTaskRuns now js entries m db))"
    using rows [of "\<lambda>row. rn_status row = Pending" "canceled_before_queue now m"]
    by (auto simp: cancelEvictedTaskRuns_def sync_canceled_tables split: prod.split)
  have marks: "tables_ok (foldl (\<lambda>db i. markTaskStartParallelCountEndedAt now i db) db' is) = tables_ok db'"
    for db' "is" by (induction "is" arbitrary: db') simp_all
  show "tables_ok (cancelEnvironmentDefinitionTask now entries db)"
    using rows [of "\<lambda>_. True" "\<lambda>row. row\<lparr>rn_status := Canceled, rn_canceledAt := Some now\<rparr>"]
    by (auto simp: cancelEnvironmentDefinitionTask_def marks split: prod.split)
qed

lemmas op_defs =
  cancelTaskRunDirect_def cancelTask_def cancelTaskRunBeforeQueue_def cancelLinearTaskRun_def
  cancelTaskRunCommand_def claimWorkerBootstrapFailure_def cancelTaskRun_def
  cancelAndReleaseTaskRun_def completeStandby_def completeShutdown_def completeSnapshot_def
  settleUnresumable_def markCancelRequested_def updateTaskRunMachine_def clearTaskRunMachine_def
  updateTaskRun_def updateTaskRunRuntimeState_def touchTaskRunHeartbeat_def
  stampTaskRunMilestone_def claimNeverStartedRun_def claimSnapshotSlot_def claimStandby_def
  claimShutdown_def dispatch_write_def claimOrphanedTaskRun_def claimWorkerBootstrapRestart_def
  finish_write_def workerDequeueTaskRun_def claimJobById_def

lemma step_tables:
  assumes "runs_step routed fresh s s'" "tables_ok (ru_db s)"
  shows "tables_ok (ru_db s')"
  using assms
  by (induction rule: runs_step.induct)
    (auto simp: on_db_def launch_tables many_tables op_defs Let_def update_run_tables write_run_tables
      dest: tables_pairs split: prod.split option.split list.split milestone.split)

end
