(* ===== verification/RunSafety.thy ===== *)
theory RunSafety
  imports RunEffects
begin

section \<open>What no interleaving can do to a task's runs\<close>

text \<open>
  The invariants of the systems of \<open>RunSystem\<close>, from what \<open>RunEffects\<close> says of each writer, and
  the properties of a task's state and of the start of a run.
\<close>

subsection \<open>What every reachable system keeps\<close>

lemma reachable_tables: "run_reachable routed fresh s \<Longrightarrow> tables_ok (ru_db s)"
proof (induction rule: run_reachable.induct)
  case (ru_start judgments sessionTasks)
  show ?case by (simp add: run_start_def tables_ok_def jsmap_ok_def)
qed (rule step_tables)

definition calls_ok :: "run_system \<Rightarrow> bool" where
  "calls_ok s \<longleftrightarrow>
     (\<forall>(i, seen, st) \<in> set (ru_finishing s). st \<in> set doneRunStatuses \<and>
        (\<exists>row. map_of (rd_runs (ru_db s)) i = Some row \<and> rn_taskId row = rn_taskId seen))"

lemma calls_on_db:
  assumes "calls_ok s" "keeps_runs (ru_db s) db"
  shows "calls_ok (on_db db s)"
  unfolding calls_ok_def
proof (clarify, intro conjI)
  fix i seen st
  assume "(i, seen, st) \<in> set (ru_finishing (on_db db s))"
  then have call: "(i, seen, st) \<in> set (ru_finishing s)" by (simp add: on_db_def)
  then show "st \<in> set doneRunStatuses" using assms(1) by (auto simp: calls_ok_def)
  obtain row where "map_of (rd_runs (ru_db s)) i = Some row" "rn_taskId row = rn_taskId seen"
    using assms(1) call unfolding calls_ok_def by blast
  then show "\<exists>row. map_of (rd_runs (ru_db (on_db db s))) i = Some row \<and> rn_taskId row = rn_taskId seen"
    using assms(2) unfolding keeps_runs_def on_db_def by fastforce
qed

lemma step_begins:
  assumes "runs_step routed True s s'" "tables_ok (ru_db s)" "calls_ok s"
  shows "begins (ru_db s) (ru_db s')"
  using assms
proof (induction rule: runs_step.induct)
  case (ru_finish_write i seen status s now j error errorCode)
  then show ?case by (auto simp: calls_ok_def intro!: finish_begins)
qed (auto simp: on_db_def launch_begins many_begins cancel_begins snapshot_begins quiet_begins
    begins_update progress_begins orphan_begins restart_begins dispatch_begins worker_begins begins_same
    cancelAndReleaseTaskRun_def)

lemma step_derives:
  assumes "runs_step True fresh s s'" "tables_ok (ru_db s)" "calls_ok s"
  shows "derives (ru_db s) (ru_db s')"
  using assms
proof (induction rule: runs_step.induct)
  case (ru_finish_write i seen status s now j error errorCode)
  then obtain row where "map_of (rd_runs (ru_db s)) i = Some row" "rn_taskId row = rn_taskId seen"
    unfolding calls_ok_def by blast
  then show ?case by (simp add: finish_derives)
next
  case (ru_launch s i options existing taskId now j source)
  then show ?case unfolding on_db_def by (simp add: enqueue_derives)
qed (auto simp: on_db_def retry_derives resume_derives evicted_derives cancel_derives
    snapshot_derives settle_derives quiet_derives progress_derives orphan_derives restart_derives
    dispatch_derives worker_derives derives_update derives_same cancelAndReleaseTaskRun_def)

lemma keeps_pairs:
  "update_run i p f db = (db', r) \<Longrightarrow> (\<And>row. rn_taskId (f row) = rn_taskId row) \<Longrightarrow> keeps_runs db db'"
  "write_run now j i p f db = (db', r) \<Longrightarrow> (\<And>row. rn_taskId (f row) = rn_taskId row) \<Longrightarrow>
   keeps_runs db db'"
  using keeps_update_run [of f db i p] keeps_write_run [of f db now j i p] by simp_all

lemma unrouted_keeps:
  "keeps_runs db (fst (cancelLinearTaskRun now i db))"
  "keeps_runs db (fst (cancelTaskRunCommand now i db))"
  "keeps_runs db (updateTaskRun i st db)"
  "keeps_runs db (fst (completeSnapshot now j sc i seen m ex sn t db))"
  by (auto simp: cancelLinearTaskRun_def cancelTaskRunCommand_def updateTaskRun_def
      completeSnapshot_def Let_def keeps_cong [OF mark_fields(1)] intro!: keeps_update_run dest!: keeps_pairs
      split: prod.split option.split if_splits)

lemma environment_keeps: "keeps_runs db (cancelEnvironmentDefinitionTask now entries db)"
proof -
  let ?f = "\<lambda>row. row\<lparr>rn_status := Canceled, rn_canceledAt := Some now\<rparr>"
  have "keeps_runs db (db\<lparr>rd_runs := fst (update_ids entries (\<lambda>_. True) ?f (rd_runs db))\<rparr>)"
    by (auto simp: keeps_runs_def map_of_update_ids)
  then show ?thesis
    by (auto simp: cancelEnvironmentDefinitionTask_def keeps_cong [OF foldl_mark_fields(1)]
        split: prod.split)
qed

lemma derives_keeps: "derives db db' \<Longrightarrow> keeps_runs db db'"
  by (simp add: derives_def)

lemma step_keeps:
  assumes "runs_step routed fresh s s'" "tables_ok (ru_db s)"
  shows "keeps_runs (ru_db s) (ru_db s')"
  using assms
proof (induction rule: runs_step.induct)
  case (ru_finish_write i seen status s now j error errorCode)
  show ?case
    using keeps_update_run [of "finish_row now seen (finish_status seen status) error errorCode"]
    by (simp add: keeps_cong [OF finish_write_runs])
next
  case (ru_launch s i options existing taskId now j source)
  then show ?case unfolding on_db_def by (auto intro: derives_keeps enqueue_derives)
qed (auto simp: on_db_def keeps_refl keeps_update_run unrouted_keeps environment_keeps cancelAndReleaseTaskRun_def
    intro: derives_keeps retry_derives resume_derives evicted_derives cancel_derives settle_derives
      quiet_derives orphan_derives restart_derives dispatch_derives worker_derives)

lemma step_calls:
  assumes "runs_step routed fresh s s'" "tables_ok (ru_db s)" "calls_ok s"
  shows "calls_ok s'"
proof -
  have keeps: "keeps_runs (ru_db s) (ru_db s')" by (rule step_keeps [OF assms(1,2)])
  have subset: "calls_ok s'"
    if "set (ru_finishing s') \<subseteq> set (ru_finishing s)"
  proof -
    have "calls_ok (on_db (ru_db s') s)" by (rule calls_on_db [OF assms(3) keeps])
    then show ?thesis using that by (auto simp: calls_ok_def on_db_def)
  qed
  show ?thesis
    using assms(1)
  proof (cases rule: runs_step.cases)
    case (ru_finish_read i seen status)
    then show ?thesis using assms(3) by (auto simp: calls_ok_def)
  qed (rule subset; simp add: on_db_def set_remove1_subset)+
qed

lemma reachable_calls: "run_reachable routed fresh s \<Longrightarrow> calls_ok s"
proof (induction rule: run_reachable.induct)
  case (ru_start judgments sessionTasks)
  show ?case by (simp add: run_start_def calls_ok_def)
next
  case (ru_next s t)
  then show ?case using step_calls reachable_tables by blast
qed

lemma reachable_states: "run_reachable True fresh s \<Longrightarrow> states_ok (ru_db s)"
proof (induction rule: run_reachable.induct)
  case (ru_start judgments sessionTasks)
  show ?case
    by (simp add: run_start_def states_ok_def tables_ok_def jsmap_ok_def fresh_state_def)
next
  case (ru_next s t)
  then show ?case
    using step_derives [of fresh s t] reachable_tables reachable_calls by (auto simp: derives_def)
qed

lemma reachable_starts:
  "run_reachable routed True s \<Longrightarrow>
   worker_starts i (ru_db s) = 0 \<or> worker_starts i (ru_db s) = Suc 0 \<and> settled_run (ru_db s) i"
proof (induction rule: run_reachable.induct)
  case (ru_start judgments sessionTasks)
  show ?case by (simp add: run_start_def worker_starts_def)
next
  case (ru_next s t)
  then show ?case
    using step_begins [of routed s t] reachable_tables reachable_calls unfolding begins_def by metis
qed

subsection \<open>The properties\<close>

text \<open>C14: As long as every change that ends a run, or revives one, goes with the derivation (the routed
  system), the state stored for a task is, after every step of every interleaving of launches,
  retries, resumes, dispatches, workers, calls of \<open>finishRun\<close> that write what they read long before,
  cancels, stops and sweeps, the one its runs give it now.\<close>

theorem task_state_is_derived:
  assumes "run_reachable True fresh s" "map_of (rd_tasks (ru_db s)) taskId = Some task"
    "state_runs taskId (rd_runs (ru_db s)) \<noteq> []"
  shows "deriveTaskStateFromRuns (state_runs taskId (rd_runs (ru_db s))) = Some (tk_state task)"
  using reachable_states [OF assms(1)] assms(2,3) by (simp add: states_ok_def fresh_state_def)

theorem task_state_is_derived_witness:
  "deriveTaskStateFromRuns (state_runs ''t'' (rd_runs (ru_db sample_canceled))) =
     Some (tk_state (the (map_of (rd_tasks (ru_db sample_canceled)) ''t'')))"
  by (rule task_state_is_derived [OF sample_canceled_reachable]; code_simp)

text \<open>C19: In a routed system, a task one of whose runs completed stays completed, however many later
  runs (resumes, retries) have ended without ever starting, failed or canceled: a resume that dies in
  its bootstrap does not undo the result.\<close>

theorem completed_task_survives_a_failed_resume:
  assumes "run_reachable True fresh s" "map_of (rd_tasks (ru_db s)) taskId = Some task"
    "map_of (rd_runs (ru_db s)) i = Some run" "rn_taskId run = taskId" "rn_status run = Completed"
    "\<And>k row. map_of (rd_runs (ru_db s)) k = Some row \<Longrightarrow> rn_taskId row = taskId \<Longrightarrow>
       run_exited row \<and> (k > i \<longrightarrow> rn_startedAt row = None)"
  shows "tk_state task = TaskCompleted"
proof -
  have keys: "jsmap_ok (rd_runs (ru_db s))"
    using reachable_tables [OF assms(1)] by (simp add: tables_ok_def)
  have in_runs: "q \<in> set (state_runs taskId (rd_runs (ru_db s))) \<longleftrightarrow>
      (\<exists>k row. map_of (rd_runs (ru_db s)) k = Some row \<and> rn_taskId row = taskId \<and> q = state_run_of k row)"
    for q unfolding state_runs_alt by (auto simp: set_select_rows [OF keys]) blast+
  have run: "state_run_of i run \<in> set (state_runs taskId (rd_runs (ru_db s)))"
    using assms(3,4) in_runs by blast
  have "deriveTaskStateFromRuns (state_runs taskId (rd_runs (ru_db s))) = Some TaskCompleted"
    by (rule derived_completed_stays [OF run])
      (use assms(3-6) in \<open>auto simp: in_runs state_run_of_def run_exited_def\<close>)
  moreover have "state_runs taskId (rd_runs (ru_db s)) \<noteq> []" using run by auto
  moreover have "fresh_state (ru_db s) taskId"
    using reachable_states [OF assms(1)] by (simp add: states_ok_def)
  ultimately show ?thesis using assms(2) unfolding fresh_state_def by simp
qed

theorem completed_task_survives_a_failed_resume_witness:
  "tk_state (the (map_of (rd_tasks (ru_db sample_canceled)) ''t'')) = TaskCompleted"
proof (rule completed_task_survives_a_failed_resume
    [OF sample_canceled_reachable, where taskId = "''t''" and i = 7 and run = "sample_row sample_canceled"])
  fix k row
  have "list_all (\<lambda>(k, row). run_exited row \<and> (k > 7 \<longrightarrow> rn_startedAt row = None))
      (rd_runs (ru_db sample_canceled))"
    by code_simp
  moreover assume "map_of (rd_runs (ru_db sample_canceled)) k = Some row"
  ultimately show "run_exited row \<and> (k > 7 \<longrightarrow> rn_startedAt row = None)"
    by (auto simp: list_all_iff dest: map_of_SomeD)
qed (code_simp)+

text \<open>C17: While the queue hands out no run that a worker already has (fresh entries), and with the
  writers that skip the derivation as well, a run is started by at most one worker: however the controller's dispatch, the recovery of orphans, the bootstrap restart
  and the workers' claims of the run interleave, \<open>worker_bootstrap\<close> is recorded at most once.\<close>

theorem run_is_started_once:
  assumes "run_reachable routed True s"
  shows "worker_starts i (ru_db s) \<le> 1"
  using reachable_starts [OF assms, of i] by auto

theorem run_is_started_once_witness:
  "worker_starts 7 (ru_db sample_finished) = 1 \<and> worker_starts 7 (ru_db sample_canceled) \<le> 1"
  by (rule conjI, code_simp) (rule run_is_started_once [OF sample_canceled_reachable])

text \<open>C18: Once a run has ended, whoever ended it, no worker starts it any more, whatever any of the
  writers still does, while the queue's entries are fresh: a cancel that comes before the worker's claim is final for the claim.\<close>

theorem ended_run_is_never_started:
  assumes "run_reachable routed True s" "(runs_step routed True)\<^sup>*\<^sup>* s t"
    "map_of (rd_runs (ru_db s)) i = Some run" "run_exited run"
  shows "worker_starts i (ru_db t) = worker_starts i (ru_db s)"
proof -
  have "settled_run (ru_db s) i" using assms(3,4) by (auto simp: settled_run_def live_simps)
  with assms(2) have "worker_starts i (ru_db t) = worker_starts i (ru_db s) \<and>
      settled_run (ru_db t) i \<and> run_reachable routed True t"
  proof (induction rule: rtranclp_induct)
    case base
    then show ?case using assms(1) by simp
  next
    case (step t u)
    then show ?case
      using step_begins [OF step.hyps(2)] reachable_tables reachable_calls
      unfolding begins_def by (metis ru_next)
  qed
  then show ?thesis by simp
qed

theorem ended_run_is_never_started_witness:
  "worker_starts 7 (ru_db sample_canceled) = worker_starts 7 (ru_db sample_finished)"
  by (rule ended_run_is_never_started [OF sample_finished_reachable sample_resumes,
        where run = "sample_row sample_finished"]; code_simp)

end
