(* ===== verification/TaskStateSync.thy ===== *)
theory TaskStateSync
  imports RunWriters
begin

section \<open>Concurrent derivations of a task's state\<close>

text \<open>
  Two runs of a task can end at the same time, each in a transaction of its own that changes its
  run and calls \<open>syncTaskStateFromRuns\<close> (\<open>packages/db/src/lib/sync-task-state.ts\<close>). Here such a
  transaction is taken apart into its statements, under the isolation the code runs at (read
  committed: a statement sees what is committed when it starts, and the transaction's own writes;
  a row that is written or selected for update is locked until the transaction ends). The lock on the
  task's row makes the transactions of \<open>TaskState\<close>, which are one step each, a faithful picture of
  them. The judgment request the transaction may create, and transactions that write runs of several
  tasks, are left out here.
\<close>

subsection \<open>The statements\<close>

text \<open>
  How far a transaction is: it has written its run; it has the task's row locked; it has read the
  runs and knows the next state; it has updated the task.
\<close>

datatype sync_phase =
    SyncWrote
  | SyncLocked
  | SyncRead "task_state option"
  | SyncUpdated "task_state option"

record sync_txn =
  sx_run :: nat
  sx_row :: run_row
  sx_phase :: sync_phase

text \<open>What is committed, and the open transactions by id.\<close>

record sync_db =
  sy_runs :: "(nat, run_row) jsmap"
  sy_tasks :: "task_row table"
  sy_txns :: "(nat, sync_txn) jsmap"

definition open_txn :: "sync_db \<Rightarrow> nat \<Rightarrow> sync_txn \<Rightarrow> bool" where
  "open_txn s k x \<longleftrightarrow> map_of (sy_txns s) k = Some x"

definition holds_task :: "string \<Rightarrow> sync_txn \<Rightarrow> bool" where
  "holds_task taskId x \<longleftrightarrow> rn_taskId (sx_row x) = taskId \<and> sx_phase x \<noteq> SyncWrote"

text \<open>The runs as a statement of the transaction sees them.\<close>

definition seen_runs :: "sync_db \<Rightarrow> sync_txn \<Rightarrow> (nat, run_row) jsmap" where
  "seen_runs s x = insert_row (sx_run x) (sx_row x) (sy_runs s)"

definition set_txn :: "nat \<Rightarrow> sync_txn \<Rightarrow> sync_db \<Rightarrow> sync_db" where
  "set_txn k x s = s\<lparr>sy_txns := AList.update k x (sy_txns s)\<rparr>"

definition end_txn :: "nat \<Rightarrow> sync_db \<Rightarrow> sync_db" where
  "end_txn k s = s\<lparr>sy_txns := AList.delete k (sy_txns s)\<rparr>"

text \<open>The first statement: an update of a committed run, or the insert of a new one.\<close>

definition run_is_free :: "sync_db \<Rightarrow> nat \<Rightarrow> bool" where
  "run_is_free s i \<longleftrightarrow> (\<forall>(k, x) \<in> set (sy_txns s). sx_run x \<noteq> i)"

definition task_is_free :: "sync_db \<Rightarrow> string \<Rightarrow> bool" where
  "task_is_free s taskId \<longleftrightarrow> (\<forall>(k, x) \<in> set (sy_txns s). \<not> holds_task taskId x)"

definition write_statement :: "nat \<Rightarrow> nat \<Rightarrow> run_row \<Rightarrow> sync_db \<Rightarrow> sync_db" where
  "write_statement k i row s = set_txn k \<lparr>sx_run = i, sx_row = row, sx_phase = SyncWrote\<rparr> s"

text \<open>\<open>select id from tasks where id = taskId for update\<close>.\<close>

definition lock_statement :: "nat \<Rightarrow> sync_txn \<Rightarrow> sync_db \<Rightarrow> sync_db" where
  "lock_statement k x s = set_txn k (x\<lparr>sx_phase := SyncLocked\<rparr>) s"

text \<open>\<open>select id, status, started_at from task_runs where task_id = taskId\<close>.\<close>

definition read_statement :: "nat \<Rightarrow> sync_txn \<Rightarrow> sync_db \<Rightarrow> sync_db" where
  "read_statement k x s =
     set_txn k (x\<lparr>sx_phase := SyncRead (deriveTaskStateFromRuns
       (state_runs (rn_taskId (sx_row x)) (seen_runs s x)))\<rparr>) s"

text \<open>The update of the task, which nobody else sees before the commit.\<close>

definition update_statement :: "nat \<Rightarrow> sync_txn \<Rightarrow> task_state option \<Rightarrow> sync_db \<Rightarrow> sync_db" where
  "update_statement k x nextState s = set_txn k (x\<lparr>sx_phase := SyncUpdated nextState\<rparr>) s"

definition committed_task :: "ms \<Rightarrow> string \<Rightarrow> task_state option \<Rightarrow> task_row table \<Rightarrow> task_row table" where
  "committed_task now taskId nextState tasks =
     (case nextState of
        None \<Rightarrow> tasks
      | Some state \<Rightarrow> fst (update_where taskId (\<lambda>task. tk_state task \<noteq> state)
          (\<lambda>task. task\<lparr>tk_state := state, tk_updatedAt := now\<rparr>) tasks))"

definition commit_statement :: "ms \<Rightarrow> nat \<Rightarrow> sync_txn \<Rightarrow> task_state option \<Rightarrow> sync_db \<Rightarrow> sync_db" where
  "commit_statement now k x nextState s =
     end_txn k (s\<lparr>sy_runs := seen_runs s x,
       sy_tasks := committed_task now (rn_taskId (sx_row x)) nextState (sy_tasks s)\<rparr>)"

inductive sync_step :: "sync_db \<Rightarrow> sync_db \<Rightarrow> bool" where
  sy_update:
    "map_of (sy_txns s) k = None \<Longrightarrow> run_is_free s i \<Longrightarrow> map_of (sy_runs s) i = Some old \<Longrightarrow>
     rn_taskId row = rn_taskId old \<Longrightarrow> sync_step s (write_statement k i row s)"
| sy_insert:
    "map_of (sy_txns s) k = None \<Longrightarrow> run_is_free s i \<Longrightarrow> map_of (sy_runs s) i = None \<Longrightarrow>
     sync_step s (write_statement k i row s)"
| sy_lock:
    "open_txn s k x \<Longrightarrow> sx_phase x = SyncWrote \<Longrightarrow> task_is_free s (rn_taskId (sx_row x)) \<Longrightarrow>
     sync_step s (lock_statement k x s)"
| sy_read: "open_txn s k x \<Longrightarrow> sx_phase x = SyncLocked \<Longrightarrow> sync_step s (read_statement k x s)"
| sy_set:
    "open_txn s k x \<Longrightarrow> sx_phase x = SyncRead nextState \<Longrightarrow>
     sync_step s (update_statement k x nextState s)"
| sy_commit:
    "open_txn s k x \<Longrightarrow> sx_phase x = SyncUpdated nextState \<Longrightarrow>
     sync_step s (commit_statement now k x nextState s)"
| sy_abort: "sync_step s (end_txn k s)"

text \<open>
  It starts where the tables say what is derived, with no transaction open; tasks without a run have
  the state they were created with.
\<close>

definition sync_start :: "(nat, run_row) jsmap \<Rightarrow> task_row table \<Rightarrow> sync_db" where
  "sync_start runs tasks = \<lparr>sy_runs = runs, sy_tasks = tasks, sy_txns = []\<rparr>"

definition derived_tables :: "(nat, run_row) jsmap \<Rightarrow> task_row table \<Rightarrow> bool" where
  "derived_tables runs tasks \<longleftrightarrow>
     jsmap_ok runs \<and> jsmap_ok tasks \<and>
     list_all (\<lambda>(taskId, task). case deriveTaskStateFromRuns (state_runs taskId runs) of
        None \<Rightarrow> True | Some state \<Rightarrow> state = tk_state task) tasks"

inductive sync_reachable :: "sync_db \<Rightarrow> bool" where
  sy_start: "derived_tables runs tasks \<Longrightarrow> sync_reachable (sync_start runs tasks)"
| sy_next: "sync_reachable s \<Longrightarrow> sync_step s t \<Longrightarrow> sync_reachable t"

inductive_simps sync_step_simps: "sync_step s t"

subsection \<open>What a task's state depends on\<close>

text \<open>Writing a run of another task does not show in what a transaction reads.\<close>

lemma state_runs_other_task:
  assumes "rn_taskId row \<noteq> taskId"
    "\<And>r. map_of runs i = Some r \<Longrightarrow> rn_taskId r = rn_taskId row"
  shows "state_runs taskId (insert_row i row runs) = state_runs taskId runs"
proof -
  have "\<forall>r. map_of runs i = Some r \<longrightarrow> rn_taskId r \<noteq> taskId" using assms by metis
  from select_insert_other [where p = "\<lambda>r. rn_taskId r = taskId", OF assms(1) this]
  show ?thesis by (simp add: state_runs_alt)
qed

lemma state_runs_two:
  assumes "jsmap_ok runs" "rn_taskId mine = taskId" "rn_taskId other \<noteq> taskId" "j \<noteq> i"
    "\<And>r. map_of runs i = Some r \<Longrightarrow> rn_taskId r = taskId"
    "\<And>r. map_of runs j = Some r \<Longrightarrow> rn_taskId r = rn_taskId other"
  shows "state_runs taskId (insert_row i mine (insert_row j other runs)) =
    state_runs taskId (insert_row i mine runs)"
proof -
  have keys: "jsmap_ok (insert_row j other runs)" using assms(1) by simp
  have own: "\<forall>r. map_of runs i = Some r \<longrightarrow> rn_taskId r = taskId" using assms(5) by metis
  then have own': "\<forall>r. map_of (insert_row j other runs) i = Some r \<longrightarrow> rn_taskId r = taskId"
    using assms(4) by (simp add: map_of_insert_row)
  have their: "\<forall>r. map_of runs j = Some r \<longrightarrow> rn_taskId r \<noteq> taskId" using assms(3,6) by metis
  have "select_rows (\<lambda>r. rn_taskId r = taskId) (insert_row i mine (insert_row j other runs)) =
      insert_row i mine (select_rows (\<lambda>r. rn_taskId r = taskId) (insert_row j other runs))"
    by (rule select_insert_same [OF keys assms(2) own'])
  also have "select_rows (\<lambda>r. rn_taskId r = taskId) (insert_row j other runs) =
      select_rows (\<lambda>r. rn_taskId r = taskId) runs"
    by (rule select_insert_other [OF assms(3) their])
  also have "insert_row i mine (select_rows (\<lambda>r. rn_taskId r = taskId) runs) =
      select_rows (\<lambda>r. rn_taskId r = taskId) (insert_row i mine runs)"
    by (rule select_insert_same [OF assms(1,2) own, symmetric])
  finally show ?thesis by (simp add: state_runs_alt)
qed

subsection \<open>Locks, and what the open transactions know\<close>

definition runs_match :: "sync_db \<Rightarrow> sync_txn \<Rightarrow> bool" where
  "runs_match s x \<longleftrightarrow>
     (\<forall>old. map_of (sy_runs s) (sx_run x) = Some old \<longrightarrow> rn_taskId old = rn_taskId (sx_row x))"

definition knows_state :: "sync_db \<Rightarrow> sync_txn \<Rightarrow> bool" where
  "knows_state s x \<longleftrightarrow>
     (\<forall>n. sx_phase x = SyncRead n \<or> sx_phase x = SyncUpdated n \<longrightarrow>
        n = deriveTaskStateFromRuns (state_runs (rn_taskId (sx_row x)) (seen_runs s x)))"

definition locks_ok :: "sync_db \<Rightarrow> bool" where
  "locks_ok s \<longleftrightarrow>
     (\<forall>k x k' x'. open_txn s k x \<longrightarrow> open_txn s k' x' \<longrightarrow> k \<noteq> k' \<longrightarrow>
        sx_run x \<noteq> sx_run x' \<and>
        (sx_phase x \<noteq> SyncWrote \<longrightarrow> \<not> holds_task (rn_taskId (sx_row x)) x'))"

definition sync_ok :: "sync_db \<Rightarrow> bool" where
  "sync_ok s \<longleftrightarrow>
     jsmap_ok (sy_runs s) \<and> jsmap_ok (sy_tasks s) \<and> jsmap_ok (sy_txns s) \<and> locks_ok s \<and>
     (\<forall>k x. open_txn s k x \<longrightarrow> runs_match s x \<and> knows_state s x) \<and>
     (\<forall>t task. map_of (sy_tasks s) t = Some task \<longrightarrow> state_runs t (sy_runs s) \<noteq> [] \<longrightarrow>
        deriveTaskStateFromRuns (state_runs t (sy_runs s)) = Some (tk_state task))"

lemma set_txn_fields [simp]:
  "sy_runs (set_txn k x s) = sy_runs s" "sy_tasks (set_txn k x s) = sy_tasks s"
  "sy_txns (set_txn k x s) = AList.update k x (sy_txns s)"
  by (simp_all add: set_txn_def)

lemma end_txn_fields [simp]:
  "sy_runs (end_txn k s) = sy_runs s" "sy_tasks (end_txn k s) = sy_tasks s"
  "sy_txns (end_txn k s) = AList.delete k (sy_txns s)"
  by (simp_all add: end_txn_def)

lemma open_set_txn [simp]: "open_txn (set_txn k x s) k' x' \<longleftrightarrow> (if k' = k then x' = x else open_txn s k' x')"
  by (auto simp: open_txn_def update_conv')

lemma open_end_txn [simp]: "open_txn (end_txn k s) k' x' \<longleftrightarrow> k' \<noteq> k \<and> open_txn s k' x'"
  by (auto simp: open_txn_def delete_conv')

lemma committed_cong:
  "sy_runs s' = sy_runs s \<Longrightarrow> runs_match s' x = runs_match s x"
  "sy_runs s' = sy_runs s \<Longrightarrow> knows_state s' x = knows_state s x"
  by (simp_all add: runs_match_def knows_state_def seen_runs_def)

lemma free_open:
  assumes "jsmap_ok (sy_txns s)"
  shows "run_is_free s i \<longleftrightarrow> (\<forall>k x. open_txn s k x \<longrightarrow> sx_run x \<noteq> i)"
    "task_is_free s t \<longleftrightarrow> (\<forall>k x. open_txn s k x \<longrightarrow> \<not> holds_task t x)"
  unfolding run_is_free_def task_is_free_def open_txn_def
  by (auto simp: jsmap_values_iff [OF assms]) blast+

text \<open>A statement that commits nothing only has to keep the locks and what its transaction knows.\<close>

lemma sync_ok_set:
  assumes "sync_ok s" "locks_ok (set_txn k x s)" "runs_match s x" "knows_state s x"
  shows "sync_ok (set_txn k x s)"
  using assms(1) unfolding sync_ok_def
  by (intro conjI allI impI; (elim conjE)?)
    (use assms(2-4) in \<open>auto simp: jsmap_ok_def committed_cong [where s' = "set_txn k x s" and s = s]
      distinct_update split: if_splits\<close>)

lemma sync_ok_end:
  assumes "sync_ok s"
  shows "sync_ok (end_txn k s)"
proof -
  have "locks_ok (end_txn k s)"
    using assms unfolding sync_ok_def locks_ok_def open_end_txn by blast
  moreover have "jsmap_ok (sy_txns (end_txn k s))"
    using assms by (simp add: sync_ok_def jsmap_ok_def distinct_delete)
  moreover have "\<forall>k' x. open_txn (end_txn k s) k' x \<longrightarrow>
      runs_match (end_txn k s) x \<and> knows_state (end_txn k s) x"
    using assms by (auto simp: sync_ok_def committed_cong [where s' = "end_txn k s" and s = s])
  ultimately show ?thesis using assms by (simp add: sync_ok_def)
qed

subsection \<open>No statement breaks them\<close>

lemma open_run_is_mine:
  "locks_ok s \<Longrightarrow> open_txn s k x \<Longrightarrow> open_txn s k' x' \<Longrightarrow> k \<noteq> k' \<Longrightarrow> sx_run x \<noteq> sx_run x'"
  unfolding locks_ok_def by blast

lemma runs_match_phase [simp]: "runs_match s (x\<lparr>sx_phase := p\<rparr>) = runs_match s x"
  by (cases x) (simp only: runs_match_def sync_txn.simps)

lemma open_matches: "sync_ok s \<Longrightarrow> open_txn s k x \<Longrightarrow> runs_match s x"
  unfolding sync_ok_def by blast

lemma write_keeps:
  assumes "sync_ok s" "map_of (sy_txns s) k = None" "run_is_free s i"
    "\<And>old. map_of (sy_runs s) i = Some old \<Longrightarrow> rn_taskId old = rn_taskId row"
  shows "sync_ok (write_statement k i row s)"
  unfolding write_statement_def
proof (rule sync_ok_set [OF assms(1)])
  have "jsmap_ok (sy_txns s)" "locks_ok s" using assms(1) by (simp_all add: sync_ok_def)
  then show "locks_ok (set_txn k \<lparr>sx_run = i, sx_row = row, sx_phase = SyncWrote\<rparr> s)"
    using assms(3) unfolding locks_ok_def free_open [OF \<open>jsmap_ok (sy_txns s)\<close>]
    by (auto simp: holds_task_def)
  show "runs_match s \<lparr>sx_run = i, sx_row = row, sx_phase = SyncWrote\<rparr>"
    unfolding runs_match_def sync_txn.simps using assms(4) by blast
qed (simp add: knows_state_def)

lemma phase_keeps:
  assumes "sync_ok s" "open_txn s k x" "sx_phase x \<noteq> SyncWrote" "p \<noteq> SyncWrote"
    "knows_state s (x\<lparr>sx_phase := p\<rparr>)"
  shows "sync_ok (set_txn k (x\<lparr>sx_phase := p\<rparr>) s)"
proof (rule sync_ok_set [OF assms(1) _ _ assms(5)])
  have locks: "locks_ok s" using assms(1) by (simp add: sync_ok_def)
  show "locks_ok (set_txn k (x\<lparr>sx_phase := p\<rparr>) s)"
    unfolding locks_ok_def
  proof (intro allI impI)
    fix a y b z
    assume opened: "open_txn (set_txn k (x\<lparr>sx_phase := p\<rparr>) s) a y"
      "open_txn (set_txn k (x\<lparr>sx_phase := p\<rparr>) s) b z" "a \<noteq> b"
    have held: "\<exists>y'. open_txn s a y' \<and> sx_run y' = sx_run y \<and> sx_row y' = sx_row y \<and>
        (sx_phase y' = SyncWrote \<longleftrightarrow> sx_phase y = SyncWrote)"
      if "open_txn (set_txn k (x\<lparr>sx_phase := p\<rparr>) s) a y" for a y
      using that assms(2-4) by (cases "a = k") auto
    obtain y' where y': "open_txn s a y'" "sx_run y' = sx_run y" "sx_row y' = sx_row y"
      "sx_phase y' = SyncWrote \<longleftrightarrow> sx_phase y = SyncWrote" using held [OF opened(1)] by blast
    obtain z' where z': "open_txn s b z'" "sx_run z' = sx_run z" "sx_row z' = sx_row z"
      "sx_phase z' = SyncWrote \<longleftrightarrow> sx_phase z = SyncWrote" using held [OF opened(2)] by blast
    have "sx_run y' \<noteq> sx_run z' \<and> (sx_phase y' \<noteq> SyncWrote \<longrightarrow> \<not> holds_task (rn_taskId (sx_row y')) z')"
      using locks y'(1) z'(1) opened(3) unfolding locks_ok_def by blast
    then show "sx_run y \<noteq> sx_run z \<and> (sx_phase y \<noteq> SyncWrote \<longrightarrow> \<not> holds_task (rn_taskId (sx_row y)) z)"
      using y' z' by (simp add: holds_task_def)
  qed
  show "runs_match s (x\<lparr>sx_phase := p\<rparr>)"
    using open_matches [OF assms(1,2)] by simp
qed

lemma lock_keeps:
  assumes "sync_ok s" "open_txn s k x" "task_is_free s (rn_taskId (sx_row x))"
  shows "sync_ok (lock_statement k x s)"
  unfolding lock_statement_def
proof (rule sync_ok_set [OF assms(1)])
  have keys: "jsmap_ok (sy_txns s)" and locks: "locks_ok s"
    using assms(1) by (simp_all add: sync_ok_def)
  note free = assms(3) [unfolded free_open(2) [OF keys]]
  show "locks_ok (set_txn k (x\<lparr>sx_phase := SyncLocked\<rparr>) s)"
    unfolding locks_ok_def
  proof (intro allI impI)
    fix a y b z
    assume opened: "open_txn (set_txn k (x\<lparr>sx_phase := SyncLocked\<rparr>) s) a y"
      "open_txn (set_txn k (x\<lparr>sx_phase := SyncLocked\<rparr>) s) b z" "a \<noteq> b"
    consider "a = k" "y = x\<lparr>sx_phase := SyncLocked\<rparr>" "b \<noteq> k" "open_txn s b z"
      | "b = k" "z = x\<lparr>sx_phase := SyncLocked\<rparr>" "a \<noteq> k" "open_txn s a y"
      | "a \<noteq> k" "b \<noteq> k" "open_txn s a y" "open_txn s b z"
      using opened by (auto split: if_splits)
    then show "sx_run y \<noteq> sx_run z \<and> (sx_phase y \<noteq> SyncWrote \<longrightarrow> \<not> holds_task (rn_taskId (sx_row y)) z)"
    proof cases
      case 1
      then show ?thesis using free open_run_is_mine [OF locks assms(2)] by simp
    next
      case 2
      have "\<not> holds_task (rn_taskId (sx_row x)) y" using free 2(4) by blast
      then show ?thesis using open_run_is_mine [OF locks 2(4) assms(2)] 2 by (auto simp: holds_task_def)
    next
      case 3
      then show ?thesis using locks opened(3) unfolding locks_ok_def by blast
    qed
  qed
qed (use open_matches [OF assms(1,2)] in \<open>simp_all add: knows_state_def\<close>)

lemma read_keeps:
  assumes "sync_ok s" "open_txn s k x" "sx_phase x = SyncLocked"
  shows "sync_ok (read_statement k x s)"
  unfolding read_statement_def
  by (rule phase_keeps [OF assms(1,2)]) (simp_all add: assms(3) knows_state_def seen_runs_def)

lemma update_keeps:
  assumes "sync_ok s" "open_txn s k x" "sx_phase x = SyncRead n"
  shows "sync_ok (update_statement k x n s)"
proof -
  have "knows_state s x" using assms(1,2) unfolding sync_ok_def by blast
  then have "knows_state s (x\<lparr>sx_phase := SyncUpdated n\<rparr>)"
    using assms(3) by (simp add: knows_state_def seen_runs_def)
  then show ?thesis
    unfolding update_statement_def
    by (intro phase_keeps [OF assms(1,2)]) (simp_all add: assms(3))
qed

text \<open>What another transaction sees of its task, before and after the commit of \<open>x\<close>.\<close>

lemma seen_after_commit:
  assumes "sync_ok s" "open_txn s k x" "open_txn s k' y" "k' \<noteq> k"
    "rn_taskId (sx_row y) \<noteq> rn_taskId (sx_row x)"
  shows "state_runs (rn_taskId (sx_row y)) (insert_row (sx_run y) (sx_row y) (seen_runs s x)) =
    state_runs (rn_taskId (sx_row y)) (seen_runs s y)"
  unfolding seen_runs_def
proof (rule state_runs_two)
  show "jsmap_ok (sy_runs s)" using assms(1) by (simp add: sync_ok_def)
  show "sx_run x \<noteq> sx_run y"
    using open_run_is_mine [of s k x k' y] assms by (auto simp: sync_ok_def)
  show "map_of (sy_runs s) (sx_run y) = Some r \<Longrightarrow> rn_taskId r = rn_taskId (sx_row y)" for r
    using open_matches [OF assms(1,3)] unfolding runs_match_def by blast
  show "map_of (sy_runs s) (sx_run x) = Some r \<Longrightarrow> rn_taskId r = rn_taskId (sx_row x)" for r
    using open_matches [OF assms(1,2)] unfolding runs_match_def by blast
qed (use assms(5) in auto)

lemma commit_statement_fields [simp]:
  "sy_runs (commit_statement now k x n s) = seen_runs s x"
  "sy_tasks (commit_statement now k x n s) =
     committed_task now (rn_taskId (sx_row x)) n (sy_tasks s)"
  "sy_txns (commit_statement now k x n s) = AList.delete k (sy_txns s)"
  by (simp_all add: commit_statement_def)

lemma open_commit [simp]:
  "open_txn (commit_statement now k x n s) k' y \<longleftrightarrow> k' \<noteq> k \<and> open_txn s k' y"
  by (auto simp: open_txn_def delete_conv')

lemma commit_keeps_txn:
  assumes "sync_ok s" "open_txn s k x" "sx_phase x = SyncUpdated n" "open_txn s k' y" "k' \<noteq> k"
  shows "runs_match (commit_statement now k x n s) y" "knows_state (commit_statement now k x n s) y"
proof -
  have locks: "locks_ok s" using assms(1) by (simp add: sync_ok_def)
  have "sx_run x \<noteq> sx_run y" using open_run_is_mine [OF locks assms(2,4)] assms(5) by blast
  then show "runs_match (commit_statement now k x n s) y"
    using open_matches [OF assms(1,4)]
    unfolding runs_match_def commit_statement_fields seen_runs_def map_of_insert_row
    by (metis fun_upd_other)
  show "knows_state (commit_statement now k x n s) y"
  proof (cases "sx_phase y = SyncWrote")
    case False
    have "\<not> holds_task (rn_taskId (sx_row x)) y"
      using locks assms(2-5) unfolding locks_ok_def by (metis sync_phase.distinct(5))
    then have other: "rn_taskId (sx_row y) \<noteq> rn_taskId (sx_row x)"
      using False by (simp add: holds_task_def)
    have "knows_state s y" using assms(1,4) unfolding sync_ok_def by blast
    then show ?thesis
      using seen_after_commit [OF assms(1,2,4,5) other]
      by (simp add: knows_state_def seen_runs_def [of "commit_statement now k x n s" y])
  qed (simp add: knows_state_def)
qed

lemma committed_other:
  "t \<noteq> taskId \<Longrightarrow> map_of (committed_task now taskId n tasks) t = map_of tasks t"
  by (simp add: committed_task_def table_ops split: option.split)

lemma committed_own:
  "map_of (committed_task now taskId (Some state) tasks) taskId = Some task \<Longrightarrow> tk_state task = state"
  by (auto simp: committed_task_def table_ops split: if_splits)

lemma commit_derives:
  assumes "sync_ok s" "open_txn s k x" "sx_phase x = SyncUpdated n"
    "map_of (sy_tasks (commit_statement now k x n s)) t = Some task"
    "state_runs t (sy_runs (commit_statement now k x n s)) \<noteq> []"
  shows "deriveTaskStateFromRuns (state_runs t (sy_runs (commit_statement now k x n s))) =
    Some (tk_state task)"
proof (cases "t = rn_taskId (sx_row x)")
  case True
  have "knows_state s x" using assms(1,2) unfolding sync_ok_def by blast
  then have n: "n = deriveTaskStateFromRuns (state_runs t (seen_runs s x))"
    using assms(3) True by (simp add: knows_state_def)
  obtain state where state: "n = Some state"
    using assms(5) derive_None [of "state_runs t (seen_runs s x)"] n by auto
  then have "tk_state task = state" using assms(4) True committed_own by simp
  then show ?thesis using n state by simp
next
  case False
  have "state_runs t (seen_runs s x) = state_runs t (sy_runs s)"
    unfolding seen_runs_def
    by (rule state_runs_other_task) (use False open_matches [OF assms(1,2)] in \<open>auto simp: runs_match_def\<close>)
  then show ?thesis
    using assms(1,4,5) False unfolding sync_ok_def by (simp add: committed_other)
qed

lemma commit_keeps:
  assumes "sync_ok s" "open_txn s k x" "sx_phase x = SyncUpdated n"
  shows "sync_ok (commit_statement now k x n s)"
  unfolding sync_ok_def
proof (intro conjI allI impI)
  show "jsmap_ok (sy_runs (commit_statement now k x n s))"
    using assms(1) by (simp add: sync_ok_def seen_runs_def)
  show "jsmap_ok (sy_tasks (commit_statement now k x n s))"
    using assms(1) by (simp add: sync_ok_def committed_task_def split: option.split)
  show "jsmap_ok (sy_txns (commit_statement now k x n s))"
    using assms(1) by (simp add: sync_ok_def jsmap_ok_def distinct_delete)
  show "locks_ok (commit_statement now k x n s)"
    using assms(1) unfolding sync_ok_def locks_ok_def open_commit by blast
qed (use commit_keeps_txn [OF assms] commit_derives [OF assms] in \<open>auto simp del: commit_statement_fields\<close>)

lemma sync_step_ok:
  assumes "sync_step s t" "sync_ok s"
  shows "sync_ok t"
  using assms
proof (induction rule: sync_step.induct)
  case (sy_update s k i old row)
  then show ?case by (intro write_keeps) auto
next
  case (sy_insert s k i row)
  then show ?case by (intro write_keeps) auto
qed (simp_all add: lock_keeps read_keeps update_keeps commit_keeps sync_ok_end)

lemma sync_reachable_ok: "sync_reachable s \<Longrightarrow> sync_ok s"
proof (induction rule: sync_reachable.induct)
  case (sy_start runs tasks)
  have "deriveTaskStateFromRuns (state_runs t runs) = Some (tk_state task)"
    if "map_of tasks t = Some task" "state_runs t runs \<noteq> []" for t task
  proof -
    have "(t, task) \<in> set tasks" using that(1) by (rule map_of_SomeD)
    then show ?thesis
      using sy_start that(2) derive_None [of "state_runs t runs"]
      by (auto simp: derived_tables_def list_all_iff split: option.splits)
  qed
  then show ?case
    using sy_start
    by (simp add: sync_ok_def sync_start_def derived_tables_def locks_ok_def open_txn_def jsmap_ok_def)
qed (rule sync_step_ok)

subsection \<open>The transactions as one step\<close>

text \<open>The committed tables as a database of \<open>TaskState\<close>, of which the rest does not matter here.\<close>

definition with_tables :: "run_db \<Rightarrow> sync_db \<Rightarrow> run_db" where
  "with_tables db s = db\<lparr>rd_runs := sy_runs s, rd_tasks := sy_tasks s\<rparr>"

text \<open>The whole transaction as one step, on what is committed now.\<close>

definition atomically :: "ms \<Rightarrow> string \<Rightarrow> sync_txn \<Rightarrow> run_db \<Rightarrow> run_db" where
  "atomically now j x db =
     syncTaskStateFromRuns now j (rn_taskId (sx_row x)) (insert_run (sx_run x) (sx_row x) db)"

lemma commit_is_atomic:
  assumes "sync_ok s" "open_txn s k x" "sx_phase x = SyncUpdated n"
  shows "sy_runs (commit_statement now k x n s) = rd_runs (atomically now j x (with_tables db s))"
    "sy_tasks (commit_statement now k x n s) = rd_tasks (atomically now j x (with_tables db s))"
proof -
  have "knows_state s x" using assms(1,2) unfolding sync_ok_def by blast
  then have n: "n = deriveTaskStateFromRuns (state_runs (rn_taskId (sx_row x)) (seen_runs s x))"
    using assms(3) by (simp add: knows_state_def)
  show "sy_runs (commit_statement now k x n s) = rd_runs (atomically now j x (with_tables db s))"
    by (simp add: atomically_def insert_run_def with_tables_def seen_runs_def)
  show "sy_tasks (commit_statement now k x n s) = rd_tasks (atomically now j x (with_tables db s))"
    unfolding atomically_def sync_tasks commit_statement_fields committed_task_def n
    by (simp add: insert_run_def with_tables_def seen_runs_def split: option.split)
qed

subsection \<open>A sample\<close>

text \<open>Two runs of a task end at the same time; the second to lock the task sees that the first has.\<close>

definition sample_runs :: "(nat, run_row) jsmap" where
  "sample_runs =
     (let run = (new_run 100 ''t'' False None
            \<lparr>lo_initialStatus = None, lo_initialTaskPhase = None, lo_initialError = None\<rparr>)
            \<lparr>rn_status := Running, rn_startedAt := Some 200\<rparr>
      in [(7, run), (8, run)])"

definition sample_tasks :: "task_row table" where
  "sample_tasks = [(''t'', \<lparr>tk_state = TaskActive, tk_updatedAt = 100\<rparr>)]"

definition sample_ended :: "run_status \<Rightarrow> nat \<Rightarrow> run_row" where
  "sample_ended status i = (the (map_of sample_runs i))\<lparr>rn_status := status\<rparr>"

definition sample_txn :: "nat \<Rightarrow> sync_db \<Rightarrow> sync_txn" where
  "sample_txn k s = the (map_of (sy_txns s) k)"

text \<open>A transaction that has written its run goes on to its last statement, and commits.\<close>

definition sample_updated :: "nat \<Rightarrow> sync_db \<Rightarrow> sync_db" where
  "sample_updated k s =
     (let s1 = lock_statement k (sample_txn k s) s; s2 = read_statement k (sample_txn k s1) s1
      in case sx_phase (sample_txn k s2) of
           SyncRead n \<Rightarrow> update_statement k (sample_txn k s2) n s2
         | _ \<Rightarrow> s2)"

definition sample_next_state :: "nat \<Rightarrow> sync_db \<Rightarrow> task_state option" where
  "sample_next_state k s = (case sx_phase (sample_txn k s) of SyncUpdated n \<Rightarrow> n | _ \<Rightarrow> None)"

definition sample_commit :: "nat \<Rightarrow> sync_db \<Rightarrow> sync_db" where
  "sample_commit k s = commit_statement 400 k (sample_txn k s) (sample_next_state k s) s"

definition sample_both :: sync_db where
  "sample_both =
     write_statement 1 8 (sample_ended Canceled 8)
       (write_statement 0 7 (sample_ended Completed 7) (sync_start sample_runs sample_tasks))"

definition sample_waiting :: sync_db where
  "sample_waiting = sample_updated 1 (sample_commit 0 (sample_updated 0 sample_both))"

definition sample_rest :: run_db where
  "sample_rest = \<lparr>rd_runs = [], rd_tasks = [], rd_parallel = [], rd_events = [], rd_sessionTasks = [],
     rd_judgments = \<lparr>jd_sessions = [], jd_rows = [], jd_deliveries = [], jd_settings = None\<rparr>\<rparr>"

lemma sample_updated_reachable:
  assumes "sync_reachable s" "open_txn s k x" "sx_phase x = SyncWrote"
    "task_is_free s (rn_taskId (sx_row x))"
  shows "sync_reachable (sample_updated k s)"
proof -
  let ?s1 = "lock_statement k x s" and ?x1 = "x\<lparr>sx_phase := SyncLocked\<rparr>"
  have x: "sample_txn k s = x" using assms(2) by (simp add: sample_txn_def open_txn_def)
  have s1: "sync_reachable ?s1" using assms sy_lock sy_next by blast
  have x1: "open_txn ?s1 k ?x1" by (simp add: lock_statement_def)
  have t1: "sample_txn k ?s1 = ?x1" using x1 by (simp add: sample_txn_def open_txn_def)
  let ?n = "deriveTaskStateFromRuns (state_runs (rn_taskId (sx_row ?x1)) (seen_runs ?s1 ?x1))"
  let ?s2 = "read_statement k ?x1 ?s1" and ?x2 = "?x1\<lparr>sx_phase := SyncRead ?n\<rparr>"
  have s2: "sync_reachable ?s2" by (rule sy_next [OF s1 sy_read [OF x1]]) simp
  have x2: "open_txn ?s2 k ?x2" by (simp add: read_statement_def)
  have t2: "sample_txn k ?s2 = ?x2" using x2 by (simp add: sample_txn_def open_txn_def)
  have "sync_reachable (update_statement k ?x2 ?n ?s2)"
    by (rule sy_next [OF s2 sy_set [OF x2]]) simp
  then show ?thesis unfolding sample_updated_def Let_def x t1 t2 by simp
qed

lemma sample_both_reachable: "sync_reachable sample_both"
proof -
  have "derived_tables sample_runs sample_tasks" unfolding jsmap_ok_def derived_tables_def by code_simp
  then have "sync_reachable (sync_start sample_runs sample_tasks)" by (rule sy_start)
  then have "sync_reachable (write_statement 0 7 (sample_ended Completed 7) (sync_start sample_runs sample_tasks))"
    by (rule sy_next) (rule sy_update [where old = "the (map_of sample_runs 7)"]; code_simp)
  then show ?thesis
    unfolding sample_both_def
    by (rule sy_next) (rule sy_update [where old = "the (map_of sample_runs 8)"]; code_simp)
qed

lemma sample_waiting_reachable: "sync_reachable sample_waiting"
proof -
  have "sync_reachable (sample_updated 0 sample_both)"
    by (rule sample_updated_reachable [OF sample_both_reachable, where x = "sample_txn 0 sample_both"])
      (code_simp)+
  then have "sync_reachable (sample_commit 0 (sample_updated 0 sample_both))"
    unfolding sample_commit_def by (rule sy_next) (rule sy_commit; code_simp)
  then show ?thesis
    unfolding sample_waiting_def
    by (rule sample_updated_reachable
        [where x = "sample_txn 1 (sample_commit 0 (sample_updated 0 sample_both))"]) (code_simp)+
qed

lemma sample_last_commit: "sync_step sample_waiting (sample_commit 1 sample_waiting)"
  unfolding sample_commit_def by (rule sy_commit; code_simp)

subsection \<open>The properties\<close>

text \<open>C15: Transactions that end runs of the same task at the same time, in any interleaving of their
  statements under read committed isolation and with any of them aborted, never leave the task with
  a state other than the one its committed runs give it, at no commit: the lock on the task's row
  makes the later one read what the earlier one committed.\<close>

theorem concurrent_derivations_agree:
  assumes "sync_reachable s" "map_of (sy_tasks s) taskId = Some task"
    "state_runs taskId (sy_runs s) \<noteq> []"
  shows "deriveTaskStateFromRuns (state_runs taskId (sy_runs s)) = Some (tk_state task)"
  using sync_reachable_ok [OF assms(1)] assms(2,3) unfolding sync_ok_def by blast

text \<open>C16: The statements of concurrent transactions commit as if each transaction had taken place in
  one piece at its commit: what is committed changes only by an open transaction's own run and the
  task state that \<open>syncTaskStateFromRuns\<close>, called there and then, stores.\<close>

theorem concurrent_transactions_are_atomic:
  assumes "sync_reachable s" "sync_step s t"
  shows "(sy_runs t = sy_runs s \<and> sy_tasks t = sy_tasks s) \<or>
    (\<exists>now k x. open_txn s k x \<and>
       sy_runs t = rd_runs (atomically now j x (with_tables db s)) \<and>
       sy_tasks t = rd_tasks (atomically now j x (with_tables db s)))"
  using assms(2)
proof (cases rule: sync_step.cases)
  case (sy_commit k x nextState now)
  then show ?thesis using commit_is_atomic [OF sync_reachable_ok [OF assms(1)] sy_commit(2,3)] by blast
qed (simp_all add: write_statement_def lock_statement_def read_statement_def update_statement_def)

theorem concurrent_derivations_agree_witness:
  "deriveTaskStateFromRuns (state_runs ''t'' (sy_runs (sample_commit 1 sample_waiting))) =
     Some (tk_state (the (map_of (sy_tasks (sample_commit 1 sample_waiting)) ''t'')))"
  by (rule concurrent_derivations_agree [OF sy_next [OF sample_waiting_reachable sample_last_commit]];
      code_simp)

theorem concurrent_transactions_are_atomic_witness:
  "\<exists>now k x. sy_tasks (sample_commit 1 sample_waiting) =
     rd_tasks (atomically now ''j'' x (with_tables sample_rest sample_waiting))"
proof -
  have "sy_tasks (sample_commit 1 sample_waiting) \<noteq> sy_tasks sample_waiting" by code_simp
  then show ?thesis
    using concurrent_transactions_are_atomic
        [OF sample_waiting_reachable sample_last_commit, of "''j''" sample_rest] by blast
qed

end
