(* ===== verification/Spec2Isabelle.thy ===== *)
theory Spec2Isabelle
  imports
    TaskVocabulary RunLifecycle TaskPayload Workspace
    PromptQueue QueuedMessages QueueChannel StallWatchdog ChatReply
    ToolPolicy ToolApprovals Redaction ApprovalRequests ApprovalEnforcement NativeRules NativeAsks
    WakeupSchedule SessionWakeups WakeupFiring
    RunWhen SessionGoals WorkItems StreamRegistry ResumeStore Retry UrlParser
    InboundQueue DeliveryLoop DeliverySystem DeliveryProgress
    CustomAutomations EventKeys SessionInbox InboxDrain InboxSystem InboxRows InboxSafety
    InboxDelivery InboxOrder
    StatusJudgments JudgmentSafety
    TaskState RunWriters RunWorkers RunSystem RunEffects RunSafety TaskStateSync
begin

text \<open>
  Roomote: the coordination core.

  Roomote runs coding agents in sandboxes. A launch (from a chat surface, a webhook, an
  automation or the web app) becomes a task with runs; the controller boots a sandbox, in which
  the worker drives a harness and reports to the API; the web app and the chat surfaces follow.
  This development models the parts of it that carry state and decisions of their own, in the
  order below, each translated from the TypeScript sources under \<open>apps/\<close> and \<open>packages/\<close>.

  Theories and what they model.

    \<^item> \<open>Prelude\<close>: the language. Optional values and truthiness, \<open>trim\<close> and \<open>toLowerCase\<close> on code
      units 0 to 255, array searching and splicing, \<open>Map\<close> objects as association lists with
      distinct keys, decimal numerals; and the two contracts of stateful objects, the locales
      \<open>object_contract\<close> (an invariant kept by every admissible operation, hence by every
      sequence of them) and \<open>measured_contract\<close> (with a bound on growth).
    \<^item> \<open>Tables\<close>: database tables as association lists with distinct keys, and the statements the
      sources make on them: a guarded update of one row, of all rows, an insert, a query.
    \<^item> \<open>JsValue\<close>: values of type \<open>unknown\<close> and the readers of \<open>packages/types/src/primitives.ts\<close>.
    \<^item> \<open>TaskVocabulary\<close>: closed vocabularies of \<open>packages/types/src/task-runs.ts\<close> (workflows,
      surfaces, payload kinds, tool actions, launch classes), predicates over them, payload flags,
      and the reasoning-effort clamp of \<open>opencode-reasoning.ts\<close>.
    \<^item> \<open>RunLifecycle\<close>: run statuses and task phases, the disconnect event, snapshot expiry and
      the keepalive policy (\<open>keepalive-policy.ts\<close>, \<open>snapshot-retention.ts\<close>).
    \<^item> \<open>TaskPayload\<close>: the readers and writers of communication metadata in an untyped payload.
    \<^item> \<open>Workspace\<close>: \<open>resolveTaskWorkspace\<close> and the workspace fields of a Fast launch.
    \<^item> \<open>PromptQueue\<close>: the worker's queue of follow-up prompts (\<open>runtime-prompt-queue.ts\<close>): every
      method of the class but the one that builds prompt blocks, and the updates it emits.
    \<^item> \<open>QueuedMessages\<close>: the task page's merge of the worker's queue with messages not yet
      acknowledged (\<open>queued-message-state.ts\<close>).
    \<^item> \<open>QueueChannel\<close>: the serialized update between the two and the page's parser of it; its
      property composes both ends.
    \<^item> \<open>StallWatchdog\<close>: the turn-stall watchdog of the OpenCode harness, its timer and the check that
      waits for a verification between two halves.
    \<^item> \<open>ChatReply\<close>: the state file that records whether a chat turn has been answered
      (\<open>chat-reply-satisfaction.ts\<close>).
    \<^item> \<open>ToolPolicy\<close> and \<open>ToolApprovals\<close>: which integration tools may be mounted, which policy governs
      a tool, and the native permission rules compiled for a task.
    \<^item> \<open>Redaction\<close>: the bounded view of a call's arguments that is shown and stored
      (\<open>integration-tool-args.ts\<close>, \<open>secret-redaction.ts\<close>); the scanner for credentials is an argument.
    \<^item> \<open>ApprovalRequests\<close>: the transactions on stored policies, approval requests, session overrides
      and a session's Auto state (\<open>packages/db/src/lib/integration-tool-approvals.ts\<close>).
    \<^item> \<open>ApprovalEnforcement\<close>: what the integration proxy does with a call
      (\<open>tool-approval-enforcement.ts\<close>, \<open>native-tool-approvals.ts\<close>, \<open>unasked-task-tool-call.ts\<close>) and
      the ask made for a task (\<open>task-tool-approvals.ts\<close>).
    \<^item> \<open>NativeRules\<close> and \<open>NativeAsks\<close>: the permission bridge of a session's own agent: server names,
      native rules, which call an ask is for, and its answer (\<open>fast-agent-tool-policy.ts\<close>,
      \<open>fast-agent-tool-approvals.ts\<close>).
    \<^item> \<open>WakeupSchedule\<close>: the grammar, normalization and caps of a wakeup's schedule
      (\<open>session-wakeups/parse.ts\<close>, \<open>session-wakeups/schedule.ts\<close>).
    \<^item> \<open>SessionWakeups\<close>: the rows of wakeups, their admission, claims and outcomes, the service, the
      agent's tool and the recovery sweep (\<open>packages/db/src/lib/session-wakeups.ts\<close>,
      \<open>session-wakeups/service.ts\<close>).
    \<^item> \<open>WakeupFiring\<close>: the workers that fire an occurrence, in the steps between their awaits, any
      number of them and with crashes (\<open>packages/sdk/src/server/lib/session-wakeups.ts\<close>).
    \<^item> \<open>RunWhen\<close>: the launch criteria of a custom automation, schema and evaluation.
    \<^item> \<open>SessionGoals\<close>: goals, generations, and the continuations that spend a goal's budget
      (\<open>packages/db/src/lib/session-goals.ts\<close>).
    \<^item> \<open>WorkItems\<close>: the launch state machine of a work item with its fencing token
      (\<open>packages/db/src/lib/work-item-claims.ts\<close>).
    \<^item> \<open>StreamRegistry\<close>: the API's registry of long-lived proxy streams.
    \<^item> \<open>ResumeStore\<close>: the Discord gateway's resume checkpoint and its database rows.
    \<^item> \<open>Retry\<close>: four retry policies over one contract of a capped exponential delay.
    \<^item> \<open>InboundQueue\<close> and \<open>DeliveryLoop\<close>: the gateway's durable queue of events over Redis streams, the
      forwarder to the API and the loop between them (\<open>inbound-queue.ts\<close>, \<open>api-forwarder.ts\<close>,
      \<open>delivery-loop.ts\<close>, \<open>status.ts\<close>); \<open>DeliverySystem\<close>: the gateway, several workers, pruning and
      crashes interleaved over that queue; \<open>DeliveryProgress\<close>: an uninterrupted worker.
    \<^item> \<open>UrlParser\<close>: the hosts of the preview proxy.
    \<^item> \<open>CustomAutomations\<close>: the stored automations of users: validation, create and update, webhook
      tokens, the launch claim with its fencing token and the outcome of a run
      (\<open>packages/db/src/lib/custom-automations.ts\<close>).
    \<^item> \<open>EventKeys\<close>: what a session's inbox stores of an event and the key it is known by
      (\<open>fast-agent-parent-event-json.ts\<close>, \<open>fast-agent-parent-event.ts\<close>).
    \<^item> \<open>SessionInbox\<close>: the rows of \<open>fast_agent_parent_events\<close> and every statement made on them, by
      the queue (\<open>fast-agent-parent-event-queue.ts\<close>), by turns that a process runs itself
      (\<open>fast-agent-human-follow-up.ts\<close>, \<open>fast-agent-conversation-repository.ts\<close>) and by the web
      page (\<open>fast-sessions.ts\<close>); \<open>InboxDrain\<close>: the worker that drains a conversation, in the steps
      between its queries, with the outcomes it records with automations and wakeups;
      \<open>InboxSystem\<close>: any number of drains beside turns, steers, publications, withdrawals and
      crashes; \<open>InboxRows\<close>: what each of them does to a row; \<open>InboxSafety\<close>, \<open>InboxDelivery\<close> and
      \<open>InboxOrder\<close>: what holds in all their interleavings.
    \<^item> \<open>StatusJudgments\<close>: the requests to judge whether a session is done, the verdict a worker reaches,
      and the webhook that announces it (\<open>session-status-judgments.ts\<close>,
      \<open>session-status-judgment.ts\<close>, \<open>session-done-webhooks.ts\<close>), with the workers and senders at
      work together; \<open>JudgmentSafety\<close>: what holds in all their interleavings.
    \<^item> \<open>TaskState\<close>: the rows of tasks and runs and the derivation of a task's state from its runs
      (\<open>sync-task-state.ts\<close>); \<open>RunWriters\<close>: launches, retries, resumes, stops and cancels
      (\<open>task-run-queue.ts\<close>, \<open>cancel-task-run.ts\<close>, \<open>stop-task-run.ts\<close> and four callers); \<open>RunWorkers\<close>: the
      end of a run (\<open>finish-run.ts\<close>), the controller (\<open>BaseController.ts\<close>, \<open>orphaned-task-runs.ts\<close>), the
      worker's claim and progress and the sweeps (\<open>sleep-check.ts\<close>, \<open>snapshot.ts\<close>); \<open>RunSystem\<close>: all of
      them together; \<open>RunEffects\<close>: what each of them does; \<open>RunSafety\<close>: what holds in all their
      interleavings; \<open>TaskStateSync\<close>: the transaction of the derivation, statement by statement.

  How state and effects are translated. An object or a module's variables are a record; a method
  returns the updated record with its result; what the outside answers during a call (the clock,
  random ids, callbacks, the network) is an argument. A database table is a map from keys to rows
  and one statement or transaction is one step; a function that awaits something in between is
  two steps, so that other operations can come between them (\<open>claim_read\<close> and \<open>claim_write\<close>,
  \<open>update_begin\<close> and \<open>update_saved\<close>, \<open>flush_begin\<close> and \<open>flush_done\<close> or \<open>flush_failed\<close>,
  \<open>begin_check\<close> and \<open>end_check\<close>, \<open>claim_reservation\<close> and \<open>close_reservation\<close>, the steps of
  \<open>worker_step\<close>), or takes the transactions that come in between as an argument (the rounds of a wait
  for a decision). Thrown errors are left values of a sum; absent values are
  \<open>None\<close>. Numbers are integers, and rational where the code compares fractions; times are in
  milliseconds. Every loop is a total function: there is fuel in one place only, the plans of a
  reconnecting page (\<open>failing_plans\<close>), where four units are shown to be enough.

  Interfaces. \<open>object_contract\<close> is interpreted by the prompt queue (\<open>pq\<close>, and \<open>pq_reader\<close> for a
  client of its updates), the page's view (\<open>view\<close>), the two ends together (\<open>channel\<close>), the work
  items (\<open>fence\<close>, \<open>settle\<close>, \<open>owned\<close>), the approval transactions (\<open>requests\<close> for the rows,
  \<open>settled_request\<close> for a settled one, \<open>overrides\<close>, \<open>policies\<close>), the stream registry (\<open>registry\<close>) and the reconnect state
  (\<open>reconnect\<close>); \<open>resume_repository\<close>, what the resume store relies on of its repository, by the
  database rows (\<open>rows\<close>); \<open>bounded_backoff\<close> by five delays (\<open>login\<close>, \<open>inbound\<close>, \<open>inference\<close>,
  \<open>delivery\<close>, and \<open>attempts\<close> of the session inbox).

  What the groups of lemmas show. Safety of the concurrent parts: no acknowledgement is skipped by
  a resume, no budget is exceeded under any interleaving of continuations, a launcher that lost
  its claim cannot settle the item, one approval runs one call whichever of the three claims takes
  it, a rejection beats Auto, launches of one occurrence of an automation are spaced, no run of a wakeup
  is lost or delivered twice with any number of workers and crashes, a session is announced as done
  only on a verdict for its newest event with nothing going on, the state of a task is always the one
  its runs give it, a run is started once and never after it has ended, recovery of a turn only after a full window of silence, no Discord event
  overtakes an earlier one and none is lost or accepted twice in a day.
  Progress: the watchdog always has a check pending or a turn settled, a stale claim can be taken
  again, every retry loop ends, an uninterrupted delivery worker empties its queue. Exactness: the compiled permission rules, the proxy's blocks, the launch gate, the
  governing policies, the host parsers and the health snapshot are characterised by
  specifications that do not follow the code's control flow. Round trips: database rows, callback
  data, serialized queue updates.

  What the modelling showed. \<open>ResumeStore.flush_overtakes_a_new_session\<close>: a flush in flight while
  a shard's session changes raises the new session's durable sequence to one of the old session;
  the safety property is stated for runs in which this does not happen.
  \<open>SessionGoals.release_lands_before_the_limit\<close>: the transition to budget-limited does not look at
  the budget again, so a continuation released in between still leaves the goal limited.
  \<open>SessionInbox.retry_due_between_the_queries\<close>: the look for the next event of a conversation reads
  the clock twice, and an event whose retry comes due in between is overtaken by the one behind it.
  \<open>ToolApprovals.allowed_tool_shares_the_ask\<close>: a native key shared with an allowed tool is asked about,
  not denied. \<open>QueueChannel.replace_is_no_cause_of_the_page\<close>: the worker's cause \<open>replace\<close> is not among
  the page's causes, which treats it as no cause.

  \<open>RunSystem.stale_entry_starts_a_run_twice\<close>: the controller dispatches a run that is already at work if
  the queue hands it out, and a second worker starts it; the properties of a run's start are stated
  for queues that do not (\<open>fresh\<close>). Some cancels do not derive the state of their task; the
  properties of it are stated for the others (\<open>routed\<close>).

  The same call that the owner allowed for the session while its ask was pending is refused at the
  proxy: the reservation that \<open>requestTaskToolApproval\<close> claims is not there for the claim of
  \<open>decideUnaskedTaskToolCall\<close>. The wakeup properties assume \<open>cron_forward\<close>, that the cron library
  answers a time after the one it is asked from, and that a job is not taken before its time
  (a step of the machine requires it): a worker whose clock is behind could otherwise compute the same
  occurrence again.

  In the delivery loop the branch that retries an event in place is not taken with the gateway's
  own forwarder, which answers an outage with \<open>false\<close> for every event it does not refuse. The
  properties of the delivery system assume that the text \<open>JSON.stringify\<close> makes of an event is not
  empty and parses back (a premise of the step that sends it) and that Redis issues increasing ids.

  What is not modelled: rendering and formatting (the web app's components, the chat surfaces'
  blocks), the clients of external services, the sandbox providers, the database schema apart
  from the rows above, authentication and encryption, and the prompts.
\<close>

end
